(* ===== verification/Ios_Prelude.thy ===== *)
theory Ios_Prelude
  imports Main "HOL-Library.Word" "HOL-Library.Finite_Map"
begin

text \<open>
  Shared vocabulary of the development: bytes and machine integers, the byte-order
  conversions of the Rust standard library (\<open>to_le_bytes\<close>, \<open>from_be_bytes\<close> and their
  kin), UTF-8 well-formedness (\<open>std::str::from_utf8\<close>), checked and saturating
  arithmetic on \<open>usize\<close>, and the outcome type of an asynchronous operation with the
  combinators its handlers are written in. The generic lemmas about them are collected in
  \<open>byte_simps\<close> (byte order), \<open>proc_simps\<close> (running a handler) and \<open>keeps_intros\<close>
  (invariant preservation through a handler).
\<close>

named_theorems byte_simps
named_theorems proc_simps
named_theorems keeps_intros

section \<open>Machine integers and byte strings\<close>

type_synonym byte = "8 word"
type_synonym bytes = "byte list"
type_synonym u16 = "16 word"
type_synonym u32 = "32 word"
type_synonym u64 = "64 word"

text \<open>Signed integers are the same words, read with \<open>sint\<close>.\<close>

type_synonym i32 = "32 word"
type_synonym i64 = "64 word"

text \<open>
  Lengths are \<open>usize\<close> on the 64-bit targets the crate is built for: natural numbers
  below \<open>2 ^ 64\<close>, with the overflow test of \<open>checked_add\<close> written out.
\<close>

abbreviation (input) usize_MAX :: nat where
  "usize_MAX \<equiv> 18446744073709551615"

definition usize_checked_add :: "nat \<Rightarrow> nat \<Rightarrow> nat option" where
  "usize_checked_add a b = (if a + b \<le> usize_MAX then Some (a + b) else None)"

definition usize_checked_mul :: "nat \<Rightarrow> nat \<Rightarrow> nat option" where
  "usize_checked_mul a b = (if a * b \<le> usize_MAX then Some (a * b) else None)"

definition usize_checked_sub :: "nat \<Rightarrow> nat \<Rightarrow> nat option" where
  "usize_checked_sub a b = (if b \<le> a then Some (a - b) else None)"

lemma usize_checked_add_Some [simp]:
  "usize_checked_add a b = Some c \<longleftrightarrow> c = a + b \<and> a + b \<le> usize_MAX"
  by (auto simp: usize_checked_add_def)

lemma usize_checked_add_None [simp]:
  "usize_checked_add a b = None \<longleftrightarrow> usize_MAX < a + b"
  by (auto simp: usize_checked_add_def)

lemma usize_checked_mul_Some [simp]:
  "usize_checked_mul a b = Some c \<longleftrightarrow> c = a * b \<and> a * b \<le> usize_MAX"
  by (auto simp: usize_checked_mul_def)

lemma usize_checked_sub_Some [simp]:
  "usize_checked_sub a b = Some c \<longleftrightarrow> c = a - b \<and> b \<le> a"
  by (auto simp: usize_checked_sub_def)

lemma usize_checked_sub_None [simp]: "usize_checked_sub a b = None \<longleftrightarrow> a < b"
  by (auto simp: usize_checked_sub_def)

section \<open>Byte order\<close>

text \<open>
  \<open>le_digits n x\<close> are the \<open>n\<close> low-order base-256 digits of \<open>x\<close>, least significant
  first; \<open>le_value\<close> reads a digit string back.
\<close>

fun le_digits :: "nat \<Rightarrow> nat \<Rightarrow> bytes" where
  "le_digits 0 x = []"
| "le_digits (Suc n) x = of_nat (x mod 256) # le_digits n (x div 256)"

fun le_value :: "bytes \<Rightarrow> nat" where
  "le_value [] = 0"
| "le_value (b # bs) = unat b + 256 * le_value bs"

lemma length_le_digits [simp]: "length (le_digits n x) = n"
  by (induction n arbitrary: x) auto

lemma unat_byte_less [simp]: "unat (b :: byte) < 256"
  using unsigned_less [of b] by simp

lemma unat_byte_mod: "unat (of_nat (x mod 256) :: byte) = x mod 256"
  by (simp add: unat_of_nat)

lemma le_value_digits: "le_value (le_digits n x) = x mod 256 ^ n"
proof (induction n arbitrary: x)
  case 0
  then show ?case by simp
next
  case (Suc n)
  have "x mod (256 * 256 ^ n) = 256 * (x div 256 mod 256 ^ n) + x mod 256"
    by (rule mod_mult2_eq)
  then show ?case by (simp add: Suc.IH unat_byte_mod)
qed

lemma le_value_less: "le_value bs < 256 ^ length bs"
proof (induction bs)
  case Nil
  then show ?case by simp
next
  case (Cons b bs)
  have "unat b + 256 * le_value bs < 256 * Suc (le_value bs)" by simp
  also have "\<dots> \<le> 256 * 256 ^ length bs" using Cons.IH by (intro mult_le_mono) auto
  finally show ?case by simp
qed

lemma le_digits_value: "le_digits (length bs) (le_value bs) = bs"
proof (induction bs)
  case Nil
  then show ?case by simp
next
  case (Cons b bs)
  have "unat b < 256" by simp
  then have "(unat b + 256 * le_value bs) mod 256 = unat b"
    and "(unat b + 256 * le_value bs) div 256 = le_value bs" by auto
  with Cons.IH show ?case by simp
qed

definition to_le16 :: "u16 \<Rightarrow> bytes" where "to_le16 w = le_digits 2 (unat w)"
definition to_le32 :: "u32 \<Rightarrow> bytes" where "to_le32 w = le_digits 4 (unat w)"
definition to_le64 :: "u64 \<Rightarrow> bytes" where "to_le64 w = le_digits 8 (unat w)"
definition to_be16 :: "u16 \<Rightarrow> bytes" where "to_be16 w = rev (le_digits 2 (unat w))"
definition to_be32 :: "u32 \<Rightarrow> bytes" where "to_be32 w = rev (le_digits 4 (unat w))"
definition to_be64 :: "u64 \<Rightarrow> bytes" where "to_be64 w = rev (le_digits 8 (unat w))"

definition from_le16 :: "bytes \<Rightarrow> u16" where "from_le16 bs = of_nat (le_value bs)"
definition from_le32 :: "bytes \<Rightarrow> u32" where "from_le32 bs = of_nat (le_value bs)"
definition from_le64 :: "bytes \<Rightarrow> u64" where "from_le64 bs = of_nat (le_value bs)"
definition from_be16 :: "bytes \<Rightarrow> u16" where "from_be16 bs = of_nat (le_value (rev bs))"
definition from_be32 :: "bytes \<Rightarrow> u32" where "from_be32 bs = of_nat (le_value (rev bs))"
definition from_be64 :: "bytes \<Rightarrow> u64" where "from_be64 bs = of_nat (le_value (rev bs))"

lemmas to_bytes_defs = to_le16_def to_le32_def to_le64_def to_be16_def to_be32_def to_be64_def
lemmas from_bytes_defs =
  from_le16_def from_le32_def from_le64_def from_be16_def from_be32_def from_be64_def

lemma length_to_bytes [simp, byte_simps]:
  "length (to_le16 w2) = 2" "length (to_le32 w4) = 4" "length (to_le64 w8) = 8"
  "length (to_be16 w2) = 2" "length (to_be32 w4) = 4" "length (to_be64 w8) = 8"
  by (simp_all add: to_bytes_defs)

lemma to_bytes_nonempty [simp]:
  "to_le16 w2 \<noteq> []" "to_le32 w4 \<noteq> []" "to_le64 w8 \<noteq> []"
  "to_be16 w2 \<noteq> []" "to_be32 w4 \<noteq> []" "to_be64 w8 \<noteq> []"
  by (simp_all add: length_0_conv [symmetric] del: length_0_conv)

lemma unat_less [simp]:
  "unat (a :: u16) < 65536"
  "unat (b :: u32) < 4294967296"
  "unat (c :: u64) < 18446744073709551616"
  using unsigned_less [of a, where ?'a = nat] unsigned_less [of b, where ?'a = nat]
    unsigned_less [of c, where ?'a = nat]
  by simp_all

lemma unat_mod_256:
  "unat (a :: u16) mod 65536 = unat a"
  "unat (b :: u32) mod 4294967296 = unat b"
  "unat (c :: u64) mod 18446744073709551616 = unat c"
  by (simp_all only: mod_less unat_less)

lemma from_to_bytes [simp, byte_simps]:
  "from_le16 (to_le16 a) = a" "from_le32 (to_le32 b) = b" "from_le64 (to_le64 c) = c"
  "from_be16 (to_be16 a) = a" "from_be32 (to_be32 b) = b" "from_be64 (to_be64 c) = c"
  by (simp_all add: to_bytes_defs from_bytes_defs le_value_digits unat_mod_256)

lemma to_from_le:
  "length bs = 2 \<Longrightarrow> to_le16 (from_le16 bs) = bs"
  "length bs = 4 \<Longrightarrow> to_le32 (from_le32 bs) = bs"
  "length bs = 8 \<Longrightarrow> to_le64 (from_le64 bs) = bs"
  using le_value_less [of bs] le_digits_value [of bs]
  by (simp_all add: to_bytes_defs from_bytes_defs unat_of_nat)

lemma to_from_be:
  "length bs = 2 \<Longrightarrow> to_be16 (from_be16 bs) = bs"
  "length bs = 4 \<Longrightarrow> to_be32 (from_be32 bs) = bs"
  "length bs = 8 \<Longrightarrow> to_be64 (from_be64 bs) = bs"
  using le_value_less [of "rev bs"] le_digits_value [of "rev bs"]
  by (simp_all add: to_bytes_defs from_bytes_defs unat_of_nat)

section \<open>UTF-8\<close>

text \<open>
  \<open>std::str::from_utf8\<close> accepts exactly the well-formed byte sequences of the Unicode
  standard: no overlong forms, no surrogates, nothing above U+10FFFF. A Rust \<open>String\<close> is a
  byte string for which \<open>utf8_valid\<close> holds.
\<close>

definition utf8_cont :: "byte \<Rightarrow> bool" where
  "utf8_cont b \<longleftrightarrow> 0x80 \<le> b \<and> b \<le> 0xBF"

definition utf8_second3 :: "byte \<Rightarrow> byte \<Rightarrow> bool" where
  "utf8_second3 a b \<longleftrightarrow>
     (if a = 0xE0 then 0xA0 \<le> b \<and> b \<le> 0xBF
      else if a = 0xED then 0x80 \<le> b \<and> b \<le> 0x9F
      else utf8_cont b)"

definition utf8_second4 :: "byte \<Rightarrow> byte \<Rightarrow> bool" where
  "utf8_second4 a b \<longleftrightarrow>
     (if a = 0xF0 then 0x90 \<le> b \<and> b \<le> 0xBF
      else if a = 0xF4 then 0x80 \<le> b \<and> b \<le> 0x8F
      else utf8_cont b)"

text \<open>
  \<open>utf8_step a bs\<close> looks at the character that starts with \<open>a\<close>: whether it is
  well-formed, and how many of the following bytes belong to it (to its longest well-formed
  beginning, if it is not).
\<close>

fun utf8_conts :: "(byte \<Rightarrow> bool) list \<Rightarrow> bytes \<Rightarrow> bool \<times> nat" where
  "utf8_conts [] bs = (True, 0)"
| "utf8_conts (p # ps) [] = (False, 0)"
| "utf8_conts (p # ps) (b # bs) =
     (if p b then (case utf8_conts ps bs of (ok, n) \<Rightarrow> (ok, Suc n)) else (False, 0))"

definition utf8_step :: "byte \<Rightarrow> bytes \<Rightarrow> bool \<times> nat" where
  "utf8_step a bs =
     (if a \<le> 0x7F then (True, 0)
      else if 0xC2 \<le> a \<and> a \<le> 0xDF then utf8_conts [utf8_cont] bs
      else if 0xE0 \<le> a \<and> a \<le> 0xEF then utf8_conts [utf8_second3 a, utf8_cont] bs
      else if 0xF0 \<le> a \<and> a \<le> 0xF4 then utf8_conts [utf8_second4 a, utf8_cont, utf8_cont] bs
      else (False, 0))"

fun utf8_valid :: "bytes \<Rightarrow> bool" where
  "utf8_valid [] = True"
| "utf8_valid (a # bs) = (fst (utf8_step a bs) \<and> utf8_valid (drop (snd (utf8_step a bs)) bs))"

text \<open>\<open>String::from_utf8_lossy\<close>: each maximal ill-formed prefix becomes U+FFFD.\<close>

abbreviation (input) utf8_replacement :: bytes where
  "utf8_replacement \<equiv> [0xEF, 0xBF, 0xBD]"

fun utf8_lossy :: "bytes \<Rightarrow> bytes" where
  "utf8_lossy [] = []"
| "utf8_lossy (a # bs) =
     (if fst (utf8_step a bs) then a # take (snd (utf8_step a bs)) bs else utf8_replacement) @
     utf8_lossy (drop (snd (utf8_step a bs)) bs)"

lemma utf8_conts_take:
  "utf8_conts ps bs = (True, n) \<Longrightarrow> n \<le> length bs \<and> utf8_conts ps (take n bs @ r) = (True, n)"
  by (induction ps bs arbitrary: n rule: utf8_conts.induct) (auto split: if_splits prod.splits)

lemma utf8_step_take:
  assumes "utf8_step a bs = (True, n)"
  shows "n \<le> length bs" "utf8_step a (take n bs @ r) = (True, n)"
  using assms utf8_conts_take [of _ bs n r]
  by (auto simp: utf8_step_def split: if_splits)

lemma utf8_valid_char:
  "utf8_step a bs = (True, n) \<Longrightarrow> utf8_valid (a # take n bs @ r) = utf8_valid r"
  using utf8_step_take(1) [of a bs n] utf8_step_take(2) [of a bs n r] by simp

lemma utf8_valid_replacement: "utf8_valid (utf8_replacement @ r) = utf8_valid r"
  by (simp add: utf8_step_def utf8_second3_def utf8_cont_def)

lemma utf8_valid_lossy: "utf8_valid (utf8_lossy bs)"
proof (induction bs rule: utf8_lossy.induct)
  case (2 a bs)
  obtain ok n where step: "utf8_step a bs = (ok, n)" by fastforce
  show ?case
  proof (cases ok)
    case True
    then show ?thesis using 2 utf8_valid_char [of a bs n] step by simp
  next
    case False
    then show ?thesis using 2 utf8_valid_replacement step by simp
  qed
qed simp

lemma utf8_lossy_id: "utf8_valid bs \<Longrightarrow> utf8_lossy bs = bs"
  by (induction bs rule: utf8_valid.induct) simp_all

text \<open>\<open>slice::split\<close> at a separator, and \<open>from_str_radix\<close> on an unsigned type.\<close>

fun split_on :: "'a \<Rightarrow> 'a list \<Rightarrow> 'a list list" where
  "split_on d [] = [[]]"
| "split_on d (x # xs) =
     (if x = d then [] # split_on d xs
      else (case split_on d xs of y # ys \<Rightarrow> (x # y) # ys | [] \<Rightarrow> [[x]]))"

lemma split_on_append: "d \<notin> set xs \<Longrightarrow> split_on d (xs @ d # ys) = xs # split_on d ys"
  by (induction xs) auto

lemma split_on_nonempty [simp]: "split_on d xs \<noteq> []"
  by (induction xs) (auto split: list.splits)

text \<open>Two ways to cut the same list: the longer first part extends the shorter one.\<close>

lemma append_eq_extends:
  assumes "xs @ ys = zs @ ws" and "length zs \<le> length xs"
  shows "\<exists>r. xs = zs @ r \<and> ws = r @ ys"
proof -
  have "zs = take (length zs) xs"
    using assms by (metis append_eq_conv_conj take_append take_all_iff diff_is_0_eq take_eq_Nil append_Nil2)
  then have "xs = zs @ drop (length zs) xs" by (metis append_take_drop_id)
  then show ?thesis using assms(1) by (metis append.assoc same_append_eq)
qed

text \<open>\<open>slice::chunks\<close>: pieces of \<open>n\<close> elements, the last one shorter.\<close>

fun chunks :: "nat \<Rightarrow> 'a list \<Rightarrow> 'a list list" where
  "chunks n xs = (if n = 0 \<or> xs = [] then [] else take n xs # chunks n (drop n xs))"

declare chunks.simps [simp del]

lemma chunks_Nil [simp]: "chunks n [] = []"
  by (simp add: chunks.simps)

lemma chunks_step: "0 < n \<Longrightarrow> xs \<noteq> [] \<Longrightarrow> chunks n xs = take n xs # chunks n (drop n xs)"
  by (simp add: chunks.simps)

lemma concat_chunks: "0 < n \<Longrightarrow> concat (chunks n xs) = xs"
  by (induction n xs rule: chunks.induct) (subst chunks.simps, auto)

lemma chunks_length: "c \<in> set (chunks n xs) \<Longrightarrow> c \<noteq> [] \<and> length c \<le> n"
proof (induction n xs rule: chunks.induct)
  case (1 n xs)
  then show ?case by (subst (asm) (2) chunks.simps) (auto split: if_splits)
qed

fun radix_digits :: "nat \<Rightarrow> nat \<Rightarrow> nat \<Rightarrow> bytes \<Rightarrow> nat option" where
  "radix_digits radix mx acc [] = Some acc"
| "radix_digits radix mx acc (c # cs) =
     (if 48 \<le> c \<and> unat c < 48 + radix then
        (let acc' = acc * radix + (unat c - 48) in
         if acc' \<le> mx then radix_digits radix mx acc' cs else None)
      else None)"

text \<open>For a radix of at most ten; one leading plus sign is accepted, a minus sign is not.\<close>

definition parse_radix :: "nat \<Rightarrow> nat \<Rightarrow> bytes \<Rightarrow> nat option" where
  "parse_radix radix mx s = (case s of
       [] \<Rightarrow> None
     | c # cs \<Rightarrow> if c = 43 then (if cs = [] then None else radix_digits radix mx 0 cs)
                 else radix_digits radix mx 0 s)"

lemma radix_digits_bound: "radix_digits r mx acc s = Some n \<Longrightarrow> acc \<le> mx \<Longrightarrow> n \<le> mx"
  by (induction r mx acc s rule: radix_digits.induct) (auto simp: Let_def split: if_splits)

text \<open>Byte-string literals: \<open>ascii ''abc''\<close> is Rust's \<open>b"abc"\<close>.\<close>

definition ascii :: "string \<Rightarrow> bytes" where
  "ascii s = map of_char s"

text \<open>Accounting by key: a total over all keys moves with the one part that changed.\<close>

lemma sum_one_changed:
  fixes f g :: "'a::finite \<Rightarrow> nat"
  assumes "\<And>j. j \<noteq> i \<Longrightarrow> f j = g j"
  shows "(\<Sum>j\<in>UNIV. f j) + g i = (\<Sum>j\<in>UNIV. g j) + f i"
proof -
  have "(\<Sum>j\<in>UNIV - {i}. f j) = (\<Sum>j\<in>UNIV - {i}. g j)" using assms by (intro sum.cong) auto
  then show ?thesis using sum.remove [of UNIV i f] sum.remove [of UNIV i g] by simp
qed

lemma part_le_sum: "(f :: 'a::finite \<Rightarrow> nat) i \<le> (\<Sum>j\<in>UNIV. f j)"
  by (rule member_le_sum) simp_all

section \<open>Insertion-ordered maps\<close>

text \<open>An \<open>IndexMap\<close> is the list of its entries. \<open>IndexMap::insert\<close>: a known key keeps its place and gets the new value.\<close>

fun index_insert :: "'k \<Rightarrow> 'v \<Rightarrow> ('k \<times> 'v) list \<Rightarrow> ('k \<times> 'v) list" where
  "index_insert k v [] = [(k, v)]"
| "index_insert k v ((k', v') # es) =
     (if k' = k then (k, v) # es else (k', v') # index_insert k v es)"

lemma index_insert_new: "k \<notin> fst ` set m \<Longrightarrow> index_insert k v m = m @ [(k, v)]"
  by (induction m) auto

lemma index_insert_keys: "fst ` set (index_insert k v m) = insert k (fst ` set m)"
  by (induction k v m rule: index_insert.induct) (simp_all add: insert_commute)

lemma index_insert_distinct: "distinct (map fst m) \<Longrightarrow> distinct (map fst (index_insert k v m))"
proof (induction m)
  case (Cons e m)
  obtain k' v' where e: "e = (k', v')" by fastforce
  have "k' \<notin> fst ` set m" using Cons.prems e by auto
  then show ?case
    using Cons e by (auto simp: index_insert_keys simp flip: set_map) (simp add: index_insert_keys)
qed simp

lemma index_insert_length: "length (index_insert k v m) \<le> Suc (length m)"
  by (induction m) auto

lemma index_insert_lookup: "map_of (index_insert k v m) k' = (if k' = k then Some v else map_of m k')"
  by (induction k v m rule: index_insert.induct) auto

text \<open>\<open>Iterator::position\<close>: the index of the first element that satisfies the predicate.\<close>

fun position :: "('a \<Rightarrow> bool) \<Rightarrow> 'a list \<Rightarrow> nat option" where
  "position P [] = None"
| "position P (x # xs) = (if P x then Some 0 else map_option Suc (position P xs))"

lemma position_Some: "position P xs = Some i \<Longrightarrow> i < length xs \<and> P (xs ! i)"
  by (induction xs arbitrary: i) (auto split: if_splits)

lemma position_None: "position P xs = None \<longleftrightarrow> (\<forall>x \<in> set xs. \<not> P x)"
  by (induction xs) (auto split: if_splits)

section \<open>Results and outcomes\<close>

text \<open>
  A fallible function returns \<open>'e + 'a\<close> with \<open>Inl\<close> the error; \<open>attempt\<close> is Rust's
  question-mark operator.
\<close>

definition attempt :: "'e + 'a \<Rightarrow> ('a \<Rightarrow> 'e + 'b) \<Rightarrow> 'e + 'b" where
  "attempt r f = (case r of Inl e \<Rightarrow> Inl e | Inr x \<Rightarrow> f x)"

lemma attempt_simps [simp]: "attempt (Inl e) f = Inl e" "attempt (Inr x) f = f x"
  by (simp_all add: attempt_def)

lemma attempt_Inr_iff: "attempt r f = Inr y \<longleftrightarrow> (\<exists>x. r = Inr x \<and> f x = Inr y)"
  by (cases r) auto

lemma attempt_Inl_iff:
  "attempt r f = Inl e \<longleftrightarrow> r = Inl e \<or> (\<exists>x. r = Inr x \<and> f x = Inl e)"
  by (cases r) auto

lemma attempt_cong [fundef_cong]:
  "r = r' \<Longrightarrow> (\<And>x. r' = Inr x \<Longrightarrow> f x = g x) \<Longrightarrow> attempt r f = attempt r' g"
  by (cases r') auto

text \<open>\<open>ok_or\<close> turns a missing value into an error.\<close>

definition ok_or :: "'e \<Rightarrow> 'a option \<Rightarrow> 'e + 'a" where
  "ok_or e x = (case x of None \<Rightarrow> Inl e | Some v \<Rightarrow> Inr v)"

lemma ok_or_simps [simp]: "ok_or e None = Inl e" "ok_or e (Some v) = Inr v"
  by (simp_all add: ok_or_def)

text \<open>
  An asynchronous operation either returns a value, returns an error, or its future is dropped
  while it is suspended at an \<open>.await\<close> (a timeout, a \<open>select!\<close> or a dropped stream):
  \<open>Cancelled\<close>. A cancelled operation runs no further code of its caller, so it passes
  through every combinator, error handlers included; what it leaves behind is the state at the
  suspension point.
\<close>

datatype ('e, 'a) outcome = Ok 'a | Err 'e | Cancelled

type_synonym ('s, 'e, 'a) proc = "'s \<Rightarrow> ('e, 'a) outcome \<times> 's"

definition ret :: "'a \<Rightarrow> ('s, 'e, 'a) proc" where
  "ret x = (\<lambda>s. (Ok x, s))"

definition throw :: "'e \<Rightarrow> ('s, 'e, 'a) proc" where
  "throw e = (\<lambda>s. (Err e, s))"

definition and_then :: "('s, 'e, 'a) proc \<Rightarrow> ('a \<Rightarrow> ('s, 'e, 'b) proc) \<Rightarrow> ('s, 'e, 'b) proc" where
  "and_then m f = (\<lambda>s. case m s of
       (Ok x, s') \<Rightarrow> f x s' | (Err e, s') \<Rightarrow> (Err e, s') | (Cancelled, s') \<Rightarrow> (Cancelled, s'))"

text \<open>\<open>check\<close> runs a \<open>&self\<close> method, \<open>modify\<close> an infallible \<open>&mut self\<close> one.\<close>

definition check :: "('s \<Rightarrow> 'e + 'a) \<Rightarrow> ('s, 'e, 'a) proc" where
  "check g = (\<lambda>s. case g s of Inl e \<Rightarrow> (Err e, s) | Inr x \<Rightarrow> (Ok x, s))"

definition modify :: "('s \<Rightarrow> 's) \<Rightarrow> ('s, 'e, unit) proc" where
  "modify g = (\<lambda>s. (Ok (), g s))"

definition reading :: "('s \<Rightarrow> ('s, 'e, 'a) proc) \<Rightarrow> ('s, 'e, 'a) proc" where
  "reading g = (\<lambda>s. g s s)"

text \<open>
  Code that runs after an awaited operation: \<open>settled m g\<close> applies \<open>g\<close> to the state whether \<open>m\<close>
  succeeded or failed, \<open>on_err m g\<close> only when it failed. Neither runs when \<open>m\<close> was cancelled.
\<close>

definition settled :: "('s, 'e, 'a) proc \<Rightarrow> ('s \<Rightarrow> 's) \<Rightarrow> ('s, 'e, 'a) proc" where
  "settled m g = (\<lambda>s. case m s of
       (Ok x, t) \<Rightarrow> (Ok x, g t) | (Err e, t) \<Rightarrow> (Err e, g t) | (Cancelled, t) \<Rightarrow> (Cancelled, t))"

definition on_err :: "('s, 'e, 'a) proc \<Rightarrow> ('s \<Rightarrow> 's) \<Rightarrow> ('s, 'e, 'a) proc" where
  "on_err m g = (\<lambda>s. case m s of
       (Ok x, t) \<Rightarrow> (Ok x, t) | (Err e, t) \<Rightarrow> (Err e, g t) | (Cancelled, t) \<Rightarrow> (Cancelled, t))"

lemma proc_runs [proc_simps]:
  "ret x s = (Ok x, s)"
  "throw e s = (Err e, s)"
  "check g s = (case g s of Inl e \<Rightarrow> (Err e, s) | Inr y \<Rightarrow> (Ok y, s))"
  "modify h s = (Ok (), h s)"
  "reading k s = k s s"
  by (simp_all add: ret_def throw_def check_def modify_def reading_def)

lemma and_then_run [proc_simps]:
  "and_then m f s = (case m s of
     (Ok x, s') \<Rightarrow> f x s' | (Err e, s') \<Rightarrow> (Err e, s') | (Cancelled, s') \<Rightarrow> (Cancelled, s'))"
  by (simp add: and_then_def)

lemma and_then_ok [simp]: "m s = (Ok x, s') \<Longrightarrow> and_then m f s = f x s'"
  by (simp add: and_then_def)

lemma and_then_err [simp]: "m s = (Err e, s') \<Longrightarrow> and_then m f s = (Err e, s')"
  by (simp add: and_then_def)

lemma and_then_cancelled [simp]: "m s = (Cancelled, s') \<Longrightarrow> and_then m f s = (Cancelled, s')"
  by (simp add: and_then_def)

lemma and_then_Ok_iff:
  "and_then m f s = (Ok y, t) \<longleftrightarrow> (\<exists>x s'. m s = (Ok x, s') \<and> f x s' = (Ok y, t))"
  by (auto simp: and_then_def split: prod.splits outcome.splits)

text \<open>For a recursion through the state: the rest runs in the state its first part left.\<close>

lemma and_then_cong [fundef_cong]:
  "s = s' \<Longrightarrow> m s' = m' s' \<Longrightarrow> (\<And>x t. m' s' = (Ok x, t) \<Longrightarrow> f x t = f' x t) \<Longrightarrow>
   and_then m f s = and_then m' f' s'"
  by (auto simp: and_then_def split: prod.splits outcome.splits)

lemma check_state: "check g s = (r, t) \<Longrightarrow> t = s"
  by (auto simp: check_def split: sum.splits)

lemma check_Ok: "check g s = (Ok x, t) \<longleftrightarrow> g s = Inr x \<and> t = s"
  by (auto simp: check_def split: sum.splits)

subsection \<open>Invariants through a handler\<close>

text \<open>
  \<open>keeps I m\<close>: whatever \<open>m\<close> returns, error and cancellation included, it leaves a state
  that satisfies \<open>I\<close> when it was started in one.
\<close>

definition keeps :: "('s \<Rightarrow> bool) \<Rightarrow> ('s, 'e, 'a) proc \<Rightarrow> bool" where
  "keeps I m \<longleftrightarrow> (\<forall>s. I s \<longrightarrow> I (snd (m s)))"

lemma keepsI: "(\<And>s. I s \<Longrightarrow> I (snd (m s))) \<Longrightarrow> keeps I m"
  by (simp add: keeps_def)

lemma keepsD: "keeps I m \<Longrightarrow> I s \<Longrightarrow> m s = (r, t) \<Longrightarrow> I t"
  by (metis keeps_def snd_conv)

lemma keeps_ret [keeps_intros]: "keeps I (ret x)"
  by (simp add: keeps_def proc_simps)

lemma keeps_throw [keeps_intros]: "keeps I (throw e)"
  by (simp add: keeps_def proc_simps)

lemma keeps_check [keeps_intros]: "keeps I (check g)"
  by (simp add: keeps_def proc_simps split: sum.splits)

lemma keeps_modify [keeps_intros]: "(\<And>s. I s \<Longrightarrow> I (h s)) \<Longrightarrow> keeps I (modify h)"
  by (simp add: keeps_def proc_simps)

lemma keeps_and_then [keeps_intros]:
  "keeps I m \<Longrightarrow> (\<And>x. keeps I (f x)) \<Longrightarrow> keeps I (and_then m f)"
  by (fastforce simp: keeps_def proc_simps split: prod.splits outcome.splits)

lemma keeps_if [keeps_intros]:
  "(b \<Longrightarrow> keeps I m) \<Longrightarrow> (\<not> b \<Longrightarrow> keeps I m') \<Longrightarrow> keeps I (if b then m else m')"
  by simp

lemma keeps_reading [keeps_intros]:
  "(\<And>t. I t \<Longrightarrow> keeps I (g t)) \<Longrightarrow> keeps I (reading g)"
  by (simp add: keeps_def proc_simps)

lemma keeps_settled [keeps_intros]: "keeps I m \<Longrightarrow> (\<And>s. I s \<Longrightarrow> I (g s)) \<Longrightarrow> keeps I (settled m g)"
  unfolding keeps_def settled_def by (force split: prod.splits outcome.splits)

lemma keeps_on_err [keeps_intros]: "keeps I m \<Longrightarrow> (\<And>s. I s \<Longrightarrow> I (g s)) \<Longrightarrow> keeps I (on_err m g)"
  unfolding keeps_def on_err_def by (force split: prod.splits outcome.splits)

lemma keeps_conj: "keeps I m \<Longrightarrow> keeps J m \<Longrightarrow> keeps (\<lambda>s. I s \<and> J s) m"
  by (simp add: keeps_def)

text \<open>\<open>untouched f m\<close>: the part \<open>f\<close> of the state is the same after \<open>m\<close>.\<close>

definition untouched :: "('s \<Rightarrow> 'p) \<Rightarrow> ('s, 'e, 'a) proc \<Rightarrow> bool" where
  "untouched f m \<longleftrightarrow> (\<forall>s. f (snd (m s)) = f s)"

lemma untouchedI: "(\<And>s. f (snd (m s)) = f s) \<Longrightarrow> untouched f m"
  by (simp add: untouched_def)

lemma untouchedD: "untouched f m \<Longrightarrow> m s = (r, t) \<Longrightarrow> f t = f s"
  by (metis untouched_def snd_conv)

lemma untouched_ret [keeps_intros]: "untouched f (ret x)"
  by (simp add: untouched_def proc_simps)

lemma untouched_throw [keeps_intros]: "untouched f (throw e)"
  by (simp add: untouched_def proc_simps)

lemma untouched_check [keeps_intros]: "untouched f (check g)"
  by (simp add: untouched_def proc_simps split: sum.splits)

lemma untouched_modify [keeps_intros]: "(\<And>s. f (h s) = f s) \<Longrightarrow> untouched f (modify h)"
  by (simp add: untouched_def proc_simps)

lemma untouched_and_then [keeps_intros]:
  "untouched f m \<Longrightarrow> (\<And>x. untouched f (k x)) \<Longrightarrow> untouched f (and_then m k)"
  unfolding untouched_def proc_simps
  by (auto split: prod.splits outcome.splits) (metis snd_conv)+

lemma untouched_if [keeps_intros]:
  "(b \<Longrightarrow> untouched f m) \<Longrightarrow> (\<not> b \<Longrightarrow> untouched f m') \<Longrightarrow> untouched f (if b then m else m')"
  by simp

lemma untouched_reading [keeps_intros]:
  "(\<And>t. untouched f (g t)) \<Longrightarrow> untouched f (reading g)"
  by (simp add: untouched_def proc_simps)

end
