(* ===== verification/Codec_Interface.thy ===== *)
theory Codec_Interface
  imports Ios_Prelude
begin

text \<open>
  The contract that every wire format of the crate is held to, as the locale
  \<open>prefix_codec\<close>: an encoder and a decoder over byte strings such that decoding what was
  encoded, with any bytes after it, returns the value and exactly those bytes. What a
  connection needs of a format follows from the contract alone and is proved once here: the
  encoding is injective and prefix free, and a run of encoded values decodes back to the run.
  Each format's theory interprets the locale on its own encoder and decoder.
\<close>

section \<open>Reading from a stream\<close>

text \<open>
  A stream that only this reader consumes is the byte string still to come.
  \<open>read_exact\<close> takes \<open>n\<close> bytes or fails, as \<open>AsyncReadExt::read_exact\<close> does.
\<close>

datatype io_error = UnexpectedEof | WriteZero | TimedOut | OtherIo

definition read_exact :: "nat \<Rightarrow> bytes \<Rightarrow> io_error + (bytes \<times> bytes)" where
  "read_exact n bs = (if n \<le> length bs then Inr (take n bs, drop n bs) else Inl UnexpectedEof)"

lemma read_exact_append [simp, byte_simps]:
  "n = length xs \<Longrightarrow> read_exact n (xs @ ys) = Inr (xs, ys)"
  by (simp add: read_exact_def)

lemma read_exact_Inr_iff:
  "read_exact n bs = Inr (xs, ys) \<longleftrightarrow> bs = xs @ ys \<and> length xs = n"
  by (auto simp: read_exact_def)

lemma read_exact_Inl_iff: "read_exact n bs = Inl e \<longleftrightarrow> e = UnexpectedEof \<and> length bs < n"
  by (auto simp: read_exact_def)

text \<open>An error of the callee is wrapped by the caller's \<open>From\<close> or \<open>map_err\<close>.\<close>

definition map_err :: "('e \<Rightarrow> 'f) \<Rightarrow> 'e + 'a \<Rightarrow> 'f + 'a" where
  "map_err f r = (case r of Inl e \<Rightarrow> Inl (f e) | Inr x \<Rightarrow> Inr x)"

lemma map_err_simps [simp]: "map_err f (Inl e) = Inl (f e)" "map_err f (Inr x) = Inr x"
  by (simp_all add: map_err_def)

lemma map_err_Inr_iff [simp]: "map_err f r = Inr x \<longleftrightarrow> r = Inr x"
  by (cases r) auto

section \<open>Decoding a counted run\<close>

text \<open>The loop \<open>for _ in 0..count\<close> around a decoder, stopping at the first error.\<close>

fun dec_many :: "(bytes \<Rightarrow> 'e + ('v \<times> bytes)) \<Rightarrow> nat \<Rightarrow> bytes \<Rightarrow> 'e + ('v list \<times> bytes)" where
  "dec_many d 0 bs = Inr ([], bs)"
| "dec_many d (Suc n) bs =
     attempt (d bs) (\<lambda>(v, r). attempt (dec_many d n r) (\<lambda>(vs, r'). Inr (v # vs, r')))"

lemma dec_many_length: "dec_many d n bs = Inr (vs, r) \<Longrightarrow> length vs = n"
  by (induction n arbitrary: bs vs r) (auto simp: attempt_Inr_iff split: prod.splits)

section \<open>The contract\<close>

locale prefix_codec =
  fixes enc :: "'v \<Rightarrow> bytes"
    and dec :: "bytes \<Rightarrow> 'e + ('v \<times> bytes)"
    and wf :: "'v \<Rightarrow> bool"
  assumes dec_enc: "wf v \<Longrightarrow> dec (enc v @ rest) = Inr (v, rest)"
begin

lemma dec_enc_all: "wf v \<Longrightarrow> dec (enc v) = Inr (v, [])"
  using dec_enc [of v "[]"] by simp

lemma enc_prefix_free:
  assumes "wf v" and "wf w" and "enc v @ r = enc w @ r'"
  shows "v = w \<and> r = r'"
proof -
  have "Inr (v, r) = dec (enc v @ r)" using assms(1) by (simp add: dec_enc)
  also have "\<dots> = dec (enc w @ r')" using assms(3) by simp
  also have "\<dots> = Inr (w, r')" using assms(2) by (simp add: dec_enc)
  finally show ?thesis by simp
qed

lemma enc_inj: "wf v \<Longrightarrow> wf w \<Longrightarrow> enc v = enc w \<Longrightarrow> v = w"
  using enc_prefix_free [of v w "[]" "[]"] by simp

lemma dec_many_enc:
  "(\<forall>v \<in> set vs. wf v) \<Longrightarrow>
   dec_many dec (length vs) (concat (map enc vs) @ rest) = Inr (vs, rest)"
  by (induction vs) (simp_all add: dec_enc)

lemma concat_enc_inj:
  assumes "\<forall>v \<in> set vs. wf v" and "\<forall>w \<in> set ws. wf w" and "length vs = length ws"
    and "concat (map enc vs) = concat (map enc ws)"
  shows "vs = ws"
proof -
  have "Inr (vs, []) = dec_many dec (length vs) (concat (map enc vs))"
    using dec_many_enc [of vs "[]"] assms(1) by simp
  also have "\<dots> = Inr (ws, [])"
    using dec_many_enc [of ws "[]"] assms(2-4) by simp
  finally show ?thesis by simp
qed

end

text \<open>
  A canonical format has one encoding per value: what decodes was encoded by the encoder. Then
  encoding and decoding are inverse bijections between values and accepted inputs.
\<close>

locale canonical_codec = prefix_codec +
  assumes enc_dec: "dec bs = Inr (v, r) \<Longrightarrow> wf v \<and> bs = enc v @ r"
begin

lemma dec_iff: "dec bs = Inr (v, r) \<longleftrightarrow> wf v \<and> bs = enc v @ r"
  using dec_enc enc_dec by blast

lemma dec_many_iff:
  "dec_many dec n bs = Inr (vs, r) \<longleftrightarrow>
   length vs = n \<and> (\<forall>v \<in> set vs. wf v) \<and> bs = concat (map enc vs) @ r"
proof (induction n arbitrary: bs vs r)
  case 0
  then show ?case by auto
next
  case (Suc n)
  show ?case
    by (cases vs) (auto simp: attempt_Inr_iff dec_iff Suc.IH)
qed

end

end
