(* ===== verification/Wire_Frames.thy ===== *)
theory Wire_Frames
  imports Codec_Interface
begin

text \<open>
  The length-prefixed frames of the classic services: lockdown
  (\<open>lockdown/protocol.rs\<close>, \<open>proto/lockdown.rs\<close>), the shared plist frame
  (\<open>services/plist_frame.rs\<close>) and usbmuxd messages (\<open>mux/protocol.rs\<close>,
  \<open>proto/usbmuxd.rs\<close>).
  A reader is the byte string still to come on the stream; a writer returns the bytes it puts
  on it. The \<open>plist\<close> crate is a pair of parameters, its serialiser \<open>ser\<close> and its parser
  \<open>parse\<close>. The lockdown frame interprets \<open>prefix_codec\<close>.
\<close>

text \<open>\<open>Protocol\<close> carries the format string of the source and its arguments.\<close>

datatype frame_error = FIo io_error | FProtocol string "nat list" | FPlist

section \<open>Lockdown frames\<close>

definition MAX_LOCKDOWN_FRAME_SIZE :: nat where
  "MAX_LOCKDOWN_FRAME_SIZE = 4 * 1024 * 1024"

definition encode_frame :: "bytes \<Rightarrow> bytes" where
  "encode_frame payload = to_be32 (of_nat (length payload)) @ payload"

definition recv_frame :: "bytes \<Rightarrow> frame_error + (bytes \<times> bytes)" where
  "recv_frame reader =
     attempt (map_err FIo (read_exact 4 reader)) (\<lambda>(len_buf, reader).
     let len = unat (from_be32 len_buf) in
     if len > MAX_LOCKDOWN_FRAME_SIZE
     then Inl (FProtocol ''frame too large: {length} bytes exceeds {MAX_LOCKDOWN_FRAME_SIZE}''
                 [len, MAX_LOCKDOWN_FRAME_SIZE])
     else map_err FIo (read_exact len reader))"

definition send_lockdown :: "('v \<Rightarrow> bytes option) \<Rightarrow> 'v \<Rightarrow> frame_error + bytes" where
  "send_lockdown ser v = attempt (ok_or (FProtocol ''{e}'' []) (ser v)) (\<lambda>bs. Inr (encode_frame bs))"

definition recv_lockdown :: "(bytes \<Rightarrow> 'v option) \<Rightarrow> bytes \<Rightarrow> frame_error + ('v \<times> bytes)" where
  "recv_lockdown parse reader =
     attempt (recv_frame reader) (\<lambda>(payload, reader).
     attempt (ok_or (FProtocol ''{e}'' []) (parse payload)) (\<lambda>v. Inr (v, reader)))"

text \<open>The same frame in \<open>proto/lockdown.rs\<close>.\<close>

definition LockdownFrame_encode :: "bytes \<Rightarrow> bytes" where
  "LockdownFrame_encode payload = to_be32 (of_nat (length payload)) @ payload"

definition LockdownFrame_decode_length :: "bytes \<Rightarrow> u32" where
  "LockdownFrame_decode_length header = from_be32 header"

section \<open>Plist frames\<close>

definition write_raw_plist_frame :: "bytes \<Rightarrow> nat \<Rightarrow> frame_error + bytes" where
  "write_raw_plist_frame payload max_len =
     (if length payload > max_len
      then Inl (FProtocol ''plist frame length {} exceeds max {max_len}'' [length payload, max_len])
      else if length payload > 0xFFFFFFFF
      then Inl (FProtocol ''plist frame too large: {}'' [length payload])
      else Inr (to_be32 (of_nat (length payload)) @ payload))"

definition write_xml_plist_frame ::
    "('v \<Rightarrow> bytes option) \<Rightarrow> 'v \<Rightarrow> nat \<Rightarrow> frame_error + bytes" where
  "write_xml_plist_frame ser_xml v max_len =
     attempt (ok_or FPlist (ser_xml v)) (\<lambda>payload. write_raw_plist_frame payload max_len)"

definition write_binary_plist_frame ::
    "('v \<Rightarrow> bytes option) \<Rightarrow> 'v \<Rightarrow> nat \<Rightarrow> frame_error + bytes" where
  "write_binary_plist_frame ser_binary v max_len =
     attempt (ok_or FPlist (ser_binary v)) (\<lambda>payload. write_raw_plist_frame payload max_len)"

definition read_plist_frame ::
    "(bytes \<Rightarrow> 'v option) \<Rightarrow> nat \<Rightarrow> bytes \<Rightarrow> frame_error + ('v \<times> bytes)" where
  "read_plist_frame parse max_len reader =
     attempt (map_err FIo (read_exact 4 reader)) (\<lambda>(len_buf, reader).
     let len = unat (from_be32 len_buf) in
     if len > max_len
     then Inl (FProtocol ''plist frame length {len} exceeds max {max_len}'' [len, max_len])
     else attempt (map_err FIo (read_exact len reader)) (\<lambda>(payload, reader).
          attempt (ok_or FPlist (parse payload)) (\<lambda>v. Inr (v, reader))))"

section \<open>usbmuxd messages\<close>

definition MAX_MUX_MESSAGE_SIZE :: nat where
  "MAX_MUX_MESSAGE_SIZE = 16 * 1024 * 1024"

record usbmux_header =
  mux_length :: u32
  mux_version :: u32
  mux_msg_type :: u32
  mux_tag :: u32

definition UsbmuxHeader_new_plist :: "u32 \<Rightarrow> u32 \<Rightarrow> usbmux_header" where
  "UsbmuxHeader_new_plist payload_len tag =
     \<lparr>mux_length = 16 + payload_len, mux_version = 1, mux_msg_type = 8, mux_tag = tag\<rparr>"

text \<open>The in-memory layout \<open>zerocopy\<close> gives the \<open>repr(C)\<close> struct.\<close>

definition usbmux_header_bytes :: "usbmux_header \<Rightarrow> bytes" where
  "usbmux_header_bytes h =
     to_le32 (mux_length h) @ to_le32 (mux_version h) @ to_le32 (mux_msg_type h) @
     to_le32 (mux_tag h)"

definition checked_mux_message_len :: "nat \<Rightarrow> frame_error + nat" where
  "checked_mux_message_len payload_len =
     attempt (ok_or (FProtocol ''mux message length overflow'' [])
       (usize_checked_add payload_len 16)) (\<lambda>total.
     if total > 0xFFFFFFFF
     then Inl (FProtocol ''mux message too large: {total} bytes exceeds u32::MAX'' [total])
     else Inr total)"

definition mux_encode_message :: "bytes \<Rightarrow> u32 \<Rightarrow> frame_error + bytes" where
  "mux_encode_message payload tag =
     attempt (checked_mux_message_len (length payload)) (\<lambda>total.
     Inr (to_le32 (of_nat total) @ to_le32 1 @ to_le32 8 @ to_le32 tag @ payload))"

definition send_plist :: "('v \<Rightarrow> bytes option) \<Rightarrow> 'v \<Rightarrow> u32 \<Rightarrow> frame_error + bytes" where
  "send_plist ser v tag =
     attempt (ok_or FPlist (ser v)) (\<lambda>plist_bytes. mux_encode_message plist_bytes tag)"

definition recv_plist :: "(bytes \<Rightarrow> 'v option) \<Rightarrow> bytes \<Rightarrow> frame_error + ('v \<times> bytes)" where
  "recv_plist parse reader =
     attempt (map_err FIo (read_exact 16 reader)) (\<lambda>(header, reader).
     let len = unat (from_le32 (take 4 header)) in
     if len < 16 then Inl (FProtocol ''invalid message length: {length}'' [len])
     else if len > MAX_MUX_MESSAGE_SIZE
     then Inl (FProtocol ''message too large: {length} bytes exceeds {MAX_MUX_MESSAGE_SIZE}''
                 [len, MAX_MUX_MESSAGE_SIZE])
     else attempt (map_err FIo (read_exact (len - 16) reader)) (\<lambda>(payload, reader).
          attempt (ok_or FPlist (parse payload)) (\<lambda>v. Inr (v, reader))))"

section \<open>Round trips\<close>

lemma unat_u32_of_nat [byte_simps]: "n \<le> 0xFFFFFFFF \<Longrightarrow> unat (of_nat n :: u32) = n"
  by (simp add: unat_of_nat)

lemma unat_u32_add16: "n + 16 \<le> 0xFFFFFFFF \<Longrightarrow> unat (of_nat n + 16 :: u32) = n + 16"
  using unat_u32_of_nat [of "n + 16"] by simp

lemmas frame_defs = encode_frame_def recv_frame_def send_lockdown_def recv_lockdown_def
  write_raw_plist_frame_def write_xml_plist_frame_def write_binary_plist_frame_def
  read_plist_frame_def checked_mux_message_len_def mux_encode_message_def send_plist_def
  recv_plist_def MAX_LOCKDOWN_FRAME_SIZE_def MAX_MUX_MESSAGE_SIZE_def

interpretation lockdown_codec: prefix_codec encode_frame recv_frame
  "\<lambda>payload. length payload \<le> MAX_LOCKDOWN_FRAME_SIZE"
  by unfold_locales (simp add: frame_defs byte_simps)

text \<open>
  With a plist library that reads back what it wrote (documented by the crate), a lockdown
  request survives the wire. The frame must fit the receiver's 4 MiB limit: the sender does not
  check it.
\<close>

lemma recv_send_lockdown:
  assumes "\<And>b. ser v = Some b \<Longrightarrow> parse b = Some v"
    and "ser v = Some b" and "length b \<le> MAX_LOCKDOWN_FRAME_SIZE"
  shows "\<exists>w. send_lockdown ser v = Inr w \<and> recv_lockdown parse (w @ rest) = Inr (v, rest)"
  using assms lockdown_codec.dec_enc [of b rest]
  by (simp add: send_lockdown_def recv_lockdown_def)

lemma recv_send_plist:
  assumes "\<And>b. ser v = Some b \<Longrightarrow> parse b = Some v"
    and "send_plist ser v tag = Inr w" and "length w \<le> MAX_MUX_MESSAGE_SIZE"
  shows "recv_plist parse (w @ rest) = Inr (v, rest)"
proof -
  from assms(2) obtain b where b: "ser v = Some b"
    and w: "w = to_le32 (of_nat (length b + 16)) @ to_le32 1 @ to_le32 8 @ to_le32 tag @ b"
    by (auto simp: frame_defs attempt_Inr_iff ok_or_def split: option.splits if_splits)
  have len: "length b + 16 \<le> 16 * 1024 * 1024"
    using assms(3) w by (simp add: MAX_MUX_MESSAGE_SIZE_def)
  let ?h = "to_le32 (of_nat (length b + 16)) @ to_le32 1 @ to_le32 8 @ to_le32 tag"
  have "read_exact 16 (w @ rest) = Inr (?h, b @ rest)"
    using w read_exact_append [of 16 ?h "b @ rest"] by simp
  then show ?thesis
    using len assms(1) [OF b] 
    by (simp add: recv_plist_def MAX_MUX_MESSAGE_SIZE_def unat_u32_add16)
qed

lemma read_write_plist_frame:
  assumes "write_raw_plist_frame payload max_len = Inr w" and "parse payload = Some v"
  shows "read_plist_frame parse max_len (w @ rest) = Inr (v, rest)"
  using assms by (auto simp: frame_defs byte_simps split: if_splits)

text \<open>An oversized payload is refused before a byte is written, an oversized length before a
  byte of the body is read.\<close>

lemma write_raw_plist_frame_limit:
  "write_raw_plist_frame payload max_len = Inr w \<Longrightarrow> length payload \<le> max_len \<and> length w = 4 + length payload"
  by (auto simp: frame_defs split: if_splits)

lemma recv_plist_length:
  assumes "recv_plist parse reader = Inr (v, rest)"
  shows "\<exists>header payload. reader = header @ payload @ rest \<and> length header = 16 \<and>
           parse payload = Some v \<and> length payload + 16 = unat (from_le32 (take 4 header)) \<and>
           length payload + 16 \<le> MAX_MUX_MESSAGE_SIZE"
proof -
  from assms obtain header body where hdr: "read_exact 16 reader = Inr (header, body)"
    by (auto simp: recv_plist_def attempt_Inr_iff)
  define len where "len = unat (from_le32 (take 4 header))"
  from assms hdr obtain payload where "16 \<le> len" "len \<le> MAX_MUX_MESSAGE_SIZE"
    "read_exact (len - 16) body = Inr (payload, rest)" "parse payload = Some v"
    by (auto simp: recv_plist_def attempt_Inr_iff ok_or_def len_def Let_def
        split: if_splits option.splits)
  with hdr show ?thesis
    unfolding read_exact_Inr_iff len_def
    by (intro exI [of _ header] exI [of _ payload]) auto
qed

text \<open>The header struct and the hand-written encoder agree.\<close>

lemma mux_encode_message_header:
  assumes "mux_encode_message payload tag = Inr w"
  shows "w = usbmux_header_bytes (UsbmuxHeader_new_plist (of_nat (length payload)) tag) @ payload"
  using assms
  by (auto simp: frame_defs usbmux_header_bytes_def UsbmuxHeader_new_plist_def attempt_Inr_iff
      ok_or_def add.commute split: if_splits option.splits)

end
