(* ===== verification/Async_Stream.thy ===== *)
theory Async_Stream
  imports Codec_Interface
begin

text \<open>
  The asynchronous duplex stream (\<open>AsyncRead + AsyncWrite\<close>) under the connections of the
  crate. What the peer and the scheduler do is a script: the arriving chunks, the end of the
  stream, transport errors, how many bytes a \<open>write\<close> accepts, and the points where the
  caller's future is dropped. A theorem about every script is a theorem about every
  environment. \<open>wire\<close> collects the bytes handed to the transport.
\<close>

section \<open>Scripts\<close>

text \<open>\<open>Chunk []\<close> is a read that returns zero bytes, the end of the stream.\<close>

datatype rx_event = Chunk bytes | RxErr io_error | RxCancel
datatype wx_event = Accept nat | WxErr io_error | WxCancel
datatype fx_event = FlushOk | FxErr io_error | FxCancel

record sock =
  rx :: "rx_event list"
  wx :: "wx_event list"
  fx :: "fx_event list"
  wire :: bytes

section \<open>Reading\<close>

text \<open>
  \<open>AsyncReadExt::read\<close> into a buffer of \<open>n\<close> bytes. An exhausted script is a peer that
  stays silent: the future never completes.
\<close>

definition rx_read :: "nat \<Rightarrow> rx_event list \<Rightarrow> (io_error, bytes) outcome \<times> rx_event list" where
  "rx_read n es = (case es of
       [] \<Rightarrow> (Cancelled, [])
     | Chunk bs # r \<Rightarrow>
         if length bs \<le> n then (Ok bs, r) else (Ok (take n bs), Chunk (drop n bs) # r)
     | RxErr e # r \<Rightarrow> (Err e, r)
     | RxCancel # r \<Rightarrow> (Cancelled, r))"

text \<open>\<open>AsyncReadExt::read_exact\<close>: read until the buffer is full.\<close>

fun rx_exact :: "nat \<Rightarrow> rx_event list \<Rightarrow> (io_error, bytes) outcome \<times> rx_event list" where
  "rx_exact n [] = (if n = 0 then (Ok [], []) else (Cancelled, []))"
| "rx_exact n (e # es) =
     (if n = 0 then (Ok [], e # es)
      else case e of
        Chunk bs \<Rightarrow>
          if bs = [] then (Err UnexpectedEof, es)
          else if n < length bs then (Ok (take n bs), Chunk (drop n bs) # es)
          else (case rx_exact (n - length bs) es of
                  (Ok xs, r) \<Rightarrow> (Ok (bs @ xs), r)
                | (Err x, r) \<Rightarrow> (Err x, r)
                | (Cancelled, r) \<Rightarrow> (Cancelled, r))
      | RxErr x \<Rightarrow> (Err x, es)
      | RxCancel \<Rightarrow> (Cancelled, es))"

definition sock_read :: "nat \<Rightarrow> (sock, io_error, bytes) proc" where
  "sock_read n s = (case rx_read n (rx s) of (r, es) \<Rightarrow> (r, s\<lparr>rx := es\<rparr>))"

definition sock_read_exact :: "nat \<Rightarrow> (sock, io_error, bytes) proc" where
  "sock_read_exact n s = (case rx_exact n (rx s) of (r, es) \<Rightarrow> (r, s\<lparr>rx := es\<rparr>))"

text \<open>\<open>carries es bs\<close>: the script delivers exactly \<open>bs\<close>, in chunks of any size.\<close>

definition carries :: "rx_event list \<Rightarrow> bytes \<Rightarrow> bool" where
  "carries es bs \<longleftrightarrow> (\<exists>cs. es = map Chunk cs \<and> [] \<notin> set cs \<and> concat cs = bs)"

lemma carries_Nil [simp]: "carries es [] \<longleftrightarrow> es = []"
  unfolding carries_def by (auto simp: concat_eq_Nil_conv) (metis list.set_intros(1) neq_Nil_conv)

lemma carries_Cons:
  "carries (e # es) bs \<longleftrightarrow> (\<exists>c r. e = Chunk c \<and> c \<noteq> [] \<and> bs = c @ r \<and> carries es r)"
proof
  assume "carries (e # es) bs"
  then obtain cs where cs: "e # es = map Chunk cs" "[] \<notin> set cs" "concat cs = bs"
    unfolding carries_def by (elim exE conjE) (rule that)
  then obtain c cs' where [simp]: "cs = c # cs'" by (cases cs) auto
  show "\<exists>c r. e = Chunk c \<and> c \<noteq> [] \<and> bs = c @ r \<and> carries es r"
    using cs by (auto simp: carries_def)
next
  assume "\<exists>c r. e = Chunk c \<and> c \<noteq> [] \<and> bs = c @ r \<and> carries es r"
  then obtain c cs where "e = Chunk c" "c \<noteq> []" "bs = c @ concat cs" "es = map Chunk cs" "[] \<notin> set cs"
    by (auto simp: carries_def)
  then show "carries (e # es) bs"
    unfolding carries_def by (intro exI [of _ "c # cs"]) auto
qed

lemma carries_empty_script [simp]: "carries [] bs \<longleftrightarrow> bs = []"
  by (auto simp: carries_def)

lemma carries_one: "bs \<noteq> [] \<Longrightarrow> carries [Chunk bs] bs"
  by (simp add: carries_Cons)

text \<open>However the bytes are cut into chunks, \<open>read_exact\<close> returns the same ones.\<close>

lemma rx_exact_carries:
  assumes "carries es (xs @ ys)"
  shows "\<exists>es'. rx_exact (length xs) es = (Ok xs, es') \<and> carries es' ys"
  using assms
proof (induction es arbitrary: xs)
  case Nil
  then show ?case by simp
next
  case (Cons e es)
  then obtain c r where e: "e = Chunk c" and c: "c \<noteq> []" and eq: "xs @ ys = c @ r"
    and r: "carries es r" by (auto simp: carries_Cons)
  show ?case
  proof (cases "length xs < length c")
    case True
    then obtain zs where zs: "c = xs @ zs" "ys = zs @ r" "zs \<noteq> []"
      using eq by (auto simp: append_eq_append_conv2)
    then show ?thesis using r e c by (cases "xs = []") (auto simp: carries_Cons)
  next
    case False
    then obtain zs where zs: "xs = c @ zs" "r = zs @ ys"
      using eq by (auto simp: append_eq_append_conv2)
    from Cons.IH [of zs] r zs obtain es' where "rx_exact (length zs) es = (Ok zs, es')" "carries es' ys"
      by auto
    then show ?thesis using zs e c by simp
  qed
qed

lemma rx_exact_length: "rx_exact n es = (Ok xs, es') \<Longrightarrow> length xs = n"
  by (induction es arbitrary: n xs)
    (auto split: if_splits rx_event.splits prod.splits outcome.splits)

text \<open>What is left of a script: reading something makes it smaller.\<close>

definition rx_size :: "rx_event list \<Rightarrow> nat" where
  "rx_size es = sum_list (map (\<lambda>e. case e of Chunk c \<Rightarrow> Suc (length c) | _ \<Rightarrow> 1) es)"

lemma rx_size_simps [simp]:
  "rx_size [] = 0"
  "rx_size (e # es) = (case e of Chunk c \<Rightarrow> Suc (length c) | _ \<Rightarrow> 1) + rx_size es"
  by (simp_all add: rx_size_def)

lemma rx_read_less: "rx_read n es = (Ok bs, es') \<Longrightarrow> bs \<noteq> [] \<Longrightarrow> rx_size es' < rx_size es"
  by (auto simp: rx_read_def split: list.splits rx_event.splits if_splits)

lemma rx_exact_le: "rx_exact n es = (r, es') \<Longrightarrow> rx_size es' \<le> rx_size es"
proof (induction es arbitrary: n r es')
  case (Cons e es)
  then show ?case
    by (auto split: if_splits rx_event.splits prod.splits outcome.splits)
      (metis le_SucI trans_le_add2)+
qed (auto split: if_splits)

lemma rx_exact_less: "rx_exact n es = (Ok xs, es') \<Longrightarrow> 0 < n \<Longrightarrow> rx_size es' < rx_size es"
proof (cases es)
  case (Cons e es1)
  assume a: "rx_exact n es = (Ok xs, es')" "0 < n"
  then obtain c where c: "e = Chunk c" "c \<noteq> []" using Cons by (auto split: rx_event.splits if_splits)
  show ?thesis
  proof (cases "n < length c")
    case True
    then show ?thesis using a Cons c by auto
  next
    case False
    then obtain ys where "rx_exact (n - length c) es1 = (Ok ys, es')"
      using a Cons c by (auto split: prod.splits outcome.splits)
    then show ?thesis using rx_exact_le [of "n - length c" es1] Cons c by fastforce
  qed
qed auto

lemma sock_read_exact_carries:
  assumes "carries (rx s) (xs @ ys)" and "n = length xs"
  shows "\<exists>es. sock_read_exact n s = (Ok xs, s\<lparr>rx := es\<rparr>) \<and> carries es ys"
  using rx_exact_carries [OF assms(1)] assms(2) by (auto simp: sock_read_exact_def)

subsection \<open>Resumable reads\<close>

text \<open>
  A buffer that is filled up to \<open>n\<close> bytes by repeated \<open>read\<close> calls and kept when the
  reader is dropped. \<open>rx_bytes\<close> are the bytes a script still holds: a resumable read moves
  bytes from the script to the buffer and loses none, however it ends.
\<close>

fun rx_fill :: "nat \<Rightarrow> bytes \<Rightarrow> rx_event list \<Rightarrow> (io_error, unit) outcome \<times> bytes \<times> rx_event list" where
  "rx_fill n buf [] = (if length buf < n then (Cancelled, buf, []) else (Ok (), buf, []))"
| "rx_fill n buf (e # es) =
     (if length buf < n then
        (case e of
           Chunk bs \<Rightarrow>
             if bs = [] then (Err UnexpectedEof, buf, es)
             else if n - length buf < length bs
             then (Ok (), buf @ take (n - length buf) bs, Chunk (drop (n - length buf) bs) # es)
             else rx_fill n (buf @ bs) es
         | RxErr x \<Rightarrow> (Err x, buf, es)
         | RxCancel \<Rightarrow> (Cancelled, buf, es))
      else (Ok (), buf, e # es))"

definition rx_bytes :: "rx_event list \<Rightarrow> bytes" where
  "rx_bytes es = concat (map (\<lambda>e. case e of Chunk bs \<Rightarrow> bs | _ \<Rightarrow> []) es)"

lemma rx_bytes_simps [simp]:
  "rx_bytes [] = []"
  "rx_bytes (e # es) = (case e of Chunk bs \<Rightarrow> bs | _ \<Rightarrow> []) @ rx_bytes es"
  by (simp_all add: rx_bytes_def)

text \<open>Everything about a resumable read, however it ends.\<close>

lemma rx_fill_spec:
  assumes "rx_fill n buf es = (r, buf', es')" and "length buf \<le> n"
  shows "\<exists>t. buf' = buf @ t \<and> rx_bytes es = t @ rx_bytes es' \<and> length buf' \<le> n \<and>
           (r = Ok () \<longleftrightarrow> length buf' = n) \<and> rx_size es' \<le> rx_size es \<and>
           (r = Ok () \<and> length buf < n \<longrightarrow> rx_size es' < rx_size es)"
  using assms
proof (induction es arbitrary: buf)
  case Nil
  then show ?case by (auto split: if_splits)
next
  case (Cons e es)
  show ?case
  proof (cases "length buf < n \<and> (\<exists>bs. e = Chunk bs \<and> bs \<noteq> [] \<and> length bs \<le> n - length buf)")
    case True
    then obtain bs where e: "e = Chunk bs" "bs \<noteq> []" "length bs \<le> n - length buf" "length buf < n" by auto
    have fill: "rx_fill n (buf @ bs) es = (r, buf', es')" using e Cons.prems(1) by simp
    have "length (buf @ bs) \<le> n" using e by simp
    from Cons.IH [OF fill this]
    obtain t where t: "buf' = (buf @ bs) @ t" "rx_bytes es = t @ rx_bytes es'" "length buf' \<le> n"
      "r = Ok () \<longleftrightarrow> length buf' = n" "rx_size es' \<le> rx_size es" by blast
    then show ?thesis using e by (intro exI [of _ "bs @ t"]) auto
  next
    case False
    then show ?thesis
      using Cons.prems by (auto split: if_splits rx_event.splits simp: not_less)
  qed
qed

lemma rx_fill_carries:
  assumes "carries es (xs @ ys)" and "n = length buf + length xs"
  shows "\<exists>es'. rx_fill n buf es = (Ok (), buf @ xs, es') \<and> carries es' ys"
  using assms
proof (induction es arbitrary: buf xs)
  case Nil
  then show ?case by simp
next
  case (Cons e es)
  then obtain c r where e: "e = Chunk c" and c: "c \<noteq> []" and eq: "xs @ ys = c @ r"
    and r: "carries es r" by (auto simp: carries_Cons)
  show ?case
  proof (cases "length xs < length c")
    case True
    then obtain zs where zs: "c = xs @ zs" "ys = zs @ r"
      using append_eq_extends [OF eq [symmetric]] by auto
    then have "zs \<noteq> []" using True by auto
    then show ?thesis using r e c zs Cons.prems(2) by (cases "xs = []") (auto simp: carries_Cons)
  next
    case False
    then obtain zs where zs: "xs = c @ zs" "r = zs @ ys"
      using append_eq_extends [OF eq] by auto
    from Cons.IH [of zs "buf @ c"] r zs Cons.prems(2)
    obtain es' where "rx_fill n (buf @ c) es = (Ok (), (buf @ c) @ zs, es')" "carries es' ys" by auto
    then show ?thesis using zs e c Cons.prems(2) by (cases zs) auto
  qed
qed

section \<open>Writing\<close>

text \<open>
  \<open>AsyncWriteExt::write_all\<close>: the result, the rest of the script, the bytes accepted and
  the bytes that were not. An exhausted script accepts everything.
\<close>

fun wx_all :: "bytes \<Rightarrow> wx_event list \<Rightarrow>
    (io_error, unit) outcome \<times> wx_event list \<times> bytes \<times> bytes" where
  "wx_all bs [] = (Ok (), [], bs, [])"
| "wx_all bs (e # es) =
     (if bs = [] then (Ok (), e # es, [], [])
      else case e of
        Accept n \<Rightarrow>
          if n = 0 then (Err WriteZero, es, [], bs)
          else (case wx_all (drop n bs) es of (r, es', sent, left) \<Rightarrow> (r, es', take n bs @ sent, left))
      | WxErr x \<Rightarrow> (Err x, es, [], bs)
      | WxCancel \<Rightarrow> (Cancelled, es, [], bs))"

definition sock_write_all :: "bytes \<Rightarrow> (sock, io_error, unit) proc" where
  "sock_write_all bs s = (case wx_all bs (wx s) of
     (r, es, sent, left) \<Rightarrow> (r, s\<lparr>wx := es, wire := wire s @ sent\<rparr>))"

definition sock_flush :: "(sock, io_error, unit) proc" where
  "sock_flush s = (case fx s of
       [] \<Rightarrow> (Ok (), s)
     | FlushOk # es \<Rightarrow> (Ok (), s\<lparr>fx := es\<rparr>)
     | FxErr x # es \<Rightarrow> (Err x, s\<lparr>fx := es\<rparr>)
     | FxCancel # es \<Rightarrow> (Cancelled, s\<lparr>fx := es\<rparr>))"

lemma wx_all_split:
  "wx_all bs es = (r, es', sent, left) \<Longrightarrow> bs = sent @ left \<and> (r = Ok () \<longleftrightarrow> left = [])"
proof (induction bs es arbitrary: r es' sent left rule: wx_all.induct)
  case (1 bs)
  then show ?case by auto
next
  case (2 bs e es)
  show ?case
  proof (cases e)
    case (Accept n)
    then show ?thesis
      using "2.prems" "2.IH" [OF _ Accept]
      by (auto split: if_splits prod.splits) (metis append.assoc append_take_drop_id)
  qed (use "2.prems" in \<open>auto split: if_splits\<close>)
qed

lemma sock_write_all_Ok:
  assumes "sock_write_all bs s = (Ok (), t)"
  shows "wire t = wire s @ bs \<and> rx t = rx s \<and> fx t = fx s"
  using assms wx_all_split [of bs "wx s"]
  by (auto simp: sock_write_all_def split: prod.splits)

text \<open>Whatever happens, what reaches the wire is a prefix of what was asked for.\<close>

lemma sock_write_all_prefix:
  assumes "sock_write_all bs s = (r, t)"
  shows "\<exists>sent left. bs = sent @ left \<and> wire t = wire s @ sent \<and> rx t = rx s"
  using assms wx_all_split [of bs "wx s"]
  by (auto simp: sock_write_all_def split: prod.splits)

lemma wx_all_no_events [simp]: "wx_all bs [] = (Ok (), [], bs, [])"
  by simp

text \<open>A quiet transport accepts every write and flush at once.\<close>

lemma sock_write_all_quiet:
  "wx s = [] \<Longrightarrow> sock_write_all bs s = (Ok (), s\<lparr>wire := wire s @ bs\<rparr>)"
  by (simp add: sock_write_all_def)

lemma sock_flush_quiet: "fx s = [] \<Longrightarrow> sock_flush s = (Ok (), s)"
  by (simp add: sock_flush_def)

section \<open>A stream inside a client's state\<close>

text \<open>
  A client owns its stream: \<open>on_stream get put wrap m\<close> runs the stream operation \<open>m\<close> on the
  part of the client's state that \<open>get\<close> reads and \<open>put\<close> writes, wrapping its errors.
\<close>

definition on_stream ::
    "('s \<Rightarrow> 'k) \<Rightarrow> ('k \<Rightarrow> 's \<Rightarrow> 's) \<Rightarrow> ('i \<Rightarrow> 'e) \<Rightarrow> ('k, 'i, 'a) proc \<Rightarrow> ('s, 'e, 'a) proc"
  where
  "on_stream get put wrap m s = (case m (get s) of
       (Ok x, k) \<Rightarrow> (Ok x, put k s)
     | (Err e, k) \<Rightarrow> (Err (wrap e), put k s)
     | (Cancelled, k) \<Rightarrow> (Cancelled, put k s))"

lemma on_stream_Ok [simp]: "m (get s) = (Ok x, k) \<Longrightarrow> on_stream get put wrap m s = (Ok x, put k s)"
  by (simp add: on_stream_def)

lemma on_stream_state: "snd (on_stream get put wrap m s) = put (snd (m (get s))) s"
  by (simp add: on_stream_def split: prod.splits outcome.splits)

end
