(* ===== verification/Afc.thy ===== *)
theory Afc
  imports Async_Stream
begin

text \<open>
  The AFC file-system client: packet headers (\<open>proto/afc.rs\<close>) and the client
  (\<open>services/afc/mod.rs\<close>). The client's state is its stream and its packet counter; every
  method is one operation here, a request followed by a response. Paths, names and keys are
  the bytes of Rust strings. The lemmas show that a packet survives the wire however it is
  chunked, that a malformed header is refused before its body is read, and that whole-file
  reads and writes transfer the contents exactly.
\<close>

section \<open>Packets\<close>

definition AFC_MAGIC :: u64 where "AFC_MAGIC = 0x4141504C36414643"

record afc_header =
  magic :: u64
  entire_len :: u64
  this_len :: u64
  packet_num :: u64
  operation :: u64

abbreviation (input) AFC_HEADER_SIZE :: nat where "AFC_HEADER_SIZE \<equiv> 40"

datatype afc_opcode =
    AfcStatus | AfcData | ReadDir | WritePart | TruncateFile | RemovePath | MakePath | GetFileInfo
  | GetDeviceInfo | WriteFile | FileRefOpen | FileRefOpenResult | FileRefRead | FileRefWrite
  | FileRefSeek | FileRefTell | FileRefTellResult | FileRefClose | FileRefSetFileSize
  | GetConnectionInfo | SetConnectionOptions | RenamePath | SetFSBlockSize | SetSocketBlockSize
  | FileRefLock | MakeLink | GetFileHash | SetModTime | GetFileHashRange | FileRefFlush
  | SetFileModTime | RemovePathAndContents

primrec opcode_u64 :: "afc_opcode \<Rightarrow> u64" where
  "opcode_u64 AfcStatus = 0x01"
| "opcode_u64 AfcData = 0x02"
| "opcode_u64 ReadDir = 0x03"
| "opcode_u64 WritePart = 0x06"
| "opcode_u64 TruncateFile = 0x07"
| "opcode_u64 RemovePath = 0x08"
| "opcode_u64 MakePath = 0x09"
| "opcode_u64 GetFileInfo = 0x0A"
| "opcode_u64 GetDeviceInfo = 0x0B"
| "opcode_u64 WriteFile = 0x0C"
| "opcode_u64 FileRefOpen = 0x0D"
| "opcode_u64 FileRefOpenResult = 0x0E"
| "opcode_u64 FileRefRead = 0x0F"
| "opcode_u64 FileRefWrite = 0x10"
| "opcode_u64 FileRefSeek = 0x11"
| "opcode_u64 FileRefTell = 0x12"
| "opcode_u64 FileRefTellResult = 0x13"
| "opcode_u64 FileRefClose = 0x14"
| "opcode_u64 FileRefSetFileSize = 0x15"
| "opcode_u64 GetConnectionInfo = 0x16"
| "opcode_u64 SetConnectionOptions = 0x17"
| "opcode_u64 RenamePath = 0x18"
| "opcode_u64 SetFSBlockSize = 0x19"
| "opcode_u64 SetSocketBlockSize = 0x1A"
| "opcode_u64 FileRefLock = 0x1B"
| "opcode_u64 MakeLink = 0x1C"
| "opcode_u64 GetFileHash = 0x1D"
| "opcode_u64 SetModTime = 0x1E"
| "opcode_u64 GetFileHashRange = 0x1F"
| "opcode_u64 FileRefFlush = 0x20"
| "opcode_u64 SetFileModTime = 0x21"
| "opcode_u64 RemovePathAndContents = 0x22"

definition AfcHeader_new :: "u64 \<Rightarrow> afc_opcode \<Rightarrow> nat \<Rightarrow> nat \<Rightarrow> afc_header" where
  "AfcHeader_new pnum opcode header_payload_len payload_len =
     (let this_len = 40 + of_nat header_payload_len in
      \<lparr>magic = AFC_MAGIC, entire_len = this_len + of_nat payload_len, this_len = this_len,
       packet_num = pnum, operation = opcode_u64 opcode\<rparr>)"

text \<open>The little-endian layout of the \<open>repr(C)\<close> struct.\<close>

definition afc_header_bytes :: "afc_header \<Rightarrow> bytes" where
  "afc_header_bytes h =
     to_le64 (magic h) @ to_le64 (entire_len h) @ to_le64 (this_len h) @
     to_le64 (packet_num h) @ to_le64 (operation h)"

definition afc_header_from_bytes :: "bytes \<Rightarrow> afc_header" where
  "afc_header_from_bytes b =
     \<lparr>magic = from_le64 (take 8 b), entire_len = from_le64 (take 8 (drop 8 b)),
      this_len = from_le64 (take 8 (drop 16 b)), packet_num = from_le64 (take 8 (drop 24 b)),
      operation = from_le64 (take 8 (drop 32 b))\<rparr>"

section \<open>Status codes and errors\<close>

datatype afc_status =
    Success | Unknown | OperationHeaderInvalid | NoResources | ReadError | WriteError
  | UnknownPacketType | InvalidArgument | ObjectNotFound | ObjectIsDir | PermDenied
  | ServiceNotConnected | Timeout | TooMuchData | EndOfData | OpNotSupported | ObjectExists
  | ObjectBusy | NoSpaceLeft | OpWouldBlock | IoError | OpInterrupted | OpInProgress
  | InternalError | MuxError | NoMem | NotEnoughData | DirNotEmpty | Other u64

definition AfcStatusCode_from_u64 :: "u64 \<Rightarrow> afc_status" where
  "AfcStatusCode_from_u64 code =
     (if code = 0 then Success
      else if code = 1 then Unknown
      else if code = 2 then OperationHeaderInvalid
      else if code = 3 then NoResources
      else if code = 4 then ReadError
      else if code = 5 then WriteError
      else if code = 6 then UnknownPacketType
      else if code = 7 then InvalidArgument
      else if code = 8 then ObjectNotFound
      else if code = 9 then ObjectIsDir
      else if code = 10 then PermDenied
      else if code = 11 then ServiceNotConnected
      else if code = 12 then Timeout
      else if code = 13 then TooMuchData
      else if code = 14 then EndOfData
      else if code = 15 then OpNotSupported
      else if code = 16 then ObjectExists
      else if code = 17 then ObjectBusy
      else if code = 18 then NoSpaceLeft
      else if code = 19 then OpWouldBlock
      else if code = 20 then IoError
      else if code = 21 then OpInterrupted
      else if code = 22 then OpInProgress
      else if code = 23 then InternalError
      else if code = 30 then MuxError
      else if code = 31 then NoMem
      else if code = 32 then NotEnoughData
      else if code = 33 then DirNotEmpty
      else Other code)"

datatype afc_error = AIo io_error | AStatus afc_status | AProtocol string "nat list"

section \<open>The client\<close>

record packet =
  opcode :: u64
  header_payload :: bytes
  payload :: bytes

record afc_client =
  stream :: sock
  next_packet :: u64

type_synonym 'a afc_proc = "(afc_client, afc_error, 'a) proc"

definition AfcClient_new :: "sock \<Rightarrow> afc_client" where
  "AfcClient_new s = \<lparr>stream = s, next_packet = 1\<rparr>"

definition FILE_MODE_READ_ONLY :: u64 where "FILE_MODE_READ_ONLY = 1"
definition FILE_MODE_READ_WRITE :: u64 where "FILE_MODE_READ_WRITE = 2"
definition FILE_MODE_WRITE_ONLY_CREATE_TRUNC :: u64 where "FILE_MODE_WRITE_ONLY_CREATE_TRUNC = 3"
definition MAX_IN_MEMORY_FILE :: nat where "MAX_IN_MEMORY_FILE = 256 * 1024 * 1024"
definition MAX_AFC_MSG :: nat where "MAX_AFC_MSG = 256 * 1024 * 1024"

definition next_pnum :: "u64 afc_proc" where
  "next_pnum c = (Ok (next_packet c), c\<lparr>next_packet := next_packet c + 1\<rparr>)"

definition on_afc :: "(sock, io_error, 'a) proc \<Rightarrow> 'a afc_proc" where
  "on_afc m = on_stream stream (\<lambda>k c. c\<lparr>stream := k\<rparr>) AIo m"

definition afc_send :: "afc_opcode \<Rightarrow> bytes \<Rightarrow> bytes \<Rightarrow> unit afc_proc" where
  "afc_send op hp pl =
     and_then next_pnum (\<lambda>pnum.
     and_then (on_afc (sock_write_all
       (afc_header_bytes (AfcHeader_new pnum op (length hp) (length pl))))) (\<lambda>_.
     and_then (if hp \<noteq> [] then on_afc (sock_write_all hp) else ret ()) (\<lambda>_.
     and_then (if pl \<noteq> [] then on_afc (sock_write_all pl) else ret ()) (\<lambda>_.
     on_afc sock_flush))))"

text \<open>
  The checks of a received header, in the source's order. Both \<open>usize::try_from\<close>
  conversions succeed on a 64-bit target.
\<close>

definition afc_check_header :: "afc_header \<Rightarrow> afc_error + (nat \<times> nat)" where
  "afc_check_header hdr =
     (if magic hdr \<noteq> AFC_MAGIC
      then Inl (AProtocol ''bad AFC magic: 0x{:016X}'' [unat (magic hdr)])
      else if this_len hdr < 40
      then Inl (AProtocol ''AFC this_len is smaller than the header: {this_len_raw}''
                  [unat (this_len hdr)])
      else if this_len hdr > entire_len hdr
      then Inl (AProtocol ''AFC this_len exceeds entire_len: this_len={} entire_len={}''
                  [unat (this_len hdr), unat (entire_len hdr)])
      else let entire = unat (entire_len hdr); this = unat (this_len hdr); body = entire - 40 in
        if body > MAX_AFC_MSG
        then Inl (AProtocol ''AFC frame too large: body={} limit={}'' [body, MAX_AFC_MSG])
        else if operation hdr = opcode_u64 AfcStatus \<and> this - 40 < 8
        then Inl (AProtocol ''AFC Status response is missing its 8-byte status code'' [])
        else Inr (this - 40, entire - this))"

definition afc_check_status :: "packet \<Rightarrow> afc_error + packet" where
  "afc_check_status p =
     (if opcode p = opcode_u64 AfcStatus then
        (let code = AfcStatusCode_from_u64 (from_le64 (take 8 (header_payload p))) in
         if code \<noteq> Success then Inl (AStatus code) else Inr p)
      else Inr p)"

text \<open>An absent section is not read.\<close>

definition read_section :: "nat \<Rightarrow> bytes afc_proc" where
  "read_section n = (if n > 0 then on_afc (sock_read_exact n) else ret [])"

definition afc_recv :: "packet afc_proc" where
  "afc_recv =
     and_then (on_afc (sock_read_exact 40)) (\<lambda>hdr_buf.
     let hdr = afc_header_from_bytes hdr_buf in
     and_then (check (\<lambda>_. afc_check_header hdr)) (\<lambda>(header_payload_len, payload_len).
     and_then (read_section header_payload_len) (\<lambda>hp.
     and_then (read_section payload_len) (\<lambda>pl.
     check (\<lambda>_. afc_check_status \<lparr>opcode = operation hdr, header_payload = hp, payload = pl\<rparr>)))))"

section \<open>Operations\<close>

definition split_null_strings :: "bytes \<Rightarrow> bytes list" where
  "split_null_strings d = map utf8_lossy (filter (\<lambda>s. s \<noteq> []) (split_on 0 d))"

fun insert_pairs :: "bytes list \<Rightarrow> (bytes \<rightharpoonup> bytes) \<Rightarrow> (bytes \<rightharpoonup> bytes)" where
  "insert_pairs (k # v # r) m = insert_pairs r (m(k \<mapsto> v))"
| "insert_pairs _ m = m"

definition parse_kv_pairs :: "bytes \<Rightarrow> (bytes \<rightharpoonup> bytes)" where
  "parse_kv_pairs d = insert_pairs (split_null_strings d) Map.empty"

record afc_file_info =
  name :: "bytes option"
  file_type :: "bytes option"
  size_of_file :: "nat option"
  mode :: "nat option"
  link_target :: "bytes option"
  raw :: "bytes \<rightharpoonup> bytes"

definition opt_filter :: "('a \<Rightarrow> bool) \<Rightarrow> 'a option \<Rightarrow> 'a option" where
  "opt_filter p x = (case x of Some v \<Rightarrow> if p v then Some v else None | None \<Rightarrow> None)"

definition parse_file_info :: "bytes \<Rightarrow> (bytes \<rightharpoonup> bytes) \<Rightarrow> afc_file_info" where
  "parse_file_info path m =
     \<lparr>name = opt_filter (\<lambda>s. s \<noteq> []) (Some (last (split_on 0x2F path))),
      file_type = m (ascii ''st_ifmt''),
      size_of_file = Option.bind (m (ascii ''st_size'')) (parse_radix 10 18446744073709551615),
      mode = Option.bind (m (ascii ''st_mode'')) (parse_radix 8 4294967295),
      link_target = opt_filter (\<lambda>s. s \<noteq> []) (m (ascii ''st_linktarget'')),
      raw = m\<rparr>"

text \<open>\<open>str::rfind\<close> of one byte.\<close>

fun rfind :: "byte \<Rightarrow> bytes \<Rightarrow> nat option" where
  "rfind d [] = None"
| "rfind d (x # xs) = (case rfind d xs of Some i \<Rightarrow> Some (Suc i)
                       | None \<Rightarrow> if x = d then Some 0 else None)"

definition resolve_link_target :: "bytes \<Rightarrow> afc_file_info \<Rightarrow> bytes" where
  "resolve_link_target path info =
     (if file_type info = Some (ascii ''S_IFLNK'') then
        (case link_target info of
           None \<Rightarrow> path
         | Some target \<Rightarrow>
             if take 1 target = [0x2F] then target
             else (case rfind 0x2F path of
                     None \<Rightarrow> target
                   | Some slash \<Rightarrow>
                       if slash = 0 then 0x2F # target else take slash path @ [0x2F] @ target))
      else path)"

text \<open>The request every method is made of: one packet out, one packet in.\<close>

definition afc_request :: "afc_opcode \<Rightarrow> bytes \<Rightarrow> bytes \<Rightarrow> packet afc_proc" where
  "afc_request op hp pl = and_then (afc_send op hp pl) (\<lambda>_. afc_recv)"

definition list_dir :: "bytes \<Rightarrow> bytes list afc_proc" where
  "list_dir path =
     and_then (afc_request ReadDir (path @ [0]) []) (\<lambda>pkt.
     ret (filter (\<lambda>s. s \<noteq> ascii ''.'' \<and> s \<noteq> ascii ''..'') (split_null_strings (payload pkt))))"

definition stat :: "bytes \<Rightarrow> (bytes \<rightharpoonup> bytes) afc_proc" where
  "stat path =
     and_then (afc_request GetFileInfo (path @ [0]) []) (\<lambda>pkt. ret (parse_kv_pairs (payload pkt)))"

definition stat_info :: "bytes \<Rightarrow> afc_file_info afc_proc" where
  "stat_info path = and_then (stat path) (\<lambda>m. ret (parse_file_info path m))"

definition make_dir :: "bytes \<Rightarrow> unit afc_proc" where
  "make_dir path = and_then (afc_request MakePath (path @ [0]) []) (\<lambda>_. ret ())"

definition remove :: "bytes \<Rightarrow> unit afc_proc" where
  "remove path = and_then (afc_request RemovePath (path @ [0]) []) (\<lambda>_. ret ())"

definition remove_all :: "bytes \<Rightarrow> unit afc_proc" where
  "remove_all path = and_then (afc_request RemovePathAndContents (path @ [0]) []) (\<lambda>_. ret ())"

definition rename :: "bytes \<Rightarrow> bytes \<Rightarrow> unit afc_proc" where
  "rename from_path to_path =
     and_then (afc_request RenamePath (from_path @ [0] @ to_path @ [0]) []) (\<lambda>_. ret ())"

definition device_info :: "(bytes \<rightharpoonup> bytes) afc_proc" where
  "device_info = and_then (afc_request GetDeviceInfo [] []) (\<lambda>pkt. ret (parse_kv_pairs (payload pkt)))"

definition file_open :: "bytes \<Rightarrow> u64 \<Rightarrow> u64 afc_proc" where
  "file_open path md =
     and_then (afc_request FileRefOpen (to_le64 md @ path @ [0]) []) (\<lambda>pkt.
     if length (header_payload pkt) < 8
     then throw (AProtocol ''FileRefOpenResult: short response'' [])
     else ret (from_le64 (take 8 (header_payload pkt))))"

definition file_read :: "u64 \<Rightarrow> u64 \<Rightarrow> bytes afc_proc" where
  "file_read fd n =
     and_then (afc_request FileRefRead (to_le64 fd @ to_le64 n) []) (\<lambda>pkt. ret (payload pkt))"

definition file_write :: "u64 \<Rightarrow> bytes \<Rightarrow> unit afc_proc" where
  "file_write fd bs = and_then (afc_request FileRefWrite (to_le64 fd) bs) (\<lambda>_. ret ())"

definition file_close :: "u64 \<Rightarrow> unit afc_proc" where
  "file_close fd = and_then (afc_request FileRefClose (to_le64 fd) []) (\<lambda>_. ret ())"

definition lock_file :: "u64 \<Rightarrow> u64 \<Rightarrow> unit afc_proc" where
  "lock_file fd op = and_then (afc_request FileRefLock (to_le64 fd @ to_le64 op) []) (\<lambda>_. ret ())"

text \<open>
  The loop of \<open>read_file\<close>. It ends on every device: each round grows \<open>data\<close>, and the
  in-memory limit stops it.
\<close>

function read_loop :: "bytes \<Rightarrow> u64 \<Rightarrow> bytes \<Rightarrow> bytes afc_proc" where
  "read_loop path fd data =
     and_then (file_read fd 65536) (\<lambda>buf.
       if buf = [] then and_then (file_close fd) (\<lambda>_. ret data)
       else if length data + length buf > MAX_IN_MEMORY_FILE then
         and_then (file_close fd) (\<lambda>_.
           throw (AProtocol ''{path} exceeds the {} byte in-memory read limit'' [MAX_IN_MEMORY_FILE]))
       else read_loop path fd (data @ buf))"
  by pat_completeness auto
termination
  by (relation "measure (\<lambda>(path, fd, data). Suc MAX_IN_MEMORY_FILE - length data)")
    (auto simp: neq_Nil_conv)

declare read_loop.simps [simp del]

definition read_file :: "bytes \<Rightarrow> bytes afc_proc" where
  "read_file path = and_then (file_open path FILE_MODE_READ_ONLY) (\<lambda>fd. read_loop path fd [])"

definition resolve_read_path :: "bytes \<Rightarrow> bytes afc_proc" where
  "resolve_read_path path = and_then (stat_info path) (\<lambda>info. ret (resolve_link_target path info))"

definition read_file_follow_links :: "bytes \<Rightarrow> bytes afc_proc" where
  "read_file_follow_links path = and_then (resolve_read_path path) read_file"

text \<open>
  The loop of \<open>write_file_from_reader\<close> over the reader's script. The reader belongs to the
  caller: what is left of it afterwards is not part of the client.
\<close>

function write_loop :: "u64 \<Rightarrow> rx_event list \<Rightarrow> unit afc_proc" where
  "write_loop fd reader = (case rx_read (1024 * 1024) reader of
       (Ok bs, reader') \<Rightarrow>
         if bs = [] then ret () else and_then (file_write fd bs) (\<lambda>_. write_loop fd reader')
     | (Err e, reader') \<Rightarrow> throw (AIo e)
     | (Cancelled, reader') \<Rightarrow> (\<lambda>c. (Cancelled, c)))"
  by pat_completeness auto
termination
  by (relation "measure (\<lambda>(fd, es). rx_size es)") (auto intro: rx_read_less [OF sym])

declare write_loop.simps [simp del]

text \<open>The result of the loop is kept while the handle is closed; then the first error wins.\<close>

definition write_file_from_reader :: "bytes \<Rightarrow> rx_event list \<Rightarrow> unit afc_proc" where
  "write_file_from_reader path reader =
     and_then (file_open path FILE_MODE_WRITE_ONLY_CREATE_TRUNC) (\<lambda>fd c.
       case write_loop fd reader c of
         (Cancelled, c') \<Rightarrow> (Cancelled, c')
       | (Ok _, c') \<Rightarrow> file_close fd c'
       | (Err e, c') \<Rightarrow> (case file_close fd c' of
             (Cancelled, c'') \<Rightarrow> (Cancelled, c'')
           | (_, c'') \<Rightarrow> (Err e, c'')))"

text \<open>\<open>std::io::Cursor\<close>: the data, then the end of the stream.\<close>

definition write_file :: "bytes \<Rightarrow> bytes \<Rightarrow> unit afc_proc" where
  "write_file path bs = write_file_from_reader path
     (if bs = [] then [Chunk []] else [Chunk bs, Chunk []])"

section \<open>A packet survives the wire\<close>

definition afc_frame :: "afc_opcode \<Rightarrow> bytes \<Rightarrow> bytes \<Rightarrow> u64 \<Rightarrow> bytes" where
  "afc_frame op hp pl pnum = afc_header_bytes (AfcHeader_new pnum op (length hp) (length pl)) @ hp @ pl"

text \<open>
  \<open>afc_at c out pnum inp\<close>: the client is idle on a transport that accepts writes, \<open>out\<close>
  has been sent, the next packet number is \<open>pnum\<close>, and \<open>inp\<close> will arrive, in any chunks.
\<close>

definition afc_at :: "afc_client \<Rightarrow> bytes \<Rightarrow> u64 \<Rightarrow> bytes \<Rightarrow> bool" where
  "afc_at c out pnum inp \<longleftrightarrow>
     wx (stream c) = [] \<and> fx (stream c) = [] \<and> wire (stream c) = out \<and>
     next_packet c = pnum \<and> carries (rx (stream c)) inp"

lemma length_afc_header_bytes [simp]: "length (afc_header_bytes h) = 40"
  by (simp add: afc_header_bytes_def)

lemma afc_header_roundtrip [simp]: "afc_header_from_bytes (afc_header_bytes h) = h"
  by (simp add: afc_header_bytes_def afc_header_from_bytes_def)

lemma unat_u64_of_nat [byte_simps]:
  "n \<le> 0xFFFFFFFFFFFFFFFF \<Longrightarrow> unat (of_nat n :: u64) = n"
  by (simp add: unat_of_nat)

lemma afc_check_header_new:
  assumes "length hp + length pl \<le> MAX_AFC_MSG" and "op = AfcStatus \<Longrightarrow> 8 \<le> length hp"
  shows "afc_check_header (AfcHeader_new pnum op (length hp) (length pl)) = Inr (length hp, length pl)"
proof -
  have tl: "unat (40 + of_nat (length hp) :: u64) = 40 + length hp"
    using assms(1) unat_u64_of_nat [of "40 + length hp"] by (simp add: MAX_AFC_MSG_def)
  have entire: "unat (40 + of_nat (length hp) + of_nat (length pl) :: u64) = 40 + length hp + length pl"
    using assms(1) unat_u64_of_nat [of "40 + length hp + length pl"] by (simp add: MAX_AFC_MSG_def)
  have "\<not> 40 + of_nat (length hp) < (40 :: u64)"
    "\<not> 40 + of_nat (length hp) + of_nat (length pl) < (40 + of_nat (length hp) :: u64)"
    unfolding word_less_nat_alt tl entire by simp_all
  moreover have "opcode_u64 op = 1 \<Longrightarrow> op = AfcStatus" by (cases op) auto
  ultimately show ?thesis
    using assms by (auto simp: afc_check_header_def AfcHeader_new_def Let_def tl entire)
qed

lemma on_afc_Ok: "m (stream c) = (Ok x, k) \<Longrightarrow> on_afc m c = (Ok x, c\<lparr>stream := k\<rparr>)"
  by (simp add: on_afc_def)

lemma on_afc_write:
  "wx (stream c) = [] \<Longrightarrow>
   on_afc (sock_write_all bs) c = (Ok (), c\<lparr>stream := (stream c)\<lparr>wire := wire (stream c) @ bs\<rparr>\<rparr>)"
  by (simp add: on_afc_Ok sock_write_all_quiet)

lemma afc_send_at:
  assumes "afc_at c out pnum inp"
  shows "\<exists>c'. afc_send op hp pl c = (Ok (), c') \<and> afc_at c' (out @ afc_frame op hp pl pnum) (pnum + 1) inp"
  using assms
  by (auto simp: afc_at_def afc_send_def and_then_run next_pnum_def on_afc_write afc_frame_def
      on_afc_Ok sock_flush_quiet proc_runs)

lemma on_afc_read_at:
  assumes "afc_at c out pnum (xs @ inp)" and "n = length xs"
  shows "\<exists>c'. on_afc (sock_read_exact n) c = (Ok xs, c') \<and> afc_at c' out pnum inp"
proof -
  have "carries (rx (stream c)) (xs @ inp)" using assms(1) by (simp add: afc_at_def)
  from sock_read_exact_carries [OF this assms(2)] show ?thesis
    using assms(1) by (auto simp: afc_at_def on_afc_Ok)
qed

lemma read_section_at:
  assumes "afc_at c out pnum (xs @ inp)"
  shows "\<exists>c'. read_section (length xs) c = (Ok xs, c') \<and>
           afc_at c' out pnum inp"
  using on_afc_read_at [OF assms refl] assms by (cases xs) (auto simp: read_section_def proc_runs)

lemma afc_recv_at:
  assumes at: "afc_at c out pnum (afc_frame op hp pl k @ inp)"
    and len: "length hp + length pl \<le> MAX_AFC_MSG"
    and st: "op = AfcStatus \<Longrightarrow> 8 \<le> length hp"
  shows "\<exists>c'. afc_recv c =
             (case afc_check_status \<lparr>opcode = opcode_u64 op, header_payload = hp, payload = pl\<rparr> of
                Inl e \<Rightarrow> Err e | Inr p \<Rightarrow> Ok p, c') \<and> afc_at c' out pnum inp"
proof -
  let ?h = "AfcHeader_new k op (length hp) (length pl)"
  have "afc_at c out pnum (afc_header_bytes ?h @ hp @ pl @ inp)"
    using at by (simp add: afc_frame_def)
  from on_afc_read_at [OF this, of 40] obtain c1
    where c1: "on_afc (sock_read_exact 40) c = (Ok (afc_header_bytes ?h), c1)" "afc_at c1 out pnum (hp @ pl @ inp)"
    by auto
  from read_section_at [OF c1(2)] obtain c2
    where c2: "read_section (length hp) c1 = (Ok hp, c2)"
      "afc_at c2 out pnum (pl @ inp)" by blast
  from read_section_at [OF c2(2)] obtain c3
    where c3: "read_section (length pl) c2 = (Ok pl, c3)"
      "afc_at c3 out pnum inp" by blast
  have op: "operation ?h = opcode_u64 op" by (simp add: AfcHeader_new_def Let_def)
  have chk: "check (\<lambda>_. afc_check_header ?h) c1 = (Ok (length hp, length pl), c1)"
    using afc_check_header_new [of hp pl op k] len st by (simp add: proc_runs)
  have "afc_recv c = check (\<lambda>_. afc_check_status
      \<lparr>opcode = operation ?h, header_payload = hp, payload = pl\<rparr>) c3"
    by (simp add: afc_recv_def c1(1) c2(1) c3(1) chk Let_def)
  then show ?thesis using c3(2) op by (simp add: proc_runs split: sum.splits)
qed

text \<open>A request answered by one packet, the step every operation is made of.\<close>

lemma afc_request_at:
  assumes "afc_at c out pnum (afc_frame rop rhp rpl k @ inp)"
    and "length rhp + length rpl \<le> MAX_AFC_MSG" and "rop = AfcStatus \<Longrightarrow> 8 \<le> length rhp"
  shows "\<exists>c'. afc_request op hp pl c =
             (case afc_check_status \<lparr>opcode = opcode_u64 rop, header_payload = rhp, payload = rpl\<rparr> of
                Inl e \<Rightarrow> Err e | Inr p \<Rightarrow> Ok p, c') \<and>
           afc_at c' (out @ afc_frame op hp pl pnum) (pnum + 1) inp"
proof -
  from afc_send_at [OF assms(1)] obtain c1 where "afc_send op hp pl c = (Ok (), c1)"
    "afc_at c1 (out @ afc_frame op hp pl pnum) (pnum + 1) (afc_frame rop rhp rpl k @ inp)" by blast
  with afc_recv_at [OF this(2) assms(2,3)] show ?thesis
    by (auto simp: afc_request_def)
qed

section \<open>Whole files\<close>

text \<open>A reply the client accepts: it fits, and a status packet reports success.\<close>

type_synonym afc_reply = "afc_opcode \<times> bytes \<times> bytes \<times> u64"

fun reply_bytes :: "afc_reply \<Rightarrow> bytes" where
  "reply_bytes (rop, rhp, rpl, k) = afc_frame rop rhp rpl k"

fun reply_payload :: "afc_reply \<Rightarrow> bytes" where
  "reply_payload (rop, rhp, rpl, k) = rpl"

fun reply_header :: "afc_reply \<Rightarrow> bytes" where
  "reply_header (rop, rhp, rpl, k) = rhp"

fun good_reply :: "afc_reply \<Rightarrow> bool" where
  "good_reply (rop, rhp, rpl, k) \<longleftrightarrow>
     length rhp + length rpl \<le> MAX_AFC_MSG \<and>
     (rop = AfcStatus \<longrightarrow> 8 \<le> length rhp \<and> from_le64 (take 8 rhp) = 0)"

lemma AfcStatusCode_Success: "AfcStatusCode_from_u64 code = Success \<longleftrightarrow> code = 0"
  by (simp add: AfcStatusCode_from_u64_def)

lemma good_request_at:
  assumes "afc_at c out pnum (reply_bytes r @ inp)" and "good_reply r"
  shows "\<exists>c' p. afc_request op hp pl c = (Ok p, c') \<and> header_payload p = reply_header r \<and>
           payload p = reply_payload r \<and> afc_at c' (out @ afc_frame op hp pl pnum) (pnum + 1) inp"
proof (cases r)
  case (fields rop rhp rpl k)
  have "opcode_u64 rop = 1 \<Longrightarrow> rop = AfcStatus" by (cases rop) auto
  then have "afc_check_status \<lparr>opcode = opcode_u64 rop, header_payload = rhp, payload = rpl\<rparr> =
      Inr \<lparr>opcode = opcode_u64 rop, header_payload = rhp, payload = rpl\<rparr>"
    using assms(2) fields by (auto simp: afc_check_status_def AfcStatusCode_Success)
  with afc_request_at [of c out pnum rop rhp rpl k inp op hp pl] assms fields show ?thesis
    by auto
qed

lemma file_open_at:
  assumes "afc_at c out pnum (reply_bytes r @ inp)" and "good_reply r" and "8 \<le> length (reply_header r)"
  shows "\<exists>c'. file_open path md c = (Ok (from_le64 (take 8 (reply_header r))), c') \<and>
           afc_at c' (out @ afc_frame FileRefOpen (to_le64 md @ path @ [0]) [] pnum) (pnum + 1) inp"
  using good_request_at [OF assms(1,2), of FileRefOpen "to_le64 md @ path @ [0]" "[]"] assms(3)
  by (force simp: file_open_def and_then_run proc_runs)

lemma file_read_at:
  assumes "afc_at c out pnum (reply_bytes r @ inp)" and "good_reply r"
  shows "\<exists>c'. file_read fd n c = (Ok (reply_payload r), c') \<and>
           afc_at c' (out @ afc_frame FileRefRead (to_le64 fd @ to_le64 n) [] pnum) (pnum + 1) inp"
  using good_request_at [OF assms, of FileRefRead "to_le64 fd @ to_le64 n" "[]"]
  by (force simp: file_read_def and_then_run proc_runs)

lemma file_write_at:
  assumes "afc_at c out pnum (reply_bytes r @ inp)" and "good_reply r"
  shows "\<exists>c'. file_write fd bs c = (Ok (), c') \<and>
           afc_at c' (out @ afc_frame FileRefWrite (to_le64 fd) bs pnum) (pnum + 1) inp"
  using good_request_at [OF assms, of FileRefWrite "to_le64 fd" bs]
  by (force simp: file_write_def and_then_run proc_runs)

lemma file_close_at:
  assumes "afc_at c out pnum (reply_bytes r @ inp)" and "good_reply r"
  shows "\<exists>c'. file_close fd c = (Ok (), c') \<and>
           afc_at c' (out @ afc_frame FileRefClose (to_le64 fd) [] pnum) (pnum + 1) inp"
  using good_request_at [OF assms, of FileRefClose "to_le64 fd" "[]"]
  by (force simp: file_close_def and_then_run proc_runs)

text \<open>The packets of one operation repeated over payloads, with consecutive numbers.\<close>

fun frames_from :: "afc_opcode \<Rightarrow> bytes \<Rightarrow> u64 \<Rightarrow> bytes list \<Rightarrow> bytes" where
  "frames_from op hp pnum [] = []"
| "frames_from op hp pnum (b # bs) = afc_frame op hp b pnum @ frames_from op hp (pnum + 1) bs"

lemma write_loop_at:
  assumes "afc_at c out pnum (concat (map reply_bytes rs) @ inp)"
    and "\<forall>r \<in> set rs. good_reply r" and "length rs = length (chunks (1024 * 1024) bs)"
    and "reader = (if bs = [] then [Chunk []] else [Chunk bs, Chunk []])"
  shows "\<exists>c'. write_loop fd reader c = (Ok (), c') \<and>
           afc_at c' (out @ frames_from FileRefWrite (to_le64 fd) pnum (chunks (1024 * 1024) bs))
             (pnum + of_nat (length rs)) inp"
  using assms
proof (induction rs arbitrary: c out pnum bs reader)
  case Nil
  then have "bs = []" using chunks_step [of "1024 * 1024" bs] by auto
  with Nil show ?case by (subst write_loop.simps) (auto simp: rx_read_def proc_runs)
next
  case (Cons r rs)
  then have bs: "bs \<noteq> []" by auto
  let ?b = "take (1024 * 1024) bs" and ?rest = "drop (1024 * 1024) bs"
  define next_reader where "next_reader = (if ?rest = [] then [Chunk []] else [Chunk ?rest, Chunk []])"
  have read: "rx_read (1024 * 1024) reader = (Ok ?b, next_reader)"
    using bs Cons.prems(4) by (auto simp: rx_read_def next_reader_def)
  from file_write_at [of c out pnum r "concat (map reply_bytes rs) @ inp" fd ?b] Cons.prems
  obtain c1 where c1: "file_write fd ?b c = (Ok (), c1)"
    "afc_at c1 (out @ afc_frame FileRefWrite (to_le64 fd) ?b pnum) (pnum + 1) (concat (map reply_bytes rs) @ inp)"
    by auto
  have step: "chunks (1024 * 1024) bs = ?b # chunks (1024 * 1024) ?rest"
    using bs by (simp add: chunks_step)
  have "\<exists>c'. write_loop fd next_reader c1 = (Ok (), c') \<and>
      afc_at c' ((out @ afc_frame FileRefWrite (to_le64 fd) ?b pnum) @
          frames_from FileRefWrite (to_le64 fd) (pnum + 1) (chunks (1024 * 1024) ?rest))
        (pnum + 1 + of_nat (length rs)) inp"
    using Cons.prems step by (intro Cons.IH [OF c1(2)]) (auto simp: next_reader_def)
  moreover have "write_loop fd reader c = write_loop fd next_reader c1"
    using c1(1) bs read by (subst write_loop.simps) simp
  ultimately show ?case unfolding step by (simp add: algebra_simps)
qed

lemma read_loop_at:
  assumes "afc_at c out pnum (concat (map reply_bytes rs) @ reply_bytes re @ reply_bytes rc @ inp)"
    and "\<forall>r \<in> set rs. good_reply r \<and> reply_payload r \<noteq> []" and "good_reply re" and "good_reply rc"
    and "reply_payload re = []"
    and "length data + length (concat (map reply_payload rs)) \<le> MAX_IN_MEMORY_FILE"
  shows "\<exists>c'. read_loop path fd data c = (Ok (data @ concat (map reply_payload rs)), c') \<and>
           afc_at c' (out @ frames_from FileRefRead (to_le64 fd @ to_le64 65536) pnum
                        (replicate (Suc (length rs)) []) @
                      afc_frame FileRefClose (to_le64 fd) [] (pnum + 1 + of_nat (length rs)))
             (pnum + 2 + of_nat (length rs)) inp"
  using assms
proof (induction rs arbitrary: c out pnum data)
  case Nil
  from file_read_at [of c out pnum re "reply_bytes rc @ inp" fd 65536] Nil obtain c1
    where c1: "file_read fd 65536 c = (Ok [], c1)"
      "afc_at c1 (out @ afc_frame FileRefRead (to_le64 fd @ to_le64 65536) [] pnum) (pnum + 1) (reply_bytes rc @ inp)"
    by auto
  from file_close_at [OF c1(2) Nil(4), of fd] c1 Nil show ?case
    by (subst read_loop.simps) (auto simp: and_then_run proc_runs algebra_simps)
next
  case (Cons r rs)
  from file_read_at [of c out pnum r "concat (map reply_bytes rs) @ reply_bytes re @ reply_bytes rc @ inp" fd 65536]
    Cons.prems obtain c1
    where c1: "file_read fd 65536 c = (Ok (reply_payload r), c1)"
      "afc_at c1 (out @ afc_frame FileRefRead (to_le64 fd @ to_le64 65536) [] pnum) (pnum + 1)
         (concat (map reply_bytes rs) @ reply_bytes re @ reply_bytes rc @ inp)"
    by auto
  have "read_loop path fd data c = read_loop path fd (data @ reply_payload r) c1"
    using c1(1) Cons.prems by (subst read_loop.simps) (auto simp: and_then_run)
  then show ?case
    using Cons.IH [OF c1(2), of "data @ reply_payload r"] Cons.prems by (simp add: algebra_simps)
qed

text \<open>
  C18. Writing a file over AFC delivers it whole. When the device answers the open with a handle
  and every further request with success, \<open>write_file\<close> returns success, having sent exactly one
  open, the data in consecutive pieces of at most 1 MiB whose concatenation is the data, and one
  close, with consecutive packet numbers; it consumes exactly the replies. This holds for every
  way the replies are cut into chunks.
\<close>

theorem write_file_delivers:
  assumes "afc_at c out pnum
      (reply_bytes ro @ concat (map reply_bytes rs) @ reply_bytes rc @ inp)"
    and "\<forall>r \<in> set (ro # rc # rs). good_reply r"
    and "8 \<le> length (reply_header ro)" and "fd = from_le64 (take 8 (reply_header ro))"
    and "length rs = length (chunks (1024 * 1024) bs)"
  shows "\<exists>c' pieces. write_file path bs c = (Ok (), c') \<and>
           concat pieces = bs \<and> (\<forall>p \<in> set pieces. p \<noteq> [] \<and> length p \<le> 1024 * 1024) \<and>
           afc_at c'
             (out @ afc_frame FileRefOpen (to_le64 3 @ path @ [0]) [] pnum @
              frames_from FileRefWrite (to_le64 fd) (pnum + 1) pieces @
              afc_frame FileRefClose (to_le64 fd) [] (pnum + 1 + of_nat (length pieces)))
             (pnum + 2 + of_nat (length pieces)) inp"
proof -
  let ?reader = "if bs = [] then [Chunk []] else [Chunk bs, Chunk []]"
  from file_open_at [OF assms(1), of path 3] assms(2-4) obtain c1
    where c1: "file_open path 3 c = (Ok fd, c1)"
      "afc_at c1 (out @ afc_frame FileRefOpen (to_le64 3 @ path @ [0]) [] pnum) (pnum + 1)
         (concat (map reply_bytes rs) @ reply_bytes rc @ inp)" by auto
  from write_loop_at [OF c1(2) _ assms(5) refl, of fd] assms(2) obtain c2
    where c2: "write_loop fd ?reader c1 = (Ok (), c2)"
      "afc_at c2 ((out @ afc_frame FileRefOpen (to_le64 3 @ path @ [0]) [] pnum) @
          frames_from FileRefWrite (to_le64 fd) (pnum + 1) (chunks (1024 * 1024) bs))
         (pnum + 1 + of_nat (length rs)) (reply_bytes rc @ inp)" by auto
  from file_close_at [OF c2(2), of fd] assms(2) obtain c3
    where c3: "file_close fd c2 = (Ok (), c3)"
      "afc_at c3 (((out @ afc_frame FileRefOpen (to_le64 3 @ path @ [0]) [] pnum) @
          frames_from FileRefWrite (to_le64 fd) (pnum + 1) (chunks (1024 * 1024) bs)) @
          afc_frame FileRefClose (to_le64 fd) [] (pnum + 1 + of_nat (length rs)))
         (pnum + 1 + of_nat (length rs) + 1) inp" by auto
  have "write_file path bs c = (Ok (), c3)"
    unfolding write_file_def write_file_from_reader_def FILE_MODE_WRITE_ONLY_CREATE_TRUNC_def
    using c1(1) c2(1) c3(1) by (simp add: and_then_run)
  then show ?thesis
    using c3(2) assms(5) concat_chunks [of "1024 * 1024" bs] chunks_length [of _ "1024 * 1024" bs]
    by (intro exI [of _ c3] exI [of _ "chunks (1024 * 1024) bs"]) (simp add: algebra_simps)
qed

text \<open>
  C19. Reading a file over AFC returns its contents. When the device answers the open with a
  handle, the reads with non-empty pieces and then an empty one, and the close with success,
  \<open>read_file\<close> returns the concatenation of the pieces, provided it fits the in-memory limit.
\<close>

theorem read_file_returns:
  assumes "afc_at c out pnum
      (reply_bytes ro @ concat (map reply_bytes rs) @ reply_bytes re @ reply_bytes rc @ inp)"
    and "\<forall>r \<in> set (ro # re # rc # rs). good_reply r"
    and "8 \<le> length (reply_header ro)" and "\<forall>r \<in> set rs. reply_payload r \<noteq> []"
    and "reply_payload re = []"
    and "length (concat (map reply_payload rs)) \<le> MAX_IN_MEMORY_FILE"
  shows "\<exists>c' sent. read_file path c = (Ok (concat (map reply_payload rs)), c') \<and>
           afc_at c' (out @ sent) (pnum + 3 + of_nat (length rs)) inp"
proof -
  let ?fd = "from_le64 (take 8 (reply_header ro))"
  from file_open_at [OF assms(1), of path 1] assms(2,3) obtain c1
    where c1: "file_open path 1 c = (Ok ?fd, c1)"
      "afc_at c1 (out @ afc_frame FileRefOpen (to_le64 1 @ path @ [0]) [] pnum) (pnum + 1)
         (concat (map reply_bytes rs) @ reply_bytes re @ reply_bytes rc @ inp)" by auto
  from read_loop_at [OF c1(2), of "[]" path ?fd] assms(2-6) c1(1) show ?thesis
    by (auto simp: read_file_def FILE_MODE_READ_ONLY_def algebra_simps)
qed

lemma read_loop_limit:
  assumes "read_loop path fd data c = (Ok out, c')" and "length data \<le> MAX_IN_MEMORY_FILE"
  shows "length out \<le> MAX_IN_MEMORY_FILE"
  using assms
proof (induction path fd data arbitrary: c rule: read_loop.induct)
  case (1 path fd data)
  show ?case
    using "1.prems" "1.IH"
    by (subst (asm) read_loop.simps) (auto simp: and_then_Ok_iff proc_runs split: if_splits)
qed

text \<open>
  The in-memory limit: on any transport, whatever the device sends, \<open>read_file\<close> never
  returns more than 256 MiB.
\<close>

theorem read_file_limit:
  assumes "read_file path c = (Ok out, c')"
  shows "length out \<le> MAX_IN_MEMORY_FILE"
  using assms by (auto simp: read_file_def and_then_Ok_iff dest: read_loop_limit)

text \<open>
  C39. Malformed AFC headers are refused early. A header with a wrong magic, a section length
  below the header size or above the packet length, a body over 256 MiB, or a status packet
  without its code makes \<open>recv\<close> return a protocol error after consuming the 40 header bytes and
  nothing of the body.
\<close>

theorem afc_recv_refuses_malformed:
  assumes "afc_at c out pnum (hdr_buf @ inp)" and "length hdr_buf = 40"
    and "h = afc_header_from_bytes hdr_buf"
    and "magic h \<noteq> AFC_MAGIC \<or> this_len h < 40 \<or> this_len h > entire_len h \<or>
         unat (entire_len h) - 40 > 256 * 1024 * 1024 \<or>
         (operation h = 1 \<and> unat (this_len h) < 48)"
  shows "\<exists>c' msg args. afc_recv c = (Err (AProtocol msg args), c') \<and> afc_at c' out pnum inp"
proof -
  from on_afc_read_at [OF assms(1), of 40] assms(2) obtain c1
    where c1: "on_afc (sock_read_exact 40) c = (Ok hdr_buf, c1)" "afc_at c1 out pnum inp" by auto
  have "\<exists>msg args. afc_check_header h = Inl (AProtocol msg args)"
    using assms(4) by (auto simp: afc_check_header_def MAX_AFC_MSG_def Let_def)
  then obtain msg args where "afc_check_header h = Inl (AProtocol msg args)" by blast
  then have "afc_recv c = (Err (AProtocol msg args), c1)"
    using assms(3) c1(1) by (simp add: afc_recv_def and_then_run proc_runs)
  then show ?thesis using c1(2) by blast
qed

section \<open>The properties at concrete inputs\<close>

definition demo_client :: "bytes \<Rightarrow> afc_client" where
  "demo_client inp = AfcClient_new \<lparr>rx = map (\<lambda>b. Chunk [b]) inp, wx = [], fx = [], wire = []\<rparr>"

lemma carries_single_bytes: "carries (map (\<lambda>b. Chunk [b]) inp) inp"
  by (induction inp) (auto simp: carries_Cons)

lemma demo_client_at: "afc_at (demo_client inp) [] 1 inp"
  by (simp add: afc_at_def demo_client_def AfcClient_new_def carries_single_bytes)

definition demo_open :: afc_reply where "demo_open = (FileRefOpenResult, to_le64 7, [], 1)"
definition demo_ok :: afc_reply where "demo_ok = (AfcStatus, to_le64 0, [], 2)"
definition demo_piece :: afc_reply where "demo_piece = (AfcData, [], [1, 2, 3], 2)"
definition demo_last :: afc_reply where "demo_last = (AfcData, [], [], 3)"

lemmas demo_defs = demo_open_def demo_ok_def demo_piece_def demo_last_def MAX_AFC_MSG_def
  MAX_IN_MEMORY_FILE_def

theorem write_file_delivers_witness:
  "\<exists>c' pieces. write_file (ascii ''/a'') [1, 2, 3]
       (demo_client (reply_bytes demo_open @ concat (map reply_bytes [demo_ok]) @ reply_bytes demo_ok @ [])) =
         (Ok (), c') \<and>
       concat pieces = [1, 2, 3] \<and> (\<forall>p \<in> set pieces. p \<noteq> [] \<and> length p \<le> 1024 * 1024) \<and>
       afc_at c'
         ([] @ afc_frame FileRefOpen (to_le64 3 @ ascii ''/a'' @ [0]) [] 1 @
          frames_from FileRefWrite (to_le64 7) (1 + 1) pieces @
          afc_frame FileRefClose (to_le64 7) [] (1 + 1 + of_nat (length pieces)))
         (1 + 2 + of_nat (length pieces)) []"
  by (rule write_file_delivers [OF demo_client_at]) (simp_all add: demo_defs chunks.simps)

theorem read_file_returns_witness:
  "\<exists>c' sent. read_file (ascii ''/a'')
       (demo_client (reply_bytes demo_open @ concat (map reply_bytes [demo_piece]) @
          reply_bytes demo_last @ reply_bytes demo_ok @ [])) =
         (Ok (concat (map reply_payload [demo_piece])), c') \<and>
       afc_at c' ([] @ sent) (1 + 3 + of_nat (length [demo_piece])) []"
  by (rule read_file_returns [OF demo_client_at]) (simp_all add: demo_defs)

theorem read_file_limit_witness:
  "\<exists>out c'. read_file (ascii ''/a'')
       (demo_client (reply_bytes demo_open @ concat (map reply_bytes [demo_piece]) @
          reply_bytes demo_last @ reply_bytes demo_ok @ [])) = (Ok out, c') \<and>
     length out \<le> MAX_IN_MEMORY_FILE"
proof -
  let ?c = "demo_client (reply_bytes demo_open @ concat (map reply_bytes [demo_piece]) @
      reply_bytes demo_last @ reply_bytes demo_ok @ [])"
  have "afc_at ?c [] 1 (reply_bytes demo_open @ concat (map reply_bytes [demo_piece]) @
      reply_bytes demo_last @ reply_bytes demo_ok @ [])" by (rule demo_client_at)
  from file_open_at [OF this, where path = "ascii ''/a''" and md = FILE_MODE_READ_ONLY]
  obtain c1 where c1: "file_open (ascii ''/a'') FILE_MODE_READ_ONLY ?c = (Ok 7, c1)"
    "afc_at c1 ([] @ afc_frame FileRefOpen (to_le64 FILE_MODE_READ_ONLY @ ascii ''/a'' @ [0]) [] 1) (1 + 1)
      (concat (map reply_bytes [demo_piece]) @ reply_bytes demo_last @ reply_bytes demo_ok @ [])"
    by (auto simp: demo_defs)
  from read_loop_at [OF c1(2), of "[]" "ascii ''/a''" 7] obtain c2
    where "read_loop (ascii ''/a'') 7 [] c1 = (Ok [1, 2, 3], c2)" by (auto simp: demo_defs)
  with c1(1) have "read_file (ascii ''/a'') ?c = (Ok [1, 2, 3], c2)"
    by (simp add: read_file_def)
  with read_file_limit [OF this] show ?thesis by blast
qed

theorem afc_recv_refuses_malformed_witness:
  "\<exists>c' msg args. afc_recv (demo_client (replicate 40 0 @ [9])) = (Err (AProtocol msg args), c') \<and>
     afc_at c' [] 1 [9]"
  by (rule afc_recv_refuses_malformed [OF demo_client_at _ refl])
    (simp_all add: afc_header_from_bytes_def AFC_MAGIC_def from_le64_def)

end
