(* ===== verification/Tlv.thy ===== *)
theory Tlv
  imports Ios_Prelude
begin

text \<open>
  TLV8 buffers (\<open>proto/tlv.rs\<close>), the items of the pairing messages. A value longer than 255
  bytes is split into items of the same tag; the decoder joins all the items of a tag. The
  specification of a buffer is the map from each pushed tag to the concatenation of what was
  pushed under it; the buffer implements it.
\<close>

section \<open>The buffer\<close>

type_synonym tlv_buffer = bytes

definition tlv_new :: tlv_buffer where "tlv_new = []"

definition push_u8 :: "byte \<Rightarrow> byte \<Rightarrow> tlv_buffer \<Rightarrow> tlv_buffer" where
  "push_u8 tag v buf = buf @ [tag, 1, v]"

definition push_bytes :: "byte \<Rightarrow> bytes \<Rightarrow> tlv_buffer \<Rightarrow> tlv_buffer" where
  "push_bytes tag v buf =
     (if v = [] then buf @ [tag, 0]
      else buf @ concat (map (\<lambda>c. tag # of_nat (length c) # c) (chunks 255 v)))"

text \<open>
  The loop of \<open>decode\<close> over the rest of the buffer. It stops at a truncated item and keeps
  what was decoded before it.
\<close>

fun tlv_loop :: "bytes \<Rightarrow> (byte \<rightharpoonup> bytes) \<Rightarrow> (byte \<rightharpoonup> bytes)" where
  "tlv_loop (tag # len # r) m =
     (if unat len > length r then m
      else tlv_loop (drop (unat len) r)
             (m(tag \<mapsto> (case m tag of None \<Rightarrow> [] | Some v \<Rightarrow> v) @ take (unat len) r)))"
| "tlv_loop _ m = m"

definition tlv_decode :: "bytes \<Rightarrow> (byte \<rightharpoonup> bytes)" where
  "tlv_decode buf = tlv_loop buf Map.empty"

section \<open>Specification\<close>

datatype tlv_op = PushU8 byte byte | PushBytes byte bytes

primrec run_op :: "tlv_op \<Rightarrow> tlv_buffer \<Rightarrow> tlv_buffer" where
  "run_op (PushU8 t v) buf = push_u8 t v buf"
| "run_op (PushBytes t v) buf = push_bytes t v buf"

primrec op_item :: "tlv_op \<Rightarrow> byte \<times> bytes" where
  "op_item (PushU8 t v) = (t, [v])"
| "op_item (PushBytes t v) = (t, v)"

definition tlv_add :: "byte \<times> bytes \<Rightarrow> (byte \<rightharpoonup> bytes) \<Rightarrow> (byte \<rightharpoonup> bytes)" where
  "tlv_add item m = m(fst item \<mapsto> (case m (fst item) of None \<Rightarrow> [] | Some v \<Rightarrow> v) @ snd item)"

definition tlv_spec :: "(byte \<times> bytes) list \<Rightarrow> (byte \<rightharpoonup> bytes)" where
  "tlv_spec items t =
     (if t \<in> fst ` set items then Some (concat (map snd (filter (\<lambda>i. fst i = t) items))) else None)"

lemma tlv_add_apply:
  "tlv_add i m t = (if t = fst i then Some ((case m t of None \<Rightarrow> [] | Some v \<Rightarrow> v) @ snd i) else m t)"
  by (simp add: tlv_add_def)

lemma tlv_add_add: "tlv_add (t, a) (tlv_add (t, b) m) = tlv_add (t, b @ a) m"
  by (simp add: tlv_add_def)

lemma tlv_loop_item:
  "length c \<le> 255 \<Longrightarrow>
   tlv_loop (tag # of_nat (length c) # c @ r) m = tlv_loop r (tlv_add (tag, c) m)"
  by (simp add: unat_of_nat tlv_add_def)

lemma tlv_loop_chunks:
  "(\<forall>c \<in> set cs. length c \<le> 255) \<Longrightarrow> cs \<noteq> [] \<Longrightarrow>
   tlv_loop (concat (map (\<lambda>c. tag # of_nat (length c) # c) cs) @ r) m =
   tlv_loop r (tlv_add (tag, concat cs) m)"
proof (induction cs arbitrary: m)
  case (Cons c cs)
  then show ?case
    by (cases "cs = []") (simp_all add: tlv_loop_item tlv_add_add del: tlv_loop.simps)
qed simp

lemma push_bytes_append: "push_bytes t v buf = buf @ push_bytes t v []"
  by (simp add: push_bytes_def)

lemma run_op_append: "run_op p buf = buf @ run_op p []"
  by (cases p) (simp_all add: push_u8_def push_bytes_append [of _ _ buf])

lemma tlv_loop_op: "tlv_loop (run_op p [] @ r) m = tlv_loop r (tlv_add (op_item p) m)"
proof (cases p)
  case (PushU8 t v)
  then show ?thesis using tlv_loop_item [of "[v]" t r m] by (simp add: push_u8_def del: tlv_loop.simps)
next
  case (PushBytes t v)
  show ?thesis
  proof (cases "v = []")
    case True
    then show ?thesis
      using PushBytes tlv_loop_item [of "[]" t r m] by (simp add: push_bytes_def del: tlv_loop.simps)
  next
    case False
    then have "chunks 255 v \<noteq> []" by (simp add: chunks_step)
    then show ?thesis
      using False PushBytes tlv_loop_chunks [of "chunks 255 v" t r m] chunks_length [of _ 255 v]
      by (simp add: push_bytes_def concat_chunks)
  qed
qed

lemma fold_run_op: "fold run_op ops buf = buf @ concat (map (\<lambda>p. run_op p []) ops)"
proof (induction ops arbitrary: buf)
  case (Cons p ops)
  then show ?case using run_op_append [of p buf] by simp
qed simp

lemma tlv_loop_ops:
  "tlv_loop (concat (map (\<lambda>p. run_op p []) ops) @ r) m = tlv_loop r (fold tlv_add (map op_item ops) m)"
  by (induction ops arbitrary: m) (simp_all add: tlv_loop_op)

lemma fold_tlv_add:
  "fold tlv_add items m t =
     (if t \<in> fst ` set items
      then Some ((case m t of None \<Rightarrow> [] | Some v \<Rightarrow> v) @ concat (map snd (filter (\<lambda>i. fst i = t) items)))
      else m t)"
proof (induction items arbitrary: m)
  case (Cons i items)
  have none: "t \<notin> fst ` set items \<Longrightarrow> filter (\<lambda>i. fst i = t) items = []"
    by (auto simp: filter_empty_conv image_iff)
  show ?case
    using none tlv_add_apply [of i m t]
    by (cases "t \<in> fst ` set items"; cases "fst i = t") (simp_all add: Cons.IH)
qed simp

text \<open>
  C36. A TLV buffer built by any sequence of pushes decodes to the map that sends each pushed tag
  to the concatenation, in order, of everything pushed under it, whatever the lengths; a
  truncated item at the end of the buffer changes nothing.
\<close>

theorem tlv_decode_pushes:
  assumes "length trunc < 2 \<or> unat (trunc ! 1) > length trunc - 2"
  shows "tlv_decode (fold run_op ops tlv_new @ trunc) = tlv_spec (map op_item ops)"
proof -
  have "tlv_loop trunc m = m" for m
    using assms by (cases trunc; cases "tl trunc") auto
  then have "tlv_decode (fold run_op ops tlv_new @ trunc) = fold tlv_add (map op_item ops) Map.empty"
    by (simp add: tlv_decode_def tlv_new_def fold_run_op tlv_loop_ops)
  then show ?thesis by (auto simp: fold_tlv_add tlv_spec_def fun_eq_iff)
qed

theorem tlv_decode_pushes_witness:
  "tlv_decode (fold run_op [PushBytes 6 (replicate 300 7), PushU8 1 2, PushBytes 6 [8]] tlv_new @ [3, 9, 1]) =
   tlv_spec (map op_item [PushBytes 6 (replicate 300 7), PushU8 1 2, PushBytes 6 [8]])"
  by (rule tlv_decode_pushes) simp

end
