(* ===== verification/Opack.thy ===== *)
theory Opack
  imports Codec_Interface
begin

text \<open>
  OPACK (\<open>proto/opack.rs\<close>), the compact serialisation of the pairing messages. The decoder
  works on the rest of the buffer instead of a position in it; \<open>opack_decode\<close> returns the
  number of bytes consumed, as the source does. A signed integer is its 64-bit word, a string
  its bytes. The encoder and decoder interpret \<open>prefix_codec\<close> on the values that nest at
  most 64 levels; a deeper value is still encoded and then refused by the decoder.
\<close>

unbundle bit_operations_syntax

section \<open>Values and errors\<close>

datatype opack_value =
    ONull
  | OBool bool
  | OInt i64
  | OString bytes
  | OBytes bytes
  | OArray "opack_value list"
  | ODict "(opack_value \<times> opack_value) list"

datatype opack_error =
    OpackEof | UnknownTag byte | TooDeep nat | InvalidUtf8 | EncodeError string "nat list"

definition MAX_OPACK_DEPTH :: nat where "MAX_OPACK_DEPTH = 64"

text \<open>The measure of the recursions over values, lists of values and lists of pairs.\<close>

abbreviation opack_size :: "opack_value + opack_value list + (opack_value \<times> opack_value) list \<Rightarrow> nat" where
  "opack_size \<equiv> case_sum size (case_sum (size_list size) (size_list (size_prod size size)))"

section \<open>Encoding\<close>

definition encode_int :: "i64 \<Rightarrow> bytes" where
  "encode_int n =
     (if 0 \<le> sint n \<and> sint n < 8 then [0x08 + ucast n]
      else if - 128 \<le> sint n \<and> sint n \<le> 127 then [0x30, ucast n]
      else if - 32768 \<le> sint n \<and> sint n \<le> 32767 then 0x31 # to_le16 (ucast n)
      else 0x33 # to_le64 n)"

definition encode_string :: "bytes \<Rightarrow> opack_error + bytes" where
  "encode_string s =
     (if length s < 0x20 then Inr ((0x40 OR of_nat (length s)) # s)
      else if length s \<le> 0xFF then Inr (0x61 # of_nat (length s) # s)
      else if length s > 65535
      then Inl (EncodeError ''string too long: {} bytes (max {})'' [length s, 65535])
      else Inr (0x62 # to_le16 (of_nat (length s)) @ s))"

definition encode_bytes :: "bytes \<Rightarrow> opack_error + bytes" where
  "encode_bytes b =
     (if length b \<le> 0x0F then Inr ((0x70 OR of_nat (length b)) # b)
      else if length b < 0x20 then Inr ((0x80 OR (of_nat (length b) AND 0x0F)) # b)
      else if length b \<le> 0xFF then Inr (0x91 # of_nat (length b) # b)
      else Inl (EncodeError ''bytes too long: {len} bytes (max {})'' [length b, 255]))"

function (sequential) encode_value :: "opack_value \<Rightarrow> opack_error + bytes"
and encode_items :: "opack_value list \<Rightarrow> opack_error + bytes"
and encode_pairs :: "(opack_value \<times> opack_value) list \<Rightarrow> opack_error + bytes" where
  "encode_value ONull = Inr [0x04]"
| "encode_value (OBool b) = Inr [if b then 0x01 else 0x02]"
| "encode_value (OInt n) = Inr (encode_int n)"
| "encode_value (OString s) = encode_string s"
| "encode_value (OBytes b) = encode_bytes b"
| "encode_value (OArray arr) =
     (if length arr > 0x0F
      then Inl (EncodeError ''array too large: {} elements (max 15)'' [length arr])
      else attempt (encode_items arr) (\<lambda>bs. Inr ((0xD0 OR of_nat (length arr)) # bs)))"
| "encode_value (ODict pairs) =
     (if length pairs > 0x0F
      then Inl (EncodeError ''dict too large: {} entries (max 15)'' [length pairs])
      else attempt (encode_pairs pairs) (\<lambda>bs. Inr ((0xE0 OR of_nat (length pairs)) # bs)))"
| "encode_items [] = Inr []"
| "encode_items (v # vs) =
     attempt (encode_value v) (\<lambda>a. attempt (encode_items vs) (\<lambda>b. Inr (a @ b)))"
| "encode_pairs [] = Inr []"
| "encode_pairs ((k, v) # ps) =
     attempt (encode_value k) (\<lambda>a.
     attempt (encode_value v) (\<lambda>b.
     attempt (encode_pairs ps) (\<lambda>c. Inr (a @ b @ c))))"
  by pat_completeness auto
termination by (relation "measure opack_size") auto

definition opack_encode :: "opack_value \<Rightarrow> opack_error + bytes" where
  "opack_encode v = encode_value v"

section \<open>Decoding\<close>

definition take_bytes :: "nat \<Rightarrow> bytes \<Rightarrow> opack_error + (bytes \<times> bytes)" where
  "take_bytes n r = (if n > length r then Inl OpackEof else Inr (take n r, drop n r))"

definition take_str :: "nat \<Rightarrow> bytes \<Rightarrow> opack_error + (opack_value \<times> bytes)" where
  "take_str n r = attempt (take_bytes n r) (\<lambda>(s, r'). if utf8_valid s then Inr (OString s, r') else Inl InvalidUtf8)"

definition decode_scalar :: "byte \<Rightarrow> bytes \<Rightarrow> opack_error + (opack_value \<times> bytes)" where
  "decode_scalar tag r =
     (if tag = 0x04 then Inr (ONull, r)
      else if tag = 0x01 then Inr (OBool True, r)
      else if tag = 0x02 then Inr (OBool False, r)
      else if 0x08 \<le> tag \<and> tag \<le> 0x2F then Inr (OInt (ucast (tag - 0x08)), r)
      else if tag = 0x30 then
        attempt (take_bytes 1 r) (\<lambda>(b, r'). Inr (OInt (scast (hd b)), r'))
      else if tag = 0x31 then
        attempt (take_bytes 2 r) (\<lambda>(b, r'). Inr (OInt (scast (from_le16 b)), r'))
      else if tag = 0x32 then
        attempt (take_bytes 4 r) (\<lambda>(b, r'). Inr (OInt (scast (from_le32 b)), r'))
      else if tag = 0x33 then
        attempt (take_bytes 8 r) (\<lambda>(b, r'). Inr (OInt (from_le64 b), r'))
      else if 0x40 \<le> tag \<and> tag \<le> 0x60 then take_str (unat (tag - 0x40)) r
      else if tag = 0x61 then
        attempt (take_bytes 1 r) (\<lambda>(b, r'). take_str (unat (hd b)) r')
      else if tag = 0x62 then
        attempt (take_bytes 2 r) (\<lambda>(b, r'). take_str (unat (from_le16 b)) r')
      else if 0x70 \<le> tag \<and> tag \<le> 0x90 then
        attempt (take_bytes (unat (tag - 0x70)) r) (\<lambda>(b, r'). Inr (OBytes b, r'))
      else if tag = 0x91 then
        attempt (take_bytes 1 r) (\<lambda>(b, r').
        attempt (take_bytes (unat (hd b)) r') (\<lambda>(c, r''). Inr (OBytes c, r'')))
      else Inl (UnknownTag tag))"

function (sequential) decode_at :: "bytes \<Rightarrow> nat \<Rightarrow> opack_error + (opack_value \<times> bytes)"
and decode_items :: "nat \<Rightarrow> bytes \<Rightarrow> nat \<Rightarrow> opack_error + (opack_value list \<times> bytes)"
and decode_pairs :: "nat \<Rightarrow> bytes \<Rightarrow> nat \<Rightarrow> opack_error + ((opack_value \<times> opack_value) list \<times> bytes)"
where
  "decode_at buf depth =
     (if depth > MAX_OPACK_DEPTH then Inl (TooDeep MAX_OPACK_DEPTH)
      else case buf of
        [] \<Rightarrow> Inl OpackEof
      | tag # r \<Rightarrow>
          if 0xD0 \<le> tag \<and> tag \<le> 0xDF then
            attempt (decode_items (unat (tag - 0xD0)) r (depth + 1)) (\<lambda>(vs, r'). Inr (OArray vs, r'))
          else if 0xE0 \<le> tag \<and> tag \<le> 0xEF then
            attempt (decode_pairs (unat (tag - 0xE0)) r (depth + 1)) (\<lambda>(ps, r'). Inr (ODict ps, r'))
          else decode_scalar tag r)"
| "decode_items 0 buf depth = Inr ([], buf)"
| "decode_items (Suc n) buf depth =
     attempt (decode_at buf depth) (\<lambda>(v, r).
     attempt (decode_items n r depth) (\<lambda>(vs, r'). Inr (v # vs, r')))"
| "decode_pairs 0 buf depth = Inr ([], buf)"
| "decode_pairs (Suc n) buf depth =
     attempt (decode_at buf depth) (\<lambda>(k, r).
     attempt (decode_at r depth) (\<lambda>(v, r').
     attempt (decode_pairs n r' depth) (\<lambda>(ps, r''). Inr ((k, v) # ps, r''))))"
  by pat_completeness auto
termination
  by (relation "measures
      [\<lambda>x. case x of Inl (buf, d) \<Rightarrow> 66 - d | Inr (Inl (n, buf, d)) \<Rightarrow> 66 - d | Inr (Inr (n, buf, d)) \<Rightarrow> 66 - d,
       \<lambda>x. case x of Inl (buf, d) \<Rightarrow> 0 | Inr (Inl (n, buf, d)) \<Rightarrow> Suc n | Inr (Inr (n, buf, d)) \<Rightarrow> Suc n]")
    (auto simp: MAX_OPACK_DEPTH_def)

declare decode_at.simps [simp del]

definition opack_decode :: "bytes \<Rightarrow> opack_error + (opack_value \<times> nat)" where
  "opack_decode buf = attempt (decode_at buf 0) (\<lambda>(v, r). Inr (v, length buf - length r))"

section \<open>Round trip\<close>

text \<open>How many levels of containers a value nests, and whether its strings are Rust strings.\<close>

function (sequential) opack_depth :: "opack_value \<Rightarrow> nat"
and items_depth :: "opack_value list \<Rightarrow> nat"
and pairs_depth :: "(opack_value \<times> opack_value) list \<Rightarrow> nat" where
  "opack_depth (OArray vs) = items_depth vs"
| "opack_depth (ODict ps) = pairs_depth ps"
| "opack_depth _ = 0"
| "items_depth [] = 0"
| "items_depth (v # vs) = max (Suc (opack_depth v)) (items_depth vs)"
| "pairs_depth [] = 0"
| "pairs_depth ((k, v) # ps) = max (Suc (max (opack_depth k) (opack_depth v))) (pairs_depth ps)"
  by pat_completeness auto
termination by (relation "measure opack_size") auto

function (sequential) opack_strs :: "opack_value \<Rightarrow> bool"
and items_strs :: "opack_value list \<Rightarrow> bool"
and pairs_strs :: "(opack_value \<times> opack_value) list \<Rightarrow> bool" where
  "opack_strs (OString s) = utf8_valid s"
| "opack_strs (OArray vs) = items_strs vs"
| "opack_strs (ODict ps) = pairs_strs ps"
| "opack_strs _ = True"
| "items_strs [] = True"
| "items_strs (v # vs) = (opack_strs v \<and> items_strs vs)"
| "pairs_strs [] = True"
| "pairs_strs ((k, v) # ps) = (opack_strs k \<and> opack_strs v \<and> pairs_strs ps)"
  by pat_completeness auto
termination by (relation "measure opack_size") auto

lemma sint_ucast_small:
  "- 128 \<le> sint n \<Longrightarrow> sint n \<le> 127 \<Longrightarrow> sint (ucast (n :: i64) :: byte) = sint n"
  "- 32768 \<le> sint n \<Longrightarrow> sint n \<le> 32767 \<Longrightarrow> sint (ucast (n :: i64) :: u16) = sint n"
proof -
  have "signed_take_bit 7 (uint n) = signed_take_bit 7 (sint n)"
    "signed_take_bit 15 (uint n) = signed_take_bit 15 (sint n)"
    by (simp_all add: sint_uint signed_take_bit_signed_take_bit)
  then show "- 128 \<le> sint n \<Longrightarrow> sint n \<le> 127 \<Longrightarrow> sint (ucast n :: byte) = sint n"
    "- 32768 \<le> sint n \<Longrightarrow> sint n \<le> 32767 \<Longrightarrow> sint (ucast n :: u16) = sint n"
    by (simp_all add: signed_ucast_eq signed_take_bit_int_eq_self)
qed

lemma scast_ucast_small:
  "- 128 \<le> sint n \<Longrightarrow> sint n \<le> 127 \<Longrightarrow> scast (ucast n :: byte) = (n :: i64)"
  "- 32768 \<le> sint n \<Longrightarrow> sint n \<le> 32767 \<Longrightarrow> scast (ucast n :: u16) = (n :: i64)"
  by (simp_all add: scast_eq sint_ucast_small)

lemma small_int:
  assumes "0 \<le> sint n" and "sint n < 8"
  shows "ucast (ucast (n :: i64) :: byte) = n" and "(ucast n :: byte) < 8"
proof -
  have u: "uint n = sint n"
    using assms by (simp add: uint_sint take_bit_int_eq_self)
  then have c: "uint (ucast n :: byte) = uint n"
    using assms by (simp add: unsigned_ucast_eq take_bit_int_eq_self)
  then show "ucast (ucast n :: byte) = n" by (metis ucast_eq word_of_int_uint)
  show "(ucast n :: byte) < 8" using c u assms by (simp add: word_less_def)
qed

lemma tag_bits:
  "n < 32 \<Longrightarrow> (0x40 OR of_nat n :: byte) = 0x40 + of_nat n"
  "n < 16 \<Longrightarrow> (0x70 OR of_nat n :: byte) = 0x70 + of_nat n"
  "16 \<le> n \<Longrightarrow> n < 32 \<Longrightarrow> (0x80 OR (of_nat n AND 0x0F) :: byte) = 0x70 + of_nat n"
  "n < 16 \<Longrightarrow> (0xD0 OR of_nat n :: byte) = 0xD0 + of_nat n"
  "n < 16 \<Longrightarrow> (0xE0 OR of_nat n :: byte) = 0xE0 + of_nat n"
proof -
  have h: "\<forall>n \<in> set [0..<32]. (0x40 OR of_nat n :: byte) = 0x40 + of_nat n"
    "\<forall>n \<in> set [0..<16]. (0x70 OR of_nat n :: byte) = 0x70 + of_nat n"
    "\<forall>n \<in> set [16..<32]. (0x80 OR (of_nat n AND 0x0F) :: byte) = 0x70 + of_nat n"
    "\<forall>n \<in> set [0..<16]. (0xD0 OR of_nat n :: byte) = 0xD0 + of_nat n"
    "\<forall>n \<in> set [0..<16]. (0xE0 OR of_nat n :: byte) = 0xE0 + of_nat n"
    by code_simp+
  show
    "n < 32 \<Longrightarrow> (0x40 OR of_nat n :: byte) = 0x40 + of_nat n"
    "n < 16 \<Longrightarrow> (0x70 OR of_nat n :: byte) = 0x70 + of_nat n"
    "16 \<le> n \<Longrightarrow> n < 32 \<Longrightarrow> (0x80 OR (of_nat n AND 0x0F) :: byte) = 0x70 + of_nat n"
    "n < 16 \<Longrightarrow> (0xD0 OR of_nat n :: byte) = 0xD0 + of_nat n"
    "n < 16 \<Longrightarrow> (0xE0 OR of_nat n :: byte) = 0xE0 + of_nat n"
    using h [THEN bspec, of n] by (simp_all del: upt_rec_numeral)
qed

text \<open>A tag \<open>base + n\<close> lies in its range and gives back \<open>n\<close>.\<close>

lemma tag_range:
  fixes base :: byte
  assumes "unat base + n < 256"
  shows "unat (base + of_nat n) = unat base + n" and "unat (base + of_nat n - base) = n"
proof -
  show "unat (base + of_nat n) = unat base + n"
    using assms by (simp add: unat_word_ariths(1) unat_of_nat)
  show "unat (base + of_nat n - base) = n" using assms by (simp add: unat_of_nat)
qed

lemma decode_scalar_imm:
  "8 \<le> unat t \<Longrightarrow> unat t \<le> 0x2F \<Longrightarrow> decode_scalar t r = Inr (OInt (ucast (t - 8)), r)"
  "0x40 \<le> unat t \<Longrightarrow> unat t \<le> 0x60 \<Longrightarrow> decode_scalar t r = take_str (unat (t - 0x40)) r"
  "0x70 \<le> unat t \<Longrightarrow> unat t \<le> 0x90 \<Longrightarrow>
     decode_scalar t r = attempt (take_bytes (unat (t - 0x70)) r) (\<lambda>(b, r'). Inr (OBytes b, r'))"
  by (simp_all add: decode_scalar_def word_unat_eq_iff word_le_nat_alt)

lemma take_bytes_append [simp]: "n = length xs \<Longrightarrow> take_bytes n (xs @ r) = Inr (xs, r)"
  by (simp add: take_bytes_def)

lemma take_str_append [simp]: "n = length xs \<Longrightarrow> utf8_valid xs \<Longrightarrow> take_str n (xs @ r) = Inr (OString xs, r)"
  by (simp add: take_str_def)

lemma decode_scalar_sized:
  "decode_scalar 0x30 (x # r) = Inr (OInt (scast x), r)"
  "decode_scalar 0x31 (to_le16 w @ r) = Inr (OInt (scast w), r)"
  "decode_scalar 0x33 (to_le64 n @ r) = Inr (OInt n, r)"
  "decode_scalar 0x61 (x # r) = take_str (unat x) r"
  "decode_scalar 0x62 (to_le16 w @ r) = take_str (unat w) r"
  "decode_scalar 0x91 (x # r) = attempt (take_bytes (unat x) r) (\<lambda>(c, r'). Inr (OBytes c, r'))"
  using take_bytes_append [of 1 "[x]" r] by (simp_all add: decode_scalar_def)

lemma decode_encode_int:
  "\<exists>t r'. encode_int n = t # r' \<and> decode_scalar t (r' @ r) = Inr (OInt n, r) \<and> unat t < 0x40"
proof -
  consider (imm) "0 \<le> sint n" "sint n < 8"
    | (i8) "\<not> (0 \<le> sint n \<and> sint n < 8)" "- 128 \<le> sint n" "sint n \<le> 127"
    | (i16) "\<not> (- 128 \<le> sint n \<and> sint n \<le> 127)" "- 32768 \<le> sint n" "sint n \<le> 32767"
    | (i64) "\<not> (- 32768 \<le> sint n \<and> sint n \<le> 32767)" by linarith
  then show ?thesis
  proof cases
    case imm
    let ?b = "ucast n :: byte"
    have b: "unat ?b < 8" using small_int(2) [OF imm] by (simp add: word_less_nat_alt)
    have u: "unat (8 + ?b) = 8 + unat ?b" using b by (simp add: unat_word_ariths(1))
    have "decode_scalar (8 + ?b) r = Inr (OInt n, r)"
      using b u small_int(1) [OF imm] by (simp add: decode_scalar_imm(1))
    then show ?thesis using imm u b by (auto simp: encode_int_def)
  next
    case i8
    then show ?thesis
      by (auto simp: encode_int_def decode_scalar_sized scast_ucast_small(1))
  next
    case i16
    then show ?thesis
      by (auto simp: encode_int_def decode_scalar_sized scast_ucast_small(2))
  next
    case i64
    then show ?thesis
      by (auto simp: encode_int_def decode_scalar_sized)
  qed
qed

lemma decode_encode_string:
  assumes "utf8_valid s" and "encode_string s = Inr bs"
  shows "\<exists>t r'. bs = t # r' \<and> decode_scalar t (r' @ r) = Inr (OString s, r) \<and> unat t < 0x70"
proof -
  consider (imm) "length s < 0x20" | (u8) "\<not> length s < 0x20" "length s \<le> 0xFF"
    | (u16) "\<not> length s \<le> 0xFF" "length s \<le> 65535"
    using assms(2) by (fastforce simp: encode_string_def split: if_splits)
  then show ?thesis
  proof cases
    case imm
    let ?t = "0x40 + of_nat (length s) :: byte"
    have t: "unat ?t = 0x40 + length s" "unat (?t - 0x40) = length s"
      using imm tag_range [of "0x40" "length s"] by simp_all
    have "decode_scalar ?t (s @ r) = Inr (OString s, r)"
      using decode_scalar_imm(2) [of ?t "s @ r"] t imm assms(1) by simp
    then show ?thesis using imm assms t by (auto simp: encode_string_def tag_bits)
  next
    case u8
    then show ?thesis
      using assms by (auto simp: encode_string_def decode_scalar_sized unat_of_nat)
  next
    case u16
    then show ?thesis
      using assms by (auto simp: encode_string_def decode_scalar_sized unat_of_nat)
  qed
qed

lemma decode_encode_bytes:
  assumes "encode_bytes b = Inr bs"
  shows "\<exists>t r'. bs = t # r' \<and> decode_scalar t (r' @ r) = Inr (OBytes b, r) \<and> unat t < 0xD0"
proof -
  consider (imm) "length b < 0x20" | (u8) "\<not> length b < 0x20" "length b \<le> 0xFF"
    using assms by (fastforce simp: encode_bytes_def split: if_splits)
  then show ?thesis
  proof cases
    case imm
    let ?t = "0x70 + of_nat (length b) :: byte"
    have t: "unat ?t = 0x70 + length b" "unat (?t - 0x70) = length b"
      using imm tag_range [of "0x70" "length b"] by simp_all
    have "decode_scalar ?t (b @ r) = Inr (OBytes b, r)"
      using decode_scalar_imm(3) [of ?t "b @ r"] t imm by simp
    moreover have "bs = ?t # b"
      using imm assms tag_bits(2,3) [of "length b"] by (auto simp: encode_bytes_def split: if_splits)
    ultimately show ?thesis using t imm by auto
  next
    case u8
    then show ?thesis
      using assms by (auto simp: encode_bytes_def decode_scalar_sized unat_of_nat)
  qed
qed

lemma decode_at_scalar:
  "depth \<le> MAX_OPACK_DEPTH \<Longrightarrow> unat t < 0xD0 \<Longrightarrow> decode_at (t # r) depth = decode_scalar t r"
  by (simp add: decode_at.simps word_le_nat_alt)

lemma decode_at_array:
  assumes "depth \<le> MAX_OPACK_DEPTH" and "n < 16"
  shows "decode_at ((0xD0 OR of_nat n) # r) depth =
    attempt (decode_items n r (depth + 1)) (\<lambda>(vs, r'). Inr (OArray vs, r'))"
  using assms tag_range [of "0xD0" n]
  by (simp add: decode_at.simps tag_bits word_le_nat_alt)

lemma decode_at_dict:
  assumes "depth \<le> MAX_OPACK_DEPTH" and "n < 16"
  shows "decode_at ((0xE0 OR of_nat n) # r) depth =
    attempt (decode_pairs n r (depth + 1)) (\<lambda>(ps, r'). Inr (ODict ps, r'))"
  using assms tag_range [of "0xE0" n]
  by (simp add: decode_at.simps tag_bits word_le_nat_alt)

text \<open>
  Decoding what was encoded. The three statements go together: a value at \<open>depth\<close>, and the
  elements of a container, which the decoder reads one level deeper.
\<close>

lemma decode_encode_opack:
  "encode_value v = Inr bs \<Longrightarrow> opack_strs v \<Longrightarrow> depth + opack_depth v \<le> MAX_OPACK_DEPTH \<Longrightarrow>
     decode_at (bs @ r) depth = Inr (v, r)"
  "encode_items vs = Inr bs \<Longrightarrow> items_strs vs \<Longrightarrow> depth + items_depth vs \<le> MAX_OPACK_DEPTH \<Longrightarrow>
     decode_items (length vs) (bs @ r) (depth + 1) = Inr (vs, r)"
  "encode_pairs ps = Inr bs \<Longrightarrow> pairs_strs ps \<Longrightarrow> depth + pairs_depth ps \<le> MAX_OPACK_DEPTH \<Longrightarrow>
     decode_pairs (length ps) (bs @ r) (depth + 1) = Inr (ps, r)"
proof (induction v and vs and ps arbitrary: bs depth r and bs depth r and bs depth r
    rule: encode_value_encode_items_encode_pairs.induct)
  case 1
  then show ?case using decode_at_scalar [of depth 4 r] by (auto simp: decode_scalar_def)
next
  case (2 b)
  then show ?case using decode_at_scalar [of depth "if b then 1 else 2" r]
    by (cases b) (auto simp: decode_scalar_def)
next
  case (3 n)
  from decode_encode_int [of n r] 3 show ?case by (auto simp: decode_at_scalar)
next
  case (4 s)
  from decode_encode_string [of s bs r] 4 show ?case by (auto simp: decode_at_scalar)
next
  case (5 b)
  from decode_encode_bytes [of b bs r] 5 show ?case by (auto simp: decode_at_scalar)
next
  case (6 arr)
  then show ?case by (auto simp: decode_at_array attempt_Inr_iff split: if_splits)
next
  case (7 pairs)
  then show ?case by (auto simp: decode_at_dict attempt_Inr_iff split: if_splits)
next
  case 8
  then show ?case by simp
next
  case (9 v vs)
  from "9.prems" obtain a b where ab: "encode_value v = Inr a" "encode_items vs = Inr b" "bs = a @ b"
    by (auto simp: attempt_Inr_iff)
  then show ?case
    using "9.IH"(1) [OF ab(1), of "depth + 1" "b @ r"] "9.IH"(2) [OF ab(1,2), of depth r] "9.prems"
    by simp
next
  case 10
  then show ?case by simp
next
  case (11 k v ps)
  from "11.prems" obtain a b c where abc: "encode_value k = Inr a" "encode_value v = Inr b"
    "encode_pairs ps = Inr c" "bs = a @ b @ c"
    by (auto simp: attempt_Inr_iff)
  then show ?case
    using "11.IH"(1) [OF abc(1), of "depth + 1" "b @ c @ r"]
      "11.IH"(2) [OF abc(1,2), of "depth + 1" "c @ r"] "11.IH"(3) [OF abc(1,2,3), of depth r] "11.prems"
    by simp
qed

lemma decode_at_too_deep:
  "depth > MAX_OPACK_DEPTH \<Longrightarrow> decode_at buf depth = Inl (TooDeep MAX_OPACK_DEPTH)"
  by (simp add: decode_at.simps)

lemma decode_encode_deep:
  "encode_value v = Inr bs \<Longrightarrow> opack_strs v \<Longrightarrow> depth + opack_depth v > MAX_OPACK_DEPTH \<Longrightarrow>
     decode_at (bs @ r) depth = Inl (TooDeep MAX_OPACK_DEPTH)"
  "encode_items vs = Inr bs \<Longrightarrow> items_strs vs \<Longrightarrow> depth \<le> MAX_OPACK_DEPTH \<Longrightarrow>
     depth + items_depth vs > MAX_OPACK_DEPTH \<Longrightarrow>
     decode_items (length vs) (bs @ r) (depth + 1) = Inl (TooDeep MAX_OPACK_DEPTH)"
  "encode_pairs ps = Inr bs \<Longrightarrow> pairs_strs ps \<Longrightarrow> depth \<le> MAX_OPACK_DEPTH \<Longrightarrow>
     depth + pairs_depth ps > MAX_OPACK_DEPTH \<Longrightarrow>
     decode_pairs (length ps) (bs @ r) (depth + 1) = Inl (TooDeep MAX_OPACK_DEPTH)"
proof (induction v and vs and ps arbitrary: bs depth r and bs depth r and bs depth r
    rule: encode_value_encode_items_encode_pairs.induct)
  case (6 arr)
  then show ?case
    by (cases "depth \<le> MAX_OPACK_DEPTH")
      (auto simp: decode_at_array attempt_Inr_iff decode_at_too_deep split: if_splits)
next
  case (7 pairs)
  then show ?case
    by (cases "depth \<le> MAX_OPACK_DEPTH")
      (auto simp: decode_at_dict attempt_Inr_iff decode_at_too_deep split: if_splits)
next
  case (9 v vs)
  from "9.prems" obtain a b where ab: "encode_value v = Inr a" "encode_items vs = Inr b" "bs = a @ b"
    by (auto simp: attempt_Inr_iff)
  show ?case
  proof (cases "depth + 1 + opack_depth v \<le> MAX_OPACK_DEPTH")
    case True
    then show ?thesis
      using ab decode_encode_opack(1) [OF ab(1), of "depth + 1" "b @ r"]
        "9.IH"(2) [OF ab(1,2), of depth r] "9.prems" by (auto simp: max_def split: if_splits)
  next
    case False
    then show ?thesis using ab "9.IH"(1) [OF ab(1), of "depth + 1" "b @ r"] "9.prems" by simp
  qed
next
  case (11 k v ps)
  from "11.prems" obtain a b c where abc: "encode_value k = Inr a" "encode_value v = Inr b"
    "encode_pairs ps = Inr c" "bs = a @ b @ c"
    by (auto simp: attempt_Inr_iff)
  show ?case
  proof (cases "depth + 1 + opack_depth k \<le> MAX_OPACK_DEPTH")
    case k: True
    note dk = decode_encode_opack(1) [OF abc(1) _ k, of "b @ c @ r"]
    show ?thesis
    proof (cases "depth + 1 + opack_depth v \<le> MAX_OPACK_DEPTH")
      case True
      then show ?thesis
        using abc dk k decode_encode_opack(1) [OF abc(2), of "depth + 1" "c @ r"]
          "11.IH"(3) [OF abc(1-3), of depth r] "11.prems" by (auto simp: max_def split: if_splits)
    next
      case False
      then show ?thesis
        using abc dk "11.IH"(2) [OF abc(1,2), of "depth + 1" "c @ r"] "11.prems" by simp
    qed
  next
    case False
    then show ?thesis using abc "11.IH"(1) [OF abc(1), of "depth + 1" "b @ c @ r"] "11.prems" by simp
  qed
qed (auto simp: decode_at_too_deep)

section \<open>The codec\<close>

definition opack_bytes :: "opack_value \<Rightarrow> bytes" where
  "opack_bytes v = (case opack_encode v of Inl _ \<Rightarrow> [] | Inr bs \<Rightarrow> bs)"

definition opack_wf :: "opack_value \<Rightarrow> bool" where
  "opack_wf v \<longleftrightarrow> (case opack_encode v of Inl _ \<Rightarrow> False | Inr bs \<Rightarrow> True) \<and> opack_strs v \<and>
     opack_depth v \<le> MAX_OPACK_DEPTH"

interpretation opack: prefix_codec opack_bytes "\<lambda>bs. decode_at bs 0" opack_wf
  by unfold_locales
    (auto simp: opack_bytes_def opack_wf_def opack_encode_def decode_encode_opack(1) split: sum.splits)

text \<open>
  C27. OPACK round trip. Whatever the encoder accepts decodes back to the same value, consuming
  exactly the encoded bytes whatever follows them, when it nests at most 64 levels; a deeper
  value, which the encoder also accepts, is refused with the nesting error.
\<close>

theorem opack_roundtrip:
  assumes "opack_encode v = Inr bs" and "opack_strs v"
  shows "opack_decode (bs @ rest) =
    (if opack_depth v \<le> 64 then Inr (v, length bs) else Inl (TooDeep 64))"
proof (cases "opack_depth v \<le> 64")
  case True
  then have "opack_wf v" "opack_bytes v = bs"
    using assms by (simp_all add: opack_wf_def opack_bytes_def MAX_OPACK_DEPTH_def)
  with opack.dec_enc [of v rest] True show ?thesis by (simp add: opack_decode_def)
next
  case False
  then show ?thesis
    using decode_encode_deep(1) [of v bs 0 rest] assms
    by (simp add: opack_encode_def opack_decode_def MAX_OPACK_DEPTH_def)
qed

text \<open>A sample with every kind of value, and one nested 65 levels deep.\<close>

definition opack_sample :: opack_value where
  "opack_sample = ODict [(OString [110], OInt (- 300)), (OString [108],
     OArray [ONull, OBool True, OInt 7, OInt 100, OBytes [1, 2], OArray []])]"

primrec opack_tower :: "nat \<Rightarrow> opack_value" where
  "opack_tower 0 = ONull"
| "opack_tower (Suc n) = OArray [opack_tower n]"

theorem opack_roundtrip_witness:
  "(\<exists>bs. opack_encode opack_sample = Inr bs \<and> opack_decode (bs @ [9]) = Inr (opack_sample, length bs)) \<and>
   (\<exists>bs. opack_encode (opack_tower 65) = Inr bs \<and> opack_decode (bs @ []) = Inl (TooDeep 64))"
proof
  have "\<exists>bs. opack_encode opack_sample = Inr bs"
    by (simp add: opack_sample_def opack_encode_def encode_string_def encode_bytes_def)
  moreover have "opack_strs opack_sample" "opack_depth opack_sample \<le> 64"
    by (simp_all add: opack_sample_def utf8_step_def)
  ultimately show "\<exists>bs. opack_encode opack_sample = Inr bs \<and> opack_decode (bs @ [9]) = Inr (opack_sample, length bs)"
    using opack_roundtrip [of opack_sample _ "[9]"] by auto
next
  have enc: "\<exists>bs. opack_encode (opack_tower n) = Inr bs" for n
    by (induction n) (auto simp: opack_encode_def)
  have "opack_strs (opack_tower n)" "opack_depth (opack_tower n) = n" for n
    by (induction n) auto
  then show "\<exists>bs. opack_encode (opack_tower 65) = Inr bs \<and> opack_decode (bs @ []) = Inl (TooDeep 64)"
    using enc [of 65] opack_roundtrip [of "opack_tower 65" _ "[]"] by auto
qed

end
