(* ===== verification/Mbdb.thy ===== *)
theory Mbdb
  imports Codec_Interface
begin

text \<open>
  The pre-iOS 10.3 backup index (\<open>services/backup2/mbdb.rs\<close>). The reader is the rest of
  the buffer; a slice is never longer than \<open>isize::MAX\<close>, so the overflow branches of its
  \<open>checked_add\<close> calls cannot be taken and are left out. The SHA-1 file id is a parameter
  \<open>sha1_hex\<close>. A record is a canonical codec: parsing a manifest and serialising it
  unfiltered are inverse to each other, and filtering keeps order and contents.
\<close>

section \<open>Data\<close>

definition MBDB_MAGIC :: bytes where "MBDB_MAGIC = [0x6D, 0x62, 0x64, 0x62, 5, 0]"
definition NULL_LENGTH :: u16 where "NULL_LENGTH = 0xFFFF"
definition MAX_RECORDS :: nat where "MAX_RECORDS = 1000000"
definition MAX_FIELD_BYTES :: nat where "MAX_FIELD_BYTES = 65534"

record mbdb_record =
  domain :: "bytes option"
  relative_path :: "bytes option"
  link_target :: "bytes option"
  data_hash :: "bytes option"
  encryption_key :: "bytes option"
  mode :: u16
  unknown2 :: u32
  unknown3 :: u32
  user_id :: u32
  group_id :: u32
  mtime :: u32
  atime :: u32
  ctime :: u32
  size_bytes :: u64
  flags :: byte
  properties :: "(bytes option \<times> bytes option) list"

type_synonym mbdb_error = string

section \<open>Serialising\<close>

definition put_bytes :: "bytes option \<Rightarrow> mbdb_error + bytes" where
  "put_bytes value = (case value of
       None \<Rightarrow> Inr (to_be16 NULL_LENGTH)
     | Some v \<Rightarrow>
         if length v \<le> 65535 \<and> of_nat (length v) \<noteq> NULL_LENGTH
         then Inr (to_be16 (of_nat (length v)) @ v)
         else Inl ''Manifest.mbdb field is too large to serialize'')"

definition put_string :: "bytes option \<Rightarrow> mbdb_error + bytes" where
  "put_string value = put_bytes value"

fun put_properties :: "(bytes option \<times> bytes option) list \<Rightarrow> mbdb_error + bytes" where
  "put_properties [] = Inr []"
| "put_properties ((name, value) # ps) =
     attempt (put_string name) (\<lambda>a. attempt (put_string value) (\<lambda>b.
     attempt (put_properties ps) (\<lambda>c. Inr (a @ b @ c))))"

definition mbdb_encode :: "mbdb_record \<Rightarrow> mbdb_error + bytes" where
  "mbdb_encode r =
     attempt (put_string (domain r)) (\<lambda>a.
     attempt (put_string (relative_path r)) (\<lambda>b.
     attempt (put_string (link_target r)) (\<lambda>c.
     attempt (put_bytes (data_hash r)) (\<lambda>d.
     attempt (put_bytes (encryption_key r)) (\<lambda>e.
     if length (properties r) > 255
     then Inl ''Manifest.mbdb has too many properties in one record''
     else attempt (put_properties (properties r)) (\<lambda>f.
       Inr (a @ b @ c @ d @ e @ to_be16 (mode r) @ to_be32 (unknown2 r) @ to_be32 (unknown3 r) @
            to_be32 (user_id r) @ to_be32 (group_id r) @ to_be32 (mtime r) @ to_be32 (atime r) @
            to_be32 (ctime r) @ to_be64 (size_bytes r) @ [flags r] @
            [of_nat (length (properties r))] @ f)))))))"

definition file_id :: "(bytes \<Rightarrow> bytes) \<Rightarrow> mbdb_record \<Rightarrow> mbdb_error + bytes" where
  "file_id sha1_hex r =
     attempt (ok_or ''Manifest.mbdb record has no domain'' (domain r)) (\<lambda>d.
     attempt (ok_or ''Manifest.mbdb record has no relative path'' (relative_path r)) (\<lambda>p.
     Inr (sha1_hex (d @ [0x2D] @ p))))"

fun encode_records :: "(bytes \<Rightarrow> bytes) \<Rightarrow> bytes set option \<Rightarrow> mbdb_record list \<Rightarrow> mbdb_error + bytes" where
  "encode_records sha1_hex retain [] = Inr []"
| "encode_records sha1_hex None (r # rs) =
     attempt (mbdb_encode r) (\<lambda>a. attempt (encode_records sha1_hex None rs) (\<lambda>b. Inr (a @ b)))"
| "encode_records sha1_hex (Some ids) (r # rs) =
     attempt (file_id sha1_hex r) (\<lambda>i.
     if i \<notin> ids then encode_records sha1_hex (Some ids) rs
     else attempt (mbdb_encode r) (\<lambda>a.
          attempt (encode_records sha1_hex (Some ids) rs) (\<lambda>b. Inr (a @ b))))"

definition mbdb_serialize ::
    "(bytes \<Rightarrow> bytes) \<Rightarrow> bytes set option \<Rightarrow> mbdb_record list \<Rightarrow> mbdb_error + bytes" where
  "mbdb_serialize sha1_hex retain records =
     (if length records > MAX_RECORDS then Inl ''Manifest.mbdb exceeds the record safety limit''
      else attempt (encode_records sha1_hex retain records) (\<lambda>b. Inr (MBDB_MAGIC @ b)))"

section \<open>Parsing\<close>

definition rd :: "nat \<Rightarrow> string \<Rightarrow> bytes \<Rightarrow> mbdb_error + (bytes \<times> bytes)" where
  "rd n field bs = (if n \<le> length bs then Inr (take n bs, drop n bs) else Inl field)"

definition rd_byte :: "string \<Rightarrow> bytes \<Rightarrow> mbdb_error + (byte \<times> bytes)" where
  "rd_byte field bs = (case bs of [] \<Rightarrow> Inl field | b # r \<Rightarrow> Inr (b, r))"

definition rd_u16 :: "string \<Rightarrow> bytes \<Rightarrow> mbdb_error + (u16 \<times> bytes)" where
  "rd_u16 field bs = attempt (rd 2 field bs) (\<lambda>(b, r). Inr (from_be16 b, r))"

definition rd_u32 :: "string \<Rightarrow> bytes \<Rightarrow> mbdb_error + (u32 \<times> bytes)" where
  "rd_u32 field bs = attempt (rd 4 field bs) (\<lambda>(b, r). Inr (from_be32 b, r))"

definition rd_u64 :: "string \<Rightarrow> bytes \<Rightarrow> mbdb_error + (u64 \<times> bytes)" where
  "rd_u64 field bs = attempt (rd 8 field bs) (\<lambda>(b, r). Inr (from_be64 b, r))"

definition rd_bytes :: "string \<Rightarrow> bytes \<Rightarrow> mbdb_error + (bytes option \<times> bytes)" where
  "rd_bytes field bs =
     attempt (rd_u16 field bs) (\<lambda>(len, r).
     if len = NULL_LENGTH then Inr (None, r)
     else if unat len > MAX_FIELD_BYTES then Inl ''Manifest.mbdb field is too large''
     else if unat len > length r then Inl ''Manifest.mbdb field is truncated''
     else Inr (Some (take (unat len) r), drop (unat len) r))"

definition rd_string :: "string \<Rightarrow> bytes \<Rightarrow> mbdb_error + (bytes option \<times> bytes)" where
  "rd_string field bs =
     attempt (rd_bytes field bs) (\<lambda>(v, r). case v of
         None \<Rightarrow> Inr (None, r)
       | Some s \<Rightarrow> if utf8_valid s then Inr (Some s, r)
                   else Inl ''Manifest.mbdb contains invalid UTF-8 text'')"

definition rd_property :: "bytes \<Rightarrow> mbdb_error + ((bytes option \<times> bytes option) \<times> bytes)" where
  "rd_property bs =
     attempt (rd_string ''property name'' bs) (\<lambda>(n, r).
     attempt (rd_string ''property value'' r) (\<lambda>(v, r'). Inr ((n, v), r')))"

definition rd_properties :: "bytes \<Rightarrow> mbdb_error + ((bytes option \<times> bytes option) list \<times> bytes)" where
  "rd_properties bs =
     attempt (rd_byte ''property count'' bs) (\<lambda>(count, r). dec_many rd_property (unat count) r)"

definition rd_record :: "bytes \<Rightarrow> mbdb_error + (mbdb_record \<times> bytes)" where
  "rd_record bs =
     attempt (rd_string ''domain'' bs) (\<lambda>(f1, bs).
     attempt (rd_string ''relative path'' bs) (\<lambda>(f2, bs).
     attempt (rd_string ''link target'' bs) (\<lambda>(f3, bs).
     attempt (rd_bytes ''data hash'' bs) (\<lambda>(f4, bs).
     attempt (rd_bytes ''encryption key'' bs) (\<lambda>(f5, bs).
     attempt (rd_u16 ''mode'' bs) (\<lambda>(f6, bs).
     attempt (rd_u32 ''unknown2'' bs) (\<lambda>(f7, bs).
     attempt (rd_u32 ''unknown3'' bs) (\<lambda>(f8, bs).
     attempt (rd_u32 ''user id'' bs) (\<lambda>(f9, bs).
     attempt (rd_u32 ''group id'' bs) (\<lambda>(f10, bs).
     attempt (rd_u32 ''mtime'' bs) (\<lambda>(f11, bs).
     attempt (rd_u32 ''atime'' bs) (\<lambda>(f12, bs).
     attempt (rd_u32 ''ctime'' bs) (\<lambda>(f13, bs).
     attempt (rd_u64 ''file size'' bs) (\<lambda>(f14, bs).
     attempt (rd_byte ''flags'' bs) (\<lambda>(f15, bs).
     attempt (rd_properties bs) (\<lambda>(f16, bs).
     Inr (\<lparr>domain = f1, relative_path = f2, link_target = f3, data_hash = f4, encryption_key = f5,
           mode = f6, unknown2 = f7, unknown3 = f8, user_id = f9, group_id = f10, mtime = f11,
           atime = f12, ctime = f13, size_bytes = f14, flags = f15, properties = f16\<rparr>, bs)))))))))))))))))"

section \<open>Fields\<close>

lemma rd_iff: "rd n field bs = Inr (x, r) \<longleftrightarrow> bs = x @ r \<and> length x = n"
  by (auto simp: rd_def)

lemma rd_word_iff:
  "rd_u16 field bs = Inr (a, r) \<longleftrightarrow> bs = to_be16 a @ r"
  "rd_u32 field bs = Inr (b, r) \<longleftrightarrow> bs = to_be32 b @ r"
  "rd_u64 field bs = Inr (c, r) \<longleftrightarrow> bs = to_be64 c @ r"
  by (auto simp: rd_u16_def rd_u32_def rd_u64_def attempt_Inr_iff rd_iff to_from_be)

lemma rd_byte_iff: "rd_byte field bs = Inr (b, r) \<longleftrightarrow> bs = b # r"
  by (auto simp: rd_byte_def split: list.splits)

lemma unat_u16_of_nat: "n \<le> 65535 \<Longrightarrow> unat (of_nat n :: u16) = n"
  by (simp add: unat_of_nat)

lemma rd_bytes_iff: "rd_bytes field bs = Inr (v, r) \<longleftrightarrow> (\<exists>p. put_bytes v = Inr p \<and> bs = p @ r)"
proof
  assume "rd_bytes field bs = Inr (v, r)"
  then show "\<exists>p. put_bytes v = Inr p \<and> bs = p @ r"
    by (auto simp: rd_bytes_def put_bytes_def attempt_Inr_iff rd_word_iff MAX_FIELD_BYTES_def
        min_def split: if_splits)
next
  assume "\<exists>p. put_bytes v = Inr p \<and> bs = p @ r"
  then obtain p where p: "put_bytes v = Inr p" and bs: "bs = p @ r" by blast
  show "rd_bytes field bs = Inr (v, r)"
  proof (cases v)
    case None
    then show ?thesis using p bs by (auto simp: rd_bytes_def put_bytes_def attempt_Inr_iff rd_word_iff)
  next
    case (Some s)
    then have len: "length s \<le> 65535" "of_nat (length s) \<noteq> NULL_LENGTH" "p = to_be16 (of_nat (length s)) @ s"
      using p by (auto simp: put_bytes_def split: if_splits)
    then have "length s \<noteq> 65535" by (auto simp: NULL_LENGTH_def)
    then have "length s \<le> 65534" using len(1) by simp
    moreover have "rd_u16 field bs = Inr (of_nat (length s), s @ r)"
      using bs len by (simp add: rd_word_iff)
    ultimately show ?thesis
      using len Some by (simp add: rd_bytes_def MAX_FIELD_BYTES_def unat_u16_of_nat)
  qed
qed

text \<open>An optional string as Rust has it.\<close>

definition opt_utf8 :: "bytes option \<Rightarrow> bool" where
  "opt_utf8 v = (case v of None \<Rightarrow> True | Some s \<Rightarrow> utf8_valid s)"

lemma rd_string_iff:
  "rd_string field bs = Inr (v, r) \<longleftrightarrow> opt_utf8 v \<and> (\<exists>p. put_string v = Inr p \<and> bs = p @ r)"
  by (auto simp: rd_string_def attempt_Inr_iff rd_bytes_iff put_string_def opt_utf8_def
      split: option.splits if_splits)

lemma rd_property_iff:
  "rd_property bs = Inr ((a, b), r) \<longleftrightarrow> opt_utf8 a \<and> opt_utf8 b \<and>
     (\<exists>p q. put_string a = Inr p \<and> put_string b = Inr q \<and> bs = p @ q @ r)"
  by (auto simp: rd_property_def attempt_Inr_iff rd_string_iff)

lemma rd_properties_iff:
  "dec_many rd_property n bs = Inr (ps, r) \<longleftrightarrow>
   length ps = n \<and> (\<forall>(a, b) \<in> set ps. opt_utf8 a \<and> opt_utf8 b) \<and> (\<exists>p. put_properties ps = Inr p \<and> bs = p @ r)"
proof (induction n arbitrary: bs ps)
  case 0
  then show ?case by auto
next
  case (Suc n)
  show ?case
  proof (cases ps)
    case (Cons x xs)
    then show ?thesis
      by (cases x) (auto simp: attempt_Inr_iff rd_property_iff Suc.IH)
  qed (auto simp: attempt_Inr_iff)
qed

definition record_utf8 :: "mbdb_record \<Rightarrow> bool" where
  "record_utf8 r \<longleftrightarrow> opt_utf8 (domain r) \<and> opt_utf8 (relative_path r) \<and> opt_utf8 (link_target r) \<and>
     (\<forall>(a, b) \<in> set (properties r). opt_utf8 a \<and> opt_utf8 b)"

section \<open>Records\<close>

lemma unat_byte_le_255 [simp]: "\<not> 255 < unat (b :: byte)"
  using unat_byte_less [of b] by linarith

lemma rd_put:
  "put_bytes v = Inr p \<Longrightarrow> rd_bytes field (p @ r) = Inr (v, r)"
  "put_string v = Inr p \<Longrightarrow> opt_utf8 v \<Longrightarrow> rd_string field (p @ r) = Inr (v, r)"
  "rd_u16 field (to_be16 w2 @ r) = Inr (w2, r)"
  "rd_u32 field (to_be32 w4 @ r) = Inr (w4, r)"
  "rd_u64 field (to_be64 w8 @ r) = Inr (w8, r)"
  "rd_byte field (b # r) = Inr (b, r)"
  "put_properties ps = Inr p \<Longrightarrow> length ps \<le> 255 \<Longrightarrow> (\<forall>(a, b) \<in> set ps. opt_utf8 a \<and> opt_utf8 b) \<Longrightarrow>
     rd_properties (of_nat (length ps) # p @ r) = Inr (ps, r)"
  by (simp_all add: rd_bytes_iff rd_string_iff rd_word_iff rd_byte_iff rd_properties_iff
      rd_properties_def attempt_Inr_iff unat_of_nat)

lemma rd_record_iff: "rd_record bs = Inr (x, r) \<longleftrightarrow> record_utf8 x \<and> (\<exists>p. mbdb_encode x = Inr p \<and> bs = p @ r)"
proof
  assume "rd_record bs = Inr (x, r)"
  then show "record_utf8 x \<and> (\<exists>p. mbdb_encode x = Inr p \<and> bs = p @ r)"
    by (auto simp: rd_record_def attempt_Inr_iff rd_string_iff rd_bytes_iff rd_word_iff rd_byte_iff
        rd_properties_def rd_properties_iff record_utf8_def mbdb_encode_def unat_of_nat)
next
  assume "record_utf8 x \<and> (\<exists>p. mbdb_encode x = Inr p \<and> bs = p @ r)"
  then show "rd_record bs = Inr (x, r)"
    by (auto simp: record_utf8_def mbdb_encode_def attempt_Inr_iff rd_record_def rd_put
        split: if_splits)
qed

text \<open>A record is a canonical codec: it has exactly one encoding.\<close>

definition record_bytes :: "mbdb_record \<Rightarrow> bytes" where
  "record_bytes x = (case mbdb_encode x of Inl _ \<Rightarrow> [] | Inr p \<Rightarrow> p)"

definition record_wf :: "mbdb_record \<Rightarrow> bool" where
  "record_wf x \<longleftrightarrow> record_utf8 x \<and> (case mbdb_encode x of Inl _ \<Rightarrow> False | Inr _ \<Rightarrow> True)"

interpretation mbdb: canonical_codec record_bytes rd_record record_wf
  by unfold_locales (auto simp: rd_record_iff record_wf_def record_bytes_def split: sum.splits)

lemma record_wf_iff: "record_wf x \<longleftrightarrow> record_utf8 x \<and> mbdb_encode x = Inr (record_bytes x)"
  by (auto simp: record_wf_def record_bytes_def split: sum.splits)

lemma record_bytes_encode: "mbdb_encode x = Inr p \<Longrightarrow> record_bytes x = p"
  by (simp add: record_bytes_def)

lemma mbdb_encode_nonempty: "mbdb_encode x = Inr p \<Longrightarrow> p \<noteq> []"
  by (auto simp: mbdb_encode_def attempt_Inr_iff split: if_splits)

lemma record_bytes_nonempty: "record_wf x \<Longrightarrow> record_bytes x \<noteq> []"
  by (auto simp: record_wf_def record_bytes_def mbdb_encode_nonempty split: sum.splits)

lemma rd_record_shorter: "rd_record bs = Inr (x, r) \<Longrightarrow> length r < length bs"
  using record_bytes_nonempty by (auto simp: mbdb.dec_iff)

section \<open>Manifests\<close>

text \<open>The loop of \<open>parse\<close>; \<open>n\<close> records have been read. Every record shortens the input.\<close>

function parse_records :: "nat \<Rightarrow> bytes \<Rightarrow> mbdb_error + mbdb_record list" where
  "parse_records n bs =
     (if bs = [] then Inr []
      else if n \<ge> MAX_RECORDS then Inl ''Manifest.mbdb exceeds the record safety limit''
      else attempt (rd_record bs) (\<lambda>(x, r). attempt (parse_records (Suc n) r) (\<lambda>xs. Inr (x # xs))))"
  by pat_completeness auto
termination by (relation "measure (\<lambda>(n, bs). length bs)") (auto dest: rd_record_shorter)

declare parse_records.simps [simp del]

definition mbdb_parse :: "bytes \<Rightarrow> mbdb_error + mbdb_record list" where
  "mbdb_parse bs =
     (if length bs < length MBDB_MAGIC \<or> take (length MBDB_MAGIC) bs \<noteq> MBDB_MAGIC
      then Inl ''Manifest.mbdb has an invalid magic/version''
      else parse_records 0 (drop (length MBDB_MAGIC) bs))"

lemma parse_records_iff:
  "n \<le> MAX_RECORDS \<Longrightarrow> parse_records n bs = Inr xs \<longleftrightarrow>
     n + length xs \<le> MAX_RECORDS \<and> (\<forall>x \<in> set xs. record_wf x) \<and> bs = concat (map record_bytes xs)"
proof (induction n bs arbitrary: xs rule: parse_records.induct)
  case (1 n bs)
  show ?case
  proof (cases "bs = []")
    case True
    then show ?thesis
      using "1.prems" record_bytes_nonempty
      by (subst parse_records.simps) (cases xs, auto)
  next
    case False
    show ?thesis
    proof (cases "n < MAX_RECORDS")
      case n: True
      have IH: "parse_records (Suc n) r = Inr ys \<longleftrightarrow> Suc n + length ys \<le> MAX_RECORDS \<and>
          (\<forall>x \<in> set ys. record_wf x) \<and> r = concat (map record_bytes ys)"
        if "rd_record bs = Inr (x, r)" for x r ys
        using "1.IH" [OF False _ that refl] n by simp
      show ?thesis
      proof
        assume "parse_records n bs = Inr xs"
        then obtain x r ys where "rd_record bs = Inr (x, r)" "parse_records (Suc n) r = Inr ys" "xs = x # ys"
          using n False by (subst (asm) parse_records.simps) (auto simp: attempt_Inr_iff)
        then show "n + length xs \<le> MAX_RECORDS \<and> (\<forall>x \<in> set xs. record_wf x) \<and> bs = concat (map record_bytes xs)"
          using IH by (auto simp: mbdb.dec_iff)
      next
        assume *: "n + length xs \<le> MAX_RECORDS \<and> (\<forall>x \<in> set xs. record_wf x) \<and> bs = concat (map record_bytes xs)"
        then obtain y ys where xs: "xs = y # ys" using False by (cases xs) auto
        then have "rd_record bs = Inr (y, concat (map record_bytes ys))"
          using * by (simp add: mbdb.dec_enc)
        then show "parse_records n bs = Inr xs"
          using IH [of y _ ys] * n False xs by (subst parse_records.simps) simp
      qed
    next
      case n: False
      then show ?thesis
        using "1.prems" False by (subst parse_records.simps) auto
    qed
  qed
qed

lemma encode_records_None:
  "(\<forall>x \<in> set xs. record_utf8 x) \<Longrightarrow> encode_records sha None xs = Inr bs \<longleftrightarrow>
   (\<forall>x \<in> set xs. record_wf x) \<and> bs = concat (map record_bytes xs)"
proof (induction xs arbitrary: bs)
  case (Cons a xs)
  show ?case
  proof (cases "mbdb_encode a")
    case (Inr p)
    then show ?thesis
      using Cons record_bytes_encode [OF Inr] by (auto simp: attempt_Inr_iff record_wf_iff [of a])
  qed (simp add: record_wf_iff)
qed auto

text \<open>
  C28. A backup manifest is read and rewritten byte for byte. The bytes parse to the records
  exactly when those records, with valid strings, serialise unfiltered to the bytes; so parsing
  loses nothing, and no two manifests share an encoding.
\<close>

theorem mbdb_parse_serialize_iff:
  "mbdb_parse bs = Inr xs \<longleftrightarrow> mbdb_serialize sha None xs = Inr bs \<and> list_all record_utf8 xs"
proof -
  have "mbdb_parse bs = Inr xs \<longleftrightarrow> (\<exists>r. bs = MBDB_MAGIC @ r \<and> parse_records 0 r = Inr xs)"
    unfolding mbdb_parse_def by (auto simp: not_less) (metis append_take_drop_id)
  also have "\<dots> \<longleftrightarrow> (\<exists>r. bs = MBDB_MAGIC @ r \<and> length xs \<le> MAX_RECORDS \<and>
      encode_records sha None xs = Inr r \<and> (\<forall>x \<in> set xs. record_utf8 x))"
    using encode_records_None [of xs sha] by (auto simp: parse_records_iff record_wf_iff)
  also have "\<dots> \<longleftrightarrow> mbdb_serialize sha None xs = Inr bs \<and> list_all record_utf8 xs"
    by (auto simp: mbdb_serialize_def attempt_Inr_iff list_all_iff)
  finally show ?thesis .
qed

lemma encode_records_Some:
  "encode_records sha (Some ids) xs = Inr bs \<Longrightarrow>
   encode_records sha None (filter (\<lambda>x. \<exists>i \<in> ids. file_id sha x = Inr i) xs) = Inr bs"
  by (induction xs arbitrary: bs) (auto simp: attempt_Inr_iff split: if_splits)

lemma mbdb_serialize_filter:
  assumes "mbdb_serialize sha (Some ids) xs = Inr out"
  shows "mbdb_serialize sha None (filter (\<lambda>x. \<exists>i \<in> ids. file_id sha x = Inr i) xs) = Inr out"
proof -
  let ?ys = "filter (\<lambda>x. \<exists>i \<in> ids. file_id sha x = Inr i) xs"
  from assms obtain b where b: "length xs \<le> MAX_RECORDS" "encode_records sha (Some ids) xs = Inr b"
    "out = MBDB_MAGIC @ b" by (auto simp: mbdb_serialize_def attempt_Inr_iff split: if_splits)
  then have "length ?ys \<le> MAX_RECORDS" using length_filter_le le_trans by blast
  then show ?thesis using b encode_records_Some [OF b(2)] by (simp add: mbdb_serialize_def)
qed

text \<open>
  C38. Filtering a backup manifest keeps order and contents: rewriting a parsed manifest for a set
  of file ids gives bytes that parse to exactly the records with those ids, unchanged and in
  their order.
\<close>

theorem mbdb_filter_keeps_records:
  assumes "mbdb_parse bs = Inr xs" and "mbdb_serialize sha (Some ids) xs = Inr out"
  shows "mbdb_parse out = Inr (filter (\<lambda>x. \<exists>i \<in> ids. file_id sha x = Inr i) xs)"
proof -
  have "\<forall>x \<in> set xs. record_utf8 x"
    using assms(1) by (auto simp: mbdb_parse_def parse_records_iff record_wf_iff split: if_splits)
  then have "\<forall>x \<in> set (filter (\<lambda>x. \<exists>i \<in> ids. file_id sha x = Inr i) xs). record_wf x"
    and "length (filter (\<lambda>x. \<exists>i \<in> ids. file_id sha x = Inr i) xs) \<le> MAX_RECORDS"
    and "out = MBDB_MAGIC @ concat (map record_bytes (filter (\<lambda>x. \<exists>i \<in> ids. file_id sha x = Inr i) xs))"
    using mbdb_serialize_filter [OF assms(2)] encode_records_None [of "filter _ xs" sha]
    by (auto simp: mbdb_serialize_def attempt_Inr_iff split: if_splits)
  then show ?thesis by (simp add: mbdb_parse_def parse_records_iff)
qed

definition sample_record :: "bytes \<Rightarrow> mbdb_record" where
  "sample_record d =
     \<lparr>domain = Some d, relative_path = Some [97], link_target = None, data_hash = Some [1, 2],
      encryption_key = None, mode = 0x8180, unknown2 = 0, unknown3 = 7, user_id = 501, group_id = 501,
      mtime = 1, atime = 2, ctime = 3, size_bytes = 5, flags = 4, properties = [(Some [110], None)]\<rparr>"

theorem mbdb_filter_keeps_records_witness:
  "\<exists>bs out. mbdb_parse bs = Inr [sample_record [72], sample_record [73]] \<and>
     mbdb_serialize id (Some {[73, 45, 97]}) [sample_record [72], sample_record [73]] = Inr out \<and>
     mbdb_parse out = Inr [sample_record [73]]"
proof -
  let ?xs = "[sample_record [72], sample_record [73]]"
  have enc: "\<exists>p. mbdb_encode (sample_record [d]) = Inr p" for d
    by (simp add: sample_record_def mbdb_encode_def put_string_def put_bytes_def NULL_LENGTH_def)
  have utf: "record_utf8 (sample_record [72])" "record_utf8 (sample_record [73])"
    by (simp_all add: sample_record_def record_utf8_def opt_utf8_def utf8_step_def)
  have ids: "file_id id (sample_record [d]) = Inr [d, 45, 97]" for d
    by (simp add: sample_record_def file_id_def)
  have "mbdb_parse (MBDB_MAGIC @ concat (map record_bytes ?xs)) = Inr ?xs"
    using enc [of 72] enc [of 73] utf
    by (auto simp: mbdb_parse_def parse_records_iff record_wf_iff record_bytes_def MAX_RECORDS_def)
  moreover obtain out where "mbdb_serialize id (Some {[73, 45, 97]}) ?xs = Inr out"
    using enc [of 73] by (auto simp: mbdb_serialize_def MAX_RECORDS_def ids)
  ultimately show ?thesis
    using mbdb_filter_keeps_records [of _ ?xs id "{[73, 45, 97]}" out] by (auto simp: ids)
qed

end
