(* ===== verification/Reassembly_Interface.thy ===== *)
theory Reassembly_Interface
  imports Codec_Interface
begin

text \<open>
  The contract of an incremental reassembler: a buffer that is fed the bytes of a stream in
  arbitrary pieces and hands out complete messages. The client below feeds a piece, takes all
  the messages that are complete, and goes on; the locale \<open>reassembler\<close> shows once that it
  gets back exactly the messages that were sent, in order, however the stream was cut.
\<close>

section \<open>The client\<close>

text \<open>Take messages until there is none, at most \<open>n\<close> of them.\<close>

fun drain :: "(bytes \<Rightarrow> ('e + 'm option) \<times> bytes) \<Rightarrow> nat \<Rightarrow> bytes \<Rightarrow> ('e + 'm list) \<times> bytes" where
  "drain nx 0 b = (Inr [], b)"
| "drain nx (Suc n) b = (case nx b of
       (Inl e, b') \<Rightarrow> (Inl e, b')
     | (Inr None, b') \<Rightarrow> (Inr [], b')
     | (Inr (Some m), b') \<Rightarrow> (case drain nx n b' of
           (Inl e, b'') \<Rightarrow> (Inl e, b'')
         | (Inr ms, b'') \<Rightarrow> (Inr (m # ms), b'')))"

text \<open>
  Feed the pieces one by one. A buffer of \<open>k\<close> bytes holds at most \<open>k\<close> messages, so
  \<open>k + 1\<close> calls are enough to see that there is none left.
\<close>

fun feed :: "(bytes \<Rightarrow> bytes \<Rightarrow> 'e + bytes) \<Rightarrow> (bytes \<Rightarrow> ('e + 'm option) \<times> bytes) \<Rightarrow>
    bytes list \<Rightarrow> bytes \<Rightarrow> 'e + ('m list \<times> bytes)" where
  "feed push nx [] b = Inr ([], b)"
| "feed push nx (c # cs) b =
     attempt (push c b) (\<lambda>b1. case drain nx (Suc (length b1)) b1 of
         (Inl e, b2) \<Rightarrow> Inl e
       | (Inr ms, b2) \<Rightarrow> attempt (feed push nx cs b2) (\<lambda>(ms', b3). Inr (ms @ ms', b3)))"

section \<open>The contract\<close>

locale reassembler =
  fixes enc :: "'m \<Rightarrow> bytes"
    and push :: "bytes \<Rightarrow> bytes \<Rightarrow> 'e + bytes"
    and nx :: "bytes \<Rightarrow> ('e + 'm option) \<times> bytes"
    and wf :: "'m \<Rightarrow> bool"
    and cap :: nat
  assumes nx_full: "wf m \<Longrightarrow> nx (enc m @ r) = (Inr (Some m), r)"
    and nx_part: "wf m \<Longrightarrow> enc m = p @ q \<Longrightarrow> q \<noteq> [] \<Longrightarrow> nx p = (Inr None, p)"
    and enc_nonempty: "wf m \<Longrightarrow> enc m \<noteq> []"
    and push_fits: "length b + length c \<le> cap \<Longrightarrow> push c b = Inr (b @ c)"
    and nx_empty: "nx [] = (Inr None, [])"
begin

text \<open>A buffer holds a prefix of the stream: what can be taken out of it is determined.\<close>

lemma drain_prefix:
  assumes "b @ future = concat (map enc ms)" and "\<forall>m \<in> set ms. wf m" and "length b < n"
  shows "\<exists>taken rest p. ms = taken @ rest \<and> drain nx n b = (Inr taken, p) \<and>
           p @ future = concat (map enc rest) \<and> (case rest of [] \<Rightarrow> p = [] | m # _ \<Rightarrow> length p < length (enc m))"
  using assms
proof (induction ms arbitrary: b n)
  case Nil
  then obtain k where "n = Suc k" by (cases n) auto
  with Nil nx_empty show ?case by auto
next
  case (Cons m ms)
  from Cons.prems(3) obtain k where n: "n = Suc k" by (cases n) auto
  have wf: "wf m" using Cons.prems(2) by simp
  have eq: "b @ future = enc m @ concat (map enc ms)" using Cons.prems(1) by simp
  show ?case
  proof (cases "length (enc m) \<le> length b")
    case True
    then obtain b' where b': "b = enc m @ b'" "b' @ future = concat (map enc ms)"
      using append_eq_extends [OF eq] by auto
    moreover have "length b' < k" using b'(1) enc_nonempty [OF wf] Cons.prems(3) n by (cases "enc m") auto
    ultimately obtain taken rest p where
      "ms = taken @ rest" "drain nx k b' = (Inr taken, p)" "p @ future = concat (map enc rest)"
      "case rest of [] \<Rightarrow> p = [] | m # _ \<Rightarrow> length p < length (enc m)"
      using Cons.IH [of b' k] Cons.prems(2) by auto
    then show ?thesis
      using n b'(1) nx_full [OF wf, of b'] by (intro exI [of _ "m # taken"] exI [of _ rest] exI [of _ p]) auto
  next
    case False
    then obtain q where "enc m = b @ q" "q \<noteq> []"
      using append_eq_extends [OF eq [symmetric]] by auto
    with nx_part [OF wf this] show ?thesis
      using n False eq by (intro exI [of _ "[]"] exI [of _ "m # ms"] exI [of _ b]) auto
  qed
qed

lemma feed_stream:
  assumes "b @ concat cs = concat (map enc ms)" and "\<forall>m \<in> set ms. wf m"
    and "\<forall>c \<in> set cs. length c \<le> k" and "\<forall>m \<in> set ms. length (enc m) + k \<le> cap" and "k \<le> cap"
    and "case ms of [] \<Rightarrow> b = [] | m # _ \<Rightarrow> length b < length (enc m)"
  shows "feed push nx cs b = Inr (ms, [])"
  using assms
proof (induction cs arbitrary: b ms)
  case Nil
  then show ?case by (cases ms) auto
next
  case (Cons c cs)
  have "length b + length c \<le> cap"
  proof (cases ms)
    case Nil
    then show ?thesis using Cons.prems by auto
  next
    case (Cons m ms')
    then show ?thesis using Cons.prems by force
  qed
  then have push: "push c b = Inr (b @ c)" by (rule push_fits)
  from drain_prefix [of "b @ c" "concat cs" ms "Suc (length (b @ c))"] Cons.prems(1,2)
  obtain taken rest p where tp: "ms = taken @ rest" "drain nx (Suc (length (b @ c))) (b @ c) = (Inr taken, p)"
    "p @ concat cs = concat (map enc rest)" "case rest of [] \<Rightarrow> p = [] | m # _ \<Rightarrow> length p < length (enc m)"
    by auto
  have "feed push nx cs p = Inr (rest, [])"
    using Cons.prems tp by (intro Cons.IH) auto
  then show ?case using push tp by (simp del: drain.simps)
qed

end

end
