(* ===== verification/Xpc_Message.thy ===== *)
theory Xpc_Message
  imports Reassembly_Interface
begin

text \<open>
  XPC messages (\<open>xpc/message.rs\<close>): the value encoder and decoder with their size and nesting
  limits, the 24-byte wrapper, and the incremental reassembler \<open>XpcMessageBuffer\<close>. A decoder
  works on the rest of the buffer. Doubles are their 64 bits; an \<open>IndexMap\<close> is the list of
  its entries in insertion order. \<open>XpcError::Tls\<close> is its format string and arguments.
\<close>

unbundle bit_operations_syntax

section \<open>Constants and limits\<close>

definition WRAPPER_MAGIC :: u32 where "WRAPPER_MAGIC = 0x29B00B92"
definition OBJECT_MAGIC :: u32 where "OBJECT_MAGIC = 0x42133742"
definition BODY_VERSION :: u32 where "BODY_VERSION = 5"
definition XPC_CONTROL_BODY_LIMIT :: nat where "XPC_CONTROL_BODY_LIMIT = 8 * 1024 * 1024"
definition XPC_DATA_STREAM_BODY_LIMIT :: nat where "XPC_DATA_STREAM_BODY_LIMIT = 64 * 1024 * 1024"
definition XPC_PENDING_BUFFER_LIMIT :: nat where
  "XPC_PENDING_BUFFER_LIMIT = XPC_DATA_STREAM_BODY_LIMIT + 24"
definition MAX_XPC_NESTING_DEPTH :: nat where "MAX_XPC_NESTING_DEPTH = 64"
definition MAX_XPC_COLLECTION_SIZE :: nat where "MAX_XPC_COLLECTION_SIZE = 65536"

definition XPC_ALWAYS_SET :: u32 where "XPC_ALWAYS_SET = 0x00000001"
definition XPC_DATA :: u32 where "XPC_DATA = 0x00000100"
definition XPC_WANTING_REPLY :: u32 where "XPC_WANTING_REPLY = 0x00010000"
definition XPC_REPLY :: u32 where "XPC_REPLY = 0x00020000"
definition FILE_TX_STREAM_REQUEST :: u32 where "FILE_TX_STREAM_REQUEST = 0x00100000"
definition FILE_TX_STREAM_RESPONSE :: u32 where "FILE_TX_STREAM_RESPONSE = 0x00200000"
definition INIT_HANDSHAKE :: u32 where "INIT_HANDSHAKE = 0x00400000"

datatype xpc_error = Tls string "nat list"

definition xpc_body_limit_for_flags :: "u32 \<Rightarrow> nat" where
  "xpc_body_limit_for_flags flags =
     (if flags AND (FILE_TX_STREAM_REQUEST OR FILE_TX_STREAM_RESPONSE) \<noteq> 0
      then XPC_DATA_STREAM_BODY_LIMIT else XPC_CONTROL_BODY_LIMIT)"

definition checked_xpc_body_len :: "u64 \<Rightarrow> nat \<Rightarrow> xpc_error + nat" where
  "checked_xpc_body_len declared limit =
     (let len = unat declared in
      if len > usize_MAX then Inl (Tls ''XPC body length {declared} exceeds usize::MAX'' [len])
      else if len > limit then Inl (Tls ''XPC body length {declared} exceeds limit {limit}'' [len, limit])
      else Inr len)"

section \<open>Values\<close>

datatype xpc_value =
    XNull
  | XBool bool
  | XInt64 i64
  | XUint64 u64
  | XDouble u64
  | XDate i64
  | XData bytes
  | XString bytes
  | XUuid bytes
  | XArray "xpc_value list"
  | XDictionary "(bytes \<times> xpc_value) list"
  | XFileTransfer u64 xpc_value

record xpc_message =
  flags :: u32
  msg_id :: u64
  body :: "xpc_value option"

definition TYPE_NULL :: u32 where "TYPE_NULL = 0x00001000"
definition TYPE_BOOL :: u32 where "TYPE_BOOL = 0x00002000"
definition TYPE_INT64 :: u32 where "TYPE_INT64 = 0x00003000"
definition TYPE_UINT64 :: u32 where "TYPE_UINT64 = 0x00004000"
definition TYPE_DOUBLE :: u32 where "TYPE_DOUBLE = 0x00005000"
definition TYPE_DATE :: u32 where "TYPE_DATE = 0x00007000"
definition TYPE_DATA :: u32 where "TYPE_DATA = 0x00008000"
definition TYPE_STRING :: u32 where "TYPE_STRING = 0x00009000"
definition TYPE_UUID :: u32 where "TYPE_UUID = 0x0000A000"
definition TYPE_ARRAY :: u32 where "TYPE_ARRAY = 0x0000E000"
definition TYPE_DICTIONARY :: u32 where "TYPE_DICTIONARY = 0x0000F000"
definition TYPE_FILE_TRANSFER :: u32 where "TYPE_FILE_TRANSFER = 0x0001A000"

lemmas type_defs = TYPE_NULL_def TYPE_BOOL_def TYPE_INT64_def TYPE_UINT64_def TYPE_DOUBLE_def
  TYPE_DATE_def TYPE_DATA_def TYPE_STRING_def TYPE_UUID_def TYPE_ARRAY_def TYPE_DICTIONARY_def
  TYPE_FILE_TRANSFER_def

primrec as_str :: "xpc_value \<Rightarrow> bytes option" where
  "as_str XNull = None"
| "as_str (XBool b) = None"
| "as_str (XInt64 n) = None"
| "as_str (XUint64 n) = None"
| "as_str (XDouble n) = None"
| "as_str (XDate n) = None"
| "as_str (XData d) = None"
| "as_str (XString s) = Some s"
| "as_str (XUuid u) = None"
| "as_str (XArray a) = None"
| "as_str (XDictionary d) = None"
| "as_str (XFileTransfer i d) = None"

definition as_dict :: "xpc_value \<Rightarrow> (bytes \<times> xpc_value) list option" where
  "as_dict v = (case v of XDictionary d \<Rightarrow> Some d | _ \<Rightarrow> None)"

definition as_uint64 :: "xpc_value \<Rightarrow> u64 option" where
  "as_uint64 v = (case v of XUint64 n \<Rightarrow> Some n | _ \<Rightarrow> None)"

definition as_file_transfer :: "xpc_value \<Rightarrow> (u64 \<times> xpc_value) option" where
  "as_file_transfer v = (case v of XFileTransfer i d \<Rightarrow> Some (i, d) | _ \<Rightarrow> None)"

section \<open>Encoding\<close>

definition checked_u32_len :: "string \<Rightarrow> nat \<Rightarrow> xpc_error + u32" where
  "checked_u32_len kind len =
     (if len \<le> 0xFFFFFFFF then Inr (of_nat len)
      else Inl (Tls (''XPC '' @ kind @ '' length exceeds u32::MAX: {len}'') [len]))"

definition checked_collection_len :: "string \<Rightarrow> nat \<Rightarrow> xpc_error + u32" where
  "checked_collection_len kind len =
     (if len \<le> 0xFFFFFFFF then Inr (of_nat len)
      else Inl (Tls (''XPC '' @ kind @ '' encoded size exceeds u32::MAX: {len}'') [len]))"

definition checked_u64_len :: "string \<Rightarrow> nat \<Rightarrow> xpc_error + u64" where
  "checked_u64_len kind len =
     (if len \<le> 0xFFFFFFFFFFFFFFFF then Inr (of_nat len)
      else Inl (Tls (''XPC '' @ kind @ '' length exceeds u64::MAX: {len}'') [len]))"

text \<open>\<open>(len + 3) & !3\<close>: the next multiple of four.\<close>

definition checked_align4 :: "string \<Rightarrow> nat \<Rightarrow> xpc_error + nat" where
  "checked_align4 kind len =
     (case usize_checked_add len 3 of
        Some v \<Rightarrow> Inr (v div 4 * 4)
      | None \<Rightarrow> Inl (Tls (''XPC '' @ kind @ '' padded length overflow: {len}'') [len]))"

definition encode_data :: "bytes \<Rightarrow> xpc_error + bytes" where
  "encode_data d =
     attempt (checked_u32_len ''data'' (length d)) (\<lambda>len.
     attempt (checked_align4 ''data'' (length d)) (\<lambda>padded.
     Inr (to_le32 TYPE_DATA @ to_le32 len @ d @ replicate (padded - length d) 0)))"

definition encode_xstring :: "bytes \<Rightarrow> xpc_error + bytes" where
  "encode_xstring raw =
     attempt (ok_or (Tls ''XPC string length overflow'' []) (usize_checked_add (length raw) 1)) (\<lambda>total.
     attempt (checked_u32_len ''string'' total) (\<lambda>len.
     attempt (checked_align4 ''string'' total) (\<lambda>padded.
     Inr (to_le32 TYPE_STRING @ to_le32 len @ raw @ replicate (padded - length raw) 0))))"

definition encode_dict_key :: "bytes \<Rightarrow> xpc_error + bytes" where
  "encode_dict_key raw =
     attempt (ok_or (Tls ''XPC dict key length overflow'' []) (usize_checked_add (length raw) 1)) (\<lambda>total.
     attempt (checked_align4 ''dict key'' total) (\<lambda>padded.
     Inr (raw @ [0] @ replicate (padded - total) 0)))"

text \<open>A container: its type, the size of what follows the size field, the count, the items.\<close>

definition collection_bytes :: "u32 \<Rightarrow> string \<Rightarrow> u32 \<Rightarrow> bytes \<Rightarrow> xpc_error + bytes" where
  "collection_bytes type_tag kind count items =
     attempt (checked_collection_len kind (length (to_le32 count @ items))) (\<lambda>len.
     Inr (to_le32 type_tag @ to_le32 len @ to_le32 count @ items))"

abbreviation xpc_size :: "xpc_value + xpc_value list + (bytes \<times> xpc_value) list \<Rightarrow> nat" where
  "xpc_size \<equiv> case_sum size (case_sum (size_list size) (size_list (size_prod (\<lambda>_. 0) size)))"

function (sequential) xpc_encode_value :: "xpc_value \<Rightarrow> xpc_error + bytes"
and xpc_encode_items :: "xpc_value list \<Rightarrow> xpc_error + bytes"
and xpc_encode_entries :: "(bytes \<times> xpc_value) list \<Rightarrow> xpc_error + bytes" where
  "xpc_encode_value XNull = Inr (to_le32 TYPE_NULL)"
| "xpc_encode_value (XBool b) = Inr (to_le32 TYPE_BOOL @ [if b then 1 else 0, 0, 0, 0])"
| "xpc_encode_value (XInt64 n) = Inr (to_le32 TYPE_INT64 @ to_le64 n)"
| "xpc_encode_value (XUint64 n) = Inr (to_le32 TYPE_UINT64 @ to_le64 n)"
| "xpc_encode_value (XDouble n) = Inr (to_le32 TYPE_DOUBLE @ to_le64 n)"
| "xpc_encode_value (XDate n) = Inr (to_le32 TYPE_DATE @ to_le64 n)"
| "xpc_encode_value (XData d) = encode_data d"
| "xpc_encode_value (XString s) = encode_xstring s"
| "xpc_encode_value (XUuid u) = Inr (to_le32 TYPE_UUID @ u)"
| "xpc_encode_value (XArray arr) =
     attempt (checked_u32_len ''array count'' (length arr)) (\<lambda>count.
     attempt (xpc_encode_items arr) (\<lambda>items. collection_bytes TYPE_ARRAY ''array'' count items))"
| "xpc_encode_value (XDictionary entries) =
     attempt (checked_u32_len ''dict count'' (length entries)) (\<lambda>count.
     attempt (xpc_encode_entries entries) (\<lambda>items. collection_bytes TYPE_DICTIONARY ''dict'' count items))"
| "xpc_encode_value (XFileTransfer i d) =
     attempt (xpc_encode_value d) (\<lambda>b. Inr (to_le32 TYPE_FILE_TRANSFER @ to_le64 i @ b))"
| "xpc_encode_items [] = Inr []"
| "xpc_encode_items (v # vs) =
     attempt (xpc_encode_value v) (\<lambda>a. attempt (xpc_encode_items vs) (\<lambda>b. Inr (a @ b)))"
| "xpc_encode_entries [] = Inr []"
| "xpc_encode_entries ((k, v) # es) =
     attempt (encode_dict_key k) (\<lambda>a. attempt (xpc_encode_value v) (\<lambda>b.
     attempt (xpc_encode_entries es) (\<lambda>c. Inr (a @ b @ c))))"
  by pat_completeness auto
termination by (relation "measure xpc_size") auto

definition xpc_encode_message :: "xpc_message \<Rightarrow> xpc_error + bytes" where
  "xpc_encode_message msg =
     attempt (case body msg of
         None \<Rightarrow> Inr []
       | Some v \<Rightarrow> attempt (xpc_encode_value v) (\<lambda>b.
           Inr (to_le32 OBJECT_MAGIC @ to_le32 BODY_VERSION @ b))) (\<lambda>body_buf.
     attempt (checked_u64_len ''body'' (length body_buf)) (\<lambda>len.
     Inr (to_le32 WRAPPER_MAGIC @ to_le32 (flags msg) @ to_le64 len @ to_le64 (msg_id msg) @ body_buf)))"

section \<open>Decoding\<close>

text \<open>\<open>remaining() < n\<close> is checked before every read.\<close>

definition need :: "nat \<Rightarrow> string \<Rightarrow> bytes \<Rightarrow> xpc_error + (bytes \<times> bytes)" where
  "need n msg buf = (if length buf < n then Inl (Tls msg []) else Inr (take n buf, drop n buf))"

definition decode_dict_key :: "bytes \<Rightarrow> xpc_error + (bytes \<times> bytes)" where
  "decode_dict_key buf =
     (if 0 \<notin> set buf then Inl (Tls ''XPC: unterminated dictionary key'' [])
      else let raw = takeWhile (\<lambda>b. b \<noteq> 0) buf; rest = drop (length raw + 1) buf in
        attempt (checked_align4 ''dict key'' (length raw + 1)) (\<lambda>padded.
        attempt (need (padded - (length raw + 1)) ''XPC: dict key padding truncated'' rest) (\<lambda>(_, rest').
        if utf8_valid raw then Inr (raw, rest')
        else Inl (Tls ''XPC: invalid UTF-8 in dict key'' []))))"

text \<open>A length-prefixed, padded byte string: \<open>TYPE_DATA\<close> and \<open>TYPE_STRING\<close>.\<close>

definition decode_padded :: "string \<Rightarrow> bytes \<Rightarrow> xpc_error + (bytes \<times> bytes)" where
  "decode_padded kind buf =
     attempt (need 4 (''XPC: '' @ kind @ '' length truncated'') buf) (\<lambda>(b, buf).
     let len = unat (from_le32 b) in
     attempt (checked_align4 kind len) (\<lambda>padded.
     attempt (need padded (''XPC: '' @ kind @ '' truncated'') buf) (\<lambda>(d, buf).
     Inr (take len d, buf))))"

definition decode_xpc_scalar :: "u32 \<Rightarrow> bytes \<Rightarrow> xpc_error + (xpc_value \<times> bytes)" where
  "decode_xpc_scalar type_tag buf =
     (if type_tag = TYPE_NULL then Inr (XNull, buf)
      else if type_tag = TYPE_BOOL then
        attempt (need 4 ''XPC: bool truncated'' buf) (\<lambda>(b, r). Inr (XBool (hd b \<noteq> 0), r))
      else if type_tag = TYPE_INT64 then
        attempt (need 8 ''XPC: i64 truncated'' buf) (\<lambda>(b, r). Inr (XInt64 (from_le64 b), r))
      else if type_tag = TYPE_UINT64 then
        attempt (need 8 ''XPC: u64 truncated'' buf) (\<lambda>(b, r). Inr (XUint64 (from_le64 b), r))
      else if type_tag = TYPE_DOUBLE then
        attempt (need 8 ''XPC: f64 truncated'' buf) (\<lambda>(b, r). Inr (XDouble (from_le64 b), r))
      else if type_tag = TYPE_DATE then
        attempt (need 8 ''XPC: date truncated'' buf) (\<lambda>(b, r). Inr (XDate (from_le64 b), r))
      else if type_tag = TYPE_DATA then
        attempt (decode_padded ''data'' buf) (\<lambda>(d, r). Inr (XData d, r))
      else if type_tag = TYPE_STRING then
        attempt (decode_padded ''string'' buf) (\<lambda>(raw, r).
          let s = takeWhile (\<lambda>b. b \<noteq> 0) raw in
          if utf8_valid s then Inr (XString s, r) else Inl (Tls ''XPC: invalid UTF-8 in string'' []))
      else if type_tag = TYPE_UUID then
        attempt (need 16 ''XPC: uuid truncated'' buf) (\<lambda>(u, r). Inr (XUuid u, r))
      else Inl (Tls ''XPC: unknown type 0x{other:08X}'' [unat type_tag]))"

definition collection_header :: "string \<Rightarrow> bytes \<Rightarrow> xpc_error + (nat \<times> bytes)" where
  "collection_header kind buf =
     attempt (need 8 (''XPC: '' @ kind @ '' header truncated'') buf) (\<lambda>(h, r).
     let count = unat (from_le32 (drop 4 h)) in
     if count > MAX_XPC_COLLECTION_SIZE then Inl (Tls ''XPC collection too large: {count}'' [count])
     else Inr (count, r))"

function (sequential) decode_value_at_depth :: "bytes \<Rightarrow> nat \<Rightarrow> xpc_error + (xpc_value \<times> bytes)"
and xpc_decode_items :: "nat \<Rightarrow> bytes \<Rightarrow> nat \<Rightarrow> xpc_error + (xpc_value list \<times> bytes)"
and xpc_decode_entries :: "nat \<Rightarrow> bytes \<Rightarrow> nat \<Rightarrow> (bytes \<times> xpc_value) list \<Rightarrow>
      xpc_error + ((bytes \<times> xpc_value) list \<times> bytes)" where
  "decode_value_at_depth buf depth =
     (if depth > MAX_XPC_NESTING_DEPTH
      then Inl (Tls ''XPC: nesting exceeds {MAX_XPC_NESTING_DEPTH} levels'' [MAX_XPC_NESTING_DEPTH])
      else attempt (need 4 ''XPC: value too short'' buf) (\<lambda>(t, buf).
        let type_tag = from_le32 t in
        if type_tag = TYPE_ARRAY then
          attempt (collection_header ''array'' buf) (\<lambda>(count, buf).
          attempt (xpc_decode_items count buf (depth + 1)) (\<lambda>(vs, r). Inr (XArray vs, r)))
        else if type_tag = TYPE_DICTIONARY then
          attempt (collection_header ''dict'' buf) (\<lambda>(count, buf).
          attempt (xpc_decode_entries count buf (depth + 1) []) (\<lambda>(es, r). Inr (XDictionary es, r)))
        else if type_tag = TYPE_FILE_TRANSFER then
          attempt (need 8 ''XPC: file transfer truncated'' buf) (\<lambda>(i, buf).
          attempt (decode_value_at_depth buf (depth + 1)) (\<lambda>(d, r).
          Inr (XFileTransfer (from_le64 i) d, r)))
        else decode_xpc_scalar type_tag buf))"
| "xpc_decode_items 0 buf depth = Inr ([], buf)"
| "xpc_decode_items (Suc n) buf depth =
     attempt (decode_value_at_depth buf depth) (\<lambda>(v, r).
     attempt (xpc_decode_items n r depth) (\<lambda>(vs, r'). Inr (v # vs, r')))"
| "xpc_decode_entries 0 buf depth m = Inr (m, buf)"
| "xpc_decode_entries (Suc n) buf depth m =
     attempt (decode_dict_key buf) (\<lambda>(k, r).
     attempt (decode_value_at_depth r depth) (\<lambda>(v, r').
     xpc_decode_entries n r' depth (index_insert k v m)))"
  by pat_completeness auto
termination
  by (relation "measures
      [\<lambda>x. case x of Inl (buf, d) \<Rightarrow> 66 - d | Inr (Inl (n, buf, d)) \<Rightarrow> 66 - d
             | Inr (Inr (n, buf, d, m)) \<Rightarrow> 66 - d,
       \<lambda>x. case x of Inl (buf, d) \<Rightarrow> 0 | Inr (Inl (n, buf, d)) \<Rightarrow> Suc n
             | Inr (Inr (n, buf, d, m)) \<Rightarrow> Suc n]")
    (auto simp: MAX_XPC_NESTING_DEPTH_def)

declare decode_value_at_depth.simps [simp del]

definition xpc_decode_value :: "bytes \<Rightarrow> xpc_error + (xpc_value \<times> bytes)" where
  "xpc_decode_value buf = decode_value_at_depth buf 0"

definition decode_body :: "nat \<Rightarrow> bytes \<Rightarrow> xpc_error + xpc_value option" where
  "decode_body body_len body_buf =
     attempt (if length body_buf < 8
              then Inl (Tls ''XPC: body header truncated: {body_len} bytes, need at least 8'' [body_len])
              else Inr ()) (\<lambda>_.
     let obj_magic = from_le32 (take 4 body_buf); version = from_le32 (take 4 (drop 4 body_buf)) in
     if obj_magic \<noteq> OBJECT_MAGIC then Inl (Tls ''XPC: bad object magic 0x{obj_magic:08X}'' [unat obj_magic])
     else if version \<noteq> BODY_VERSION then Inl (Tls ''XPC: bad body version 0x{version:08X}'' [unat version])
     else attempt (xpc_decode_value (drop 8 body_buf)) (\<lambda>(v, _). Inr (Some v)))"

definition xpc_decode_message :: "bytes \<Rightarrow> xpc_error + xpc_message" where
  "xpc_decode_message buf =
     attempt (need 4 ''XPC: buffer too short for magic'' buf) (\<lambda>(m, buf).
     let magic = from_le32 m in
     if magic \<noteq> WRAPPER_MAGIC then Inl (Tls ''XPC: bad magic 0x{magic:08X}'' [unat magic])
     else attempt (need 20 ''XPC: buffer too short for header'' buf) (\<lambda>(h, buf).
       let fl = from_le32 (take 4 h); declared = from_le64 (take 8 (drop 4 h));
           mid = from_le64 (drop 12 h) in
       attempt (checked_xpc_body_len declared (xpc_body_limit_for_flags fl)) (\<lambda>body_len.
       attempt (if body_len > 0 then
                  if length buf < body_len
                  then Inl (Tls ''XPC: body truncated: header declares {} bytes, {} available''
                              [unat declared, length buf])
                  else decode_body body_len (take body_len buf)
                else Inr None) (\<lambda>b.
       Inr \<lparr>flags = fl, msg_id = mid, body = b\<rparr>))))"

section \<open>Reassembly\<close>

type_synonym xpc_message_buffer = bytes

definition xpc_push :: "bytes \<Rightarrow> xpc_message_buffer \<Rightarrow> xpc_error + xpc_message_buffer" where
  "xpc_push bs pending =
     attempt (ok_or (Tls ''XPC pending buffer length overflow: current {}, incoming {}''
         [length pending, length bs]) (usize_checked_add (length pending) (length bs))) (\<lambda>new_len.
     if new_len > XPC_PENDING_BUFFER_LIMIT
     then Inl (Tls ''XPC pending buffer length {new_len} exceeds limit {XPC_PENDING_BUFFER_LIMIT}''
                 [new_len, XPC_PENDING_BUFFER_LIMIT])
     else Inr (pending @ bs))"

text \<open>
  \<open>try_next\<close> returns the result and the buffer that is left: a complete message is taken
  out of it even when it does not decode.
\<close>

definition xpc_try_next :: "xpc_message_buffer \<Rightarrow> (xpc_error + xpc_message option) \<times> xpc_message_buffer" where
  "xpc_try_next pending =
     (if length pending < 24 then (Inr None, pending)
      else let declared = from_le64 (take 8 (drop 8 pending)); fl = from_le32 (take 4 (drop 4 pending)) in
        case checked_xpc_body_len declared (xpc_body_limit_for_flags fl) of
          Inl e \<Rightarrow> (Inl e, pending)
        | Inr body_len \<Rightarrow>
            (case usize_checked_add 24 body_len of
               None \<Rightarrow> (Inl (Tls ''XPC: message length overflow'' []), pending)
             | Some total_len \<Rightarrow>
                 if length pending < total_len then (Inr None, pending)
                 else (attempt (xpc_decode_message (take total_len pending)) (\<lambda>m. Inr (Some m)),
                       drop total_len pending)))"

section \<open>Round trip of values\<close>

text \<open>
  The values the format can carry: strings and keys are Rust strings without NUL (the decoder
  stops at the first one), keys of a dictionary are distinct, a UUID has 16 bytes, containers
  stay within the element limit.
\<close>

definition xpc_text :: "bytes \<Rightarrow> bool" where
  "xpc_text s \<longleftrightarrow> utf8_valid s \<and> 0 \<notin> set s"

function (sequential) xpc_wf :: "xpc_value \<Rightarrow> bool"
and items_wf :: "xpc_value list \<Rightarrow> bool"
and entries_wf :: "(bytes \<times> xpc_value) list \<Rightarrow> bool" where
  "xpc_wf (XString s) = xpc_text s"
| "xpc_wf (XUuid u) = (length u = 16)"
| "xpc_wf (XArray vs) = (length vs \<le> MAX_XPC_COLLECTION_SIZE \<and> items_wf vs)"
| "xpc_wf (XDictionary es) =
     (length es \<le> MAX_XPC_COLLECTION_SIZE \<and> distinct (map fst es) \<and> entries_wf es)"
| "xpc_wf (XFileTransfer i d) = xpc_wf d"
| "xpc_wf _ = True"
| "items_wf [] = True"
| "items_wf (v # vs) = (xpc_wf v \<and> items_wf vs)"
| "entries_wf [] = True"
| "entries_wf ((k, v) # es) = (xpc_text k \<and> xpc_wf v \<and> entries_wf es)"
  by pat_completeness auto
termination by (relation "measure xpc_size") auto

function (sequential) xpc_depth :: "xpc_value \<Rightarrow> nat"
and xpc_items_depth :: "xpc_value list \<Rightarrow> nat"
and entries_depth :: "(bytes \<times> xpc_value) list \<Rightarrow> nat" where
  "xpc_depth (XArray vs) = xpc_items_depth vs"
| "xpc_depth (XDictionary es) = entries_depth es"
| "xpc_depth (XFileTransfer i d) = Suc (xpc_depth d)"
| "xpc_depth _ = 0"
| "xpc_items_depth [] = 0"
| "xpc_items_depth (v # vs) = max (Suc (xpc_depth v)) (xpc_items_depth vs)"
| "entries_depth [] = 0"
| "entries_depth ((k, v) # es) = max (Suc (xpc_depth v)) (entries_depth es)"
  by pat_completeness auto
termination by (relation "measure xpc_size") auto

lemma need_append [simp]: "n = length xs \<Longrightarrow> need n msg (xs @ r) = Inr (xs, r)"
  by (simp add: need_def)

lemma checked_align4_Inr:
  "checked_align4 kind n = Inr p \<longleftrightarrow> p = (n + 3) div 4 * 4 \<and> n + 3 \<le> usize_MAX"
  by (auto simp: checked_align4_def split: option.splits)

lemma align4_ge: "(n :: nat) \<le> (n + 3) div 4 * 4"
  by linarith

lemma unat_u32_len: "checked_u32_len kind n = Inr w \<Longrightarrow> unat w = n \<and> n \<le> 0xFFFFFFFF"
  by (auto simp: checked_u32_len_def unat_of_nat split: if_splits)

lemma takeWhile_nonzero: "0 \<notin> set (s :: bytes) \<Longrightarrow> takeWhile (\<lambda>b. b \<noteq> 0) (s @ 0 # r) = s"
  by (subst takeWhile_append2) auto

lemma decode_padded_append:
  assumes "n \<le> 0xFFFFFFFF" and "length d = (n + 3) div 4 * 4"
  shows "decode_padded kind (to_le32 (of_nat n) @ d @ r) = Inr (take n d, r)"
proof -
  have "unat (of_nat n :: u32) = n" using assms(1) by (simp add: unat_of_nat)
  moreover have "checked_align4 kind n = Inr (length d)"
    using assms by (simp add: checked_align4_Inr)
  ultimately show ?thesis by (simp add: decode_padded_def)
qed

lemma decode_encode_data:
  assumes "encode_data d = Inr bs"
  shows "\<exists>r'. bs = to_le32 TYPE_DATA @ r' \<and> decode_xpc_scalar TYPE_DATA (r' @ r) = Inr (XData d, r)"
proof -
  let ?p = "(length d + 3) div 4 * 4"
  from assms have len: "length d \<le> 0xFFFFFFFF"
    and bs: "bs = to_le32 TYPE_DATA @ to_le32 (of_nat (length d)) @ d @ replicate (?p - length d) 0"
    by (auto simp: encode_data_def attempt_Inr_iff checked_align4_Inr checked_u32_len_def split: if_splits)
  have "length (d @ replicate (?p - length d) (0 :: byte)) = ?p" using align4_ge [of "length d"] by simp
  from decode_padded_append [OF len this, of "''data''" r] show ?thesis
    using bs by (simp add: decode_xpc_scalar_def type_defs)
qed

lemma decode_encode_xstring:
  assumes "encode_xstring s = Inr bs" and "xpc_text s"
  shows "\<exists>r'. bs = to_le32 TYPE_STRING @ r' \<and> decode_xpc_scalar TYPE_STRING (r' @ r) = Inr (XString s, r)"
proof -
  let ?n = "length s + 1"
  let ?p = "(?n + 3) div 4 * 4"
  let ?d = "s @ replicate (?p - length s) (0 :: byte)"
  from assms(1) have len: "?n \<le> 0xFFFFFFFF"
    and bs: "bs = to_le32 TYPE_STRING @ to_le32 (of_nat ?n) @ ?d"
    by (auto simp: encode_xstring_def attempt_Inr_iff checked_align4_Inr checked_u32_len_def ok_or_def
        split: if_splits option.splits)
  have p: "?n \<le> ?p" by (rule align4_ge)
  then have "length ?d = ?p" by simp
  from decode_padded_append [OF len this, of "''string''" r]
  have dec: "decode_padded ''string'' (to_le32 (of_nat ?n) @ ?d @ r) = Inr (take ?n ?d, r)" .
  have "take ?n ?d = s @ [0]"
    using p by (simp add: take_replicate min_def)
  then have "takeWhile (\<lambda>b. b \<noteq> 0) (take ?n ?d) = s"
    using assms(2) takeWhile_nonzero [of s "[]"] by (simp add: xpc_text_def)
  then show ?thesis
    using bs dec assms(2) by (simp add: decode_xpc_scalar_def type_defs xpc_text_def)
qed

lemma decode_encode_dict_key:
  assumes "encode_dict_key k = Inr bs" and "xpc_text k"
  shows "decode_dict_key (bs @ r) = Inr (k, r)"
proof -
  let ?p = "(length k + 1 + 3) div 4 * 4"
  from assms(1) have bs: "bs = k @ [0] @ replicate (?p - (length k + 1)) 0" and "length k + 1 + 3 \<le> usize_MAX"
    by (auto simp: encode_dict_key_def attempt_Inr_iff checked_align4_Inr ok_or_def split: option.splits)
  then have al: "checked_align4 ''dict key'' (length k + 1) = Inr ?p" by (simp add: checked_align4_Inr)
  have raw: "takeWhile (\<lambda>b. b \<noteq> 0) (bs @ r) = k"
    using bs assms(2) takeWhile_nonzero [of k] by (simp add: xpc_text_def)
  have "0 \<in> set (bs @ r)" "drop (length k + 1) (bs @ r) = replicate (?p - (length k + 1)) 0 @ r"
    using bs by simp_all
  then show ?thesis
    unfolding decode_dict_key_def raw Let_def
    using al assms(2) by (simp add: xpc_text_def)
qed

lemma decode_type:
  "depth \<le> MAX_XPC_NESTING_DEPTH \<Longrightarrow> t \<notin> {TYPE_ARRAY, TYPE_DICTIONARY, TYPE_FILE_TRANSFER} \<Longrightarrow>
     decode_value_at_depth (to_le32 t @ r) depth = decode_xpc_scalar t r"
  by (simp add: decode_value_at_depth.simps)

lemma collection_header_append:
  assumes "n \<le> MAX_XPC_COLLECTION_SIZE"
  shows "collection_header kind (to_le32 len @ to_le32 (of_nat n) @ r) = Inr (n, r)"
proof -
  have "unat (of_nat n :: u32) = n"
    using assms by (simp add: unat_of_nat MAX_XPC_COLLECTION_SIZE_def)
  then show ?thesis
    using assms need_append [of 8 "to_le32 len @ to_le32 (of_nat n)" _ r]
    by (simp add: collection_header_def)
qed

lemma decode_array:
  assumes "depth \<le> MAX_XPC_NESTING_DEPTH" and "n \<le> MAX_XPC_COLLECTION_SIZE"
  shows "decode_value_at_depth (to_le32 TYPE_ARRAY @ to_le32 len @ to_le32 (of_nat n) @ r) depth =
    attempt (xpc_decode_items n r (depth + 1)) (\<lambda>(vs, r). Inr (XArray vs, r))"
  using assms by (simp add: decode_value_at_depth.simps collection_header_append)

lemma decode_dict:
  assumes "depth \<le> MAX_XPC_NESTING_DEPTH" and "n \<le> MAX_XPC_COLLECTION_SIZE"
  shows "decode_value_at_depth (to_le32 TYPE_DICTIONARY @ to_le32 len @ to_le32 (of_nat n) @ r) depth =
    attempt (xpc_decode_entries n r (depth + 1) []) (\<lambda>(es, r). Inr (XDictionary es, r))"
  using assms by (simp add: decode_value_at_depth.simps collection_header_append type_defs)

lemma decode_file_transfer:
  assumes "depth \<le> MAX_XPC_NESTING_DEPTH"
  shows "decode_value_at_depth (to_le32 TYPE_FILE_TRANSFER @ to_le64 i @ r) depth =
    attempt (decode_value_at_depth r (depth + 1)) (\<lambda>(d, r). Inr (XFileTransfer i d, r))"
  using assms by (subst decode_value_at_depth.simps) (simp add: type_defs)

lemma collection_bytes_Inr:
  "collection_bytes t kind count items = Inr bs \<Longrightarrow>
   \<exists>len. bs = to_le32 t @ to_le32 len @ to_le32 count @ items"
  by (auto simp: collection_bytes_def attempt_Inr_iff)

lemma checked_u32_len_Inr: "checked_u32_len kind n = Inr w \<Longrightarrow> w = of_nat n"
  by (auto simp: checked_u32_len_def split: if_splits)

lemma decode_encode_xpc:
  "xpc_encode_value v = Inr bs \<Longrightarrow> xpc_wf v \<Longrightarrow> depth + xpc_depth v \<le> MAX_XPC_NESTING_DEPTH \<Longrightarrow>
     decode_value_at_depth (bs @ r) depth = Inr (v, r)"
  "xpc_encode_items vs = Inr bs \<Longrightarrow> items_wf vs \<Longrightarrow>
     depth + xpc_items_depth vs \<le> MAX_XPC_NESTING_DEPTH \<Longrightarrow>
     xpc_decode_items (length vs) (bs @ r) (depth + 1) = Inr (vs, r)"
  "xpc_encode_entries es = Inr bs \<Longrightarrow> entries_wf es \<Longrightarrow> distinct (map fst (m @ es)) \<Longrightarrow>
     depth + entries_depth es \<le> MAX_XPC_NESTING_DEPTH \<Longrightarrow>
     xpc_decode_entries (length es) (bs @ r) (depth + 1) m = Inr (m @ es, r)"
proof (induction v and vs and es arbitrary: bs depth r and bs depth r and bs depth r m
    rule: xpc_encode_value_xpc_encode_items_xpc_encode_entries.induct)
  case (2 b)
  then show ?case using need_append [of 4 "[if b then 1 else 0, 0, 0, 0]"]
    by (auto simp: decode_type decode_xpc_scalar_def type_defs)
next
  case (7 d)
  from decode_encode_data [of d bs r] 7 show ?case by (auto simp: decode_type type_defs)
next
  case (8 s)
  from decode_encode_xstring [of s bs r] 8 show ?case by (auto simp: decode_type type_defs)
next
  case (10 arr)
  from "10.prems" obtain items where items: "xpc_encode_items arr = Inr items"
    and "\<exists>len. bs = to_le32 TYPE_ARRAY @ to_le32 len @ to_le32 (of_nat (length arr)) @ items"
    by (auto simp: attempt_Inr_iff dest!: checked_u32_len_Inr collection_bytes_Inr)
  then show ?case
    using "10.IH" [OF _ items, of _ depth r] "10.prems"
    by (auto simp: decode_array attempt_Inr_iff)
next
  case (11 entries)
  from "11.prems" obtain items where items: "xpc_encode_entries entries = Inr items"
    and "\<exists>len. bs = to_le32 TYPE_DICTIONARY @ to_le32 len @ to_le32 (of_nat (length entries)) @ items"
    by (auto simp: attempt_Inr_iff dest!: checked_u32_len_Inr collection_bytes_Inr)
  then show ?case
    using "11.IH" [OF _ items, of _ "[]" depth r] "11.prems"
    by (auto simp: decode_dict attempt_Inr_iff)
next
  case (12 i d)
  from "12.prems" obtain b where "xpc_encode_value d = Inr b" "bs = to_le32 TYPE_FILE_TRANSFER @ to_le64 i @ b"
    by (auto simp: attempt_Inr_iff)
  then show ?case using "12.IH" [of b "depth + 1" r] "12.prems" by (simp add: decode_file_transfer)
next
  case (14 v vs)
  from "14.prems" obtain a b where ab: "xpc_encode_value v = Inr a" "xpc_encode_items vs = Inr b" "bs = a @ b"
    by (auto simp: attempt_Inr_iff)
  then show ?case
    using "14.IH"(1) [OF ab(1), of "depth + 1" "b @ r"] "14.IH"(2) [OF ab(1,2), of depth r] "14.prems"
    by simp
next
  case (16 k v es)
  from "16.prems" obtain a b c where abc: "encode_dict_key k = Inr a" "xpc_encode_value v = Inr b"
    "xpc_encode_entries es = Inr c" "bs = a @ b @ c"
    by (auto simp: attempt_Inr_iff)
  have "decode_dict_key (a @ b @ c @ r) = Inr (k, b @ c @ r)"
    using decode_encode_dict_key [OF abc(1)] "16.prems"(2) by simp
  moreover have "k \<notin> fst ` set m" using "16.prems"(3) by auto
  ultimately show ?case
    using abc "16.IH"(1) [OF abc(1,2), of "depth + 1" "c @ r"]
      "16.IH"(2) [OF abc(1-3), of "m @ [(k, v)]" depth r] "16.prems"
    by (simp add: index_insert_new)
qed (auto simp: decode_type decode_xpc_scalar_def type_defs)

section \<open>Messages\<close>

text \<open>The wrapper's length field, and the messages a receiver accepts.\<close>

definition message_wf :: "xpc_message \<Rightarrow> bool" where
  "message_wf m \<longleftrightarrow> (case body m of None \<Rightarrow> True
     | Some v \<Rightarrow> xpc_wf v \<and> xpc_depth v \<le> MAX_XPC_NESTING_DEPTH)"

definition message_bytes :: "xpc_message \<Rightarrow> bytes" where
  "message_bytes m = (case xpc_encode_message m of Inl _ \<Rightarrow> [] | Inr bs \<Rightarrow> bs)"

definition message_fits :: "xpc_message \<Rightarrow> bool" where
  "message_fits m \<longleftrightarrow> message_wf m \<and> (case xpc_encode_message m of Inl _ \<Rightarrow> False
     | Inr bs \<Rightarrow> length bs \<le> 24 + xpc_body_limit_for_flags (flags m))"

lemma xpc_body_limit_le: "xpc_body_limit_for_flags fl \<le> 64 * 1024 * 1024"
  by (simp add: xpc_body_limit_for_flags_def XPC_DATA_STREAM_BODY_LIMIT_def XPC_CONTROL_BODY_LIMIT_def)

lemma encode_message_shape:
  assumes "xpc_encode_message m = Inr bs"
  shows "\<exists>b. bs = to_le32 WRAPPER_MAGIC @ to_le32 (flags m) @ to_le64 (of_nat (length b)) @
           to_le64 (msg_id m) @ b \<and> length b \<le> 0xFFFFFFFFFFFFFFFF \<and>
         (case body m of None \<Rightarrow> b = []
          | Some v \<Rightarrow> \<exists>e. xpc_encode_value v = Inr e \<and> b = to_le32 OBJECT_MAGIC @ to_le32 BODY_VERSION @ e)"
  using assms
  by (auto simp: xpc_encode_message_def attempt_Inr_iff checked_u64_len_def split: option.splits if_splits)

lemma decode_body_append:
  assumes "xpc_encode_value v = Inr e" and "xpc_wf v" and "xpc_depth v \<le> MAX_XPC_NESTING_DEPTH"
  shows "decode_body n (to_le32 OBJECT_MAGIC @ to_le32 BODY_VERSION @ e) = Inr (Some v)"
  using assms decode_encode_xpc(1) [of v e 0 "[]"]
  by (simp add: decode_body_def xpc_decode_value_def)

lemma message_fits_bytes:
  assumes "message_fits m"
  shows "\<exists>b. message_bytes m = to_le32 WRAPPER_MAGIC @ to_le32 (flags m) @ to_le64 (of_nat (length b)) @
           to_le64 (msg_id m) @ b \<and> length b \<le> xpc_body_limit_for_flags (flags m) \<and>
           (if b = [] then body m = None else decode_body (length b) b = Inr (body m))"
proof -
  from assms obtain bs where bs: "xpc_encode_message m = Inr bs" "message_wf m"
    "length bs \<le> 24 + xpc_body_limit_for_flags (flags m)" "message_bytes m = bs"
    by (auto simp: message_fits_def message_bytes_def split: sum.splits)
  from encode_message_shape [OF bs(1)] obtain b where b:
    "bs = to_le32 WRAPPER_MAGIC @ to_le32 (flags m) @ to_le64 (of_nat (length b)) @ to_le64 (msg_id m) @ b"
    "case body m of None \<Rightarrow> b = []
     | Some v \<Rightarrow> \<exists>e. xpc_encode_value v = Inr e \<and> b = to_le32 OBJECT_MAGIC @ to_le32 BODY_VERSION @ e"
    by blast
  have "if b = [] then body m = None else decode_body (length b) b = Inr (body m)"
  proof (cases "body m")
    case None
    then show ?thesis using b(2) by simp
  next
    case (Some v)
    then obtain e where e: "xpc_encode_value v = Inr e"
      and be: "b = to_le32 OBJECT_MAGIC @ to_le32 BODY_VERSION @ e" using b(2) by auto
    have "b \<noteq> []" using be by simp
    moreover have "decode_body (length b) b = Inr (Some v)"
      using decode_body_append [OF e, of "length b"] bs(2) Some be by (simp add: message_wf_def)
    ultimately show ?thesis using Some by simp
  qed
  then show ?thesis using b bs by (intro exI [of _ b]) simp
qed

lemma checked_body_len_ok:
  "n \<le> xpc_body_limit_for_flags fl \<Longrightarrow>
   checked_xpc_body_len (of_nat n) (xpc_body_limit_for_flags fl) = Inr n"
  using xpc_body_limit_le [of fl] by (simp add: checked_xpc_body_len_def unat_of_nat Let_def)

lemma decode_message_bytes:
  assumes "message_fits m"
  shows "xpc_decode_message (message_bytes m @ r) = Inr m"
proof -
  from message_fits_bytes [OF assms] obtain b where b:
    "message_bytes m = to_le32 WRAPPER_MAGIC @ to_le32 (flags m) @ to_le64 (of_nat (length b)) @ to_le64 (msg_id m) @ b"
    "length b \<le> xpc_body_limit_for_flags (flags m)"
    "if b = [] then body m = None else decode_body (length b) b = Inr (body m)" by blast
  let ?h = "to_le32 (flags m) @ to_le64 (of_nat (length b)) @ to_le64 (msg_id m)"
  have need20: "need 20 msg (?h @ b @ r) = Inr (?h, b @ r)" for msg
    using need_append [of 20 ?h msg "b @ r"] by simp
  show ?thesis
    using b checked_body_len_ok [OF b(2)] need20
    by (cases "b = []") (simp_all add: xpc_decode_message_def)
qed

section \<open>The reassembler's contract\<close>

lemma try_next_full:
  assumes "message_fits m"
  shows "xpc_try_next (message_bytes m @ r) = (Inr (Some m), r)"
proof -
  from message_fits_bytes [OF assms] obtain b where b:
    "message_bytes m = to_le32 WRAPPER_MAGIC @ to_le32 (flags m) @ to_le64 (of_nat (length b)) @ to_le64 (msg_id m) @ b"
    "length b \<le> xpc_body_limit_for_flags (flags m)" by blast
  have "length b \<le> 64 * 1024 * 1024" using b(2) xpc_body_limit_le [of "flags m"] by linarith
  then show ?thesis
    using b checked_body_len_ok [OF b(2)] decode_message_bytes [OF assms, of "[]"]
    by (simp add: xpc_try_next_def Let_def usize_checked_add_def)
qed

lemma try_next_part:
  assumes "message_fits m" and "message_bytes m = p @ q" and "q \<noteq> []"
  shows "xpc_try_next p = (Inr None, p)"
proof (cases "length p < 24")
  case True
  then show ?thesis by (simp add: xpc_try_next_def)
next
  case False
  from message_fits_bytes [OF assms(1)] obtain b where b:
    "message_bytes m = (to_le32 WRAPPER_MAGIC @ to_le32 (flags m) @ to_le64 (of_nat (length b)) @ to_le64 (msg_id m)) @ b"
    "length b \<le> xpc_body_limit_for_flags (flags m)" by auto
  let ?h = "to_le32 WRAPPER_MAGIC @ to_le32 (flags m) @ to_le64 (of_nat (length b)) @ to_le64 (msg_id m)"
  from append_eq_extends [of p q ?h b] assms(2) b(1) False obtain p' where p': "p = ?h @ p'" "b = p' @ q" by auto
  have "length b \<le> 64 * 1024 * 1024" using b(2) xpc_body_limit_le [of "flags m"] by linarith
  moreover have "length p < 24 + length b" using p' assms(3) by (cases q) auto
  ultimately show ?thesis
    using p' checked_body_len_ok [OF b(2)]
    by (simp add: xpc_try_next_def Let_def usize_checked_add_def)
qed

interpretation xpc_buffer: reassembler message_bytes xpc_push xpc_try_next message_fits XPC_PENDING_BUFFER_LIMIT
proof
  show "message_bytes m \<noteq> []" if "message_fits m" for m
    using message_fits_bytes [OF that] by auto
  show "xpc_push c b = Inr (b @ c)" if "length b + length c \<le> XPC_PENDING_BUFFER_LIMIT" for b c
    using that by (simp add: xpc_push_def XPC_PENDING_BUFFER_LIMIT_def XPC_DATA_STREAM_BODY_LIMIT_def
        usize_checked_add_def)
qed (use try_next_full try_next_part in \<open>auto simp: xpc_try_next_def\<close>)

section \<open>What a decoder can return\<close>

lemma index_insert_wf:
  "entries_wf m \<Longrightarrow> xpc_text k \<Longrightarrow> xpc_wf v \<Longrightarrow> entries_wf (index_insert k v m)"
  by (induction m) auto

lemma index_insert_depth: "entries_depth (index_insert k v m) \<le> max (Suc (xpc_depth v)) (entries_depth m)"
  by (induction m) auto

lemma decode_dict_key_text: "decode_dict_key buf = Inr (k, r) \<Longrightarrow> xpc_text k"
  by (auto simp: decode_dict_key_def attempt_Inr_iff xpc_text_def Let_def split: if_splits
      dest: set_takeWhileD)

lemma decode_scalar_wf:
  assumes "decode_xpc_scalar t buf = Inr (v, r)"
  shows "xpc_wf v \<and> xpc_depth v = 0"
  using assms
  by (auto simp: decode_xpc_scalar_def attempt_Inr_iff need_def xpc_text_def Let_def
      split: if_splits dest: set_takeWhileD)

lemma collection_header_limit:
  "collection_header kind buf = Inr (n, r) \<Longrightarrow> n \<le> MAX_XPC_COLLECTION_SIZE"
  by (auto simp: collection_header_def attempt_Inr_iff Let_def split: if_splits)

lemma decode_xpc_limits:
  "decode_value_at_depth buf depth = Inr (v, r) \<Longrightarrow> xpc_wf v \<and> depth + xpc_depth v \<le> 64"
  "xpc_decode_items n buf d = Inr (vs, r) \<Longrightarrow> d \<le> 65 \<Longrightarrow>
     length vs = n \<and> items_wf vs \<and> d + xpc_items_depth vs \<le> 65"
  "xpc_decode_entries n buf d m = Inr (es, r) \<Longrightarrow> entries_wf m \<Longrightarrow> distinct (map fst m) \<Longrightarrow>
     d + entries_depth m \<le> 65 \<Longrightarrow>
     length es \<le> length m + n \<and> entries_wf es \<and> distinct (map fst es) \<and> d + entries_depth es \<le> 65"
proof (induction buf depth and n buf d and n buf d m arbitrary: v r and vs r and es r
    rule: decode_value_at_depth_xpc_decode_items_xpc_decode_entries.induct)
  case (1 buf depth)
  from "1.prems" have depth: "depth \<le> 64"
    by (auto simp: decode_value_at_depth.simps MAX_XPC_NESTING_DEPTH_def split: if_splits)
  from "1.prems" obtain t rest where t: "need 4 ''XPC: value too short'' buf = Inr (t, rest)"
    by (auto simp: decode_value_at_depth.simps attempt_Inr_iff split: if_splits)
  have nd: "\<not> depth > MAX_XPC_NESTING_DEPTH" using depth by (simp add: MAX_XPC_NESTING_DEPTH_def)
  note IH = "1.IH" [OF nd t refl refl]
  consider (arr) "from_le32 t = TYPE_ARRAY" | (dict) "from_le32 t = TYPE_DICTIONARY"
    | (ft) "from_le32 t = TYPE_FILE_TRANSFER"
    | (scalar) "from_le32 t \<notin> {TYPE_ARRAY, TYPE_DICTIONARY, TYPE_FILE_TRANSFER}" by blast
  then show ?case
  proof cases
    case arr
    then obtain count b vs where h: "collection_header ''array'' rest = Inr (count, b)"
      "xpc_decode_items count b (depth + 1) = Inr (vs, r)" "v = XArray vs"
      using "1.prems" t nd by (auto simp: decode_value_at_depth.simps attempt_Inr_iff)
    then show ?thesis
      using IH(1) [OF arr h(1) refl h(2)] depth collection_header_limit [OF h(1)] by simp
  next
    case dict
    then have na: "from_le32 t \<noteq> TYPE_ARRAY" by (simp add: type_defs)
    from dict na obtain count b es where h: "collection_header ''dict'' rest = Inr (count, b)"
      "xpc_decode_entries count b (depth + 1) [] = Inr (es, r)" "v = XDictionary es"
      using "1.prems" t nd by (auto simp: decode_value_at_depth.simps attempt_Inr_iff)
    then show ?thesis
      using IH(2) [OF na dict h(1) refl h(2)] depth collection_header_limit [OF h(1)] by simp
  next
    case ft
    then have na: "from_le32 t \<noteq> TYPE_ARRAY" "from_le32 t \<noteq> TYPE_DICTIONARY" by (simp_all add: type_defs)
    with ft obtain i b d where h: "need 8 ''XPC: file transfer truncated'' rest = Inr (i, b)"
      "decode_value_at_depth b (depth + 1) = Inr (d, r)" "v = XFileTransfer (from_le64 i) d"
      using "1.prems" t nd
      by (subst (asm) decode_value_at_depth.simps) (auto simp: attempt_Inr_iff)
    then show ?thesis using IH(3) [OF na ft h(1) refl h(2)] by simp
  next
    case scalar
    then have "decode_xpc_scalar (from_le32 t) rest = Inr (v, r)"
      using "1.prems" t nd by (simp add: decode_value_at_depth.simps)
    then show ?thesis using decode_scalar_wf depth by simp
  qed
next
  case (3 n buf d)
  from "3.prems" obtain v r1 vs' where h: "decode_value_at_depth buf d = Inr (v, r1)"
    "xpc_decode_items n r1 d = Inr (vs', r)" "vs = v # vs'"
    by (auto simp: attempt_Inr_iff)
  then show ?case using "3.IH"(1) [OF h(1)] "3.IH"(2) [OF h(1) refl h(2)] "3.prems" by (simp add: max_def)
next
  case (5 n buf d m)
  from "5.prems" obtain k r1 v r2 where h: "decode_dict_key buf = Inr (k, r1)"
    "decode_value_at_depth r1 d = Inr (v, r2)" "xpc_decode_entries n r2 d (index_insert k v m) = Inr (es, r)"
    by (auto simp: attempt_Inr_iff)
  have v: "xpc_wf v" "d + xpc_depth v \<le> 64" using "5.IH"(1) [OF h(1) refl h(2)] by simp_all
  have "d + entries_depth (index_insert k v m) \<le> 65"
    using index_insert_depth [of k v m] v(2) "5.prems"(4) by linarith
  then show ?case
    using "5.IH"(2) [OF h(1) refl h(2) refl h(3)] index_insert_wf [OF _ decode_dict_key_text [OF h(1)] v(1), of m]
      index_insert_distinct [of m k v] index_insert_length [of k v m] "5.prems" by simp
qed auto

text \<open>The same for a whole message: its header and its body.\<close>

lemma need_Inr: "need n msg buf = Inr (a, b) \<Longrightarrow> buf = a @ b \<and> length a = n"
  by (auto simp: need_def split: if_splits)

lemma decode_body_limits:
  assumes "decode_body n b = Inr r"
  shows "\<exists>v e. r = Some v \<and> b = to_le32 OBJECT_MAGIC @ to_le32 BODY_VERSION @ e \<and> xpc_wf v \<and> xpc_depth v \<le> 64"
proof -
  from assms obtain v t where b: "8 \<le> length b" "from_le32 (take 4 b) = OBJECT_MAGIC" "from_le32 (take 4 (drop 4 b)) = BODY_VERSION"
    and v: "decode_value_at_depth (drop 8 b) 0 = Inr (v, t)" "r = Some v"
    by (auto simp: decode_body_def attempt_Inr_iff xpc_decode_value_def Let_def split: if_splits)
  have "b = take 4 b @ take 4 (drop 4 b) @ drop 8 b"
    using append_take_drop_id [of 4 b] append_take_drop_id [of 4 "drop 4 b"] by simp
  moreover have "take 4 b = to_le32 OBJECT_MAGIC" "take 4 (drop 4 b) = to_le32 BODY_VERSION"
    unfolding b(2,3) [symmetric] using b(1) by (simp_all add: to_from_le)
  ultimately show ?thesis using decode_xpc_limits(1) [OF v(1)] v(2) by auto
qed

section \<open>Properties\<close>

text \<open>
  C20. XPC round trip. A message that the encoder accepts, whose strings and keys are NUL-free
  Rust strings with distinct keys, which nests at most 64 levels and stays within the element
  and body limits, decodes back to itself, whatever bytes follow it.
\<close>

theorem xpc_message_roundtrip:
  assumes "xpc_encode_message m = Inr bs" and "message_wf m"
    and "length bs \<le> 24 + xpc_body_limit_for_flags (flags m)"
  shows "xpc_decode_message (bs @ rest) = Inr m"
proof -
  have "message_fits m" "message_bytes m = bs"
    using assms by (simp_all add: message_fits_def message_bytes_def)
  with decode_message_bytes [of m rest] show ?thesis by simp
qed

text \<open>
  C26. XPC reassembly. Feeding the bytes of any sequence of such messages to the message buffer in
  pieces of any size up to \<open>k\<close> (with room for a message and a piece in the buffer) and taking
  the complete messages after each piece yields exactly the messages, in order, and leaves the
  buffer empty.
\<close>

theorem xpc_reassembly:
  assumes "\<forall>m \<in> set ms. message_fits m" and "concat pieces = concat (map message_bytes ms)"
    and "\<forall>p \<in> set pieces. length p \<le> k"
    and "\<forall>m \<in> set ms. length (message_bytes m) + k \<le> XPC_PENDING_BUFFER_LIMIT"
    and "k \<le> XPC_PENDING_BUFFER_LIMIT"
  shows "feed xpc_push xpc_try_next pieces [] = Inr (ms, [])"
proof (rule xpc_buffer.feed_stream)
  show "case ms of [] \<Rightarrow> [] = [] | m # _ \<Rightarrow> length [] < length (message_bytes m)"
    using assms(1) xpc_buffer.enc_nonempty by (auto split: list.splits)
qed (use assms in auto)

text \<open>
  C37. What an untrusted peer can make the decoder accept. Whatever bytes arrive, a decoded message
  is a wrapper header with the message's own flags and id that announces \<open>n\<close> body bytes, all of
  which are there; \<open>n\<close> is at most 8 MiB, or 64 MiB for a file-transfer message. Without a body \<open>n\<close> is 0;
  a body starts with the object magic and the version, and its value nests at most 64 levels, no array or
  dictionary in it has more than 65536 elements, keys are distinct, and every string and key is
  valid UTF-8 without NUL.
\<close>

theorem xpc_decode_limits:
  assumes "xpc_decode_message buf = Inr m"
  shows "\<exists>n b rest.
    buf = to_le32 WRAPPER_MAGIC @ to_le32 (flags m) @ to_le64 (of_nat n) @ to_le64 (msg_id m) @ b @ rest \<and> length b = n \<and>
    n \<le> (if flags m AND (FILE_TX_STREAM_REQUEST OR FILE_TX_STREAM_RESPONSE) = 0 then 8 * 1024 * 1024 else 64 * 1024 * 1024) \<and>
    (case body m of
       None \<Rightarrow> n = 0
     | Some v \<Rightarrow> xpc_wf v \<and> xpc_depth v \<le> 64 \<and> (\<exists>e. b = to_le32 OBJECT_MAGIC @ to_le32 BODY_VERSION @ e))"
proof -
  from assms obtain g h body_len buf1 buf2 where g: "need 4 ''XPC: buffer too short for magic'' buf = Inr (g, buf1)" "from_le32 g = WRAPPER_MAGIC"
    and h: "need 20 ''XPC: buffer too short for header'' buf1 = Inr (h, buf2)"
    and f: "flags m = from_le32 (take 4 h)" "msg_id m = from_le64 (drop 12 h)"
    and len: "checked_xpc_body_len (from_le64 (take 8 (drop 4 h))) (xpc_body_limit_for_flags (flags m)) = Inr body_len"
    and b: "if body_len > 0 then body_len \<le> length buf2 \<and> decode_body body_len (take body_len buf2) = Inr (body m) else body m = None"
    by (auto simp: xpc_decode_message_def attempt_Inr_iff Let_def split: if_splits)
  have n: "from_le64 (take 8 (drop 4 h)) = of_nat body_len" "body_len \<le> xpc_body_limit_for_flags (flags m)"
    using len by (auto simp: checked_xpc_body_len_def Let_def split: if_splits)
  have "length h = 20" using need_Inr [OF h] by simp
  then have "take 4 h = to_le32 (flags m)" "take 8 (drop 4 h) = to_le64 (of_nat body_len)" "drop 12 h = to_le64 (msg_id m)"
    unfolding f n(1) [symmetric] by (simp_all add: to_from_le)
  moreover have "h = take 4 h @ take 8 (drop 4 h) @ drop 12 h"
    using append_take_drop_id [of 4 h] append_take_drop_id [of 8 "drop 4 h"] by simp
  ultimately have "h = to_le32 (flags m) @ to_le64 (of_nat body_len) @ to_le64 (msg_id m)" by simp
  moreover have "g = to_le32 WRAPPER_MAGIC" unfolding g(2) [symmetric] using need_Inr [OF g(1)] by (simp add: to_from_le)
  ultimately have "buf = to_le32 WRAPPER_MAGIC @ to_le32 (flags m) @ to_le64 (of_nat body_len) @ to_le64 (msg_id m) @
      take body_len buf2 @ drop body_len buf2"
    using need_Inr [OF g(1)] need_Inr [OF h] by simp
  moreover have "length (take body_len buf2) = body_len" using b by (auto split: if_splits)
  moreover have "case body m of None \<Rightarrow> body_len = 0
     | Some v \<Rightarrow> xpc_wf v \<and> xpc_depth v \<le> 64 \<and> (\<exists>e. take body_len buf2 = to_le32 OBJECT_MAGIC @ to_le32 BODY_VERSION @ e)"
    using b decode_body_limits [of body_len "take body_len buf2" "body m"] by (auto split: if_splits)
  ultimately show ?thesis
    using n(2) by (intro exI [of _ body_len] exI [of _ "take body_len buf2"] exI [of _ "drop body_len buf2"])
      (simp add: xpc_body_limit_for_flags_def XPC_CONTROL_BODY_LIMIT_def XPC_DATA_STREAM_BODY_LIMIT_def split: if_splits)
qed

text \<open>
  A string with an embedded NUL does not survive: the encoder writes all of it and the
  decoder keeps only the part before the NUL.
\<close>

theorem xpc_string_stops_at_nul:
  assumes "xpc_text a" and "encode_xstring (a @ 0 # b) = Inr bs"
  shows "xpc_decode_value (bs @ rest) = Inr (XString a, rest)"
proof -
  let ?s = "a @ 0 # b"
  let ?n = "length ?s + 1"
  let ?p = "(?n + 3) div 4 * 4"
  let ?d = "?s @ replicate (?p - length ?s) (0 :: byte)"
  from assms(2) have len: "?n \<le> 0xFFFFFFFF" and bs: "bs = to_le32 TYPE_STRING @ to_le32 (of_nat ?n) @ ?d"
    by (auto simp: encode_xstring_def attempt_Inr_iff checked_align4_Inr checked_u32_len_def ok_or_def
        split: if_splits option.splits)
  have p: "?n \<le> ?p" by (rule align4_ge)
  then have "length ?d = ?p" by simp
  from decode_padded_append [OF len this, of "''string''" rest]
  have dec: "decode_padded ''string'' (to_le32 (of_nat ?n) @ ?d @ rest) = Inr (take ?n ?d, rest)" .
  obtain r where "take ?n ?d = a @ 0 # r" by simp
  then have "takeWhile (\<lambda>b. b \<noteq> 0) (take ?n ?d) = a"
    using assms(1) takeWhile_nonzero [of a r] by (simp add: xpc_text_def)
  then have "decode_xpc_scalar TYPE_STRING (to_le32 (of_nat ?n) @ ?d @ rest) = Inr (XString a, rest)"
    using dec assms(1) by (simp add: decode_xpc_scalar_def type_defs xpc_text_def)
  then show ?thesis
    using bs by (simp add: xpc_decode_value_def decode_type type_defs)
qed

definition xpc_sample :: xpc_message where
  "xpc_sample = \<lparr>flags = 0x101, msg_id = 7, body = Some (XDictionary
     [([107], XArray [XUint64 5, XBool True, XNull]), ([108], XString [104, 105]), ([109], XData [1, 2, 3])])\<rparr>"

lemma xpc_sample_encodes: "\<exists>bs. xpc_encode_message xpc_sample = Inr bs \<and> length bs < 200"
  by (simp add: xpc_sample_def xpc_encode_message_def encode_dict_key_def encode_xstring_def encode_data_def
      collection_bytes_def checked_u32_len_def checked_collection_len_def checked_u64_len_def
      checked_align4_def usize_checked_add_def)

lemma xpc_sample_wf: "message_wf xpc_sample"
  by (simp add: message_wf_def xpc_sample_def xpc_text_def utf8_step_def MAX_XPC_COLLECTION_SIZE_def
      MAX_XPC_NESTING_DEPTH_def)

lemma xpc_sample_limit: "xpc_body_limit_for_flags (flags xpc_sample) = 8 * 1024 * 1024"
  by (simp add: xpc_sample_def xpc_body_limit_for_flags_def XPC_CONTROL_BODY_LIMIT_def
      FILE_TX_STREAM_REQUEST_def FILE_TX_STREAM_RESPONSE_def)

lemma xpc_sample_fits: "message_fits xpc_sample \<and> length (message_bytes xpc_sample) < 200"
  using xpc_sample_encodes xpc_sample_wf
  by (auto simp: message_fits_def message_bytes_def xpc_sample_limit)

theorem xpc_message_roundtrip_witness:
  "\<exists>bs. xpc_encode_message xpc_sample = Inr bs \<and> xpc_decode_message (bs @ [1]) = Inr xpc_sample"
  using xpc_sample_encodes xpc_message_roundtrip [of xpc_sample _ "[1]"] xpc_sample_wf
  by (auto simp: xpc_sample_limit)

theorem xpc_reassembly_witness:
  "feed xpc_push xpc_try_next (map (\<lambda>b. [b]) (message_bytes xpc_sample @ message_bytes xpc_sample)) [] =
     Inr ([xpc_sample, xpc_sample], [])"
proof -
  have "concat (map (\<lambda>b. [b]) xs) = xs" for xs :: bytes by (induction xs) auto
  then show ?thesis
    using xpc_sample_fits
    by (intro xpc_reassembly [where k = 1])
      (auto simp: XPC_PENDING_BUFFER_LIMIT_def XPC_DATA_STREAM_BODY_LIMIT_def)
qed

theorem xpc_decode_limits_witness:
  "xpc_decode_message (message_bytes xpc_sample @ [1]) = Inr xpc_sample \<and>
   (\<exists>n b rest v. message_bytes xpc_sample @ [1] =
        to_le32 WRAPPER_MAGIC @ to_le32 0x101 @ to_le64 (of_nat n) @ to_le64 7 @ b @ rest \<and> length b = n \<and>
      n \<le> 8 * 1024 * 1024 \<and> body xpc_sample = Some v \<and> xpc_wf v \<and> xpc_depth v \<le> 64)"
proof -
  have dec: "xpc_decode_message (message_bytes xpc_sample @ [1]) = Inr xpc_sample"
    using decode_message_bytes [of xpc_sample "[1]"] xpc_sample_fits by blast
  have f: "flags xpc_sample = 0x101" "msg_id xpc_sample = 7" "\<exists>v. body xpc_sample = Some v"
    "flags xpc_sample AND (FILE_TX_STREAM_REQUEST OR FILE_TX_STREAM_RESPONSE) = 0"
    by (simp_all add: xpc_sample_def FILE_TX_STREAM_REQUEST_def FILE_TX_STREAM_RESPONSE_def)
  from xpc_decode_limits [OF dec] dec f show ?thesis by (auto simp: f(1,2))
qed

theorem xpc_string_stops_at_nul_witness:
  "\<exists>bs. encode_xstring [97, 0, 98] = Inr bs \<and> xpc_decode_value (bs @ []) = Inr (XString [97], [])"
proof -
  have "\<exists>bs. encode_xstring ([97] @ 0 # [98]) = Inr bs"
    by (simp add: encode_xstring_def checked_u32_len_def checked_align4_def usize_checked_add_def)
  moreover have "xpc_text [97]" by (simp add: xpc_text_def utf8_step_def)
  ultimately show ?thesis using xpc_string_stops_at_nul [of "[97]" "[98]" _ "[]"] by auto
qed

end
