(* ===== verification/H2_State.thy ===== *)
theory H2_State
  imports Async_Stream Xpc_Message
begin

text \<open>
  The state of the HTTP/2 framer under XPC (\<open>xpc/h2_raw.rs\<close>): constants, frames, the
  \<open>H2Framer\<close> record with the source's fields, the checks every operation starts with, and the
  resumable frame reader and writer. A \<open>HashSet<u32>\<close> is a set and a \<open>HashMap<u32, V>\<close> a
  map; both are finite because there are finitely many stream ids. A partially read header or
  payload is the bytes read so far (the source keeps an array and a fill count). Windows are
  \<open>int\<close> with the \<open>i64\<close> overflow test written out.
\<close>

unbundle bit_operations_syntax

section \<open>Constants\<close>

abbreviation (input) STREAM_INIT :: u32 where "STREAM_INIT \<equiv> 0"
abbreviation (input) STREAM_CLIENT_SERVER :: u32 where "STREAM_CLIENT_SERVER \<equiv> 1"
abbreviation (input) STREAM_SERVER_CLIENT :: u32 where "STREAM_SERVER_CLIENT \<equiv> 3"

abbreviation (input) FRAME_DATA :: byte where "FRAME_DATA \<equiv> 0x00"
abbreviation (input) FRAME_HEADERS :: byte where "FRAME_HEADERS \<equiv> 0x01"
abbreviation (input) FRAME_RST_STREAM :: byte where "FRAME_RST_STREAM \<equiv> 0x03"
abbreviation (input) FRAME_SETTINGS :: byte where "FRAME_SETTINGS \<equiv> 0x04"
abbreviation (input) FRAME_GOAWAY :: byte where "FRAME_GOAWAY \<equiv> 0x07"
abbreviation (input) FRAME_WINDOW_UPDATE :: byte where "FRAME_WINDOW_UPDATE \<equiv> 0x08"

abbreviation (input) FLAG_END_STREAM :: byte where "FLAG_END_STREAM \<equiv> 0x01"
abbreviation (input) FLAG_END_HEADERS :: byte where "FLAG_END_HEADERS \<equiv> 0x04"
abbreviation (input) FLAG_SETTINGS_ACK :: byte where "FLAG_SETTINGS_ACK \<equiv> 0x01"

abbreviation (input) SETTINGS_MAX_CONCURRENT_STREAMS :: u16 where "SETTINGS_MAX_CONCURRENT_STREAMS \<equiv> 3"
abbreviation (input) SETTINGS_INITIAL_WINDOW_SIZE :: u16 where "SETTINGS_INITIAL_WINDOW_SIZE \<equiv> 4"
abbreviation (input) SETTINGS_MAX_FRAME_SIZE :: u16 where "SETTINGS_MAX_FRAME_SIZE \<equiv> 5"

definition INITIAL_WINDOW_SIZE :: nat where "INITIAL_WINDOW_SIZE = 16 * 1024 * 1024"
definition DEFAULT_PEER_WINDOW_SIZE :: int where "DEFAULT_PEER_WINDOW_SIZE = 65535"
definition MAX_FLOW_CONTROL_WINDOW :: int where "MAX_FLOW_CONTROL_WINDOW = 0x7FFFFFFF"
definition MAX_NEGOTIATED_FRAME_SIZE :: nat where "MAX_NEGOTIATED_FRAME_SIZE = 0x00FFFFFF"
definition INITIAL_WINDOW_INCREMENT :: nat where "INITIAL_WINDOW_INCREMENT = INITIAL_WINDOW_SIZE - 65535"
definition WINDOW_UPDATE_THRESHOLD :: nat where "WINDOW_UPDATE_THRESHOLD = 1024 * 1024"
definition MAX_FRAME_PAYLOAD :: nat where "MAX_FRAME_PAYLOAD = 16384"
definition MAX_BUFFERED_BYTES_PER_STREAM :: nat where "MAX_BUFFERED_BYTES_PER_STREAM = 16 * 1024 * 1024"
definition MAX_TOTAL_BUFFERED_BYTES :: nat where "MAX_TOTAL_BUFFERED_BYTES = 64 * 1024 * 1024"
definition MAX_UNKNOWN_BUFFERED_STREAMS :: nat where "MAX_UNKNOWN_BUFFERED_STREAMS = 32"
definition MAX_ANNOUNCED_FILE_STREAMS :: nat where "MAX_ANNOUNCED_FILE_STREAMS = 4096"
definition FILE_STREAM_PREAMBLE_LEN :: nat where "FILE_STREAM_PREAMBLE_LEN = 24"
definition MAX_PENDING_DATA_FRAMES :: nat where "MAX_PENDING_DATA_FRAMES = 1024"
definition MAX_CLOSED_STREAMS :: nat where "MAX_CLOSED_STREAMS = MAX_UNKNOWN_BUFFERED_STREAMS"

lemmas h2_limits = INITIAL_WINDOW_SIZE_def DEFAULT_PEER_WINDOW_SIZE_def MAX_FLOW_CONTROL_WINDOW_def
  MAX_NEGOTIATED_FRAME_SIZE_def INITIAL_WINDOW_INCREMENT_def WINDOW_UPDATE_THRESHOLD_def
  MAX_FRAME_PAYLOAD_def MAX_BUFFERED_BYTES_PER_STREAM_def MAX_TOTAL_BUFFERED_BYTES_def
  MAX_UNKNOWN_BUFFERED_STREAMS_def MAX_ANNOUNCED_FILE_STREAMS_def FILE_STREAM_PREAMBLE_LEN_def
  MAX_PENDING_DATA_FRAMES_def MAX_CLOSED_STREAMS_def

text \<open>\<open>"PRI * HTTP/2.0\r\n\r\nSM\r\n\r\n"\<close>.\<close>

definition H2_PREFACE :: bytes where
  "H2_PREFACE = [80, 82, 73, 32, 42, 32, 72, 84, 84, 80, 47, 50, 46, 48, 13, 10, 13, 10, 83, 77, 13, 10, 13, 10]"

definition i64_checked_add :: "int \<Rightarrow> int \<Rightarrow> int option" where
  "i64_checked_add a b = (if - (2 ^ 63) \<le> a + b \<and> a + b < 2 ^ 63 then Some (a + b) else None)"

section \<open>Data\<close>

datatype h2_error = H2Io io_error | H2Protocol string "int list"

record data_frame =
  df_stream_id :: u32
  df_flags :: byte
  df_payload :: bytes

definition is_end_stream :: "data_frame \<Rightarrow> bool" where
  "is_end_stream f \<longleftrightarrow> df_flags f AND FLAG_END_STREAM \<noteq> 0"

definition is_remote_xpc_control_stream :: "data_frame \<Rightarrow> bool" where
  "is_remote_xpc_control_stream f \<longleftrightarrow> df_stream_id f \<in> {STREAM_CLIENT_SERVER, STREAM_SERVER_CLIENT}"

record raw_frame =
  rf_frame_type :: byte
  rf_flags :: byte
  rf_stream_id :: u32
  rf_payload :: bytes

record goaway_state =
  last_stream_id :: u32
  error_code :: u32

record h2 =
  stream :: sock
  client_server_buf :: bytes
  server_client_buf :: bytes
  stream_bufs :: "u32 \<rightharpoonup> bytes"
  locally_open_streams :: "u32 set"
  client_server_open :: bool
  server_client_open :: bool
  closed_streams :: "u32 set"
  closed_unknown_order :: "u32 list"
  pending_window_updates :: "u32 \<rightharpoonup> nat"
  buffered_bytes :: nat
  peer_open_streams :: "u32 set"
  announced_file_streams :: "u32 set"
  file_stream_candidates :: "u32 set"
  file_stream_candidate_data :: "u32 \<rightharpoonup> bytes"
  outbound_connection_window :: int
  peer_initial_window_size :: int
  outbound_stream_windows :: "u32 \<rightharpoonup> int"
  outbound_max_frame_size :: nat
  pending_data_frames :: "data_frame list"
  reset_streams :: "u32 \<rightharpoonup> u32"
  reset_unknown_order :: "u32 list"
  highest_peer_stream_id :: u32
  goaway :: "goaway_state option"
  connection_error :: "(string \<times> int list) option"
  partial_header :: bytes
  pending_frame_meta :: "(byte \<times> byte \<times> u32 \<times> nat) option"
  payload_buf :: bytes
  pending_write :: "bytes option"
  message_read_in_progress :: bool
  open_stream_in_progress :: "u32 option"
  window_update_in_progress :: bool

type_synonym 'a h2_proc = "(h2, h2_error, 'a) proc"

definition H2Framer_new :: "sock \<Rightarrow> h2" where
  "H2Framer_new s =
     \<lparr>stream = s, client_server_buf = [], server_client_buf = [], stream_bufs = Map.empty,
      locally_open_streams = {}, client_server_open = False, server_client_open = False,
      closed_streams = {}, closed_unknown_order = [], pending_window_updates = Map.empty,
      buffered_bytes = 0, peer_open_streams = {}, announced_file_streams = {},
      file_stream_candidates = {}, file_stream_candidate_data = Map.empty,
      outbound_connection_window = DEFAULT_PEER_WINDOW_SIZE,
      peer_initial_window_size = DEFAULT_PEER_WINDOW_SIZE, outbound_stream_windows = Map.empty,
      outbound_max_frame_size = MAX_FRAME_PAYLOAD, pending_data_frames = [],
      reset_streams = Map.empty, reset_unknown_order = [], highest_peer_stream_id = 0,
      goaway = None, connection_error = None, partial_header = [], pending_frame_meta = None,
      payload_buf = [], pending_write = None, message_read_in_progress = False,
      open_stream_in_progress = None, window_update_in_progress = False\<rparr>"

section \<open>Frame builders\<close>

definition build_frame :: "byte \<Rightarrow> byte \<Rightarrow> u32 \<Rightarrow> bytes \<Rightarrow> bytes" where
  "build_frame frame_type fl stream_id payload =
     [of_nat (length payload div 65536 mod 256), of_nat (length payload div 256 mod 256),
      of_nat (length payload mod 256), frame_type, fl] @
     to_be32 (stream_id AND 0x7FFFFFFF) @ payload"

definition build_settings_frame :: "(u16 \<times> u32) list \<Rightarrow> bytes" where
  "build_settings_frame settings =
     build_frame FRAME_SETTINGS 0 STREAM_INIT (concat (map (\<lambda>(i, v). to_be16 i @ to_be32 v) settings))"

definition build_settings_ack :: bytes where
  "build_settings_ack = build_frame FRAME_SETTINGS FLAG_SETTINGS_ACK STREAM_INIT []"

definition build_window_update_frame :: "u32 \<Rightarrow> nat \<Rightarrow> bytes" where
  "build_window_update_frame stream_id increment =
     build_frame FRAME_WINDOW_UPDATE 0 stream_id (to_be32 (of_nat increment AND 0x7FFFFFFF))"

definition build_headers_frame :: "u32 \<Rightarrow> bytes" where
  "build_headers_frame stream_id = build_frame FRAME_HEADERS FLAG_END_HEADERS stream_id []"

definition build_data_frame :: "u32 \<Rightarrow> bytes \<Rightarrow> bytes" where
  "build_data_frame stream_id bs = build_frame FRAME_DATA 0 stream_id bs"

section \<open>Checks\<close>

definition conn_err :: "string \<Rightarrow> int list \<Rightarrow> 'a h2_proc" where
  "conn_err msg args s =
     (Err (H2Protocol msg args),
      s\<lparr>connection_error := (case connection_error s of None \<Rightarrow> Some (msg, args) | Some e \<Rightarrow> Some e)\<rparr>)"

definition proto_err :: "string \<Rightarrow> int list \<Rightarrow> 'a h2_proc" where
  "proto_err msg args = throw (H2Protocol msg args)"

definition ensure_connection_open :: "h2 \<Rightarrow> h2_error + unit" where
  "ensure_connection_open s = (case connection_error s of
       Some (msg, args) \<Rightarrow> Inl (H2Protocol msg args)
     | None \<Rightarrow> (case open_stream_in_progress s of
           Some sid \<Rightarrow> Inl (H2Protocol
             ''opening stream {stream_id} was cancelled; the connection must be re-established'' [uint sid])
         | None \<Rightarrow>
             if window_update_in_progress s
             then Inl (H2Protocol
               ''WINDOW_UPDATE was cancelled mid-write; the connection must be re-established'' [])
             else Inr ()))"

definition ensure_stream_available :: "u32 \<Rightarrow> h2 \<Rightarrow> h2_error + unit" where
  "ensure_stream_available sid s =
     attempt (ensure_connection_open s) (\<lambda>_.
     case reset_streams s sid of
       Some code \<Rightarrow> Inl (H2Protocol
         ''stream {stream_id} was reset by peer (error code {error_code})'' [uint sid, uint code])
     | None \<Rightarrow> (case goaway s of
           Some g \<Rightarrow>
             if sid \<noteq> STREAM_INIT \<and> sid > last_stream_id g
             then Inl (H2Protocol
               ''stream {stream_id} was refused by peer GOAWAY (last stream {}, error code {})''
               [uint sid, uint (last_stream_id g), uint (error_code g)])
             else Inr ()
         | None \<Rightarrow> Inr ()))"

definition is_known_stream :: "u32 \<Rightarrow> h2 \<Rightarrow> bool" where
  "is_known_stream sid s \<longleftrightarrow>
     sid \<in> {STREAM_INIT, STREAM_CLIENT_SERVER, STREAM_SERVER_CLIENT} \<or>
     sid \<in> locally_open_streams s \<or> sid \<in> announced_file_streams s"

definition ensure_peer_stream_not_reused :: "u32 \<Rightarrow> h2 \<Rightarrow> h2_error + unit" where
  "ensure_peer_stream_not_reused sid s =
     (if \<not> is_known_stream sid s \<and> sid \<notin> peer_open_streams s \<and> sid \<notin> announced_file_streams s \<and>
         sid \<notin> file_stream_candidates s \<and> sid \<notin> closed_streams s \<and> sid \<le> highest_peer_stream_id s
      then Inl (H2Protocol ''peer stream {stream_id} was already opened and cannot be reused'' [uint sid])
      else Inr ())"

definition ensure_incoming_stream_available :: "u32 \<Rightarrow> h2 \<Rightarrow> h2_error + unit" where
  "ensure_incoming_stream_available sid s =
     attempt (ensure_stream_available sid s) (\<lambda>_.
     if sid \<in> closed_streams s
     then Inl (H2Protocol ''frame received after stream {stream_id} ended'' [uint sid])
     else ensure_peer_stream_not_reused sid s)"

section \<open>Resumable frame input and output\<close>

definition on_h2 :: "(sock, io_error, 'a) proc \<Rightarrow> 'a h2_proc" where
  "on_h2 m = on_stream stream (\<lambda>k s. s\<lparr>stream := k\<rparr>) H2Io m"

text \<open>
  \<open>write_frame_bytes\<close> with its drop guard: what the transport did not accept, after an error
  or a cancellation, stays in \<open>pending_write\<close>.
\<close>

definition h2_io_outcome :: "(io_error, 'a) outcome \<Rightarrow> (h2_error, 'a) outcome" where
  "h2_io_outcome r = (case r of Ok x \<Rightarrow> Ok x | Err e \<Rightarrow> Err (H2Io e) | Cancelled \<Rightarrow> Cancelled)"

definition write_frame_bytes :: "bytes \<Rightarrow> unit h2_proc" where
  "write_frame_bytes bs s = (case wx_all bs (wx (stream s)) of
     (r, es, sent, left) \<Rightarrow>
       (h2_io_outcome r,
        s\<lparr>stream := (stream s)\<lparr>wx := es, wire := wire (stream s) @ sent\<rparr>,
          pending_write := (if left \<noteq> [] then Some left else pending_write s)\<rparr>))"

definition finish_pending_write :: "unit h2_proc" where
  "finish_pending_write s = (case pending_write s of
       None \<Rightarrow> (Ok (), s)
     | Some pending \<Rightarrow> write_frame_bytes pending (s\<lparr>pending_write := None\<rparr>))"

definition write_all_tracked :: "bytes \<Rightarrow> unit h2_proc" where
  "write_all_tracked bs = and_then finish_pending_write (\<lambda>_. write_frame_bytes bs)"

definition finish_pending_write_for_read :: "unit h2_proc" where
  "finish_pending_write_for_read = and_then (check ensure_connection_open) (\<lambda>_. finish_pending_write)"

definition fill_header :: "unit h2_proc" where
  "fill_header s = (case rx_fill 9 (partial_header s) (rx (stream s)) of
     (r, h, es) \<Rightarrow> (h2_io_outcome r, s\<lparr>partial_header := h, stream := (stream s)\<lparr>rx := es\<rparr>\<rparr>))"

definition parse_frame_header :: "bytes \<Rightarrow> byte \<times> byte \<times> u32 \<times> nat" where
  "parse_frame_header h =
     (h ! 3, h ! 4, from_be32 (take 4 (drop 5 h)) AND 0x7FFFFFFF,
      unat (h ! 0) * 65536 + unat (h ! 1) * 256 + unat (h ! 2))"

definition frame_meta :: "(byte \<times> byte \<times> u32 \<times> nat) h2_proc" where
  "frame_meta s = (case pending_frame_meta s of
       Some m \<Rightarrow> (Ok m, s)
     | None \<Rightarrow> (case parse_frame_header (partial_header s) of (ft, fl, sid, len) \<Rightarrow>
         if len > MAX_FRAME_PAYLOAD
         then conn_err ''frame payload {length} exceeds max frame size {MAX_FRAME_PAYLOAD}''
                [int len, int MAX_FRAME_PAYLOAD] s
         else (Ok (ft, fl, sid, len), s\<lparr>pending_frame_meta := Some (ft, fl, sid, len)\<rparr>)))"

definition fill_payload :: "nat \<Rightarrow> unit h2_proc" where
  "fill_payload len s =
     (if len > 0 then
        (case rx_fill len (payload_buf s) (rx (stream s)) of
           (r, p, es) \<Rightarrow> (h2_io_outcome r, s\<lparr>payload_buf := p, stream := (stream s)\<lparr>rx := es\<rparr>\<rparr>))
      else (Ok (), s))"

definition finish_frame :: "byte \<times> byte \<times> u32 \<times> nat \<Rightarrow> raw_frame h2_proc" where
  "finish_frame m s = (case m of (ft, fl, sid, len) \<Rightarrow>
     (Ok \<lparr>rf_frame_type = ft, rf_flags = fl, rf_stream_id = sid,
          rf_payload = (if len > 0 then payload_buf s else [])\<rparr>,
      s\<lparr>partial_header := [], pending_frame_meta := None, payload_buf := []\<rparr>))"

definition read_raw_frame :: "raw_frame h2_proc" where
  "read_raw_frame =
     and_then (check ensure_connection_open) (\<lambda>_.
     and_then finish_pending_write (\<lambda>_.
     and_then fill_header (\<lambda>_.
     and_then frame_meta (\<lambda>m.
     and_then (fill_payload (snd (snd (snd m)))) (\<lambda>_.
     finish_frame m)))))"

definition begin_message_body :: "h2 \<Rightarrow> h2" where
  "begin_message_body s = s\<lparr>message_read_in_progress := True\<rparr>"

definition end_message_body :: "h2 \<Rightarrow> h2" where
  "end_message_body s = s\<lparr>message_read_in_progress := False\<rparr>"

end
