(* ===== verification/H2_Registry.thy ===== *)
theory H2_Registry
  imports H2_State
begin

text \<open>
  The stream registry and the demultiplexing buffers of the HTTP/2 framer: which streams are
  known, announced, candidates or closed, and the bytes held for each. Every function of the
  source that touches them is one definition here; a fallible \<open>&mut self\<close> method returns its
  result and the state it leaves, on its error branches too.
\<close>

section \<open>Buffers\<close>

definition stream_buffer :: "u32 \<Rightarrow> h2 \<Rightarrow> bytes option" where
  "stream_buffer sid s =
     (if sid = STREAM_CLIENT_SERVER then Some (client_server_buf s)
      else if sid = STREAM_SERVER_CLIENT then Some (server_client_buf s)
      else stream_bufs s sid)"

definition stream_buffer_len :: "u32 \<Rightarrow> h2 \<Rightarrow> nat" where
  "stream_buffer_len sid s =
     (if sid = STREAM_CLIENT_SERVER then length (client_server_buf s)
      else if sid = STREAM_SERVER_CLIENT then length (server_client_buf s)
      else (case stream_bufs s sid of Some b \<Rightarrow> length b | None \<Rightarrow> 0))"

text \<open>The \<open>extend_from_slice\<close> on the buffer of a stream, created when it is missing.\<close>

definition extend_stream_buffer :: "u32 \<Rightarrow> bytes \<Rightarrow> h2 \<Rightarrow> h2" where
  "extend_stream_buffer sid payload s =
     (if sid = STREAM_CLIENT_SERVER then s\<lparr>client_server_buf := client_server_buf s @ payload\<rparr>
      else if sid = STREAM_SERVER_CLIENT then s\<lparr>server_client_buf := server_client_buf s @ payload\<rparr>
      else s\<lparr>stream_bufs := (stream_bufs s)(sid \<mapsto>
             (case stream_bufs s sid of Some b \<Rightarrow> b | None \<Rightarrow> []) @ payload)\<rparr>)"

definition saturating_add :: "nat \<Rightarrow> nat \<Rightarrow> nat" where
  "saturating_add a b = min usize_MAX (a + b)"

definition pending_stream_buffer_len :: "u32 \<Rightarrow> h2 \<Rightarrow> nat" where
  "pending_stream_buffer_len sid s =
     foldl saturating_add 0
       (map (\<lambda>f. length (df_payload f)) (filter (\<lambda>f. df_stream_id f = sid) (pending_data_frames s)))"

definition remove_closed_stream_tombstone :: "u32 \<Rightarrow> h2 \<Rightarrow> h2" where
  "remove_closed_stream_tombstone sid s =
     (if sid \<in> closed_streams s then
        (let s' = s\<lparr>closed_streams := closed_streams s - {sid}\<rparr> in
         if \<not> is_known_stream sid s'
         then s'\<lparr>closed_unknown_order := filter (\<lambda>i. i \<noteq> sid) (closed_unknown_order s')\<rparr>
         else s')
      else s)"

text \<open>Drop the buffered bytes of a stream: its buffer and its queued frames.\<close>

definition drop_stream_bytes :: "u32 \<Rightarrow> h2 \<Rightarrow> h2" where
  "drop_stream_bytes sid s =
     (let s1 = (if sid = STREAM_CLIENT_SERVER then s\<lparr>client_server_buf := []\<rparr>
                else if sid = STREAM_SERVER_CLIENT then s\<lparr>server_client_buf := []\<rparr>
                else s\<lparr>stream_bufs := (stream_bufs s)(sid := None)\<rparr>);
          removed = foldl saturating_add (stream_buffer_len sid s)
            (map (\<lambda>f. length (df_payload f)) (filter (\<lambda>f. df_stream_id f = sid) (pending_data_frames s)))
      in s1\<lparr>pending_data_frames := filter (\<lambda>f. df_stream_id f \<noteq> sid) (pending_data_frames s),
            buffered_bytes := buffered_bytes s - removed\<rparr>)"

definition clear_stream_buffer :: "u32 \<Rightarrow> h2 \<Rightarrow> h2" where
  "clear_stream_buffer sid s =
     (let s' = remove_closed_stream_tombstone sid (drop_stream_bytes sid s) in
      s'\<lparr>peer_open_streams := peer_open_streams s' - {sid},
        announced_file_streams := announced_file_streams s' - {sid},
        file_stream_candidates := file_stream_candidates s' - {sid},
        file_stream_candidate_data := (file_stream_candidate_data s')(sid := None),
        pending_window_updates := (pending_window_updates s')(sid := None)\<rparr>)"

text \<open>The checks of \<open>reserve_stream_buffer\<close> that clear the stream when they fail.\<close>

definition reserve_total :: "u32 \<Rightarrow> nat \<Rightarrow> h2 \<Rightarrow> h2_error + nat" where
  "reserve_total sid incoming s =
     attempt (ok_or (H2Protocol
         ''H2 stream {stream_id} buffered length overflow while adding {} pending bytes''
         [uint sid, int incoming])
       (usize_checked_add (stream_buffer_len sid s) (pending_stream_buffer_len sid s))) (\<lambda>current.
     attempt (ok_or (H2Protocol
         ''H2 stream {stream_id} buffer length overflow: current {current}, incoming {}''
         [uint sid, int current, int incoming])
       (usize_checked_add current incoming)) (\<lambda>requested.
     if requested > MAX_BUFFERED_BYTES_PER_STREAM
     then Inl (H2Protocol ''H2 stream {stream_id} buffer {requested} exceeds per-stream limit {}''
            [uint sid, int requested, int MAX_BUFFERED_BYTES_PER_STREAM])
     else
       attempt (ok_or (H2Protocol ''H2 buffered byte count overflow: current {}, incoming {}''
           [int (buffered_bytes s), int incoming])
         (usize_checked_add (buffered_bytes s) incoming)) (\<lambda>tot.
       if tot > MAX_TOTAL_BUFFERED_BYTES
       then Inl (H2Protocol ''H2 buffered bytes {total} exceed connection limit {}''
              [int tot, int MAX_TOTAL_BUFFERED_BYTES])
       else Inr tot)))"

definition reserve_stream_buffer :: "u32 \<Rightarrow> nat \<Rightarrow> unit h2_proc" where
  "reserve_stream_buffer sid incoming s =
     (if incoming = 0 then (Ok (), s)
      else if \<not> is_known_stream sid s \<and> stream_bufs s sid = None \<and> sid \<notin> peer_open_streams s \<and>
              card (peer_open_streams s) \<ge> MAX_UNKNOWN_BUFFERED_STREAMS
      then proto_err ''too many unknown H2 streams with buffered data: limit {MAX_UNKNOWN_BUFFERED_STREAMS}''
             [int MAX_UNKNOWN_BUFFERED_STREAMS] (remove_closed_stream_tombstone sid s)
      else (case reserve_total sid incoming s of
          Inl e \<Rightarrow> (Err e, clear_stream_buffer sid s)
        | Inr tot \<Rightarrow> (Ok (), s\<lparr>buffered_bytes := tot\<rparr>)))"

definition append_stream_data :: "u32 \<Rightarrow> bytes \<Rightarrow> unit h2_proc" where
  "append_stream_data sid payload =
     (if payload = [] then ret ()
      else and_then (reserve_stream_buffer sid (length payload)) (\<lambda>_.
           modify (extend_stream_buffer sid payload)))"

fun drain_frames :: "data_frame list \<Rightarrow> h2 \<Rightarrow> h2" where
  "drain_frames [] s = s"
| "drain_frames (f # fs) s =
     drain_frames fs (if df_payload f = [] then s
                      else extend_stream_buffer (df_stream_id f) (df_payload f) s)"

definition drain_pending_data_frames :: "h2 \<Rightarrow> h2" where
  "drain_pending_data_frames s = drain_frames (pending_data_frames s) (s\<lparr>pending_data_frames := []\<rparr>)"

definition take_stream_bytes :: "u32 \<Rightarrow> nat \<Rightarrow> bytes h2_proc" where
  "take_stream_bytes sid n s =
     (if stream_buffer_len sid s < n
      then proto_err ''stream {stream_id} has fewer than {n} buffered bytes'' [uint sid, int n] s
      else if sid = STREAM_CLIENT_SERVER then
        (Ok (take n (client_server_buf s)),
         s\<lparr>client_server_buf := drop n (client_server_buf s), buffered_bytes := buffered_bytes s - n\<rparr>)
      else if sid = STREAM_SERVER_CLIENT then
        (Ok (take n (server_client_buf s)),
         s\<lparr>server_client_buf := drop n (server_client_buf s), buffered_bytes := buffered_bytes s - n\<rparr>)
      else case stream_bufs s sid of
        None \<Rightarrow> proto_err ''stream {stream_id} not open'' [uint sid] s
      | Some b \<Rightarrow>
          (Ok (take n b),
           s\<lparr>stream_bufs := (stream_bufs s)(sid :=
                if drop n b = [] \<and> sid \<notin> locally_open_streams s then None else Some (drop n b)),
             buffered_bytes := buffered_bytes s - n\<rparr>))"

section \<open>Tombstones\<close>

definition mark_end_stream :: "u32 \<Rightarrow> byte \<Rightarrow> h2 \<Rightarrow> h2" where
  "mark_end_stream sid fl s =
     (if fl AND FLAG_END_STREAM = 0 then s
      else let s1 = s\<lparr>announced_file_streams := announced_file_streams s - {sid},
                      file_stream_candidates := file_stream_candidates s - {sid},
                      file_stream_candidate_data := (file_stream_candidate_data s)(sid := None)\<rparr>;
               s2 = (if sid \<notin> closed_streams s1 \<and> \<not> is_known_stream sid s1 then
                       (let s' = (if length (closed_unknown_order s1) \<ge> MAX_CLOSED_STREAMS then
                                    (case closed_unknown_order s1 of
                                       [] \<Rightarrow> s1
                                     | oldest # rest \<Rightarrow>
                                         s1\<lparr>closed_unknown_order := rest,
                                            closed_streams := closed_streams s1 - {oldest}\<rparr>)
                                  else s1)
                        in s'\<lparr>closed_unknown_order := closed_unknown_order s' @ [sid]\<rparr>)
                     else s1)
           in s2\<lparr>closed_streams := insert sid (closed_streams s2),
                 peer_open_streams := peer_open_streams s2 - {sid},
                 pending_window_updates := (pending_window_updates s2)(sid := None)\<rparr>)"

definition record_reset_stream :: "u32 \<Rightarrow> u32 \<Rightarrow> h2 \<Rightarrow> h2" where
  "record_reset_stream sid code s =
     (let s1 = (if reset_streams s sid = None \<and> \<not> is_known_stream sid s then
                  (let s' = (if length (reset_unknown_order s) \<ge> MAX_CLOSED_STREAMS then
                               (case reset_unknown_order s of
                                  [] \<Rightarrow> s
                                | oldest # rest \<Rightarrow>
                                    s\<lparr>reset_unknown_order := rest,
                                      reset_streams := (reset_streams s)(oldest := None)\<rparr>)
                             else s)
                   in s'\<lparr>reset_unknown_order := reset_unknown_order s' @ [sid]\<rparr>)
                else s)
      in s1\<lparr>reset_streams := (reset_streams s1)(sid \<mapsto> code)\<rparr>)"

section \<open>Peer-created streams\<close>

definition is_file_stream_preamble_prefix :: "u32 \<Rightarrow> bytes \<Rightarrow> bool" where
  "is_file_stream_preamble_prefix sid payload \<longleftrightarrow>
     \<not> (sid = STREAM_INIT \<or> sid mod 2 \<noteq> 0 \<or> length payload < FILE_STREAM_PREAMBLE_LEN) \<and>
     from_le32 (take 4 payload) = WRAPPER_MAGIC \<and>
     from_le32 (take 4 (drop 4 payload)) = XPC_ALWAYS_SET OR FILE_TX_STREAM_REQUEST \<and>
     from_le64 (take 8 (drop 8 payload)) = 0"

definition is_file_stream_preamble :: "u32 \<Rightarrow> bytes \<Rightarrow> bool" where
  "is_file_stream_preamble sid payload \<longleftrightarrow>
     length payload = FILE_STREAM_PREAMBLE_LEN \<and> is_file_stream_preamble_prefix sid payload"

definition unknown_active_stream_count :: "h2 \<Rightarrow> nat" where
  "unknown_active_stream_count s = card (peer_open_streams s) + card (file_stream_candidates s)"

definition track_peer_stream :: "u32 \<Rightarrow> unit h2_proc" where
  "track_peer_stream sid s =
     (if is_known_stream sid s \<or> sid \<in> peer_open_streams s \<or> sid \<in> file_stream_candidates s
      then (Ok (), s)
      else if sid \<le> highest_peer_stream_id s
      then proto_err ''peer stream {stream_id} was already opened and cannot be reused'' [uint sid] s
      else if unknown_active_stream_count s \<ge> MAX_UNKNOWN_BUFFERED_STREAMS
      then proto_err ''too many unknown H2 streams: limit {MAX_UNKNOWN_BUFFERED_STREAMS}''
             [int MAX_UNKNOWN_BUFFERED_STREAMS] s
      else (Ok (), s\<lparr>highest_peer_stream_id := sid, peer_open_streams := insert sid (peer_open_streams s)\<rparr>))"

definition adopt_file_stream :: "u32 \<Rightarrow> unit h2_proc" where
  "adopt_file_stream sid s =
     (if sid \<in> announced_file_streams s then (Ok (), s)
      else if card (announced_file_streams s) \<ge> MAX_ANNOUNCED_FILE_STREAMS
      then proto_err ''too many announced RemoteXPC file streams: limit {MAX_ANNOUNCED_FILE_STREAMS}''
             [int MAX_ANNOUNCED_FILE_STREAMS] s
      else (Ok (), s\<lparr>highest_peer_stream_id := max (highest_peer_stream_id s) sid,
                     announced_file_streams := insert sid (announced_file_streams s)\<rparr>))"

definition register_file_stream_candidate :: "u32 \<Rightarrow> unit h2_proc" where
  "register_file_stream_candidate sid s =
     (if sid \<le> highest_peer_stream_id s
      then proto_err ''peer stream {stream_id} was already opened and cannot be reused'' [uint sid] s
      else if unknown_active_stream_count s \<ge> MAX_UNKNOWN_BUFFERED_STREAMS
      then proto_err ''too many pending RemoteXPC file streams: limit {MAX_UNKNOWN_BUFFERED_STREAMS}''
             [int MAX_UNKNOWN_BUFFERED_STREAMS] s
      else (Ok (), s\<lparr>highest_peer_stream_id := sid,
                     file_stream_candidates := insert sid (file_stream_candidates s),
                     file_stream_candidate_data := (file_stream_candidate_data s)(sid \<mapsto> [])\<rparr>))"

definition observe_peer_headers :: "u32 \<Rightarrow> unit h2_proc" where
  "observe_peer_headers sid s =
     (if is_known_stream sid s \<or> sid \<in> peer_open_streams s \<or> sid \<in> file_stream_candidates s
      then (Ok (), s)
      else if sid mod 2 = 0 then register_file_stream_candidate sid s
      else track_peer_stream sid s)"

text \<open>
  A candidate's first 24 bytes are collected before they are judged; \<open>entry().or_default()\<close>
  and the extension happen on the early return too.
\<close>

definition observe_peer_data_stream :: "u32 \<Rightarrow> bytes \<Rightarrow> unit h2_proc" where
  "observe_peer_data_stream sid payload s =
     (if is_known_stream sid s \<or> sid \<in> peer_open_streams s then (Ok (), s)
      else if sid \<in> file_stream_candidates s then
        (let old = (case file_stream_candidate_data s sid of Some c \<Rightarrow> c | None \<Rightarrow> []);
             prefix_len = FILE_STREAM_PREAMBLE_LEN - length old;
             candidate = (if prefix_len \<noteq> 0 then old @ take (min (length payload) prefix_len) payload else old);
             s1 = s\<lparr>file_stream_candidate_data := (file_stream_candidate_data s)(sid \<mapsto> candidate)\<rparr>
         in if length candidate < FILE_STREAM_PREAMBLE_LEN then (Ok (), s1)
            else if \<not> is_file_stream_preamble_prefix sid candidate
            then proto_err ''invalid RemoteXPC file-stream preamble on stream {stream_id}'' [uint sid]
                   (clear_stream_buffer sid s1)
            else adopt_file_stream sid
                   (s1\<lparr>file_stream_candidates := file_stream_candidates s1 - {sid},
                       file_stream_candidate_data := (file_stream_candidate_data s1)(sid := None)\<rparr>))
      else if is_file_stream_preamble sid payload then adopt_file_stream sid s
      else track_peer_stream sid s)"

end
