(* ===== verification/H2_Flow.thy ===== *)
theory H2_Flow
  imports H2_Registry
begin

text \<open>
  Flow control of the HTTP/2 framer: the peer's SETTINGS, WINDOW_UPDATE and GOAWAY frames, the
  outbound windows a writer spends, and the receive windows given back to the peer. The order
  in which \<open>process_settings\<close> visits the stream windows is a hash map's in the source; it
  decides only which stream an error names, and is ascending here.
\<close>

section \<open>SETTINGS\<close>

fun parse_settings :: "bytes \<Rightarrow> int option \<times> nat option \<Rightarrow>
    (string \<times> int list) + (int option \<times> nat option)" where
  "parse_settings (a # b # c # d # e # f # r) (iw, mf) =
     (let i = from_be16 [a, b]; v = unat (from_be32 [c, d, e, f]) in
      if i = SETTINGS_INITIAL_WINDOW_SIZE then
        if int v > MAX_FLOW_CONTROL_WINDOW
        then Inl (''SETTINGS_INITIAL_WINDOW_SIZE {value} exceeds {MAX_FLOW_CONTROL_WINDOW}'',
                  [int v, MAX_FLOW_CONTROL_WINDOW])
        else parse_settings r (Some (int v), mf)
      else if i = SETTINGS_MAX_FRAME_SIZE then
        if \<not> (MAX_FRAME_PAYLOAD \<le> v \<and> v \<le> MAX_NEGOTIATED_FRAME_SIZE)
        then Inl (''SETTINGS_MAX_FRAME_SIZE {value} is outside {}..={MAX_NEGOTIATED_FRAME_SIZE}'',
                  [int v, int MAX_FRAME_PAYLOAD, int MAX_NEGOTIATED_FRAME_SIZE])
        else parse_settings r (iw, Some v)
      else parse_settings r (iw, mf))"
| "parse_settings _ acc = Inr acc"

fun shifted_windows :: "u32 list \<Rightarrow> int \<Rightarrow> (u32 \<rightharpoonup> int) \<Rightarrow> (string \<times> int list) + (u32 \<times> int) list" where
  "shifted_windows [] delta w = Inr []"
| "shifted_windows (sid # sids) delta w =
     (case w sid of
        None \<Rightarrow> shifted_windows sids delta w
      | Some window \<Rightarrow>
          attempt (ok_or (''stream {stream_id} outbound window overflow applying SETTINGS_INITIAL_WINDOW_SIZE delta {delta}'',
              [uint sid, delta]) (i64_checked_add window delta)) (\<lambda>v.
          if \<not> (- MAX_FLOW_CONTROL_WINDOW \<le> v \<and> v \<le> MAX_FLOW_CONTROL_WINDOW)
          then Inl (''stream {stream_id} outbound window {value} is outside flow-control range'', [uint sid, v])
          else attempt (shifted_windows sids delta w) (\<lambda>r. Inr ((sid, v) # r))))"

definition apply_initial_window :: "int option \<Rightarrow> unit h2_proc" where
  "apply_initial_window iw s = (case iw of
       None \<Rightarrow> (Ok (), s)
     | Some new_initial_window \<Rightarrow>
         (let delta = new_initial_window - peer_initial_window_size s in
          case shifted_windows (sorted_list_of_set (dom (outbound_stream_windows s))) delta
                 (outbound_stream_windows s) of
            Inl (msg, args) \<Rightarrow> conn_err msg args s
          | Inr updated \<Rightarrow>
              (Ok (), s\<lparr>outbound_stream_windows := outbound_stream_windows s ++ map_of updated,
                        peer_initial_window_size := new_initial_window\<rparr>)))"

definition apply_max_frame_size :: "nat option \<Rightarrow> h2 \<Rightarrow> h2" where
  "apply_max_frame_size mf s = (case mf of None \<Rightarrow> s | Some v \<Rightarrow> s\<lparr>outbound_max_frame_size := v\<rparr>)"

definition process_settings :: "byte \<Rightarrow> bytes \<Rightarrow> unit h2_proc" where
  "process_settings fl payload =
     (if fl AND FLAG_SETTINGS_ACK \<noteq> 0 then
        if payload \<noteq> [] then conn_err ''SETTINGS ACK frame must have an empty payload'' [] else ret ()
      else if length payload mod 6 \<noteq> 0 then
        conn_err ''SETTINGS payload length must be a multiple of 6, got {}'' [int (length payload)]
      else case parse_settings payload (None, None) of
        Inl (msg, args) \<Rightarrow> conn_err msg args
      | Inr (iw, mf) \<Rightarrow>
          and_then (apply_initial_window iw) (\<lambda>_.
          and_then (modify (apply_max_frame_size mf)) (\<lambda>_.
          and_then (write_all_tracked build_settings_ack) (\<lambda>_.
          on_h2 sock_flush))))"

section \<open>WINDOW_UPDATE and GOAWAY\<close>

definition process_window_update :: "u32 \<Rightarrow> bytes \<Rightarrow> unit h2_proc" where
  "process_window_update sid payload s =
     (if length payload \<noteq> 4
      then conn_err ''WINDOW_UPDATE payload must be 4 bytes, got {}'' [int (length payload)] s
      else let increment = from_be32 payload AND 0x7FFFFFFF; inc = uint increment in
        if increment = 0 then
          (if sid = STREAM_INIT \<or>
              \<not> (is_known_stream sid s \<or> sid \<in> peer_open_streams s \<or> sid \<in> closed_streams s \<or>
                 reset_streams s sid \<noteq> None \<or> outbound_stream_windows s sid \<noteq> None)
           then conn_err ''WINDOW_UPDATE for stream {stream_id} has a zero increment'' [uint sid] s
           else proto_err ''WINDOW_UPDATE for stream {stream_id} has a zero increment'' [uint sid] s)
        else if sid = STREAM_INIT then
          (case i64_checked_add (outbound_connection_window s) inc of
             None \<Rightarrow> conn_err ''connection outbound window overflow adding {increment}'' [inc] s
           | Some v \<Rightarrow>
               if v > MAX_FLOW_CONTROL_WINDOW
               then conn_err ''connection outbound window {value} exceeds {MAX_FLOW_CONTROL_WINDOW}''
                      [v, MAX_FLOW_CONTROL_WINDOW] s
               else (Ok (), s\<lparr>outbound_connection_window := v\<rparr>))
        else (case outbound_stream_windows s sid of
             None \<Rightarrow>
               if sid \<in> closed_streams s \<or> reset_streams s sid \<noteq> None
               then proto_err ''WINDOW_UPDATE received for closed stream {stream_id}'' [uint sid] s
               else if sid \<in> peer_open_streams s \<or> sid \<in> announced_file_streams s \<or>
                       sid \<in> file_stream_candidates s
               then (Ok (), s)
               else conn_err ''WINDOW_UPDATE received for unopened stream {stream_id}'' [uint sid] s
           | Some window \<Rightarrow>
               (case i64_checked_add window inc of
                  None \<Rightarrow> conn_err ''stream {stream_id} outbound window overflow adding {increment}'' [uint sid, inc] s
                | Some v \<Rightarrow>
                    if v > MAX_FLOW_CONTROL_WINDOW
                    then conn_err ''stream {stream_id} outbound window {value} exceeds {MAX_FLOW_CONTROL_WINDOW}''
                           [uint sid, v, MAX_FLOW_CONTROL_WINDOW] s
                    else (Ok (), s\<lparr>outbound_stream_windows := (outbound_stream_windows s)(sid \<mapsto> v)\<rparr>))))"

definition process_goaway :: "u32 \<Rightarrow> bytes \<Rightarrow> unit h2_proc" where
  "process_goaway sid payload s =
     (if sid \<noteq> STREAM_INIT then conn_err ''GOAWAY frame must use stream 0'' [] s
      else if length payload < 8
      then conn_err ''GOAWAY payload must be at least 8 bytes, got {}'' [int (length payload)] s
      else let last = from_be32 (take 4 payload) AND 0x7FFFFFFF;
               code = from_be32 (take 4 (drop 4 payload)) in
        case goaway s of
          Some previous \<Rightarrow>
            if last > last_stream_id previous
            then conn_err ''GOAWAY last stream {last_stream_id} exceeds previous {}''
                   [uint last, uint (last_stream_id previous)] s
            else let s' = (if last_stream_id previous \<le> last then s
                           else s\<lparr>goaway := Some \<lparr>last_stream_id = last, error_code = code\<rparr>\<rparr>) in
              if code \<noteq> 0 then conn_err ''peer sent GOAWAY with error code {error_code}'' [uint code] s'
              else (Ok (), s')
        | None \<Rightarrow>
            let s' = s\<lparr>goaway := Some \<lparr>last_stream_id = last, error_code = code\<rparr>\<rparr> in
            if code \<noteq> 0 then conn_err ''peer sent GOAWAY with error code {error_code}'' [uint code] s'
            else (Ok (), s'))"

section \<open>Receive windows\<close>

definition pending_update :: "u32 \<Rightarrow> h2 \<Rightarrow> nat" where
  "pending_update sid s = (case pending_window_updates s sid of Some n \<Rightarrow> n | None \<Rightarrow> 0)"

text \<open>
  One window of \<open>replenish_receive_window\<close>: at the threshold the whole amount becomes a frame
  and the counter restarts, below it the counter is stored.
\<close>

definition settle_window :: "u32 \<Rightarrow> nat \<Rightarrow> h2 \<Rightarrow> bytes list \<times> h2" where
  "settle_window sid tot s =
     (if tot \<ge> WINDOW_UPDATE_THRESHOLD
      then ([build_window_update_frame sid tot],
            s\<lparr>pending_window_updates := (pending_window_updates s)(sid \<mapsto> 0)\<rparr>)
      else ([], s\<lparr>pending_window_updates := (pending_window_updates s)(sid \<mapsto> tot)\<rparr>))"

fun write_frames :: "bytes list \<Rightarrow> unit h2_proc" where
  "write_frames [] = ret ()"
| "write_frames (f # fs) = and_then (write_all_tracked f) (\<lambda>_. write_frames fs)"

definition emit_window_updates :: "bytes list \<Rightarrow> unit h2_proc" where
  "emit_window_updates frames =
     (if frames = [] then ret ()
      else and_then (modify (\<lambda>s. s\<lparr>window_update_in_progress := True\<rparr>)) (\<lambda>_.
           and_then (write_frames frames) (\<lambda>_.
           and_then (on_h2 sock_flush) (\<lambda>_.
           modify (\<lambda>s. s\<lparr>window_update_in_progress := False\<rparr>)))))"

definition replenish_receive_window :: "u32 \<Rightarrow> nat \<Rightarrow> unit h2_proc" where
  "replenish_receive_window sid consumed =
     and_then (check ensure_connection_open) (\<lambda>_ s.
     if consumed = 0 then (Ok (), s)
     else if consumed > 0xFFFFFFFF
     then conn_err ''received DATA length {consumed} does not fit in a WINDOW_UPDATE'' [int consumed] s
     else let connection_total = pending_update STREAM_INIT s + consumed;
              stream_total = pending_update sid s + consumed in
       if connection_total > 0xFFFFFFFF
       then conn_err ''connection WINDOW_UPDATE pending count overflow: {connection_pending} + {consumed}''
              [int (pending_update STREAM_INIT s), int consumed] s
       else if sid \<noteq> STREAM_INIT \<and> stream_total > 0xFFFFFFFF
       then conn_err ''stream {stream_id} WINDOW_UPDATE pending count overflow: {stream_pending} + {consumed}''
              [uint sid, int (pending_update sid s), int consumed] s
       else case settle_window STREAM_INIT connection_total s of (frames0, s1) \<Rightarrow>
         (case (if sid \<noteq> STREAM_INIT then settle_window sid stream_total s1 else ([], s1)) of
            (frames1, s2) \<Rightarrow> emit_window_updates (frames0 @ frames1) s2))"

section \<open>Outbound windows\<close>

definition outbound_budget :: "u32 \<Rightarrow> h2 \<Rightarrow> h2_error + nat" where
  "outbound_budget sid s =
     attempt (ensure_stream_available sid s) (\<lambda>_.
     attempt (ok_or (H2Protocol ''stream {stream_id} is not open for sending'' [uint sid])
       (outbound_stream_windows s sid)) (\<lambda>stream_window.
     if outbound_connection_window s \<le> 0 \<or> stream_window \<le> 0 then Inr 0
     else Inr (min (min (outbound_max_frame_size s) (nat (outbound_connection_window s))) (nat stream_window))))"

definition consume_outbound_window :: "u32 \<Rightarrow> nat \<Rightarrow> unit h2_proc" where
  "consume_outbound_window sid amount s =
     (if int amount \<ge> 2 ^ 63 then conn_err ''outbound DATA length {amount} exceeds i64'' [int amount] s
      else case outbound_stream_windows s sid of
        None \<Rightarrow> proto_err ''stream {stream_id} is not open for sending'' [uint sid] s
      | Some stream_window \<Rightarrow>
          if int amount > outbound_connection_window s \<or> int amount > stream_window
          then conn_err ''outbound DATA length {amount} exceeds stream {stream_id} or connection window''
                 [int amount, uint sid] s
          else (Ok (), s\<lparr>outbound_connection_window := outbound_connection_window s - int amount,
                         outbound_stream_windows := (outbound_stream_windows s)(sid \<mapsto> stream_window - int amount)\<rparr>))"

end
