(* ===== verification/H2_Framer.thy ===== *)
theory H2_Framer
  imports H2_Flow
begin

text \<open>
  The operations of the HTTP/2 framer: dispatching a frame, queueing DATA for a blocked writer,
  reading a stream, reading the next DATA frame, selecting a stream with a complete XPC
  message, opening and writing a stream, and the connection handshake. Every loop is a recursion
  that ends on every transport script: reading a frame uses up part of the script, and nothing
  else puts anything back. The measure is \<open>input_left\<close>.
\<close>

section \<open>Dispatch\<close>

definition dispatch_data :: "u32 \<Rightarrow> byte \<Rightarrow> bytes \<Rightarrow> unit h2_proc" where
  "dispatch_data sid fl payload =
     (if sid = STREAM_INIT then conn_err ''DATA frame is not valid on stream 0'' []
      else and_then (check (ensure_incoming_stream_available sid)) (\<lambda>_.
           and_then (observe_peer_data_stream sid payload) (\<lambda>_.
           and_then (append_stream_data sid payload) (\<lambda>_.
           and_then (modify (mark_end_stream sid fl)) (\<lambda>_.
           replenish_receive_window sid (length payload))))))"

definition dispatch_headers :: "u32 \<Rightarrow> byte \<Rightarrow> unit h2_proc" where
  "dispatch_headers sid fl =
     (if sid = STREAM_INIT then conn_err ''HEADERS frame is not valid on stream 0'' []
      else and_then (check (ensure_incoming_stream_available sid)) (\<lambda>_.
           and_then (observe_peer_headers sid) (\<lambda>_.
           modify (mark_end_stream sid fl))))"

definition dispatch_rst_stream :: "u32 \<Rightarrow> bytes \<Rightarrow> unit h2_proc" where
  "dispatch_rst_stream sid payload s =
     (if sid = STREAM_INIT then conn_err ''RST_STREAM frame is not valid on stream 0'' [] s
      else if length payload \<noteq> 4
      then conn_err ''RST_STREAM payload must be 4 bytes, got {}'' [int (length payload)] s
      else if \<not> is_known_stream sid s \<and> sid \<notin> peer_open_streams s \<and> sid \<notin> file_stream_candidates s \<and>
              sid \<notin> closed_streams s \<and> reset_streams s sid = None
      then conn_err ''RST_STREAM received for idle stream {}'' [uint sid] s
      else let s1 = clear_stream_buffer sid s;
               s2 = s1\<lparr>outbound_stream_windows := (outbound_stream_windows s1)(sid := None)\<rparr>
           in (Ok (), record_reset_stream sid (from_be32 payload) s2))"

definition dispatch_frame_inner :: "raw_frame \<Rightarrow> unit h2_proc" where
  "dispatch_frame_inner frame =
     (let sid = rf_stream_id frame; payload = rf_payload frame; fl = rf_flags frame in
      if rf_frame_type frame = FRAME_DATA then dispatch_data sid fl payload
      else if rf_frame_type frame = FRAME_HEADERS then dispatch_headers sid fl
      else if rf_frame_type frame = FRAME_SETTINGS then
        if sid \<noteq> STREAM_INIT then conn_err ''SETTINGS frame must use stream 0'' []
        else process_settings fl payload
      else if rf_frame_type frame = FRAME_WINDOW_UPDATE then process_window_update sid payload
      else if rf_frame_type frame = FRAME_RST_STREAM then dispatch_rst_stream sid payload
      else if rf_frame_type frame = FRAME_GOAWAY then process_goaway sid payload
      else ret ())"

definition dispatch_frame :: "raw_frame \<Rightarrow> unit h2_proc" where
  "dispatch_frame frame = and_then (check ensure_connection_open) (\<lambda>_. dispatch_frame_inner frame)"

definition check_pending_frames :: "unit h2_proc" where
  "check_pending_frames s =
     (if length (pending_data_frames s) \<ge> MAX_PENDING_DATA_FRAMES
      then conn_err ''too many pending DATA frames while waiting for outbound capacity: limit {MAX_PENDING_DATA_FRAMES}''
             [int MAX_PENDING_DATA_FRAMES] s
      else (Ok (), s))"

definition push_pending_frame :: "data_frame \<Rightarrow> h2 \<Rightarrow> h2" where
  "push_pending_frame f s = s\<lparr>pending_data_frames := pending_data_frames s @ [f]\<rparr>"

definition queue_incoming_data_frame :: "raw_frame \<Rightarrow> unit h2_proc" where
  "queue_incoming_data_frame frame =
     (let sid = rf_stream_id frame; payload = rf_payload frame; fl = rf_flags frame in
      if sid = STREAM_INIT then conn_err ''DATA frame is not valid on stream 0'' []
      else and_then (check (ensure_incoming_stream_available sid)) (\<lambda>_.
           and_then (observe_peer_data_stream sid payload) (\<lambda>_.
           and_then check_pending_frames (\<lambda>_.
           and_then (reserve_stream_buffer sid (length payload)) (\<lambda>_.
           and_then (modify (push_pending_frame
               \<lparr>df_stream_id = sid, df_flags = fl, df_payload = payload\<rparr>)) (\<lambda>_.
           and_then (modify (mark_end_stream sid fl)) (\<lambda>_.
           replenish_receive_window sid (length payload))))))))"

section \<open>What a frame uses up\<close>

definition input_left :: "h2 \<Rightarrow> nat" where
  "input_left s = rx_size (rx (stream s)) + (if 9 \<le> length (partial_header s) then 1 else 0)"

text \<open>The parts of the state the frame reader owns: no other operation touches them.\<close>

definition reader_part :: "h2 \<Rightarrow> rx_event list \<times> bytes \<times> (byte \<times> byte \<times> u32 \<times> nat) option \<times> bytes" where
  "reader_part s = (rx (stream s), partial_header s, pending_frame_meta s, payload_buf s)"

lemma input_left_reader_part: "reader_part s = reader_part t \<Longrightarrow> input_left s = input_left t"
  by (simp add: reader_part_def input_left_def)

named_theorems reader_part_simps

lemma reader_part_update [simp]:
  "reader_part (s\<lparr>client_server_buf := x0\<rparr>) = reader_part s"
  "reader_part (s\<lparr>server_client_buf := x1\<rparr>) = reader_part s"
  "reader_part (s\<lparr>stream_bufs := x2\<rparr>) = reader_part s"
  "reader_part (s\<lparr>locally_open_streams := x3\<rparr>) = reader_part s"
  "reader_part (s\<lparr>client_server_open := x4\<rparr>) = reader_part s"
  "reader_part (s\<lparr>server_client_open := x5\<rparr>) = reader_part s"
  "reader_part (s\<lparr>closed_streams := x6\<rparr>) = reader_part s"
  "reader_part (s\<lparr>closed_unknown_order := x7\<rparr>) = reader_part s"
  "reader_part (s\<lparr>pending_window_updates := x8\<rparr>) = reader_part s"
  "reader_part (s\<lparr>buffered_bytes := x9\<rparr>) = reader_part s"
  "reader_part (s\<lparr>peer_open_streams := x10\<rparr>) = reader_part s"
  "reader_part (s\<lparr>announced_file_streams := x11\<rparr>) = reader_part s"
  "reader_part (s\<lparr>file_stream_candidates := x12\<rparr>) = reader_part s"
  "reader_part (s\<lparr>file_stream_candidate_data := x13\<rparr>) = reader_part s"
  "reader_part (s\<lparr>outbound_connection_window := x14\<rparr>) = reader_part s"
  "reader_part (s\<lparr>peer_initial_window_size := x15\<rparr>) = reader_part s"
  "reader_part (s\<lparr>outbound_stream_windows := x16\<rparr>) = reader_part s"
  "reader_part (s\<lparr>outbound_max_frame_size := x17\<rparr>) = reader_part s"
  "reader_part (s\<lparr>pending_data_frames := x18\<rparr>) = reader_part s"
  "reader_part (s\<lparr>reset_streams := x19\<rparr>) = reader_part s"
  "reader_part (s\<lparr>reset_unknown_order := x20\<rparr>) = reader_part s"
  "reader_part (s\<lparr>highest_peer_stream_id := x21\<rparr>) = reader_part s"
  "reader_part (s\<lparr>goaway := x22\<rparr>) = reader_part s"
  "reader_part (s\<lparr>connection_error := x23\<rparr>) = reader_part s"
  "reader_part (s\<lparr>pending_write := x24\<rparr>) = reader_part s"
  "reader_part (s\<lparr>message_read_in_progress := x25\<rparr>) = reader_part s"
  "reader_part (s\<lparr>open_stream_in_progress := x26\<rparr>) = reader_part s"
  "reader_part (s\<lparr>window_update_in_progress := x27\<rparr>) = reader_part s"
  "rx k = rx (stream s) \<Longrightarrow> reader_part (s\<lparr>stream := k\<rparr>) = reader_part s"
  by (simp_all add: reader_part_def)

lemma conn_err_reader [reader_part_simps]: "reader_part (snd (conn_err msg args s)) = reader_part s"
  by (simp add: conn_err_def)

lemma proto_err_run [proc_simps]: "proto_err msg args s = (Err (H2Protocol msg args), s)"
  by (simp add: proto_err_def proc_simps)

lemma tombstone_reader [reader_part_simps]:
  "reader_part (remove_closed_stream_tombstone sid s) = reader_part s"
  "reader_part (drop_stream_bytes sid s) = reader_part s"
  "reader_part (mark_end_stream sid fl s) = reader_part s"
  "reader_part (record_reset_stream sid code s) = reader_part s"
  "reader_part (extend_stream_buffer sid bs s) = reader_part s"
  "reader_part (push_pending_frame f s) = reader_part s"
  by (simp_all add: remove_closed_stream_tombstone_def drop_stream_bytes_def mark_end_stream_def
      record_reset_stream_def extend_stream_buffer_def push_pending_frame_def Let_def split: list.splits)

lemma clear_reader [reader_part_simps]: "reader_part (clear_stream_buffer sid s) = reader_part s"
  by (simp add: clear_stream_buffer_def Let_def reader_part_simps)

lemma registry_reader [reader_part_simps]:
  "reader_part (snd (reserve_stream_buffer sid n s)) = reader_part s"
  "reader_part (snd (track_peer_stream sid s)) = reader_part s"
  "reader_part (snd (adopt_file_stream sid s)) = reader_part s"
  "reader_part (snd (register_file_stream_candidate sid s)) = reader_part s"
  by (simp_all add: reserve_stream_buffer_def track_peer_stream_def adopt_file_stream_def
      register_file_stream_candidate_def proc_simps reader_part_simps split: sum.splits)

lemma observe_reader [reader_part_simps]:
  "reader_part (snd (observe_peer_headers sid s)) = reader_part s"
  "reader_part (snd (observe_peer_data_stream sid payload s)) = reader_part s"
  by (simp_all add: observe_peer_headers_def observe_peer_data_stream_def proc_simps reader_part_simps Let_def)

lemma write_reader [reader_part_simps]:
  "reader_part (snd (write_frame_bytes bs s)) = reader_part s"
  "reader_part (snd (on_h2 sock_flush s)) = reader_part s"
  by (simp_all add: write_frame_bytes_def on_h2_def on_stream_state sock_flush_def
      split: prod.splits list.splits fx_event.splits)

lemma finish_reader [reader_part_simps]: "reader_part (snd (finish_pending_write s)) = reader_part s"
  by (simp add: finish_pending_write_def reader_part_simps split: option.splits)

lemma flow_reader [reader_part_simps]:
  "reader_part (snd (apply_initial_window iw s)) = reader_part s"
  "reader_part (apply_max_frame_size mf s) = reader_part s"
  "reader_part (snd (process_goaway sid payload s)) = reader_part s"
  "reader_part (snd (consume_outbound_window sid n s)) = reader_part s"
  "reader_part (snd (settle_window sid n s)) = reader_part s"
  by (simp_all add: apply_initial_window_def apply_max_frame_size_def process_goaway_def
      consume_outbound_window_def settle_window_def proc_simps Let_def reader_part_simps
      split: option.splits sum.splits)

lemma window_update_reader [reader_part_simps]:
  "reader_part (snd (process_window_update sid payload s)) = reader_part s"
  unfolding process_window_update_def Let_def
  by (simp add: proc_simps reader_part_simps split: option.split)

lemma rst_reader [reader_part_simps]:
  "reader_part (snd (dispatch_rst_stream sid payload s)) = reader_part s"
  by (simp add: dispatch_rst_stream_def reader_part_simps Let_def)

lemma check_pending_reader [reader_part_simps]:
  "reader_part (snd (check_pending_frames s)) = reader_part s"
  by (simp add: check_pending_frames_def reader_part_simps)

lemma untouched_reader [keeps_intros]:
  "untouched reader_part (conn_err msg args)"
  "untouched reader_part (proto_err msg args)"
  "untouched reader_part finish_pending_write"
  "untouched reader_part (write_frame_bytes bs)"
  "untouched reader_part (on_h2 sock_flush)"
  "untouched reader_part (reserve_stream_buffer sid n)"
  "untouched reader_part (observe_peer_headers sid)"
  "untouched reader_part (observe_peer_data_stream sid payload)"
  "untouched reader_part (apply_initial_window iw)"
  "untouched reader_part (process_window_update sid payload)"
  "untouched reader_part (process_goaway sid payload)"
  "untouched reader_part (consume_outbound_window sid n)"
  "untouched reader_part (dispatch_rst_stream sid payload)"
  "untouched reader_part check_pending_frames"
  by (simp_all add: untouched_def reader_part_simps proc_simps)

lemma untouched_write_all [keeps_intros]: "untouched reader_part (write_all_tracked bs)"
  by (simp add: write_all_tracked_def keeps_intros)

lemma untouched_settings [keeps_intros]: "untouched reader_part (process_settings fl payload)"
  unfolding process_settings_def
  by (auto simp: reader_part_simps intro!: keeps_intros split: sum.splits)

lemma untouched_write_frames [keeps_intros]: "untouched reader_part (write_frames fs)"
  by (induction fs) (auto intro!: keeps_intros)

lemma untouched_emit [keeps_intros]: "untouched reader_part (emit_window_updates fs)"
  unfolding emit_window_updates_def by (auto intro!: keeps_intros)

lemma untouched_replenish [keeps_intros]: "untouched reader_part (replenish_receive_window sid n)"
proof -
  have "reader_part (snd (emit_window_updates fs t)) = reader_part t" for fs t
    using untouched_emit by (simp add: untouched_def)
  moreover have "reader_part t = reader_part s" if "settle_window i n s = (fs, t)" for i n s fs t
    using flow_reader(5) [of i n s] that by simp
  ultimately show ?thesis
    unfolding replenish_receive_window_def
    by (intro keeps_intros untouchedI)
      (auto simp: reader_part_simps Let_def split: prod.splits if_splits)
qed

lemma untouched_append [keeps_intros]: "untouched reader_part (append_stream_data sid payload)"
  unfolding append_stream_data_def by (auto simp: reader_part_simps intro!: keeps_intros)

lemma untouched_dispatch [keeps_intros]: "untouched reader_part (dispatch_frame frame)"
  unfolding dispatch_frame_def dispatch_frame_inner_def dispatch_data_def dispatch_headers_def Let_def
  by (auto simp: reader_part_simps intro!: keeps_intros)

lemma untouched_queue [keeps_intros]: "untouched reader_part (queue_incoming_data_frame frame)"
  unfolding queue_incoming_data_frame_def Let_def
  by (auto simp: reader_part_simps intro!: keeps_intros)

end
