(* ===== verification/H2_Ops.thy ===== *)
theory H2_Ops
  imports H2_Framer
begin

text \<open>
  The looping operations of the HTTP/2 framer. Each is a recursion on the state with
  \<open>input_left\<close> as its measure: a frame that was read used up input, dispatching it uses none.
  So every operation returns on every transport script.
\<close>

section \<open>Reading a frame uses up input\<close>

lemma h2_io_outcome_Ok [simp]: "h2_io_outcome r = Ok x \<longleftrightarrow> r = Ok x"
  by (simp add: h2_io_outcome_def split: outcome.splits)

lemma fill_header_left:
  assumes "fill_header s = (Ok x, t)"
  shows "rx_size (rx (stream t)) + (if length (partial_header s) < 9 then 1 else 0) \<le> rx_size (rx (stream s))"
proof -
  obtain r h es where f: "rx_fill 9 (partial_header s) (rx (stream s)) = (r, h, es)"
    by (metis prod_cases3)
  show ?thesis
  proof (cases "length (partial_header s) < 9")
    case True
    then show ?thesis
      using rx_fill_spec [OF f] assms f by (auto simp: fill_header_def)
  next
    case False
    then have "es = rx (stream s)" using f by (cases "rx (stream s)") auto
    then show ?thesis using assms f False by (auto simp: fill_header_def)
  qed
qed

lemma rx_fill_size_le: "rx_fill n buf es = (r, buf', es') \<Longrightarrow> rx_size es' \<le> rx_size es"
  using rx_fill_spec [of n buf es r buf' es'] by (cases "length buf \<le> n"; cases es) auto

lemma fill_payload_left: "fill_payload n s = (Ok x, t) \<Longrightarrow> rx_size (rx (stream t)) \<le> rx_size (rx (stream s))"
  by (auto simp: fill_payload_def dest: rx_fill_size_le split: if_splits prod.splits)

lemma frame_meta_left: "frame_meta s = (Ok m, t) \<Longrightarrow> stream t = stream s"
  by (auto simp: frame_meta_def conn_err_def split: option.splits prod.splits if_splits)

lemma read_raw_frame_left: "read_raw_frame s = (Ok f, t) \<Longrightarrow> input_left t < input_left s"
proof -
  assume "read_raw_frame s = (Ok f, t)"
  then obtain x1 s2 x2 s3 m s4 x3 s5 where
    fin: "finish_pending_write s = (Ok x1, s2)" and head: "fill_header s2 = (Ok x2, s3)"
    and meta: "frame_meta s3 = (Ok m, s4)" and pay: "fill_payload (snd (snd (snd m))) s4 = (Ok x3, s5)"
    and out: "finish_frame m s5 = (Ok f, t)"
    by (auto simp: read_raw_frame_def and_then_Ok_iff check_Ok)
  have rp: "reader_part s2 = reader_part s" using finish_reader [of s] fin by simp
  have "input_left t = rx_size (rx (stream s5))"
    using out by (auto simp: finish_frame_def input_left_def split: prod.splits)
  also have "\<dots> \<le> rx_size (rx (stream s3))" using fill_payload_left [OF pay] frame_meta_left [OF meta] by simp
  also have "\<dots> < input_left s2" using fill_header_left [OF head] by (auto simp: input_left_def split: if_splits)
  also have "\<dots> = input_left s" by (rule input_left_reader_part [OF rp])
  finally show ?thesis .
qed

lemma dispatch_left: "dispatch_frame f s = (r, t) \<Longrightarrow> input_left t = input_left s"
  using untouchedD [OF untouched_dispatch] by (blast intro: input_left_reader_part)

lemma queue_left: "queue_incoming_data_frame f s = (r, t) \<Longrightarrow> input_left t = input_left s"
  using untouchedD [OF untouched_queue] by (blast intro: input_left_reader_part)

lemma flush_left: "on_h2 sock_flush s = (r, t) \<Longrightarrow> input_left t = input_left s"
  using untouchedD [OF untouched_reader(5)] by (blast intro: input_left_reader_part)

section \<open>Reading streams\<close>

definition check_not_ended :: "u32 \<Rightarrow> nat \<Rightarrow> h2 \<Rightarrow> h2_error + unit" where
  "check_not_ended sid n s =
     (if sid \<in> closed_streams s
      then Inl (H2Protocol ''stream {stream_id} ended before {n} bytes were available'' [uint sid, int n])
      else Inr ())"

function read_stream_loop :: "u32 \<Rightarrow> nat \<Rightarrow> bytes h2_proc" where
  "read_stream_loop sid n s =
     (if stream_buffer_len sid s < n then
        and_then (check (ensure_stream_available sid)) (\<lambda>_.
        and_then (check (check_not_ended sid n)) (\<lambda>_.
        and_then (check (ensure_peer_stream_not_reused sid)) (\<lambda>_.
        and_then read_raw_frame (\<lambda>frame.
        and_then (dispatch_frame frame) (\<lambda>_ t. read_stream_loop sid n t))))) s
      else take_stream_bytes sid n s)"
  by pat_completeness auto
termination
  by (relation "measure (\<lambda>(sid, n, s). input_left s)")
    (auto simp: check_Ok dest!: dispatch_left read_raw_frame_left)

declare read_stream_loop.simps [simp del]

definition read_stream :: "u32 \<Rightarrow> nat \<Rightarrow> bytes h2_proc" where
  "read_stream sid n =
     and_then (check (ensure_stream_available sid)) (\<lambda>_.
     and_then finish_pending_write (\<lambda>_.
     and_then (check (ensure_peer_stream_not_reused sid)) (\<lambda>_.
     and_then (modify drain_pending_data_frames) (\<lambda>_.
     read_stream_loop sid n))))"

definition read_server_client :: "nat \<Rightarrow> bytes h2_proc" where
  "read_server_client n = read_stream STREAM_SERVER_CLIENT n"

definition read_client_server :: "nat \<Rightarrow> bytes h2_proc" where
  "read_client_server n = read_stream STREAM_CLIENT_SERVER n"

section \<open>The next DATA frame\<close>

definition pop_pending_frame :: "data_frame h2_proc" where
  "pop_pending_frame s = (case pending_data_frames s of
       [] \<Rightarrow> (Err (H2Protocol ''queued DATA frame must be present'' []), s)
     | f # fs \<Rightarrow> (Ok f, s\<lparr>pending_data_frames := fs,
                        buffered_bytes := buffered_bytes s - length (df_payload f)\<rparr>))"

definition check_goaway_error :: "h2 \<Rightarrow> h2_error + unit" where
  "check_goaway_error s = (case goaway s of
       Some g \<Rightarrow> if error_code g \<noteq> 0
                 then Inl (H2Protocol ''peer sent GOAWAY with error code {}'' [uint (error_code g)])
                 else Inr ()
     | None \<Rightarrow> Inr ())"

definition reset_error :: "u32 \<Rightarrow> data_frame h2_proc" where
  "reset_error sid s =
     proto_err ''stream {stream_id} was reset by peer (error code {error_code})''
       [uint sid, uint (case reset_streams s sid of Some c \<Rightarrow> c | None \<Rightarrow> 0)] s"

text \<open>
  The frame queued last is popped from the front of the queue, as in the source: the queue was
  empty when the loop was entered and no other branch of the loop fills it.
\<close>

function next_data_loop :: "data_frame h2_proc" where
  "next_data_loop s =
     and_then read_raw_frame (\<lambda>frame t.
       if rf_frame_type frame = FRAME_DATA then
         if rf_stream_id frame = STREAM_INIT then conn_err ''DATA frame is not valid on stream 0'' [] t
         else and_then (queue_incoming_data_frame frame) (\<lambda>_. pop_pending_frame) t
       else if rf_frame_type frame = FRAME_GOAWAY then
         and_then (dispatch_frame frame) (\<lambda>_.
         and_then (check check_goaway_error) (\<lambda>_ u. next_data_loop u)) t
       else if rf_frame_type frame = FRAME_RST_STREAM then
         and_then (dispatch_frame frame) (\<lambda>_. reset_error (rf_stream_id frame)) t
       else and_then (dispatch_frame frame) (\<lambda>_ u. next_data_loop u) t) s"
  by pat_completeness auto
termination
  by (relation "measure input_left") (auto simp: check_Ok dest!: dispatch_left read_raw_frame_left)

declare next_data_loop.simps [simp del]

definition read_next_data_frame :: "data_frame h2_proc" where
  "read_next_data_frame =
     and_then (check ensure_connection_open) (\<lambda>_.
     and_then finish_pending_write (\<lambda>_ s.
     if pending_data_frames s \<noteq> [] then pop_pending_frame s else next_data_loop s))"

section \<open>Selecting a stream with an XPC message\<close>

text \<open>
  The ids with buffered bytes, in ascending order.
\<close>

definition buffered_stream_ids :: "h2 \<Rightarrow> u32 list" where
  "buffered_stream_ids s = sorted_list_of_set
     ((if client_server_buf s \<noteq> [] then {STREAM_CLIENT_SERVER} else {}) \<union>
      (if server_client_buf s \<noteq> [] then {STREAM_SERVER_CLIENT} else {}) \<union>
      {sid \<in> dom (stream_bufs s). stream_bufs s sid \<noteq> Some []})"

definition h2_body_len :: "u64 \<Rightarrow> u32 \<Rightarrow> h2_error + nat" where
  "h2_body_len declared fl =
     (case checked_xpc_body_len declared (xpc_body_limit_for_flags fl) of
        Inl (Tls msg args) \<Rightarrow> Inl (H2Protocol msg (map int args))
      | Inr n \<Rightarrow> Inr n)"

definition stream_has_ready_xpc_message :: "u32 \<Rightarrow> h2 \<Rightarrow> h2_error + bool" where
  "stream_has_ready_xpc_message sid s = (case stream_buffer sid s of
       None \<Rightarrow> Inr False
     | Some buffer \<Rightarrow>
         if length buffer < 24 then Inr False
         else if from_le32 (take 4 buffer) \<noteq> WRAPPER_MAGIC then Inr True
         else attempt (h2_body_len (from_le64 (take 8 (drop 8 buffer))) (from_le32 (take 4 (drop 4 buffer)))) (\<lambda>body_len.
              attempt (ok_or (H2Protocol ''XPC message length overflow while selecting a stream'' [])
                (usize_checked_add 24 body_len)) (\<lambda>total_len.
              Inr (length buffer \<ge> total_len \<or>
                   total_len > MAX_BUFFERED_BYTES_PER_STREAM - MAX_FRAME_PAYLOAD))))"

fun find_ready :: "(u32 \<Rightarrow> bool) \<Rightarrow> (u32 \<Rightarrow> h2_error + bool) \<Rightarrow> u32 list \<Rightarrow> h2_error + u32 option" where
  "find_ready skip test [] = Inr None"
| "find_ready skip test (sid # sids) =
     (if skip sid then find_ready skip test sids
      else attempt (test sid) (\<lambda>b. if b then Inr (Some sid) else find_ready skip test sids))"

definition first_ready_xpc_stream :: "h2 \<Rightarrow> h2_error + u32 option" where
  "first_ready_xpc_stream s =
     find_ready (\<lambda>_. False) (\<lambda>sid. stream_has_ready_xpc_message sid s) (buffered_stream_ids s)"

definition first_unfinished_closed_stream :: "h2 \<Rightarrow> h2_error + u32 option" where
  "first_unfinished_closed_stream s =
     find_ready (\<lambda>sid. stream_buffer sid s = None \<or> stream_buffer sid s = Some [])
       (\<lambda>sid. attempt (stream_has_ready_xpc_message sid s) (\<lambda>b. Inr (\<not> b)))
       (sorted_list_of_set (closed_streams s))"

definition select_stream :: "h2 \<Rightarrow> h2_error + u32 option" where
  "select_stream s =
     attempt (first_ready_xpc_stream s) (\<lambda>r. case r of
         Some sid \<Rightarrow> Inr (Some sid)
       | None \<Rightarrow> first_unfinished_closed_stream s)"

function buffer_next_loop :: "u32 h2_proc" where
  "buffer_next_loop s =
     and_then read_raw_frame (\<lambda>frame.
     and_then (dispatch_frame frame) (\<lambda>_.
     and_then (check select_stream) (\<lambda>r t. case r of
         Some sid \<Rightarrow> (Ok sid, t)
       | None \<Rightarrow> buffer_next_loop t))) s"
  by pat_completeness auto
termination
  by (relation "measure input_left") (auto simp: check_Ok dest!: dispatch_left read_raw_frame_left)

declare buffer_next_loop.simps [simp del]

definition buffer_next_data_stream :: "u32 h2_proc" where
  "buffer_next_data_stream =
     and_then (check ensure_connection_open) (\<lambda>_.
     and_then finish_pending_write (\<lambda>_.
     and_then (modify (\<lambda>s. if pending_data_frames s \<noteq> [] then drain_pending_data_frames s else s)) (\<lambda>_.
     and_then (check select_stream) (\<lambda>r. case r of
         Some sid \<Rightarrow> ret sid
       | None \<Rightarrow> buffer_next_loop))))"

section \<open>Opening and writing streams\<close>

definition locally_open :: "u32 \<Rightarrow> h2 \<Rightarrow> bool" where
  "locally_open sid s =
     (if sid = STREAM_CLIENT_SERVER then client_server_open s
      else if sid = STREAM_SERVER_CLIENT then server_client_open s
      else sid \<in> locally_open_streams s)"

definition register_open_stream :: "u32 \<Rightarrow> h2 \<Rightarrow> h2" where
  "register_open_stream sid s =
     (let s1 = s\<lparr>outbound_stream_windows := (outbound_stream_windows s)(sid \<mapsto> peer_initial_window_size s)\<rparr>;
          s2 = (if sid = STREAM_CLIENT_SERVER then s1\<lparr>client_server_open := True\<rparr>
                else if sid = STREAM_SERVER_CLIENT then s1\<lparr>server_client_open := True\<rparr>
                else s1\<lparr>locally_open_streams := insert sid (locally_open_streams s1),
                        peer_open_streams := peer_open_streams s1 - {sid},
                        announced_file_streams := announced_file_streams s1 - {sid},
                        file_stream_candidates := file_stream_candidates s1 - {sid},
                        file_stream_candidate_data := (file_stream_candidate_data s1)(sid := None),
                        stream_bufs := (stream_bufs s1)(sid \<mapsto>
                          (case stream_bufs s1 sid of Some b \<Rightarrow> b | None \<Rightarrow> []))\<rparr>)
      in s2\<lparr>open_stream_in_progress := None\<rparr>)"

definition check_can_open :: "u32 \<Rightarrow> h2 \<Rightarrow> h2_error + unit" where
  "check_can_open sid s =
     (if sid \<in> closed_streams s
      then Inl (H2Protocol ''cannot open stream {stream_id} after peer END_STREAM'' [uint sid])
      else Inr ())"

definition open_stream :: "u32 \<Rightarrow> unit h2_proc" where
  "open_stream sid =
     and_then (check ensure_connection_open) (\<lambda>_.
     and_then finish_pending_write (\<lambda>_.
     and_then (if sid = STREAM_INIT \<or> sid > 0x7FFFFFFF
               then conn_err ''invalid local stream ID {stream_id}'' [uint sid] else ret ()) (\<lambda>_.
     and_then (check (ensure_stream_available sid)) (\<lambda>_.
     and_then (check (check_can_open sid)) (\<lambda>_ s.
     if locally_open sid s then (Ok (), s)
     else case goaway s of
       Some g \<Rightarrow> proto_err
         ''cannot open stream {stream_id} after peer GOAWAY (last stream {}, error code {})''
         [uint sid, uint (last_stream_id g), uint (error_code g)] s
     | None \<Rightarrow>
         and_then (modify (\<lambda>s. s\<lparr>open_stream_in_progress := Some sid\<rparr>)) (\<lambda>_.
         and_then (write_all_tracked (build_headers_frame sid)) (\<lambda>_.
         and_then (on_h2 sock_flush) (\<lambda>_.
         modify (register_open_stream sid)))) s)))))"

function wait_for_outbound_capacity :: "u32 \<Rightarrow> unit h2_proc" where
  "wait_for_outbound_capacity sid s =
     and_then (check (ensure_stream_available sid)) (\<lambda>_.
     and_then (check (outbound_budget sid)) (\<lambda>budget t.
     if budget > 0 then (Ok (), t)
     else and_then (on_h2 sock_flush) (\<lambda>_.
          and_then read_raw_frame (\<lambda>frame.
          and_then (if rf_frame_type frame = FRAME_DATA then queue_incoming_data_frame frame
                    else dispatch_frame frame) (\<lambda>_ u.
          wait_for_outbound_capacity sid u))) t)) s"
  by pat_completeness auto
termination
  by (relation "measure (\<lambda>(sid, s). input_left s)")
    (auto simp: check_Ok dest!: dispatch_left queue_left read_raw_frame_left flush_left split: if_splits)

declare wait_for_outbound_capacity.simps [simp del]

lemma wait_left:
  "wait_for_outbound_capacity sid s = (Ok x, t) \<Longrightarrow>
   input_left t \<le> input_left s \<and> (outbound_budget sid s = Inr 0 \<longrightarrow> input_left t < input_left s)"
proof (induction sid s arbitrary: t rule: wait_for_outbound_capacity.induct)
  case (1 sid s)
  from "1.prems" obtain budget where ok: "ensure_stream_available sid s = Inr ()" "outbound_budget sid s = Inr budget"
    by (subst (asm) wait_for_outbound_capacity.simps) (auto simp: and_then_Ok_iff check_Ok)
  show ?case
  proof (cases "budget > 0")
    case True
    then show ?thesis
      using "1.prems" ok
      by (subst (asm) wait_for_outbound_capacity.simps) (auto simp: and_then_Ok_iff check_Ok)
  next
    case False
    then obtain x1 s1 f s2 x3 s3 where fl: "on_h2 sock_flush s = (Ok x1, s1)"
      and rd: "read_raw_frame s1 = (Ok f, s2)"
      and dq: "(if rf_frame_type f = 0 then queue_incoming_data_frame f else dispatch_frame f) s2 = (Ok x3, s3)"
      and rec: "wait_for_outbound_capacity sid s3 = (Ok x, t)"
      using "1.prems" ok
      by (subst (asm) wait_for_outbound_capacity.simps) (auto simp: and_then_Ok_iff check_Ok)
    have "input_left s3 = input_left s2"
      using dq dispatch_left [of f s2] queue_left [of f s2] by (auto split: if_splits)
    moreover have "input_left t \<le> input_left s3"
      using "1.IH" [of "()" s budget s x1 s1 f s2 x3 s3 t] ok False fl rd dq rec by (simp add: check_Ok)
    ultimately show ?thesis
      using read_raw_frame_left [OF rd] flush_left [OF fl] by simp
  qed
qed

lemma consume_left: "consume_outbound_window sid n s = (r, t) \<Longrightarrow> input_left t = input_left s"
  using untouchedD [OF untouched_reader(12)] by (blast intro: input_left_reader_part)

lemma write_all_left: "write_all_tracked bs s = (r, t) \<Longrightarrow> input_left t = input_left s"
  using untouchedD [OF untouched_write_all] by (blast intro: input_left_reader_part)

text \<open>
  The loop of \<open>write_stream\<close> over the data still to send: spend what the windows allow, wait
  for the peer when they are exhausted.
\<close>

function write_data_loop :: "u32 \<Rightarrow> bytes \<Rightarrow> unit h2_proc" where
  "write_data_loop sid bs s =
     (if bs = [] then (Ok (), s)
      else and_then (check (ensure_stream_available sid)) (\<lambda>_.
           and_then (check (outbound_budget sid)) (\<lambda>budget t.
           if budget = 0 then
             and_then (wait_for_outbound_capacity sid) (\<lambda>_ u. write_data_loop sid bs u) t
           else
             and_then (consume_outbound_window sid (length (take budget bs))) (\<lambda>_.
             and_then (write_all_tracked (build_data_frame sid (take budget bs))) (\<lambda>_ u.
             write_data_loop sid (drop budget bs) u)) t)) s)"
  by pat_completeness auto
termination
proof (relation "measures [\<lambda>(sid, bs, s). input_left s, \<lambda>(sid, bs, s). length bs]", goal_cases)
  case 1
  then show ?case by simp
next
  case (2 sid bs s x t budget t' x' u)
  then show ?case using wait_left [of sid t' x' u] by (auto simp: check_Ok)
next
  case (3 sid bs s x t budget t' x' u x'' u')
  then show ?case by (auto simp: check_Ok dest!: consume_left write_all_left)
qed

declare write_data_loop.simps [simp del]

definition write_stream :: "u32 \<Rightarrow> bytes \<Rightarrow> unit h2_proc" where
  "write_stream sid bs =
     and_then (open_stream sid) (\<lambda>_.
     and_then (check (ensure_stream_available sid)) (\<lambda>_.
     and_then (if bs = [] then write_all_tracked (build_data_frame sid bs) else write_data_loop sid bs) (\<lambda>_.
     on_h2 sock_flush)))"

definition write_client_server :: "bytes \<Rightarrow> unit h2_proc" where
  "write_client_server bs = write_stream STREAM_CLIENT_SERVER bs"

definition write_server_client :: "bytes \<Rightarrow> unit h2_proc" where
  "write_server_client bs = write_stream STREAM_SERVER_CLIENT bs"

section \<open>The handshake\<close>

function read_until_settings_ack_needed :: "unit h2_proc" where
  "read_until_settings_ack_needed s =
     and_then read_raw_frame (\<lambda>frame.
     and_then (dispatch_frame frame) (\<lambda>_ t.
     if rf_frame_type frame = FRAME_SETTINGS \<and> rf_flags frame AND FLAG_SETTINGS_ACK = 0
     then (Ok (), t) else read_until_settings_ack_needed t)) s"
  by pat_completeness auto
termination
  by (relation "measure input_left") (auto dest!: dispatch_left read_raw_frame_left)

declare read_until_settings_ack_needed.simps [simp del]

definition connect_write :: "(sock, io_error, unit) proc" where
  "connect_write =
     and_then (sock_write_all H2_PREFACE) (\<lambda>_.
     and_then (sock_write_all (build_settings_frame
       [(SETTINGS_MAX_CONCURRENT_STREAMS, 100), (SETTINGS_INITIAL_WINDOW_SIZE, of_nat INITIAL_WINDOW_SIZE)])) (\<lambda>_.
     and_then (sock_write_all (build_window_update_frame STREAM_INIT INITIAL_WINDOW_INCREMENT)) (\<lambda>_.
     sock_flush)))"

text \<open>The result of the handshake, with the transport it leaves.\<close>

definition connect :: "sock \<Rightarrow> (h2_error, h2) outcome \<times> sock" where
  "connect k = (case connect_write k of
       (Ok _, k1) \<Rightarrow> (case read_until_settings_ack_needed (H2Framer_new k1) of
           (Ok _, f) \<Rightarrow> (Ok f, stream f)
         | (Err e, f) \<Rightarrow> (Err e, stream f)
         | (Cancelled, f) \<Rightarrow> (Cancelled, stream f))
     | (Err e, k1) \<Rightarrow> (Err (H2Io e), k1)
     | (Cancelled, k1) \<Rightarrow> (Cancelled, k1))"

text \<open>
  With a deadline, a stage that is still suspended when it passes is dropped and reported as a
  timeout: the script's cancellation point becomes an error.
\<close>

definition connect_with_deadline :: "sock \<Rightarrow> (h2_error, h2) outcome \<times> sock" where
  "connect_with_deadline k = (case connect_write k of
       (Ok _, k1) \<Rightarrow> (case read_until_settings_ack_needed (H2Framer_new k1) of
           (Ok _, f) \<Rightarrow> (Ok f, stream f)
         | (Err e, f) \<Rightarrow> (Err e, stream f)
         | (Cancelled, f) \<Rightarrow> (Err (H2Io TimedOut), stream f))
     | (Err e, k1) \<Rightarrow> (Err (H2Io e), k1)
     | (Cancelled, k1) \<Rightarrow> (Err (H2Io TimedOut), k1))"

end
