(* ===== verification/H2_Invariants.thy ===== *)
theory H2_Invariants
  imports H2_Ops
begin

text \<open>
  What it takes for a property of the framer's state to survive every operation, as two
  interfaces. \<open>framer_operations\<close> lists what each state-changing step must keep and proves once
  that then every operation keeps it, whatever the peer sends and wherever it is cancelled;
  \<open>framer_invariant\<close> adds the mark that the XPC layer sets on the framer.
  \<open>registry_invariant\<close> is the special case of a property that does not look at the transport.
\<close>

section \<open>Running handlers\<close>

text \<open>For a recursion through the state: \<open>keeps\<close> in one given state.\<close>

definition keeps_at :: "('s \<Rightarrow> bool) \<Rightarrow> ('s, 'e, 'a) proc \<Rightarrow> 's \<Rightarrow> bool" where
  "keeps_at I m s \<longleftrightarrow> (I s \<longrightarrow> I (snd (m s)))"

named_theorems at_intros

lemma keeps_at_all: "(\<And>s. keeps_at I m s) \<Longrightarrow> keeps I m"
  by (simp add: keeps_def keeps_at_def)

lemma keeps_snd: "keeps I m \<Longrightarrow> I s \<Longrightarrow> I (snd (m s))"
  by (simp add: keeps_def)

lemma at_keeps: "keeps I m \<Longrightarrow> keeps_at I m s"
  by (simp add: keeps_def keeps_at_def)

lemma at_and_then [at_intros]:
  "keeps_at I m s \<Longrightarrow> (\<And>x t. m s = (Ok x, t) \<Longrightarrow> keeps_at I (f x) t) \<Longrightarrow> keeps_at I (and_then m f) s"
  by (auto simp: keeps_at_def and_then_def split: prod.splits outcome.splits)

lemma at_if [at_intros]:
  "(b s \<Longrightarrow> keeps_at I m s) \<Longrightarrow> (\<not> b s \<Longrightarrow> keeps_at I m' s) \<Longrightarrow> keeps_at I (\<lambda>t. if b t then m t else m' t) s"
  by (simp add: keeps_at_def)

lemma at_if_const [at_intros]:
  "(b \<Longrightarrow> keeps_at I m s) \<Longrightarrow> (\<not> b \<Longrightarrow> keeps_at I m' s) \<Longrightarrow> keeps_at I (if b then m else m') s"
  by simp

lemma at_option [at_intros]:
  "(x s = None \<Longrightarrow> keeps_at I m s) \<Longrightarrow> (\<And>y. x s = Some y \<Longrightarrow> keeps_at I (f y) s) \<Longrightarrow>
   keeps_at I (\<lambda>t. case x t of None \<Rightarrow> m t | Some y \<Rightarrow> f y t) s"
  by (simp add: keeps_at_def split: option.splits)

lemma at_same [at_intros]: "keeps_at I (\<lambda>t. (r, t)) s"
  by (simp add: keeps_at_def)

lemma at_check [at_intros]: "keeps_at I (check g) s"
  by (rule at_keeps) (rule keeps_check)

lemma snd_check [simp]: "snd (check g s) = s"
  by (simp add: check_def split: sum.splits)

lemma and_then_assoc: "and_then (and_then m f) g = and_then m (\<lambda>x. and_then (f x) g)"
  by (rule ext) (auto simp: and_then_def split: prod.splits outcome.splits)

text \<open>The two places where a step is kept only together with the one before it.\<close>

definition admit_frame :: "data_frame \<Rightarrow> unit h2_proc" where
  "admit_frame f =
     and_then check_pending_frames (\<lambda>_.
     and_then (reserve_stream_buffer (df_stream_id f) (length (df_payload f))) (\<lambda>_.
     modify (push_pending_frame f)))"

definition send_chunk :: "u32 \<Rightarrow> bytes \<Rightarrow> unit h2_proc" where
  "send_chunk sid c =
     and_then (consume_outbound_window sid (length c)) (\<lambda>_. write_all_tracked (build_data_frame sid c))"

lemma queue_admit:
  "queue_incoming_data_frame frame =
     (if rf_stream_id frame = STREAM_INIT then conn_err ''DATA frame is not valid on stream 0'' []
      else and_then (check (ensure_incoming_stream_available (rf_stream_id frame))) (\<lambda>_.
           and_then (observe_peer_data_stream (rf_stream_id frame) (rf_payload frame)) (\<lambda>_.
           and_then (admit_frame \<lparr>df_stream_id = rf_stream_id frame, df_flags = rf_flags frame,
                       df_payload = rf_payload frame\<rparr>) (\<lambda>_.
           and_then (modify (mark_end_stream (rf_stream_id frame) (rf_flags frame))) (\<lambda>_.
           replenish_receive_window (rf_stream_id frame) (length (rf_payload frame)))))))"
  by (simp add: queue_incoming_data_frame_def admit_frame_def and_then_assoc Let_def)

section \<open>Frames on the wire\<close>

text \<open>What a frame on the wire looks like: the length field fits the payload.\<close>

definition whole_frame :: "bytes \<Rightarrow> bool" where
  "whole_frame f \<longleftrightarrow>
     9 \<le> length f \<and> length f = 9 + unat (f ! 0) * 65536 + unat (f ! 1) * 256 + unat (f ! 2)"

lemma be24_split: "(n::nat) div 65536 * 65536 + n div 256 mod 256 * 256 + n mod 256 = n"
proof -
  have "n div 65536 = n div 256 div 256" using div_mult2_eq [of n 256 256] by simp
  then show ?thesis using div_mult_mod_eq [of n 256] div_mult_mod_eq [of "n div 256" 256] by linarith
qed

lemma build_frame_whole:
  assumes "length p \<le> MAX_NEGOTIATED_FRAME_SIZE"
  shows "whole_frame (build_frame ft fl sid p)"
proof -
  have "length p div 65536 < 256" using assms by (simp add: h2_limits)
  then have "unat (of_nat (length p div 65536) :: byte) = length p div 65536" "length p div 65536 mod 256 = length p div 65536"
    by (simp_all add: unat_of_nat)
  moreover have "unat (of_nat (k mod 256) :: byte) = k mod 256" for k
    by (simp add: unat_of_nat)
  ultimately show ?thesis
    using be24_split [of "length p"] by (simp add: whole_frame_def build_frame_def length_to_bytes)
qed

lemma built_frames_whole [simp]:
  "whole_frame build_settings_ack"
  "whole_frame (build_window_update_frame sid n)"
  "whole_frame (build_headers_frame sid)"
  "whole_frame (build_data_frame sid [])"
  by (simp_all add: build_settings_ack_def build_window_update_frame_def build_headers_frame_def
      build_data_frame_def build_frame_whole h2_limits length_to_bytes)

section \<open>The part of the state the transport does not touch\<close>

definition registry_part where
  "registry_part s =
     ((client_server_buf s, server_client_buf s, stream_bufs s, buffered_bytes s, pending_data_frames s),
      (locally_open_streams s, client_server_open s, server_client_open s, closed_streams s,
       closed_unknown_order s, peer_open_streams s, announced_file_streams s, file_stream_candidates s,
       file_stream_candidate_data s, reset_streams s, reset_unknown_order s, highest_peer_stream_id s),
      (outbound_connection_window s, peer_initial_window_size s, outbound_stream_windows s,
       outbound_max_frame_size s))"

lemma registry_part_update [simp]:
  "registry_part (s\<lparr>stream := k\<rparr>) = registry_part s"
  "registry_part (s\<lparr>pending_window_updates := pw\<rparr>) = registry_part s"
  "registry_part (s\<lparr>goaway := g\<rparr>) = registry_part s"
  "registry_part (s\<lparr>connection_error := e\<rparr>) = registry_part s"
  "registry_part (s\<lparr>partial_header := h\<rparr>) = registry_part s"
  "registry_part (s\<lparr>pending_frame_meta := m\<rparr>) = registry_part s"
  "registry_part (s\<lparr>payload_buf := p\<rparr>) = registry_part s"
  "registry_part (s\<lparr>pending_write := w\<rparr>) = registry_part s"
  "registry_part (s\<lparr>message_read_in_progress := b\<rparr>) = registry_part s"
  "registry_part (s\<lparr>open_stream_in_progress := oo\<rparr>) = registry_part s"
  "registry_part (s\<lparr>window_update_in_progress := u\<rparr>) = registry_part s"
  by (simp_all add: registry_part_def)

lemma untouched_registry [keeps_intros]:
  "untouched registry_part (write_frame_bytes bs)"
  "untouched registry_part (on_h2 sock_flush)"
  "untouched registry_part fill_header"
  "untouched registry_part frame_meta"
  "untouched registry_part (fill_payload n)"
  "untouched registry_part (finish_frame fm)"
  "untouched registry_part (process_goaway sid payload)"
  by (simp_all add: untouched_def write_frame_bytes_def on_h2_def on_stream_state fill_header_def frame_meta_def
      fill_payload_def finish_frame_def process_goaway_def conn_err_def Let_def
      split: prod.split option.split)

lemma untouched_registry_finish [keeps_intros]: "untouched registry_part finish_pending_write"
  using untouched_registry(1)
  by (auto simp: untouched_def finish_pending_write_def split: option.splits)

lemma untouched_registry_write [keeps_intros]: "untouched registry_part (write_all_tracked bs)"
  unfolding write_all_tracked_def by (intro keeps_intros)

lemma untouched_registry_read [keeps_intros]: "untouched registry_part read_raw_frame"
  unfolding read_raw_frame_def by (intro keeps_intros)

section \<open>The interface\<close>

locale framer_operations =
  fixes I :: "h2 \<Rightarrow> bool"
  assumes world: "I s \<Longrightarrow> I (s\<lparr>stream := (stream s)\<lparr>rx := rs, wx := ws, fx := fls\<rparr>\<rparr>)"
    and error: "I s \<Longrightarrow> I (s\<lparr>connection_error := e\<rparr>)"
    and open_mark: "I s \<Longrightarrow> I (s\<lparr>open_stream_in_progress := p\<rparr>)"
    and update_mark: "I s \<Longrightarrow> I (s\<lparr>window_update_in_progress := b\<rparr>)"
    and updates: "I s \<Longrightarrow> I (s\<lparr>pending_window_updates := w\<rparr>)"
    and finish: "keeps I finish_pending_write"
    and transmit: "whole_frame f \<Longrightarrow> keeps I (write_all_tracked f)"
    and flush: "keeps I (on_h2 sock_flush)"
    and read: "keeps I read_raw_frame"
    and headers: "keeps I (observe_peer_headers sid)"
    and data: "I s \<Longrightarrow> sid \<notin> closed_streams s \<Longrightarrow> I (snd (observe_peer_data_stream sid payload s))"
    and append: "keeps I (append_stream_data sid payload)"
    and admit: "keeps I (admit_frame df)"
    and mark_end: "I s \<Longrightarrow> I (mark_end_stream sid fl s)"
    and reset: "keeps I (dispatch_rst_stream sid payload)"
    and initial_window: "parse_settings payload (None, None) = Inr (iw, mf) \<Longrightarrow> keeps I (apply_initial_window iw)"
    and frame_size: "parse_settings payload (None, None) = Inr (iw, mf) \<Longrightarrow> I s \<Longrightarrow> I (apply_max_frame_size mf s)"
    and window_update: "keeps I (process_window_update sid payload)"
    and goaway_frame: "keeps I (process_goaway sid payload)"
    and send: "I s \<Longrightarrow> outbound_budget sid s = Inr k \<Longrightarrow> I (snd (send_chunk sid (take k bs) s))"
    and drain: "I s \<Longrightarrow> I (drain_pending_data_frames s)"
    and take_bytes: "keeps I (take_stream_bytes sid n)"
    and pop: "keeps I pop_pending_frame"
    and opened: "I s \<Longrightarrow> sid \<notin> closed_streams s \<Longrightarrow> I (register_open_stream sid s)"
begin

lemma conn_err_keeps [keeps_intros]: "keeps I (conn_err msg args)"
  by (simp add: keeps_def conn_err_def error)

lemma proto_err_keeps [keeps_intros]: "keeps I (proto_err msg args)"
  by (simp add: proto_err_def keeps_throw)

lemmas step_keeps = finish transmit flush read headers append admit reset initial_window window_update
  goaway_frame take_bytes pop

lemma write_frames_keeps: "list_all whole_frame fs \<Longrightarrow> keeps I (write_frames fs)"
  by (induction fs) (auto intro!: keeps_intros step_keeps)

lemma emit_keeps: "list_all whole_frame fs \<Longrightarrow> keeps I (emit_window_updates fs)"
  unfolding emit_window_updates_def
  by (auto intro!: keeps_intros step_keeps write_frames_keeps simp: update_mark)

lemma settle_keeps: "I s \<Longrightarrow> settle_window sid n s = (fs, t) \<Longrightarrow> I t \<and> list_all whole_frame fs"
  by (auto simp: settle_window_def updates split: if_splits)

lemma replenish_keeps [keeps_intros]: "keeps I (replenish_receive_window sid n)"
proof -
  have emit: "I (snd (emit_window_updates (f0 @ f1) u))"
    if "I s" "settle_window 0 a s = (f0, t)" "settle_window sid b t = (f1, u)" for s a b f0 f1 t u
    using settle_keeps [OF that(1,2)] settle_keeps [of t, OF _ that(3)] emit_keeps [of "f0 @ f1"]
    by (auto simp: keeps_def)
  have emit0: "I (snd (emit_window_updates f0 t))" if "I s" "settle_window 0 a s = (f0, t)" for s a f0 t
    using settle_keeps [OF that] emit_keeps [of f0] by (auto simp: keeps_def)
  show ?thesis
    unfolding replenish_receive_window_def
    by (intro keeps_intros keepsI) (simp add: Let_def emit emit0 conn_err_def error split: prod.split)
qed

lemma settings_keeps [keeps_intros]: "keeps I (process_settings fl payload)"
proof -
  have "keeps I (and_then (apply_initial_window iw) (\<lambda>_. and_then (modify (apply_max_frame_size mf)) (\<lambda>_.
          and_then (write_all_tracked build_settings_ack) (\<lambda>_. on_h2 sock_flush))))"
    if "parse_settings payload (None, None) = Inr (iw, mf)" for iw mf
    using that by (auto intro!: keeps_intros step_keeps frame_size)
  then show ?thesis
    unfolding process_settings_def by (auto intro!: keeps_intros split: sum.splits)
qed

lemma data_at:
  "check (ensure_incoming_stream_available sid) s = (Ok x, t) \<Longrightarrow> keeps_at I (observe_peer_data_stream sid payload) t"
  by (auto simp: keeps_at_def check_Ok ensure_incoming_stream_available_def attempt_Inr_iff split: if_splits
      intro: data)

lemma dispatch_data_keeps: "keeps I (dispatch_data sid fl payload)"
  unfolding dispatch_data_def
  by (intro keeps_at_all at_intros conn_err_keeps [THEN at_keeps] step_keeps [THEN at_keeps]
      keeps_modify [THEN at_keeps] replenish_keeps [THEN at_keeps] mark_end)
    (erule data_at)

lemma dispatch_keeps [keeps_intros]: "keeps I (dispatch_frame frame)"
  unfolding dispatch_frame_def dispatch_frame_inner_def dispatch_headers_def Let_def
  by (intro keeps_intros step_keeps dispatch_data_keeps mark_end)

lemma queue_keeps [keeps_intros]: "keeps I (queue_incoming_data_frame frame)"
  unfolding queue_admit
  by (intro keeps_at_all at_intros conn_err_keeps [THEN at_keeps] step_keeps [THEN at_keeps]
      keeps_modify [THEN at_keeps] replenish_keeps [THEN at_keeps] mark_end)
    (erule data_at)

lemma drain_keeps [keeps_intros]: "keeps I (modify drain_pending_data_frames)"
  by (intro keeps_intros drain)

subsection \<open>The loops\<close>

lemmas step_at = step_keeps [THEN at_keeps] conn_err_keeps [THEN at_keeps] proto_err_keeps [THEN at_keeps]
  dispatch_keeps [THEN at_keeps] queue_keeps [THEN at_keeps]

lemma read_stream_loop_keeps: "keeps_at I (read_stream_loop sid n) s"
proof (induction sid n s rule: read_stream_loop.induct)
  case (1 sid n s)
  show ?case
    by (subst read_stream_loop.simps [abs_def]) (intro at_intros step_at 1)
qed

lemma read_stream_keeps: "keeps I (read_stream sid n)"
  unfolding read_stream_def
  by (intro keeps_intros step_keeps keeps_at_all read_stream_loop_keeps drain)

lemma reset_error_at: "keeps_at I (reset_error sid) s"
  by (simp add: keeps_at_def reset_error_def proto_err_run)

lemma next_data_loop_keeps: "keeps_at I next_data_loop s"
proof (induction s rule: next_data_loop.induct)
  case (1 s)
  show ?case
    by (subst next_data_loop.simps [abs_def]) (intro at_intros step_at reset_error_at 1)
qed

lemma read_next_keeps: "keeps I read_next_data_frame"
  unfolding read_next_data_frame_def
  by (intro keeps_at_all at_intros step_at next_data_loop_keeps)

lemma buffer_next_loop_keeps: "keeps_at I buffer_next_loop s"
proof (induction s rule: buffer_next_loop.induct)
  case (1 s)
  show ?case
    by (subst buffer_next_loop.simps [abs_def]) (intro at_intros step_at 1)
qed

lemma buffer_next_keeps: "keeps I buffer_next_data_stream"
proof -
  have "keeps I (case r of None \<Rightarrow> buffer_next_loop | Some sid \<Rightarrow> ret sid)" for r
    by (cases r) (auto intro: keeps_at_all buffer_next_loop_keeps keeps_ret)
  then show ?thesis
    unfolding buffer_next_data_stream_def by (intro keeps_intros step_keeps) (simp_all add: drain)
qed

lemma opened_at:
  assumes "check (check_can_open sid) s0 = (Ok x0, s)"
    and "write_all_tracked f (s\<lparr>open_stream_in_progress := p\<rparr>) = (Ok x1, t)" and "on_h2 sock_flush t = (Ok x2, u)"
  shows "keeps_at I (modify (register_open_stream sid)) u"
proof -
  have "registry_part u = registry_part s"
    using untouchedD [OF untouched_registry_write assms(2)] untouchedD [OF untouched_registry(2) assms(3)] by simp
  then have "sid \<notin> closed_streams u"
    using assms(1) by (auto simp: registry_part_def check_Ok check_can_open_def split: if_splits)
  then show ?thesis by (simp add: keeps_at_def proc_simps opened)
qed

lemma open_stream_keeps: "keeps I (open_stream sid)"
proof -
  have mark: "keeps_at I (modify (\<lambda>s. s\<lparr>open_stream_in_progress := Some sid\<rparr>)) s" for s
    by (simp add: keeps_at_def proc_simps open_mark)
  show ?thesis
    unfolding open_stream_def
    by (intro keeps_at_all at_intros step_at keeps_ret [THEN at_keeps] mark built_frames_whole)
      (auto simp: proc_simps(4) intro: opened_at)
qed

lemma wait_keeps: "keeps_at I (wait_for_outbound_capacity sid) s"
proof (induction sid s rule: wait_for_outbound_capacity.induct)
  case (1 sid s)
  show ?case
    by (subst wait_for_outbound_capacity.simps [abs_def]) (intro at_intros step_at 1)
qed

lemma send_at: "outbound_budget sid s = Inr k \<Longrightarrow> keeps_at I (send_chunk sid (take k bs)) s"
  by (simp add: keeps_at_def send)

lemma write_data_loop_keeps: "keeps_at I (write_data_loop sid bs) s"
proof (induction sid bs s rule: write_data_loop.induct)
  case (1 sid bs s)
  have again: "keeps_at I (and_then (wait_for_outbound_capacity sid) (\<lambda>_. write_data_loop sid bs)) s"
    if "bs \<noteq> []" "ensure_stream_available sid s = Inr x" "outbound_budget sid s = Inr 0" for x
    using that by (intro at_and_then wait_keeps "1.IH"(1)) (auto simp: check_Ok)
  have spend: "keeps_at I (and_then (consume_outbound_window sid (length (take k bs))) (\<lambda>_.
      and_then (write_all_tracked (build_data_frame sid (take k bs))) (\<lambda>_. write_data_loop sid (drop k bs)))) s"
    if "bs \<noteq> []" "ensure_stream_available sid s = Inr x" "outbound_budget sid s = Inr k" "0 < k" for x k
  proof -
    have "keeps_at I (and_then (send_chunk sid (take k bs)) (\<lambda>_. write_data_loop sid (drop k bs))) s"
      using that "1.IH"(2) [of "()" s k s]
      by (intro at_and_then send_at) (auto simp: check_Ok send_chunk_def and_then_Ok_iff)
    then show ?thesis by (simp add: send_chunk_def and_then_assoc)
  qed
  show ?case
    by (subst write_data_loop.simps [abs_def], rule at_if, rule at_same,
        rule at_and_then [OF at_check], rule at_and_then [OF at_check], rule at_if)
      (auto simp only: check_Ok not_gr_zero intro: again spend)
qed

lemma write_stream_keeps: "keeps I (write_stream sid bs)"
  unfolding write_stream_def
  by (intro keeps_intros step_keeps open_stream_keeps keeps_at_all [OF write_data_loop_keeps])
    (simp_all add: built_frames_whole)

lemma handshake_keeps: "keeps_at I read_until_settings_ack_needed s"
proof (induction s rule: read_until_settings_ack_needed.induct)
  case (1 s)
  show ?case
    by (subst read_until_settings_ack_needed.simps [abs_def]) (intro at_intros step_at 1)
qed

end

text \<open>The operations never touch the mark of a message in progress; its owner sets and clears it.\<close>

locale framer_invariant = framer_operations +
  assumes body_mark: "I s \<Longrightarrow> I (s\<lparr>message_read_in_progress := b\<rparr>)"

section \<open>Properties that do not look at the transport\<close>

locale registry_invariant =
  fixes I :: "h2 \<Rightarrow> bool"
  assumes part: "registry_part s = registry_part t \<Longrightarrow> I s \<Longrightarrow> I t"
    and headers: "keeps I (observe_peer_headers sid)"
    and data: "I s \<Longrightarrow> sid \<notin> closed_streams s \<Longrightarrow> I (snd (observe_peer_data_stream sid payload s))"
    and append: "keeps I (append_stream_data sid payload)"
    and admit: "keeps I (admit_frame df)"
    and mark_end: "I s \<Longrightarrow> I (mark_end_stream sid fl s)"
    and clear: "I s \<Longrightarrow> I (record_reset_stream sid code
         ((clear_stream_buffer sid s)\<lparr>outbound_stream_windows :=
            (outbound_stream_windows (clear_stream_buffer sid s))(sid := None)\<rparr>))"
    and initial_window: "parse_settings payload (None, None) = Inr (iw, mf) \<Longrightarrow> keeps I (apply_initial_window iw)"
    and frame_size: "parse_settings payload (None, None) = Inr (iw, mf) \<Longrightarrow> I s \<Longrightarrow> I (apply_max_frame_size mf s)"
    and window_update: "keeps I (process_window_update sid payload)"
    and consume: "keeps I (consume_outbound_window sid n)"
    and drain: "I s \<Longrightarrow> I (drain_pending_data_frames s)"
    and take_bytes: "keeps I (take_stream_bytes sid n)"
    and pop: "keeps I pop_pending_frame"
    and opened: "I s \<Longrightarrow> sid \<notin> closed_streams s \<Longrightarrow> I (register_open_stream sid s)"
begin

lemma part_keeps: "untouched registry_part m \<Longrightarrow> keeps I m"
  by (metis keepsI part untouched_def)

lemma part_update: "I s \<Longrightarrow> registry_part t = registry_part s \<Longrightarrow> I t"
  by (metis part)

lemma reset_keeps: "keeps I (dispatch_rst_stream sid payload)"
  by (rule keepsI) (simp add: dispatch_rst_stream_def conn_err_def part_update clear Let_def)

lemma send_keeps: "keeps I (send_chunk sid c)"
  unfolding send_chunk_def by (intro keeps_intros consume part_keeps)

end

sublocale registry_invariant \<subseteq> ops: framer_invariant
  using headers append admit reset_keeps initial_window window_update take_bytes pop
  by unfold_locales
    (auto intro: part_update part_keeps keeps_intros mark_end frame_size drain opened data
      simp: keepsD [OF send_keeps, OF _ prod.collapse [symmetric]])

end
