(* ===== verification/H2_Memory.thy ===== *)
theory H2_Memory
  imports H2_Invariants
begin

text \<open>
  The memory budget of the HTTP/2 framer. \<open>held sid s\<close> is what the framer stores for a
  stream: its buffer and its queued frames. The counter \<open>buffered_bytes\<close> is the sum over all
  streams, at most 64 MiB, and no stream holds more than 16 MiB.
\<close>

section \<open>What is stored for a stream\<close>

definition queued_bytes :: "u32 \<Rightarrow> data_frame list \<Rightarrow> nat" where
  "queued_bytes sid fs = sum_list (map (\<lambda>f. length (df_payload f)) (filter (\<lambda>f. df_stream_id f = sid) fs))"

lemma queued_simps [simp]:
  "queued_bytes sid [] = 0"
  "queued_bytes sid (f # fs) = (if df_stream_id f = sid then length (df_payload f) else 0) + queued_bytes sid fs"
  "queued_bytes sid (fs @ gs) = queued_bytes sid fs + queued_bytes sid gs"
  by (simp_all add: queued_bytes_def)

definition held :: "u32 \<Rightarrow> h2 \<Rightarrow> nat" where
  "held sid s = stream_buffer_len sid s + queued_bytes sid (pending_data_frames s)"

definition memory_ok :: "h2 \<Rightarrow> bool" where
  "memory_ok s \<longleftrightarrow>
     buffered_bytes s = (\<Sum>sid\<in>UNIV. held sid s) \<and>
     buffered_bytes s \<le> MAX_TOTAL_BUFFERED_BYTES \<and>
     (\<forall>sid. held sid s \<le> MAX_BUFFERED_BYTES_PER_STREAM)"

text \<open>A step that changes one stream moves the counter by the same amount.\<close>

lemma memory_ok_step:
  assumes "memory_ok s" and "\<And>j. j \<noteq> i \<Longrightarrow> held j t = held j s"
    and "buffered_bytes t + held i s = buffered_bytes s + held i t"
    and "held i t \<le> MAX_BUFFERED_BYTES_PER_STREAM" and "buffered_bytes t \<le> MAX_TOTAL_BUFFERED_BYTES"
  shows "memory_ok t"
proof -
  have "buffered_bytes t = (\<Sum>sid\<in>UNIV. held sid t)"
    using assms(1,3) sum_one_changed [of i "\<lambda>j. held j t" "\<lambda>j. held j s"] assms(2) by (simp add: memory_ok_def)
  moreover have "held j t \<le> MAX_BUFFERED_BYTES_PER_STREAM" for j
    using assms(1,2,4) by (cases "j = i") (auto simp: memory_ok_def)
  ultimately show ?thesis using assms(5) by (simp add: memory_ok_def)
qed

lemma memory_okD:
  assumes "memory_ok s"
  shows "held sid s \<le> MAX_BUFFERED_BYTES_PER_STREAM" "buffered_bytes s \<le> MAX_TOTAL_BUFFERED_BYTES"
  using assms unfolding memory_ok_def by blast+

lemma memory_ok_same:
  "memory_ok s \<Longrightarrow> (\<And>j. held j t = held j s) \<Longrightarrow> buffered_bytes t = buffered_bytes s \<Longrightarrow> memory_ok t"
  by (simp add: memory_ok_def)

lemma held_le_buffered: "memory_ok s \<Longrightarrow> held sid s \<le> buffered_bytes s"
  using part_le_sum [of "\<lambda>j. held j s" sid] by (simp add: memory_ok_def)

lemma held_cong:
  "client_server_buf t = client_server_buf s \<Longrightarrow> server_client_buf t = server_client_buf s \<Longrightarrow>
   stream_bufs t = stream_bufs s \<Longrightarrow> pending_data_frames t = pending_data_frames s \<Longrightarrow> held j t = held j s"
  by (simp add: held_def stream_buffer_len_def)

lemma saturating_fold:
  "a \<le> usize_MAX \<Longrightarrow> foldl saturating_add a xs = min usize_MAX (a + sum_list xs)"
  by (induction xs arbitrary: a) (auto simp: saturating_add_def min_def)

lemma pending_stream_buffer_len_queued:
  "queued_bytes sid (pending_data_frames s) \<le> usize_MAX \<Longrightarrow>
   pending_stream_buffer_len sid s = queued_bytes sid (pending_data_frames s)"
  by (simp add: pending_stream_buffer_len_def queued_bytes_def saturating_fold)

section \<open>Extending and dropping\<close>

lemma extend_held:
  "held j (extend_stream_buffer sid bs s) = held j s + (if j = sid then length bs else 0)"
  by (simp add: held_def stream_buffer_len_def extend_stream_buffer_def split: option.splits)

lemma extend_counter [simp]:
  "buffered_bytes (extend_stream_buffer sid bs s) = buffered_bytes s"
  "pending_data_frames (extend_stream_buffer sid bs s) = pending_data_frames s"
  by (simp_all add: extend_stream_buffer_def)

lemma drop_held: "held j (drop_stream_bytes sid s) = (if j = sid then 0 else held j s)"
proof -
  have "queued_bytes j (filter (\<lambda>f. df_stream_id f \<noteq> sid) fs) = (if j = sid then 0 else queued_bytes j fs)" for fs
    by (induction fs) auto
  then show ?thesis
    by (simp add: held_def stream_buffer_len_def drop_stream_bytes_def Let_def)
qed

lemma drop_counter:
  assumes "memory_ok s"
  shows "buffered_bytes (drop_stream_bytes sid s) + held sid s = buffered_bytes s"
proof -
  have le: "held sid s \<le> buffered_bytes s" "held sid s \<le> MAX_BUFFERED_BYTES_PER_STREAM"
    using assms held_le_buffered memory_okD by auto
  then have "stream_buffer_len sid s \<le> usize_MAX" "held sid s \<le> usize_MAX"
    by (simp_all add: held_def h2_limits)
  then show ?thesis
    using le(1) by (simp add: drop_stream_bytes_def Let_def saturating_fold held_def queued_bytes_def)
qed

lemma tombstone_buffers [simp]:
  "client_server_buf (remove_closed_stream_tombstone sid s) = client_server_buf s"
  "server_client_buf (remove_closed_stream_tombstone sid s) = server_client_buf s"
  "stream_bufs (remove_closed_stream_tombstone sid s) = stream_bufs s"
  "pending_data_frames (remove_closed_stream_tombstone sid s) = pending_data_frames s"
  "buffered_bytes (remove_closed_stream_tombstone sid s) = buffered_bytes s"
  by (simp_all add: remove_closed_stream_tombstone_def Let_def)

lemma memory_tombstone: "memory_ok s \<Longrightarrow> memory_ok (remove_closed_stream_tombstone sid s)"
  by (erule memory_ok_same) (auto intro: held_cong)

lemma memory_drop:
  assumes "memory_ok s"
  shows "memory_ok (drop_stream_bytes sid s)"
proof (rule memory_ok_step [OF assms, of sid])
  show "buffered_bytes (drop_stream_bytes sid s) + held sid s = buffered_bytes s + held sid (drop_stream_bytes sid s)"
    using drop_counter [OF assms] by (simp add: drop_held)
  then show "buffered_bytes (drop_stream_bytes sid s) \<le> MAX_TOTAL_BUFFERED_BYTES"
    using memory_okD(2) [OF assms] by (simp add: drop_held)
qed (simp_all add: drop_held)

lemma memory_clear: "memory_ok s \<Longrightarrow> memory_ok (clear_stream_buffer sid s)"
  by (rule memory_ok_same [where s = "remove_closed_stream_tombstone sid (drop_stream_bytes sid s)"])
    (auto simp: clear_stream_buffer_def Let_def memory_tombstone memory_drop intro!: held_cong)

section \<open>Reserving\<close>

lemma reserve_total_ok:
  assumes "memory_ok s" and "reserve_total sid n s = Inr tot"
  shows "tot = buffered_bytes s + n \<and> tot \<le> MAX_TOTAL_BUFFERED_BYTES \<and> held sid s + n \<le> MAX_BUFFERED_BYTES_PER_STREAM"
proof -
  have "queued_bytes sid (pending_data_frames s) \<le> usize_MAX"
    using memory_okD(1) [OF assms(1), of sid] by (simp add: held_def h2_limits)
  then show ?thesis
    using assms(2)
    by (auto simp: reserve_total_def attempt_Inr_iff ok_or_def usize_checked_add_def held_def
        pending_stream_buffer_len_queued split: option.splits if_splits)
qed

text \<open>
  \<open>reserve_stream_buffer\<close> announces the bytes: it is followed by storing them, in the buffer
  or in the queue, and only then is the counter right again.
\<close>

lemma memory_store:
  assumes "memory_ok s" and "reserve_stream_buffer sid n s = (r, t)"
    and "\<And>u j. held j (h u) = held j u + (if j = sid then n else 0)"
    and "\<And>u. buffered_bytes (h u) = buffered_bytes u"
  shows "if r = Ok () then memory_ok (h t) else memory_ok t"
proof (cases "r = Ok ()")
  case False
  then show ?thesis
    using assms(1,2)
    by (auto simp: reserve_stream_buffer_def proto_err_run memory_tombstone memory_clear split: if_splits sum.splits)
next
  case True
  have t: "t = s\<lparr>buffered_bytes := buffered_bytes s + n\<rparr> \<and> buffered_bytes s + n \<le> MAX_TOTAL_BUFFERED_BYTES \<and>
      held sid s + n \<le> MAX_BUFFERED_BYTES_PER_STREAM"
    using assms(2) True reserve_total_ok [OF assms(1), of sid n] memory_okD [OF assms(1)]
    by (auto simp: reserve_stream_buffer_def proto_err_run split: if_splits sum.splits)
  have "held j t = held j s" for j using t by (auto intro: held_cong)
  then have "memory_ok (h t)"
    using t assms(1,3,4) by (intro memory_ok_step [OF assms(1), of sid]) auto
  then show ?thesis using True by simp
qed

lemma memory_append: "keeps memory_ok (append_stream_data sid payload)"
proof (rule keepsI)
  fix s assume ok: "memory_ok s"
  obtain r t where r: "reserve_stream_buffer sid (length payload) s = (r, t)" by fastforce
  have "if r = Ok () then memory_ok (extend_stream_buffer sid payload t) else memory_ok t"
    by (rule memory_store [OF ok r]) (simp_all add: extend_held)
  then show "memory_ok (snd (append_stream_data sid payload s))"
    using ok r by (cases r) (auto simp: append_stream_data_def proc_simps)
qed

lemma memory_admit: "keeps memory_ok (admit_frame f)"
proof (rule keepsI)
  fix s assume ok: "memory_ok s"
  obtain r t where r: "reserve_stream_buffer (df_stream_id f) (length (df_payload f)) s = (r, t)" by fastforce
  have "if r = Ok () then memory_ok (push_pending_frame f t) else memory_ok t"
    by (rule memory_store [OF ok r]) (auto simp: held_def push_pending_frame_def stream_buffer_len_def)
  moreover have "memory_ok (s\<lparr>connection_error := e\<rparr>)" for e
    using ok by (rule memory_ok_same) (auto intro: held_cong)
  ultimately show "memory_ok (snd (admit_frame f s))"
    using ok r by (cases r) (auto simp: admit_frame_def check_pending_frames_def conn_err_def proc_simps)
qed

section \<open>Moving and taking\<close>

lemma drain_frames_held:
  "held j (drain_frames fs s) = held j s + queued_bytes j fs"
  "buffered_bytes (drain_frames fs s) = buffered_bytes s"
  by (induction fs arbitrary: s) (auto simp: extend_held)

lemma memory_drain: "memory_ok s \<Longrightarrow> memory_ok (drain_pending_data_frames s)"
  by (rule memory_ok_same [of s])
    (simp_all add: drain_pending_data_frames_def drain_frames_held, simp add: held_def stream_buffer_len_def)

lemma take_held:
  assumes "take_stream_bytes sid n s = (r, t)"
  shows "t = s \<or> (held sid t + n = held sid s \<and> (\<forall>j. j \<noteq> sid \<longrightarrow> held j t = held j s) \<and>
     buffered_bytes t = buffered_bytes s - n)"
  using assms
  by (auto simp: take_stream_bytes_def proto_err_run held_def stream_buffer_len_def split: if_splits option.splits)

lemma memory_take: "keeps memory_ok (take_stream_bytes sid n)"
proof (rule keepsI)
  fix s assume ok: "memory_ok s"
  obtain r t where t: "take_stream_bytes sid n s = (r, t)" by fastforce
  have "held sid s \<le> MAX_BUFFERED_BYTES_PER_STREAM" "buffered_bytes s \<le> MAX_TOTAL_BUFFERED_BYTES"
    using memory_okD [OF ok] by auto
  then have "memory_ok t" if "t \<noteq> s"
    using that take_held [OF t] held_le_buffered [OF ok, of sid] by (intro memory_ok_step [OF ok, of sid]) auto
  then show "memory_ok (snd (take_stream_bytes sid n s))" using ok t by fastforce
qed

lemma memory_pop: "keeps memory_ok pop_pending_frame"
proof (rule keepsI)
  fix s assume ok: "memory_ok s"
  show "memory_ok (snd (pop_pending_frame s))"
  proof (cases "pending_data_frames s")
    case Nil
    then show ?thesis using ok by (simp add: pop_pending_frame_def)
  next
    case (Cons f fs)
    let ?t = "s\<lparr>pending_data_frames := fs, buffered_bytes := buffered_bytes s - length (df_payload f)\<rparr>"
    have h: "held j s = held j ?t + (if j = df_stream_id f then length (df_payload f) else 0)" for j
      using Cons by (auto simp: held_def stream_buffer_len_def)
    have "held (df_stream_id f) s \<le> MAX_BUFFERED_BYTES_PER_STREAM" "buffered_bytes s \<le> MAX_TOTAL_BUFFERED_BYTES"
      using memory_okD [OF ok] by auto
    then have "memory_ok ?t"
      using h held_le_buffered [OF ok, of "df_stream_id f"]
      by (intro memory_ok_step [OF ok, of "df_stream_id f"]) simp_all
    then show ?thesis using Cons by (simp add: pop_pending_frame_def)
  qed
qed

section \<open>Every other step leaves the buffers alone\<close>

definition buffer_part where
  "buffer_part s = (client_server_buf s, server_client_buf s, stream_bufs s, pending_data_frames s, buffered_bytes s)"

lemma memory_part: "memory_ok s \<Longrightarrow> buffer_part t = buffer_part s \<Longrightarrow> memory_ok t"
  by (rule memory_ok_same) (auto simp: buffer_part_def intro!: held_cong)

lemma conn_err_buffer: "buffer_part (snd (conn_err msg args s)) = buffer_part s"
  by (simp add: buffer_part_def conn_err_def)

lemma window_buffer:
  "buffer_part (s\<lparr>outbound_connection_window := v\<rparr>) = buffer_part s"
  "buffer_part (s\<lparr>outbound_stream_windows := w\<rparr>) = buffer_part s"
  by (simp_all add: buffer_part_def)

lemma mark_end_buffer [simp]: "buffer_part (mark_end_stream sid fl s) = buffer_part s"
  by (simp add: buffer_part_def mark_end_stream_def Let_def split: list.split)

lemma record_reset_buffer [simp]: "buffer_part (record_reset_stream sid code s) = buffer_part s"
  by (simp add: buffer_part_def record_reset_stream_def Let_def split: list.split)

lemma peer_stream_buffer:
  "buffer_part (snd (track_peer_stream sid s)) = buffer_part s"
  "buffer_part (snd (adopt_file_stream sid s)) = buffer_part s"
  "buffer_part (snd (register_file_stream_candidate sid s)) = buffer_part s"
  by (simp_all add: buffer_part_def track_peer_stream_def adopt_file_stream_def
      register_file_stream_candidate_def proto_err_run)

lemma memory_headers: "keeps memory_ok (observe_peer_headers sid)"
  by (rule keepsI) (auto simp: observe_peer_headers_def peer_stream_buffer intro: memory_part)

lemma memory_data: "keeps memory_ok (observe_peer_data_stream sid payload)"
proof (rule keepsI)
  fix s assume ok: "memory_ok s"
  have cand: "memory_ok (s\<lparr>file_stream_candidates := c, file_stream_candidate_data := d\<rparr>)"
    "memory_ok (s\<lparr>file_stream_candidate_data := d\<rparr>)" for c d
    using ok by (auto intro: memory_part simp: buffer_part_def)
  have adopt: "memory_ok (snd (adopt_file_stream i u))" if "memory_ok u" for i u
    using that by (rule memory_part) (rule peer_stream_buffer)
  have track: "memory_ok (snd (track_peer_stream sid s))"
    using ok by (rule memory_part) (rule peer_stream_buffer)
  show "memory_ok (snd (observe_peer_data_stream sid payload s))"
    unfolding observe_peer_data_stream_def Let_def
    using ok by (simp add: proto_err_run cand adopt track memory_clear)
qed

lemma memory_window_update: "keeps memory_ok (process_window_update sid payload)"
proof (rule keepsI)
  fix s assume ok: "memory_ok s"
  have "buffer_part (snd (process_window_update sid payload s)) = buffer_part s"
    unfolding process_window_update_def Let_def
    by (simp add: conn_err_buffer proto_err_run window_buffer split: option.split)
  with ok show "memory_ok (snd (process_window_update sid payload s))" by (rule memory_part)
qed

lemma memory_flow:
  "keeps memory_ok (apply_initial_window iw)"
  "keeps memory_ok (consume_outbound_window sid n)"
  "memory_ok s \<Longrightarrow> memory_ok (apply_max_frame_size mf s)"
proof -
  have "buffer_part (snd (apply_initial_window iw s)) = buffer_part s"
    "buffer_part (snd (consume_outbound_window sid n s)) = buffer_part s"
    "buffer_part (apply_max_frame_size mf s) = buffer_part s" for s
    by (simp_all add: buffer_part_def apply_initial_window_def consume_outbound_window_def
        apply_max_frame_size_def conn_err_def proto_err_run Let_def split: option.split sum.split prod.split)
  then show "keeps memory_ok (apply_initial_window iw)" "keeps memory_ok (consume_outbound_window sid n)"
    "memory_ok s \<Longrightarrow> memory_ok (apply_max_frame_size mf s)"
    by (auto simp: keeps_def intro: memory_part)
qed

lemma memory_opened: "memory_ok s \<Longrightarrow> memory_ok (register_open_stream sid s)"
  by (rule memory_ok_same [of s])
    (auto simp: register_open_stream_def Let_def held_def stream_buffer_len_def split: option.splits)

interpretation h2_memory: registry_invariant memory_ok
proof (unfold_locales, goal_cases)
  case (1 s t)
  then show ?case by (auto simp: registry_part_def buffer_part_def intro: memory_part)
next
  case (7 s sid code)
  have "memory_ok ((clear_stream_buffer sid s)\<lparr>outbound_stream_windows := w\<rparr>)" for w
    using memory_clear [OF 7] by (rule memory_part) (simp add: buffer_part_def)
  then show ?case by (rule memory_part) simp
qed (auto intro: memory_headers keeps_snd [OF memory_data] memory_append memory_admit memory_window_update memory_flow
    memory_drain memory_take memory_pop memory_opened elim: memory_part)

lemma memory_new: "memory_ok (H2Framer_new k)"
  by (simp add: memory_ok_def held_def stream_buffer_len_def H2Framer_new_def)

end
