(* ===== verification/H2_Bounds.thy ===== *)
theory H2_Bounds
  imports H2_Invariants
begin

text \<open>
  The other invariants of the HTTP/2 framer's state. \<open>registry_ok\<close>: how many streams a peer
  can make the framer remember, and that the eviction queues of the tombstones match them.
  \<open>windows_ok\<close>: the flow-control windows and the frame size stay in the ranges of the
  protocol.
\<close>

section \<open>Stream tables\<close>

definition active_ok :: "h2 \<Rightarrow> bool" where
  "active_ok s \<longleftrightarrow>
     unknown_active_stream_count s \<le> MAX_UNKNOWN_BUFFERED_STREAMS \<and>
     card (announced_file_streams s) \<le> MAX_ANNOUNCED_FILE_STREAMS \<and>
     length (pending_data_frames s) \<le> MAX_PENDING_DATA_FRAMES"

definition control_streams :: "u32 set" where
  "control_streams = {STREAM_INIT, STREAM_CLIENT_SERVER, STREAM_SERVER_CLIENT}"

definition closed_ok :: "h2 \<Rightarrow> bool" where
  "closed_ok s \<longleftrightarrow>
     distinct (closed_unknown_order s) \<and> length (closed_unknown_order s) \<le> MAX_CLOSED_STREAMS \<and>
     set (closed_unknown_order s) \<subseteq> closed_streams s \<and>
     closed_streams s \<subseteq> set (closed_unknown_order s) \<union> control_streams \<union> locally_open_streams s \<and>
     set (closed_unknown_order s) \<inter> (control_streams \<union> locally_open_streams s \<union> announced_file_streams s) = {}"

definition reset_ok :: "h2 \<Rightarrow> bool" where
  "reset_ok s \<longleftrightarrow>
     distinct (reset_unknown_order s) \<and> length (reset_unknown_order s) \<le> MAX_CLOSED_STREAMS \<and>
     set (reset_unknown_order s) \<subseteq> dom (reset_streams s) \<and>
     dom (reset_streams s) \<subseteq> set (reset_unknown_order s) \<union> control_streams \<union> locally_open_streams s"

definition registry_ok :: "h2 \<Rightarrow> bool" where
  "registry_ok s \<longleftrightarrow> active_ok s \<and> closed_ok s \<and> reset_ok s"

lemma is_known_control:
  "is_known_stream sid s \<longleftrightarrow> sid \<in> control_streams \<union> locally_open_streams s \<union> announced_file_streams s"
  by (auto simp: is_known_stream_def control_streams_def)

lemma registry_okI: "active_ok s \<Longrightarrow> closed_ok s \<Longrightarrow> reset_ok s \<Longrightarrow> registry_ok s"
  by (simp add: registry_ok_def)

lemma registry_okD:
  assumes "registry_ok s"
  shows "active_ok s" "closed_ok s" "reset_ok s"
  using assms by (simp_all add: registry_ok_def)

text \<open>The tables may only lose entries.\<close>

lemma active_shrink:
  assumes "active_ok s" and "peer_open_streams t \<subseteq> peer_open_streams s"
    and "file_stream_candidates t \<subseteq> file_stream_candidates s"
    and "announced_file_streams t \<subseteq> announced_file_streams s"
    and "length (pending_data_frames t) \<le> length (pending_data_frames s)"
  shows "active_ok t"
  using assms card_mono [OF finite assms(2)] card_mono [OF finite assms(3)] card_mono [OF finite assms(4)]
  by (simp add: active_ok_def unknown_active_stream_count_def)

lemma closed_same:
  assumes "closed_ok s" and "closed_streams t = closed_streams s" and "closed_unknown_order t = closed_unknown_order s"
    and "locally_open_streams t = locally_open_streams s" and "announced_file_streams t \<subseteq> announced_file_streams s"
  shows "closed_ok t"
  using assms unfolding closed_ok_def by auto

lemma reset_same:
  assumes "reset_ok s" and "reset_streams t = reset_streams s" and "reset_unknown_order t = reset_unknown_order s"
    and "locally_open_streams s \<subseteq> locally_open_streams t"
  shows "reset_ok t"
  using assms unfolding reset_ok_def by auto

lemma registry_shrink:
  assumes "registry_ok s" and "peer_open_streams t \<subseteq> peer_open_streams s"
    and "file_stream_candidates t \<subseteq> file_stream_candidates s"
    and "announced_file_streams t \<subseteq> announced_file_streams s"
    and "length (pending_data_frames t) \<le> length (pending_data_frames s)"
    and "closed_streams t = closed_streams s" "closed_unknown_order t = closed_unknown_order s"
    and "locally_open_streams t = locally_open_streams s"
    and "reset_streams t = reset_streams s" "reset_unknown_order t = reset_unknown_order s"
  shows "registry_ok t"
  using assms(2-)
  by (intro registry_okI active_shrink [OF registry_okD(1) [OF assms(1)]]
      closed_same [OF registry_okD(2) [OF assms(1)]] reset_same [OF registry_okD(3) [OF assms(1)]]) simp_all

section \<open>Tombstones\<close>

lemma closed_remove:
  assumes "closed_ok s"
  shows "closed_ok (remove_closed_stream_tombstone sid s)"
proof -
  have "set (closed_unknown_order s) \<subseteq> closed_streams s - {sid}"
    if "is_known_stream sid (s\<lparr>closed_streams := closed_streams s - {sid}\<rparr>)"
    using assms that by (auto simp: closed_ok_def is_known_control)
  then show ?thesis
    using assms unfolding closed_ok_def
    by (auto simp: remove_closed_stream_tombstone_def Let_def intro: le_trans [OF length_filter_le])
qed

lemma tombstone_fields [simp]:
  "peer_open_streams (remove_closed_stream_tombstone sid s) = peer_open_streams s"
  "file_stream_candidates (remove_closed_stream_tombstone sid s) = file_stream_candidates s"
  "announced_file_streams (remove_closed_stream_tombstone sid s) = announced_file_streams s"
  "pending_data_frames (remove_closed_stream_tombstone sid s) = pending_data_frames s"
  "locally_open_streams (remove_closed_stream_tombstone sid s) = locally_open_streams s"
  "reset_streams (remove_closed_stream_tombstone sid s) = reset_streams s"
  "reset_unknown_order (remove_closed_stream_tombstone sid s) = reset_unknown_order s"
  by (simp_all add: remove_closed_stream_tombstone_def Let_def)

lemma registry_remove:
  assumes "registry_ok s"
  shows "registry_ok (remove_closed_stream_tombstone sid s)"
  by (intro registry_okI closed_remove active_shrink [OF registry_okD(1) [OF assms]]
      reset_same [OF registry_okD(3) [OF assms]] registry_okD(2) [OF assms]) simp_all

lemma registry_drop: "registry_ok s \<Longrightarrow> registry_ok (drop_stream_bytes sid s)"
  by (erule registry_shrink) (simp_all add: drop_stream_bytes_def Let_def)

lemma registry_clear:
  assumes "registry_ok s"
  shows "registry_ok (clear_stream_buffer sid s)"
  by (rule registry_shrink [OF registry_remove [OF registry_drop [OF assms, of sid], of sid]])
    (auto simp: clear_stream_buffer_def Let_def)

lemma closed_push:
  assumes "closed_ok s" and "sid \<notin> closed_streams s" and "\<not> is_known_stream sid s"
    and "length (closed_unknown_order s) < MAX_CLOSED_STREAMS"
  shows "closed_ok (s\<lparr>closed_unknown_order := closed_unknown_order s @ [sid],
                      closed_streams := insert sid (closed_streams s)\<rparr>)"
  using assms unfolding closed_ok_def is_known_control by auto

lemma closed_evict:
  assumes "closed_ok s" and "closed_unknown_order s = oldest # rest"
  shows "closed_ok (s\<lparr>closed_unknown_order := rest, closed_streams := closed_streams s - {oldest}\<rparr>)"
  using assms unfolding closed_ok_def by auto

lemma closed_known:
  assumes "closed_ok s" and "sid \<in> closed_streams s \<or> sid \<in> control_streams \<union> locally_open_streams s"
  shows "closed_ok (s\<lparr>closed_streams := insert sid (closed_streams s)\<rparr>)"
  using assms unfolding closed_ok_def by auto

text \<open>\<open>mark_end_stream\<close> as its three cases.\<close>

lemma mark_end_cases:
  fixes s :: h2 and sid :: u32
  assumes "fl AND FLAG_END_STREAM \<noteq> 0"
  defines "s1 \<equiv> s\<lparr>announced_file_streams := announced_file_streams s - {sid},
                 file_stream_candidates := file_stream_candidates s - {sid},
                 file_stream_candidate_data := (file_stream_candidate_data s)(sid := None)\<rparr>"
  defines "s2 \<equiv> (case closed_unknown_order s1 of
       oldest # rest \<Rightarrow> if length (closed_unknown_order s1) \<ge> MAX_CLOSED_STREAMS
          then s1\<lparr>closed_unknown_order := rest, closed_streams := closed_streams s1 - {oldest}\<rparr> else s1
     | [] \<Rightarrow> s1)"
  shows "mark_end_stream sid fl s =
    (if sid \<notin> closed_streams s1 \<and> \<not> is_known_stream sid s1
     then s2\<lparr>closed_unknown_order := closed_unknown_order s2 @ [sid], closed_streams := insert sid (closed_streams s2)\<rparr>
     else s1\<lparr>closed_streams := insert sid (closed_streams s1)\<rparr>)
    \<lparr>peer_open_streams := peer_open_streams s - {sid},
     pending_window_updates := (pending_window_updates s)(sid := None)\<rparr>"
  using assms(1)
  by (auto simp: mark_end_stream_def s1_def s2_def Let_def h2_limits split: list.split)

lemma closed_mark_end:
  assumes ok: "closed_ok s"
  shows "closed_ok (mark_end_stream sid fl s)"
proof (cases "fl AND FLAG_END_STREAM = 0")
  case True
  then show ?thesis using ok by (simp add: mark_end_stream_def)
next
  case False
  define s1 where "s1 = s\<lparr>announced_file_streams := announced_file_streams s - {sid},
                 file_stream_candidates := file_stream_candidates s - {sid},
                 file_stream_candidate_data := (file_stream_candidate_data s)(sid := None)\<rparr>"
  define s2 where "s2 = (case closed_unknown_order s1 of
       oldest # rest \<Rightarrow> if length (closed_unknown_order s1) \<ge> MAX_CLOSED_STREAMS
          then s1\<lparr>closed_unknown_order := rest, closed_streams := closed_streams s1 - {oldest}\<rparr> else s1
     | [] \<Rightarrow> s1)"
  have s1: "closed_ok s1" using ok by (rule closed_same) (auto simp: s1_def)
  then have s2: "closed_ok s2" using closed_evict [OF s1] by (auto simp: s2_def split: list.split)
  have len: "length (closed_unknown_order s2) < MAX_CLOSED_STREAMS"
    using s1 by (auto simp: s2_def closed_ok_def h2_limits split: list.split)
  let ?t = "if sid \<notin> closed_streams s1 \<and> \<not> is_known_stream sid s1
     then s2\<lparr>closed_unknown_order := closed_unknown_order s2 @ [sid], closed_streams := insert sid (closed_streams s2)\<rparr>
     else s1\<lparr>closed_streams := insert sid (closed_streams s1)\<rparr>"
  have "closed_ok ?t"
  proof (cases "sid \<notin> closed_streams s1 \<and> \<not> is_known_stream sid s1")
    case True
    then have "sid \<notin> closed_streams s2" "\<not> is_known_stream sid s2"
      by (auto simp: s2_def is_known_stream_def split: list.splits)
    then show ?thesis using closed_push [OF s2 _ _ len] True by simp
  next
    case known: False
    then have "sid \<in> closed_streams s1 \<or> sid \<in> control_streams \<union> locally_open_streams s1"
      by (auto simp: is_known_control s1_def)
    then show ?thesis unfolding if_not_P [OF known] by (rule closed_known [OF s1])
  qed
  then show ?thesis
    unfolding mark_end_cases [OF False, where s = s and sid = sid, folded s1_def, folded s2_def] by (rule closed_same) auto
qed

lemma mark_end_fields:
  "peer_open_streams (mark_end_stream sid fl s) \<subseteq> peer_open_streams s"
  "file_stream_candidates (mark_end_stream sid fl s) \<subseteq> file_stream_candidates s"
  "announced_file_streams (mark_end_stream sid fl s) \<subseteq> announced_file_streams s"
  "pending_data_frames (mark_end_stream sid fl s) = pending_data_frames s"
  "locally_open_streams (mark_end_stream sid fl s) = locally_open_streams s"
  "reset_streams (mark_end_stream sid fl s) = reset_streams s"
  "reset_unknown_order (mark_end_stream sid fl s) = reset_unknown_order s"
  by (auto simp: mark_end_stream_def Let_def split: if_splits list.splits)

lemma registry_mark_end:
  assumes "registry_ok s"
  shows "registry_ok (mark_end_stream sid fl s)"
  by (intro registry_okI closed_mark_end active_shrink [OF registry_okD(1) [OF assms]]
      reset_same [OF registry_okD(3) [OF assms]] registry_okD(2) [OF assms]) (simp_all add: mark_end_fields)

lemma reset_record:
  assumes ok: "reset_ok s" and "sid \<notin> announced_file_streams s"
  shows "reset_ok (record_reset_stream sid code s)"
proof (cases "reset_streams s sid = None \<and> \<not> is_known_stream sid s")
  case False
  then have "sid \<in> dom (reset_streams s) \<union> control_streams \<union> locally_open_streams s"
    using assms(2) by (auto simp: is_known_control)
  then show ?thesis
    using ok False unfolding reset_ok_def by (auto simp: record_reset_stream_def Let_def)
next
  case True
  then have fresh: "sid \<notin> set (reset_unknown_order s)" using ok by (auto simp: reset_ok_def)
  show ?thesis
  proof (cases "length (reset_unknown_order s) \<ge> MAX_CLOSED_STREAMS")
    case full: True
    then obtain oldest rest where o: "reset_unknown_order s = oldest # rest"
      by (cases "reset_unknown_order s") (auto simp: h2_limits)
    then show ?thesis
      using ok True full fresh unfolding reset_ok_def by (auto simp: record_reset_stream_def Let_def)
  next
    case False
    then show ?thesis
      using ok True fresh unfolding reset_ok_def by (auto simp: record_reset_stream_def Let_def)
  qed
qed

lemma record_reset_fields [simp]:
  "peer_open_streams (record_reset_stream sid code s) = peer_open_streams s"
  "file_stream_candidates (record_reset_stream sid code s) = file_stream_candidates s"
  "announced_file_streams (record_reset_stream sid code s) = announced_file_streams s"
  "pending_data_frames (record_reset_stream sid code s) = pending_data_frames s"
  "locally_open_streams (record_reset_stream sid code s) = locally_open_streams s"
  "closed_streams (record_reset_stream sid code s) = closed_streams s"
  "closed_unknown_order (record_reset_stream sid code s) = closed_unknown_order s"
  by (simp_all add: record_reset_stream_def Let_def split: list.split)

lemma registry_reset:
  assumes "registry_ok s" and "sid \<notin> announced_file_streams s"
  shows "registry_ok (record_reset_stream sid code s)"
  by (intro registry_okI active_shrink [OF registry_okD(1) [OF assms(1)]]
      closed_same [OF registry_okD(2) [OF assms(1)]] reset_record [OF registry_okD(3) [OF assms(1)] assms(2)]) simp_all

section \<open>New streams\<close>

definition table_part where
  "table_part s = (peer_open_streams s, file_stream_candidates s, announced_file_streams s, pending_data_frames s,
     closed_streams s, closed_unknown_order s, locally_open_streams s, reset_streams s, reset_unknown_order s)"

lemma registry_part_same: "registry_ok s \<Longrightarrow> table_part t = table_part s \<Longrightarrow> registry_ok t"
  by (erule registry_shrink) (simp_all add: table_part_def)

lemma registry_grow:
  assumes "registry_ok s" and "active_ok t" and "closed_streams t = closed_streams s"
    and "closed_unknown_order t = closed_unknown_order s" and "locally_open_streams t = locally_open_streams s"
    and "set (closed_unknown_order s) \<inter> announced_file_streams t = {}"
    and "reset_streams t = reset_streams s" "reset_unknown_order t = reset_unknown_order s"
  shows "registry_ok t"
proof (intro registry_okI assms(2) reset_same [OF registry_okD(3) [OF assms(1)]])
  show "closed_ok t"
    using registry_okD(2) [OF assms(1)] assms(3-6) unfolding closed_ok_def by auto
qed (use assms in simp_all)

lemma registry_track:
  assumes ok: "registry_ok s"
  shows "registry_ok (snd (track_peer_stream sid s))"
proof -
  have "registry_ok (s\<lparr>highest_peer_stream_id := sid, peer_open_streams := insert sid (peer_open_streams s)\<rparr>)"
    if "\<not> MAX_UNKNOWN_BUFFERED_STREAMS \<le> unknown_active_stream_count s"
  proof (rule registry_grow [OF ok])
    show "active_ok (s\<lparr>highest_peer_stream_id := sid, peer_open_streams := insert sid (peer_open_streams s)\<rparr>)"
      using that registry_okD(1) [OF ok] card_insert_le_m1
      by (auto simp: active_ok_def unknown_active_stream_count_def card_insert_if)
  qed (use registry_okD(2) [OF ok] in \<open>auto simp: closed_ok_def\<close>)
  then show ?thesis using ok by (simp add: track_peer_stream_def proto_err_run)
qed

lemma registry_candidate:
  assumes ok: "registry_ok s"
  shows "registry_ok (snd (register_file_stream_candidate sid s))"
proof -
  let ?t = "s\<lparr>highest_peer_stream_id := sid, file_stream_candidates := insert sid (file_stream_candidates s),
              file_stream_candidate_data := (file_stream_candidate_data s)(sid \<mapsto> [])\<rparr>"
  have "registry_ok ?t" if "\<not> MAX_UNKNOWN_BUFFERED_STREAMS \<le> unknown_active_stream_count s"
  proof (rule registry_grow [OF ok])
    show "active_ok ?t"
      using that registry_okD(1) [OF ok]
      by (auto simp: active_ok_def unknown_active_stream_count_def card_insert_if)
  qed (use registry_okD(2) [OF ok] in \<open>auto simp: closed_ok_def\<close>)
  then show ?thesis using ok by (simp add: register_file_stream_candidate_def proto_err_run)
qed

lemma registry_adopt:
  assumes ok: "registry_ok s" and open_sid: "sid \<notin> closed_streams s"
  shows "registry_ok (snd (adopt_file_stream sid s))"
proof -
  let ?t = "s\<lparr>highest_peer_stream_id := max (highest_peer_stream_id s) sid,
              announced_file_streams := insert sid (announced_file_streams s)\<rparr>"
  have "registry_ok ?t" if "\<not> MAX_ANNOUNCED_FILE_STREAMS \<le> card (announced_file_streams s)"
  proof (rule registry_grow [OF ok])
    show "active_ok ?t"
      using that registry_okD(1) [OF ok]
      by (auto simp: active_ok_def unknown_active_stream_count_def card_insert_if)
  qed (use registry_okD(2) [OF ok] open_sid in \<open>auto simp: closed_ok_def\<close>)
  then show ?thesis using ok by (simp add: adopt_file_stream_def proto_err_run)
qed

lemma registry_headers: "keeps registry_ok (observe_peer_headers sid)"
  by (rule keepsI) (simp add: observe_peer_headers_def registry_candidate registry_track)

lemma registry_data:
  assumes ok: "registry_ok s" and open_sid: "sid \<notin> closed_streams s"
  shows "registry_ok (snd (observe_peer_data_stream sid payload s))"
proof -
  have cand: "registry_ok (s\<lparr>file_stream_candidate_data := d\<rparr>)" for d
    by (rule registry_part_same [OF ok]) (simp add: table_part_def)
  have less: "registry_ok (s\<lparr>file_stream_candidates := file_stream_candidates s - {sid}, file_stream_candidate_data := d\<rparr>)" for d
    by (rule registry_shrink [OF ok]) auto
  show ?thesis
    unfolding observe_peer_data_stream_def Let_def
    using ok open_sid registry_track [OF ok] registry_adopt [OF ok]
    by (simp add: proto_err_run registry_clear registry_adopt cand less)
qed

section \<open>The other steps\<close>

lemma registry_reserve: "registry_ok s \<Longrightarrow> registry_ok (snd (reserve_stream_buffer sid n s))"
  by (auto simp: reserve_stream_buffer_def proto_err_run registry_remove registry_clear table_part_def
      split: sum.split elim: registry_part_same)

lemma registry_append: "keeps registry_ok (append_stream_data sid payload)"
proof -
  have "registry_ok (extend_stream_buffer sid payload s)" if "registry_ok s" for s
    using that by (rule registry_part_same) (simp add: table_part_def extend_stream_buffer_def)
  then show ?thesis
    unfolding append_stream_data_def using registry_reserve by (intro keeps_intros) (auto simp: keeps_def)
qed

lemma registry_admit: "keeps registry_ok (admit_frame f)"
proof (rule keepsI)
  fix s assume ok: "registry_ok s"
  have err: "registry_ok (s\<lparr>connection_error := e\<rparr>)" for e
    using ok by (rule registry_part_same) (simp add: table_part_def)
  obtain r t where r: "reserve_stream_buffer (df_stream_id f) (length (df_payload f)) s = (r, t)" by fastforce
  have t: "registry_ok t" using registry_reserve [OF ok] r by (metis snd_conv)
  have push: "registry_ok (push_pending_frame f t)"
    if "length (pending_data_frames s) < MAX_PENDING_DATA_FRAMES" "r = Ok ()"
  proof (rule registry_grow [OF t])
    have "pending_data_frames t = pending_data_frames s"
      using r that by (auto simp: reserve_stream_buffer_def proto_err_run split: if_splits sum.splits)
    then show "active_ok (push_pending_frame f t)"
      using that registry_okD(1) [OF t]
      by (simp add: active_ok_def push_pending_frame_def unknown_active_stream_count_def)
  qed (use registry_okD(2) [OF t] in \<open>auto simp: closed_ok_def push_pending_frame_def\<close>)
  show "registry_ok (snd (admit_frame f s))"
    using err push r t by (cases r) (auto simp: admit_frame_def check_pending_frames_def conn_err_def proc_simps)
qed

lemma drain_frames_tables: "table_part (drain_frames fs s) = table_part s"
  by (induction fs arbitrary: s) (simp_all add: table_part_def extend_stream_buffer_def)

lemma registry_drain: "registry_ok s \<Longrightarrow> registry_ok (drain_pending_data_frames s)"
proof -
  assume "registry_ok s"
  then have "registry_ok (s\<lparr>pending_data_frames := []\<rparr>)" by (rule registry_shrink) simp_all
  then show ?thesis
    unfolding drain_pending_data_frames_def by (rule registry_part_same) (rule drain_frames_tables)
qed

lemma take_tables: "table_part (snd (take_stream_bytes sid n s)) = table_part s"
  by (simp add: take_stream_bytes_def proto_err_run table_part_def split: option.split)

lemma registry_pop: "keeps registry_ok pop_pending_frame"
  by (rule keepsI, erule registry_shrink) (simp_all add: pop_pending_frame_def split: list.split)

lemma conn_err_tables: "table_part (snd (conn_err msg args s)) = table_part s"
  by (simp add: table_part_def conn_err_def)

lemma window_tables:
  "table_part (s\<lparr>outbound_connection_window := v\<rparr>) = table_part s"
  "table_part (s\<lparr>outbound_stream_windows := w\<rparr>) = table_part s"
  "table_part (s\<lparr>peer_initial_window_size := i\<rparr>) = table_part s"
  "table_part (s\<lparr>outbound_max_frame_size := n\<rparr>) = table_part s"
  by (simp_all add: table_part_def)

lemma flow_tables:
  "table_part (snd (process_window_update sid payload s)) = table_part s"
  "table_part (snd (apply_initial_window iw s)) = table_part s"
  "table_part (apply_max_frame_size mf s) = table_part s"
  "table_part (snd (consume_outbound_window sid n s)) = table_part s"
  unfolding process_window_update_def apply_initial_window_def apply_max_frame_size_def
    consume_outbound_window_def Let_def
  by (simp_all add: conn_err_tables proto_err_run window_tables split: option.split sum.split prod.split)

lemma registry_opened:
  assumes ok: "registry_ok s" and "sid \<notin> closed_streams s"
  shows "registry_ok (register_open_stream sid s)"
proof (intro registry_okI)
  show "active_ok (register_open_stream sid s)"
    by (rule active_shrink [OF registry_okD(1) [OF ok]]) (auto simp: register_open_stream_def Let_def)
  show "closed_ok (register_open_stream sid s)"
    using registry_okD(2) [OF ok] assms(2) unfolding closed_ok_def by (auto simp: register_open_stream_def Let_def)
  show "reset_ok (register_open_stream sid s)"
    by (rule reset_same [OF registry_okD(3) [OF ok]]) (auto simp: register_open_stream_def Let_def)
qed

interpretation h2_registry: registry_invariant registry_ok
proof (unfold_locales, goal_cases)
  case (1 s t)
  then show ?case by (auto simp: registry_part_def table_part_def intro: registry_part_same)
next
  case (7 s sid code)
  have "registry_ok ((clear_stream_buffer sid s)\<lparr>outbound_stream_windows := w\<rparr>)" for w
    by (rule registry_part_same [OF registry_clear [OF 7]]) (rule window_tables)
  moreover have "sid \<notin> announced_file_streams (clear_stream_buffer sid s)"
    by (simp add: clear_stream_buffer_def Let_def)
  ultimately show ?case by (intro registry_reset) simp_all
qed (auto intro: registry_headers registry_data registry_append registry_admit registry_mark_end registry_drain
    registry_pop registry_opened keepsI registry_part_same flow_tables take_tables)

lemma registry_new: "registry_ok (H2Framer_new k)"
  by (simp add: registry_ok_def active_ok_def closed_ok_def reset_ok_def unknown_active_stream_count_def
      H2Framer_new_def)

section \<open>Windows\<close>

definition windows_ok :: "h2 \<Rightarrow> bool" where
  "windows_ok s \<longleftrightarrow>
     0 \<le> outbound_connection_window s \<and> outbound_connection_window s \<le> MAX_FLOW_CONTROL_WINDOW \<and>
     0 \<le> peer_initial_window_size s \<and> peer_initial_window_size s \<le> MAX_FLOW_CONTROL_WINDOW \<and>
     (\<forall>sid w. outbound_stream_windows s sid = Some w \<longrightarrow>
        - MAX_FLOW_CONTROL_WINDOW \<le> w \<and> w \<le> MAX_FLOW_CONTROL_WINDOW) \<and>
     MAX_FRAME_PAYLOAD \<le> outbound_max_frame_size s \<and> outbound_max_frame_size s \<le> MAX_NEGOTIATED_FRAME_SIZE"

definition settings_in_range :: "int option \<times> nat option \<Rightarrow> bool" where
  "settings_in_range acc \<longleftrightarrow>
     pred_option (\<lambda>v. 0 \<le> v \<and> v \<le> MAX_FLOW_CONTROL_WINDOW) (fst acc) \<and>
     pred_option (\<lambda>v. MAX_FRAME_PAYLOAD \<le> v \<and> v \<le> MAX_NEGOTIATED_FRAME_SIZE) (snd acc)"

lemma parse_settings_range:
  "parse_settings payload acc = Inr r \<Longrightarrow> settings_in_range acc \<Longrightarrow> settings_in_range r"
proof (induction payload acc rule: parse_settings.induct)
  case (1 a b c d e f rest iw mf)
  define v where "v = unat (from_be32 [c, d, e, f])"
  define i where "i = from_be16 [a, b]"
  note IH = "1.IH" [OF i_def v_def]
  have step: "parse_settings (a # b # c # d # e # f # rest) (iw, mf) =
    (if i = SETTINGS_INITIAL_WINDOW_SIZE then
        if int v > MAX_FLOW_CONTROL_WINDOW
        then Inl (''SETTINGS_INITIAL_WINDOW_SIZE {value} exceeds {MAX_FLOW_CONTROL_WINDOW}'',
                  [int v, MAX_FLOW_CONTROL_WINDOW])
        else parse_settings rest (Some (int v), mf)
      else if i = SETTINGS_MAX_FRAME_SIZE then
        if \<not> (MAX_FRAME_PAYLOAD \<le> v \<and> v \<le> MAX_NEGOTIATED_FRAME_SIZE)
        then Inl (''SETTINGS_MAX_FRAME_SIZE {value} is outside {}..={MAX_NEGOTIATED_FRAME_SIZE}'',
                  [int v, int MAX_FRAME_PAYLOAD, int MAX_NEGOTIATED_FRAME_SIZE])
        else parse_settings rest (iw, Some v)
      else parse_settings rest (iw, mf))"
    by (simp only: parse_settings.simps(1) Let_def i_def v_def)
  show ?case
    using "1.prems" IH unfolding step by (auto simp: settings_in_range_def split: if_splits)
qed auto

lemma shifted_windows_range:
  "shifted_windows sids delta w = Inr r \<Longrightarrow> map_of r sid = Some v \<Longrightarrow>
   - MAX_FLOW_CONTROL_WINDOW \<le> v \<and> v \<le> MAX_FLOW_CONTROL_WINDOW"
  by (induction sids delta w arbitrary: r rule: shifted_windows.induct)
    (auto simp: attempt_Inr_iff split: option.splits if_splits)

definition window_part where
  "window_part s = (outbound_connection_window s, peer_initial_window_size s, outbound_stream_windows s,
     outbound_max_frame_size s)"

lemma windows_part_same: "windows_ok s \<Longrightarrow> window_part t = window_part s \<Longrightarrow> windows_ok t"
  by (simp add: windows_ok_def window_part_def)

lemma window_part_registry [simp]:
  "window_part (remove_closed_stream_tombstone sid s) = window_part s"
  "window_part (drop_stream_bytes sid s) = window_part s"
  "window_part (extend_stream_buffer sid bs s) = window_part s"
  "window_part (push_pending_frame f s) = window_part s"
  "window_part (mark_end_stream sid fl s) = window_part s"
  "window_part (record_reset_stream sid code s) = window_part s"
  "window_part (snd (take_stream_bytes sid n s)) = window_part s"
  "window_part (snd (pop_pending_frame s)) = window_part s"
  "window_part (snd (conn_err msg args s)) = window_part s"
  by (simp_all add: window_part_def remove_closed_stream_tombstone_def drop_stream_bytes_def
      extend_stream_buffer_def push_pending_frame_def mark_end_stream_def record_reset_stream_def
      take_stream_bytes_def pop_pending_frame_def conn_err_def proto_err_run Let_def
      split: list.split option.split)

lemma window_part_clear [simp]: "window_part (clear_stream_buffer sid s) = window_part s"
proof -
  have "window_part (clear_stream_buffer sid s) =
    window_part (remove_closed_stream_tombstone sid (drop_stream_bytes sid s))"
    by (simp add: clear_stream_buffer_def Let_def window_part_def)
  then show ?thesis by simp
qed

lemma window_part_peer [simp]:
  "window_part (snd (track_peer_stream sid s)) = window_part s"
  "window_part (snd (adopt_file_stream sid s)) = window_part s"
  "window_part (snd (register_file_stream_candidate sid s)) = window_part s"
  by (simp_all add: track_peer_stream_def adopt_file_stream_def register_file_stream_candidate_def
      proto_err_run window_part_def)

lemma window_part_candidate [simp]:
  "window_part (s\<lparr>file_stream_candidate_data := d\<rparr>) = window_part s"
  "window_part (s\<lparr>file_stream_candidates := c\<rparr>) = window_part s"
  "window_part (s\<lparr>buffered_bytes := n\<rparr>) = window_part s"
  by (simp_all add: window_part_def)

lemma window_part_observe [simp]:
  "window_part (snd (observe_peer_headers sid s)) = window_part s"
  "window_part (snd (observe_peer_data_stream sid payload s)) = window_part s"
  "window_part (snd (reserve_stream_buffer sid n s)) = window_part s"
  by (simp_all add: observe_peer_headers_def observe_peer_data_stream_def reserve_stream_buffer_def
      proto_err_run Let_def split: sum.split)

lemma untouched_window_append [keeps_intros]: "untouched window_part (append_stream_data sid payload)"
  unfolding append_stream_data_def by (intro keeps_intros) (auto simp: untouched_def)

lemma untouched_window_admit [keeps_intros]: "untouched window_part (admit_frame f)"
  unfolding admit_frame_def check_pending_frames_def
  by (intro keeps_intros) (auto simp: untouched_def)

lemma drain_frames_windows: "window_part (drain_frames fs s) = window_part s"
  by (induction fs arbitrary: s) simp_all

lemma window_part_drain [simp]: "window_part (drain_pending_data_frames s) = window_part s"
  by (simp add: drain_pending_data_frames_def drain_frames_windows) (simp add: window_part_def)

lemma windows_remove: "windows_ok s \<Longrightarrow> windows_ok (s\<lparr>outbound_stream_windows := (outbound_stream_windows s)(sid := None)\<rparr>)"
  by (simp add: windows_ok_def)

lemma windows_set:
  "windows_ok s \<Longrightarrow> - MAX_FLOW_CONTROL_WINDOW \<le> v \<Longrightarrow> v \<le> MAX_FLOW_CONTROL_WINDOW \<Longrightarrow>
   windows_ok (s\<lparr>outbound_stream_windows := (outbound_stream_windows s)(sid \<mapsto> v)\<rparr>)"
  by (simp add: windows_ok_def)

lemma windows_stream:
  assumes "windows_ok s" and "outbound_stream_windows s sid = Some w"
  shows "- MAX_FLOW_CONTROL_WINDOW \<le> w" "w \<le> MAX_FLOW_CONTROL_WINDOW"
  using assms by (simp_all add: windows_ok_def)

lemma windows_conn_err: "windows_ok s \<Longrightarrow> windows_ok (snd (conn_err msg args s))"
  by (erule windows_part_same) simp

lemma windows_update: "keeps windows_ok (process_window_update sid payload)"
proof (rule keepsI)
  fix s assume ok: "windows_ok s"
  have conn: "windows_ok (s\<lparr>outbound_connection_window := v\<rparr>)"
    if "i64_checked_add (outbound_connection_window s) (uint (i :: u32)) = Some v" "\<not> MAX_FLOW_CONTROL_WINDOW < v" for i v
    using ok that by (auto simp: windows_ok_def i64_checked_add_def split: if_splits)
  have str: "windows_ok (s\<lparr>outbound_stream_windows := (outbound_stream_windows s)(sid \<mapsto> v)\<rparr>)"
    if "outbound_stream_windows s sid = Some w" "i64_checked_add w (uint (i :: u32)) = Some v"
      "\<not> MAX_FLOW_CONTROL_WINDOW < v" for i v w
  proof (intro windows_set ok)
    have "v = w + uint i" using that(2) by (simp add: i64_checked_add_def split: if_splits)
    then show "- MAX_FLOW_CONTROL_WINDOW \<le> v"
      using windows_stream [OF ok that(1)] uint_ge_0 [of i] by linarith
  qed (use that in simp)
  show "windows_ok (snd (process_window_update sid payload s))"
    unfolding process_window_update_def Let_def
    using ok by (auto simp: windows_conn_err proto_err_run conn str split: option.split)
qed

lemma windows_initial:
  assumes "parse_settings payload (None, None) = Inr (iw, mf)"
  shows "keeps windows_ok (apply_initial_window iw)"
proof (rule keepsI)
  fix s assume ok: "windows_ok s"
  have iw: "pred_option (\<lambda>v. 0 \<le> v \<and> v \<le> MAX_FLOW_CONTROL_WINDOW) iw"
    using parse_settings_range [OF assms] by (simp add: settings_in_range_def)
  have "windows_ok (s\<lparr>outbound_stream_windows := outbound_stream_windows s ++ map_of r, peer_initial_window_size := v\<rparr>)"
    if "iw = Some v" "shifted_windows sids d (outbound_stream_windows s) = Inr r" for sids d r v
    using ok iw that shifted_windows_range [OF that(2)]
    by (auto simp: windows_ok_def map_add_Some_iff dest: windows_stream [OF ok])
  then show "windows_ok (snd (apply_initial_window iw s))"
    using ok by (auto simp: apply_initial_window_def Let_def windows_conn_err split: option.splits sum.splits)
qed

lemma windows_frame_size:
  "parse_settings payload (None, None) = Inr (iw, mf) \<Longrightarrow> windows_ok s \<Longrightarrow> windows_ok (apply_max_frame_size mf s)"
  using parse_settings_range [of payload "(None, None)" "(iw, mf)"]
  by (auto simp: apply_max_frame_size_def windows_ok_def settings_in_range_def split: option.splits)

lemma windows_consume: "keeps windows_ok (consume_outbound_window sid n)"
proof (rule keepsI)
  fix s assume ok: "windows_ok s"
  have "windows_ok (s\<lparr>outbound_connection_window := outbound_connection_window s - int n,
      outbound_stream_windows := (outbound_stream_windows s)(sid \<mapsto> w - int n)\<rparr>)"
    if "outbound_stream_windows s sid = Some w" "int n \<le> outbound_connection_window s" "int n \<le> w" for w
  proof -
    have "windows_ok (s\<lparr>outbound_connection_window := outbound_connection_window s - int n\<rparr>)"
      using ok that by (simp add: windows_ok_def)
    from windows_set [OF this, of "w - int n" sid] windows_stream [OF ok that(1)] that
    show ?thesis by (simp add: h2_limits)
  qed
  then show "windows_ok (snd (consume_outbound_window sid n s))"
    using ok by (auto simp: consume_outbound_window_def windows_conn_err proto_err_run not_less split: option.split)
qed

lemma windows_opened: "windows_ok s \<Longrightarrow> windows_ok (register_open_stream sid s)"
  by (auto simp: windows_ok_def register_open_stream_def Let_def h2_limits)

lemma windows_steps:
  "keeps windows_ok (observe_peer_headers sid)"
  "keeps windows_ok (take_stream_bytes sid n)"
  "keeps windows_ok pop_pending_frame"
  "keeps windows_ok (append_stream_data sid payload)"
  "keeps windows_ok (admit_frame f)"
  using untouched_window_append untouched_window_admit
  by (auto simp: keeps_def untouched_def elim: windows_part_same)

interpretation h2_windows: registry_invariant windows_ok
proof (unfold_locales, goal_cases)
  case (1 s t)
  then show ?case by (auto simp: registry_part_def window_part_def intro: windows_part_same)
next
  case (7 s sid code)
  have "windows_ok (clear_stream_buffer sid s)" by (rule windows_part_same [OF 7]) simp
  then show ?case using windows_part_same [OF windows_remove] by simp
qed (auto intro: windows_initial windows_frame_size windows_update windows_consume windows_opened windows_steps
    elim: windows_part_same)

lemma windows_new: "windows_ok (H2Framer_new k)"
  by (simp add: windows_ok_def H2Framer_new_def h2_limits)

end
