(* ===== verification/H2_Wire.thy ===== *)
theory H2_Wire
  imports H2_Bounds
begin

text \<open>
  What the HTTP/2 framer puts on the wire. An operation may be cancelled or fail in the middle of
  a write; the unsent rest of the frame is kept and sent before anything else. So the wire,
  together with that rest, is always a sequence of whole frames (\<open>framed\<close>).
\<close>

section \<open>Operations that do not write\<close>

definition wire_part :: "h2 \<Rightarrow> bytes \<times> bytes option" where
  "wire_part s = (wire (stream s), pending_write s)"

lemma wire_part_registry [simp]:
  "wire_part (remove_closed_stream_tombstone sid s) = wire_part s"
  "wire_part (drop_stream_bytes sid s) = wire_part s"
  "wire_part (extend_stream_buffer sid bs s) = wire_part s"
  "wire_part (push_pending_frame f s) = wire_part s"
  "wire_part (mark_end_stream sid fl s) = wire_part s"
  "wire_part (record_reset_stream sid code s) = wire_part s"
  "wire_part (register_open_stream sid s) = wire_part s"
  "wire_part (apply_max_frame_size mf s) = wire_part s"
  by (simp_all add: wire_part_def remove_closed_stream_tombstone_def drop_stream_bytes_def
      extend_stream_buffer_def push_pending_frame_def mark_end_stream_def record_reset_stream_def
      register_open_stream_def apply_max_frame_size_def Let_def split: list.split option.split)

lemma wire_part_steps [simp]:
  "wire_part (snd (take_stream_bytes sid n s)) = wire_part s"
  "wire_part (snd (pop_pending_frame s)) = wire_part s"
  "wire_part (snd (conn_err msg args s)) = wire_part s"
  "wire_part (snd (track_peer_stream sid s)) = wire_part s"
  "wire_part (snd (adopt_file_stream sid s)) = wire_part s"
  "wire_part (snd (register_file_stream_candidate sid s)) = wire_part s"
  by (simp_all add: wire_part_def take_stream_bytes_def pop_pending_frame_def conn_err_def
      track_peer_stream_def adopt_file_stream_def register_file_stream_candidate_def proto_err_run
      split: list.split option.split)

lemma wire_part_update [simp]:
  "wire_part (s\<lparr>file_stream_candidate_data := d\<rparr>) = wire_part s"
  "wire_part (s\<lparr>file_stream_candidates := c\<rparr>) = wire_part s"
  "wire_part (s\<lparr>buffered_bytes := n\<rparr>) = wire_part s"
  "wire_part (s\<lparr>pending_data_frames := q\<rparr>) = wire_part s"
  "wire_part (s\<lparr>outbound_connection_window := v\<rparr>) = wire_part s"
  "wire_part (s\<lparr>outbound_stream_windows := w\<rparr>) = wire_part s"
  "wire_part (s\<lparr>peer_initial_window_size := i\<rparr>) = wire_part s"
  "wire_part (s\<lparr>pending_window_updates := u\<rparr>) = wire_part s"
  "wire_part (s\<lparr>goaway := g\<rparr>) = wire_part s"
  "wire_part (s\<lparr>connection_error := e\<rparr>) = wire_part s"
  "wire_part (s\<lparr>message_read_in_progress := b\<rparr>) = wire_part s"
  "wire_part (s\<lparr>open_stream_in_progress := p\<rparr>) = wire_part s"
  "wire_part (s\<lparr>window_update_in_progress := b\<rparr>) = wire_part s"
  "wire_part (s\<lparr>stream := (stream s)\<lparr>rx := rs, wx := ws, fx := fls\<rparr>\<rparr>) = wire_part s"
  by (simp_all add: wire_part_def)

lemma wire_part_clear [simp]: "wire_part (clear_stream_buffer sid s) = wire_part s"
proof -
  have "wire_part (clear_stream_buffer sid s) =
    wire_part (remove_closed_stream_tombstone sid (drop_stream_bytes sid s))"
    by (simp add: clear_stream_buffer_def Let_def wire_part_def)
  then show ?thesis by simp
qed

lemma wire_part_observe [simp]:
  "wire_part (snd (observe_peer_headers sid s)) = wire_part s"
  "wire_part (snd (observe_peer_data_stream sid payload s)) = wire_part s"
  "wire_part (snd (reserve_stream_buffer sid n s)) = wire_part s"
  "wire_part (snd (process_goaway sid payload s)) = wire_part s"
  "wire_part (snd (dispatch_rst_stream sid payload s)) = wire_part s"
  by (simp_all add: observe_peer_headers_def observe_peer_data_stream_def reserve_stream_buffer_def
      process_goaway_def dispatch_rst_stream_def proto_err_run Let_def split: sum.split option.split)

lemma wire_part_flow [simp]:
  "wire_part (snd (process_window_update sid payload s)) = wire_part s"
  "wire_part (snd (apply_initial_window iw s)) = wire_part s"
  "wire_part (snd (consume_outbound_window sid n s)) = wire_part s"
  unfolding process_window_update_def apply_initial_window_def consume_outbound_window_def Let_def
  by (simp_all add: proto_err_run split: option.split sum.split prod.split)

lemma untouched_wire [keeps_intros]:
  "untouched wire_part (append_stream_data sid payload)"
  "untouched wire_part (admit_frame f)"
  unfolding append_stream_data_def admit_frame_def check_pending_frames_def
  by (intro keeps_intros; auto simp: untouched_def)+

lemma drain_frames_wire: "wire_part (drain_frames fs s) = wire_part s"
  by (induction fs arbitrary: s) simp_all

lemma wire_part_drain [simp]: "wire_part (drain_pending_data_frames s) = wire_part s"
  by (simp add: drain_pending_data_frames_def drain_frames_wire)

section \<open>Writing\<close>

definition unsent :: "h2 \<Rightarrow> bytes" where
  "unsent s = (case pending_write s of None \<Rightarrow> [] | Some p \<Rightarrow> p)"

text \<open>A write splits its bytes into what the transport took and what is kept.\<close>

lemma write_frame_bytes_split:
  assumes "write_frame_bytes bs s = (r, t)" and "pending_write s = None"
  shows "wire (stream t) @ unsent t = wire (stream s) @ bs \<and> (r = Ok () \<longrightarrow> pending_write t = None)"
proof -
  obtain r' es sent left where w: "wx_all bs (wx (stream s)) = (r', es, sent, left)"
    by (metis prod_cases4)
  then show ?thesis
    using wx_all_split [OF w] assms
    by (auto simp: write_frame_bytes_def unsent_def h2_io_outcome_def split: if_splits outcome.splits)
qed

lemma finish_split:
  assumes "finish_pending_write s = (r, t)"
  shows "wire (stream t) @ unsent t = wire (stream s) @ unsent s \<and> (r = Ok () \<longrightarrow> pending_write t = None)"
proof (cases "pending_write s")
  case None
  then show ?thesis using assms by (auto simp: finish_pending_write_def)
next
  case (Some p)
  then show ?thesis
    using assms write_frame_bytes_split [of p "s\<lparr>pending_write := None\<rparr>" r t]
    by (auto simp: finish_pending_write_def unsent_def)
qed

lemma write_all_split:
  assumes "write_all_tracked f s = (r, t)"
  shows "(wire (stream t) @ unsent t = wire (stream s) @ unsent s @ f \<or>
          r \<noteq> Ok () \<and> wire (stream t) @ unsent t = wire (stream s) @ unsent s) \<and>
         (r = Ok () \<longrightarrow> pending_write t = None)"
proof -
  obtain r1 s1 where fin: "finish_pending_write s = (r1, s1)" by fastforce
  show ?thesis
  proof (cases "r1 = Ok ()")
    case True
    then have "write_frame_bytes f s1 = (r, t)" using assms fin by (simp add: write_all_tracked_def)
    then show ?thesis
      using write_frame_bytes_split [of f s1 r t] finish_split [OF fin] True by (auto simp: unsent_def)
  next
    case False
    then have "t = s1 \<and> r \<noteq> Ok ()"
      using assms fin by (cases r1) (auto simp: write_all_tracked_def)
    then show ?thesis using finish_split [OF fin] by auto
  qed
qed

section \<open>Whole frames\<close>

definition framed :: "bytes \<Rightarrow> h2 \<Rightarrow> bool" where
  "framed w0 s \<longleftrightarrow> (\<exists>fs. list_all whole_frame fs \<and> wire (stream s) @ unsent s = w0 @ concat fs)"

definition framed_windows :: "bytes \<Rightarrow> h2 \<Rightarrow> bool" where
  "framed_windows w0 s \<longleftrightarrow> windows_ok s \<and> framed w0 s"

lemma framed_same:
  "framed w0 s \<Longrightarrow> wire (stream t) @ unsent t = wire (stream s) @ unsent s \<Longrightarrow> framed w0 t"
  by (simp add: framed_def)

lemma framed_part: "framed w0 s \<Longrightarrow> wire_part t = wire_part s \<Longrightarrow> framed w0 t"
  by (erule framed_same) (simp add: wire_part_def unsent_def)

lemma framed_append:
  assumes "framed w0 s" and "wire (stream t) @ unsent t = wire (stream s) @ unsent s @ f" and "whole_frame f"
  shows "framed w0 t"
proof -
  from assms(1) obtain fs where "list_all whole_frame fs" "wire (stream s) @ unsent s = w0 @ concat fs"
    by (auto simp: framed_def)
  then have "wire (stream t) @ unsent t = w0 @ concat (fs @ [f]) \<and> list_all whole_frame (fs @ [f])"
    using assms(2,3) append.assoc [of "wire (stream s)" "unsent s" f] by simp
  then show ?thesis unfolding framed_def by blast
qed

lemma framed_write_all:
  assumes "framed w0 s" and "whole_frame f"
  shows "framed w0 (snd (write_all_tracked f s))"
proof -
  obtain r t where w: "write_all_tracked f s = (r, t)" by fastforce
  show ?thesis
    using write_all_split [OF w] w framed_append [OF assms(1) _ assms(2), of t] framed_same [OF assms(1), of t] by auto
qed

lemma framed_flush: "framed w0 s \<Longrightarrow> framed w0 (snd (on_h2 sock_flush s))"
  by (erule framed_part)
    (simp add: wire_part_def on_h2_def on_stream_state sock_flush_def split: list.split fx_event.split)

lemma framed_finish: "framed w0 s \<Longrightarrow> framed w0 (snd (finish_pending_write s))"
  using finish_split [of s] by (metis framed_same prod.collapse)

lemma untouched_wire_read:
  "untouched wire_part fill_header" "untouched wire_part frame_meta"
  "untouched wire_part (fill_payload n)" "untouched wire_part (finish_frame fm)"
  by (simp_all add: untouched_def wire_part_def fill_header_def frame_meta_def fill_payload_def finish_frame_def
      conn_err_def split: prod.split option.split)

lemma framed_untouched: "untouched wire_part m \<Longrightarrow> keeps (framed w0) m"
  by (auto simp: keeps_def untouched_def intro: framed_part)

lemma framed_read: "keeps (framed w0) read_raw_frame"
  unfolding read_raw_frame_def
  by (intro keeps_intros framed_untouched [OF untouched_wire_read(1)] framed_untouched [OF untouched_wire_read(2)]
      framed_untouched [OF untouched_wire_read(3)] framed_untouched [OF untouched_wire_read(4)])
    (simp add: keeps_def framed_finish)

lemma framed_windows_keeps:
  "keeps windows_ok m \<Longrightarrow> keeps (framed w0) m \<Longrightarrow> keeps (framed_windows w0) m"
  by (simp add: keeps_def framed_windows_def)

text \<open>A chunk of data is never longer than the frame size, so its length fits the header.\<close>

lemma budget_frame_size:
  "outbound_budget sid s = Inr k \<Longrightarrow> k \<le> outbound_max_frame_size s"
  by (auto simp: outbound_budget_def attempt_Inr_iff split: if_splits)

lemma framed_send:
  assumes "windows_ok s" "framed w0 s" and "outbound_budget sid s = Inr k"
  shows "framed w0 (snd (send_chunk sid (take k bs) s))"
proof -
  have "length (take k bs) \<le> MAX_NEGOTIATED_FRAME_SIZE"
    using assms(1) budget_frame_size [OF assms(3)] by (auto simp: windows_ok_def)
  then have whole: "whole_frame (build_data_frame sid (take k bs))"
    unfolding build_data_frame_def by (rule build_frame_whole)
  have "framed w0 (snd (consume_outbound_window sid n s))" for n
    using assms(2) by (rule framed_part) simp
  then show ?thesis
    unfolding send_chunk_def
    by (auto simp: and_then_def split: prod.splits outcome.splits)
      (metis framed_write_all [OF _ whole] snd_conv)+
qed

interpretation h2_framing: framer_invariant "framed_windows w0" for w0
proof (unfold_locales, goal_cases)
  case 6
  show ?case by (intro framed_windows_keeps h2_windows.ops.finish) (simp add: keeps_def framed_finish)
next
  case (7 f)
  then show ?case by (intro framed_windows_keeps h2_windows.ops.transmit) (simp_all add: keeps_def framed_write_all)
next
  case 8
  show ?case by (intro framed_windows_keeps h2_windows.ops.flush) (simp add: keeps_def framed_flush)
next
  case 9
  show ?case by (intro framed_windows_keeps h2_windows.ops.read framed_read)
next
  case (20 s sid k bs)
  then show ?case by (simp add: framed_windows_def framed_send h2_windows.ops.send)
qed (auto simp: framed_windows_def keeps_def untouched_wire [unfolded untouched_def]
    h2_windows.ops.world h2_windows.ops.error h2_windows.ops.body_mark h2_windows.ops.open_mark h2_windows.ops.update_mark
    h2_windows.ops.updates h2_windows.ops.data h2_windows.ops.mark_end h2_windows.ops.frame_size
    h2_windows.ops.drain h2_windows.ops.opened
    h2_windows.ops.step_keeps [THEN keeps_snd] elim!: framed_part)

lemma framed_new: "framed_windows (wire k) (H2Framer_new k)"
  unfolding framed_windows_def framed_def
  by (intro conjI windows_new exI [of _ "[]"]) (simp_all add: H2Framer_new_def unsent_def)

end
