(* ===== verification/H2_Read.thy ===== *)
theory H2_Read
  imports H2_Wire
begin

text \<open>
  The resumable frame reader of the HTTP/2 framer. \<open>received\<close> are the bytes that arrived and
  belong to no frame yet: the part of a frame the reader keeps, and what the transport still
  holds. A read that fails or is cancelled loses none of them; a read that succeeds takes exactly
  one frame.
\<close>

section \<open>Frames and their encoding\<close>

definition frame_header :: "byte \<Rightarrow> byte \<Rightarrow> u32 \<Rightarrow> nat \<Rightarrow> bytes" where
  "frame_header ft fl sid len =
     [of_nat (len div 65536 mod 256), of_nat (len div 256 mod 256), of_nat (len mod 256), ft, fl] @
     to_be32 (sid AND 0x7FFFFFFF)"

lemma build_frame_header: "build_frame ft fl sid p = frame_header ft fl sid (length p) @ p"
  by (simp add: build_frame_def frame_header_def)

lemma length_frame_header [simp]: "length (frame_header ft fl sid len) = 9"
  by (simp add: frame_header_def)

lemma parse_frame_header_build:
  assumes "len \<le> MAX_NEGOTIATED_FRAME_SIZE"
  shows "parse_frame_header (frame_header ft fl sid len) = (ft, fl, sid AND 0x7FFFFFFF, len)"
proof -
  have "len div 65536 < 256" using assms by (simp add: h2_limits)
  then have "unat (of_nat (len div 65536) :: byte) = len div 65536" "len div 65536 mod 256 = len div 65536"
    by (simp_all add: unat_of_nat)
  then show ?thesis
    using be24_split [of len]
    by (simp add: parse_frame_header_def frame_header_def unat_byte_mod and.assoc)
qed

section \<open>The state of the reader\<close>

definition reader_ok :: "h2 \<Rightarrow> bool" where
  "reader_ok s \<longleftrightarrow> length (partial_header s) \<le> 9 \<and>
     (case pending_frame_meta s of
        None \<Rightarrow> payload_buf s = []
      | Some (ft, fl, sid, len) \<Rightarrow>
          length (partial_header s) = 9 \<and> parse_frame_header (partial_header s) = (ft, fl, sid, len) \<and>
          len \<le> MAX_FRAME_PAYLOAD \<and> length (payload_buf s) \<le> len)"

definition received :: "h2 \<Rightarrow> bytes" where
  "received s = partial_header s @ payload_buf s @ rx_bytes (rx (stream s))"

lemma reader_ok_part: "reader_ok s \<Longrightarrow> reader_part t = reader_part s \<Longrightarrow> reader_ok t"
  by (auto simp: reader_ok_def reader_part_def split: option.splits)

lemma received_part: "reader_part t = reader_part s \<Longrightarrow> received t = received s"
  by (simp add: received_def reader_part_def)

lemma fill_header_spec:
  assumes "fill_header s = (r, t)" and "reader_ok s"
  shows "reader_ok t \<and> received t = received s \<and> (r = Ok () \<longrightarrow> length (partial_header t) = 9)"
proof -
  obtain r' h es where f: "rx_fill 9 (partial_header s) (rx (stream s)) = (r', h, es)" by (metis prod_cases3)
  have "length (partial_header s) \<le> 9" using assms(2) by (simp add: reader_ok_def)
  from rx_fill_spec [OF f this] obtain x where x: "h = partial_header s @ x" "rx_bytes (rx (stream s)) = x @ rx_bytes es"
    "length h \<le> 9" "r' = Ok () \<longleftrightarrow> length h = 9" by blast
  have t: "t = s\<lparr>partial_header := h, stream := (stream s)\<lparr>rx := es\<rparr>\<rparr>" "r = h2_io_outcome r'"
    using assms(1) f by (auto simp: fill_header_def)
  have "x = []" if "pending_frame_meta s \<noteq> None"
    using that assms(2) x(1,3) by (auto simp: reader_ok_def)
  moreover have "payload_buf s = []" if "pending_frame_meta s = None"
    using that assms(2) by (simp add: reader_ok_def)
  ultimately show ?thesis
    using assms(2) x t by (cases "pending_frame_meta s") (auto simp: reader_ok_def received_def)
qed

lemma frame_meta_spec:
  assumes "frame_meta s = (r, t)" and "reader_ok s" and "length (partial_header s) = 9"
  shows "reader_ok t \<and> received t = received s \<and>
    (\<forall>m. r = Ok m \<longrightarrow> pending_frame_meta t = Some m)"
  using assms
  by (auto simp: frame_meta_def conn_err_def reader_ok_def received_def split: option.splits prod.splits if_splits)

lemma fill_payload_spec:
  assumes "fill_payload len s = (r, t)" and "reader_ok s" and "pending_frame_meta s = Some (ft, fl, sid, len)"
  shows "reader_ok t \<and> received t = received s \<and> pending_frame_meta t = Some (ft, fl, sid, len) \<and>
    (r = Ok () \<longrightarrow> length (payload_buf t) = len)"
proof (cases "len > 0")
  case False
  then show ?thesis using assms by (auto simp: fill_payload_def reader_ok_def)
next
  case True
  obtain r' p es where f: "rx_fill len (payload_buf s) (rx (stream s)) = (r', p, es)" by (metis prod_cases3)
  have "length (payload_buf s) \<le> len" using assms by (simp add: reader_ok_def)
  from rx_fill_spec [OF f this] obtain x where "p = payload_buf s @ x" "rx_bytes (rx (stream s)) = x @ rx_bytes es"
    "length p \<le> len" "r' = Ok () \<longleftrightarrow> length p = len" by blast
  moreover have "t = s\<lparr>payload_buf := p, stream := (stream s)\<lparr>rx := es\<rparr>\<rparr>" "r = h2_io_outcome r'"
    using assms(1) f True by (auto simp: fill_payload_def)
  ultimately show ?thesis using assms(2,3) by (auto simp: reader_ok_def received_def)
qed

text \<open>One frame, or nothing.\<close>

definition takes_frame :: "h2 \<Rightarrow> (h2_error, raw_frame) outcome \<Rightarrow> h2 \<Rightarrow> bool" where
  "takes_frame s r t \<longleftrightarrow> (case r of
       Ok f \<Rightarrow> (\<exists>h. length h = 9 \<and>
                 parse_frame_header h = (rf_frame_type f, rf_flags f, rf_stream_id f, length (rf_payload f)) \<and>
                 received s = h @ rf_payload f @ received t)
     | _ \<Rightarrow> received t = received s)"

lemma finish_frame_spec:
  assumes "finish_frame m s = (r, t)" and "reader_ok s" and "pending_frame_meta s = Some m"
    and "length (payload_buf s) = snd (snd (snd m))"
  shows "reader_ok t \<and> takes_frame s r t"
  using assms by (auto simp: finish_frame_def reader_ok_def takes_frame_def received_def split: prod.splits)

lemma takes_frame_from: "takes_frame s r t \<Longrightarrow> received s = received s0 \<Longrightarrow> takes_frame s0 r t"
  by (simp add: takes_frame_def split: outcome.splits)

lemma takes_nothing: "received t = received s \<Longrightarrow> (\<And>f. r \<noteq> Ok f) \<Longrightarrow> takes_frame s r t"
  by (simp add: takes_frame_def split: outcome.splits)

lemma read_raw_frame_takes:
  assumes "read_raw_frame s = (r, t)" and "reader_ok s"
  shows "reader_ok t \<and> takes_frame s r t"
proof -
  obtain r0 s0 where 0: "check ensure_connection_open s = (r0, s0)" by fastforce
  obtain r1 s1 where 1: "finish_pending_write s0 = (r1, s1)" by fastforce
  obtain r2 s2 where 2: "fill_header s1 = (r2, s2)" by fastforce
  obtain r3 s3 where 3: "frame_meta s2 = (r3, s3)" by fastforce
  have s0: "s0 = s" using 0 by (rule check_state)
  have part: "reader_part s1 = reader_part s" using finish_reader [of s0] 1 s0 by simp
  have ok1: "reader_ok s1" "received s1 = received s"
    using reader_ok_part [OF assms(2) part] received_part [OF part] by auto
  note h = fill_header_spec [OF 2 ok1(1)]
  show ?thesis
  proof (cases "\<exists>x0 x1 x2 m. r0 = Ok x0 \<and> r1 = Ok x1 \<and> r2 = Ok x2 \<and> r3 = Ok m")
    case True
    then obtain m where ok: "r0 = Ok ()" "r1 = Ok ()" "r2 = Ok ()" "r3 = Ok m" by auto
    obtain ft fl sid len where m: "m = (ft, fl, sid, len)" by (metis prod_cases4)
    obtain r4 s4 where 4: "fill_payload len s3 = (r4, s4)" by fastforce
    have meta: "reader_ok s3" "received s3 = received s" "pending_frame_meta s3 = Some m"
      using frame_meta_spec [OF 3] h ok ok1 by auto
    note p = fill_payload_spec [OF 4 meta(1) meta(3) [unfolded m]]
    show ?thesis
    proof (cases "r4 = Ok ()")
      case True
      have out: "finish_frame m s4 = (r, t)"
        using assms(1) 0 1 2 3 4 ok m True by (simp add: read_raw_frame_def)
      show ?thesis
        using finish_frame_spec [OF out] p True m meta takes_frame_from [of s4 r t s] by auto
    next
      case False
      have "t = s4 \<and> (\<forall>f. r \<noteq> Ok f)"
        using assms(1) 0 1 2 3 4 ok m False by (cases r4) (auto simp: read_raw_frame_def)
      then show ?thesis using p meta takes_nothing [of t s r] by auto
    qed
  next
    case False
    have "(t = s \<or> t = s1 \<or> t = s2 \<or> t = s3 \<and> r2 = Ok ()) \<and> (\<forall>f. r \<noteq> Ok f)"
      using assms(1) 0 1 2 3 s0 False
      by (cases r0; cases r1; cases r2; cases r3) (auto simp: read_raw_frame_def)
    moreover have "reader_ok s3 \<and> received s3 = received s" if "r2 = Ok ()"
      using frame_meta_spec [OF 3] h that ok1 by auto
    ultimately show ?thesis using h ok1 assms(2) takes_nothing [of t s r] by auto
  qed
qed

section \<open>The reader between operations\<close>

lemma reader_keeps: "untouched reader_part m \<Longrightarrow> keeps reader_ok m"
  by (auto simp: keeps_def untouched_def intro: reader_ok_part)

lemma untouched_reader_steps:
  "untouched reader_part (take_stream_bytes sid n)"
  "untouched reader_part pop_pending_frame"
  "untouched reader_part (admit_frame f)"
  "untouched reader_part (send_chunk sid c)"
proof -
  show "untouched reader_part (take_stream_bytes sid n)" "untouched reader_part pop_pending_frame"
    by (simp_all add: untouched_def take_stream_bytes_def pop_pending_frame_def proto_err_run split: option.split list.split)
  show "untouched reader_part (admit_frame f)" "untouched reader_part (send_chunk sid c)"
    unfolding admit_frame_def send_chunk_def by (intro keeps_intros reader_part_simps)+
qed

lemma reader_part_pure [simp]:
  "reader_part (drain_pending_data_frames s) = reader_part s"
  "reader_part (register_open_stream sid s) = reader_part s"
proof -
  have "reader_part (drain_frames fs u) = reader_part u" for fs u
    by (induction fs arbitrary: u) (simp_all add: reader_part_simps)
  then show "reader_part (drain_pending_data_frames s) = reader_part s"
    by (simp add: drain_pending_data_frames_def)
  show "reader_part (register_open_stream sid s) = reader_part s"
    by (simp add: register_open_stream_def Let_def)
qed

interpretation h2_reader: framer_invariant reader_ok
proof (unfold_locales, goal_cases)
  case (1 s rs ws fls)
  then show ?case by (auto simp: reader_ok_def split: option.splits)
next
  case 9
  show ?case
    using read_raw_frame_takes by (auto intro!: keepsI) (metis prod.collapse)
next
  case (20 s sid k bs)
  then show ?case by (rule_tac keeps_snd [OF reader_keeps [OF untouched_reader_steps(4)]])
next
  case (11 s sid payload)
  then show ?case by (rule_tac keeps_snd [OF reader_keeps [OF untouched_reader(8)]])
qed (auto intro: reader_keeps untouched_reader untouched_write_all untouched_append untouched_reader_steps
    elim!: reader_ok_part simp: reader_part_simps)

lemma reader_new: "reader_ok (H2Framer_new k)"
  by (simp add: reader_ok_def H2Framer_new_def)

section \<open>Reading what was built\<close>

text \<open>A framer between two frames, on a connection that works.\<close>

definition ready :: "h2 \<Rightarrow> bool" where
  "ready s \<longleftrightarrow> ensure_connection_open s = Inr () \<and> pending_write s = None \<and>
     partial_header s = [] \<and> pending_frame_meta s = None \<and> payload_buf s = []"

lemma read_raw_frame_build:
  assumes "ready s" and "length p \<le> MAX_FRAME_PAYLOAD"
    and "carries (rx (stream s)) (build_frame ft fl sid p @ rest)"
  shows "\<exists>es. read_raw_frame s =
      (Ok \<lparr>rf_frame_type = ft, rf_flags = fl, rf_stream_id = sid AND 0x7FFFFFFF, rf_payload = p\<rparr>,
       s\<lparr>stream := (stream s)\<lparr>rx := es\<rparr>\<rparr>) \<and> carries es rest"
proof -
  let ?h = "frame_header ft fl sid (length p)"
  obtain es1 where es1: "rx_fill 9 [] (rx (stream s)) = (Ok (), ?h, es1)" "carries es1 (p @ rest)"
    using rx_fill_carries [of "rx (stream s)" ?h "p @ rest" 9 "[]"] assms(3) by (auto simp: build_frame_header)
  obtain es2 where es2: "rx_fill (length p) [] es1 = (Ok (), p, es2)" "carries es2 rest"
    using rx_fill_carries [of es1 p rest "length p" "[]"] es1(2) by auto
  have parse: "parse_frame_header ?h = (ft, fl, sid AND 0x7FFFFFFF, length p)"
    using assms(2) by (intro parse_frame_header_build) (simp add: h2_limits)
  have clean: "ensure_connection_open s = Inr ()" "pending_write s = None"
    "partial_header s = []" "pending_frame_meta s = None" "payload_buf s = []"
    using assms(1) by (auto simp: ready_def)
  let ?es = "if p = [] then es1 else es2"
  have "read_raw_frame s =
      (Ok \<lparr>rf_frame_type = ft, rf_flags = fl, rf_stream_id = sid AND 0x7FFFFFFF, rf_payload = p\<rparr>,
       s\<lparr>stream := (stream s)\<lparr>rx := ?es\<rparr>\<rparr>)"
    using es1(1) es2(1) parse clean assms(2)
    by (simp add: read_raw_frame_def proc_simps finish_pending_write_def fill_header_def frame_meta_def
        fill_payload_def finish_frame_def h2_io_outcome_def)
  moreover have "carries ?es rest" using es1(2) es2(2) by auto
  ultimately show ?thesis by blast
qed

end
