(* ===== verification/H2_Transfer.thy ===== *)
theory H2_Transfer
  imports H2_Memory H2_Read
begin

text \<open>
  The data path of the HTTP/2 framer: what \<open>write_stream\<close> puts on the wire, what
  \<open>read_stream\<close> returns of it at the other end, and how the flow-control windows move.
\<close>

section \<open>A transport that accepts everything\<close>

definition quiet :: "h2 \<Rightarrow> bool" where
  "quiet s \<longleftrightarrow> wx (stream s) = [] \<and> fx (stream s) = []"

definition put_wire :: "bytes \<Rightarrow> h2 \<Rightarrow> h2" where
  "put_wire bs s = s\<lparr>stream := (stream s)\<lparr>wire := wire (stream s) @ bs\<rparr>\<rparr>"

lemma ensure_open_fields:
  assumes "connection_error t = connection_error s" "open_stream_in_progress t = open_stream_in_progress s"
    "window_update_in_progress t = window_update_in_progress s"
  shows "ensure_connection_open t = ensure_connection_open s"
  using assms by (auto simp: ensure_connection_open_def split: option.split)

lemma put_wire_simps [simp]:
  "put_wire [] s = s"
  "put_wire b (put_wire a s) = put_wire (a @ b) s"
  "rx (stream (put_wire bs s)) = rx (stream s)"
  "wire (stream (put_wire bs s)) = wire (stream s) @ bs"
  "quiet (put_wire bs s) = quiet s"
  "pending_write (put_wire bs s) = pending_write s"
  "registry_part (put_wire bs s) = registry_part s"
  "goaway (put_wire bs s) = goaway s"
  "pending_window_updates (put_wire bs s) = pending_window_updates s"
  by (simp_all add: put_wire_def quiet_def)

lemma put_wire_ready [simp]:
  "ensure_connection_open (put_wire bs s) = ensure_connection_open s"
  "ready (put_wire bs s) = ready s"
proof -
  show *: "ensure_connection_open (put_wire bs s) = ensure_connection_open s"
    by (rule ensure_open_fields) (simp_all add: put_wire_def)
  show "ready (put_wire bs s) = ready s"
    unfolding ready_def * by (simp add: put_wire_def)
qed

lemma write_all_quiet:
  "quiet s \<Longrightarrow> pending_write s = None \<Longrightarrow> write_all_tracked f s = (Ok (), put_wire f s)"
  by (simp add: quiet_def write_all_tracked_def finish_pending_write_def write_frame_bytes_def proc_simps
      h2_io_outcome_def put_wire_def)

lemma flush_quiet: "quiet s \<Longrightarrow> on_h2 sock_flush s = (Ok (), s)"
  by (simp add: quiet_def on_h2_def on_stream_def sock_flush_def)

lemma ready_flags:
  assumes "ready s"
  shows "connection_error s = None" "open_stream_in_progress s = None" "window_update_in_progress s = False"
    "pending_write s = None" "ensure_connection_open s = Inr ()"
  using assms by (auto simp: ready_def ensure_connection_open_def split: option.splits if_splits)

lemma write_frames_quiet:
  "quiet s \<Longrightarrow> pending_write s = None \<Longrightarrow> write_frames fs s = (Ok (), put_wire (concat fs) s)"
  by (induction fs arbitrary: s) (simp_all add: proc_simps write_all_quiet)

lemma emit_quiet:
  assumes "ready s" and "quiet s"
  shows "emit_window_updates fs s = (Ok (), put_wire (concat fs) s)"
proof -
  let ?s = "s\<lparr>window_update_in_progress := True\<rparr>"
  have "quiet ?s" "pending_write ?s = None" using assms ready_flags by (auto simp: quiet_def)
  then have "write_frames fs ?s = (Ok (), put_wire (concat fs) ?s)" "quiet (put_wire (concat fs) ?s)"
    by (simp_all add: write_frames_quiet)
  then show ?thesis
    using ready_flags(3) [OF assms(1)]
    by (simp add: emit_window_updates_def proc_simps flush_quiet) (simp add: put_wire_def)
qed

section \<open>Giving the window back\<close>

text \<open>The pending credit of every window is below the threshold.\<close>

definition credit_low :: "h2 \<Rightarrow> bool" where
  "credit_low s \<longleftrightarrow> (\<forall>i. pending_update i s < WINDOW_UPDATE_THRESHOLD)"

lemma settle_low:
  assumes "settle_window sid n s = (fs, t)" and "credit_low s"
  shows "credit_low t \<and> (\<exists>u. t = s\<lparr>pending_window_updates := u\<rparr>)"
  using assms by (auto simp: settle_window_def credit_low_def pending_update_def h2_limits split: if_splits)

lemma replenish_quiet:
  assumes "ready s" "quiet s" "credit_low s" and "n \<le> MAX_FRAME_PAYLOAD"
  shows "\<exists>u fs. replenish_receive_window sid n s =
           (Ok (), put_wire fs (s\<lparr>pending_window_updates := u\<rparr>)) \<and>
         credit_low (s\<lparr>pending_window_updates := u\<rparr>)"
proof (cases "n = 0")
  case True
  then show ?thesis
    using ready_flags(5) [OF assms(1)] assms(3)
    by (intro exI [of _ "pending_window_updates s"] exI [of _ "[]"])
      (simp add: replenish_receive_window_def proc_simps)
next
  case False
  obtain f0 s1 where s1: "settle_window STREAM_INIT (pending_update STREAM_INIT s + n) s = (f0, s1)" by fastforce
  obtain f1 s2 where s2: "(if sid \<noteq> STREAM_INIT then settle_window sid (pending_update sid s + n) s1 else ([], s1)) = (f1, s2)"
    by fastforce
  have small: "pending_update i s + n \<le> 0xFFFFFFFF" for i
  proof -
    have "pending_update i s < WINDOW_UPDATE_THRESHOLD" using assms(3) by (simp add: credit_low_def)
    then show ?thesis using assms(4) by (simp add: h2_limits)
  qed
  obtain u where u: "s2 = s\<lparr>pending_window_updates := u\<rparr>" "credit_low s2"
    using settle_low [OF s1 assms(3)] settle_low [of sid _ s1 f1 s2] s2 by (auto split: if_splits)
  have "ensure_connection_open s2 = ensure_connection_open s"
    by (rule ensure_open_fields) (simp_all add: u(1))
  then have "ready s2" "quiet s2" using assms(1,2) u(1) by (auto simp: ready_def quiet_def)
  then have "replenish_receive_window sid n s = (Ok (), put_wire (concat (f0 @ f1)) s2)"
    using False small [of STREAM_INIT] small [of sid] assms(4) s1 s2 ready_flags(5) [OF assms(1)] emit_quiet [of s2 "f0 @ f1"]
    by (simp add: replenish_receive_window_def proc_simps Let_def h2_limits not_less [symmetric])
  then show ?thesis using u by blast
qed

section \<open>Receiving on a control stream\<close>

definition control_buffer :: "u32 \<Rightarrow> h2 \<Rightarrow> bytes" where
  "control_buffer sid s = (if sid = STREAM_CLIENT_SERVER then client_server_buf s else server_client_buf s)"

definition listening :: "u32 \<Rightarrow> h2 \<Rightarrow> bool" where
  "listening sid s \<longleftrightarrow> sid \<in> {STREAM_CLIENT_SERVER, STREAM_SERVER_CLIENT} \<and> ready s \<and> quiet s \<and>
     goaway s = None \<and> reset_streams s sid = None \<and> sid \<notin> closed_streams s \<and>
     pending_data_frames s = [] \<and> memory_ok s \<and> credit_low s"

lemma listening_open:
  assumes "listening sid s"
  shows "ensure_connection_open s = Inr ()" "ensure_stream_available sid s = Inr ()"
    "is_known_stream sid s" "ensure_peer_stream_not_reused sid s = Inr ()"
    "ensure_incoming_stream_available sid s = Inr ()" "sid \<noteq> STREAM_INIT" "sid AND 0x7FFFFFFF = sid"
    "held sid s = length (control_buffer sid s)" "stream_buffer_len sid s = length (control_buffer sid s)"
proof -
  show conn: "ensure_connection_open s = Inr ()" using assms by (simp add: listening_def ready_def)
  show avail: "ensure_stream_available sid s = Inr ()"
    using assms conn by (simp add: ensure_stream_available_def listening_def)
  show known: "is_known_stream sid s" using assms by (auto simp: is_known_stream_def listening_def)
  then show fresh: "ensure_peer_stream_not_reused sid s = Inr ()" by (simp add: ensure_peer_stream_not_reused_def)
  show "ensure_incoming_stream_available sid s = Inr ()"
    using assms avail fresh by (simp add: ensure_incoming_stream_available_def listening_def)
  show "sid \<noteq> STREAM_INIT" "sid AND 0x7FFFFFFF = sid" using assms by (auto simp: listening_def)
  show "held sid s = length (control_buffer sid s)" "stream_buffer_len sid s = length (control_buffer sid s)"
    using assms by (auto simp: listening_def held_def stream_buffer_len_def control_buffer_def)
qed

lemma append_listening:
  assumes "listening sid s" and "length (control_buffer sid s) + length p \<le> MAX_BUFFERED_BYTES_PER_STREAM"
    and "buffered_bytes s + length p \<le> MAX_TOTAL_BUFFERED_BYTES"
  shows "append_stream_data sid p s =
    (Ok (), (extend_stream_buffer sid p s)\<lparr>buffered_bytes := buffered_bytes s + length p\<rparr>)"
proof (cases "p = []")
  case True
  then show ?thesis
    using assms(1) by (auto simp: append_stream_data_def proc_simps extend_stream_buffer_def listening_def)
next
  case False
  have "pending_stream_buffer_len sid s = 0"
    using assms(1) by (simp add: pending_stream_buffer_len_def listening_def)
  then have "reserve_total sid (length p) s = Inr (buffered_bytes s + length p)"
    using assms listening_open(9) [OF assms(1)]
    by (simp add: reserve_total_def attempt_def ok_or_def usize_checked_add_def h2_limits)
  then have "reserve_stream_buffer sid (length p) s = (Ok (), s\<lparr>buffered_bytes := buffered_bytes s + length p\<rparr>)"
    using False listening_open(3) [OF assms(1)] by (simp add: reserve_stream_buffer_def)
  then show ?thesis
    using False by (simp add: append_stream_data_def proc_simps extend_stream_buffer_def)
qed

text \<open>A DATA frame on a control stream is appended to its buffer, and nothing else changes for the reader.\<close>

lemma dispatch_data_listening:
  assumes "listening sid s" and "length p \<le> MAX_FRAME_PAYLOAD"
    and "length (control_buffer sid s) + length p \<le> MAX_BUFFERED_BYTES_PER_STREAM"
    and "buffered_bytes s + length p \<le> MAX_TOTAL_BUFFERED_BYTES"
  shows "\<exists>t. dispatch_frame \<lparr>rf_frame_type = FRAME_DATA, rf_flags = 0, rf_stream_id = sid, rf_payload = p\<rparr> s = (Ok (), t) \<and>
    listening sid t \<and> rx (stream t) = rx (stream s) \<and> control_buffer sid t = control_buffer sid s @ p \<and>
    buffered_bytes t = buffered_bytes s + length p"
proof -
  note open_s = listening_open [OF assms(1)]
  let ?u = "(extend_stream_buffer sid p s)\<lparr>buffered_bytes := buffered_bytes s + length p\<rparr>"
  have mem: "memory_ok ?u"
    using keepsD [OF memory_append _ append_listening [OF assms(1,3,4)]] assms(1) by (simp add: listening_def)
  have u: "ready ?u" "quiet ?u" "credit_low ?u"
  proof -
    have "ensure_connection_open ?u = ensure_connection_open s"
      by (rule ensure_open_fields) (simp_all add: extend_stream_buffer_def)
    then show "ready ?u" "quiet ?u" "credit_low ?u"
      using assms(1) by (auto simp: listening_def ready_def quiet_def credit_low_def pending_update_def extend_stream_buffer_def)
  qed
  obtain pw fs where rep: "replenish_receive_window sid (length p) ?u = (Ok (), put_wire fs (?u\<lparr>pending_window_updates := pw\<rparr>))"
    "credit_low (?u\<lparr>pending_window_updates := pw\<rparr>)"
    using replenish_quiet [OF u assms(2)] by blast
  let ?t = "put_wire fs (?u\<lparr>pending_window_updates := pw\<rparr>)"
  have "observe_peer_data_stream sid p s = (Ok (), s)"
    using open_s(3) by (simp add: observe_peer_data_stream_def)
  then have run: "dispatch_frame \<lparr>rf_frame_type = FRAME_DATA, rf_flags = 0, rf_stream_id = sid, rf_payload = p\<rparr> s = (Ok (), ?t)"
    using open_s(1,5,6) append_listening [OF assms(1,3,4)] rep(1)
    by (simp add: dispatch_frame_def dispatch_frame_inner_def dispatch_data_def proc_simps mark_end_stream_def)
  have "ensure_connection_open ?t = ensure_connection_open ?u"
    by (rule ensure_open_fields) (simp_all add: put_wire_def)
  then have "ready ?t" "quiet ?t" using u by (auto simp: ready_def quiet_def put_wire_def)
  moreover have "memory_ok ?t" by (rule memory_part [OF mem]) (simp add: buffer_part_def put_wire_def)
  ultimately have "listening sid ?t"
    using assms(1) rep(2)
    by (auto simp: listening_def put_wire_def credit_low_def pending_update_def extend_stream_buffer_def)
  moreover have "control_buffer sid ?t = control_buffer sid s @ p" "buffered_bytes ?t = buffered_bytes s + length p"
    "rx (stream ?t) = rx (stream s)"
    using assms(1) by (auto simp: control_buffer_def extend_stream_buffer_def put_wire_def listening_def)
  ultimately show ?thesis using run by blast
qed

lemma listening_rx: "listening sid (s\<lparr>stream := (stream s)\<lparr>rx := es\<rparr>\<rparr>) = listening sid s"
proof -
  let ?t = "s\<lparr>stream := (stream s)\<lparr>rx := es\<rparr>\<rparr>"
  have "ensure_connection_open ?t = ensure_connection_open s" by (rule ensure_open_fields) simp_all
  moreover have "memory_ok ?t = memory_ok s"
    using memory_part [of s ?t] memory_part [of ?t s] by (auto simp: buffer_part_def)
  ultimately show ?thesis
    by (simp add: listening_def ready_def quiet_def credit_low_def pending_update_def)
qed

lemma control_buffer_rx [simp]: "control_buffer sid (s\<lparr>stream := k\<rparr>) = control_buffer sid s"
  by (simp add: control_buffer_def)

lemma take_listening:
  assumes "listening sid s" and "n \<le> length (control_buffer sid s)"
  shows "\<exists>t. take_stream_bytes sid n s = (Ok (take n (control_buffer sid s)), t)"
  using assms by (auto simp: take_stream_bytes_def listening_def control_buffer_def stream_buffer_len_def)

text \<open>
  The read loop returns the bytes of the stream in the order they were sent, however the
  transport cuts them.
\<close>

lemma read_loop_delivers:
  assumes "listening sid s" and "carries (rx (stream s)) (concat (map (build_data_frame sid) ps))"
    and "\<forall>p \<in> set ps. length p \<le> MAX_FRAME_PAYLOAD"
    and "n \<le> length (control_buffer sid s @ concat ps)"
    and "length (control_buffer sid s @ concat ps) \<le> MAX_BUFFERED_BYTES_PER_STREAM"
    and "buffered_bytes s + length (concat ps) \<le> MAX_TOTAL_BUFFERED_BYTES"
  shows "\<exists>t. read_stream_loop sid n s = (Ok (take n (control_buffer sid s @ concat ps)), t)"
  using assms
proof (induction ps arbitrary: s)
  case Nil
  then show ?case
    using take_listening [of sid s n] listening_open(9) [of sid s]
    by (subst read_stream_loop.simps) auto
next
  case (Cons p ps)
  show ?case
  proof (cases "n \<le> length (control_buffer sid s)")
    case True
    then show ?thesis
      using take_listening [of sid s n] listening_open(9) [of sid s] Cons.prems(1)
      by (subst read_stream_loop.simps) auto
  next
    case False
    note open_s = listening_open [OF Cons.prems(1)]
    have frame: "carries (rx (stream s)) (build_frame FRAME_DATA 0 sid p @ concat (map (build_data_frame sid) ps))"
      using Cons.prems(2) by (simp add: build_data_frame_def [of sid p])
    obtain es where rd: "read_raw_frame s =
        (Ok \<lparr>rf_frame_type = FRAME_DATA, rf_flags = 0, rf_stream_id = sid, rf_payload = p\<rparr>,
         s\<lparr>stream := (stream s)\<lparr>rx := es\<rparr>\<rparr>)" "carries es (concat (map (build_data_frame sid) ps))"
      using read_raw_frame_build [OF _ _ frame] Cons.prems(1,3) open_s(7) by (auto simp: listening_def)
    let ?s = "s\<lparr>stream := (stream s)\<lparr>rx := es\<rparr>\<rparr>"
    have buf: "control_buffer sid ?s = control_buffer sid s" by (simp add: control_buffer_def)
    obtain t where t: "dispatch_frame \<lparr>rf_frame_type = FRAME_DATA, rf_flags = 0, rf_stream_id = sid, rf_payload = p\<rparr> ?s = (Ok (), t)"
      "listening sid t" "rx (stream t) = es" "control_buffer sid t = control_buffer sid s @ p"
      "buffered_bytes t = buffered_bytes s + length p"
      using dispatch_data_listening [of sid ?s p] Cons.prems buf by (auto simp: listening_rx)
    have "\<exists>u. read_stream_loop sid n t = (Ok (take n (control_buffer sid t @ concat ps)), u)"
      using Cons.prems t rd(2) by (intro Cons.IH) auto
    moreover have "check_not_ended sid n s = Inr ()"
      using Cons.prems(1) by (simp add: check_not_ended_def listening_def)
    then have "read_stream_loop sid n s = read_stream_loop sid n t"
      using open_s False rd(1) t(1) by (subst read_stream_loop.simps) (simp add: proc_simps)
    ultimately show ?thesis using t(4) by simp
  qed
qed

section \<open>Writing a stream\<close>

text \<open>A stream that can be written: the connection works and the peer has not refused it.\<close>

definition writable :: "u32 \<Rightarrow> h2 \<Rightarrow> bool" where
  "writable sid s \<longleftrightarrow> ready s \<and> quiet s \<and> goaway s = None \<and> reset_streams s sid = None \<and> sid \<notin> closed_streams s"

lemma writable_available: "writable sid s \<Longrightarrow> ensure_stream_available sid s = Inr ()"
  by (simp add: writable_def ready_def ensure_stream_available_def)

text \<open>The state after \<open>n\<close> bytes of data went out in the given frames.\<close>

definition spend :: "u32 \<Rightarrow> int \<Rightarrow> nat \<Rightarrow> bytes \<Rightarrow> h2 \<Rightarrow> h2" where
  "spend sid w n bs s = (put_wire bs s)\<lparr>outbound_connection_window := outbound_connection_window s - int n,
     outbound_stream_windows := (outbound_stream_windows s)(sid \<mapsto> w - int n)\<rparr>"

lemma spend_simps [simp]:
  "outbound_connection_window (spend sid w n bs s) = outbound_connection_window s - int n"
  "outbound_stream_windows (spend sid w n bs s) sid = Some (w - int n)"
  "outbound_max_frame_size (spend sid w n bs s) = outbound_max_frame_size s"
  "wire (stream (spend sid w n bs s)) = wire (stream s) @ bs"
  by (simp_all add: spend_def put_wire_def)

lemma spend_spend: "spend sid (w - int n) m bs (spend sid w n as s) = spend sid w (n + m) (as @ bs) s"
  by (simp add: spend_def put_wire_def diff_diff_eq)

lemma spend_none: "outbound_stream_windows s sid = Some w \<Longrightarrow> spend sid w 0 [] s = s"
  by (simp add: spend_def fun_upd_idem)

lemma writable_spend: "writable sid (spend sid' w n bs s) = writable sid s"
proof -
  have "ensure_connection_open (spend sid' w n bs s) = ensure_connection_open s"
    by (rule ensure_open_fields) (simp_all add: spend_def put_wire_def)
  then show ?thesis by (simp add: writable_def ready_def quiet_def spend_def put_wire_def)
qed

lemma writable_put: "writable sid (put_wire bs s) = writable sid s"
proof -
  have "reset_streams (put_wire bs s) = reset_streams s" "closed_streams (put_wire bs s) = closed_streams s"
    by (simp_all add: put_wire_def)
  then show ?thesis by (simp add: writable_def)
qed

lemma write_loop_chunks:
  assumes "writable sid s" and "outbound_stream_windows s sid = Some w" and "outbound_max_frame_size s = m" "0 < m"
    and "int (length bs) \<le> outbound_connection_window s" "int (length bs) \<le> w" "length bs < 2 ^ 63"
  shows "write_data_loop sid bs s =
    (Ok (), spend sid w (length bs) (concat (map (build_data_frame sid) (chunks m bs))) s)"
  using assms
proof (induction m bs arbitrary: s w rule: chunks.induct)
  case (1 m bs)
  show ?case
  proof (cases "bs = []")
    case True
    then show ?thesis
      using "1.prems" by (subst write_data_loop.simps) (simp add: spend_none)
  next
    case False
    let ?c = "take m bs"
    let ?f = "build_data_frame sid ?c"
    define k where "k = min (min m (nat (outbound_connection_window s))) (nat w)"
    have budget: "outbound_budget sid s = Inr k"
      using "1.prems" False writable_available [OF "1.prems"(1)]
      by (cases bs) (auto simp: outbound_budget_def k_def)
    have k: "k \<noteq> 0" "take k bs = ?c" "drop k bs = drop m bs"
      using "1.prems" False by (cases bs; auto simp: min_def k_def)+
    let ?s1 = "s\<lparr>outbound_connection_window := outbound_connection_window s - int (length ?c),
                outbound_stream_windows := (outbound_stream_windows s)(sid \<mapsto> w - int (length ?c))\<rparr>"
    have consume: "consume_outbound_window sid (length ?c) s = (Ok (), ?s1)"
      using "1.prems" by (simp add: consume_outbound_window_def min_def)
    have "quiet ?s1" "pending_write ?s1 = None"
      using "1.prems"(1) by (auto simp: writable_def ready_def quiet_def)
    then have sent: "write_all_tracked ?f ?s1 = (Ok (), spend sid w (length ?c) ?f s)"
      using write_all_quiet [of ?s1 ?f] by (simp add: spend_def put_wire_def)
    have len: "length ?c + length (drop m bs) = length bs" by simp
    have "write_data_loop sid (drop m bs) (spend sid w (length ?c) ?f s) =
      (Ok (), spend sid (w - int (length ?c)) (length (drop m bs))
        (concat (map (build_data_frame sid) (chunks m (drop m bs)))) (spend sid w (length ?c) ?f s))"
      using "1.prems" False by (intro "1.IH") (auto simp: writable_spend min_def)
    also have "\<dots> = (Ok (), spend sid w (length bs) (concat (map (build_data_frame sid) (chunks m bs))) s)"
      unfolding spend_spend len using "1.prems"(4) False by (simp add: chunks_step)
    finally show ?thesis
      using budget k writable_available [OF "1.prems"(1)] False consume sent
      by (subst write_data_loop.simps) (simp only: proc_simps k sum.case outcome.case prod.case if_False)
  qed
qed

text \<open>The window of a stream once it is open, and the payloads its data is cut into.\<close>

definition open_window :: "u32 \<Rightarrow> h2 \<Rightarrow> int option" where
  "open_window sid s = (if locally_open sid s then outbound_stream_windows s sid else Some (peer_initial_window_size s))"

definition data_pieces :: "nat \<Rightarrow> bytes \<Rightarrow> bytes list" where
  "data_pieces m bs = (if bs = [] then [[]] else chunks m bs)"

definition opening_frame :: "u32 \<Rightarrow> h2 \<Rightarrow> bytes" where
  "opening_frame sid s = (if locally_open sid s then [] else build_headers_frame sid)"

text \<open>What a write leaves to the reader as it was.\<close>

definition reader_view where
  "reader_view s = (client_server_buf s, server_client_buf s, pending_data_frames s, buffered_bytes s,
     reset_streams s, closed_streams s, pending_window_updates s, rx (stream s), message_read_in_progress s)"

lemma reader_view_put [simp]: "reader_view (put_wire bs s) = reader_view s"
  by (simp add: reader_view_def put_wire_def)

lemma reader_view_spend [simp]: "reader_view (spend sid w n bs s) = reader_view s"
  by (simp add: reader_view_def spend_def put_wire_def)

lemma open_stream_quiet:
  assumes "writable sid s" and "sid \<noteq> STREAM_INIT" "sid \<le> 0x7FFFFFFF" and "open_window sid s = Some w"
  shows "\<exists>t. open_stream sid s = (Ok (), t) \<and> writable sid t \<and> outbound_stream_windows t sid = Some w \<and>
    wire (stream t) = wire (stream s) @ opening_frame sid s \<and> outbound_max_frame_size t = outbound_max_frame_size s \<and>
    outbound_connection_window t = outbound_connection_window s \<and> reader_view t = reader_view s"
proof -
  have pre: "ensure_connection_open s = Inr ()" "pending_write s = None" "ensure_stream_available sid s = Inr ()"
    "check_can_open sid s = Inr ()" "goaway s = None" "quiet s"
    using assms(1) writable_available [OF assms(1)] by (auto simp: writable_def ready_def check_can_open_def)
  have in_range: "\<not> 0x7FFFFFFF < sid" using assms(3) by (simp add: not_less)
  show ?thesis
  proof (cases "locally_open sid s")
    case True
    then have "open_stream sid s = (Ok (), s)"
      using pre assms(2) in_range by (simp add: open_stream_def proc_simps finish_pending_write_def)
    then show ?thesis using assms True by (simp add: open_window_def opening_frame_def)
  next
    case False
    let ?s1 = "s\<lparr>open_stream_in_progress := Some sid\<rparr>"
    let ?s2 = "put_wire (build_headers_frame sid) ?s1"
    let ?t = "register_open_stream sid ?s2"
    have "quiet ?s1" "pending_write ?s1 = None" using pre by (auto simp: quiet_def)
    then have "write_all_tracked (build_headers_frame sid) ?s1 = (Ok (), ?s2)" "on_h2 sock_flush ?s2 = (Ok (), ?s2)"
      by (simp_all add: write_all_quiet flush_quiet)
    then have run: "open_stream sid s = (Ok (), ?t)"
      using pre assms(2) in_range False by (simp add: open_stream_def proc_simps finish_pending_write_def)
    have "ensure_connection_open ?t = ensure_connection_open s"
      using ready_flags(2) [of s] assms(1)
      by (intro ensure_open_fields) (simp_all add: register_open_stream_def put_wire_def Let_def writable_def)
    then have "writable sid ?t"
      using assms(1) by (auto simp: writable_def ready_def quiet_def register_open_stream_def put_wire_def Let_def)
    then show ?thesis
      using run False assms(4)
      by (auto simp: open_window_def opening_frame_def register_open_stream_def put_wire_def reader_view_def Let_def)
  qed
qed

lemma write_stream_quiet:
  assumes "writable sid s" and "sid \<noteq> STREAM_INIT" "sid \<le> 0x7FFFFFFF" and "open_window sid s = Some w"
    and "0 < outbound_max_frame_size s"
    and "int (length bs) \<le> outbound_connection_window s" "int (length bs) \<le> w" "length bs < 2 ^ 63"
  shows "\<exists>t. write_stream sid bs s = (Ok (), t) \<and>
    wire (stream t) = wire (stream s) @ opening_frame sid s @
      concat (map (build_data_frame sid) (data_pieces (outbound_max_frame_size s) bs)) \<and>
    outbound_connection_window t = outbound_connection_window s - int (length bs) \<and>
    outbound_stream_windows t sid = Some (w - int (length bs)) \<and>
    writable sid t \<and> reader_view t = reader_view s"
proof -
  obtain t where t: "open_stream sid s = (Ok (), t)" "writable sid t" "outbound_stream_windows t sid = Some w"
    "wire (stream t) = wire (stream s) @ opening_frame sid s" "outbound_max_frame_size t = outbound_max_frame_size s"
    "outbound_connection_window t = outbound_connection_window s" "reader_view t = reader_view s"
    using open_stream_quiet [OF assms(1-4)] by blast
  note avail = writable_available [OF t(2)]
  have q: "quiet t" "pending_write t = None" using t(2) by (auto simp: writable_def ready_def)
  show ?thesis
  proof (cases "bs = []")
    case True
    have "write_stream sid bs s = (Ok (), put_wire (build_data_frame sid []) t)"
      using True t(1) avail q by (simp add: write_stream_def proc_simps write_all_quiet flush_quiet)
    moreover have "outbound_connection_window (put_wire b t) = outbound_connection_window t"
      "outbound_stream_windows (put_wire b t) = outbound_stream_windows t" for b
      by (simp_all add: put_wire_def)
    ultimately show ?thesis using True t(2-4,6,7) by (simp add: data_pieces_def writable_put)
  next
    case False
    let ?u = "spend sid w (length bs) (concat (map (build_data_frame sid) (chunks (outbound_max_frame_size s) bs))) t"
    have "write_data_loop sid bs t = (Ok (), ?u)"
      using write_loop_chunks [OF t(2,3,5)] assms(5-8) t(6) by simp
    moreover have "quiet ?u" using writable_spend [of sid sid w "length bs" _ t] t(2) by (auto simp: writable_def)
    ultimately have "write_stream sid bs s = (Ok (), ?u)"
      using False t(1) avail by (simp add: write_stream_def proc_simps flush_quiet)
    then show ?thesis using False t(2,4,6,7) by (simp add: data_pieces_def writable_spend)
  qed
qed

section \<open>From writer to reader\<close>

lemma data_pieces_length: "m \<le> k \<Longrightarrow> p \<in> set (data_pieces m bs) \<Longrightarrow> length p \<le> k"
  using chunks_length [of p m bs] by (auto simp: data_pieces_def split: if_splits)

lemma data_pieces_short: "length bs \<le> m \<Longrightarrow> 0 < m \<Longrightarrow> data_pieces m bs = [bs]"
  by (simp add: data_pieces_def chunks_step)

lemma concat_data_pieces: "0 < m \<Longrightarrow> concat (data_pieces m bs) = bs"
  by (simp add: data_pieces_def concat_chunks)

text \<open>The HEADERS frame that opens a control stream is read and leaves the reader as it was.\<close>

lemma read_loop_headers:
  assumes "listening sid s" and "length (control_buffer sid s) < n"
    and "carries (rx (stream s)) (build_headers_frame sid @ rest)"
  shows "\<exists>es. read_stream_loop sid n s = read_stream_loop sid n (s\<lparr>stream := (stream s)\<lparr>rx := es\<rparr>\<rparr>) \<and> carries es rest"
proof -
  note open_s = listening_open [OF assms(1)]
  obtain es where rd: "read_raw_frame s =
      (Ok \<lparr>rf_frame_type = FRAME_HEADERS, rf_flags = FLAG_END_HEADERS, rf_stream_id = sid, rf_payload = []\<rparr>,
       s\<lparr>stream := (stream s)\<lparr>rx := es\<rparr>\<rparr>)" "carries es rest"
    using read_raw_frame_build [of s "[]" FRAME_HEADERS FLAG_END_HEADERS sid rest] assms(1,3) open_s(7)
    unfolding build_headers_frame_def by (auto simp: listening_def)
  let ?s = "s\<lparr>stream := (stream s)\<lparr>rx := es\<rparr>\<rparr>"
  note open_t = listening_open [OF listening_rx [THEN iffD2, OF assms(1), of es]]
  have "dispatch_frame \<lparr>rf_frame_type = FRAME_HEADERS, rf_flags = FLAG_END_HEADERS, rf_stream_id = sid, rf_payload = []\<rparr> ?s = (Ok (), ?s)"
    using open_t by (simp add: dispatch_frame_def dispatch_frame_inner_def dispatch_headers_def proc_simps
        observe_peer_headers_def mark_end_stream_def)
  moreover have "check_not_ended sid n s = Inr ()" using assms(1) by (simp add: check_not_ended_def listening_def)
  ultimately have "read_stream_loop sid n s = read_stream_loop sid n ?s"
    using open_s assms(2) rd(1) by (subst read_stream_loop.simps) (simp add: proc_simps)
  then show ?thesis using rd(2) by blast
qed

lemma read_stream_listening:
  assumes "listening sid s"
  shows "read_stream sid n s = read_stream_loop sid n s"
proof -
  have "finish_pending_write s = (Ok (), s)" "drain_pending_data_frames s = s"
    using assms by (auto simp: listening_def ready_def finish_pending_write_def drain_pending_data_frames_def)
  then show ?thesis using listening_open [OF assms] by (simp add: read_stream_def proc_simps)
qed

text \<open>What was written at one end is read at the other.\<close>

lemma read_stream_delivers:
  assumes "listening sid s" and "control_buffer sid s = []" and "bs \<noteq> []" and "0 < m" "m \<le> MAX_FRAME_PAYLOAD"
    and "length bs \<le> MAX_BUFFERED_BYTES_PER_STREAM" "buffered_bytes s + length bs \<le> MAX_TOTAL_BUFFERED_BYTES"
    and "h = [] \<or> h = build_headers_frame sid"
    and "carries (rx (stream s)) (h @ concat (map (build_data_frame sid) (data_pieces m bs)))"
  shows "\<exists>t. read_stream sid (length bs) s = (Ok bs, t)"
proof -
  have loop: "\<exists>t. read_stream_loop sid (length bs) u = (Ok bs, t)"
    if "listening sid u" "control_buffer sid u = []" "buffered_bytes u = buffered_bytes s"
      "carries (rx (stream u)) (concat (map (build_data_frame sid) (data_pieces m bs)))" for u
    using read_loop_delivers [OF that(1,4), of "length bs"] that assms concat_data_pieces [of m bs]
      data_pieces_length [OF assms(5), of _ bs] by auto
  have "\<exists>t. read_stream_loop sid (length bs) s = (Ok bs, t)"
  proof (cases "h = []")
    case True
    then show ?thesis using loop [OF assms(1,2)] assms(9) by simp
  next
    case False
    then obtain es where "read_stream_loop sid (length bs) s =
        read_stream_loop sid (length bs) (s\<lparr>stream := (stream s)\<lparr>rx := es\<rparr>\<rparr>)"
      "carries es (concat (map (build_data_frame sid) (data_pieces m bs)))"
      using read_loop_headers [OF assms(1), of "length bs"] assms by auto
    then show ?thesis
      using loop [of "s\<lparr>stream := (stream s)\<lparr>rx := es\<rparr>\<rparr>"] assms(1,2) by (simp add: listening_rx)
  qed
  then show ?thesis by (simp add: read_stream_listening [OF assms(1)])
qed

section \<open>Fresh framers\<close>

lemma ready_new: "ready (H2Framer_new k)"
  by (simp add: ready_def ensure_connection_open_def H2Framer_new_def)

lemma fresh_framer:
  assumes "wx k = []" "fx k = []"
  shows "listening STREAM_CLIENT_SERVER (H2Framer_new k)" "writable STREAM_CLIENT_SERVER (H2Framer_new k)"
  using assms ready_new [of k] memory_new [of k]
  by (simp_all add: listening_def writable_def quiet_def credit_low_def pending_update_def h2_limits H2Framer_new_def)

lemma fresh_fields [simp]:
  "control_buffer sid (H2Framer_new k) = []" "buffered_bytes (H2Framer_new k) = 0" "stream (H2Framer_new k) = k"
  "outbound_max_frame_size (H2Framer_new k) = MAX_FRAME_PAYLOAD"
  "outbound_connection_window (H2Framer_new k) = DEFAULT_PEER_WINDOW_SIZE"
  "open_window STREAM_CLIENT_SERVER (H2Framer_new k) = Some DEFAULT_PEER_WINDOW_SIZE"
  "opening_frame STREAM_CLIENT_SERVER (H2Framer_new k) = build_headers_frame STREAM_CLIENT_SERVER"
  by (simp_all add: control_buffer_def H2Framer_new_def open_window_def opening_frame_def locally_open_def)

section \<open>The data path\<close>

text \<open>
  C32. Writing a stream whose windows allow it succeeds and puts exactly this on the wire: the
  HEADERS frame that opens the stream, unless it is open, and the data cut into consecutive DATA
  frames of the peer's maximal frame size. Both windows shrink by the number of data bytes.
\<close>

theorem write_stream_on_wire:
  assumes "writable sid s" and "sid \<noteq> STREAM_INIT" "sid \<le> 0x7FFFFFFF" and "open_window sid s = Some w"
    and "0 < outbound_max_frame_size s"
    and "int (length bs) \<le> outbound_connection_window s" "int (length bs) \<le> w" "length bs < 2 ^ 63"
  shows "\<exists>t. write_stream sid bs s = (Ok (), t) \<and>
    wire (stream t) = wire (stream s) @ opening_frame sid s @
      concat (map (build_data_frame sid) (data_pieces (outbound_max_frame_size s) bs)) \<and>
    outbound_connection_window t = outbound_connection_window s - int (length bs) \<and>
    outbound_stream_windows t sid = Some (w - int (length bs))"
  using write_stream_quiet [OF assms] by blast

theorem write_stream_on_wire_witness:
  "\<exists>t. write_stream 1 [1, 2, 3] (H2Framer_new \<lparr>rx = [], wx = [], fx = [], wire = []\<rparr>) = (Ok (), t) \<and>
     wire (stream t) = build_headers_frame 1 @ build_data_frame 1 [1, 2, 3] \<and>
     outbound_connection_window t = 65532"
proof -
  let ?s = "H2Framer_new \<lparr>rx = [], wx = [], fx = [], wire = []\<rparr>"
  have "data_pieces MAX_FRAME_PAYLOAD [1, 2, 3] = [[1, 2, 3]]"
    by (rule data_pieces_short) (simp_all add: h2_limits)
  then show ?thesis
    using write_stream_on_wire [of 1 ?s DEFAULT_PEER_WINDOW_SIZE "[1, 2, 3]"] fresh_framer(2) by (auto simp: h2_limits)
qed

text \<open>
  C6. What one framer writes to a control stream, another reads: if the writer's windows allow
  the data and it uses the default frame size, then \<open>write_stream\<close> succeeds, and a reader whose
  transport delivers the written bytes, in chunks of any size, gets exactly the data back.
\<close>

theorem h2_transfer:
  assumes "sid \<in> {STREAM_CLIENT_SERVER, STREAM_SERVER_CLIENT}"
    and "writable sid a" "open_window sid a = Some w" "outbound_max_frame_size a = MAX_FRAME_PAYLOAD"
    and "int (length bs) \<le> outbound_connection_window a" "int (length bs) \<le> w"
    and "listening sid b" "control_buffer sid b = []" "bs \<noteq> []"
    and "length bs \<le> MAX_BUFFERED_BYTES_PER_STREAM" "buffered_bytes b + length bs \<le> MAX_TOTAL_BUFFERED_BYTES"
    and "carries (rx (stream b)) (drop (length (wire (stream a))) (wire (stream (snd (write_stream sid bs a)))))"
  shows "fst (write_stream sid bs a) = Ok () \<and> fst (read_stream sid (length bs) b) = Ok bs"
proof -
  have "sid \<noteq> STREAM_INIT" "sid \<le> 0x7FFFFFFF" "length bs < 2 ^ 63" "0 < MAX_FRAME_PAYLOAD"
    using assms(1,10) by (auto simp: h2_limits)
  with write_stream_quiet [OF assms(2) _ _ assms(3), of bs] assms(4-6) obtain t where
    t: "write_stream sid bs a = (Ok (), t)" "wire (stream t) = wire (stream a) @ opening_frame sid a @
      concat (map (build_data_frame sid) (data_pieces MAX_FRAME_PAYLOAD bs))" by auto
  have "\<exists>u. read_stream sid (length bs) b = (Ok bs, u)"
    using read_stream_delivers [OF assms(7-9) \<open>0 < MAX_FRAME_PAYLOAD\<close> order_refl assms(10,11), of "opening_frame sid a"]
      assms(12) t by (auto simp: opening_frame_def)
  then show ?thesis using t(1) by auto
qed

theorem h2_transfer_witness:
  "let a = H2Framer_new \<lparr>rx = [], wx = [], fx = [], wire = []\<rparr>;
       b = H2Framer_new \<lparr>rx = map (\<lambda>x. Chunk [x]) (build_headers_frame 1 @ build_data_frame 1 [1, 2, 3]),
             wx = [], fx = [], wire = []\<rparr>
   in fst (write_stream 1 [1, 2, 3] a) = Ok () \<and> fst (read_stream 1 3 b) = Ok [1, 2, 3]"
proof -
  let ?a = "H2Framer_new \<lparr>rx = [], wx = [], fx = [], wire = []\<rparr>"
  let ?frames = "build_headers_frame 1 @ build_data_frame 1 [1, 2, 3]"
  let ?b = "H2Framer_new \<lparr>rx = map (\<lambda>x. Chunk [x]) ?frames, wx = [], fx = [], wire = []\<rparr>"
  have bytewise: "carries (map (\<lambda>x. Chunk [x]) xs) xs" for xs
    by (induction xs) (auto simp: carries_Cons)
  have "data_pieces MAX_FRAME_PAYLOAD [1, 2, 3] = [[1, 2, 3]]"
    by (rule data_pieces_short) (simp_all add: h2_limits)
  then have wire: "wire (stream (snd (write_stream 1 [1, 2, 3] ?a))) = ?frames"
    using write_stream_quiet [of 1 ?a DEFAULT_PEER_WINDOW_SIZE "[1, 2, 3]"] fresh_framer(2) by (auto simp: h2_limits)
  have "carries (rx (stream ?b)) (drop (length (wire (stream ?a))) (wire (stream (snd (write_stream 1 [1, 2, 3] ?a)))))"
    unfolding wire using bytewise [of ?frames] by simp
  from h2_transfer [OF _ _ _ _ _ _ _ _ _ _ _ this] show ?thesis
    using fresh_framer by (simp add: Let_def h2_limits numeral_3_eq_3)
qed

end
