(* ===== verification/H2_Machine.thy ===== *)
theory H2_Machine
  imports H2_Transfer
begin

text \<open>
  The HTTP/2 connection as a state machine: a step is a call of one public operation of the
  framer, with any arguments and any result, or the transport preparing further events. Its
  invariants follow from the interpretations of \<open>framer_invariant\<close>.
\<close>

section \<open>Steps\<close>

inductive h2_step :: "h2 \<Rightarrow> h2 \<Rightarrow> bool" where
  transport_step: "h2_step s (s\<lparr>stream := (stream s)\<lparr>rx := rs, wx := ws, fx := fls\<rparr>\<rparr>)"
| read_stream_step: "read_stream sid n s = (r, t) \<Longrightarrow> h2_step s t"
| next_frame_step: "read_next_data_frame s = (r, t) \<Longrightarrow> h2_step s t"
| buffer_next_step: "buffer_next_data_stream s = (r, t) \<Longrightarrow> h2_step s t"
| open_step: "open_stream sid s = (r, t) \<Longrightarrow> h2_step s t"
| write_step: "write_stream sid bs s = (r, t) \<Longrightarrow> h2_step s t"
| finish_step: "finish_pending_write_for_read s = (r, t) \<Longrightarrow> h2_step s t"
| begin_body_step: "h2_step s (begin_message_body s)"
| end_body_step: "h2_step s (end_message_body s)"

inductive h2_reachable :: "sock \<Rightarrow> h2 \<Rightarrow> bool" for k :: sock where
  connected: "connect k = (Ok s, k') \<Longrightarrow> h2_reachable k s"
| stepped: "h2_reachable k s \<Longrightarrow> h2_step s t \<Longrightarrow> h2_reachable k t"

inductive_cases h2_step_cases: "h2_step s t"

text \<open>The handshake writes the preface, a SETTINGS frame and a WINDOW_UPDATE frame.\<close>

definition handshake_frames :: "bytes list" where
  "handshake_frames =
     [build_settings_frame [(SETTINGS_MAX_CONCURRENT_STREAMS, 100), (SETTINGS_INITIAL_WINDOW_SIZE, of_nat INITIAL_WINDOW_SIZE)],
      build_window_update_frame STREAM_INIT INITIAL_WINDOW_INCREMENT]"

lemma connect_write_Ok:
  assumes "connect_write k = (Ok x, k1)"
  shows "wire k1 = wire k @ H2_PREFACE @ concat handshake_frames"
proof -
  have flush: "wire t = wire u" if "sock_flush u = (r, t)" for u t and r :: "(io_error, unit) outcome"
    using that by (auto simp: sock_flush_def split: list.splits fx_event.splits)
  show ?thesis
    using assms by (auto simp: connect_write_def and_then_Ok_iff handshake_frames_def dest!: sock_write_all_Ok flush)
qed

lemma connect_Ok:
  assumes "connect k = (Ok s, k')"
  obtains k1 where "connect_write k = (Ok (), k1)" "s = snd (read_until_settings_ack_needed (H2Framer_new k1))"
  using assms by (auto simp: connect_def split: prod.splits outcome.splits)

context framer_invariant
begin

lemma step_invariant: "h2_step s t \<Longrightarrow> I s \<Longrightarrow> I t"
proof (induction rule: h2_step.induct)
  case (finish_step s r t)
  then show ?case
    using finish by (auto simp: finish_pending_write_for_read_def intro: keepsD [OF keeps_and_then [OF keeps_check]])
qed (auto simp: begin_message_body_def end_message_body_def world body_mark
    intro: keepsD [OF read_stream_keeps] keepsD [OF read_next_keeps] keepsD [OF buffer_next_keeps]
      keepsD [OF open_stream_keeps] keepsD [OF write_stream_keeps])

lemma reachable_invariant:
  assumes "h2_reachable k s"
    and "\<And>k1. connect_write k = (Ok (), k1) \<Longrightarrow> I (H2Framer_new k1)"
  shows "I s"
  using assms(1)
proof (induction rule: h2_reachable.induct)
  case (connected s k')
  then show ?case
    using assms(2) handshake_keeps unfolding keeps_at_def by (auto elim!: connect_Ok)
next
  case (stepped s t)
  then show ?case by (auto intro: step_invariant)
qed

end

section \<open>A concrete connection\<close>

text \<open>With a transport that takes every write, a SETTINGS frame without settings completes the handshake.\<close>

lemma connect_quiet:
  assumes "wx k = []" "fx k = []" and "carries (rx k) (build_settings_frame [] @ rest)"
  shows "\<exists>s k'. connect k = (Ok s, k') \<and> listening STREAM_CLIENT_SERVER s \<and> control_buffer STREAM_CLIENT_SERVER s = [] \<and>
    buffered_bytes s = 0 \<and> carries (rx (stream s)) rest"
proof -
  obtain k1 where k1: "connect_write k = (Ok (), k1)" "wx k1 = []" "fx k1 = []" "rx k1 = rx k"
    using assms(1,2) by (simp add: connect_write_def proc_simps sock_write_all_quiet sock_flush_quiet)
  let ?s = "H2Framer_new k1"
  obtain es where rd: "read_raw_frame ?s =
      (Ok \<lparr>rf_frame_type = FRAME_SETTINGS, rf_flags = 0, rf_stream_id = 0, rf_payload = []\<rparr>,
       ?s\<lparr>stream := k1\<lparr>rx := es\<rparr>\<rparr>)" "carries es rest"
    using read_raw_frame_build [OF ready_new, of "[]" k1 FRAME_SETTINGS 0 STREAM_INIT rest] assms(3) k1(4)
    by (auto simp: build_settings_frame_def)
  let ?t = "?s\<lparr>stream := k1\<lparr>rx := es\<rparr>\<rparr>"
  have lt: "listening STREAM_CLIENT_SERVER ?t"
    using fresh_framer(1) [OF k1(2,3)] listening_rx [of STREAM_CLIENT_SERVER es ?s] by simp
  then have t: "ready ?t" "quiet ?t" "pending_write ?t = None" "ensure_connection_open ?t = Inr ()"
    by (auto simp: listening_def ready_def)
  have "write_all_tracked build_settings_ack ?t = (Ok (), put_wire build_settings_ack ?t)"
    "on_h2 sock_flush (put_wire build_settings_ack ?t) = (Ok (), put_wire build_settings_ack ?t)"
    using t(2,3) by (simp_all only: write_all_quiet flush_quiet put_wire_simps)
  then have "dispatch_frame \<lparr>rf_frame_type = FRAME_SETTINGS, rf_flags = 0, rf_stream_id = 0, rf_payload = []\<rparr> ?t =
      (Ok (), put_wire build_settings_ack ?t)"
    using t(4) by (simp add: dispatch_frame_def dispatch_frame_inner_def process_settings_def proc_simps
        apply_initial_window_def apply_max_frame_size_def)
  then have "read_until_settings_ack_needed ?s = (Ok (), put_wire build_settings_ack ?t)"
    using rd(1) by (subst read_until_settings_ack_needed.simps) (simp add: proc_simps)
  then have "connect k = (Ok (put_wire build_settings_ack ?t), stream (put_wire build_settings_ack ?t))"
    using k1(1) by (simp add: connect_def)
  moreover have "listening STREAM_CLIENT_SERVER (put_wire build_settings_ack ?t)"
    using lt memory_part [of ?t "put_wire build_settings_ack ?t"]
    by (auto simp: listening_def credit_low_def pending_update_def buffer_part_def)
      (simp_all add: put_wire_def)
  ultimately show ?thesis using rd(2) by (auto simp: control_buffer_def put_wire_def H2Framer_new_def)
qed

text \<open>
  A peer that answers the handshake with an empty SETTINGS frame and then sends three bytes on
  stream 1, in chunks that cut the frames.
\<close>

definition example_peer :: sock where
  "example_peer =
     \<lparr>rx = map (\<lambda>x. Chunk [x]) (build_settings_frame [] @ build_data_frame STREAM_CLIENT_SERVER [7, 8, 9]),
      wx = [], fx = [], wire = []\<rparr>"

lemma example_carries:
  "carries (rx example_peer) (build_settings_frame [] @ concat (map (build_data_frame STREAM_CLIENT_SERVER) [[7, 8, 9]]))"
proof -
  have "carries (map (\<lambda>x. Chunk [x]) xs) xs" for xs
    by (induction xs) (auto simp: carries_Cons)
  from this [of "build_settings_frame [] @ build_data_frame STREAM_CLIENT_SERVER [7, 8, 9]"]
  show ?thesis by (simp add: example_peer_def)
qed

lemma example_connects:
  "\<exists>s k'. connect example_peer = (Ok s, k') \<and> fst (read_stream STREAM_CLIENT_SERVER 2 s) = Ok [7, 8]"
proof -
  obtain s k' where s: "connect example_peer = (Ok s, k')" "listening STREAM_CLIENT_SERVER s"
    "control_buffer STREAM_CLIENT_SERVER s = []" "buffered_bytes s = 0"
    "carries (rx (stream s)) (concat (map (build_data_frame STREAM_CLIENT_SERVER) [[7, 8, 9]]))"
    using connect_quiet [OF _ _ example_carries] by (auto simp: example_peer_def)
  have "\<exists>t. read_stream_loop STREAM_CLIENT_SERVER 2 s = (Ok [7, 8], t)"
    using read_loop_delivers [OF s(2,5), of 2] s(3,4) by (simp add: h2_limits)
  then show ?thesis using s(1) read_stream_listening [OF s(2)] by auto
qed

definition example_state :: h2 where
  "example_state = (case connect example_peer of
       (Ok s, _) \<Rightarrow> snd (read_stream STREAM_CLIENT_SERVER 2 s) | _ \<Rightarrow> H2Framer_new example_peer)"

lemma example_reachable: "h2_reachable example_peer example_state"
proof -
  obtain s k' where s: "connect example_peer = (Ok s, k')" using example_connects by blast
  then have "example_state = snd (read_stream STREAM_CLIENT_SERVER 2 s)" by (simp add: example_state_def)
  then show ?thesis
    using h2_reachable.stepped [OF h2_reachable.connected [OF s] h2_step.read_stream_step [OF prod.collapse [symmetric]]]
    by metis
qed

section \<open>Invariants of every connection\<close>

text \<open>
  C2. Whatever the peer sends, whatever is called and wherever calls are cancelled, the framer
  stores at most 64 MiB, at most 16 MiB for one stream, and its counter \<open>buffered_bytes\<close> is
  exactly what it stores: the sum, over all streams, of the buffer and the queued frames.
\<close>

theorem h2_memory_bounded:
  assumes "h2_reachable k s"
  shows "buffered_bytes s = (\<Sum>i\<in>UNIV. held i s) \<and>
         buffered_bytes s \<le> MAX_TOTAL_BUFFERED_BYTES \<and> held sid s \<le> MAX_BUFFERED_BYTES_PER_STREAM"
  using h2_memory.ops.reachable_invariant [OF assms memory_new] by (simp add: memory_ok_def)

theorem h2_memory_bounded_witness:
  "h2_reachable example_peer example_state \<and>
   buffered_bytes example_state = (\<Sum>i\<in>UNIV. held i example_state) \<and>
   buffered_bytes example_state \<le> MAX_TOTAL_BUFFERED_BYTES"
  using h2_memory_bounded [OF example_reachable] example_reachable by blast

text \<open>
  C30. In every state of a connection at most 32 peer-opened streams and file-stream candidates
  are active, at most 4096 file streams are announced and at most 1024 DATA frames are queued; the
  streams remembered as closed or reset are, beyond the control streams and the streams opened
  locally, at most 32 each, those in the eviction queue.
\<close>

theorem h2_tables_bounded:
  assumes "h2_reachable k s"
  shows "card (peer_open_streams s) + card (file_stream_candidates s) \<le> 32 \<and>
         card (announced_file_streams s) \<le> 4096 \<and> length (pending_data_frames s) \<le> 1024 \<and>
         closed_streams s - control_streams - locally_open_streams s = set (closed_unknown_order s) \<and>
         card (closed_streams s - control_streams - locally_open_streams s) \<le> 32 \<and>
         card (dom (reset_streams s) - control_streams - locally_open_streams s) \<le> 32"
proof -
  have ok: "active_ok s" "closed_ok s" "reset_ok s"
    using registry_okD [OF h2_registry.ops.reachable_invariant [OF assms registry_new]] by auto
  have closed: "closed_streams s - control_streams - locally_open_streams s = set (closed_unknown_order s)"
    using ok(2) unfolding closed_ok_def by blast
  have "card (dom (reset_streams s) - control_streams - locally_open_streams s) \<le> card (set (reset_unknown_order s))"
    using ok(3) unfolding reset_ok_def by (intro card_mono) auto
  then show ?thesis
    using ok closed card_length [of "closed_unknown_order s"] card_length [of "reset_unknown_order s"]
    by (auto simp: active_ok_def closed_ok_def reset_ok_def unknown_active_stream_count_def h2_limits)
qed

theorem h2_tables_bounded_witness:
  "h2_reachable example_peer example_state \<and> length (pending_data_frames example_state) \<le> 1024"
  using h2_tables_bounded [OF example_reachable] example_reachable by blast

text \<open>
  C29. The flow-control state of a connection always stays in the ranges of HTTP/2: the
  connection window is between 0 and \<open>2 ^ 31 - 1\<close>, a stream window (which a SETTINGS change may
  make negative) is at most \<open>2 ^ 31 - 1\<close> in absolute value, and the frame size is one the
  protocol allows.
\<close>

theorem h2_windows_in_range:
  assumes "h2_reachable k s"
  shows "0 \<le> outbound_connection_window s \<and> outbound_connection_window s < 2 ^ 31 \<and>
         (\<forall>sid w. outbound_stream_windows s sid = Some w \<longrightarrow> \<bar>w\<bar> < 2 ^ 31) \<and>
         16384 \<le> outbound_max_frame_size s \<and> outbound_max_frame_size s < 2 ^ 24"
  using h2_windows.ops.reachable_invariant [OF assms windows_new]
  by (auto simp: windows_ok_def h2_limits abs_less_iff) force+

theorem h2_windows_in_range_witness:
  "h2_reachable example_peer example_state \<and> 0 \<le> outbound_connection_window example_state"
  using h2_windows_in_range [OF example_reachable] example_reachable by blast

text \<open>
  C10. Frames are never torn on the wire. In every state of a connection the bytes handed to the
  transport, followed by the unsent rest that \<open>pending_write\<close> keeps after an error or a
  cancellation, are the connection preface and a sequence of whole frames.
\<close>

theorem h2_wire_whole_frames:
  assumes "h2_reachable k s"
  shows "\<exists>fs. list_all whole_frame fs \<and> wire (stream s) @ unsent s = wire k @ H2_PREFACE @ concat fs"
proof -
  have whole: "list_all whole_frame handshake_frames"
    by (simp add: handshake_frames_def build_settings_frame_def build_frame_whole length_to_bytes h2_limits)
  have "framed_windows (wire k @ H2_PREFACE) (H2Framer_new k1)" if "connect_write k = (Ok (), k1)" for k1
  proof -
    have "framed (wire k @ H2_PREFACE) (H2Framer_new k1)"
      unfolding framed_def
      by (rule exI [of _ handshake_frames])
        (simp add: whole connect_write_Ok [OF that] H2Framer_new_def unsent_def)
    then show ?thesis by (simp add: framed_windows_def windows_new)
  qed
  from h2_framing.reachable_invariant [OF assms this] show ?thesis
    by (auto simp: framed_windows_def framed_def)
qed

theorem h2_wire_whole_frames_witness:
  "h2_reachable example_peer example_state \<and>
   (\<exists>fs. list_all whole_frame fs \<and> wire (stream example_state) @ unsent example_state = H2_PREFACE @ concat fs)"
proof -
  have "wire example_peer = []" by (simp add: example_peer_def)
  then show ?thesis using h2_wire_whole_frames [OF example_reachable] example_reachable by simp
qed

text \<open>
  C33. A connection that hit a connection error, or whose opening of a stream or WINDOW_UPDATE
  was cancelled half way, is dead: every operation returns that error, reads nothing, writes
  nothing and changes nothing.
\<close>

theorem h2_poisoned_refuses:
  assumes "ensure_connection_open s = Inl e"
  shows "read_stream sid n s = (Err e, s) \<and> read_next_data_frame s = (Err e, s) \<and>
         buffer_next_data_stream s = (Err e, s) \<and> open_stream sid s = (Err e, s) \<and>
         write_stream sid bs s = (Err e, s) \<and> finish_pending_write_for_read s = (Err e, s)"
  using assms
  by (simp add: read_stream_def read_next_data_frame_def buffer_next_data_stream_def open_stream_def write_stream_def
      finish_pending_write_for_read_def ensure_stream_available_def proc_simps)

theorem h2_poisoned_refuses_witness:
  "let s = (H2Framer_new example_peer)\<lparr>window_update_in_progress := True\<rparr> in
   write_stream 1 [5] s =
     (Err (H2Protocol ''WINDOW_UPDATE was cancelled mid-write; the connection must be re-established'' []), s)"
proof -
  let ?s = "(H2Framer_new example_peer)\<lparr>window_update_in_progress := True\<rparr>"
  have "ensure_connection_open ?s =
    Inl (H2Protocol ''WINDOW_UPDATE was cancelled mid-write; the connection must be re-established'' [])"
    by (simp add: ensure_connection_open_def H2Framer_new_def)
  from h2_poisoned_refuses [OF this, of 1 0 "[5]"] show ?thesis by (simp only: Let_def)
qed

text \<open>
  C11. No received byte is ever lost. In every state of a connection, reading a frame that fails
  or is cancelled leaves all bytes that arrived (those the reader keeps, and those the transport
  still holds) as they were; a read that returns a frame takes off exactly the nine bytes of its
  header and its payload.
\<close>

theorem h2_read_loses_nothing:
  assumes "h2_reachable k s" and "read_raw_frame s = (r, t)"
  shows "case r of
      Ok f \<Rightarrow> \<exists>h. length h = 9 \<and>
         parse_frame_header h = (rf_frame_type f, rf_flags f, rf_stream_id f, length (rf_payload f)) \<and>
         received s = h @ rf_payload f @ received t
    | Err e \<Rightarrow> received t = received s
    | Cancelled \<Rightarrow> received t = received s"
  using read_raw_frame_takes [OF assms(2) h2_reader.reachable_invariant [OF assms(1) reader_new]]
  by (simp add: takes_frame_def split: outcome.splits)

theorem h2_read_loses_nothing_witness:
  "\<exists>s t. h2_reachable example_peer s \<and> read_raw_frame s = (Cancelled, t) \<and> received t = [0, 0]"
proof -
  obtain s0 k' where s0: "connect example_peer = (Ok s0, k')" "listening STREAM_CLIENT_SERVER s0"
    using connect_quiet [OF _ _ example_carries] by (auto simp: example_peer_def)
  let ?s = "s0\<lparr>stream := (stream s0)\<lparr>rx := [Chunk [0, 0], RxCancel], wx := [], fx := []\<rparr>\<rparr>"
  have reach: "h2_reachable example_peer ?s"
    using h2_reachable.stepped [OF h2_reachable.connected [OF s0(1)] h2_step.transport_step] .
  have "ensure_connection_open ?s = ensure_connection_open s0" by (rule ensure_open_fields) simp_all
  then have "\<exists>t. read_raw_frame ?s = (Cancelled, t)"
    using s0(2) by (simp add: listening_def ready_def read_raw_frame_def proc_simps finish_pending_write_def
        fill_header_def h2_io_outcome_def)
  then obtain t where t: "read_raw_frame ?s = (Cancelled, t)" by blast
  have "received ?s = [0, 0]" using s0(2) by (simp add: listening_def ready_def received_def)
  then show ?thesis using h2_read_loses_nothing [OF reach t] reach t by auto
qed

end
