(* ===== verification/H2_Settings.thy ===== *)
theory H2_Settings
  imports H2_Wire
begin

text \<open>
  The SETTINGS frames of the HTTP/2 peer: what a list of settings means, that the parser
  computes it, and that a SETTINGS frame is applied as a whole or not at all.
\<close>

section \<open>What a list of settings means\<close>

definition settings_payload :: "(u16 \<times> u32) list \<Rightarrow> bytes" where
  "settings_payload kvs = concat (map (\<lambda>(i, v). to_be16 i @ to_be32 v) kvs)"

definition valid_setting :: "u16 \<times> u32 \<Rightarrow> bool" where
  "valid_setting kv = (case kv of (i, v) \<Rightarrow>
     (i = SETTINGS_INITIAL_WINDOW_SIZE \<longrightarrow> unat v \<le> 0x7FFFFFFF) \<and>
     (i = SETTINGS_MAX_FRAME_SIZE \<longrightarrow> 16384 \<le> unat v \<and> unat v \<le> 0xFFFFFF))"

text \<open>The last occurrence of a setting counts.\<close>

definition last_setting :: "u16 \<Rightarrow> (u16 \<times> u32) list \<Rightarrow> nat option" where
  "last_setting i kvs = map_option unat (map_of (rev kvs) i)"

lemma settings_payload_Cons:
  "settings_payload ((i, v) # kvs) = to_be16 i @ to_be32 v @ settings_payload kvs"
  by (simp add: settings_payload_def)

lemma two_bytes: "length xs = 2 \<Longrightarrow> \<exists>a b. xs = [a, b]"
  by (auto simp: length_Suc_conv numeral_eq_Suc)

lemma four_bytes: "length xs = 4 \<Longrightarrow> \<exists>a b c d. xs = [a, b, c, d]"
  by (auto simp: length_Suc_conv numeral_eq_Suc)

lemma unat_window: "unat (v :: u32) \<le> 2147483647 \<longleftrightarrow> uint v \<le> 2147483647"
  using of_nat_le_iff [of "unat v" 2147483647, where 'a = int] by simp

lemma parse_settings_step:
  "parse_settings (to_be16 i @ to_be32 v @ r) (iw, mf) =
     (if i = SETTINGS_INITIAL_WINDOW_SIZE then
        if int (unat v) > MAX_FLOW_CONTROL_WINDOW
        then Inl (''SETTINGS_INITIAL_WINDOW_SIZE {value} exceeds {MAX_FLOW_CONTROL_WINDOW}'',
                  [int (unat v), MAX_FLOW_CONTROL_WINDOW])
        else parse_settings r (Some (int (unat v)), mf)
      else if i = SETTINGS_MAX_FRAME_SIZE then
        if \<not> (MAX_FRAME_PAYLOAD \<le> unat v \<and> unat v \<le> MAX_NEGOTIATED_FRAME_SIZE)
        then Inl (''SETTINGS_MAX_FRAME_SIZE {value} is outside {}..={MAX_NEGOTIATED_FRAME_SIZE}'',
                  [int (unat v), int MAX_FRAME_PAYLOAD, int MAX_NEGOTIATED_FRAME_SIZE])
        else parse_settings r (iw, Some (unat v))
      else parse_settings r (iw, mf))"
proof -
  obtain a b where ab: "to_be16 i = [a, b]"
    using two_bytes [OF length_to_bytes(4)] by blast
  obtain c d e f where cf: "to_be32 v = [c, d, e, f]"
    using four_bytes [OF length_to_bytes(5)] by blast
  have "from_be16 [a, b] = i" "from_be32 [c, d, e, f] = v"
    using from_to_bytes(4) [of i] from_to_bytes(5) [of v] ab cf by simp_all
  then show ?thesis unfolding ab cf by (simp only: append_Cons append_Nil parse_settings.simps(1) Let_def)
qed

definition or_else :: "'a option \<Rightarrow> 'a option \<Rightarrow> 'a option" where
  "or_else a b = (case a of Some x \<Rightarrow> Some x | None \<Rightarrow> b)"

lemma last_setting_Cons:
  "or_else (last_setting j ((i, v) # kvs)) b = or_else (last_setting j kvs) (if i = j then Some (unat v) else b)"
  by (auto simp: last_setting_def or_else_def map_add_def split: option.splits)

lemma parse_settings_valid:
  "list_all valid_setting kvs \<Longrightarrow>
   parse_settings (settings_payload kvs) (map_option int iw, mf) =
     Inr (map_option int (or_else (last_setting SETTINGS_INITIAL_WINDOW_SIZE kvs) iw),
          or_else (last_setting SETTINGS_MAX_FRAME_SIZE kvs) mf)"
proof (induction kvs arbitrary: iw mf)
  case Nil
  then show ?case by (simp add: settings_payload_def last_setting_def or_else_def)
next
  case (Cons kv kvs)
  obtain i v where kv: "kv = (i, v)" by fastforce
  have ok: "list_all valid_setting kvs" "valid_setting (i, v)" using Cons.prems kv by simp_all
  consider "i = SETTINGS_INITIAL_WINDOW_SIZE" | "i = SETTINGS_MAX_FRAME_SIZE" |
    "i \<noteq> SETTINGS_INITIAL_WINDOW_SIZE" "i \<noteq> SETTINGS_MAX_FRAME_SIZE" by blast
  then show ?case
  proof cases
    case 1
    then show ?thesis
      using ok(2) Cons.IH [OF ok(1), of "Some (unat v)" mf]
      unfolding kv settings_payload_Cons parse_settings_step last_setting_Cons
      by (simp add: valid_setting_def h2_limits unat_window)
  next
    case 2
    then show ?thesis
      using ok(2) Cons.IH [OF ok(1), of iw "Some (unat v)"]
      unfolding kv settings_payload_Cons parse_settings_step last_setting_Cons
      by (simp add: valid_setting_def h2_limits unat_window)
  next
    case 3
    then show ?thesis
      using Cons.IH [OF ok(1), of iw mf]
      unfolding kv settings_payload_Cons parse_settings_step last_setting_Cons by simp
  qed
qed

lemma parse_settings_invalid:
  "\<not> list_all valid_setting kvs \<Longrightarrow> \<exists>e. parse_settings (settings_payload kvs) (iw, mf) = Inl e"
proof (induction kvs arbitrary: iw mf)
  case (Cons kv kvs)
  obtain i v where kv: "kv = (i, v)" by fastforce
  show ?case
  proof (cases "valid_setting (i, v)")
    case True
    then have "\<not> list_all valid_setting kvs" using Cons.prems kv by simp
    then show ?thesis
      using Cons.IH unfolding kv settings_payload_Cons parse_settings_step by auto
  next
    case False
    then show ?thesis
      unfolding kv settings_payload_Cons parse_settings_step
      by (auto simp: valid_setting_def h2_limits unat_window split: if_splits)
  qed
qed simp

text \<open>
  The settings parser computes its specification on every list of settings: it fails
  exactly when some INITIAL_WINDOW_SIZE exceeds \<open>2 ^ 31 - 1\<close> or some MAX_FRAME_SIZE is outside
  16384 to \<open>2 ^ 24 - 1\<close>, and otherwise returns the last value of either setting, ignoring all
  others.
\<close>

theorem parse_settings_spec:
  "(if list_all valid_setting kvs
    then parse_settings (settings_payload kvs) (None, None) =
           Inr (map_option int (last_setting SETTINGS_INITIAL_WINDOW_SIZE kvs), last_setting SETTINGS_MAX_FRAME_SIZE kvs)
    else \<exists>e. parse_settings (settings_payload kvs) (None, None) = Inl e)"
  using parse_settings_valid [of kvs None None] parse_settings_invalid [of kvs None None]
  by (simp add: or_else_def split: option.splits)

section \<open>Applying a frame\<close>

lemma shifted_windows_map:
  "shifted_windows sids d w = Inr r \<Longrightarrow>
   map_of r sid = (if sid \<in> set sids then map_option (\<lambda>x. x + d) (w sid) else None)"
proof (induction sids d w arbitrary: r rule: shifted_windows.induct)
  case (2 i sids d w)
  show ?case
  proof (cases "w i")
    case None
    then show ?thesis using "2.IH"(1) "2.prems" by auto
  next
    case (Some x)
    then obtain r' where r': "shifted_windows sids d w = Inr r'" "r = (i, x + d) # r'"
      using "2.prems" by (auto simp: attempt_Inr_iff i64_checked_add_def ok_or_def split: if_splits option.splits)
    moreover have "map_of r' sid = (if sid \<in> set sids then map_option (\<lambda>x. x + d) (w sid) else None)"
      using "2.IH"(2) [OF Some] r' "2.prems" Some
      by (auto simp: attempt_Inr_iff i64_checked_add_def ok_or_def split: if_splits option.splits)
    ultimately show ?thesis using Some by auto
  qed
qed simp

lemma apply_initial_window_cases:
  assumes "apply_initial_window iw s = (r, t)"
  shows "(r = Ok () \<and> peer_initial_window_size t = (case iw of None \<Rightarrow> peer_initial_window_size s | Some v \<Rightarrow> v) \<and>
           outbound_max_frame_size t = outbound_max_frame_size s \<and>
           outbound_connection_window t = outbound_connection_window s \<and>
           (\<forall>sid. outbound_stream_windows t sid =
              map_option (\<lambda>x. x + (peer_initial_window_size t - peer_initial_window_size s)) (outbound_stream_windows s sid))) \<or>
         ((\<exists>e. r = Err e) \<and> window_part t = window_part s \<and> connection_error t \<noteq> None)"
proof (cases iw)
  case None
  then show ?thesis using assms by (auto simp: apply_initial_window_def option.map_ident)
next
  case (Some v)
  let ?d = "v - peer_initial_window_size s"
  let ?w = "outbound_stream_windows s"
  show ?thesis
  proof (cases "shifted_windows (sorted_list_of_set (dom ?w)) ?d ?w")
    case (Inl e)
    then show ?thesis
      using assms Some
      by (cases e) (auto simp: apply_initial_window_def Let_def conn_err_def window_part_def split: option.splits)
  next
    case (Inr upd)
    have "(?w ++ map_of upd) sid = map_option (\<lambda>x. x + ?d) (?w sid)" for sid
    proof (cases "?w sid")
      case None
      then show ?thesis using shifted_windows_map [OF Inr, of sid] by (simp add: map_add_def)
    next
      case (Some x)
      then have "sid \<in> set (sorted_list_of_set (dom ?w))" by auto
      then show ?thesis using shifted_windows_map [OF Inr, of sid] Some by (simp add: map_add_def)
    qed
    then show ?thesis using assms Some Inr by (auto simp: apply_initial_window_def Let_def)
  qed
qed

lemma registry_windows: "registry_part t = registry_part s \<Longrightarrow> window_part t = window_part s"
  by (simp add: registry_part_def window_part_def)

lemma ack_windows: "untouched window_part (and_then (write_all_tracked f) (\<lambda>_. on_h2 sock_flush))"
proof (rule untouchedI, rule registry_windows)
  fix s
  have "untouched registry_part (and_then (write_all_tracked f) (\<lambda>_. on_h2 sock_flush))"
    by (intro keeps_intros)
  then show "registry_part (snd (and_then (write_all_tracked f) (\<lambda>_. on_h2 sock_flush) s)) = registry_part s"
    unfolding untouched_def by blast
qed

text \<open>
  C31. A SETTINGS frame is applied as a whole or not at all. Either it is refused: then the
  connection is failed and no window, initial window or frame size has changed. Or all its values
  hold: the new initial window and frame size are in force, and the window of every open stream
  has moved by the difference of the initial windows; this also when sending the
  acknowledgement fails or is cancelled.
\<close>

theorem settings_all_or_nothing:
  assumes "process_settings fl payload s = (r, t)" and "fl AND FLAG_SETTINGS_ACK = 0"
  shows "((\<exists>e. r = Err e) \<and> connection_error t \<noteq> None \<and> outbound_stream_windows t = outbound_stream_windows s \<and>
           peer_initial_window_size t = peer_initial_window_size s \<and>
           outbound_max_frame_size t = outbound_max_frame_size s) \<or>
         (\<exists>iw mf. parse_settings payload (None, None) = Inr (iw, mf) \<and>
           peer_initial_window_size t = (case iw of None \<Rightarrow> peer_initial_window_size s | Some v \<Rightarrow> v) \<and>
           outbound_max_frame_size t = (case mf of None \<Rightarrow> outbound_max_frame_size s | Some v \<Rightarrow> v) \<and>
           (\<forall>sid. outbound_stream_windows t sid =
              map_option (\<lambda>x. x + (peer_initial_window_size t - peer_initial_window_size s)) (outbound_stream_windows s sid)))"
proof (cases "length payload mod 6 = 0 \<and> (\<exists>iw mf. parse_settings payload (None, None) = Inr (iw, mf))")
  case False
  then have "\<exists>msg args. process_settings fl payload = conn_err msg args"
    using assms(2)
    by (cases "parse_settings payload (None, None)") (auto simp: process_settings_def split: prod.splits)
  then obtain msg args where "conn_err msg args s = (r, t)" using assms(1) by metis
  then have "(\<exists>e. r = Err e) \<and> window_part t = window_part s \<and> connection_error t \<noteq> None"
    by (auto simp: conn_err_def window_part_def split: option.splits)
  then show ?thesis by (auto simp: window_part_def)
next
  case True
  then obtain iw mf where p: "parse_settings payload (None, None) = Inr (iw, mf)" by blast
  obtain r1 s1 where s1: "apply_initial_window iw s = (r1, s1)" by fastforce
  let ?ack = "and_then (write_all_tracked build_settings_ack) (\<lambda>_. on_h2 sock_flush)"
  have run: "process_settings fl payload s =
      and_then (apply_initial_window iw) (\<lambda>_. and_then (modify (apply_max_frame_size mf)) (\<lambda>_. ?ack)) s"
    using True p assms(2) by (simp add: process_settings_def)
  show ?thesis
  proof (cases "r1 = Ok ()")
    case ok: True
    then have "?ack (apply_max_frame_size mf s1) = (r, t)"
      using assms(1) run s1 by (simp add: proc_simps(4))
    then have "window_part t = window_part (apply_max_frame_size mf s1)"
      using untouchedD [OF ack_windows] by blast
    then show ?thesis
      using apply_initial_window_cases [OF s1] ok p
      by (auto simp: window_part_def apply_max_frame_size_def split: option.splits)
  next
    case False
    then have "(\<exists>e. r1 = Err e)" "window_part s1 = window_part s" "connection_error s1 \<noteq> None"
      using apply_initial_window_cases [OF s1] by auto
    moreover from this have "r = r1 \<and> t = s1" using assms(1) run s1 by auto
    ultimately show ?thesis by (auto simp: window_part_def)
  qed
qed

theorem settings_all_or_nothing_witness:
  "let s = (H2Framer_new \<lparr>rx = [], wx = [], fx = [], wire = []\<rparr>)\<lparr>outbound_stream_windows := [1 \<mapsto> 10]\<rparr>;
       t = snd (process_settings 0 (settings_payload [(4, 65635)]) s)
   in outbound_stream_windows t 1 = Some 110 \<and> peer_initial_window_size t = 65635"
proof -
  let ?s = "(H2Framer_new \<lparr>rx = [], wx = [], fx = [], wire = []\<rparr>)\<lparr>outbound_stream_windows := [1 \<mapsto> 10]\<rparr>"
  let ?p = "settings_payload [(4, 65635)]"
  have p: "parse_settings ?p (None, None) = Inr (Some 65635, None)"
    using parse_settings_valid [of "[(4, 65635)]" None None] by (simp add: valid_setting_def last_setting_def or_else_def)
  have len: "length ?p = 6" by (simp add: settings_payload_def)
  obtain r t where t: "process_settings 0 ?p ?s = (r, t)" by fastforce
  have "r = Ok ()"
    using t p len
    by (simp add: process_settings_def apply_initial_window_def shifted_windows.simps i64_checked_add_def h2_limits
        H2Framer_new_def proc_simps apply_max_frame_size_def write_all_tracked_def finish_pending_write_def
        write_frame_bytes_def h2_io_outcome_def on_h2_def on_stream_def sock_flush_def)
  then show ?thesis
    using settings_all_or_nothing [OF t] p t by (auto simp: Let_def H2Framer_new_def h2_limits)
qed

end
