(* ===== verification/Keyed_Archive.thy ===== *)
theory Keyed_Archive
  imports Ios_Prelude
begin

text \<open>
  NSKeyedArchiver archives (\<open>proto/nskeyedarchiver.rs\<close>, \<open>proto/nskeyedarchiver_encode.rs\<close>): the
  encoder, which flattens a property list into the object table of an archive, and the decoder,
  which follows the references of an untrusted object table up to a fixed depth. The property
  list reader and writer of the \<open>plist\<close> crate are parameters. A \<open>String\<close> is the list of its
  UTF-8 bytes, a double its 64 bits, a \<open>HashMap\<close> or \<open>Dictionary\<close> the list of its entries with
  distinct keys (the order of a \<open>HashMap\<close> is an artefact of the model).
\<close>

section \<open>Property lists\<close>

datatype plist =
    PString string
  | PInteger int
  | PReal u64
  | PBoolean bool
  | PData bytes
  | PDate u64
  | PUid nat
  | PArray "plist list"
  | PDictionary "(string \<times> plist) list"

definition p_string :: "plist \<Rightarrow> string option" where
  "p_string v = (case v of PString s \<Rightarrow> Some s | _ \<Rightarrow> None)"

definition p_array :: "plist \<Rightarrow> plist list option" where
  "p_array v = (case v of PArray a \<Rightarrow> Some a | _ \<Rightarrow> None)"

definition p_dictionary :: "plist \<Rightarrow> (string \<times> plist) list option" where
  "p_dictionary v = (case v of PDictionary d \<Rightarrow> Some d | _ \<Rightarrow> None)"

definition p_data :: "plist \<Rightarrow> bytes option" where
  "p_data v = (case v of PData d \<Rightarrow> Some d | _ \<Rightarrow> None)"

definition p_unsigned :: "plist \<Rightarrow> nat option" where
  "p_unsigned v = (case v of PInteger n \<Rightarrow> if 0 \<le> n \<and> n < 2 ^ 64 then Some (nat n) else None | _ \<Rightarrow> None)"

definition p_signed :: "plist \<Rightarrow> int option" where
  "p_signed v = (case v of PInteger n \<Rightarrow> if - (2 ^ 63) \<le> n \<and> n < 2 ^ 63 then Some n else None | _ \<Rightarrow> None)"

definition p_real :: "plist \<Rightarrow> u64 option" where
  "p_real v = (case v of PReal f \<Rightarrow> Some f | _ \<Rightarrow> None)"

definition p_boolean :: "plist \<Rightarrow> bool option" where
  "p_boolean v = (case v of PBoolean b \<Rightarrow> Some b | _ \<Rightarrow> None)"

lemmas p_defs = p_string_def p_array_def p_dictionary_def p_data_def p_unsigned_def p_signed_def
  p_real_def p_boolean_def

text \<open>Decimal digits, for the keys that are numbers.\<close>

fun show_nat :: "nat \<Rightarrow> string" where
  "show_nat n = (if n < 10 then [char_of (48 + n)] else show_nat (n div 10) @ [char_of (48 + n mod 10)])"

definition show_int :: "int \<Rightarrow> string" where
  "show_int n = (if n < 0 then ''-'' @ show_nat (nat (- n)) else show_nat (nat n))"

section \<open>Archive values\<close>

datatype avalue =
    ANull
  | ABool bool
  | AInt int
  | AUint nat
  | AFloat u64
  | AString string
  | AData bytes
  | AArray "avalue list"
  | ADict "(string \<times> avalue) list"
  | AUnknown string

datatype archive_error = APlist | AInvalid string | TooDeep nat

definition MAX_ARCHIVE_DEPTH :: nat where "MAX_ARCHIVE_DEPTH = 64"

definition archive_as_str :: "avalue \<Rightarrow> string option" where
  "archive_as_str v = (case v of AString s \<Rightarrow> Some s | _ \<Rightarrow> None)"

definition archive_as_int :: "avalue \<Rightarrow> int option" where
  "archive_as_int v = (case v of
       AInt n \<Rightarrow> Some n
     | AUint n \<Rightarrow> if n < 2 ^ 63 then Some (int n) else None
     | ABool b \<Rightarrow> Some (of_bool b)
     | _ \<Rightarrow> None)"

definition archive_as_uint :: "avalue \<Rightarrow> nat option" where
  "archive_as_uint v = (case v of
       AUint n \<Rightarrow> Some n
     | AInt n \<Rightarrow> if 0 \<le> n then Some (nat n) else None
     | ABool b \<Rightarrow> Some (of_bool b)
     | _ \<Rightarrow> None)"

definition archive_as_array :: "avalue \<Rightarrow> avalue list option" where
  "archive_as_array v = (case v of AArray a \<Rightarrow> Some a | _ \<Rightarrow> None)"

definition archive_as_dict :: "avalue \<Rightarrow> (string \<times> avalue) list option" where
  "archive_as_dict v = (case v of ADict d \<Rightarrow> Some d | _ \<Rightarrow> None)"

section \<open>Decoding\<close>

text \<open>
  \<open>usize::try_from\<close> of a \<open>u64\<close>: it fits on the 64-bit targets, and a UID larger than that is no
  \<open>u64\<close>.
\<close>

definition usize_from :: "nat \<Rightarrow> nat option" where
  "usize_from n = (if n \<le> usize_MAX then Some n else None)"

definition uid_from_plist :: "plist \<Rightarrow> nat option" where
  "uid_from_plist v = (case v of
       PUid u \<Rightarrow> usize_from u
     | PDictionary d \<Rightarrow> (case Option.bind (map_of d ''CF$UID'') p_unsigned of
           Some n \<Rightarrow> usize_from n
         | None \<Rightarrow> None)
     | _ \<Rightarrow> Option.bind (p_unsigned v) usize_from)"

text \<open>The \<open>filter_map(uid_from_plist)\<close> over a field that holds an array.\<close>

definition uid_list :: "string \<Rightarrow> (string \<times> plist) list \<Rightarrow> nat list" where
  "uid_list key dict = (case Option.bind (map_of dict key) p_array of
       Some a \<Rightarrow> List.map_filter uid_from_plist a
     | None \<Rightarrow> [])"

definition archive_class_name :: "plist list \<Rightarrow> (string \<times> plist) list \<Rightarrow> string" where
  "archive_class_name objects dict =
     (case Option.bind (map_of dict ''$class'') uid_from_plist of
        None \<Rightarrow> ''Unknown''
      | Some uid \<Rightarrow>
          if uid < length objects then
            (case Option.bind (Option.bind (p_dictionary (objects ! uid)) (\<lambda>cd. map_of cd ''$classname'')) p_string of
               Some n \<Rightarrow> n
             | None \<Rightarrow> ''Unknown'')
          else ''Unknown'')"

definition unsigned_value :: "nat \<Rightarrow> avalue" where
  "unsigned_value n = (if n < 2 ^ 63 then AInt (int n) else AUint n)"

text \<open>The classes whose objects hold no further objects.\<close>

definition decode_nsstring :: "(string \<times> plist) list \<Rightarrow> avalue" where
  "decode_nsstring dict =
     (case Option.bind (map_of dict ''NS.string'') p_string of Some s \<Rightarrow> AString s | None \<Rightarrow> AString [])"

definition first_some :: "'a option \<Rightarrow> 'a option \<Rightarrow> 'a option" where
  "first_some x y = (case x of None \<Rightarrow> y | Some v \<Rightarrow> Some v)"

definition decode_nsnumber :: "(string \<times> plist) list \<Rightarrow> avalue" where
  "decode_nsnumber dict =
     (let intval = Option.bind (map_of dict ''NS.intval'') (\<lambda>v.
            first_some (map_option AInt (p_signed v)) (map_option unsigned_value (p_unsigned v)));
          dblval = map_option AFloat (Option.bind (map_of dict ''NS.dblval'') p_real);
          boolval = map_option ABool (Option.bind (map_of dict ''NS.boolval'') p_boolean)
      in case first_some intval (first_some dblval boolval) of Some v \<Rightarrow> v | None \<Rightarrow> ANull)"

definition decode_nsdata :: "(string \<times> plist) list \<Rightarrow> avalue" where
  "decode_nsdata dict =
     (case Option.bind (map_of dict ''NS.data'') p_data of Some d \<Rightarrow> AData d | None \<Rightarrow> ANull)"

text \<open>How the name of a class selects its decoder.\<close>

datatype decoder_kind = KNull | KString | KNumber | KArray | KDictionary | KData | KTap | KOther

definition class_kind :: "string \<Rightarrow> decoder_kind" where
  "class_kind n =
     (if n = ''NSNull'' then KNull
      else if n \<in> {''NSString'', ''__NSCFString'', ''__NSCFConstantString''} then KString
      else if n \<in> {''NSNumber'', ''__NSCFNumber'', ''__NSCFBoolean''} then KNumber
      else if n \<in> {''NSArray'', ''NSMutableArray'', ''NSSet'', ''NSMutableSet'', ''NSOrderedSet''} then KArray
      else if n \<in> {''NSDictionary'', ''NSMutableDictionary''} then KDictionary
      else if n \<in> {''NSData'', ''NSMutableData''} then KData
      else if n \<in> {''DTSysmonTapMessage'', ''DTActivityTraceTapMessage'', ''DTTapMessage'',
                   ''DTTapHeartbeatMessage'', ''DTTapStatusMessage'', ''DTKTraceTapMessage''} then KTap
      else KOther)"

text \<open>
  The text of a dictionary key; \<open>None\<close> skips the entry. \<open>fmt\<close> is the decimal rendering of a
  double by \<open>f64::to_string\<close>.
\<close>

definition key_text :: "(u64 \<Rightarrow> string) \<Rightarrow> archive_error + avalue \<Rightarrow> string option" where
  "key_text fmt r = (case r of
       Inr (AString k) \<Rightarrow> Some k
     | Inr (AInt n) \<Rightarrow> Some (show_int n)
     | Inr (AUint n) \<Rightarrow> Some (show_nat n)
     | Inr (AFloat f) \<Rightarrow> Some (fmt f)
     | Inr (ABool b) \<Rightarrow> Some (if b then ''true'' else ''false'')
     | _ \<Rightarrow> None)"

definition with_object_type :: "string \<Rightarrow> (string \<times> avalue) list \<Rightarrow> avalue" where
  "with_object_type name m =
     ADict (if map_of m ''ObjectType'' = None then index_insert ''ObjectType'' (AString name) m else m)"

definition integer_value :: "plist \<Rightarrow> avalue" where
  "integer_value v = (case p_unsigned v of
       Some n \<Rightarrow> unsigned_value n
     | None \<Rightarrow> (case p_signed v of Some n \<Rightarrow> AInt n | None \<Rightarrow> ANull))"

text \<open>The rank of a call: four per remaining level, ordered by who calls whom on one level.\<close>

definition obj_rank :: "nat \<Rightarrow> nat" where "obj_rank d = 4 * (65 - d) + 2"
definition val_rank :: "nat \<Rightarrow> nat" where "val_rank d = (if d \<le> 64 then 4 * (65 - d) + 1 else 4)"

text \<open>
  The recursion of the decoder. Every level of nesting passes through \<open>decode_object\<close> or
  \<open>decode_field_value\<close>, which refuse a depth beyond the limit, so it ends on every object table,
  cyclic ones included.
\<close>

function (sequential)
      decode_object :: "(u64 \<Rightarrow> string) \<Rightarrow> plist list \<Rightarrow> nat \<Rightarrow> nat \<Rightarrow> archive_error + avalue"
  and decode_value :: "(u64 \<Rightarrow> string) \<Rightarrow> plist list \<Rightarrow> plist \<Rightarrow> nat \<Rightarrow> archive_error + avalue"
  and decode_uids :: "(u64 \<Rightarrow> string) \<Rightarrow> plist list \<Rightarrow> nat list \<Rightarrow> nat \<Rightarrow> archive_error + avalue list"
  and decode_pairs :: "(u64 \<Rightarrow> string) \<Rightarrow> plist list \<Rightarrow> (nat \<times> nat) list \<Rightarrow> nat \<Rightarrow>
        (string \<times> avalue) list \<Rightarrow> archive_error + (string \<times> avalue) list"
  and decode_fields :: "(u64 \<Rightarrow> string) \<Rightarrow> plist list \<Rightarrow> (string \<times> plist) list \<Rightarrow> nat \<Rightarrow>
        (string \<times> avalue) list \<Rightarrow> archive_error + (string \<times> avalue) list"
  and decode_items :: "(u64 \<Rightarrow> string) \<Rightarrow> plist list \<Rightarrow> plist list \<Rightarrow> nat \<Rightarrow> archive_error + avalue list"
  and decode_field_value :: "(u64 \<Rightarrow> string) \<Rightarrow> plist list \<Rightarrow> plist \<Rightarrow> nat \<Rightarrow> archive_error + avalue"
where
  "decode_object fmt objects uid depth =
     (if depth > MAX_ARCHIVE_DEPTH then Inl (TooDeep MAX_ARCHIVE_DEPTH)
      else if uid \<ge> length objects then Inl (AInvalid ''uid {uid} out of bounds'')
      else decode_value fmt objects (objects ! uid) depth)"
| "decode_value fmt objects obj depth = (case obj of
       PString s \<Rightarrow> Inr (if s = ''$null'' then ANull else AString s)
     | PInteger n \<Rightarrow> Inr (integer_value obj)
     | PReal f \<Rightarrow> Inr (AFloat f)
     | PBoolean b \<Rightarrow> Inr (ABool b)
     | PData d \<Rightarrow> Inr (AData d)
     | PDate t \<Rightarrow> Inr ANull
     | PUid u \<Rightarrow>
         (case uid_from_plist obj of
            None \<Rightarrow> Inl (AInvalid ''UID does not fit in the host index type'')
          | Some uid \<Rightarrow> decode_object fmt objects uid (depth + 1))
     | PArray a \<Rightarrow> Inr ANull
     | PDictionary dict \<Rightarrow>
         (let name = archive_class_name objects dict in
          case class_kind name of
            KNull \<Rightarrow> Inr ANull
          | KString \<Rightarrow> Inr (decode_nsstring dict)
          | KNumber \<Rightarrow> Inr (decode_nsnumber dict)
          | KArray \<Rightarrow>
              attempt (decode_uids fmt objects (uid_list ''NS.objects'' dict) (depth + 1)) (\<lambda>vs. Inr (AArray vs))
          | KDictionary \<Rightarrow>
              attempt (decode_pairs fmt objects (zip (uid_list ''NS.keys'' dict) (uid_list ''NS.objects'' dict))
                         (depth + 1) []) (\<lambda>m. Inr (ADict m))
          | KData \<Rightarrow> Inr (decode_nsdata dict)
          | KTap \<Rightarrow>
              (case Option.bind (map_of dict ''DTTapMessagePlist'') uid_from_plist of
                 Some uid \<Rightarrow> decode_object fmt objects uid (depth + 1)
               | None \<Rightarrow> Inr (AUnknown name))
          | KOther \<Rightarrow>
              attempt (decode_fields fmt objects (filter (\<lambda>(k, v). k \<noteq> ''$class'') dict) (depth + 1) [])
                (\<lambda>m. Inr (with_object_type name m))))"
| "decode_uids fmt objects [] depth = Inr []"
| "decode_uids fmt objects (uid # uids) depth =
     attempt (decode_object fmt objects uid depth) (\<lambda>v.
     attempt (decode_uids fmt objects uids depth) (\<lambda>vs. Inr (v # vs)))"
| "decode_pairs fmt objects [] depth m = Inr m"
| "decode_pairs fmt objects ((k_uid, v_uid) # ps) depth m =
     (case key_text fmt (decode_object fmt objects k_uid depth) of
        None \<Rightarrow> decode_pairs fmt objects ps depth m
      | Some key \<Rightarrow>
          attempt (decode_object fmt objects v_uid depth) (\<lambda>v.
          decode_pairs fmt objects ps depth (index_insert key v m)))"
| "decode_fields fmt objects [] depth m = Inr m"
| "decode_fields fmt objects ((key, value) # es) depth m =
     attempt (decode_field_value fmt objects value depth) (\<lambda>v.
     decode_fields fmt objects es depth (index_insert key v m))"
| "decode_items fmt objects [] depth = Inr []"
| "decode_items fmt objects (item # items) depth =
     attempt (decode_field_value fmt objects item depth) (\<lambda>v.
     attempt (decode_items fmt objects items depth) (\<lambda>vs. Inr (v # vs)))"
| "decode_field_value fmt objects value depth =
     (if depth > MAX_ARCHIVE_DEPTH then Inl (TooDeep MAX_ARCHIVE_DEPTH)
      else (case uid_from_plist value of
          Some uid \<Rightarrow> decode_object fmt objects uid (depth + 1)
        | None \<Rightarrow>
            (case value of
               PArray items \<Rightarrow> attempt (decode_items fmt objects items (depth + 1)) (\<lambda>vs. Inr (AArray vs))
             | PDictionary dict \<Rightarrow>
                 if map_of dict ''$class'' = None then
                   attempt (decode_fields fmt objects dict (depth + 1) []) (\<lambda>m. Inr (ADict m))
                 else decode_value fmt objects value depth
             | _ \<Rightarrow> decode_value fmt objects value depth)))"
  by pat_completeness auto

termination
  by (relation "measures [case_sum
        (case_sum (\<lambda>(f, os, u, d). obj_rank d) (case_sum (\<lambda>(f, os, v, d). val_rank d) (\<lambda>(f, os, us, d). obj_rank d + 1)))
        (case_sum (case_sum (\<lambda>(f, os, ps, d, m). obj_rank d + 1) (\<lambda>(f, os, es, d, m). obj_rank d + 1))
          (case_sum (\<lambda>(f, os, vs, d). obj_rank d + 1) (\<lambda>(f, os, v, d). obj_rank d))),
      case_sum
        (case_sum (\<lambda>x. 0) (case_sum (\<lambda>x. 0) (\<lambda>(f, os, us, d). length us)))
        (case_sum (case_sum (\<lambda>(f, os, ps, d, m). length ps) (\<lambda>(f, os, es, d, m). length es))
          (case_sum (\<lambda>(f, os, vs, d). length vs) (\<lambda>x. 0)))]")
    (auto simp: obj_rank_def val_rank_def MAX_ARCHIVE_DEPTH_def)

declare decode_object.simps [simp del] decode_value.simps [simp del] decode_field_value.simps [simp del]

definition unarchive :: "(bytes \<Rightarrow> plist option) \<Rightarrow> (u64 \<Rightarrow> string) \<Rightarrow> bytes \<Rightarrow> archive_error + avalue" where
  "unarchive rd fmt data =
     attempt (ok_or APlist (rd data)) (\<lambda>plist.
     attempt (ok_or (AInvalid ''top-level is not a dict'') (p_dictionary plist)) (\<lambda>root_dict.
     let archiver = (case Option.bind (map_of root_dict ''$archiver'') p_string of Some s \<Rightarrow> s | None \<Rightarrow> []) in
     if archiver \<noteq> ''NSKeyedArchiver'' then Inl (AInvalid ''unknown archiver: {archiver}'')
     else
       attempt (ok_or (AInvalid ''missing $objects'') (Option.bind (map_of root_dict ''$objects'') p_array)) (\<lambda>objects.
       attempt (ok_or (AInvalid ''missing $top'') (Option.bind (map_of root_dict ''$top'') p_dictionary)) (\<lambda>top.
       attempt (ok_or (AInvalid ''missing $top.root uid'') (Option.bind (map_of top ''root'') uid_from_plist)) (\<lambda>root_uid.
       decode_object fmt objects root_uid 0)))))"

section \<open>Encoding\<close>

record nsurl =
  path :: string

record xct_capabilities =
  capabilities :: "(string \<times> plist) list"

record xctest_configuration =
  session_identifier :: bytes
  test_bundle_url :: nsurl
  ide_capabilities :: xct_capabilities
  automation_framework_path :: string
  initialize_for_ui_testing :: bool
  report_results_to_ide :: bool
  tests_must_run_on_main_thread :: bool
  test_timeouts_enabled :: bool
  additional_fields :: "(string \<times> plist) list"

definition class_descriptor :: "string \<Rightarrow> string list \<Rightarrow> plist" where
  "class_descriptor classname classes =
     PDictionary [(''$classname'', PString classname), (''$classes'', PArray (map PString classes))]"

definition build_keyed_archive :: "plist \<Rightarrow> plist list \<Rightarrow> plist" where
  "build_keyed_archive root_uid objects =
     PDictionary
       [(''$archiver'', PString ''NSKeyedArchiver''), (''$version'', PInteger 100000),
        (''$top'', PDictionary [(''root'', root_uid)]), (''$objects'', PArray objects)]"

text \<open>The objects that stand for an array and a dictionary in the table.\<close>

definition array_object :: "nat \<Rightarrow> plist list \<Rightarrow> plist" where
  "array_object class_idx item_uids =
     PDictionary [(''$class'', PUid class_idx), (''NS.objects'', PArray item_uids)]"

definition dict_object :: "nat \<Rightarrow> plist list \<Rightarrow> plist list \<Rightarrow> plist" where
  "dict_object class_idx key_uids val_uids =
     PDictionary [(''$class'', PUid class_idx), (''NS.keys'', PArray key_uids), (''NS.objects'', PArray val_uids)]"

text \<open>
  \<open>archive_value_into\<close> appends the objects of a value to the table and returns its UID. The loop
  over the entries of a dictionary keeps the UIDs of the keys and of the values.
\<close>

fun archive_value_into :: "plist \<Rightarrow> plist list \<Rightarrow> plist \<times> plist list"
  and archive_items_into :: "plist list \<Rightarrow> plist list \<Rightarrow> plist list \<times> plist list"
  and archive_entries_into :: "(string \<times> plist) list \<Rightarrow> plist list \<Rightarrow> plist list \<times> plist list \<times> plist list"
  and archive_dict_into :: "(string \<times> plist) list \<Rightarrow> plist list \<Rightarrow> plist \<times> plist list"
where
  "archive_value_into (PArray items) objects =
     (case archive_items_into items objects of (item_uids, objects1) \<Rightarrow>
        (PUid (length objects1),
         objects1 @ [array_object (length objects1 + 1) item_uids,
                     class_descriptor ''NSArray'' [''NSArray'', ''NSObject'']]))"
| "archive_value_into (PDictionary dict) objects = archive_dict_into dict objects"
| "archive_value_into val objects = (PUid (length objects), objects @ [val])"
| "archive_items_into [] objects = ([], objects)"
| "archive_items_into (v # items) objects =
     (case archive_value_into v objects of (uid, objects1) \<Rightarrow>
      case archive_items_into items objects1 of (uids, objects2) \<Rightarrow> (uid # uids, objects2))"
| "archive_entries_into [] objects = ([], [], objects)"
| "archive_entries_into ((k, v) # pairs) objects =
     (let k_uid = PUid (length objects); objects1 = objects @ [PString k] in
      case archive_value_into v objects1 of (v_uid, objects2) \<Rightarrow>
      case archive_entries_into pairs objects2 of (key_uids, val_uids, objects3) \<Rightarrow>
        (k_uid # key_uids, v_uid # val_uids, objects3))"
| "archive_dict_into pairs objects =
     (let dict_idx = length objects in
      case archive_entries_into pairs (objects @ [PBoolean False]) of (key_uids, val_uids, objects1) \<Rightarrow>
        let class_idx = length objects1;
            objects2 = objects1 @ [class_descriptor ''NSDictionary'' [''NSDictionary'', ''NSObject'']]
        in (PUid dict_idx, objects2[dict_idx := dict_object class_idx key_uids val_uids]))"

definition archive_nsuuid_into :: "bytes \<Rightarrow> plist list \<Rightarrow> plist \<times> plist list" where
  "archive_nsuuid_into uuid objects =
     (let object_idx = length objects; class_idx = object_idx + 1;
          object = PDictionary [(''$class'', PUid class_idx), (''NS.uuidbytes'', PData uuid)]
      in (PUid object_idx, objects @ [object, class_descriptor ''NSUUID'' [''NSUUID'', ''NSObject'']]))"

definition archive_nsurl_into :: "nsurl \<Rightarrow> plist list \<Rightarrow> plist \<times> plist list" where
  "archive_nsurl_into url objects =
     (let object_idx = length objects; class_idx = object_idx + 1; relative_idx = object_idx + 2;
          object = PDictionary [(''$class'', PUid class_idx), (''NS.base'', PUid 0), (''NS.relative'', PUid relative_idx)]
      in (PUid object_idx,
          objects @ [object, class_descriptor ''NSURL'' [''NSURL'', ''NSObject''], PString (''file://'' @ path url)]))"

definition archive_xct_capabilities_into :: "xct_capabilities \<Rightarrow> plist list \<Rightarrow> plist \<times> plist list" where
  "archive_xct_capabilities_into caps objects =
     (case archive_dict_into (capabilities caps) objects of (dict_uid, objects1) \<Rightarrow>
      let object_idx = length objects1; class_idx = object_idx + 1;
          object = PDictionary [(''$class'', PUid class_idx), (''capabilities-dictionary'', dict_uid)]
      in (PUid object_idx,
          objects1 @ [object, class_descriptor ''XCTCapabilities'' [''XCTCapabilities'', ''NSObject'']]))"

definition archive_nsset_into :: "string list \<Rightarrow> plist list \<Rightarrow> plist \<times> plist list" where
  "archive_nsset_into values objects =
     (let object_idx = length objects; class_idx = object_idx + 1 in
      case archive_items_into (map PString values)
             (objects @ [PBoolean False, class_descriptor ''NSSet'' [''NSSet'', ''NSObject'']])
      of (item_uids, objects1) \<Rightarrow>
        (PUid object_idx, objects1[object_idx := array_object class_idx item_uids]))"

text \<open>\<open>str::split_once\<close> at a character.\<close>

definition split_once :: "char \<Rightarrow> string \<Rightarrow> (string \<times> string) option" where
  "split_once c s = (if c \<in> set s then Some (takeWhile (\<lambda>x. x \<noteq> c) s, tl (dropWhile (\<lambda>x. x \<noteq> c) s)) else None)"

definition archive_xct_test_identifier_into :: "string \<Rightarrow> plist list \<Rightarrow> plist \<times> plist list" where
  "archive_xct_test_identifier_into selector objects =
     (let class_idx = length objects;
          objects1 = objects @ [class_descriptor ''XCTTestIdentifier'' [''XCTTestIdentifier'', ''NSObject'']];
          (class, method) = (case split_once (CHR ''/'') selector of
               Some (class, method) \<Rightarrow> (class, Some method)
             | None \<Rightarrow> (selector, None));
          class' = (case split_once (CHR ''.'') class of Some (_, c) \<Rightarrow> c | None \<Rightarrow> class);
          components = (case method of Some m \<Rightarrow> [PString class', PString m] | None \<Rightarrow> [PString class']);
          options = (if method \<noteq> None then 2 else 3)
      in case archive_value_into (PArray components) objects1 of (components_uid, objects2) \<Rightarrow>
           (PUid (length objects2),
            objects2 @ [PDictionary [(''$class'', PUid class_idx), (''c'', components_uid), (''o'', PInteger options)]]))"

primrec archive_identifiers_into :: "string list \<Rightarrow> plist list \<Rightarrow> plist list \<times> plist list" where
  "archive_identifiers_into [] objects = ([], objects)"
| "archive_identifiers_into (s # ss) objects =
     (case archive_xct_test_identifier_into s objects of (uid, objects1) \<Rightarrow>
      case archive_identifiers_into ss objects1 of (uids, objects2) \<Rightarrow> (uid # uids, objects2))"

definition archive_xct_test_identifier_set_into :: "string list \<Rightarrow> plist list \<Rightarrow> plist \<times> plist list" where
  "archive_xct_test_identifier_set_into values objects =
     (let set_idx = length objects; array_idx = set_idx + 1; array_class_idx = array_idx + 1 in
      case archive_identifiers_into values
             (objects @ [PBoolean False, PBoolean False,
                         class_descriptor ''NSMutableArray'' [''NSMutableArray'', ''NSArray'', ''NSObject'']])
      of (identifier_uids, objects1) \<Rightarrow>
        let objects2 = objects1[array_idx := array_object array_class_idx identifier_uids];
            set_class_idx = length objects2;
            objects3 = objects2 @ [class_descriptor ''XCTTestIdentifierSet'' [''XCTTestIdentifierSet'', ''NSObject'']];
            set_object = PDictionary [(''$class'', PUid set_class_idx), (''identifiers'', PUid array_idx)]
        in (PUid set_idx, objects3[set_idx := set_object]))"

definition archive_configuration_field :: "plist \<Rightarrow> plist list \<Rightarrow> plist \<times> plist list" where
  "archive_configuration_field value objects = (case value of
       PString _ \<Rightarrow> archive_value_into value objects
     | PData _ \<Rightarrow> archive_value_into value objects
     | PDate _ \<Rightarrow> archive_value_into value objects
     | PArray _ \<Rightarrow> archive_value_into value objects
     | PDictionary _ \<Rightarrow> archive_value_into value objects
     | _ \<Rightarrow> (value, objects))"

text \<open>The selectors of a \<open>testsToRun\<close> or \<open>testsToSkip\<close> field that is an array of strings.\<close>

definition test_selectors :: "string \<Rightarrow> plist \<Rightarrow> string list option" where
  "test_selectors key value =
     (if key = ''testsToRun'' \<or> key = ''testsToSkip'' then
        (case value of
           PArray items \<Rightarrow>
             let selectors = List.map_filter p_string items in
             if length selectors = length items then Some selectors else None
         | _ \<Rightarrow> None)
      else None)"

definition archive_additional_field ::
    "string \<Rightarrow> plist \<Rightarrow> (string \<times> plist) list \<Rightarrow> plist list \<Rightarrow> (string \<times> plist) list \<times> plist list" where
  "archive_additional_field key value object objects =
     (case test_selectors key value of
        Some selectors \<Rightarrow>
          (case archive_nsset_into selectors objects of (set_uid, objects1) \<Rightarrow>
           let object1 = index_insert key set_uid object;
               identifier_key = (if key = ''testsToRun'' then ''testIdentifiersToRun'' else ''testIdentifiersToSkip'')
           in case archive_xct_test_identifier_set_into selectors objects1 of (ids_uid, objects2) \<Rightarrow>
                (index_insert identifier_key ids_uid object1, objects2))
      | None \<Rightarrow>
          (case archive_configuration_field value objects of (v, objects1) \<Rightarrow>
             (index_insert key v object, objects1)))"

primrec archive_additional_fields ::
    "(string \<times> plist) list \<Rightarrow> (string \<times> plist) list \<Rightarrow> plist list \<Rightarrow> (string \<times> plist) list \<times> plist list" where
  "archive_additional_fields [] object objects = (object, objects)"
| "archive_additional_fields (f # fs) object objects =
     (case archive_additional_field (fst f) (snd f) object objects of (object1, objects1) \<Rightarrow>
        archive_additional_fields fs object1 objects1)"

definition archive_xctest_configuration_into :: "xctest_configuration \<Rightarrow> plist list \<Rightarrow> plist \<times> plist list" where
  "archive_xctest_configuration_into config objects =
     (case archive_nsuuid_into (session_identifier config) objects of (session_uid, objects1) \<Rightarrow>
      case archive_nsurl_into (test_bundle_url config) objects1 of (bundle_uid, objects2) \<Rightarrow>
      case archive_xct_capabilities_into (ide_capabilities config) objects2 of (caps_uid, objects3) \<Rightarrow>
      case archive_value_into (PString (automation_framework_path config)) objects3 of (automation_uid, objects4) \<Rightarrow>
      let object =
        [(''sessionIdentifier'', session_uid), (''testBundleURL'', bundle_uid), (''IDECapabilities'', caps_uid),
         (''automationFrameworkPath'', automation_uid),
         (''initializeForUITesting'', PBoolean (initialize_for_ui_testing config)),
         (''reportResultsToIDE'', PBoolean (report_results_to_ide config)),
         (''testsMustRunOnMainThread'', PBoolean (tests_must_run_on_main_thread config)),
         (''testTimeoutsEnabled'', PBoolean (test_timeouts_enabled config))]
      in case archive_additional_fields (additional_fields config) object objects4 of (object1, objects5) \<Rightarrow>
        let object_idx = length objects5; class_idx = object_idx + 1 in
        (PUid object_idx,
         objects5 @ [PDictionary (index_insert ''$class'' (PUid class_idx) object1),
                     class_descriptor ''XCTestConfiguration'' [''XCTestConfiguration'', ''NSObject'']]))"

text \<open>The object table starts with the \<open>$null\<close> sentinel; \<open>wr\<close> is \<open>plist::to_writer_binary\<close>.\<close>

abbreviation null_table :: "plist list" where "null_table \<equiv> [PString ''$null'']"

definition archive_root :: "(plist \<Rightarrow> bytes) \<Rightarrow> plist \<times> plist list \<Rightarrow> bytes" where
  "archive_root wr r = (case r of (root_uid, objects) \<Rightarrow> wr (build_keyed_archive root_uid objects))"

definition archive_value :: "(plist \<Rightarrow> bytes) \<Rightarrow> plist \<Rightarrow> bytes" where
  "archive_value wr val = archive_root wr (PUid 1, null_table @ [val])"

definition archive_string :: "(plist \<Rightarrow> bytes) \<Rightarrow> string \<Rightarrow> bytes" where
  "archive_string wr s = archive_value wr (PString s)"

definition archive_int :: "(plist \<Rightarrow> bytes) \<Rightarrow> i64 \<Rightarrow> bytes" where
  "archive_int wr n = archive_value wr (PInteger (sint n))"

definition archive_float :: "(plist \<Rightarrow> bytes) \<Rightarrow> u64 \<Rightarrow> bytes" where
  "archive_float wr f = archive_value wr (PReal f)"

definition archive_bool :: "(plist \<Rightarrow> bytes) \<Rightarrow> bool \<Rightarrow> bytes" where
  "archive_bool wr b = archive_value wr (PBoolean b)"

definition archive_data :: "(plist \<Rightarrow> bytes) \<Rightarrow> bytes \<Rightarrow> bytes" where
  "archive_data wr d = archive_value wr (PData d)"

definition archive_null :: "(plist \<Rightarrow> bytes) \<Rightarrow> bytes" where
  "archive_null wr = archive_root wr
     (PUid 1, null_table @ [PDictionary [(''$class'', PUid 2)], class_descriptor ''NSNull'' [''NSNull'', ''NSObject'']])"

definition archive_array :: "(plist \<Rightarrow> bytes) \<Rightarrow> plist list \<Rightarrow> bytes" where
  "archive_array wr items =
     (let count = length items in
      archive_root wr (PUid 1,
        null_table @ [array_object (2 + count) (map (\<lambda>i. PUid (2 + i)) [0..<count])] @ items @
        [class_descriptor ''NSArray'' [''NSArray'', ''NSObject'']]))"

definition archive_dict :: "(plist \<Rightarrow> bytes) \<Rightarrow> (string \<times> plist) list \<Rightarrow> bytes" where
  "archive_dict wr pairs = archive_root wr (archive_dict_into pairs null_table)"

definition archive_uuid :: "(plist \<Rightarrow> bytes) \<Rightarrow> bytes \<Rightarrow> bytes" where
  "archive_uuid wr uuid = archive_root wr (archive_nsuuid_into uuid null_table)"

definition archive_nsurl :: "(plist \<Rightarrow> bytes) \<Rightarrow> nsurl \<Rightarrow> bytes" where
  "archive_nsurl wr url = archive_root wr (archive_nsurl_into url null_table)"

definition archive_xct_capabilities :: "(plist \<Rightarrow> bytes) \<Rightarrow> xct_capabilities \<Rightarrow> bytes" where
  "archive_xct_capabilities wr caps = archive_root wr (archive_xct_capabilities_into caps null_table)"

definition archive_xctest_configuration :: "(plist \<Rightarrow> bytes) \<Rightarrow> xctest_configuration \<Rightarrow> bytes" where
  "archive_xctest_configuration wr config = archive_root wr (archive_xctest_configuration_into config null_table)"

end
