(* ===== verification/Archive_Roundtrip.thy ===== *)
theory Archive_Roundtrip
  imports Keyed_Archive
begin

text \<open>
  What the decoder makes of the encoder's archives. The relation \<open>stored\<close> says that a part of an
  object table holds a value; it is kept by everything that leaves that part alone, the encoder
  establishes it and the decoder reads it back. The other lemmas are about archives from an
  untrusted peer: the decoder's results are bounded in depth, whatever the object table.
\<close>

section \<open>The values the archive can hold\<close>

fun plain :: "plist \<Rightarrow> bool" where
  "plain (PString s) = (s \<noteq> ''$null'')"
| "plain (PInteger n) = (- (2 ^ 63) \<le> n \<and> n < 2 ^ 64)"
| "plain (PArray vs) = (\<forall>v \<in> set vs. plain v)"
| "plain (PDictionary es) = (\<forall>e \<in> set es. fst e \<noteq> ''$null'' \<and> plain (snd e))"
| "plain (PDate t) = False"
| "plain (PUid u) = False"
| "plain v = True"

fun height :: "plist \<Rightarrow> nat" where
  "height (PArray vs) = (if vs = [] then 0 else Suc (Max (set (map height vs))))"
| "height (PDictionary es) = (if es = [] then 0 else Suc (Max (set (map (\<lambda>e. height (snd e)) es))))"
| "height v = 0"

text \<open>The value an archive stands for: of two entries with one key the later one counts.\<close>

fun plain_value :: "plist \<Rightarrow> avalue"
  and plain_entries :: "(string \<times> plist) list \<Rightarrow> (string \<times> avalue) list \<Rightarrow> (string \<times> avalue) list"
where
  "plain_value (PString s) = AString s"
| "plain_value (PInteger n) = (if n < 2 ^ 63 then AInt n else AUint (nat n))"
| "plain_value (PReal f) = AFloat f"
| "plain_value (PBoolean b) = ABool b"
| "plain_value (PData d) = AData d"
| "plain_value (PDate t) = ANull"
| "plain_value (PUid u) = ANull"
| "plain_value (PArray vs) = AArray (map plain_value vs)"
| "plain_value (PDictionary es) = ADict (plain_entries es [])"
| "plain_entries [] m = m"
| "plain_entries (e # es) m = plain_entries es (index_insert (fst e) (plain_value (snd e)) m)"

fun leaf :: "plist \<Rightarrow> bool" where
  "leaf (PArray vs) = False"
| "leaf (PDictionary es) = False"
| "leaf v = True"

lemma height_item: "v \<in> set vs \<Longrightarrow> height v < height (PArray vs)"
  by (auto simp: less_Suc_eq_le)

lemma height_entry: "e \<in> set es \<Longrightarrow> height (snd e) < height (PDictionary es)"
  by (auto simp: less_Suc_eq_le)

section \<open>A value stored in an object table\<close>

abbreviation holds_at :: "nat \<Rightarrow> plist list \<Rightarrow> nat \<Rightarrow> plist \<Rightarrow> bool" where
  "holds_at lo objects i v \<equiv> lo \<le> i \<and> i < length objects \<and> objects ! i = v"

inductive stored :: "nat \<Rightarrow> plist list \<Rightarrow> nat \<Rightarrow> plist \<Rightarrow> bool" for lo objects where
  stored_leaf: "holds_at lo objects i v \<Longrightarrow> leaf v \<Longrightarrow> stored lo objects i v"
| stored_array: "holds_at lo objects i (array_object ci (map PUid us)) \<Longrightarrow>
    holds_at lo objects ci (class_descriptor ''NSArray'' cs) \<Longrightarrow>
    list_all2 (stored lo objects) us vs \<Longrightarrow> stored lo objects i (PArray vs)"
| stored_dict: "holds_at lo objects i (dict_object ci (map PUid ks) (map PUid us)) \<Longrightarrow>
    holds_at lo objects ci (class_descriptor ''NSDictionary'' cs) \<Longrightarrow>
    list_all2 (\<lambda>u e. holds_at lo objects u (PString (fst e))) ks es \<Longrightarrow>
    list_all2 (\<lambda>u e. stored lo objects u (snd e)) us es \<Longrightarrow> stored lo objects i (PDictionary es)"

text \<open>Only the part of the table from \<open>lo\<close> on matters.\<close>

definition same_from :: "nat \<Rightarrow> plist list \<Rightarrow> plist list \<Rightarrow> bool" where
  "same_from lo objects objects' \<longleftrightarrow>
     length objects \<le> length objects' \<and> (\<forall>j. lo \<le> j \<and> j < length objects \<longrightarrow> objects' ! j = objects ! j)"

lemma same_fromD: "same_from lo objects objects' \<Longrightarrow> holds_at lo objects i v \<Longrightarrow> holds_at lo objects' i v"
  by (auto simp: same_from_def)

lemma same_from_append [intro]: "same_from lo objects (objects @ ys)"
  by (auto simp: same_from_def nth_append)

lemma same_from_update: "i < lo \<Longrightarrow> same_from lo objects (objects[i := x])"
  by (auto simp: same_from_def)

lemma stored_same_from:
  assumes "stored lo objects i v" and "same_from lo objects objects'"
  shows "stored lo objects' i v"
  using assms(1)
proof (induction rule: stored.induct)
  case (stored_leaf i v)
  then show ?case using same_fromD [OF assms(2)] by (auto intro: stored.stored_leaf)
next
  case (stored_array i ci us cs vs)
  show ?case
    by (rule stored.stored_array [OF same_fromD [OF assms(2) stored_array(1)] same_fromD [OF assms(2) stored_array(2)]])
      (use stored_array in \<open>auto elim: list_all2_mono\<close>)
next
  case (stored_dict i ci ks us cs es)
  show ?case
    by (rule stored.stored_dict [OF same_fromD [OF assms(2) stored_dict(1)] same_fromD [OF assms(2) stored_dict(2)]])
      (use stored_dict assms(2) in \<open>auto simp: same_from_def elim!: list_all2_mono\<close>)
qed

lemma stored_weaken: "stored lo objects i v \<Longrightarrow> lo' \<le> lo \<Longrightarrow> stored lo' objects i v"
proof (induction rule: stored.induct)
  case (stored_leaf i v)
  then show ?case by (auto intro: stored.stored_leaf)
next
  case (stored_array i ci us cs vs)
  show ?case
    by (rule stored.stored_array [of _ _ _ ci us cs])
      (use stored_array in \<open>auto elim: list_all2_mono\<close>)
next
  case (stored_dict i ci ks us cs es)
  show ?case
    by (rule stored.stored_dict [of _ _ _ ci ks us cs])
      (use stored_dict in \<open>auto elim!: list_all2_mono\<close>)
qed

section \<open>The encoder stores\<close>

lemma same_from_trans: "same_from lo a b \<Longrightarrow> same_from lo b c \<Longrightarrow> same_from lo a c"
  by (auto simp: same_from_def)

lemma same_from_mono: "same_from lo a b \<Longrightarrow> lo \<le> lo' \<Longrightarrow> same_from lo' a b"
  by (auto simp: same_from_def)

lemma same_from_length: "same_from lo a b \<Longrightarrow> length a \<le> length b"
  by (simp add: same_from_def)

abbreviation extends :: "plist list \<Rightarrow> plist list \<Rightarrow> bool" where
  "extends \<equiv> same_from 0"

lemma stored_extends: "stored lo objects i v \<Longrightarrow> extends objects objects' \<Longrightarrow> stored lo objects' i v"
  using stored_same_from same_from_mono by blast

lemma stored_later: "stored lo objects i v \<Longrightarrow> lo' \<le> lo \<Longrightarrow> extends objects objects' \<Longrightarrow> stored lo' objects' i v"
  using stored_extends stored_weaken by blast

text \<open>The entries of a dictionary behind the place that was reserved for it, and then the dictionary there.\<close>

lemma entries_stored_Cons:
  assumes v: "stored (Suc (length objects)) objects1 i v" "extends (objects @ [PString k]) objects1"
    and keys: "list_all2 (\<lambda>u e. holds_at (length objects1) objects2 u (PString (fst e))) ks es"
    and vals: "list_all2 (\<lambda>u e. stored (length objects1) objects2 u (snd e)) us es" and o: "extends objects1 objects2"
  shows "list_all2 (\<lambda>u e. holds_at (length objects) objects2 u (PString (fst e))) (length objects # ks) ((k, v) # es)"
    and "list_all2 (\<lambda>u e. stored (length objects) objects2 u (snd e)) (i # us) ((k, v) # es)"
    and "extends objects objects2"
proof -
  have len: "Suc (length objects) \<le> length objects1" using same_from_length [OF v(2)] by simp
  have e: "extends (objects @ [PString k]) objects2" using v(2) o by (rule same_from_trans)
  show "list_all2 (\<lambda>u e. holds_at (length objects) objects2 u (PString (fst e))) (length objects # ks) ((k, v) # es)"
    using keys len same_fromD [OF e, of "length objects" "PString k"] by (auto elim!: list_all2_mono)
  show "list_all2 (\<lambda>u e. stored (length objects) objects2 u (snd e)) (i # us) ((k, v) # es)"
    using vals len stored_later [OF v(1) _ o, of "length objects"] by (auto elim!: list_all2_mono intro: stored_weaken)
  show "extends objects objects2" using same_from_append e by (rule same_from_trans)
qed

lemma dictionary_stored:
  fixes objects objects1 ks us es
  defines "i \<equiv> length objects"
  defines "t \<equiv> (objects1 @ [class_descriptor ''NSDictionary'' [''NSDictionary'', ''NSObject'']])
    [i := dict_object (length objects1) (map PUid ks) (map PUid us)]"
  assumes keys: "list_all2 (\<lambda>u e. holds_at (Suc i) objects1 u (PString (fst e))) ks es"
    and vals: "list_all2 (\<lambda>u e. stored (Suc i) objects1 u (snd e)) us es"
    and o: "extends (objects @ [PBoolean False]) objects1"
  shows "stored i t i (PDictionary es)" and "extends objects t"
proof -
  have len: "i < length objects1" using same_from_length [OF o] by (simp add: i_def)
  have t: "same_from (Suc i) objects1 t"
    unfolding t_def using same_from_append same_from_update by (rule same_from_trans) simp
  have "list_all2 (\<lambda>u e. holds_at i t u (PString (fst e))) ks es"
    using keys t by (elim list_all2_mono) (auto simp: same_from_def)
  moreover have "list_all2 (\<lambda>u e. stored i t u (snd e)) us es"
    using vals by (elim list_all2_mono) (rule stored_weaken [OF stored_same_from [OF _ t]], simp_all)
  ultimately show "stored i t i (PDictionary es)"
    using len by (intro stored_dict [of _ _ _ "length objects1" ks us]) (auto simp: nth_append t_def)
  show "extends objects t"
    using o len by (auto simp: same_from_def nth_append nth_list_update t_def i_def)
qed

lemma encoder_stores:
  shows "\<exists>i objects'. archive_value_into v objects = (PUid i, objects') \<and>
           stored (length objects) objects' i v \<and> extends objects objects'"
    and "\<exists>us objects'. archive_items_into vs objects = (map PUid us, objects') \<and>
           list_all2 (stored (length objects) objects') us vs \<and> extends objects objects'"
    and "\<exists>ks us objects'. archive_entries_into es objects = (map PUid ks, map PUid us, objects') \<and>
           list_all2 (\<lambda>u e. holds_at (length objects) objects' u (PString (fst e))) ks es \<and>
           list_all2 (\<lambda>u e. stored (length objects) objects' u (snd e)) us es \<and> extends objects objects'"
    and "\<exists>i objects'. archive_dict_into es objects = (PUid i, objects') \<and>
           stored (length objects) objects' i (PDictionary es) \<and> extends objects objects'"
proof (induction v objects and vs objects and es objects and es objects
    rule: archive_value_into_archive_items_into_archive_entries_into_archive_dict_into.induct)
  case (1 items objects)
  then obtain us objects' where *: "archive_items_into items objects = (map PUid us, objects')"
    "list_all2 (stored (length objects) objects') us items" "extends objects objects'" by blast
  let ?t = "objects' @ [array_object (length objects' + 1) (map PUid us),
    class_descriptor ''NSArray'' [''NSArray'', ''NSObject'']]"
  have "stored (length objects) ?t (length objects') (PArray items)"
    using *(2) same_from_length [OF *(3)]
    by (intro stored_array [of _ _ _ "length objects' + 1" us])
      (auto simp: nth_append elim!: list_all2_mono intro: stored_extends)
  then show ?case using * by (auto intro: same_from_trans)
next
  case (4 objects)
  then show ?case by (auto simp: same_from_def)
next
  case (5 v items objects)
  then obtain i objects1 where 1: "archive_value_into v objects = (PUid i, objects1)"
    "stored (length objects) objects1 i v" "extends objects objects1" by blast
  then obtain us objects2 where 2: "archive_items_into items objects1 = (map PUid us, objects2)"
    "list_all2 (stored (length objects1) objects2) us items" "extends objects1 objects2"
    using "5.IH"(2) [OF 1(1) [symmetric]] by blast
  have "list_all2 (stored (length objects) objects2) us items"
    using 2(2) same_from_length [OF 1(3)] by (auto elim!: list_all2_mono intro: stored_weaken)
  then show ?case using 1 2 stored_extends [OF 1(2) 2(3)]
    by (intro exI [of _ "i # us"] exI [of _ objects2]) (auto intro: same_from_trans)
next
  case (6 objects)
  then show ?case by (auto simp: same_from_def)
next
  case (7 k v pairs objects)
  let ?o = "objects @ [PString k]"
  obtain i objects1 where 1: "archive_value_into v ?o = (PUid i, objects1)"
    "stored (length ?o) objects1 i v" "extends ?o objects1" using "7.IH"(1) [OF refl refl] by blast
  then obtain ks us objects2 where 2: "archive_entries_into pairs objects1 = (map PUid ks, map PUid us, objects2)"
    "list_all2 (\<lambda>u e. holds_at (length objects1) objects2 u (PString (fst e))) ks pairs"
    "list_all2 (\<lambda>u e. stored (length objects1) objects2 u (snd e)) us pairs" "extends objects1 objects2"
    using "7.IH"(2) [OF refl refl 1(1) [symmetric]] by blast
  show ?case using entries_stored_Cons [OF _ 1(3) 2(2-4)] 1(1,2) 2(1)
    by (intro exI [of _ "length objects # ks"] exI [of _ "i # us"] exI [of _ objects2]) simp
next
  case (8 pairs objects)
  let ?o = "objects @ [PBoolean False]"
  obtain ks us objects1 where 1: "archive_entries_into pairs ?o = (map PUid ks, map PUid us, objects1)"
    "list_all2 (\<lambda>u e. holds_at (length ?o) objects1 u (PString (fst e))) ks pairs"
    "list_all2 (\<lambda>u e. stored (length ?o) objects1 u (snd e)) us pairs" "extends ?o objects1"
    using "8.IH" [OF refl] by blast
  then show ?case using dictionary_stored [of objects objects1 ks pairs us] by (auto simp: Let_def)
qed (auto intro!: stored_leaf)

section \<open>The decoder reads\<close>

lemma uid_list_Uids:
  assumes "map_of dict key = Some (PArray (map PUid us))" and "\<forall>u \<in> set us. u \<le> usize_MAX"
  shows "uid_list key dict = us"
  using assms(2) unfolding uid_list_def assms(1)
  by (induction us) (auto simp: p_array_def List.map_filter_def uid_from_plist_def usize_from_def)

lemma stored_index: "stored lo objects i v \<Longrightarrow> i < length objects"
  by (auto elim: stored.cases)

lemma decode_stored_leaf:
  assumes "plain v" and "leaf v" and "holds_at lo objects i v" and "d \<le> 64"
  shows "decode_object fmt objects i d = Inr (plain_value v)"
  using assms
  by (cases v)
    (auto simp: decode_object.simps decode_value.simps MAX_ARCHIVE_DEPTH_def integer_value_def unsigned_value_def
      p_unsigned_def p_signed_def)

lemma class_of_object:
  assumes "ci < length objects" and "objects ! ci = class_descriptor name cs" and "ci \<le> usize_MAX"
    and "map_of dict ''$class'' = Some (PUid ci)"
  shows "archive_class_name objects dict = name"
  using assms
  by (simp add: archive_class_name_def uid_from_plist_def usize_from_def class_descriptor_def p_defs)

lemma decode_array_object:
  assumes "holds_at lo objects i (array_object ci (map PUid us))"
    and "holds_at lo' objects ci (class_descriptor name cs)" and "class_kind name = KArray"
    and "length objects \<le> usize_MAX" and "d \<le> 64" and "\<forall>u \<in> set us. u < length objects"
  shows "decode_object fmt objects i d =
           attempt (decode_uids fmt objects us (d + 1)) (\<lambda>vs. Inr (AArray vs))"
proof -
  let ?d = "[(''$class'', PUid ci), (''NS.objects'', PArray (map PUid us))]"
  have "archive_class_name objects ?d = name"
    using assms(2,4) by (intro class_of_object [of ci _ _ cs]) auto
  moreover have "uid_list ''NS.objects'' ?d = us"
    using assms(4,6) by (intro uid_list_Uids) auto
  ultimately show ?thesis
    using assms(1,3,5) by (simp add: decode_object.simps decode_value.simps MAX_ARCHIVE_DEPTH_def array_object_def)
qed

lemma decode_dict_object:
  assumes "holds_at lo objects i (dict_object ci (map PUid ks) (map PUid us))"
    and "holds_at lo' objects ci (class_descriptor name cs)" and "class_kind name = KDictionary"
    and "length objects \<le> usize_MAX" and "d \<le> 64"
    and "\<forall>u \<in> set us. u < length objects" and "\<forall>u \<in> set ks. u < length objects"
  shows "decode_object fmt objects i d =
           attempt (decode_pairs fmt objects (zip ks us) (d + 1) []) (\<lambda>m. Inr (ADict m))"
proof -
  let ?d = "[(''$class'', PUid ci), (''NS.keys'', PArray (map PUid ks)), (''NS.objects'', PArray (map PUid us))]"
  have "archive_class_name objects ?d = name"
    using assms(2,4) by (intro class_of_object [of ci _ _ cs]) auto
  moreover have "uid_list ''NS.objects'' ?d = us" "uid_list ''NS.keys'' ?d = ks"
    using assms(4,6,7) by (auto intro!: uid_list_Uids)
  ultimately show ?thesis
    using assms(1,3,5) by (simp add: decode_object.simps decode_value.simps MAX_ARCHIVE_DEPTH_def dict_object_def)
qed

lemma decode_uids_all:
  "list_all2 (\<lambda>u v. decode_object fmt objects u d = Inr (plain_value v)) us vs \<Longrightarrow>
   decode_uids fmt objects us d = Inr (map plain_value vs)"
  by (induction rule: list_all2_induct) auto

lemma decode_uids_map:
  "\<forall>i \<in> set is. decode_object fmt objects (f i) d = Inr (g i) \<Longrightarrow>
   decode_uids fmt objects (map f is) d = Inr (map g is)"
  by (induction "is") auto

lemma map_nth_apply: "map (\<lambda>i. f (xs ! i)) [0..<length xs] = map f xs"
  by (rule nth_equalityI) simp_all

lemma decode_pairs_all:
  assumes "list_all2 (\<lambda>u e. decode_object fmt objects u d = Inr (AString (fst e))) ks es"
    and "list_all2 (\<lambda>u e. decode_object fmt objects u d = Inr (plain_value (snd e))) us es"
  shows "decode_pairs fmt objects (zip ks us) d m = Inr (plain_entries es m)"
  using assms
  by (induction es arbitrary: ks us m rule: list.induct) (auto simp: list_all2_Cons2 key_text_def)

lemma list_all2_ball: "list_all2 P us vs \<Longrightarrow> (\<And>u v. P u v \<Longrightarrow> Q u) \<Longrightarrow> \<forall>u \<in> set us. Q u"
  by (induction rule: list_all2_induct) auto

lemma decode_stored:
  assumes "stored lo objects i v" and "plain v" and "height v + d \<le> 64" and "length objects \<le> usize_MAX"
  shows "decode_object fmt objects i d = Inr (plain_value v)"
  using assms(1-3)
proof (induction arbitrary: d rule: stored.induct)
  case (stored_leaf i v)
  then show ?case by (intro decode_stored_leaf) auto
next
  case (stored_array i ci us cs vs)
  have "list_all2 (\<lambda>u v. decode_object fmt objects u (d + 1) = Inr (plain_value v)) us vs"
    using stored_array(3)
  proof (rule list.rel_mono_strong)
    fix u v assume "v \<in> set vs" and IH: "stored lo objects u v \<and>
      (plain v \<longrightarrow> (\<forall>x. height v + x \<le> 64 \<longrightarrow> decode_object fmt objects u x = Inr (plain_value v)))"
    then show "decode_object fmt objects u (d + 1) = Inr (plain_value v)"
      using stored_array.prems height_item [of v vs] by simp
  qed
  moreover have "\<forall>u \<in> set us. u < length objects"
    by (rule list_all2_ball [OF stored_array(3)]) (auto dest: stored_index)
  ultimately show ?case
    using stored_array assms(4)
    by (subst decode_array_object [OF stored_array(1,2)]) (auto simp: class_kind_def decode_uids_all)
next
  case (stored_dict i ci ks us cs es)
  have d: "es \<noteq> [] \<Longrightarrow> d < 64" using stored_dict.prems by auto
  have "list_all2 (\<lambda>u e. decode_object fmt objects u (d + 1) = Inr (plain_value (snd e))) us es"
    using stored_dict(4)
  proof (rule list.rel_mono_strong)
    fix u e assume "e \<in> set es" and IH: "stored lo objects u (snd e) \<and>
      (plain (snd e) \<longrightarrow> (\<forall>x. height (snd e) + x \<le> 64 \<longrightarrow> decode_object fmt objects u x = Inr (plain_value (snd e))))"
    then show "decode_object fmt objects u (d + 1) = Inr (plain_value (snd e))"
      using stored_dict.prems height_entry [of e es] by simp
  qed
  moreover have "list_all2 (\<lambda>u e. decode_object fmt objects u (d + 1) = Inr (AString (fst e))) ks es"
    using stored_dict(3)
  proof (rule list.rel_mono_strong)
    fix u e assume "e \<in> set es" and "holds_at lo objects u (PString (fst e))"
    then show "decode_object fmt objects u (d + 1) = Inr (AString (fst e))"
      using stored_dict.prems d decode_stored_leaf [of "PString (fst e)"] by fastforce
  qed
  moreover have "\<forall>u \<in> set us. u < length objects"
    by (rule list_all2_ball [OF stored_dict(4)]) (auto dest: stored_index)
  moreover have "\<forall>u \<in> set ks. u < length objects"
    by (rule list_all2_ball [OF stored_dict(3)]) auto
  ultimately show ?case
    using stored_dict assms(4)
    by (subst decode_dict_object [OF stored_dict(1,2)]) (auto simp: class_kind_def decode_pairs_all)
qed

section \<open>The depth of a decoded value\<close>

fun av_depth :: "avalue \<Rightarrow> nat" where
  "av_depth (AArray vs) = (if vs = [] then 0 else Suc (Max (set (map av_depth vs))))"
| "av_depth (ADict es) = (if es = [] then 0 else Suc (Max (set (map (\<lambda>e. av_depth (snd e)) es))))"
| "av_depth v = 0"

lemma av_depth_array: "(\<forall>v \<in> set vs. av_depth v < n) \<Longrightarrow> av_depth (AArray vs) \<le> n"
  by (auto simp: Suc_le_eq)

lemma av_depth_dict: "(\<forall>e \<in> set es. av_depth (snd e) < n) \<Longrightarrow> av_depth (ADict es) \<le> n"
  by (auto simp: Suc_le_eq)

lemma index_insert_ball:
  "(\<forall>e \<in> set m. P (snd e)) \<Longrightarrow> P v \<Longrightarrow> \<forall>e \<in> set (index_insert k v m). P (snd e)"
  by (induction k v m rule: index_insert.induct) auto

lemma av_depth_typed:
  "(\<forall>e \<in> set m. av_depth (snd e) < n) \<Longrightarrow> 0 < n \<Longrightarrow> av_depth (with_object_type name m) \<le> n"
  unfolding with_object_type_def
  by (intro av_depth_dict) (use index_insert_ball [of m "\<lambda>v. av_depth v < n" "AString name"] in auto)

lemma leaf_depths [simp]:
  "av_depth (decode_nsstring dict) = 0" "av_depth (decode_nsnumber dict) = 0" "av_depth (decode_nsdata dict) = 0"
  "av_depth (integer_value v) = 0" "av_depth (unsigned_value n) = 0"
  by (auto simp: decode_nsstring_def decode_nsnumber_def decode_nsdata_def integer_value_def unsigned_value_def
      first_some_def Let_def bind_eq_Some_conv split: option.splits if_splits)

text \<open>The two steps of the decoder that build a collection, from the depths of its parts.\<close>

lemma decode_dictionary_depth:
  fixes objects dict
  defines "n \<equiv> archive_class_name objects dict"
  assumes run: "decode_value fmt objects (PDictionary dict) d = Inr v'" "d \<le> 64"
    and uids: "\<And>vs. class_kind n = KArray \<Longrightarrow> decode_uids fmt objects (uid_list ''NS.objects'' dict) (d + 1) = Inr vs \<Longrightarrow>
      \<forall>v \<in> set vs. av_depth v < 65 - d"
    and pairs: "\<And>es. class_kind n = KDictionary \<Longrightarrow>
      decode_pairs fmt objects (zip (uid_list ''NS.keys'' dict) (uid_list ''NS.objects'' dict)) (d + 1) [] = Inr es \<Longrightarrow>
      \<forall>e \<in> set es. av_depth (snd e) < 65 - d"
    and tap: "\<And>i v. class_kind n = KTap \<Longrightarrow> Option.bind (map_of dict ''DTTapMessagePlist'') uid_from_plist = Some i \<Longrightarrow>
      decode_object fmt objects i (d + 1) = Inr v \<Longrightarrow> av_depth v < 65 - d"
    and fields: "\<And>es. class_kind n = KOther \<Longrightarrow>
      decode_fields fmt objects (filter (\<lambda>(k, v). k \<noteq> ''$class'') dict) (d + 1) [] = Inr es \<Longrightarrow>
      \<forall>e \<in> set es. av_depth (snd e) < 65 - d"
  shows "av_depth v' + d \<le> 65"
proof -
  note simps = decode_value.simps attempt_Inr_iff n_def [symmetric] Let_def
  have "av_depth v' \<le> 65 - d"
  proof (cases "class_kind n")
    case KArray
    then show ?thesis using run uids by (auto simp: simps intro!: av_depth_array simp del: av_depth.simps)
  next
    case KDictionary
    then show ?thesis using run pairs by (auto simp: simps intro!: av_depth_dict simp del: av_depth.simps)
  next
    case KTap
    then show ?thesis using run tap by (fastforce simp: simps split: option.splits)
  next
    case KOther
    then show ?thesis using run fields by (auto simp: simps intro!: av_depth_typed)
  qed (use run in \<open>auto simp: simps\<close>)
  then show ?thesis using run(2) by simp
qed

lemma decode_inline_depth:
  assumes run: "decode_field_value fmt objects value d = Inr v" "uid_from_plist value = None"
    and items: "\<And>items vs. value = PArray items \<Longrightarrow> decode_items fmt objects items (d + 1) = Inr vs \<Longrightarrow>
      \<forall>v \<in> set vs. av_depth v < 65 - d"
    and fields: "\<And>dict es. value = PDictionary dict \<Longrightarrow> map_of dict ''$class'' = None \<Longrightarrow>
      decode_fields fmt objects dict (d + 1) [] = Inr es \<Longrightarrow> \<forall>e \<in> set es. av_depth (snd e) < 65 - d"
    and other: "(\<And>items. value \<noteq> PArray items) \<Longrightarrow> (\<And>dict. value = PDictionary dict \<Longrightarrow> map_of dict ''$class'' \<noteq> None) \<Longrightarrow>
      decode_value fmt objects value d = Inr v \<Longrightarrow> av_depth v + d \<le> 65"
  shows "d \<le> 64 \<and> av_depth v + d \<le> 65"
proof -
  have d: "d \<le> 64" using run by (simp add: decode_field_value.simps MAX_ARCHIVE_DEPTH_def split: if_splits)
  note simps = decode_field_value.simps [of fmt objects "value"] MAX_ARCHIVE_DEPTH_def attempt_Inr_iff
  have "av_depth v \<le> 65 - d"
  proof (cases "(\<exists>items. value = PArray items) \<or> (\<exists>dict. value = PDictionary dict \<and> map_of dict ''$class'' = None)")
    case True
    then show ?thesis using run d items fields
      by (auto simp: simps intro!: av_depth_array av_depth_dict simp del: av_depth.simps) force
  next
    case False
    then have "decode_value fmt objects value d = Inr v" using run d by (auto simp: simps split: plist.splits if_splits)
    then show ?thesis using other False by auto
  qed
  then show ?thesis using d by simp
qed

lemma decoded_depth:
  shows "decode_object fmt objects uid d = Inr v \<Longrightarrow> d \<le> 64 \<and> av_depth v + d \<le> 65"
    and "decode_value fmt objects obj d = Inr v' \<Longrightarrow> d \<le> 64 \<Longrightarrow> av_depth v' + d \<le> 65"
    and "decode_uids fmt objects uids d = Inr vs \<Longrightarrow> \<forall>v \<in> set vs. av_depth v + d \<le> 65 \<and> d \<le> 64"
    and "decode_pairs fmt objects ps d m = Inr es \<Longrightarrow> \<forall>e \<in> set m. av_depth (snd e) + d \<le> 65 \<and> d \<le> 64 \<Longrightarrow>
           \<forall>e \<in> set es. av_depth (snd e) + d \<le> 65 \<and> d \<le> 64"
    and "decode_fields fmt objects fs d m = Inr es \<Longrightarrow> \<forall>e \<in> set m. av_depth (snd e) + d \<le> 65 \<and> d \<le> 64 \<Longrightarrow>
           \<forall>e \<in> set es. av_depth (snd e) + d \<le> 65 \<and> d \<le> 64"
    and "decode_items fmt objects items d = Inr vs \<Longrightarrow> \<forall>v \<in> set vs. av_depth v + d \<le> 65 \<and> d \<le> 64"
    and "decode_field_value fmt objects value d = Inr v \<Longrightarrow> d \<le> 64 \<and> av_depth v + d \<le> 65"
proof (induction fmt objects uid d and fmt objects obj d and fmt objects uids d and fmt objects ps d m and
    fmt objects fs d m and fmt objects items d and fmt objects "value" d arbitrary: v and v' and vs and es and es and vs and v
    rule: decode_object_decode_value_decode_uids_decode_pairs_decode_fields_decode_items_decode_field_value.induct)
  case (1 fmt objects uid d)
  then show ?case by (auto simp: decode_object.simps MAX_ARCHIVE_DEPTH_def split: if_splits)
next
  case (2 fmt objects obj d)
  show ?case
  proof (cases obj)
    case (PUid u)
    then obtain i where "uid_from_plist (PUid u) = Some i" "decode_object fmt objects i (d + 1) = Inr v'"
      using "2.prems" by (auto simp: decode_value.simps split: option.splits)
    then show ?thesis using 2(1) [OF PUid] PUid by fastforce
  next
    case (PDictionary dict)
    with "2.prems" have "decode_value fmt objects (PDictionary dict) d = Inr v'" "d \<le> 64" by simp_all
    then show ?thesis
      by (rule decode_dictionary_depth) (use 2(2-5) [OF PDictionary refl] in fastforce)+
  qed (use "2.prems" in \<open>auto simp: decode_value.simps\<close>)
next
  case (4 fmt objects uid uids d)
  then show ?case by (auto simp: attempt_Inr_iff)
next
  case (6 fmt objects k_uid v_uid ps d m)
  show ?case
  proof (cases "key_text fmt (decode_object fmt objects k_uid d)")
    case None
    then show ?thesis using 6 by simp
  next
    case (Some key)
    with "6.prems" obtain v where v: "decode_object fmt objects v_uid d = Inr v"
      "decode_pairs fmt objects ps d (index_insert key v m) = Inr es" by (auto simp: attempt_Inr_iff)
    show ?thesis
      by (rule "6.IH"(4) [OF Some v], rule index_insert_ball) (use "6.IH"(3) [OF Some v(1)] "6.prems" in auto)
  qed
next
  case (8 fmt objects key "value" fs d m)
  from "8.prems" obtain v where v: "decode_field_value fmt objects value d = Inr v"
    "decode_fields fmt objects fs d (index_insert key v m) = Inr es" by (auto simp: attempt_Inr_iff)
  show ?case
    by (rule "8.IH"(2) [OF v], rule index_insert_ball) (use "8.IH"(1) [OF v(1)] "8.prems" in auto)
next
  case (10 fmt objects item items d)
  then show ?case by (auto simp: attempt_Inr_iff)
next
  case (11 fmt objects "value" d)
  have d: "d \<le> 64" using "11.prems" by (simp add: decode_field_value.simps MAX_ARCHIVE_DEPTH_def split: if_splits)
  show ?case
  proof (cases "uid_from_plist value")
    case (Some i)
    then have "\<not> d > MAX_ARCHIVE_DEPTH" "decode_object fmt objects i (d + 1) = Inr v"
      using "11.prems" by (auto simp: decode_field_value.simps split: if_splits)
    from 11(11) [OF this(1) Some this(2)] show ?thesis by simp
  next
    case None
    with "11.prems" show ?thesis
    proof (rule decode_inline_depth)
      assume "\<And>items. value \<noteq> PArray items" "\<And>dict. value = PDictionary dict \<Longrightarrow> map_of dict ''$class'' \<noteq> None"
        "decode_value fmt objects value d = Inr v"
      then show "av_depth v + d \<le> 65" using 11(1-7,10) None d by (cases "value") (auto simp: MAX_ARCHIVE_DEPTH_def)
    qed (use 11(8,9) None d in \<open>fastforce simp: MAX_ARCHIVE_DEPTH_def\<close>)+
  qed
qed auto

section \<open>References stay inside the table\<close>

fun refs :: "plist \<Rightarrow> nat set" where
  "refs (PUid u) = {u}"
| "refs (PArray vs) = (\<Union>v \<in> set vs. refs v)"
| "refs (PDictionary es) = (\<Union>e \<in> set es. refs (snd e))"
| "refs v = {}"

definition within :: "nat \<Rightarrow> plist list \<Rightarrow> bool" where
  "within n objects \<longleftrightarrow> (\<forall>v \<in> set objects. \<forall>u \<in> refs v. u < n)"

lemma within_append [simp]: "within n (a @ b) \<longleftrightarrow> within n a \<and> within n b"
  by (auto simp: within_def)

lemma within_Nil [simp]: "within n []"
  by (simp add: within_def)

lemma within_Cons [simp]: "within n (v # vs) \<longleftrightarrow> (\<forall>u \<in> refs v. u < n) \<and> within n vs"
  by (auto simp: within_def)

lemma within_mono: "within n vs \<Longrightarrow> n \<le> m \<Longrightarrow> within m vs"
  by (fastforce simp: within_def)

lemma within_update: "within n vs \<Longrightarrow> within n [v] \<Longrightarrow> within n (vs[i := v])"
  by (auto simp: within_def dest!: set_update_subset_insert [THEN subsetD])

lemma refs_class_descriptor [simp]: "refs (class_descriptor name cs) = {}"
  by (simp add: class_descriptor_def)

lemma within_objects [simp]:
  "(\<forall>u \<in> refs (array_object ci us). u < n) \<longleftrightarrow> ci < n \<and> within n us"
  "(\<forall>u \<in> refs (dict_object ci ks us). u < n) \<longleftrightarrow> ci < n \<and> within n ks \<and> within n us"
  by (auto simp: array_object_def dict_object_def within_def)

text \<open>
  The result of an encoder: a table of at least \<open>n\<close> objects, its references and the ones
  returned are inside it.
\<close>

definition grown :: "nat \<Rightarrow> plist list \<Rightarrow> plist list \<Rightarrow> bool" where
  "grown n vs objects \<longleftrightarrow> n \<le> length objects \<and> within (length objects) vs \<and> within (length objects) objects"

lemma grown_mono: "grown n vs objects \<Longrightarrow> m \<le> n \<Longrightarrow> grown m vs objects"
  by (simp add: grown_def)

lemma grown_refs: "grown n vs objects \<Longrightarrow> within n ws \<Longrightarrow> grown n (ws @ vs) objects"
  by (auto simp: grown_def intro: within_mono)

lemma encoder_closed:
  shows "within (length objects) objects \<Longrightarrow> refs v = {} \<Longrightarrow>
           (case archive_value_into v objects of (u, t) \<Rightarrow> grown (Suc (length objects)) [u] t)"
    and "within (length objects) objects \<Longrightarrow> \<forall>v \<in> set vs. refs v = {} \<Longrightarrow>
           (case archive_items_into vs objects of (us, t) \<Rightarrow> grown (length objects) us t)"
    and "within (length objects) objects \<Longrightarrow> \<forall>e \<in> set es. refs (snd e) = {} \<Longrightarrow>
           (case archive_entries_into es objects of (ks, us, t) \<Rightarrow> grown (length objects) (ks @ us) t)"
    and "within (length objects) objects \<Longrightarrow> \<forall>e \<in> set es. refs (snd e) = {} \<Longrightarrow>
           (case archive_dict_into es objects of (u, t) \<Rightarrow> grown (Suc (length objects)) [u] t)"
proof (induction v objects and vs objects and es objects and es objects
    rule: archive_value_into_archive_items_into_archive_entries_into_archive_dict_into.induct)
  case (1 items objects)
  then show ?case
    by (auto simp: grown_def split: prod.splits elim: within_mono)
next
  case (5 v items objects)
  obtain u t where 1: "archive_value_into v objects = (u, t)" by fastforce
  obtain us t' where 2: "archive_items_into items t = (us, t')" by fastforce
  show ?case using "5.IH"(1) "5.IH"(2) [OF 1 [symmetric]] "5.prems" 1 2
    by (auto simp: grown_def elim: within_mono)
next
  case (7 k v pairs objects)
  obtain u t where 1: "archive_value_into v (objects @ [PString k]) = (u, t)" by fastforce
  obtain ks us t' where 2: "archive_entries_into pairs t = (ks, us, t')" by (metis prod_cases3)
  have "within (Suc (length objects)) objects" using "7.prems"(1) by (rule within_mono) simp
  then have "grown (Suc (Suc (length objects))) [u] t" using "7.IH"(1) [OF refl refl] "7.prems" 1 by simp
  moreover from this have "grown (length t) (ks @ us) t'"
    using "7.IH"(2) [OF refl refl 1 [symmetric]] "7.prems" 2 by (simp add: grown_def)
  ultimately show ?case using 1 2 by (auto simp: grown_def elim: within_mono)
next
  case (8 pairs objects)
  obtain ks us t where 1: "archive_entries_into pairs (objects @ [PBoolean False]) = (ks, us, t)" by (metis prod_cases3)
  have "within (Suc (length objects)) objects" using "8.prems"(1) by (rule within_mono) simp
  then have "grown (Suc (length objects)) (ks @ us) t" using "8.IH" [OF refl] "8.prems" 1 by simp
  then have "within (Suc (length t)) t" "within (Suc (length t)) ks" "within (Suc (length t)) us" "length objects < length t"
    by (auto simp: grown_def elim: within_mono)
  then show ?case
    using 1 within_update [of "Suc (length t)" _ "dict_object (length t) ks us"] by (simp add: grown_def Let_def)
qed (auto simp: grown_def elim: within_mono)

definition closes :: "(plist list \<Rightarrow> plist \<times> plist list) \<Rightarrow> bool" where
  "closes f \<longleftrightarrow> (\<forall>objects u t. within (length objects) objects \<longrightarrow> f objects = (u, t) \<longrightarrow> grown (Suc (length objects)) [u] t)"

lemma closesD: "closes f \<Longrightarrow> within (length objects) objects \<Longrightarrow> f objects = (u, t) \<Longrightarrow> grown (Suc (length objects)) [u] t"
  by (simp add: closes_def)

lemma value_closes: "refs v = {} \<Longrightarrow> closes (archive_value_into v)"
  using encoder_closed(1) by (fastforce simp: closes_def)

lemma dict_closes: "\<forall>e \<in> set es. refs (snd e) = {} \<Longrightarrow> closes (archive_dict_into es)"
  using encoder_closed(4) by (fastforce simp: closes_def)

lemma nsuuid_closes: "closes (archive_nsuuid_into uuid)"
  by (auto simp: closes_def archive_nsuuid_into_def grown_def Let_def elim: within_mono)

lemma nsurl_closes: "closes (archive_nsurl_into url)"
  by (auto simp: closes_def archive_nsurl_into_def grown_def Let_def elim: within_mono)

lemma test_identifier_closes: "closes (archive_xct_test_identifier_into s)"
  by (auto simp: closes_def archive_xct_test_identifier_into_def grown_def Let_def split: option.splits prod.splits
      elim: within_mono)

declare archive_value_into.simps [simp del] archive_dict_into.simps [simp del]

lemma capabilities_closes:
  assumes "\<forall>e \<in> set (capabilities caps). refs (snd e) = {}"
  shows "closes (archive_xct_capabilities_into caps)"
  unfolding closes_def
proof (intro allI impI)
  fix objects u t
  assume 1: "within (length objects) objects" and 2: "archive_xct_capabilities_into caps objects = (u, t)"
  obtain d t1 where d: "archive_dict_into (capabilities caps) objects = (d, t1)" by fastforce
  have g: "grown (Suc (length objects)) [d] t1" by (rule closesD [OF dict_closes [OF assms] 1 d])
  then have "within (length t1) (d # t1)" by (simp add: grown_def)
  then have "within (Suc (Suc (length t1))) (d # t1)" by (rule within_mono) simp
  with g d 2 show "grown (Suc (length objects)) [u] t"
    by (auto simp: archive_xct_capabilities_into_def grown_def Let_def)
qed

lemma nsset_closes: "closes (archive_nsset_into ss)"
  unfolding closes_def
proof (intro allI impI)
  fix objects u t
  assume 1: "within (length objects) objects" and 2: "archive_nsset_into ss objects = (u, t)"
  let ?o = "objects @ [PBoolean False, class_descriptor ''NSSet'' [''NSSet'', ''NSObject'']]"
  obtain us t1 where d: "archive_items_into (map PString ss) ?o = (us, t1)" by fastforce
  have "within (length ?o) objects" using 1 by (rule within_mono) simp
  then have "grown (length ?o) us t1" using encoder_closed(2) [of ?o "map PString ss"] d by simp
  then show "grown (Suc (length objects)) [u] t"
    using 2 d within_update [of "length t1" t1 "array_object (length objects + 1) us"]
    by (auto simp: archive_nsset_into_def grown_def Let_def)
qed

lemma identifiers_closed:
  "within (length objects) objects \<Longrightarrow> archive_identifiers_into ss objects = (us, t) \<Longrightarrow> grown (length objects) us t"
proof (induction ss arbitrary: objects us t)
  case Nil
  then show ?case by (simp add: grown_def)
next
  case (Cons s ss)
  obtain u t1 where 1: "archive_xct_test_identifier_into s objects = (u, t1)" by fastforce
  obtain us' where 2: "archive_identifiers_into ss t1 = (us', t)" "us = u # us'" using Cons.prems(2) 1 by (auto split: prod.splits)
  have g: "grown (Suc (length objects)) [u] t1" by (rule closesD [OF test_identifier_closes Cons.prems(1) 1])
  then have "grown (length t1) us' t" using Cons.IH [OF _ 2(1)] by (simp add: grown_def)
  with g show ?case using 2(2) by (auto simp: grown_def elim: less_le_trans)
qed

lemma identifier_set_closes: "closes (archive_xct_test_identifier_set_into ss)"
  unfolding closes_def
proof (intro allI impI)
  fix objects u t
  assume 1: "within (length objects) objects" and 2: "archive_xct_test_identifier_set_into ss objects = (u, t)"
  let ?o = "objects @ [PBoolean False, PBoolean False,
    class_descriptor ''NSMutableArray'' [''NSMutableArray'', ''NSArray'', ''NSObject'']]"
  obtain us t1 where d: "archive_identifiers_into ss ?o = (us, t1)" by fastforce
  have "within (length ?o) objects" using 1 by (rule within_mono) simp
  then have "grown (length ?o) us t1" using identifiers_closed [OF _ d] by simp
  moreover from this have "within (Suc (length t1)) t1" "within (Suc (length t1)) us"
    by (auto simp: grown_def elim: within_mono)
  ultimately show "grown (Suc (length objects)) [u] t"
    using 2 d by (auto simp: archive_xct_test_identifier_set_into_def grown_def Let_def intro!: within_update)
qed

text \<open>A field of a configuration: the entries collected so far stay inside the table, too.\<close>

definition config_ok :: "nat \<Rightarrow> (string \<times> plist) list \<times> plist list \<Rightarrow> bool" where
  "config_ok n r \<longleftrightarrow> grown n (map snd (fst r)) (snd r)"

lemma within_insert:
  "within n (map snd m) \<Longrightarrow> \<forall>u \<in> refs v. u < n \<Longrightarrow> within n (map snd (index_insert k v m))"
  by (induction k v m rule: index_insert.induct) auto

lemma config_insert:
  assumes "config_ok n (object, objects)" and "closes f" and "f objects = (u, t)"
  shows "config_ok n (index_insert k u object, t)"
proof -
  have "grown (Suc (length objects)) [u] t"
    using assms by (intro closesD [of f]) (auto simp: config_ok_def grown_def)
  then show ?thesis
    using assms(1) by (auto simp: config_ok_def grown_def intro!: within_insert elim: within_mono)
qed

lemma additional_field_ok:
  assumes "config_ok n (object, objects)" and "refs v = {}"
  shows "config_ok n (archive_additional_field k v object objects)"
proof (cases "test_selectors k v")
  case None
  show ?thesis
  proof (cases "archive_configuration_field v objects = (v, objects)")
    case True
    then show ?thesis using assms None by (auto simp: archive_additional_field_def config_ok_def grown_def intro!: within_insert)
  next
    case False
    then have f: "archive_configuration_field v objects = archive_value_into v objects"
      by (auto simp: archive_configuration_field_def split: plist.splits)
    obtain u t where "archive_value_into v objects = (u, t)" by fastforce
    then show ?thesis
      using config_insert [OF assms(1) value_closes [OF assms(2)]] f None by (simp add: archive_additional_field_def)
  qed
next
  case (Some ss)
  obtain u t where 1: "archive_nsset_into ss objects = (u, t)" by fastforce
  obtain u' t' where 2: "archive_xct_test_identifier_set_into ss t = (u', t')" by fastforce
  show ?thesis
    using Some 1 2 config_insert [OF config_insert [OF assms(1) nsset_closes 1] identifier_set_closes 2]
    by (simp add: archive_additional_field_def Let_def)
qed

lemma additional_fields_ok:
  "config_ok n (object, objects) \<Longrightarrow> \<forall>f \<in> set fs. refs (snd f) = {} \<Longrightarrow>
   config_ok n (archive_additional_fields fs object objects)"
proof (induction fs arbitrary: object objects)
  case (Cons f fs)
  then show ?case
    using additional_field_ok [of n object objects "snd f" "fst f"]
    by (cases "archive_additional_field (fst f) (snd f) object objects") auto
qed simp

lemma configuration_closes:
  assumes "\<forall>e \<in> set (capabilities (ide_capabilities config)). refs (snd e) = {}"
    and "\<forall>e \<in> set (additional_fields config). refs (snd e) = {}"
  shows "closes (archive_xctest_configuration_into config)"
  unfolding closes_def
proof (intro allI impI)
  fix objects u t
  assume 0: "within (length objects) objects" and run: "archive_xctest_configuration_into config objects = (u, t)"
  let ?n = "Suc (length objects)"
  obtain u1 t1 where 1: "archive_nsuuid_into (session_identifier config) objects = (u1, t1)" by fastforce
  obtain u2 t2 where 2: "archive_nsurl_into (test_bundle_url config) t1 = (u2, t2)" by fastforce
  obtain u3 t3 where 3: "archive_xct_capabilities_into (ide_capabilities config) t2 = (u3, t3)" by fastforce
  obtain u4 t4 where 4: "archive_value_into (PString (automation_framework_path config)) t3 = (u4, t4)" by fastforce
  have g: "grown (Suc (length objects)) [u1] t1" by (rule closesD [OF nsuuid_closes 0 1])
  then have "grown (length t1) [u2] t2" by (intro grown_mono [OF closesD [OF nsurl_closes _ 2]]) (auto simp: grown_def)
  with g have g: "grown ?n [u1, u2] t2" by (auto simp: grown_def elim: less_le_trans)
  then have "grown (length t2) [u3] t3"
    by (intro grown_mono [OF closesD [OF capabilities_closes [OF assms(1)] _ 3]]) (auto simp: grown_def)
  with g have g: "grown ?n [u1, u2, u3] t3" by (auto simp: grown_def elim: less_le_trans)
  then have "grown (length t3) [u4] t4" by (intro grown_mono [OF closesD [OF value_closes _ 4]]) (auto simp: grown_def)
  with g have g: "grown ?n [u1, u2, u3, u4] t4" by (auto simp: grown_def elim: less_le_trans)
  obtain ob t5 where 5: "archive_additional_fields (additional_fields config)
      [(''sessionIdentifier'', u1), (''testBundleURL'', u2), (''IDECapabilities'', u3),
       (''automationFrameworkPath'', u4),
       (''initializeForUITesting'', PBoolean (initialize_for_ui_testing config)),
       (''reportResultsToIDE'', PBoolean (report_results_to_ide config)),
       (''testsMustRunOnMainThread'', PBoolean (tests_must_run_on_main_thread config)),
       (''testTimeoutsEnabled'', PBoolean (test_timeouts_enabled config))] t4 = (ob, t5)" by fastforce
  have "config_ok ?n (ob, t5)"
    unfolding 5 [symmetric] by (rule additional_fields_ok [OF _ assms(2)]) (use g in \<open>auto simp: config_ok_def grown_def\<close>)
  then have "?n \<le> length t5" "within (Suc (Suc (length t5))) (map snd ob)" "within (Suc (Suc (length t5))) t5"
    by (auto simp: config_ok_def grown_def elim: within_mono)
  moreover from this have "within (Suc (Suc (length t5))) (map snd (index_insert ''$class'' (PUid (Suc (length t5))) ob))"
    by (intro within_insert) auto
  ultimately show "grown (Suc (length objects)) [u] t"
    using run 1 2 3 4 5 by (auto simp: archive_xctest_configuration_into_def grown_def Let_def within_def)
qed

section \<open>Archives\<close>

text \<open>Opening a well-formed archive leads to its root object.\<close>

lemma unarchive_root:
  assumes "rd (wr (build_keyed_archive (PUid root) objects)) = Some (build_keyed_archive (PUid root) objects)"
    and "root \<le> usize_MAX"
  shows "unarchive rd fmt (archive_root wr (PUid root, objects)) = decode_object fmt objects root 0"
  using assms
  by (simp add: unarchive_def archive_root_def build_keyed_archive_def p_defs uid_from_plist_def usize_from_def Let_def)

lemma unarchive_scalar:
  assumes "rd (wr (build_keyed_archive (PUid 1) (null_table @ [v]))) = Some (build_keyed_archive (PUid 1) (null_table @ [v]))"
    and "leaf v" and "plain v"
  shows "unarchive rd fmt (archive_value wr v) = Inr (plain_value v)"
  using unarchive_root [of rd wr 1 "null_table @ [v]"] assms(1) decode_stored_leaf [OF assms(3,2), of 0 1 "null_table @ [v]" 0]
  by (simp add: archive_value_def)

text \<open>
  C22. A dictionary of property list values without dates, UIDs and the text \<open>$null\<close>, nested at most
  64 levels deep, is decoded from its archive as it was: every entry with its value, the later of two
  entries with the same key, whatever the integers, doubles and byte strings in it. The reader of
  property lists is only assumed to return the document that was written.
\<close>

theorem archive_dict_roundtrip:
  assumes "archive_dict_into pairs null_table = (root, objects)"
    and "rd (wr (build_keyed_archive root objects)) = Some (build_keyed_archive root objects)"
    and "length objects \<le> usize_MAX"
    and "plain (PDictionary pairs)" and "height (PDictionary pairs) \<le> 64"
  shows "unarchive rd fmt (archive_dict wr pairs) = Inr (plain_value (PDictionary pairs))"
proof -
  from encoder_stores(4) [of pairs null_table] obtain i
    where i: "root = PUid i" and st: "stored 1 objects i (PDictionary pairs)" using assms(1) by auto
  have "i < length objects" using st by (rule stored_index)
  then have "unarchive rd fmt (archive_dict wr pairs) = decode_object fmt objects i 0"
    using assms(1-3) i unarchive_root [of rd wr i objects fmt] by (simp add: archive_dict_def)
  also have "\<dots> = Inr (plain_value (PDictionary pairs))"
    using decode_stored [OF st assms(4) _ assms(3), of 0] assms(5) by simp
  finally show ?thesis .
qed

theorem archive_dict_roundtrip_witness:
  "let pairs = [(''a'', PArray [PInteger 7, PString ''x'']), (''b'', PBoolean True), (''a'', PReal 3)];
       rd = (\<lambda>_. Some (case archive_dict_into pairs null_table of (r, os) \<Rightarrow> build_keyed_archive r os)) in
   unarchive rd (\<lambda>_. []) (archive_dict (\<lambda>_. []) pairs) = Inr (ADict [(''a'', AFloat 3), (''b'', ABool True)])"
  unfolding Let_def
  by (subst archive_dict_roundtrip [OF prod.collapse [symmetric]])
    (simp_all add: archive_value_into.simps archive_dict_into.simps array_object_def dict_object_def class_descriptor_def Let_def)

text \<open>
  C34. Whatever bytes a peer sends, the decoder comes to an end, and a value it returns is nested at
  most 65 levels deep, cyclic object tables included.
\<close>

theorem unarchive_depth_bounded:
  assumes "unarchive rd fmt data = Inr v"
  shows "av_depth v \<le> 65"
  using assms decoded_depth(1) [of fmt _ _ 0]
  by (fastforce simp: unarchive_def attempt_Inr_iff Let_def split: if_splits)

text \<open>
  A dictionary that stands 64 levels deep, at the limit, is decoded as an empty one: the error
  that its keys are too deep is dropped together with the entries. An array there is refused.
\<close>

theorem archive_deep_dictionary_emptied:
  assumes "holds_at lo objects i (dict_object ci (map PUid ks) (map PUid us))"
    and "holds_at lo objects ci (class_descriptor ''NSDictionary'' cs)"
    and "length objects \<le> usize_MAX" and "\<forall>u \<in> set (ks @ us). u < length objects"
  shows "decode_object fmt objects i 64 = Inr (ADict [])"
proof -
  have "decode_pairs fmt objects ps 65 m = Inr m" for ps m
    by (induction ps) (auto simp: decode_object.simps MAX_ARCHIVE_DEPTH_def key_text_def)
  then show ?thesis
    using assms by (subst decode_dict_object [OF assms(1,2)]) (auto simp: class_kind_def)
qed

theorem archive_deep_dictionary_emptied_witness:
  "decode_object (\<lambda>_. []) (snd (archive_dict_into [(''k'', PInteger 1)] null_table)) 1 64 = Inr (ADict [])"
  by (rule archive_deep_dictionary_emptied [where lo = 0 and ci = "Suc (Suc (Suc (Suc 0)))" and ks = "[Suc (Suc 0)]" and us = "[Suc (Suc (Suc 0))]"
        and cs = "[''NSDictionary'', ''NSObject'']"])
    (simp_all add: archive_value_into.simps archive_dict_into.simps)

theorem unarchive_depth_bounded_witness:
  "let rd = (\<lambda>_. Some (build_keyed_archive (PUid 0) [PArray [], PString ''$null'']));
       v = projr (unarchive rd (\<lambda>_. []) []) in av_depth v \<le> 65"
  unfolding Let_def
  by (rule unarchive_depth_bounded [where data = "[]" and fmt = "\<lambda>_. []"
        and rd = "\<lambda>_. Some (build_keyed_archive (PUid 0) [PArray [], PString ''$null''])"])
    (simp add: unarchive_def build_keyed_archive_def p_defs uid_from_plist_def usize_from_def
      decode_object.simps decode_value.simps MAX_ARCHIVE_DEPTH_def)

text \<open>
  C35. Every reference in the archive of a test configuration leads to an object of its table: the
  NSUUID, the NSURL, the capabilities, the selector sets and the additional fields, however they are
  nested, as long as the caller puts in no UIDs of its own.
\<close>

theorem configuration_references_inside:
  assumes "\<forall>e \<in> set (capabilities (ide_capabilities config)). refs (snd e) = {}"
    and "\<forall>e \<in> set (additional_fields config). refs (snd e) = {}"
    and "archive_xctest_configuration_into config null_table = (root, objects)"
  shows "(\<forall>u \<in> refs root. u < length objects) \<and> (\<forall>v \<in> set objects. \<forall>u \<in> refs v. u < length objects)"
  using closesD [OF configuration_closes [OF assms(1,2)] _ assms(3)] by (auto simp: grown_def within_def)

text \<open>
  \<open>archive_array\<close> stores its items as they are. Scalar items come back; an item that is an array
  itself is decoded as null.
\<close>

theorem archive_array_items:
  assumes "rd (archive_array wr items) = Some (build_keyed_archive (PUid 1)
      (null_table @ [array_object (2 + length items) (map (\<lambda>i. PUid (2 + i)) [0..<length items])] @ items @
       [class_descriptor ''NSArray'' [''NSArray'', ''NSObject'']]))"
    and "length items + 3 \<le> usize_MAX"
    and "\<forall>v \<in> set items. (\<exists>a. v = PArray a) \<or> (leaf v \<and> plain v)"
  shows "unarchive rd fmt (archive_array wr items) =
           Inr (AArray (map (\<lambda>v. case v of PArray a \<Rightarrow> ANull | _ \<Rightarrow> plain_value v) items))"
proof -
  let ?n = "length items" and ?item = "\<lambda>v. case v of PArray a \<Rightarrow> ANull | _ \<Rightarrow> plain_value v"
  let ?t = "null_table @ [array_object (2 + ?n) (map PUid (map (\<lambda>i. 2 + i) [0..<?n]))] @ items @
       [class_descriptor ''NSArray'' [''NSArray'', ''NSObject'']]"
  have "unarchive rd fmt (archive_array wr items) = decode_object fmt ?t 1 0"
    using unarchive_root [of rd wr 1 ?t] assms(1) by (simp add: archive_array_def Let_def archive_root_def comp_def)
  also have "\<dots> = attempt (decode_uids fmt ?t (map (\<lambda>i. 2 + i) [0..<?n]) (0 + 1)) (\<lambda>vs. Inr (AArray vs))"
  proof (rule decode_array_object [of 0 _ _ "2 + ?n" _ 0 "''NSArray''" "[''NSArray'', ''NSObject'']"])
    show "length ?t \<le> usize_MAX" using assms(2) by simp
    show "\<forall>u \<in> set (map (\<lambda>i. 2 + i) [0..<?n]). u < length ?t" by auto
  qed (simp_all add: class_kind_def nth_append)
  also have "decode_uids fmt ?t (map (\<lambda>i. 2 + i) [0..<?n]) (0 + 1) = Inr (map (\<lambda>i. ?item (items ! i)) [0..<?n])"
  proof -
    have item: "decode_object fmt ?t (2 + i) 1 = Inr (?item (items ! i))" if "i < ?n" for i
    proof -
      have v: "(\<exists>a. items ! i = PArray a) \<or> (leaf (items ! i) \<and> plain (items ! i))" using assms(3) that by simp
      have at: "?t ! (2 + i) = items ! i" "2 + i < length ?t" using that by (auto simp: nth_append)
      show ?thesis
        using v
      proof (elim disjE exE conjE)
        fix a assume "items ! i = PArray a"
        then show ?thesis using at by (simp add: decode_object.simps decode_value.simps MAX_ARCHIVE_DEPTH_def)
      next
        assume "leaf (items ! i)" "plain (items ! i)"
        then show ?thesis
          using at decode_stored_leaf [of "items ! i" 0 "2 + i" ?t 1] by (cases "items ! i") auto
      qed
    qed
    then show ?thesis by (intro decode_uids_map ballI) (simp only: add_0 set_upt atLeastLessThan_iff)
  qed
  also have "map (\<lambda>i. ?item (items ! i)) [0..<?n] = map ?item items"
    by (rule map_nth_apply)
  finally show ?thesis by simp
qed

theorem archive_array_items_witness:
  "let wr = (\<lambda>_. [] :: bytes);
       rd = (\<lambda>_. Some (build_keyed_archive (PUid 1)
         [PString ''$null'', array_object 4 [PUid (Suc (Suc 0)), PUid (Suc (Suc (Suc 0)))], PInteger 5, PArray [PInteger 6],
          class_descriptor ''NSArray'' [''NSArray'', ''NSObject'']]))
   in unarchive rd (\<lambda>_. []) (archive_array wr [PInteger 5, PArray [PInteger 6]]) = Inr (AArray [AInt 5, ANull])"
  unfolding Let_def
  by (subst archive_array_items) simp_all

theorem configuration_references_inside_witness:
  "let config = \<lparr>session_identifier = replicate 16 0, test_bundle_url = \<lparr>path = ''/a''\<rparr>,
         ide_capabilities = \<lparr>capabilities = [(''x'', PBoolean True)]\<rparr>, automation_framework_path = ''/b'',
         initialize_for_ui_testing = True, report_results_to_ide = True, tests_must_run_on_main_thread = True,
         test_timeouts_enabled = False,
         additional_fields = [(''testsToRun'', PArray [PString ''M.C/t'']), (''n'', PInteger 3)]\<rparr>;
       objects = snd (archive_xctest_configuration_into config null_table)
   in \<forall>v \<in> set objects. \<forall>u \<in> refs v. u < length objects"
  unfolding Let_def
  by (rule configuration_references_inside [OF _ _ prod.collapse [symmetric], THEN conjunct2]) simp_all

end
