(* ===== verification/Dtx_Codec.thy ===== *)
theory Dtx_Codec
  imports Archive_Roundtrip Codec_Interface
begin

text \<open>
  The DTX wire format (\<open>services/dtx/types.rs\<close>, \<open>primitive.rs\<close>, \<open>primitive_enc.rs\<close> and the codec
  half of \<open>codec.rs\<close>): the primitive dictionary that carries the arguments of a call, the 32-byte
  message header, the payload header with the auxiliary section, and the decoded payloads. The
  property list library is the parameter \<open>L\<close>.
\<close>

section \<open>Messages\<close>

datatype nsobject =
    NInt int
  | NUint nat
  | NDouble u64
  | NBool bool
  | NString string
  | NData bytes
  | NArray "nsobject list"
  | NDict "(string \<times> nsobject) list"
  | NNull

datatype dtx_payload =
    MethodInvocation string "nsobject list"
  | Response nsobject
  | Notification string nsobject
  | Raw bytes
  | RawWithAux bytes "nsobject list"
  | Empty

record dtx_message =
  m_identifier :: u32
  m_conversation_idx :: u32
  m_channel_code :: i32
  m_expects_reply :: bool
  m_payload :: dtx_payload

definition ns_as_str :: "nsobject \<Rightarrow> string option" where
  "ns_as_str v = (case v of NString s \<Rightarrow> Some s | _ \<Rightarrow> None)"

definition ns_as_int :: "nsobject \<Rightarrow> int option" where
  "ns_as_int v = (case v of NInt n \<Rightarrow> Some n | _ \<Rightarrow> None)"

definition ns_as_bool :: "nsobject \<Rightarrow> bool option" where
  "ns_as_bool v = (case v of NBool b \<Rightarrow> Some b | _ \<Rightarrow> None)"

text \<open>The property list library: its reader, its binary writer, and \<open>f64::to_string\<close>.\<close>

record plist_lib =
  read_plist :: "bytes \<Rightarrow> plist option"
  write_plist :: "plist \<Rightarrow> bytes"
  show_f64 :: "u64 \<Rightarrow> string"

abbreviation (input) unarchive_with :: "plist_lib \<Rightarrow> bytes \<Rightarrow> archive_error + avalue" where
  "unarchive_with L \<equiv> unarchive (read_plist L) (show_f64 L)"

fun archive_to_ns :: "avalue \<Rightarrow> nsobject" where
  "archive_to_ns ANull = NNull"
| "archive_to_ns (ABool b) = NBool b"
| "archive_to_ns (AInt n) = NInt n"
| "archive_to_ns (AUint n) = NUint n"
| "archive_to_ns (AFloat f) = NDouble f"
| "archive_to_ns (AString s) = NString s"
| "archive_to_ns (AData d) = NData d"
| "archive_to_ns (AArray a) = NArray (map archive_to_ns a)"
| "archive_to_ns (ADict d) = NDict (map (\<lambda>e. (fst e, archive_to_ns (snd e))) d)"
| "archive_to_ns (AUnknown s) = NString (''<'' @ s @ ''>'')"

section \<open>Primitive dictionaries\<close>

definition PRIMITIVE_NULL :: u32 where "PRIMITIVE_NULL = 0x0000000A"
definition PRIMITIVE_STRING :: u32 where "PRIMITIVE_STRING = 0x00000001"
definition PRIMITIVE_INT :: u32 where "PRIMITIVE_INT = 0x00000003"
definition PRIMITIVE_LONG :: u32 where "PRIMITIVE_LONG = 0x00000006"
definition PRIMITIVE_DOUBLE :: u32 where "PRIMITIVE_DOUBLE = 0x00000009"
definition PRIMITIVE_BYTES :: u32 where "PRIMITIVE_BYTES = 0x00000002"

lemmas primitive_defs = PRIMITIVE_NULL_def PRIMITIVE_STRING_def PRIMITIVE_INT_def PRIMITIVE_LONG_def
  PRIMITIVE_DOUBLE_def PRIMITIVE_BYTES_def

text \<open>\<open>read_entry\<close> returns the tag, the value bytes and the rest.\<close>

definition take_value :: "u32 \<Rightarrow> nat \<Rightarrow> bytes \<Rightarrow> (u32 \<times> bytes \<times> bytes) option" where
  "take_value tag n data = (if length data < n then None else Some (tag, take n data, drop n data))"

definition read_entry :: "bytes \<Rightarrow> (u32 \<times> bytes \<times> bytes) option" where
  "read_entry data =
     (if length data < 4 then None
      else
        let type_tag = from_le32 (take 4 data); data = drop 4 data in
        if type_tag = PRIMITIVE_NULL then Some (type_tag, [], data)
        else if type_tag = PRIMITIVE_INT then take_value type_tag 4 data
        else if type_tag = PRIMITIVE_LONG \<or> type_tag = PRIMITIVE_DOUBLE then take_value type_tag 8 data
        else if type_tag = PRIMITIVE_STRING \<or> type_tag = PRIMITIVE_BYTES then
          if length data < 4 then None
          else take_value type_tag (unat (from_le32 (take 4 data))) (drop 4 data)
        else None)"

definition entry_to_nsobject :: "plist_lib \<Rightarrow> u32 \<Rightarrow> bytes \<Rightarrow> nsobject" where
  "entry_to_nsobject L type_tag value =
     (if type_tag = PRIMITIVE_STRING then NString (map (\<lambda>b. char_of (unat b)) (utf8_lossy value))
      else if type_tag = PRIMITIVE_INT \<and> length value \<ge> 4 then NInt (sint (from_le32 (take 4 value)))
      else if type_tag = PRIMITIVE_LONG \<and> length value \<ge> 8 then NInt (sint (from_le64 (take 8 value)))
      else if type_tag = PRIMITIVE_DOUBLE \<and> length value \<ge> 8 then NDouble (from_le64 (take 8 value))
      else if type_tag = PRIMITIVE_BYTES then
        (case unarchive_with L value of Inr v \<Rightarrow> archive_to_ns v | Inl _ \<Rightarrow> NData value)
      else NNull)"

lemma read_entry_shorter: "read_entry data = Some (t, v, r) \<Longrightarrow> length r < length data"
  by (auto simp: read_entry_def take_value_def Let_def split: if_splits)

function decode_auxiliary :: "plist_lib \<Rightarrow> bytes \<Rightarrow> nsobject list" where
  "decode_auxiliary L data =
     (if length data \<ge> 4 then
        (case read_entry data of
           None \<Rightarrow> []
         | Some (key_type, _, data1) \<Rightarrow>
             if key_type \<noteq> PRIMITIVE_NULL \<or> length data1 < 4 then []
             else (case read_entry data1 of
                 None \<Rightarrow> []
               | Some (value_type, value, data2) \<Rightarrow>
                   entry_to_nsobject L value_type value # decode_auxiliary L data2))
      else [])"
  by pat_completeness auto
termination
  by (relation "measure (\<lambda>(L, data). length data)")
    (auto dest!: read_entry_shorter)

declare decode_auxiliary.simps [simp del]

datatype prim_arg = PrimInt32 i32 | PrimInt64 i64 | PrimDouble u64 | PrimBytes bytes

definition encode_prim_arg :: "prim_arg \<Rightarrow> bytes" where
  "encode_prim_arg arg = to_le32 PRIMITIVE_NULL @ (case arg of
       PrimInt32 v \<Rightarrow> to_le32 PRIMITIVE_INT @ to_le32 v
     | PrimInt64 v \<Rightarrow> to_le32 PRIMITIVE_LONG @ to_le64 v
     | PrimDouble v \<Rightarrow> to_le32 PRIMITIVE_DOUBLE @ to_le64 v
     | PrimBytes b \<Rightarrow> to_le32 PRIMITIVE_BYTES @ to_le32 (of_nat (length b)) @ b)"

definition encode_primitive_dict :: "prim_arg list \<Rightarrow> bytes" where
  "encode_primitive_dict args = concat (map encode_prim_arg args)"

section \<open>Errors and limits\<close>

datatype dtx_error = DIo io_error | BadMagic u32 | DProtocol string "nat list"

definition MAX_DTX_MESSAGE_SIZE :: nat where "MAX_DTX_MESSAGE_SIZE = 128 * 1024 * 1024"
definition MAX_DTX_FRAGMENTS :: nat where "MAX_DTX_FRAGMENTS = 1024"
definition MAX_DTX_HEADER_SIZE :: nat where "MAX_DTX_HEADER_SIZE = 64 * 1024"
definition DEFAULT_DTX_MEMORY_BUDGET :: nat where "DEFAULT_DTX_MEMORY_BUDGET = 512 * 1024 * 1024"
definition MAX_IN_FLIGHT_FRAGMENTED_MESSAGES :: nat where "MAX_IN_FLIGHT_FRAGMENTED_MESSAGES = 64"
definition MAX_QUEUED_MESSAGES :: nat where "MAX_QUEUED_MESSAGES = 1024"
definition MAX_PENDING_REPLIES :: nat where "MAX_PENDING_REPLIES = 1024"

definition MSG_OK :: u32 where "MSG_OK = 0"
definition MSG_UNKNOWN_TYPE_ONE :: u32 where "MSG_UNKNOWN_TYPE_ONE = 1"
definition MSG_METHOD_INVOCATION :: u32 where "MSG_METHOD_INVOCATION = 2"
definition MSG_RESPONSE :: u32 where "MSG_RESPONSE = 3"
definition MSG_ERROR :: u32 where "MSG_ERROR = 4"
definition MSG_BARRIER :: u32 where "MSG_BARRIER = 5"

lemmas msg_defs = MSG_OK_def MSG_UNKNOWN_TYPE_ONE_def MSG_METHOD_INVOCATION_def MSG_RESPONSE_def
  MSG_ERROR_def MSG_BARRIER_def

definition DTX_MAGIC :: u32 where "DTX_MAGIC = 0x795B3D1F"

section \<open>Encoding\<close>

text \<open>The 32 bytes of a header.\<close>

definition dtx_header_bytes :: "nat \<Rightarrow> u16 \<Rightarrow> u16 \<Rightarrow> nat \<Rightarrow> u32 \<Rightarrow> u32 \<Rightarrow> i32 \<Rightarrow> u32 \<Rightarrow> bytes" where
  "dtx_header_bytes header_len frag_idx frag_cnt msg_len ident conv_idx code reply =
     to_be32 DTX_MAGIC @ to_le32 (of_nat header_len) @ to_le16 frag_idx @ to_le16 frag_cnt @
     to_le32 (of_nat msg_len) @ to_le32 ident @ to_le32 conv_idx @ to_le32 code @ to_le32 reply"

definition encode_dtx_body :: "u32 \<Rightarrow> bytes \<Rightarrow> bytes \<Rightarrow> bytes" where
  "encode_dtx_body msg_type payload aux_bytes =
     (let aux_len = length aux_bytes; payload_len = length payload;
          aux_with_hdr = (if aux_len > 0 then aux_len + 16 else 0);
          total_payload = aux_with_hdr + payload_len
      in to_le32 msg_type @ to_le32 (of_nat aux_with_hdr) @ to_le32 (of_nat total_payload) @ to_le32 0 @
         (if aux_len > 0
          then to_le32 496 @ to_le32 0 @ to_le32 (of_nat aux_len) @ to_le32 0 @ aux_bytes else []) @
         payload)"

definition encode_dtx :: "u32 \<Rightarrow> u32 \<Rightarrow> i32 \<Rightarrow> bool \<Rightarrow> u32 \<Rightarrow> bytes \<Rightarrow> bytes \<Rightarrow> bytes" where
  "encode_dtx ident conv_idx code reply msg_type payload aux_bytes =
     (let aux_len = length aux_bytes; payload_len = length payload;
          aux_with_hdr = (if aux_len > 0 then aux_len + 16 else 0);
          msg_len = 16 + aux_with_hdr + payload_len
      in dtx_header_bytes 32 0 1 msg_len ident conv_idx code (if reply then 1 else 0) @
         encode_dtx_body msg_type payload aux_bytes)"

text \<open>\<open>i32::saturating_neg\<close> and \<open>i32::checked_neg\<close>.\<close>

definition saturating_neg :: "i32 \<Rightarrow> i32" where
  "saturating_neg c = (if c = 0x80000000 then 0x7FFFFFFF else - c)"

definition checked_neg :: "i32 \<Rightarrow> i32 option" where
  "checked_neg c = (if c = 0x80000000 then None else Some (- c))"

definition encode_ack :: "dtx_message \<Rightarrow> bytes" where
  "encode_ack msg =
     (let conv_idx = (if m_conversation_idx msg = 0xFFFFFFFF then 0xFFFFFFFF else m_conversation_idx msg + 1);
          wire_channel_code =
            (if conv_idx mod 2 = 0 then m_channel_code msg else saturating_neg (m_channel_code msg))
      in dtx_header_bytes 32 0 1 16 (m_identifier msg) conv_idx wire_channel_code 0 @
         to_le32 MSG_OK @ to_le32 0 @ to_le32 0 @ to_le32 0)"

definition normalize_incoming_channel_code :: "i32 \<Rightarrow> u32 \<Rightarrow> dtx_error + i32" where
  "normalize_incoming_channel_code code conv_idx =
     (if conv_idx mod 2 = 0 then
        (case checked_neg code of
           Some c \<Rightarrow> Inr c
         | None \<Rightarrow> Inl (DProtocol ''cannot normalize incoming channel code {channel_code} for conversation {}''
                          [unat code, unat conv_idx]))
      else Inr code)"

section \<open>Decoding\<close>

record dtx_header =
  header_len :: nat
  frag_idx :: u16
  frag_cnt :: u16
  msg_len :: nat
  h_identifier :: u32
  h_conv_idx :: u32
  h_channel_code :: i32
  h_expects_reply :: bool

text \<open>A field of \<open>n\<close> bytes at an offset.\<close>

definition bytes_at :: "nat \<Rightarrow> nat \<Rightarrow> bytes \<Rightarrow> bytes" where
  "bytes_at i n bs = take n (drop i bs)"

definition parse_dtx_header :: "bytes \<Rightarrow> dtx_error + dtx_header" where
  "parse_dtx_header hdr =
     (let magic = from_be32 (bytes_at 0 4 hdr);
          hlen = unat (from_le32 (bytes_at 4 4 hdr));
          fidx = from_le16 (bytes_at 8 2 hdr);
          fcnt = from_le16 (bytes_at 10 2 hdr);
          mlen = unat (from_le32 (bytes_at 12 4 hdr))
      in if magic \<noteq> DTX_MAGIC then Inl (BadMagic magic)
         else if \<not> (32 \<le> hlen \<and> hlen \<le> MAX_DTX_HEADER_SIZE) then
           Inl (DProtocol ''invalid DTX header length: {header_len}'' [hlen])
         else if fcnt = 0 then Inl (DProtocol ''invalid DTX fragment count: 0'' [])
         else if unat fcnt > MAX_DTX_FRAGMENTS then
           Inl (DProtocol ''DTX message has too many fragments: {frag_cnt} exceeds {}'' [unat fcnt])
         else if fidx \<ge> fcnt then
           Inl (DProtocol ''invalid DTX fragment index {frag_idx} for count {frag_cnt}'' [unat fidx, unat fcnt])
         else if mlen > MAX_DTX_MESSAGE_SIZE then
           Inl (DProtocol ''DTX message length {msg_len} exceeds max {}'' [mlen])
         else if fcnt > 1 \<and> fidx = 0 \<and> mlen = 0 then
           Inl (DProtocol ''multi-fragment first header declares zero total size'' [])
         else Inr \<lparr>header_len = hlen, frag_idx = fidx, frag_cnt = fcnt, msg_len = mlen,
                h_identifier = from_le32 (bytes_at 16 4 hdr), h_conv_idx = from_le32 (bytes_at 20 4 hdr),
                h_channel_code = from_le32 (bytes_at 24 4 hdr),
                h_expects_reply = (from_le32 (bytes_at 28 4 hdr) \<noteq> 0)\<rparr>)"

definition decode_payload :: "plist_lib \<Rightarrow> u32 \<Rightarrow> bytes \<Rightarrow> bytes option \<Rightarrow> dtx_payload" where
  "decode_payload L msg_type payload aux =
     (if msg_type = MSG_OK then Empty
      else if msg_type = MSG_METHOD_INVOCATION then
        (let args = (case aux of Some a \<Rightarrow> decode_auxiliary L a | None \<Rightarrow> []) in
         if payload = [] then MethodInvocation [] args
         else (case unarchive_with L payload of
             Inr (AString selector) \<Rightarrow> MethodInvocation selector args
           | _ \<Rightarrow> MethodInvocation [] (NData payload # args)))
      else if msg_type = MSG_RESPONSE \<or> msg_type = MSG_ERROR then
        (if payload = [] then Response NNull
         else (case unarchive_with L payload of
             Inr v \<Rightarrow> Response (archive_to_ns v)
           | Inl _ \<Rightarrow> Response (NData payload)))
      else if msg_type = MSG_BARRIER then Empty
      else if msg_type = MSG_UNKNOWN_TYPE_ONE then
        (case aux of Some a \<Rightarrow> RawWithAux payload (decode_auxiliary L a) | None \<Rightarrow> Raw payload)
      else if payload = [] then Empty
      else Raw payload)"

definition header_message :: "dtx_header \<Rightarrow> dtx_payload \<Rightarrow> dtx_message" where
  "header_message h p =
     \<lparr>m_identifier = h_identifier h, m_conversation_idx = h_conv_idx h, m_channel_code = h_channel_code h,
      m_expects_reply = h_expects_reply h, m_payload = p\<rparr>"

definition decode_aux_section :: "nat \<Rightarrow> bytes \<Rightarrow> dtx_error + bytes option" where
  "decode_aux_section aux_len rest =
     (if aux_len > 0 then
        let actual_aux = unat (from_le32 (bytes_at 8 4 rest)) in
        if actual_aux > aux_len - 16 then
          Inl (DProtocol ''auxiliary data size ({actual_aux}) exceeds available space ({})'' [actual_aux, aux_len - 16])
        else if length rest < 16 + actual_aux then Inl (DProtocol ''aux data truncated'' [])
        else Inr (Some (bytes_at 16 actual_aux rest))
      else Inr None)"

definition decode_dtx_body_from_slice :: "plist_lib \<Rightarrow> dtx_header \<Rightarrow> bytes \<Rightarrow> dtx_error + dtx_message" where
  "decode_dtx_body_from_slice L h body_slice =
     (if length body_slice < 16 then
        Inl (DProtocol ''DTX payload header truncated: got {} bytes, need at least 16'' [length body_slice])
      else if length body_slice \<noteq> msg_len h then
        Inl (DProtocol ''DTX body size mismatch: got {} bytes, header declares {}'' [length body_slice, msg_len h])
      else
        let msg_type = from_le32 (bytes_at 0 4 body_slice);
            aux_len = unat (from_le32 (bytes_at 4 4 body_slice));
            total_pay = unat (from_le32 (bytes_at 8 4 body_slice));
            pay_len = total_pay - aux_len;
            rest = drop 16 body_slice
        in if aux_len > total_pay then
             Inl (DProtocol ''aux_len ({aux_len}) exceeds total_pay ({total_pay})'' [aux_len, total_pay])
           else if aux_len > 0 \<and> aux_len < 16 then
             Inl (DProtocol ''auxiliary section is too short for its header: {aux_len} bytes'' [aux_len])
           else if total_pay \<noteq> length rest then
             Inl (DProtocol ''DTX payload length mismatch: header declares {total_pay} bytes, body has {}''
                    [total_pay, length rest])
           else
             attempt (decode_aux_section aux_len rest) (\<lambda>aux_data.
             attempt (ok_or (DProtocol ''DTX payload length overflow'' []) (usize_checked_add aux_len pay_len)) (\<lambda>pay_end.
             if pay_end > length rest then
               Inl (DProtocol ''DTX payload extends beyond body: end={pay_end}, body={}'' [pay_end, length rest])
             else
               let payload_bytes = (if pay_len > 0 then bytes_at aux_len pay_len rest else [])
               in Inr (header_message h (decode_payload L msg_type payload_bytes aux_data)))))"

definition decode_dtx_message_from_bytes :: "plist_lib \<Rightarrow> bytes \<Rightarrow> dtx_error + (dtx_message \<times> nat) option" where
  "decode_dtx_message_from_bytes L data =
     (if length data < 32 then Inr None
      else
        attempt (parse_dtx_header (take 32 data)) (\<lambda>header.
        attempt (ok_or (DProtocol ''DTX frame length overflow'' []) (usize_checked_add (header_len header) (msg_len header)))
          (\<lambda>total_len.
        if length data < total_len then Inr None
        else
          attempt (decode_dtx_body_from_slice L header (bytes_at (header_len header) (msg_len header) data)) (\<lambda>message.
          Inr (Some (message, total_len))))))"

section \<open>Arguments come back\<close>

text \<open>What an argument means to the receiver.\<close>

definition prim_value :: "plist_lib \<Rightarrow> prim_arg \<Rightarrow> nsobject" where
  "prim_value L arg = (case arg of
       PrimInt32 v \<Rightarrow> NInt (sint v)
     | PrimInt64 v \<Rightarrow> NInt (sint v)
     | PrimDouble v \<Rightarrow> NDouble v
     | PrimBytes b \<Rightarrow> (case unarchive_with L b of Inr v \<Rightarrow> archive_to_ns v | Inl _ \<Rightarrow> NData b))"

definition prim_ok :: "prim_arg \<Rightarrow> bool" where
  "prim_ok arg \<longleftrightarrow> (case arg of PrimBytes b \<Rightarrow> length b < 2 ^ 32 | _ \<Rightarrow> True)"

lemma read_entry_null: "read_entry (to_le32 PRIMITIVE_NULL @ r) = Some (PRIMITIVE_NULL, [], r)"
  by (simp add: read_entry_def)

lemma unat_of_nat_u32: "n < 2 ^ 32 \<Longrightarrow> unat (of_nat n :: u32) = n"
  by (simp add: unat_of_nat)

lemma decode_auxiliary_arg:
  assumes "prim_ok arg"
  shows "decode_auxiliary L (encode_prim_arg arg @ r) = prim_value L arg # decode_auxiliary L r"
  using assms
  by (subst decode_auxiliary.simps, cases arg)
    (simp_all add: encode_prim_arg_def read_entry_null prim_value_def prim_ok_def read_entry_def take_value_def
      entry_to_nsobject_def primitive_defs unat_of_nat_u32)

lemma decode_auxiliary_Nil [simp]: "decode_auxiliary L [] = []"
  by (simp add: decode_auxiliary.simps)

lemma decode_auxiliary_args:
  "\<forall>a \<in> set args. prim_ok a \<Longrightarrow> decode_auxiliary L (encode_primitive_dict args) = map (prim_value L) args"
  by (induction args) (simp_all add: encode_primitive_dict_def decode_auxiliary_arg)

lemma encode_primitive_dict_Nil [simp]: "encode_primitive_dict args = [] \<longleftrightarrow> args = []"
  by (cases args) (auto simp: encode_primitive_dict_def encode_prim_arg_def)

section \<open>Frames come back\<close>

lemma bytes_at_skip [simp]: "length xs \<le> i \<Longrightarrow> bytes_at i n (xs @ ys) = bytes_at (i - length xs) n ys"
  by (simp add: bytes_at_def)

lemma bytes_at_here [simp]: "length xs = n \<Longrightarrow> bytes_at 0 n (xs @ ys) = xs"
  by (simp add: bytes_at_def)

lemma bytes_at_all [simp]: "length xs = n \<Longrightarrow> bytes_at 0 n xs = xs"
  by (simp add: bytes_at_def)

lemma length_dtx_header_bytes [simp]: "length (dtx_header_bytes hl i c m d v ch r) = 32"
  by (simp add: dtx_header_bytes_def)

text \<open>A header that \<open>parse_dtx_header\<close> accepts.\<close>

definition header_ok :: "dtx_header \<Rightarrow> bool" where
  "header_ok h \<longleftrightarrow> 32 \<le> header_len h \<and> header_len h \<le> MAX_DTX_HEADER_SIZE \<and> frag_cnt h \<noteq> 0 \<and>
     unat (frag_cnt h) \<le> MAX_DTX_FRAGMENTS \<and> frag_idx h < frag_cnt h \<and> msg_len h \<le> MAX_DTX_MESSAGE_SIZE \<and>
     \<not> (frag_cnt h > 1 \<and> frag_idx h = 0 \<and> msg_len h = 0)"

definition header_wire :: "dtx_header \<Rightarrow> bytes" where
  "header_wire h = dtx_header_bytes (header_len h) (frag_idx h) (frag_cnt h) (msg_len h) (h_identifier h)
     (h_conv_idx h) (h_channel_code h) (of_bool (h_expects_reply h))"

lemma parse_header_bytes:
  assumes "header_ok h"
  shows "parse_dtx_header (header_wire h) = Inr h"
  using assms
  by (simp add: parse_dtx_header_def header_wire_def dtx_header_bytes_def header_ok_def unat_of_nat_u32
      MAX_DTX_HEADER_SIZE_def MAX_DTX_MESSAGE_SIZE_def not_le linorder_not_less Let_def)

lemma parse_header_ok: "parse_dtx_header hdr = Inr h \<Longrightarrow> header_ok h"
  by (auto simp: parse_dtx_header_def header_ok_def Let_def split: if_splits)

definition body_len :: "bytes \<Rightarrow> bytes \<Rightarrow> nat" where
  "body_len payload aux = 16 + (if aux = [] then 0 else length aux + 16) + length payload"

lemma length_encode_dtx_body [simp]: "length (encode_dtx_body t p a) = body_len p a"
  by (simp add: encode_dtx_body_def body_len_def Let_def)

lemma decode_encode_body:
  assumes "msg_len h = body_len p a" and "body_len p a < 2 ^ 32"
  shows "decode_dtx_body_from_slice L h (encode_dtx_body t p a) =
           Inr (header_message h (decode_payload L t p (if a = [] then None else Some a)))"
  using assms
  by (cases "a = []") (auto simp: decode_dtx_body_from_slice_def encode_dtx_body_def body_len_def unat_of_nat_u32
      decode_aux_section_def usize_checked_add_def Let_def simp del: of_nat_add)

lemma length_header_wire [simp]: "length (header_wire h) = 32"
  by (simp add: header_wire_def)

lemma header_wire_nonempty [simp]: "header_wire h \<noteq> []"
  by (metis length_header_wire list.size(3) zero_neq_numeral)

lemma encode_dtx_frame:
  "encode_dtx ident conv code reply t p a =
     header_wire \<lparr>header_len = 32, frag_idx = 0, frag_cnt = 1, msg_len = body_len p a, h_identifier = ident,
       h_conv_idx = conv, h_channel_code = code, h_expects_reply = reply\<rparr> @ encode_dtx_body t p a"
  by (simp add: encode_dtx_def header_wire_def body_len_def Let_def)

text \<open>
  A buffer that starts with a frame: the message in it, whatever follows; a proper part of a frame
  is no message yet.
\<close>

lemma decode_frame:
  assumes "header_ok h" and "header_len h = 32" and "msg_len h = length body"
    and "decode_dtx_body_from_slice L h body = Inr m"
  shows "decode_dtx_message_from_bytes L (header_wire h @ body @ rest) = Inr (Some (m, 32 + length body))"
  using assms
  by (simp add: decode_dtx_message_from_bytes_def parse_header_bytes usize_checked_add_def bytes_at_def)
    (simp add: header_ok_def MAX_DTX_MESSAGE_SIZE_def)

lemma decode_frame_part:
  assumes "header_ok h" and "header_len h = 32" and "msg_len h = length body"
    and "header_wire h @ body = p @ q" and "q \<noteq> []"
  shows "decode_dtx_message_from_bytes L p = Inr None"
proof (cases "length p < 32")
  case True
  then show ?thesis by (simp add: decode_dtx_message_from_bytes_def)
next
  case False
  have "32 + length body = length p + length q"
    using arg_cong [OF assms(4), of length] by simp
  moreover have "take 32 p = header_wire h"
    using False arg_cong [OF assms(4), of "take 32"] by simp
  ultimately show ?thesis
    using False assms(1,2,3,5)
    by (auto simp: decode_dtx_message_from_bytes_def parse_header_bytes usize_checked_add_def header_ok_def
        MAX_DTX_MESSAGE_SIZE_def)
qed

lemma encode_dtx_decodes:
  assumes "body_len p a \<le> MAX_DTX_MESSAGE_SIZE"
  shows "decode_dtx_message_from_bytes L (encode_dtx ident conv code reply t p a @ rest) =
           Inr (Some (\<lparr>m_identifier = ident, m_conversation_idx = conv, m_channel_code = code, m_expects_reply = reply,
             m_payload = decode_payload L t p (if a = [] then None else Some a)\<rparr>, 32 + body_len p a))"
proof -
  let ?h = "\<lparr>header_len = 32, frag_idx = 0, frag_cnt = 1, msg_len = body_len p a, h_identifier = ident,
    h_conv_idx = conv, h_channel_code = code, h_expects_reply = reply\<rparr>"
  have "header_ok ?h"
    using assms by (simp add: header_ok_def MAX_DTX_HEADER_SIZE_def MAX_DTX_FRAGMENTS_def)
  moreover have "decode_dtx_body_from_slice L ?h (encode_dtx_body t p a) =
      Inr (header_message ?h (decode_payload L t p (if a = [] then None else Some a)))"
    using assms by (intro decode_encode_body) (auto simp: MAX_DTX_MESSAGE_SIZE_def)
  ultimately show ?thesis
    using decode_frame [of ?h "encode_dtx_body t p a" L _ rest] by (simp add: encode_dtx_frame header_message_def)
qed

lemma encode_dtx_part:
  assumes "body_len p a \<le> MAX_DTX_MESSAGE_SIZE" and "encode_dtx ident conv code reply t p a = x @ y" and "y \<noteq> []"
  shows "decode_dtx_message_from_bytes L x = Inr None"
  using assms(1,3)
  by (intro decode_frame_part [OF _ _ _ assms(2) [unfolded encode_dtx_frame]])
    (auto simp: header_ok_def MAX_DTX_HEADER_SIZE_def MAX_DTX_FRAGMENTS_def)

text \<open>The selector of a call is archived as a string.\<close>

definition selector_ok :: "plist_lib \<Rightarrow> string \<Rightarrow> bool" where
  "selector_ok L s \<longleftrightarrow> s \<noteq> ''$null'' \<and>
     (let doc = build_keyed_archive (PUid 1) (null_table @ [PString s]) in
      write_plist L doc \<noteq> [] \<and> read_plist L (write_plist L doc) = Some doc)"

lemma unarchive_selector:
  assumes "selector_ok L s"
  shows "unarchive_with L (archive_string (write_plist L) s) = Inr (AString s)" "archive_string (write_plist L) s \<noteq> []"
  using assms unarchive_scalar [of "read_plist L" "write_plist L" "PString s"]
  by (auto simp: selector_ok_def archive_string_def archive_value_def archive_root_def Let_def)

text \<open>
  C21. A method call survives the wire: the frame that \<open>method_call\<close> builds from a selector and
  arguments, followed by any bytes, is decoded to the identifier, the channel and the reply flag it
  was built with and to the same selector and arguments, and exactly its bytes are consumed; no proper
  part of it is taken for a message.
\<close>

theorem dtx_call_roundtrip:
  assumes "selector_ok L sel" and "\<forall>a \<in> set args. prim_ok a"
    and "frame = encode_dtx ident 0 code reply MSG_METHOD_INVOCATION (archive_string (write_plist L) sel)
           (if args = [] then [] else encode_primitive_dict args)"
    and "length frame \<le> MAX_DTX_MESSAGE_SIZE"
  shows "decode_dtx_message_from_bytes L (frame @ rest) =
           Inr (Some (\<lparr>m_identifier = ident, m_conversation_idx = 0, m_channel_code = code, m_expects_reply = reply,
             m_payload = MethodInvocation sel (map (prim_value L) args)\<rparr>, length frame)) \<and>
         (\<forall>p q. frame = p @ q \<longrightarrow> q \<noteq> [] \<longrightarrow> decode_dtx_message_from_bytes L p = Inr None)"
proof
  let ?p = "archive_string (write_plist L) sel" and ?a = "if args = [] then [] else encode_primitive_dict args"
  have len: "length frame = 32 + body_len ?p ?a" using assms(3) by (simp add: encode_dtx_frame)
  have "decode_payload L MSG_METHOD_INVOCATION ?p (if ?a = [] then None else Some ?a) =
      MethodInvocation sel (map (prim_value L) args)"
    using unarchive_selector [OF assms(1)] decode_auxiliary_args [OF assms(2)]
    by (simp add: decode_payload_def msg_defs)
  then show "decode_dtx_message_from_bytes L (frame @ rest) =
      Inr (Some (\<lparr>m_identifier = ident, m_conversation_idx = 0, m_channel_code = code, m_expects_reply = reply,
        m_payload = MethodInvocation sel (map (prim_value L) args)\<rparr>, length frame))"
    using encode_dtx_decodes [of ?p ?a L ident 0 code reply MSG_METHOD_INVOCATION rest] assms(3,4) len by simp
  show "\<forall>p q. frame = p @ q \<longrightarrow> q \<noteq> [] \<longrightarrow> decode_dtx_message_from_bytes L p = Inr None"
    using assms(3,4) len encode_dtx_part [of ?p ?a] by (metis add_leE)
qed

theorem dtx_call_roundtrip_witness:
  "let doc = build_keyed_archive (PUid 1) (null_table @ [PString ''go'']);
       L = \<lparr>read_plist = \<lambda>_. Some doc, write_plist = \<lambda>_. [0], show_f64 = \<lambda>_. []\<rparr>
   in decode_dtx_message_from_bytes L
        (encode_dtx 5 0 1 True MSG_METHOD_INVOCATION [0] (encode_primitive_dict [PrimInt32 7]) @ [9]) =
      Inr (Some (\<lparr>m_identifier = 5, m_conversation_idx = 0, m_channel_code = 1, m_expects_reply = True,
        m_payload = MethodInvocation ''go'' [NInt 7]\<rparr>, 77))"
  unfolding Let_def
  by (subst dtx_call_roundtrip [where sel = "''go''" and args = "[PrimInt32 7]" and ident = 5 and code = 1 and reply = True
        and L = "\<lparr>read_plist = \<lambda>_. Some (build_keyed_archive (PUid 1) (null_table @ [PString ''go''])),
             write_plist = \<lambda>_. [0], show_f64 = \<lambda>_. []\<rparr>", THEN conjunct1])
    (simp_all add: selector_ok_def prim_ok_def prim_value_def archive_string_def archive_value_def archive_root_def
      encode_dtx_frame body_len_def encode_primitive_dict_def encode_prim_arg_def MAX_DTX_MESSAGE_SIZE_def)

end
