(* ===== verification/Dtx_Connection.thy ===== *)
theory Dtx_Connection
  imports Dtx_Codec Async_Stream "HOL-Library.AList"
begin

text \<open>
  The DTX connection (\<open>services/dtx/codec.rs\<close>, \<open>DtxConnection\<close>): receiving with fragment reassembly
  under a memory budget, correlating replies with requests, the backlog of unrelated messages, and
  the calls built on them. The state is the record \<open>dtx\<close>; every method is a handler over it that may
  fail or be cancelled at each await. A \<open>HashMap\<close> is the list of its entries. What a value occupies
  in memory is the parameter \<open>lay\<close>: the capacities the allocator chose and the sizes of the types.
\<close>

section \<open>Memory sizes\<close>

record layout =
  string_capacity :: "string \<Rightarrow> nat"
  array_capacity :: "nsobject list \<Rightarrow> nat"
  dict_capacity :: "(string \<times> nsobject) list \<Rightarrow> nat"
  size_of_object :: nat
  size_of_entry :: nat

definition checked_size_add :: "nat \<Rightarrow> nat \<Rightarrow> string \<Rightarrow> dtx_error + nat" where
  "checked_size_add current bytes what =
     ok_or (DProtocol (''DTX memory size overflow while measuring '' @ what) [current, bytes]) (usize_checked_add current bytes)"

definition checked_size_mul :: "nat \<Rightarrow> nat \<Rightarrow> string \<Rightarrow> dtx_error + nat" where
  "checked_size_mul lhs rhs what =
     ok_or (DProtocol (''DTX memory size overflow while measuring '' @ what) [lhs, rhs]) (usize_checked_mul lhs rhs)"

fun ns_object_memory_size :: "layout \<Rightarrow> nsobject \<Rightarrow> dtx_error + nat"
  and ns_values_memory_size :: "layout \<Rightarrow> nat \<Rightarrow> string \<Rightarrow> nsobject list \<Rightarrow> dtx_error + nat"
  and ns_entries_memory_size :: "layout \<Rightarrow> nat \<Rightarrow> (string \<times> nsobject) list \<Rightarrow> dtx_error + nat"
where
  "ns_object_memory_size lay (NString s) = checked_size_add 0 (string_capacity lay s) ''string''"
| "ns_object_memory_size lay (NData d) = checked_size_add 0 (length d) ''data''"
| "ns_object_memory_size lay (NArray vs) =
     attempt (checked_size_mul (array_capacity lay vs) (size_of_object lay) ''array slots'') (\<lambda>slots.
     attempt (checked_size_add 0 slots ''array slots'') (\<lambda>acc.
     ns_values_memory_size lay acc ''array value'' vs))"
| "ns_object_memory_size lay (NDict es) =
     attempt (checked_size_mul (dict_capacity lay es) (size_of_entry lay) ''dict slots'') (\<lambda>slots.
     attempt (checked_size_add 0 slots ''dict slots'') (\<lambda>acc.
     ns_entries_memory_size lay acc es))"
| "ns_object_memory_size lay v = Inr 0"
| "ns_values_memory_size lay acc what [] = Inr acc"
| "ns_values_memory_size lay acc what (v # vs) =
     attempt (ns_object_memory_size lay v) (\<lambda>n.
     attempt (checked_size_add acc n what) (\<lambda>size1. ns_values_memory_size lay size1 what vs))"
| "ns_entries_memory_size lay acc [] = Inr acc"
| "ns_entries_memory_size lay acc ((k, v) # es) =
     attempt (checked_size_add acc (string_capacity lay k) ''dict key'') (\<lambda>size1.
     attempt (ns_object_memory_size lay v) (\<lambda>n.
     attempt (checked_size_add size1 n ''dict value'') (\<lambda>size2. ns_entries_memory_size lay size2 es)))"

definition dtx_message_memory_size :: "layout \<Rightarrow> dtx_message \<Rightarrow> dtx_error + nat" where
  "dtx_message_memory_size lay message = (case m_payload message of
       MethodInvocation selector args \<Rightarrow>
         attempt (checked_size_add 0 (string_capacity lay selector) ''method selector'') (\<lambda>acc.
         attempt (checked_size_mul (array_capacity lay args) (size_of_object lay) ''method argument slots'') (\<lambda>slots.
         attempt (checked_size_add acc slots ''method argument slots'') (\<lambda>size1.
         ns_values_memory_size lay size1 ''method argument'' args)))
     | Response v \<Rightarrow>
         attempt (ns_object_memory_size lay v) (\<lambda>n. checked_size_add 0 n ''response'')
     | Notification name obj \<Rightarrow>
         attempt (checked_size_add 0 (string_capacity lay name) ''notification name'') (\<lambda>acc.
         attempt (ns_object_memory_size lay obj) (\<lambda>n. checked_size_add acc n ''notification object''))
     | Raw b \<Rightarrow> checked_size_add 0 (length b) ''raw payload''
     | RawWithAux b aux \<Rightarrow>
         attempt (checked_size_add 0 (length b) ''raw payload'') (\<lambda>acc.
         attempt (checked_size_mul (array_capacity lay aux) (size_of_object lay) ''auxiliary slots'') (\<lambda>slots.
         attempt (checked_size_add acc slots ''auxiliary slots'') (\<lambda>size1.
         ns_values_memory_size lay size1 ''auxiliary value'' aux)))
     | Empty \<Rightarrow> Inr 0)"

section \<open>The memory budget\<close>

record dtx_memory_budget =
  limit :: nat
  used :: nat

definition budget_new :: "nat \<Rightarrow> dtx_memory_budget" where
  "budget_new lim = \<lparr>limit = lim, used = 0\<rparr>"

definition try_reserve :: "nat \<Rightarrow> string \<Rightarrow> dtx_memory_budget \<Rightarrow> dtx_error + dtx_memory_budget" where
  "try_reserve bytes what b =
     attempt (ok_or (DProtocol (''DTX memory accounting overflow reserving '' @ what) [bytes, used b, limit b])
       (usize_checked_add (used b) bytes)) (\<lambda>new_used.
     if new_used > limit b then
       Inl (DProtocol (''DTX memory budget exceeded reserving '' @ what) [bytes, used b, limit b])
     else Inr (b\<lparr>used := new_used\<rparr>))"

definition release :: "nat \<Rightarrow> dtx_memory_budget \<Rightarrow> dtx_memory_budget" where
  "release bytes b = b\<lparr>used := used b - bytes\<rparr>"

definition projected_use :: "nat \<Rightarrow> nat \<Rightarrow> string \<Rightarrow> dtx_memory_budget \<Rightarrow> dtx_error + nat" where
  "projected_use old_bytes new_bytes what b =
     attempt (ok_or (DProtocol (''DTX memory accounting underflow '' @ what) [used b, old_bytes, new_bytes])
       (usize_checked_sub (used b) old_bytes)) (\<lambda>current.
     attempt (ok_or (DProtocol (''DTX memory accounting overflow '' @ what) [current, old_bytes, new_bytes, limit b])
       (usize_checked_add current new_bytes)) (\<lambda>projected.
     if projected > limit b then
       Inl (DProtocol (''DTX memory budget exceeded '' @ what) [current, old_bytes, new_bytes, limit b])
     else Inr projected))"

definition adjust_replacement_budget ::
    "nat \<Rightarrow> nat \<Rightarrow> string \<Rightarrow> dtx_memory_budget \<Rightarrow> dtx_error + dtx_memory_budget" where
  "adjust_replacement_budget old_bytes new_bytes what b =
     attempt (projected_use old_bytes new_bytes (''replacing '' @ what) b) (\<lambda>projected. Inr (b\<lparr>used := projected\<rparr>))"

definition ensure_budget_after_release :: "nat \<Rightarrow> nat \<Rightarrow> string \<Rightarrow> dtx_memory_budget \<Rightarrow> dtx_error + unit" where
  "ensure_budget_after_release released_bytes added_bytes what b =
     attempt (projected_use released_bytes added_bytes (''reserving '' @ what) b) (\<lambda>projected. Inr ())"

section \<open>The connection\<close>

record fragment_accum =
  a_header :: dtx_header
  a_fragments :: "bytes option list"
  a_remaining :: u16
  a_received :: nat
  a_reserved_bytes :: nat

record buffered_message =
  b_message :: dtx_message
  b_reserved_bytes :: nat

record dtx =
  dtx_stream :: sock
  dtx_identifier :: u32
  channel_counter :: i32
  pending_replies :: "(u32 \<times> buffered_message) list"
  outstanding_reply_ids :: "u32 set"
  queued_messages :: "buffered_message list"
  fragments :: "(u32 \<times> fragment_accum) list"
  memory_budget :: dtx_memory_budget

type_synonym 'a dtx_proc = "(dtx, dtx_error, 'a) proc"

definition with_memory_limit :: "sock \<Rightarrow> nat \<Rightarrow> dtx" where
  "with_memory_limit k memory_limit =
     \<lparr>dtx_stream = k, dtx_identifier = 5, channel_counter = 1, pending_replies = [], outstanding_reply_ids = {},
      queued_messages = [], fragments = [], memory_budget = budget_new memory_limit\<rparr>"

definition DtxConnection_new :: "sock \<Rightarrow> dtx" where
  "DtxConnection_new k = with_memory_limit k DEFAULT_DTX_MEMORY_BUDGET"

definition memory_bytes_used :: "dtx \<Rightarrow> nat" where "memory_bytes_used s = used (memory_budget s)"
definition memory_limit :: "dtx \<Rightarrow> nat" where "memory_limit s = limit (memory_budget s)"

text \<open>Reserving is fallible, releasing is not.\<close>

definition reserve :: "(dtx_memory_budget \<Rightarrow> dtx_error + dtx_memory_budget) \<Rightarrow> unit dtx_proc" where
  "reserve f s = (case f (memory_budget s) of
       Inl e \<Rightarrow> (Err e, s) | Inr b \<Rightarrow> (Ok (), s\<lparr>memory_budget := b\<rparr>))"

definition release_bytes :: "nat \<Rightarrow> dtx \<Rightarrow> dtx" where
  "release_bytes n s = s\<lparr>memory_budget := release n (memory_budget s)\<rparr>"

abbreviation (input) on_dtx :: "(sock, io_error, 'a) proc \<Rightarrow> 'a dtx_proc" where
  "on_dtx \<equiv> on_stream dtx_stream (\<lambda>k s. s\<lparr>dtx_stream := k\<rparr>) DIo"

definition next_id :: "u32 dtx_proc" where
  "next_id s =
     (let id = dtx_identifier s in
      if id = 0xFFFFFFFF then (Err (DProtocol ''DTX message identifier exhausted'' []), s)
      else (Ok id, s\<lparr>dtx_identifier := id + 1\<rparr>))"

definition next_channel_code :: "i32 dtx_proc" where
  "next_channel_code s =
     (let code = channel_counter s in
      if code = 0x7FFFFFFF then (Err (DProtocol ''DTX channel code exhausted'' []), s)
      else (Ok code, s\<lparr>channel_counter := code + 1\<rparr>))"

definition send_raw :: "bytes \<Rightarrow> unit dtx_proc" where
  "send_raw data = and_then (on_dtx (sock_write_all data)) (\<lambda>_. on_dtx sock_flush)"

definition send_ack :: "dtx_message \<Rightarrow> unit dtx_proc" where
  "send_ack msg = send_raw (encode_ack msg)"

subsection \<open>Buffered messages\<close>

definition buffer_reply :: "layout \<Rightarrow> dtx_message \<Rightarrow> unit dtx_proc" where
  "buffer_reply lay msg = reading (\<lambda>s.
     let id = m_identifier msg; previous = map_of (pending_replies s) id in
     if previous = None \<and> length (pending_replies s) \<ge> MAX_PENDING_REPLIES then
       throw (DProtocol ''DTX pending reply backlog full: {} entries exceeds {}'' [length (pending_replies s), MAX_PENDING_REPLIES])
     else
       and_then (check (\<lambda>_. dtx_message_memory_size lay msg)) (\<lambda>reserved_bytes.
       let old_bytes = (case previous of Some p \<Rightarrow> b_reserved_bytes p | None \<Rightarrow> 0) in
       and_then (reserve (adjust_replacement_budget old_bytes reserved_bytes ''pending reply'')) (\<lambda>_.
       modify (\<lambda>s. s\<lparr>pending_replies :=
         index_insert id \<lparr>b_message = msg, b_reserved_bytes = reserved_bytes\<rparr> (pending_replies s)\<rparr>))))"

definition drop_oldest :: "dtx \<Rightarrow> dtx" where
  "drop_oldest s = (case queued_messages s of
       [] \<Rightarrow> s
     | dropped # rest \<Rightarrow> release_bytes (b_reserved_bytes dropped) (s\<lparr>queued_messages := rest\<rparr>))"

definition queue_message :: "layout \<Rightarrow> dtx_message \<Rightarrow> unit dtx_proc" where
  "queue_message lay msg =
     and_then (check (\<lambda>_. dtx_message_memory_size lay msg)) (\<lambda>reserved_bytes.
     reading (\<lambda>s.
       let full = length (queued_messages s) \<ge> MAX_QUEUED_MESSAGES;
           dropped_bytes = (if full then (case queued_messages s of q # _ \<Rightarrow> b_reserved_bytes q | [] \<Rightarrow> 0) else 0) in
       and_then (check (\<lambda>s. ensure_budget_after_release dropped_bytes reserved_bytes ''queued message'' (memory_budget s))) (\<lambda>_.
       and_then (modify (\<lambda>s. if full then drop_oldest s else s)) (\<lambda>_.
       and_then (reserve (try_reserve reserved_bytes ''queued message'')) (\<lambda>_.
       modify (\<lambda>s. s\<lparr>queued_messages :=
         queued_messages s @ [\<lparr>b_message = msg, b_reserved_bytes = reserved_bytes\<rparr>]\<rparr>))))))"

definition remove_pending_reply :: "u32 \<Rightarrow> dtx \<Rightarrow> dtx_message option \<times> dtx" where
  "remove_pending_reply rid s = (case map_of (pending_replies s) rid of
       None \<Rightarrow> (None, s)
     | Some b \<Rightarrow> (Some (b_message b),
         release_bytes (b_reserved_bytes b) (s\<lparr>pending_replies := AList.delete rid (pending_replies s)\<rparr>)))"

definition pop_queued_message :: "dtx \<Rightarrow> dtx_message option \<times> dtx" where
  "pop_queued_message s = (case queued_messages s of
       [] \<Rightarrow> (None, s)
     | b # rest \<Rightarrow> (Some (b_message b), release_bytes (b_reserved_bytes b) (s\<lparr>queued_messages := rest\<rparr>)))"

definition clear_fragments :: "dtx \<Rightarrow> dtx" where
  "clear_fragments s =
     fold (\<lambda>(_, a). release_bytes (a_reserved_bytes a)) (fragments s) (s\<lparr>fragments := []\<rparr>)"

definition is_reply_message :: "dtx_message \<Rightarrow> dtx \<Rightarrow> bool" where
  "is_reply_message msg s \<longleftrightarrow> m_conversation_idx msg > 0 \<and> m_identifier msg \<in> outstanding_reply_ids s"

subsection \<open>Receiving\<close>

definition read_dtx_header :: "dtx_header dtx_proc" where
  "read_dtx_header =
     and_then (on_dtx (sock_read_exact 32)) (\<lambda>hdr.
     and_then (check (\<lambda>_. parse_dtx_header hdr)) (\<lambda>header.
     if header_len header > 32 then
       and_then (on_dtx (sock_read_exact (header_len header - 32))) (\<lambda>_. ret header)
     else ret header))"

definition read_dtx_body :: "plist_lib \<Rightarrow> dtx_header \<Rightarrow> bytes \<Rightarrow> dtx_message dtx_proc" where
  "read_dtx_body L h body =
     (if body = [] \<and> msg_len h > 0 then
        and_then (on_dtx (sock_read_exact (msg_len h))) (\<lambda>b. check (\<lambda>_. decode_dtx_body_from_slice L h b))
      else check (\<lambda>_. decode_dtx_body_from_slice L h body))"

definition read_dtx_frame :: "plist_lib \<Rightarrow> dtx_message dtx_proc" where
  "read_dtx_frame L =
     and_then read_dtx_header (\<lambda>h.
     if frag_cnt h > 1 \<and> frag_idx h = 0 then ret (header_message h Empty)
     else if msg_len h = 0 then ret (header_message h Empty)
     else read_dtx_body L h [])"

definition deliver :: "dtx_message \<Rightarrow> dtx_message option dtx_proc" where
  "deliver msg =
     and_then (check (\<lambda>_. normalize_incoming_channel_code (m_channel_code msg) (m_conversation_idx msg))) (\<lambda>code.
     ret (Some (msg\<lparr>m_channel_code := code\<rparr>)))"

definition recv_single :: "plist_lib \<Rightarrow> dtx_header \<Rightarrow> dtx_message option dtx_proc" where
  "recv_single L h =
     (if msg_len h = 0 then deliver (header_message h Empty)
      else
        and_then (reserve (try_reserve (msg_len h) ''single-fragment body'')) (\<lambda>_.
        and_then (settled (read_dtx_body L h []) (release_bytes (msg_len h))) deliver))"

definition first_fragment :: "dtx_header \<Rightarrow> dtx_message option dtx_proc" where
  "first_fragment h = reading (\<lambda>s.
     if map_of (fragments s) (h_identifier h) \<noteq> None then
       throw (DProtocol ''duplicate first fragment for id={}'' [unat (h_identifier h)])
     else if length (fragments s) \<ge> MAX_IN_FLIGHT_FRAGMENTED_MESSAGES then
       throw (DProtocol ''too many in-flight fragmented DTX messages: {} exceeds {}'' [length (fragments s)])
     else
       and_then (modify (\<lambda>s. s\<lparr>fragments := index_insert (h_identifier h)
         \<lparr>a_header = h, a_fragments = replicate (unat (frag_cnt h) - 1) None, a_remaining = frag_cnt h - 1,
          a_received = 0, a_reserved_bytes = 0\<rparr> (fragments s)\<rparr>)) (\<lambda>_. ret None))"

definition check_fragment :: "dtx_header \<Rightarrow> dtx \<Rightarrow> dtx_error + unit" where
  "check_fragment h s =
     (let rid = h_identifier h; slot_idx = unat (frag_idx h) - 1 in
      attempt (ok_or (DProtocol ''fragment id={id} frag_idx={} without first fragment'' [unat rid, unat (frag_idx h)])
        (map_of (fragments s) rid)) (\<lambda>accum.
      if frag_cnt h \<noteq> frag_cnt (a_header accum) then
        Inl (DProtocol ''fragment count mismatch for id={id}: got={} expected={}'' [unat rid])
      else if h_conv_idx h \<noteq> h_conv_idx (a_header accum) \<or> h_channel_code h \<noteq> h_channel_code (a_header accum) \<or>
              h_expects_reply h \<noteq> h_expects_reply (a_header accum) then
        Inl (DProtocol ''fragment metadata mismatch for id={id}'' [unat rid])
      else if slot_idx \<ge> length (a_fragments accum) then
        Inl (DProtocol ''fragment index {} out of range for id={id}'' [unat (frag_idx h), unat rid])
      else if a_fragments accum ! slot_idx \<noteq> None then
        Inl (DProtocol ''duplicate fragment {} for id={id}'' [unat (frag_idx h), unat rid])
      else if msg_len h > msg_len (a_header accum) - a_received accum then
        Inl (DProtocol ''fragmented body for id={id} exceeds announced size {announced}'' [unat rid, msg_len (a_header accum)])
      else Inr ()))"

text \<open>The fragments in order, or the index of one that is missing.\<close>

fun collect_fragments :: "nat \<Rightarrow> bytes option list \<Rightarrow> nat + bytes" where
  "collect_fragments i [] = Inr []"
| "collect_fragments i (None # fs) = Inl i"
| "collect_fragments i (Some f # fs) = attempt (collect_fragments (Suc i) fs) (\<lambda>body. Inr (f @ body))"

definition assemble :: "plist_lib \<Rightarrow> u32 \<Rightarrow> fragment_accum \<Rightarrow> dtx_message option dtx_proc" where
  "assemble L rid accum =
     (let total = msg_len (a_header accum); reserved = a_reserved_bytes accum in
      if a_received accum \<noteq> total then
        and_then (modify (release_bytes reserved)) (\<lambda>_.
        throw (DProtocol ''fragmented body size mismatch for id={id}: assembled={} expected={}'' [unat rid, a_received accum, total]))
      else
        and_then (on_err (reserve (try_reserve total ''fragment reassembly body'')) (release_bytes reserved)) (\<lambda>_.
        case collect_fragments 0 (a_fragments accum) of
          Inl i \<Rightarrow>
            and_then (modify (\<lambda>s. release_bytes total (release_bytes reserved s))) (\<lambda>_.
            throw (DProtocol ''missing fragment {} for id={id}'' [i + 1, unat rid]))
        | Inr body \<Rightarrow>
            if length body \<noteq> total then
              and_then (modify (\<lambda>s. release_bytes total (release_bytes reserved s))) (\<lambda>_.
              throw (DProtocol ''fragmented body size mismatch for id={id}: assembled={} expected={}'' [unat rid, length body, total]))
            else
              and_then (modify (release_bytes reserved)) (\<lambda>_.
              and_then (settled (read_dtx_body L (a_header accum) body) (release_bytes total)) deliver)))"

definition store_fragment :: "plist_lib \<Rightarrow> dtx_header \<Rightarrow> bytes \<Rightarrow> dtx_message option dtx_proc" where
  "store_fragment L h frag_body = reading (\<lambda>s.
     let rid = h_identifier h; slot_idx = unat (frag_idx h) - 1;
         fail = (\<lambda>e. and_then (modify (release_bytes (msg_len h))) (\<lambda>_. throw e)) in
     case map_of (fragments s) rid of
       None \<Rightarrow> fail (DProtocol ''fragment id={id} frag_idx={} without first fragment'' [unat rid, unat (frag_idx h)])
     | Some accum \<Rightarrow>
         (case usize_checked_add (a_received accum) (length frag_body) of
            None \<Rightarrow> fail (DProtocol ''fragmented body byte count overflow for id={id}'' [unat rid])
          | Some received \<Rightarrow>
              (case usize_checked_add (a_reserved_bytes accum) (msg_len h) of
                 None \<Rightarrow> fail (DProtocol ''fragment memory accounting overflow for id={id}'' [unat rid])
               | Some reserved \<Rightarrow>
                   let accum1 = accum\<lparr>a_received := received, a_reserved_bytes := reserved,
                         a_fragments := (a_fragments accum)[slot_idx := Some frag_body],
                         a_remaining := a_remaining accum - 1\<rparr> in
                   if a_remaining accum1 = 0 then
                     and_then (modify (\<lambda>s. s\<lparr>fragments := AList.delete rid (fragments s)\<rparr>)) (\<lambda>_. assemble L rid accum1)
                   else
                     and_then (modify (\<lambda>s. s\<lparr>fragments := index_insert rid accum1 (fragments s)\<rparr>)) (\<lambda>_. ret None))))"

definition next_fragment :: "plist_lib \<Rightarrow> dtx_header \<Rightarrow> dtx_message option dtx_proc" where
  "next_fragment L h =
     and_then (check (check_fragment h)) (\<lambda>_.
     and_then (reserve (try_reserve (msg_len h) ''fragment body'')) (\<lambda>_.
     and_then (on_err (on_dtx (sock_read_exact (msg_len h))) (release_bytes (msg_len h))) (\<lambda>frag_body.
     store_fragment L h frag_body)))"

text \<open>One round of the receive loop; \<open>None\<close> goes on.\<close>

definition recv_step :: "plist_lib \<Rightarrow> dtx_message option dtx_proc" where
  "recv_step L =
     and_then read_dtx_header (\<lambda>h.
     if frag_cnt h \<le> 1 then recv_single L h
     else if frag_idx h = 0 then first_fragment h
     else next_fragment L h)"

abbreviation (input) dtx_left :: "dtx \<Rightarrow> nat" where
  "dtx_left s \<equiv> rx_size (rx (dtx_stream s))"

text \<open>No handler adds to the input, and a round of the loop takes a header from it.\<close>

lemma dtx_stream_release [simp]: "dtx_stream (release_bytes n s) = dtx_stream s"
  by (simp add: release_bytes_def)

lemma dtx_stream_clear [simp]: "dtx_stream (clear_fragments s) = dtx_stream s"
proof -
  have "dtx_stream (fold (\<lambda>(_, a). release_bytes (a_reserved_bytes a)) fs t) = dtx_stream t" for fs :: "(u32 \<times> fragment_accum) list" and t
    by (induction fs arbitrary: t) auto
  then show ?thesis by (simp add: clear_fragments_def)
qed

lemma dtx_stream_drop [simp]: "dtx_stream (drop_oldest s) = dtx_stream s"
  by (simp add: drop_oldest_def split: list.splits)

lemma left_read: "keeps (\<lambda>s. dtx_left s \<le> n) (on_dtx (sock_read_exact k))"
  by (rule keepsI)
    (auto simp: on_stream_state sock_read_exact_def split: prod.splits dest: rx_exact_le)

lemma rx_write [simp]: "rx (snd (sock_write_all bs k)) = rx k" "rx (snd (sock_flush k)) = rx k"
  by (auto simp: sock_write_all_def sock_flush_def split: prod.splits list.splits fx_event.splits)

lemma left_send: "keeps (\<lambda>s. dtx_left s \<le> n) (send_raw data)"
  unfolding send_raw_def by (intro keeps_intros keepsI) (simp_all add: on_stream_state)

lemma left_reserve: "keeps (\<lambda>s. dtx_left s \<le> n) (reserve f)"
  by (rule keepsI) (simp add: reserve_def split: sum.splits)

lemma left_le: "m s = (r, t) \<Longrightarrow> (\<And>n. keeps (\<lambda>s. dtx_left s \<le> n) m) \<Longrightarrow> dtx_left t \<le> dtx_left s"
  using keepsD [of "\<lambda>u. dtx_left u \<le> dtx_left s" m s r t] by auto

lemmas left_intros = keeps_intros left_read left_send left_reserve

lemma left_body: "keeps (\<lambda>s. dtx_left s \<le> n) (read_dtx_body L h b)"
  unfolding read_dtx_body_def by (intro left_intros)

lemma left_deliver: "keeps (\<lambda>s. dtx_left s \<le> n) (deliver m)"
  unfolding deliver_def by (intro left_intros)

lemma left_assemble: "keeps (\<lambda>s. dtx_left s \<le> n) (assemble L rid accum)"
  unfolding assemble_def Let_def
  by (intro left_intros left_body left_deliver) (auto split: sum.splits intro!: left_intros left_body left_deliver)

lemma left_store: "keeps (\<lambda>s. dtx_left s \<le> n) (store_fragment L h b)"
  unfolding store_fragment_def Let_def
  by (auto split: option.splits intro!: left_intros left_assemble)

lemma left_rounds:
  "keeps (\<lambda>s. dtx_left s \<le> n) (recv_single L h)" "keeps (\<lambda>s. dtx_left s \<le> n) (first_fragment h)"
  "keeps (\<lambda>s. dtx_left s \<le> n) (next_fragment L h)"
  unfolding recv_single_def first_fragment_def next_fragment_def
  by (intro left_intros left_body left_deliver left_store; simp)+

lemma read_header_less: "read_dtx_header s = (Ok h, t) \<Longrightarrow> dtx_left t < dtx_left s"
proof -
  assume "read_dtx_header s = (Ok h, t)"
  then obtain hdr s1 where 1: "on_dtx (sock_read_exact 32) s = (Ok hdr, s1)"
    and 2: "(and_then (check (\<lambda>_. parse_dtx_header hdr)) (\<lambda>header.
      if header_len header > 32 then and_then (on_dtx (sock_read_exact (header_len header - 32))) (\<lambda>_. ret header)
      else ret header)) s1 = (Ok h, t)"
    unfolding read_dtx_header_def by (auto simp: and_then_Ok_iff)
  have "dtx_left s1 < dtx_left s"
    using 1 by (auto simp: on_stream_def sock_read_exact_def split: prod.splits outcome.splits dest: rx_exact_less)
  moreover have "dtx_left t \<le> dtx_left s1"
    using 2 by (rule left_le) (intro left_intros)
  ultimately show ?thesis by simp
qed

lemma recv_step_less: "recv_step L s = (Ok r, t) \<Longrightarrow> dtx_left t < dtx_left s"
proof -
  assume "recv_step L s = (Ok r, t)"
  then obtain h s1 where 1: "read_dtx_header s = (Ok h, s1)"
    and 2: "(if frag_cnt h \<le> 1 then recv_single L h else if frag_idx h = 0 then first_fragment h else next_fragment L h) s1 = (Ok r, t)"
    unfolding recv_step_def by (auto simp: and_then_Ok_iff)
  have "dtx_left t \<le> dtx_left s1"
    using 2 by (rule left_le) (intro left_intros left_rounds)
  with read_header_less [OF 1] show ?thesis by simp
qed

function recv_from_stream_inner :: "plist_lib \<Rightarrow> dtx_message dtx_proc" where
  "recv_from_stream_inner L s =
     and_then (recv_step L) (\<lambda>r t. case r of Some msg \<Rightarrow> ret msg t | None \<Rightarrow> recv_from_stream_inner L t) s"
  by pat_completeness auto
termination
  by (relation "measure (\<lambda>(L, s). dtx_left s)") (auto dest: recv_step_less)

declare recv_from_stream_inner.simps [simp del]

definition recv_from_stream :: "plist_lib \<Rightarrow> dtx_message dtx_proc" where
  "recv_from_stream L = on_err (recv_from_stream_inner L) clear_fragments"

lemma recv_from_stream_less: "recv_from_stream L s = (Ok m, t) \<Longrightarrow> dtx_left t < dtx_left s"
proof -
  have "recv_from_stream_inner L s = (Ok m, t) \<Longrightarrow> dtx_left t < dtx_left s"
  proof (induction L s rule: recv_from_stream_inner.induct)
    case (1 L s)
    from "1.prems" obtain r s1 where r: "recv_step L s = (Ok r, s1)"
      and "(case r of Some msg \<Rightarrow> ret msg s1 | None \<Rightarrow> recv_from_stream_inner L s1) = (Ok m, t)"
      by (subst (asm) recv_from_stream_inner.simps) (auto simp: and_then_Ok_iff)
    with recv_step_less [OF r] show ?case
      using "1.IH" [OF r] by (auto simp: proc_simps split: option.splits intro: less_trans)
  qed
  then show "recv_from_stream L s = (Ok m, t) \<Longrightarrow> dtx_left t < dtx_left s"
    by (auto simp: recv_from_stream_def on_err_def split: prod.splits outcome.splits)
qed

subsection \<open>Waiting for a reply\<close>

definition wait_step :: "plist_lib \<Rightarrow> layout \<Rightarrow> u32 \<Rightarrow> dtx_message option dtx_proc" where
  "wait_step L lay rid =
     and_then (recv_from_stream L) (\<lambda>msg. reading (\<lambda>s.
     if is_reply_message msg s then
       if m_identifier msg = rid then
         and_then (modify (\<lambda>s. s\<lparr>outstanding_reply_ids := outstanding_reply_ids s - {rid}\<rparr>)) (\<lambda>_. ret (Some msg))
       else and_then (buffer_reply lay msg) (\<lambda>_. ret None)
     else
       and_then (if m_expects_reply msg then send_ack msg else ret ()) (\<lambda>_.
       and_then (queue_message lay msg) (\<lambda>_. ret None))))"

lemma left_buffering:
  "keeps (\<lambda>s. dtx_left s \<le> n) (buffer_reply lay msg)" "keeps (\<lambda>s. dtx_left s \<le> n) (queue_message lay msg)"
  "keeps (\<lambda>s. dtx_left s \<le> n) (send_ack msg)"
  unfolding buffer_reply_def queue_message_def send_ack_def Let_def by (intro left_intros; simp)+

lemma wait_step_less: "wait_step L lay rid s = (Ok r, t) \<Longrightarrow> dtx_left t < dtx_left s"
proof -
  assume "wait_step L lay rid s = (Ok r, t)"
  then obtain msg s1 where 1: "recv_from_stream L s = (Ok msg, s1)"
    and 2: "(if is_reply_message msg s1 then
       if m_identifier msg = rid then
         and_then (modify (\<lambda>s. s\<lparr>outstanding_reply_ids := outstanding_reply_ids s - {rid}\<rparr>)) (\<lambda>_. ret (Some msg))
       else and_then (buffer_reply lay msg) (\<lambda>_. ret None)
     else
       and_then (if m_expects_reply msg then send_ack msg else ret ()) (\<lambda>_.
       and_then (queue_message lay msg) (\<lambda>_. ret None))) s1 = (Ok r, t)"
    unfolding wait_step_def by (auto simp: and_then_Ok_iff proc_runs)
  have "dtx_left t \<le> dtx_left s1"
    using 2 by (rule left_le) (intro left_intros left_buffering; simp)
  with recv_from_stream_less [OF 1] show ?thesis by simp
qed

function wait_loop :: "plist_lib \<Rightarrow> layout \<Rightarrow> u32 \<Rightarrow> dtx_message dtx_proc" where
  "wait_loop L lay rid s =
     and_then (wait_step L lay rid) (\<lambda>r t. case r of Some msg \<Rightarrow> ret msg t | None \<Rightarrow> wait_loop L lay rid t) s"
  by pat_completeness auto
termination
  by (relation "measure (\<lambda>(L, lay, rid, s). dtx_left s)") (auto dest: wait_step_less)

declare wait_loop.simps [simp del]

definition wait_for_reply :: "plist_lib \<Rightarrow> layout \<Rightarrow> u32 \<Rightarrow> dtx_message dtx_proc" where
  "wait_for_reply L lay rid s = (case remove_pending_reply rid s of
       (Some msg, t) \<Rightarrow> (Ok msg, t\<lparr>outstanding_reply_ids := outstanding_reply_ids t - {rid}\<rparr>)
     | (None, t) \<Rightarrow> wait_loop L lay rid t)"

definition recv_round :: "plist_lib \<Rightarrow> layout \<Rightarrow> dtx_message option dtx_proc" where
  "recv_round L lay =
     and_then (recv_from_stream L) (\<lambda>msg. reading (\<lambda>s.
     if is_reply_message msg s then and_then (buffer_reply lay msg) (\<lambda>_. ret None)
     else ret (Some msg)))"

lemma recv_round_less: "recv_round L lay s = (Ok r, t) \<Longrightarrow> dtx_left t < dtx_left s"
proof -
  assume "recv_round L lay s = (Ok r, t)"
  then obtain msg s1 where 1: "recv_from_stream L s = (Ok msg, s1)"
    and 2: "(if is_reply_message msg s1 then and_then (buffer_reply lay msg) (\<lambda>_. ret None) else ret (Some msg)) s1 = (Ok r, t)"
    unfolding recv_round_def by (auto simp: and_then_Ok_iff proc_runs)
  have "dtx_left t \<le> dtx_left s1"
    using 2 by (rule left_le) (intro left_intros left_buffering; simp)
  with recv_from_stream_less [OF 1] show ?thesis by simp
qed

function recv_rounds :: "plist_lib \<Rightarrow> layout \<Rightarrow> dtx_message dtx_proc" where
  "recv_rounds L lay s =
     and_then (recv_round L lay) (\<lambda>r t. case r of Some msg \<Rightarrow> ret msg t | None \<Rightarrow> recv_rounds L lay t) s"
  by pat_completeness auto
termination
  by (relation "measure (\<lambda>(L, lay, s). dtx_left s)") (auto dest: recv_round_less)

declare recv_rounds.simps [simp del]

definition dtx_recv :: "plist_lib \<Rightarrow> layout \<Rightarrow> dtx_message dtx_proc" where
  "dtx_recv L lay s = (case pop_queued_message s of
       (Some msg, t) \<Rightarrow> (Ok msg, t)
     | (None, t) \<Rightarrow> recv_rounds L lay t)"

subsection \<open>Calls\<close>

definition await_reply :: "plist_lib \<Rightarrow> layout \<Rightarrow> u32 \<Rightarrow> dtx_message dtx_proc" where
  "await_reply L lay rid =
     and_then (modify (\<lambda>s. s\<lparr>outstanding_reply_ids := insert rid (outstanding_reply_ids s)\<rparr>)) (\<lambda>_.
     on_err (wait_for_reply L lay rid) (\<lambda>s. s\<lparr>outstanding_reply_ids := outstanding_reply_ids s - {rid}\<rparr>))"

definition request_channel :: "plist_lib \<Rightarrow> layout \<Rightarrow> string \<Rightarrow> i32 dtx_proc" where
  "request_channel L lay service_name =
     and_then next_channel_code (\<lambda>code.
     and_then next_id (\<lambda>rid.
     let selector = archive_string (write_plist L) ''_requestChannelWithCode:identifier:'';
         arg_name = archive_string (write_plist L) service_name;
         aux = encode_primitive_dict [PrimInt32 code, PrimBytes arg_name];
         frame = encode_dtx rid 0 0 True MSG_METHOD_INVOCATION selector aux in
     and_then (send_raw frame) (\<lambda>_.
     and_then (await_reply L lay rid) (\<lambda>_. ret code))))"

definition call_frame :: "plist_lib \<Rightarrow> u32 \<Rightarrow> i32 \<Rightarrow> bool \<Rightarrow> string \<Rightarrow> prim_arg list \<Rightarrow> bytes" where
  "call_frame L rid code reply selector args =
     encode_dtx rid 0 code reply MSG_METHOD_INVOCATION (archive_string (write_plist L) selector)
       (if args = [] then [] else encode_primitive_dict args)"

definition method_call :: "plist_lib \<Rightarrow> layout \<Rightarrow> i32 \<Rightarrow> string \<Rightarrow> prim_arg list \<Rightarrow> dtx_message dtx_proc" where
  "method_call L lay code selector args =
     and_then next_id (\<lambda>rid.
     and_then (send_raw (call_frame L rid code True selector args)) (\<lambda>_.
     await_reply L lay rid))"

definition method_call_async :: "plist_lib \<Rightarrow> i32 \<Rightarrow> string \<Rightarrow> prim_arg list \<Rightarrow> unit dtx_proc" where
  "method_call_async L code selector args =
     and_then next_id (\<lambda>rid. send_raw (call_frame L rid code False selector args))"

definition dtx_drop :: "dtx \<Rightarrow> dtx" where
  "dtx_drop s = s\<lparr>pending_replies := [], queued_messages := [], outstanding_reply_ids := {}, fragments := [],
     memory_budget := (memory_budget s)\<lparr>used := 0\<rparr>\<rparr>"

end
