(* ===== verification/Dtx_Budget.thy ===== *)
theory Dtx_Budget
  imports Dtx_Connection
begin

text \<open>
  The receive-side state of a DTX connection stays within its limits. \<open>held lim k s\<close> says that the
  tables are well-formed and bounded and that the budget counts exactly the bytes the tables hold
  and \<open>k\<close> more. The handlers are followed with triples \<open>slack\<close> over \<open>k\<close>: a reservation raises it,
  a release lowers it, storing a fragment or a message moves it into the tables.
\<close>

section \<open>Sums over the tables\<close>

definition amount :: "('v \<Rightarrow> nat) \<Rightarrow> ('k \<times> 'v) list \<Rightarrow> nat" where
  "amount f m = sum_list (map (\<lambda>e. f (snd e)) m)"

lemma amount_simps [simp]: "amount f [] = 0" "amount f (e # m) = f (snd e) + amount f m"
  by (simp_all add: amount_def)

lemma amount_append [simp]: "amount f (m @ m') = amount f m + amount f m'"
  by (simp add: amount_def)

lemma set_delete: "set (AList.delete k m) \<subseteq> set m"
  by (auto simp: AList.delete_eq)

lemma delete_unknown: "map_of m k = None \<Longrightarrow> AList.delete k m = m"
  by (induction m) (auto split: if_splits)

lemma amount_delete:
  "distinct (map fst m) \<Longrightarrow> map_of m k = Some v \<Longrightarrow> amount f m = f v + amount f (AList.delete k m)"
proof (induction m)
  case (Cons e m)
  then show ?case
    using delete_unknown [of m k] by (cases e) (auto simp: map_of_eq_None_iff)
qed simp

lemma amount_insert: "distinct (map fst m) \<Longrightarrow> amount f (index_insert k v m) = f v + amount f (AList.delete k m)"
proof (induction m)
  case (Cons e m)
  then show ?case
    using delete_unknown [of m k] by (cases e) (auto simp: map_of_eq_None_iff)
qed simp

lemma distinct_delete: "distinct (map fst m) \<Longrightarrow> distinct (map fst (AList.delete k m))"
  by (simp add: distinct_delete)

lemma length_delete: "length (AList.delete k m) \<le> length m"
  by (simp add: length_delete_le)

lemma length_insert_known: "map_of m k = Some v \<Longrightarrow> length (index_insert k w m) = length m"
  by (induction m) (auto split: if_splits)

lemma set_insert_map: "e \<in> set (index_insert k v m) \<Longrightarrow> e = (k, v) \<or> e \<in> set m"
  by (induction m) (auto split: if_splits)

section \<open>The invariant\<close>

definition fragment_bytes :: "bytes option list \<Rightarrow> nat" where
  "fragment_bytes fs = sum_list (map (\<lambda>f. case f of Some b \<Rightarrow> length b | None \<Rightarrow> 0) fs)"

definition missing :: "bytes option list \<Rightarrow> nat" where
  "missing fs = length (filter (\<lambda>f. f = None) fs)"

definition accum_ok :: "fragment_accum \<Rightarrow> bool" where
  "accum_ok a \<longleftrightarrow> header_ok (a_header a) \<and> frag_cnt (a_header a) > 1 \<and> frag_idx (a_header a) = 0 \<and>
     length (a_fragments a) = unat (frag_cnt (a_header a)) - 1 \<and>
     unat (a_remaining a) = missing (a_fragments a) \<and> 0 < missing (a_fragments a) \<and>
     a_received a = fragment_bytes (a_fragments a) \<and> a_reserved_bytes a = a_received a \<and>
     a_received a \<le> msg_len (a_header a)"

definition retained :: "dtx \<Rightarrow> nat" where
  "retained s = amount b_reserved_bytes (pending_replies s) + sum_list (map b_reserved_bytes (queued_messages s)) +
     amount a_reserved_bytes (fragments s)"

definition tables_ok :: "dtx \<Rightarrow> bool" where
  "tables_ok s \<longleftrightarrow> length (pending_replies s) \<le> MAX_PENDING_REPLIES \<and> distinct (map fst (pending_replies s)) \<and>
     length (queued_messages s) \<le> MAX_QUEUED_MESSAGES \<and>
     length (fragments s) \<le> MAX_IN_FLIGHT_FRAGMENTED_MESSAGES \<and> distinct (map fst (fragments s)) \<and>
     (\<forall>e \<in> set (fragments s). accum_ok (snd e))"

definition held :: "nat \<Rightarrow> nat \<Rightarrow> dtx \<Rightarrow> bool" where
  "held lim k s \<longleftrightarrow> tables_ok s \<and> memory_limit s = lim \<and>
     memory_bytes_used s = retained s + k \<and> memory_bytes_used s \<le> lim"

lemma held_other [simp]:
  "held lim k (s\<lparr>dtx_stream := x\<rparr>) = held lim k s" "held lim k (s\<lparr>dtx_identifier := i\<rparr>) = held lim k s"
  "held lim k (s\<lparr>channel_counter := c\<rparr>) = held lim k s" "held lim k (s\<lparr>outstanding_reply_ids := o'\<rparr>) = held lim k s"
  by (simp_all add: held_def tables_ok_def retained_def memory_bytes_used_def memory_limit_def)

lemma held_release: "held lim (k + n) s \<Longrightarrow> held lim k (release_bytes n s)"
  by (simp add: held_def tables_ok_def retained_def memory_bytes_used_def memory_limit_def release_bytes_def release_def)

lemma held_new: "held lim 0 (with_memory_limit x lim)"
  by (simp add: held_def tables_ok_def retained_def memory_bytes_used_def memory_limit_def with_memory_limit_def
      budget_new_def)

section \<open>Triples\<close>

definition slack :: "nat \<Rightarrow> nat \<Rightarrow> nat \<Rightarrow> 'a dtx_proc \<Rightarrow> nat \<Rightarrow> nat \<Rightarrow> bool" where
  "slack lim b k m ok err \<longleftrightarrow> (\<forall>s. held lim k s \<longrightarrow> (case m s of
       (Ok _, t) \<Rightarrow> held lim ok t | (Err _, t) \<Rightarrow> held lim err t | (Cancelled, t) \<Rightarrow> \<exists>j \<ge> b. held lim j t))"

named_theorems slack_intros

lemma slackD:
  "slack lim b k m ok err \<Longrightarrow> held lim k s \<Longrightarrow> m s = (r, t) \<Longrightarrow>
   (case r of Ok _ \<Rightarrow> held lim ok t | Err _ \<Rightarrow> held lim err t | Cancelled \<Rightarrow> \<exists>j \<ge> b. held lim j t)"
  unfolding slack_def by (fastforce split: outcome.splits)

lemma slack_ret [slack_intros]: "slack lim b k (ret x) k e"
  by (simp add: slack_def proc_simps)

lemma slack_throw [slack_intros]: "slack lim b k (throw x) ok k"
  by (simp add: slack_def proc_simps)

lemma slack_check [slack_intros]: "slack lim b k (check g) k k"
  by (simp add: slack_def proc_simps split: sum.splits)

lemma slack_modify [slack_intros]: "(\<And>s. held lim k s \<Longrightarrow> held lim k' (g s)) \<Longrightarrow> slack lim b k (modify g) k' e"
  by (simp add: slack_def proc_simps)

lemma slack_and_then [slack_intros]:
  "slack lim b k m k1 e \<Longrightarrow> (\<And>x. slack lim b k1 (f x) k2 e) \<Longrightarrow> slack lim b k (and_then m f) k2 e"
  unfolding slack_def and_then_def by (fastforce split: prod.splits outcome.splits)

lemma slack_if [slack_intros]:
  "(c \<Longrightarrow> slack lim b k m ok e) \<Longrightarrow> (\<not> c \<Longrightarrow> slack lim b k m' ok e) \<Longrightarrow> slack lim b k (if c then m else m') ok e"
  by simp

lemma slack_reading: "(\<And>s. held lim k s \<Longrightarrow> slack lim b k (g s) ok e) \<Longrightarrow> slack lim b k (reading g) ok e"
  by (simp add: slack_def proc_simps)

lemma slack_reserve [slack_intros]: "slack lim b k (reserve (try_reserve n what)) (k + n) k"
  by (auto simp: slack_def reserve_def try_reserve_def held_def tables_ok_def retained_def memory_bytes_used_def
      memory_limit_def attempt_def ok_or_def split: sum.splits option.splits if_splits)

lemma slack_settled [slack_intros]:
  "slack lim b (k + n) m (k + n) (k + n) \<Longrightarrow> slack lim b (k + n) (settled m (release_bytes n)) k k"
  unfolding slack_def settled_def by (fastforce split: prod.splits outcome.splits dest: held_release)

lemma slack_on_err [slack_intros]:
  "slack lim b (k + n) m ok (k + n) \<Longrightarrow> slack lim b (k + n) (on_err m (release_bytes n)) ok k"
  unfolding slack_def on_err_def by (fastforce split: prod.splits outcome.splits dest: held_release)

lemma slack_stream [slack_intros]: "b \<le> k \<Longrightarrow> slack lim b k (on_dtx m) k k"
  by (auto simp: slack_def on_stream_def split: prod.splits outcome.splits)

lemma slack_send [slack_intros]: "b \<le> k \<Longrightarrow> slack lim b k (send_raw d) k k"
  unfolding send_raw_def by (rule slack_intros | assumption)+

lemma slack_body: "b \<le> k \<Longrightarrow> slack lim b k (read_dtx_body L h body) k k"
  unfolding read_dtx_body_def by (rule slack_intros | assumption)+

lemma slack_header: "slack lim k k read_dtx_header k k"
  unfolding read_dtx_header_def by (rule slack_intros order_refl)+

lemma slack_deliver: "slack lim b k (deliver m) k k"
  unfolding deliver_def by (rule slack_intros)+

lemma slack_single: "slack lim k k (recv_single L h) k k"
  unfolding recv_single_def by (rule slack_intros slack_deliver slack_body | simp)+

section \<open>Fragments\<close>

lemma fragment_bytes_replicate [simp]: "fragment_bytes (replicate n None) = 0"
  by (induction n) (simp_all add: fragment_bytes_def)

lemma missing_replicate [simp]: "missing (replicate n None) = n"
  by (induction n) (simp_all add: missing_def)

lemma fragment_bytes_store:
  "i < length fs \<Longrightarrow> fs ! i = None \<Longrightarrow> fragment_bytes (fs[i := Some b]) = fragment_bytes fs + length b"
  by (induction fs arbitrary: i) (auto simp: fragment_bytes_def split: nat.splits)

lemma missing_store:
  "i < length fs \<Longrightarrow> fs ! i = None \<Longrightarrow> Suc (missing (fs[i := Some b])) = missing fs"
  by (induction fs arbitrary: i) (auto simp: missing_def split: nat.splits)

lemma accum_ok_first:
  "header_ok h \<Longrightarrow> frag_cnt h > 1 \<Longrightarrow> frag_idx h = 0 \<Longrightarrow>
   accum_ok \<lparr>a_header = h, a_fragments = replicate (unat (frag_cnt h) - 1) None, a_remaining = frag_cnt h - 1,
     a_received = 0, a_reserved_bytes = 0\<rparr>"
  by (simp add: accum_ok_def word_less_nat_alt unat_sub word_le_nat_alt)

lemma slack_first:
  assumes "header_ok h" and "frag_cnt h > 1" and "frag_idx h = 0"
  shows "slack lim b k (first_fragment h) k k"
  unfolding slack_def
proof (intro allI impI)
  fix s assume s: "held lim k s"
  show "case first_fragment h s of (Ok _, t) \<Rightarrow> held lim k t | (Err _, t) \<Rightarrow> held lim k t | (Cancelled, t) \<Rightarrow> \<exists>j\<ge>b. held lim j t"
    using s accum_ok_first [OF assms]
    by (auto simp: first_fragment_def proc_simps held_def tables_ok_def retained_def memory_bytes_used_def
        memory_limit_def amount_insert delete_unknown index_insert_distinct map_of_eq_None_iff index_insert_new)
qed

text \<open>What is known of the accumulator once a fragment was admitted.\<close>

lemma check_fragmentD:
  assumes "check_fragment h s = Inr ()"
  obtains a where "map_of (fragments s) (h_identifier h) = Some a"
    and "frag_cnt h = frag_cnt (a_header a)" and "unat (frag_idx h) - 1 < length (a_fragments a)"
    and "a_fragments a ! (unat (frag_idx h) - 1) = None" and "msg_len h \<le> msg_len (a_header a) - a_received a"
  using assms by (auto simp: check_fragment_def Let_def attempt_Inr_iff ok_or_def split: option.splits if_splits)

definition stored_accum :: "dtx_header \<Rightarrow> bytes \<Rightarrow> fragment_accum \<Rightarrow> fragment_accum" where
  "stored_accum h body a = a\<lparr>a_received := a_received a + length body, a_reserved_bytes := a_reserved_bytes a + msg_len h,
     a_fragments := (a_fragments a)[unat (frag_idx h) - 1 := Some body], a_remaining := a_remaining a - 1\<rparr>"

lemma accum_ok_store:
  assumes "accum_ok a" and "unat (frag_idx h) - 1 < length (a_fragments a)"
    and "a_fragments a ! (unat (frag_idx h) - 1) = None" and "msg_len h \<le> msg_len (a_header a) - a_received a"
    and "length body = msg_len h" and "a_remaining (stored_accum h body a) \<noteq> 0"
  shows "accum_ok (stored_accum h body a)"
proof -
  let ?f = "(a_fragments a)[unat (frag_idx h) - 1 := Some body]"
  have m: "Suc (missing ?f) = missing (a_fragments a)" by (rule missing_store [OF assms(2,3)])
  then have "unat (a_remaining a - 1) = missing ?f"
    using assms(1) by (simp add: accum_ok_def unat_sub word_le_nat_alt)
  moreover have "unat (a_remaining a - 1) \<noteq> 0" using assms(6) by (simp add: stored_accum_def unat_eq_zero)
  ultimately show ?thesis
    using assms fragment_bytes_store [OF assms(2,3), of body]
    by (auto simp: stored_accum_def accum_ok_def unat_eq_zero)
qed

lemma slack_assemble: "b \<le> k \<Longrightarrow> slack lim b (k + a_reserved_bytes a) (assemble L rid a) k k"
proof -
  assume b: "b \<le> k"
  have two: "held lim (k + n + m) s \<Longrightarrow> held lim k (release_bytes m (release_bytes n s))" for n m s
    using held_release [of lim "k + m" n s] held_release [of lim k m] by (simp add: ac_simps)
  have one: "held lim (k + n + m) s \<Longrightarrow> held lim (k + m) (release_bytes n s)" for n m s
    using held_release [of lim "k + m" n s] by (simp add: ac_simps)
  let ?r = "a_reserved_bytes a" and ?n = "msg_len (a_header a)"
  have short: "slack lim b (k + ?r) (and_then (modify (release_bytes ?r)) (\<lambda>_. throw e)) k k" for e
    by (rule slack_and_then [OF slack_modify [OF held_release] slack_throw])
  have both: "slack lim b (k + ?r + ?n) (and_then (modify (\<lambda>s. release_bytes ?n (release_bytes ?r s))) (\<lambda>_. throw e)) k k" for e
    by (rule slack_and_then [OF slack_modify [OF two] slack_throw])
  have body: "slack lim b (k + ?r + ?n) (and_then (modify (release_bytes ?r)) (\<lambda>_.
      and_then (settled (read_dtx_body L (a_header a) bs) (release_bytes ?n)) deliver)) k k" for bs
    by (rule slack_and_then [OF slack_modify [OF one]], assumption,
        rule slack_and_then [OF slack_settled [OF slack_body] slack_deliver]) (use b in simp)
  show ?thesis
    unfolding assemble_def Let_def
    by (rule slack_if [OF short slack_and_then [OF slack_on_err [OF slack_reserve]]]) (simp add: both body split: sum.splits)
qed

lemma slack_store:
  assumes s: "held lim (k + msg_len h) s" and c: "check_fragment h s = Inr ()" and l: "length body = msg_len h" and b: "b \<le> k"
  shows "case store_fragment L h body s of (Ok _, t) \<Rightarrow> held lim k t | (Err _, t) \<Rightarrow> held lim k t | (Cancelled, t) \<Rightarrow> \<exists>j\<ge>b. held lim j t"
proof -
  let ?id = "h_identifier h"
  from check_fragmentD [OF c] obtain a where a: "map_of (fragments s) ?id = Some a" "unat (frag_idx h) - 1 < length (a_fragments a)"
    "a_fragments a ! (unat (frag_idx h) - 1) = None" "msg_len h \<le> msg_len (a_header a) - a_received a" by blast
  have t: "tables_ok s" using s by (simp add: held_def)
  have ok: "accum_ok a" using t map_of_SomeD [OF a(1)] by (auto simp: tables_ok_def)
  then have le: "a_received a + length body \<le> usize_MAX" "a_reserved_bytes a + msg_len h \<le> usize_MAX"
    using a(4) l by (auto simp: accum_ok_def header_ok_def MAX_DTX_MESSAGE_SIZE_def)
  have sum: "amount a_reserved_bytes (fragments s) = a_reserved_bytes a + amount a_reserved_bytes (AList.delete ?id (fragments s))"
    using t a(1) by (intro amount_delete) (auto simp: tables_ok_def)
  let ?a = "stored_accum h body a"
  show ?thesis
  proof (cases "a_remaining ?a = 0")
    case True
    let ?s = "s\<lparr>fragments := AList.delete ?id (fragments s)\<rparr>"
    have "held lim (k + a_reserved_bytes ?a) ?s"
      using s sum t by (auto simp: held_def tables_ok_def retained_def memory_bytes_used_def memory_limit_def stored_accum_def
          distinct_delete dest: subsetD [OF set_delete] intro: le_trans [OF length_delete])
    then have "case assemble L ?id ?a ?s of (Ok _, t) \<Rightarrow> held lim k t | (Err _, t) \<Rightarrow> held lim k t | (Cancelled, t) \<Rightarrow> \<exists>j\<ge>b. held lim j t"
      using slack_assemble [OF b, of lim ?a L ?id] by (simp add: slack_def)
    then show ?thesis
      using a(1) le True by (simp add: store_fragment_def proc_simps Let_def stored_accum_def usize_checked_add_def)
  next
    case False
    have "accum_ok ?a" using ok a(2-4) l False by (rule accum_ok_store)
    then have "held lim k (s\<lparr>fragments := index_insert ?id ?a (fragments s)\<rparr>)"
      using s sum t a(1) by (auto simp: held_def tables_ok_def retained_def memory_bytes_used_def memory_limit_def
          amount_insert index_insert_distinct length_insert_known stored_accum_def dest!: set_insert_map)
    then show ?thesis
      using a(1) le False by (simp add: store_fragment_def proc_simps Let_def stored_accum_def usize_checked_add_def)
  qed
qed

lemma slack_next: "slack lim k k (next_fragment L h) k k"
  unfolding slack_def
proof (intro allI impI)
  fix s assume s: "held lim k s"
  let ?n = "msg_len h" and ?ok = "\<lambda>r. case r of (Ok _, t) \<Rightarrow> held lim k t | (Err _, t) \<Rightarrow> held lim k t | (Cancelled, t) \<Rightarrow> \<exists>j\<ge>k. held lim j t"
  show "?ok (next_fragment L h s)"
  proof (cases "check_fragment h s")
    case (Inl e)
    then show ?thesis using s by (simp add: next_fragment_def proc_simps)
  next
    case (Inr u)
    show ?thesis
    proof (cases "reserve (try_reserve ?n ''fragment body'') s")
      case (Pair r s1)
      note res = slackD [OF slack_reserve [of lim k k ?n "''fragment body''"] s Pair]
      show ?thesis
      proof (cases r)
        case (Ok x)
        then have s1: "held lim (k + ?n) s1" and frag: "fragments s1 = fragments s"
          using res Pair by (auto simp: reserve_def split: sum.splits)
        obtain r2 s2 where rd: "on_err (on_dtx (sock_read_exact ?n)) (release_bytes ?n) s1 = (r2, s2)" by fastforce
        have read: "case r2 of Ok _ \<Rightarrow> held lim (k + ?n) s2 | Err _ \<Rightarrow> held lim k s2 | Cancelled \<Rightarrow> \<exists>j\<ge>k. held lim j s2"
          by (rule slackD [OF slack_on_err [OF slack_stream] s1 rd]) simp
        have next': "next_fragment L h s = and_then (on_err (on_dtx (sock_read_exact ?n)) (release_bytes ?n)) (store_fragment L h) s1"
          using Inr Pair Ok by (simp add: next_fragment_def and_then_run proc_runs)
        show ?thesis
        proof (cases r2)
          case (Ok body)
          have "length body = ?n" "fragments s2 = fragments s1"
            using rd Ok by (auto simp: on_err_def on_stream_def sock_read_exact_def split: prod.splits outcome.splits dest: rx_exact_length)
          then have "?ok (store_fragment L h body s2)"
            using read Ok Inr frag by (intro slack_store) (auto simp: check_fragment_def)
          then show ?thesis using next' rd Ok by simp
        qed (use next' rd read in simp_all)
      qed (use Inr Pair res in \<open>auto simp: next_fragment_def and_then_run proc_runs\<close>)
    qed
  qed
qed

lemma slack_step: "slack lim k k (recv_step L) k k"
  unfolding slack_def
proof (intro allI impI)
  fix s assume s: "held lim k s"
  obtain r s1 where rd: "read_dtx_header s = (r, s1)" by fastforce
  note h = slackD [OF slack_header s rd]
  show "case recv_step L s of (Ok _, t) \<Rightarrow> held lim k t | (Err _, t) \<Rightarrow> held lim k t | (Cancelled, t) \<Rightarrow> \<exists>j\<ge>k. held lim j t"
  proof (cases r)
    case (Ok hd)
    then have ok: "header_ok hd" using rd
      by (auto simp: read_dtx_header_def and_then_Ok_iff proc_runs split: if_splits sum.splits dest: parse_header_ok)
    have "slack lim k k (if frag_cnt hd \<le> 1 then recv_single L hd else if frag_idx hd = 0 then first_fragment hd else next_fragment L hd) k k"
      using ok by (intro slack_if slack_single slack_first slack_next) auto
    then show ?thesis using h rd Ok by (simp add: recv_step_def slack_def)
  qed (use h rd in \<open>simp_all add: recv_step_def\<close>)
qed

section \<open>Whole operations\<close>

lemma slack_loop:
  assumes step: "slack lim k k step k k"
    and unfold: "\<And>s. f s = and_then step (\<lambda>r t. case r of Some m \<Rightarrow> ret m t | None \<Rightarrow> f t) s"
    and less: "\<And>s r t. step s = (Ok r, t) \<Longrightarrow> dtx_left t < dtx_left s"
  shows "slack lim k k f k k"
proof -
  have "held lim k s \<Longrightarrow> case f s of (Ok _, t) \<Rightarrow> held lim k t | (Err _, t) \<Rightarrow> held lim k t | (Cancelled, t) \<Rightarrow> \<exists>j\<ge>k. held lim j t" for s
  proof (induction "dtx_left s" arbitrary: s rule: less_induct)
    case less
    obtain r t where r: "step s = (r, t)" by fastforce
    note st = slackD [OF step less.prems r]
    show ?case
    proof (cases r)
      case (Ok x)
      then show ?thesis
        using st less.hyps [OF assms(3), of x t] r unfold [of s] by (auto simp: proc_runs split: option.splits)
    qed (use st r unfold [of s] in simp_all)
  qed
  then show ?thesis by (simp add: slack_def)
qed

lemma held_clear: "held lim k s \<Longrightarrow> held lim k (clear_fragments s)"
proof -
  have "fold (\<lambda>(_, a). release_bytes (a_reserved_bytes a)) fs t = release_bytes (amount a_reserved_bytes fs) t"
    for fs :: "(u32 \<times> fragment_accum) list" and t
    by (induction fs arbitrary: t) (auto simp: release_bytes_def release_def)
  then show "held lim k s \<Longrightarrow> held lim k (clear_fragments s)"
    by (auto simp: clear_fragments_def release_bytes_def release_def held_def tables_ok_def retained_def
        memory_bytes_used_def memory_limit_def)
qed

lemma slack_recover: "slack lim b k m ok k \<Longrightarrow> (\<And>s. held lim k s \<Longrightarrow> held lim k (g s)) \<Longrightarrow> slack lim b k (on_err m g) ok k"
  unfolding slack_def on_err_def by (auto split: prod.splits outcome.splits) metis

lemma slack_receive: "slack lim k k (recv_from_stream L) k k"
  unfolding recv_from_stream_def
  by (rule slack_recover [OF slack_loop [OF slack_step] held_clear])
    (rule recv_from_stream_inner.simps, erule recv_step_less, assumption)

lemma slack_buffer_reply: "slack lim b k (buffer_reply lay msg) k k"
  unfolding slack_def
proof (intro allI impI)
  fix s assume s: "held lim k s"
  let ?id = "m_identifier msg"
  have t: "distinct (map fst (pending_replies s))" using s by (simp add: held_def tables_ok_def)
  have old: "amount b_reserved_bytes (pending_replies s) =
      (case map_of (pending_replies s) ?id of Some p \<Rightarrow> b_reserved_bytes p | None \<Rightarrow> 0) +
      amount b_reserved_bytes (AList.delete ?id (pending_replies s))"
    using amount_delete [OF t, of ?id] delete_unknown [of "pending_replies s" ?id] by (auto split: option.splits)
  have "length (index_insert ?id b (pending_replies s)) \<le> MAX_PENDING_REPLIES"
    if "\<not> (map_of (pending_replies s) ?id = None \<and> MAX_PENDING_REPLIES \<le> length (pending_replies s))" for b
    using that s index_insert_length [of ?id b "pending_replies s"] length_insert_known [of "pending_replies s" ?id _ b]
    by (cases "map_of (pending_replies s) ?id") (auto simp: held_def tables_ok_def)
  then show "case buffer_reply lay msg s of (Ok _, t) \<Rightarrow> held lim k t | (Err _, t) \<Rightarrow> held lim k t | (Cancelled, t) \<Rightarrow> \<exists>j\<ge>b. held lim j t"
    using s t old
    by (auto simp: buffer_reply_def proc_simps Let_def reserve_def adjust_replacement_budget_def projected_use_def
        held_def tables_ok_def retained_def memory_bytes_used_def memory_limit_def amount_insert index_insert_distinct
        attempt_def ok_or_def split: sum.splits option.splits if_splits)
qed

lemma held_drop: "held lim k s \<Longrightarrow> held lim k (drop_oldest s)"
  by (auto simp: drop_oldest_def held_def tables_ok_def retained_def memory_bytes_used_def memory_limit_def
      release_bytes_def release_def split: list.splits)

lemma slack_queue_message: "slack lim b k (queue_message lay msg) k k"
  unfolding slack_def
proof (intro allI impI)
  fix s assume s: "held lim k s"
  let ?full = "length (queued_messages s) \<ge> MAX_QUEUED_MESSAGES"
  let ?s = "if ?full then drop_oldest s else s"
  have room: "length (queued_messages ?s) < MAX_QUEUED_MESSAGES"
    using s by (auto simp: drop_oldest_def held_def tables_ok_def release_bytes_def MAX_QUEUED_MESSAGES_def split: list.splits)
  have held: "held lim k ?s" using s held_drop by simp
  have stored: "case and_then (reserve (try_reserve n what)) (\<lambda>_. modify (\<lambda>s. s\<lparr>queued_messages :=
      queued_messages s @ [\<lparr>b_message = msg, b_reserved_bytes = n\<rparr>]\<rparr>)) ?s of
      (Ok _, t) \<Rightarrow> held lim k t | (Err _, t) \<Rightarrow> held lim k t | (Cancelled, t) \<Rightarrow> \<exists>j\<ge>b. held lim j t" for n what
  proof (cases "try_reserve n what (memory_budget ?s)")
    case (Inl e)
    then show ?thesis using held by (simp add: reserve_def proc_simps)
  next
    case (Inr m)
    then have "held lim (k + n) (?s\<lparr>memory_budget := m\<rparr>)"
      using slackD [OF slack_reserve [of lim b k n what] held] by (fastforce simp: reserve_def)
    with Inr room show ?thesis
      by (simp add: reserve_def proc_simps held_def tables_ok_def retained_def memory_bytes_used_def memory_limit_def)
  qed
  show "case queue_message lay msg s of (Ok _, t) \<Rightarrow> held lim k t | (Err _, t) \<Rightarrow> held lim k t | (Cancelled, t) \<Rightarrow> \<exists>j\<ge>b. held lim j t"
  proof (cases "dtx_message_memory_size lay msg")
    case (Inr n)
    let ?d = "if ?full then (case queued_messages s of q # _ \<Rightarrow> b_reserved_bytes q | [] \<Rightarrow> 0) else 0"
    show ?thesis
    proof (cases "ensure_budget_after_release ?d n ''queued message'' (memory_budget s)")
      case (Inr u)
      with \<open>dtx_message_memory_size lay msg = Inr n\<close> show ?thesis
        using stored [of n "''queued message''"]
        by (simp add: queue_message_def and_then_run proc_runs Let_def del: not_le if_split)
    qed (use s Inr in \<open>simp add: queue_message_def and_then_run proc_runs Let_def\<close>)
  qed (use s in \<open>simp add: queue_message_def proc_simps\<close>)
qed

lemma slack_wait_step: "slack lim k k (wait_step L lay rid) k k"
  unfolding wait_step_def send_ack_def
  by (rule slack_and_then [OF slack_receive], rule slack_reading)
    ((rule slack_intros slack_buffer_reply slack_queue_message order_refl | simp)+)

lemma slack_wait: "slack lim k k (wait_for_reply L lay rid) k k"
proof -
  have loop: "slack lim k k (wait_loop L lay rid) k k"
    by (rule slack_loop [OF slack_wait_step]) (rule wait_loop.simps, erule wait_step_less)
  show ?thesis
    unfolding slack_def
  proof (intro allI impI)
    fix s assume s: "held lim k s"
    show "case wait_for_reply L lay rid s of (Ok _, t) \<Rightarrow> held lim k t | (Err _, t) \<Rightarrow> held lim k t | (Cancelled, t) \<Rightarrow> \<exists>j\<ge>k. held lim j t"
    proof (cases "map_of (pending_replies s) rid")
      case None
      then show ?thesis using s loop by (simp add: wait_for_reply_def remove_pending_reply_def slack_def)
    next
      case (Some b)
      then have "amount b_reserved_bytes (pending_replies s) =
          b_reserved_bytes b + amount b_reserved_bytes (AList.delete rid (pending_replies s))"
        using s by (intro amount_delete) (auto simp: held_def tables_ok_def)
      then have "held lim k (release_bytes (b_reserved_bytes b) (s\<lparr>pending_replies := AList.delete rid (pending_replies s)\<rparr>))"
        using s by (auto simp: held_def tables_ok_def retained_def memory_bytes_used_def memory_limit_def release_bytes_def
            release_def distinct_delete intro: le_trans [OF length_delete])
      with Some show ?thesis by (simp add: wait_for_reply_def remove_pending_reply_def)
    qed
  qed
qed

lemma slack_recv: "slack lim k k (dtx_recv L lay) k k"
proof -
  have "slack lim k k (recv_round L lay) k k"
    unfolding recv_round_def
    by (rule slack_and_then [OF slack_receive], rule slack_reading)
      ((rule slack_intros slack_buffer_reply order_refl | simp)+)
  then have loop: "slack lim k k (recv_rounds L lay) k k"
    by (rule slack_loop) (rule recv_rounds.simps, erule recv_round_less)
  then show ?thesis
    by (auto simp: slack_def dtx_recv_def pop_queued_message_def held_def tables_ok_def retained_def memory_bytes_used_def
        memory_limit_def release_bytes_def release_def split: list.splits)
qed

lemma slack_next_id: "slack lim b k next_id k k" "slack lim b k next_channel_code k k"
  by (auto simp: slack_def next_id_def next_channel_code_def Let_def)

lemma slack_await: "slack lim k k (await_reply L lay rid) k k"
  unfolding await_reply_def by (rule slack_and_then [OF slack_modify slack_recover [OF slack_wait]]) simp_all

lemmas slack_calls = slack_next_id slack_await

lemma slack_operations:
  "slack lim k k (request_channel L lay name) k k" "slack lim k k (method_call L lay code sel args) k k"
  "slack lim k k (method_call_async L code sel args) k k" "slack lim k k (send_ack msg) k k"
  unfolding request_channel_def method_call_def method_call_async_def send_ack_def Let_def
  by (rule slack_intros slack_calls order_refl)+

end
