(* ===== verification/Dtx_Reassembly.thy ===== *)
theory Dtx_Reassembly
  imports Dtx_Budget
begin

text \<open>
  A fragmented message is put together again: whatever the order in which its fragments arrive and
  however the transport cuts the bytes, the receiver delivers the message whose body is the
  concatenation of the fragments, and its tables and its budget are as before.
\<close>

section \<open>Reading from a given input\<close>

definition with_rx :: "dtx \<Rightarrow> rx_event list \<Rightarrow> dtx" where
  "with_rx s es = s\<lparr>dtx_stream := (dtx_stream s)\<lparr>rx := es\<rparr>\<rparr>"

abbreviation arriving :: "dtx \<Rightarrow> bytes \<Rightarrow> bool" where
  "arriving s bs \<equiv> carries (rx (dtx_stream s)) bs"

lemma with_rx_simps [simp]:
  "fragments (with_rx s es) = fragments s" "memory_budget (with_rx s es) = memory_budget s"
  "rx (dtx_stream (with_rx s es)) = es" "pending_replies (with_rx s es) = pending_replies s"
  "queued_messages (with_rx s es) = queued_messages s" "held lim k (with_rx s es) = held lim k s"
  "outstanding_reply_ids (with_rx s es) = outstanding_reply_ids s"
  by (simp_all add: with_rx_def)

lemma read_exact_at:
  assumes "arriving s (xs @ ys)" and "n = length xs"
  shows "\<exists>es. on_dtx (sock_read_exact n) s = (Ok xs, with_rx s es) \<and> carries es ys"
  using sock_read_exact_carries [OF assms] by (auto simp: on_stream_def with_rx_def)

lemma read_header_at:
  assumes "arriving s (header_wire h @ ys)" and "header_ok h" and "header_len h = 32"
  shows "\<exists>es. read_dtx_header s = (Ok h, with_rx s es) \<and> carries es ys"
  using read_exact_at [OF assms(1), of 32] parse_header_bytes [OF assms(2)] assms(3)
  by (auto simp: read_dtx_header_def and_then_run proc_runs)

section \<open>A message in fragments\<close>

definition part_header :: "dtx_header \<Rightarrow> nat \<Rightarrow> bytes \<Rightarrow> dtx_header" where
  "part_header h i b = h\<lparr>frag_idx := of_nat (Suc i), msg_len := length b\<rparr>"

definition part_wire :: "dtx_header \<Rightarrow> bytes list \<Rightarrow> nat \<Rightarrow> bytes" where
  "part_wire h bs i = header_wire (part_header h i (bs ! i)) @ bs ! i"

definition fragmented :: "dtx_header \<Rightarrow> bytes list \<Rightarrow> bool" where
  "fragmented h bs \<longleftrightarrow> header_ok h \<and> header_len h = 32 \<and> frag_idx h = 0 \<and> frag_cnt h > 1 \<and>
     length bs = unat (frag_cnt h) - 1 \<and> length (concat bs) = msg_len h"

definition arrived :: "bytes list \<Rightarrow> nat set \<Rightarrow> bytes option list" where
  "arrived bs D = map (\<lambda>i. if i \<in> D then Some (bs ! i) else None) [0..<length bs]"

lemma arrived_store: "i < length bs \<Longrightarrow> (arrived bs D)[i := Some (bs ! i)] = arrived bs (insert i D)"
  by (rule nth_equalityI) (auto simp: arrived_def nth_list_update)

lemma arrived_inter: "arrived bs (D \<inter> {..<length bs}) = arrived bs D"
  by (rule nth_equalityI) (auto simp: arrived_def)

lemma arrived_empty: "arrived bs {} = replicate (length bs) None"
  by (rule nth_equalityI) (auto simp: arrived_def)

lemma arrived_all: "arrived bs {..<length bs} = map Some bs"
  by (rule nth_equalityI) (auto simp: arrived_def)

lemma collect_all: "collect_fragments i (map Some bs) = Inr (concat bs)"
  by (induction bs arbitrary: i) auto

lemma fragment_bytes_all: "fragment_bytes (map Some bs) = length (concat bs)"
  by (induction bs) (simp_all add: fragment_bytes_def)

lemma fragment_bytes_le: "fragment_bytes (arrived bs D) \<le> length (concat bs)"
proof -
  have "length (concat bs) = sum_list (map (\<lambda>i. length (bs ! i)) [0..<length bs])"
    using map_nth_apply [of length bs] by (simp add: length_concat)
  then show ?thesis
    unfolding fragment_bytes_def arrived_def by (auto simp: comp_def intro!: sum_list_mono)
qed

lemma part_length: "b \<in> set bs \<Longrightarrow> length b \<le> length (concat bs)"
  by (induction bs) auto

lemma part_header_ok:
  assumes "fragmented h bs" and "i < length bs"
  shows "header_ok (part_header h i (bs ! i))" "unat (frag_idx (part_header h i (bs ! i))) = Suc i"
    "frag_cnt (part_header h i (bs ! i)) > 1" "frag_idx (part_header h i (bs ! i)) \<noteq> 0"
proof -
  have c: "unat (frag_cnt h) \<le> 1024" "Suc i < unat (frag_cnt h)"
    using assms by (auto simp: fragmented_def header_ok_def MAX_DTX_FRAGMENTS_def)
  then show i: "unat (frag_idx (part_header h i (bs ! i))) = Suc i"
    by (simp add: part_header_def unat_of_nat del: of_nat_Suc)
  then show nz: "frag_idx (part_header h i (bs ! i)) \<noteq> 0" by auto
  show "frag_cnt (part_header h i (bs ! i)) > 1" using assms by (simp add: fragmented_def part_header_def)
  have "length (bs ! i) \<le> msg_len h" using part_length [of "bs ! i" bs] assms by (simp add: fragmented_def)
  then show "header_ok (part_header h i (bs ! i))"
    using assms c i nz by (auto simp: fragmented_def header_ok_def word_less_nat_alt part_header_def simp del: of_nat_Suc)
qed

text \<open>The state while a message is being received: \<open>D\<close> are the fragments that have arrived.\<close>

definition assembling :: "nat \<Rightarrow> nat \<Rightarrow> (u32 \<times> fragment_accum) list \<Rightarrow> nat \<Rightarrow> dtx_header \<Rightarrow> bytes list \<Rightarrow> nat set \<Rightarrow> dtx \<Rightarrow> bool" where
  "assembling lim k F u h bs D s \<longleftrightarrow> held lim k s \<and> (\<exists>a. fragments s = F @ [(h_identifier h, a)] \<and>
     a_header a = h \<and> a_fragments a = arrived bs D) \<and> memory_bytes_used s = u + fragment_bytes (arrived bs D)"

lemma recv_first:
  assumes f: "fragmented h bs" and s: "held lim k s" and new: "map_of (fragments s) (h_identifier h) = None"
    and room: "length (fragments s) < 64" and arr: "arriving s (header_wire h @ ys)"
  shows "\<exists>t. recv_step L s = (Ok None, t) \<and> arriving t ys \<and> assembling lim k (fragments s) (memory_bytes_used s) h bs {} t"
proof -
  from read_header_at [OF arr] f obtain es where rd: "read_dtx_header s = (Ok h, with_rx s es)" "carries es ys"
    by (auto simp: fragmented_def)
  let ?a = "\<lparr>a_header = h, a_fragments = replicate (unat (frag_cnt h) - 1) None, a_remaining = frag_cnt h - 1,
    a_received = 0, a_reserved_bytes = 0\<rparr>"
  let ?t = "(with_rx s es)\<lparr>fragments := fragments s @ [(h_identifier h, ?a)]\<rparr>"
  have run: "first_fragment h (with_rx s es) = (Ok None, ?t)"
    using new room by (simp add: first_fragment_def proc_simps MAX_IN_FLIGHT_FRAGMENTED_MESSAGES_def
        index_insert_new map_of_eq_None_iff)
  have first: "slack lim k k (first_fragment h) k k" using f by (intro slack_first) (auto simp: fragmented_def)
  have "held lim k (with_rx s es)" using s by simp
  from slackD [OF first this run] have "held lim k ?t" by simp
  then have "assembling lim k (fragments s) (memory_bytes_used s) h bs {} ?t"
    using f by (simp add: assembling_def arrived_empty fragmented_def memory_bytes_used_def)
  then show ?thesis
    using rd run f by (intro exI [of _ ?t]) (auto simp: recv_step_def fragmented_def with_rx_def)
qed

lemma entry_last:
  assumes "x \<notin> fst ` set F"
  shows "map_of (F @ [(x, a)]) x = Some a" "index_insert x b (F @ [(x, a)]) = F @ [(x, b)]"
    "AList.delete x (F @ [(x, a)]) = F"
  using assms by (induction F) (auto simp: AList.delete_eq map_of_append map_add_def)

lemma bytes_insert:
  assumes "i < length bs" and "i \<notin> D"
  shows "fragment_bytes (arrived bs (insert i D)) = fragment_bytes (arrived bs D) + length (bs ! i)"
    and "Suc (missing (arrived bs (insert i D))) = missing (arrived bs D)"
proof -
  have "i < length (arrived bs D)" "arrived bs D ! i = None" using assms by (auto simp: arrived_def)
  then show "fragment_bytes (arrived bs (insert i D)) = fragment_bytes (arrived bs D) + length (bs ! i)"
    "Suc (missing (arrived bs (insert i D))) = missing (arrived bs D)"
    unfolding arrived_store [OF assms(1), symmetric] by (rule fragment_bytes_store, rule missing_store)
qed

lemma missing_arrived: "missing (arrived bs D) = 0 \<longleftrightarrow> {..<length bs} \<subseteq> D"
  by (auto simp: missing_def arrived_def filter_empty_conv split: if_splits)

text \<open>A fragment is admitted, read, and handed to \<open>store_fragment\<close>.\<close>

lemma assemblingD:
  assumes "assembling lim k F u h bs D s"
  obtains a where "fragments s = F @ [(h_identifier h, a)]" "a_header a = h" "a_fragments a = arrived bs D"
    "accum_ok a" "h_identifier h \<notin> fst ` set F" "map_of (fragments s) (h_identifier h) = Some a"
    "held lim k s" "memory_bytes_used s = u + fragment_bytes (arrived bs D)"
proof -
  from assms obtain a where a: "fragments s = F @ [(h_identifier h, a)]" "a_header a = h" "a_fragments a = arrived bs D"
    "held lim k s" "memory_bytes_used s = u + fragment_bytes (arrived bs D)" by (auto simp: assembling_def)
  then have ok: "accum_ok a" "h_identifier h \<notin> fst ` set F" by (auto simp: held_def tables_ok_def)
  have "map_of (fragments s) (h_identifier h) = Some a" unfolding a(1) by (rule entry_last(1) [OF ok(2)])
  then show ?thesis using that [OF a(1-3) ok _ a(4,5)] by simp
qed

lemma admit_part:
  assumes f: "fragmented h bs" and s: "assembling lim k F u h bs D s" and i: "i < length bs" "i \<notin> D"
  shows "check_fragment (part_header h i (bs ! i)) s = Inr ()"
proof -
  from assemblingD [OF s] obtain a where a: "a_header a = h" "a_fragments a = arrived bs D" "accum_ok a"
    "map_of (fragments s) (h_identifier h) = Some a" by metis
  have "fragment_bytes (arrived bs D) + length (bs ! i) \<le> msg_len h"
    using bytes_insert(1) [OF i] fragment_bytes_le [of bs "insert i D"] f by (simp add: fragmented_def)
  then show ?thesis
    using a i part_header_ok(2) [OF f i(1)]
    by (auto simp: check_fragment_def part_header_def accum_ok_def arrived_def Let_def simp del: of_nat_Suc)
qed

lemma read_part:
  assumes f: "fragmented h bs" and s: "assembling lim k F u h bs D s" and i: "i < length bs" "i \<notin> D"
    and room: "u + msg_len h \<le> lim" "lim \<le> usize_MAX" and arr: "arriving s (part_wire h bs i @ ys)"
  shows "\<exists>es. recv_step L s = store_fragment L (part_header h i (bs ! i)) (bs ! i)
           ((with_rx s es)\<lparr>memory_budget := (memory_budget s)\<lparr>used := memory_bytes_used s + length (bs ! i)\<rparr>\<rparr>) \<and> carries es ys"
proof -
  let ?p = "part_header h i (bs ! i)"
  have "header_len ?p = 32" using f by (simp add: part_header_def fragmented_def)
  from read_header_at [OF _ part_header_ok(1) [OF f i(1)] this] arr
  obtain es1 where rd: "read_dtx_header s = (Ok ?p, with_rx s es1)" "carries es1 (bs ! i @ ys)"
    by (auto simp: part_wire_def)
  let ?b = "(memory_budget s)\<lparr>used := memory_bytes_used s + length (bs ! i)\<rparr>"
  let ?s = "(with_rx s es1)\<lparr>memory_budget := ?b\<rparr>"
  have used: "memory_bytes_used s + length (bs ! i) \<le> lim" "limit (memory_budget s) = lim"
    using s bytes_insert(1) [OF i] fragment_bytes_le [of bs "insert i D"] f room(1)
    by (auto simp: assembling_def fragmented_def held_def memory_limit_def)
  have p: "msg_len ?p = length (bs ! i)" by (simp add: part_header_def)
  have reserve: "reserve (try_reserve (msg_len ?p) ''fragment body'') (with_rx s es1) = (Ok (), ?s)"
    using used room(2) by (simp add: p reserve_def try_reserve_def memory_bytes_used_def usize_checked_add_def)
  have "check_fragment ?p (with_rx s es1) = check_fragment ?p s" by (simp add: check_fragment_def)
  then have ok: "check_fragment ?p (with_rx s es1) = Inr ()" using admit_part [OF f s i] by simp
  from read_exact_at [of ?s "bs ! i" ys "msg_len ?p"] rd(2) p obtain es
    where es: "on_dtx (sock_read_exact (msg_len ?p)) ?s = (Ok (bs ! i), with_rx ?s es)" "carries es ys" by auto
  have "with_rx ?s es = (with_rx s es)\<lparr>memory_budget := ?b\<rparr>" by (simp add: with_rx_def)
  moreover have "recv_step L s = next_fragment L ?p (with_rx s es1)"
    using rd(1) part_header_ok(3,4) [OF f i(1)] by (auto simp: recv_step_def)
  moreover have "next_fragment L ?p (with_rx s es1) = store_fragment L ?p (bs ! i) (with_rx ?s es)"
    using ok reserve es(1) by (simp add: next_fragment_def proc_runs on_err_def and_then_run)
  ultimately show ?thesis using es(2) by auto
qed

lemma recv_part:
  assumes f: "fragmented h bs" and s: "assembling lim k F u h bs D s" and i: "i < length bs" "i \<notin> D"
    and room: "u + msg_len h \<le> lim" "lim \<le> usize_MAX" and arr: "arriving s (part_wire h bs i @ ys)"
    and more': "\<not> {..<length bs} \<subseteq> insert i D"
  shows "\<exists>t. recv_step L s = (Ok None, t) \<and> arriving t ys \<and> assembling lim k F u h bs (insert i D) t"
proof -
  let ?p = "part_header h i (bs ! i)"
  from read_part [OF f s i room arr] obtain es where es: "carries es ys" and
    run: "recv_step L s = store_fragment L ?p (bs ! i)
           ((with_rx s es)\<lparr>memory_budget := (memory_budget s)\<lparr>used := memory_bytes_used s + length (bs ! i)\<rparr>\<rparr>)" by auto
  let ?s = "(with_rx s es)\<lparr>memory_budget := (memory_budget s)\<lparr>used := memory_bytes_used s + length (bs ! i)\<rparr>\<rparr>"
  from assemblingD [OF s] obtain a where a: "fragments s = F @ [(h_identifier h, a)]" "a_header a = h"
    "a_fragments a = arrived bs D" "accum_ok a" "h_identifier h \<notin> fst ` set F"
    "map_of (fragments s) (h_identifier h) = Some a" "held lim k s" "memory_bytes_used s = u + fragment_bytes (arrived bs D)"
    by metis
  have id: "h_identifier ?p = h_identifier h" "msg_len ?p = length (bs ! i)" by (simp_all add: part_header_def)
  let ?a = "stored_accum ?p (bs ! i) a"
  have fr: "a_fragments ?a = arrived bs (insert i D)" "a_header ?a = h"
    using a part_header_ok(2) [OF f i(1)] arrived_store [OF i(1)] by (simp_all add: stored_accum_def)
  have "unat (a_remaining a) = Suc (missing (arrived bs (insert i D)))"
    using a(3,4) bytes_insert(2) [OF i] by (simp add: accum_ok_def)
  then have rem: "a_remaining ?a \<noteq> 0"
    using missing_arrived [of bs "insert i D"] more' by (auto simp: stored_accum_def)
  have le: "a_received a + length (bs ! i) \<le> usize_MAX" "a_reserved_bytes a + length (bs ! i) \<le> usize_MAX"
    using a(3,4) bytes_insert(1) [OF i] fragment_bytes_le [of bs "insert i D"] f room
    by (auto simp: accum_ok_def fragmented_def)
  let ?t = "?s\<lparr>fragments := F @ [(h_identifier h, ?a)]\<rparr>"
  have t: "recv_step L s = (Ok None, ?t)"
    unfolding run using a(1,6) le rem id entry_last(2) [OF a(5)]
    by (simp add: store_fragment_def proc_simps Let_def stored_accum_def usize_checked_add_def)
  have "held lim k ?t" using slackD [OF slack_step a(7) t] by simp
  then have "assembling lim k F u h bs (insert i D) ?t"
    using fr a(8) bytes_insert(1) [OF i] by (auto simp: assembling_def memory_bytes_used_def)
  then show ?thesis using t es by auto
qed

lemma recv_last:
  assumes f: "fragmented h bs" and s: "assembling lim k F u h bs D s" and i: "i < length bs" "i \<notin> D"
    and room: "u + 2 * msg_len h \<le> lim" "lim \<le> usize_MAX" and arr: "arriving s (part_wire h bs i @ ys)"
    and last: "insert i D = {..<length bs}"
    and m: "decode_dtx_body_from_slice L h (concat bs) = Inr m"
      "normalize_incoming_channel_code (m_channel_code m) (m_conversation_idx m) = Inr c"
  shows "\<exists>t. recv_step L s = (Ok (Some (m\<lparr>m_channel_code := c\<rparr>)), t) \<and> arriving t ys \<and>
           held lim k t \<and> fragments t = F \<and> memory_bytes_used t = u"
proof -
  let ?p = "part_header h i (bs ! i)"
  from read_part [OF f s i _ room(2) arr, of L] room(1) obtain es where es: "carries es ys" and
    run: "recv_step L s = store_fragment L ?p (bs ! i)
           ((with_rx s es)\<lparr>memory_budget := (memory_budget s)\<lparr>used := memory_bytes_used s + length (bs ! i)\<rparr>\<rparr>)" by auto
  let ?s = "(with_rx s es)\<lparr>memory_budget := (memory_budget s)\<lparr>used := memory_bytes_used s + length (bs ! i)\<rparr>\<rparr>"
  from assemblingD [OF s] obtain a where a: "fragments s = F @ [(h_identifier h, a)]" "a_header a = h"
    "a_fragments a = arrived bs D" "accum_ok a" "h_identifier h \<notin> fst ` set F"
    "map_of (fragments s) (h_identifier h) = Some a" "held lim k s" "memory_bytes_used s = u + fragment_bytes (arrived bs D)"
    by metis
  have id: "h_identifier ?p = h_identifier h" "msg_len ?p = length (bs ! i)" by (simp_all add: part_header_def)
  let ?a = "stored_accum ?p (bs ! i) a"
  have fr: "a_fragments ?a = map Some bs" "a_header ?a = h"
    using a part_header_ok(2) [OF f i(1)] arrived_store [OF i(1)] last arrived_all by (simp_all add: stored_accum_def)
  have "missing (arrived bs (insert i D)) = 0" using missing_arrived [of bs "insert i D"] last by simp
  then have "unat (a_remaining a) = 1"
    using a(3,4) bytes_insert(2) [OF i] by (simp add: accum_ok_def)
  then have "a_remaining a = 1" by (simp add: word_unat_eq_iff)
  then have rem: "a_remaining ?a = 0" by (simp add: stored_accum_def)
  have all: "fragment_bytes (arrived bs D) + length (bs ! i) = msg_len h"
    using bytes_insert(1) [OF i] fragment_bytes_all [of bs] last f arrived_all [of bs] by (simp add: fragmented_def)
  then have le: "a_received a + length (bs ! i) \<le> usize_MAX" "a_reserved_bytes a + length (bs ! i) \<le> usize_MAX"
    and rec: "a_received ?a = msg_len h" "a_reserved_bytes ?a = msg_len h"
    using a(3,4) room id by (auto simp: accum_ok_def stored_accum_def)
  have used: "memory_bytes_used s + length (bs ! i) = u + msg_len h" "limit (memory_budget s) = lim"
    using a(7,8) all by (auto simp: held_def memory_limit_def)
  let ?t = "(with_rx s es)\<lparr>memory_budget := (memory_budget s)\<lparr>used := u\<rparr>, fragments := F\<rparr>"
  have body: "length (concat bs) = msg_len h" "0 < msg_len h" using f by (simp_all add: fragmented_def header_ok_def)
  then have "concat bs \<noteq> []" by (metis length_0_conv less_irrefl)
  then have body': "read_dtx_body L h (concat bs) = check (\<lambda>_. decode_dtx_body_from_slice L h (concat bs))"
    unfolding read_dtx_body_def by (simp only: if_False simp_thms)
  have "store_fragment L ?p (bs ! i) ?s = assemble L (h_identifier h) ?a (?s\<lparr>fragments := F\<rparr>)"
    using a(1,6) le rem id entry_last(3) [OF a(5)]
    by (simp add: store_fragment_def proc_simps Let_def stored_accum_def usize_checked_add_def)
  also have "\<dots> = (Ok (Some (m\<lparr>m_channel_code := c\<rparr>)), ?t)"
    using fr rec used room body m collect_all [of 0 bs]
    by (simp add: assemble_def Let_def on_err_def settled_def reserve_def try_reserve_def usize_checked_add_def
        release_bytes_def release_def body' deliver_def and_then_run proc_runs)
  finally have t: "recv_step L s = (Ok (Some (m\<lparr>m_channel_code := c\<rparr>)), ?t)" using run by simp
  moreover have "held lim k ?t" using slackD [OF slack_step a(7) t] by simp
  ultimately show ?thesis using es by (auto simp: memory_bytes_used_def)
qed

lemma recv_parts:
  assumes f: "fragmented h bs"
    and room: "u + 2 * msg_len h \<le> lim" "lim \<le> usize_MAX"
    and m: "decode_dtx_body_from_slice L h (concat bs) = Inr m"
      "normalize_incoming_channel_code (m_channel_code m) (m_conversation_idx m) = Inr c"
  shows "assembling lim k F u h bs D s \<Longrightarrow> arriving s (concat (map (part_wire h bs) is) @ ys) \<Longrightarrow>
    distinct is \<Longrightarrow> set is = {..<length bs} - D \<Longrightarrow> is \<noteq> [] \<Longrightarrow>
    \<exists>t. recv_from_stream_inner L s = (Ok (m\<lparr>m_channel_code := c\<rparr>), t) \<and> arriving t ys \<and>
      held lim k t \<and> fragments t = F \<and> memory_bytes_used t = u"
proof (induction "is" arbitrary: s D)
  case (Cons i "is")
  have i: "i < length bs" "i \<notin> D" using Cons.prems(4) by auto
  have arr: "arriving s (part_wire h bs i @ concat (map (part_wire h bs) is) @ ys)" using Cons.prems(2) by simp
  show ?case
  proof (cases "is = []")
    case True
    have last: "insert i D \<inter> {..<length bs} = {..<length bs}" using Cons.prems(4) True by auto
    have "assembling lim k F u h bs (D \<inter> {..<length bs}) s"
      using Cons.prems(1) by (simp add: assembling_def arrived_inter)
    moreover have "insert i (D \<inter> {..<length bs}) = {..<length bs}" "i \<notin> D \<inter> {..<length bs}" using last i by auto
    ultimately obtain t where "recv_step L s = (Ok (Some (m\<lparr>m_channel_code := c\<rparr>)), t)" "arriving t ys"
      "held lim k t" "fragments t = F" "memory_bytes_used t = u"
      using recv_last [OF f _ i(1) _ room _ _ m, of k F "D \<inter> {..<length bs}" s ys] arr True by auto
    then show ?thesis by (subst recv_from_stream_inner.simps) (simp add: proc_runs)
  next
    case False
    then obtain j where "j \<in> set is" by (cases "is") auto
    then have more': "\<not> {..<length bs} \<subseteq> insert i D" using Cons.prems(3,4) by auto
    from recv_part [OF f Cons.prems(1) i _ room(2) arr more', of L] room(1)
    obtain t where t: "recv_step L s = (Ok None, t)" "arriving t (concat (map (part_wire h bs) is) @ ys)"
      "assembling lim k F u h bs (insert i D) t" by auto
    have "set is = {..<length bs} - insert i D" using Cons.prems(3,4) by auto
    then show ?thesis
      using Cons.IH [OF t(3,2)] Cons.prems(3) False t(1) by (subst recv_from_stream_inner.simps) simp
  qed
qed simp

text \<open>
  C4. A message that a peer sends in fragments is received whole. The first header announces the
  size; the fragments follow in any order, cut by the transport in any way. The receiver returns the
  message whose body is the fragments in the order of their indices, reads nothing beyond them, and
  leaves the other messages in reassembly and the memory count as they were. It needs room for two
  copies of the body.
\<close>

theorem dtx_reassembly:
  assumes "fragmented h bs" and "distinct order" and "set order = {..<length bs}"
    and "arriving s (header_wire h @ concat (map (part_wire h bs) order) @ rest)"
    and "held lim k s" and "map_of (fragments s) (h_identifier h) = None" and "length (fragments s) < 64"
    and "memory_bytes_used s + 2 * msg_len h \<le> lim" and "lim \<le> usize_MAX"
    and "decode_dtx_body_from_slice L h (concat bs) = Inr m"
    and "normalize_incoming_channel_code (m_channel_code m) (m_conversation_idx m) = Inr c"
  shows "\<exists>t. recv_from_stream L s = (Ok (m\<lparr>m_channel_code := c\<rparr>), t) \<and> arriving t rest \<and>
           fragments t = fragments s \<and> memory_bytes_used t = memory_bytes_used s"
proof -
  from recv_first [OF assms(1,5,6,7,4), of L] obtain s1 where s1: "recv_step L s = (Ok None, s1)"
    "arriving s1 (concat (map (part_wire h bs) order) @ rest)"
    "assembling lim k (fragments s) (memory_bytes_used s) h bs {} s1" by (elim exE conjE) (rule that)
  have "0 < length bs" using assms(1) by (simp add: fragmented_def word_less_nat_alt)
  then have ne: "order \<noteq> []" using assms(3) by (metis empty_set lessThan_iff empty_iff)
  have "set order = {..<length bs} - {}" unfolding Diff_empty by (rule assms(3))
  from recv_parts [OF assms(1,8-11) s1(3,2) assms(2) this ne] obtain t
    where "recv_from_stream_inner L s1 = (Ok (m\<lparr>m_channel_code := c\<rparr>), t)" "arriving t rest"
      "fragments t = fragments s" "memory_bytes_used t = memory_bytes_used s"
    by (elim exE conjE) (rule that)
  then show ?thesis
    using s1(1) by (simp add: recv_from_stream_def on_err_def recv_from_stream_inner.simps [of L s])
qed

text \<open>An acknowledged barrier in two fragments, the second one first.\<close>

definition split_header :: dtx_header where
  "split_header = \<lparr>header_len = 32, frag_idx = 0, frag_cnt = 3, msg_len = 16, h_identifier = 7, h_conv_idx = 1,
     h_channel_code = 2, h_expects_reply = True\<rparr>"

definition split_parts :: "bytes list" where
  "split_parts = (let b = encode_dtx_body MSG_BARRIER [] [] in [take 10 b, drop 10 b])"

definition split_wire :: bytes where
  "split_wire = header_wire split_header @ concat (map (part_wire split_header split_parts) [1, 0])"

definition split_state :: dtx where
  "split_state = with_memory_limit \<lparr>rx = [Chunk split_wire], wx = [], fx = [], wire = []\<rparr> 1000"

lemma split_fragmented: "fragmented split_header split_parts" "concat split_parts = encode_dtx_body MSG_BARRIER [] []"
  by (simp_all add: fragmented_def split_header_def split_parts_def Let_def header_ok_def MAX_DTX_HEADER_SIZE_def
      MAX_DTX_FRAGMENTS_def MAX_DTX_MESSAGE_SIZE_def body_len_def)

lemma split_arriving: "arriving split_state (header_wire split_header @ concat (map (part_wire split_header split_parts) [1, 0]) @ [])"
proof -
  have "split_wire \<noteq> []" by (simp add: split_wire_def)
  then have "carries [Chunk split_wire] split_wire" by (rule carries_one)
  then show ?thesis by (simp add: split_state_def with_memory_limit_def split_wire_def)
qed

lemma split_decodes:
  "decode_dtx_body_from_slice L split_header (concat split_parts) = Inr (header_message split_header Empty)"
  unfolding split_fragmented(2)
  by (subst decode_encode_body) (simp_all add: split_header_def body_len_def decode_payload_def msg_defs)

theorem dtx_reassembly_witness:
  "\<exists>t. recv_from_stream \<lparr>read_plist = \<lambda>_. None, write_plist = \<lambda>_. [], show_f64 = \<lambda>_. []\<rparr> split_state =
         (Ok ((header_message split_header Empty)\<lparr>m_channel_code := 2\<rparr>), t) \<and> fragments t = [] \<and> memory_bytes_used t = 0"
proof -
  have "map_of (fragments split_state) (h_identifier split_header) = None" "length (fragments split_state) < 64"
    "memory_bytes_used split_state + 2 * msg_len split_header \<le> 1000" "(1000 :: nat) \<le> usize_MAX"
    "set [1, 0 :: nat] = {..<length split_parts}" "distinct [1, 0 :: nat]"
    by (auto simp: split_state_def with_memory_limit_def memory_bytes_used_def budget_new_def split_header_def split_parts_def Let_def)
  moreover have "normalize_incoming_channel_code (m_channel_code (header_message split_header Empty))
      (m_conversation_idx (header_message split_header Empty)) = Inr 2"
    by (simp add: normalize_incoming_channel_code_def header_message_def split_header_def)
  moreover have "held 1000 0 split_state" unfolding split_state_def by (rule held_new)
  ultimately have "\<exists>t. recv_from_stream \<lparr>read_plist = \<lambda>_. None, write_plist = \<lambda>_. [], show_f64 = \<lambda>_. []\<rparr> split_state =
         (Ok ((header_message split_header Empty)\<lparr>m_channel_code := 2\<rparr>), t) \<and> arriving t [] \<and>
         fragments t = fragments split_state \<and> memory_bytes_used t = memory_bytes_used split_state"
    by (intro dtx_reassembly [OF split_fragmented(1) _ _ split_arriving _ _ _ _ _ split_decodes])
  then show ?thesis by (auto simp: split_state_def with_memory_limit_def memory_bytes_used_def budget_new_def)
qed

end
