(* ===== verification/Dtx_Memory.thy ===== *)
theory Dtx_Memory
  imports Dtx_Budget
begin

text \<open>
  What a DTX connection counts is what it keeps. Every buffered reply and every queued message is
  counted with the size the code computes for it, which is at least what its contents need, and a
  fragment with its length. The states are those that any sequence of calls can reach, failed and
  dropped calls included. A dropped receive leaves its reservation counted for good.
\<close>

section \<open>Recorded sizes\<close>

definition buffered_messages :: "dtx \<Rightarrow> buffered_message set" where
  "buffered_messages s = snd ` set (pending_replies s) \<union> set (queued_messages s)"

definition sized :: "layout \<Rightarrow> dtx \<Rightarrow> bool" where
  "sized lay s \<longleftrightarrow> (\<forall>b \<in> buffered_messages s. dtx_message_memory_size lay (b_message b) = Inr (b_reserved_bytes b))"

lemma sized_mono: "sized lay s \<Longrightarrow> buffered_messages t \<subseteq> buffered_messages s \<Longrightarrow> sized lay t"
  by (auto simp: sized_def)

lemma sized_other [simp]:
  "sized lay (s\<lparr>dtx_stream := x\<rparr>) = sized lay s" "sized lay (s\<lparr>dtx_identifier := i\<rparr>) = sized lay s"
  "sized lay (s\<lparr>channel_counter := c\<rparr>) = sized lay s" "sized lay (s\<lparr>outstanding_reply_ids := o'\<rparr>) = sized lay s"
  "sized lay (s\<lparr>memory_budget := m\<rparr>) = sized lay s" "sized lay (s\<lparr>fragments := f\<rparr>) = sized lay s"
  "sized lay (release_bytes n s) = sized lay s"
  by (simp_all add: sized_def buffered_messages_def release_bytes_def)

lemma sized_clear [simp]: "sized lay (clear_fragments s) = sized lay s"
proof -
  have "sized lay (fold (\<lambda>(_, a). release_bytes (a_reserved_bytes a)) fs t) = sized lay t"
    for fs :: "(u32 \<times> fragment_accum) list" and t
    by (induction fs arbitrary: t) (simp_all add: case_prod_beta)
  then show ?thesis by (simp add: clear_fragments_def)
qed

lemma sized_pop: "sized lay s \<Longrightarrow> queued_messages s = b # q \<Longrightarrow> sized lay (s\<lparr>queued_messages := q\<rparr>)"
  by (erule sized_mono) (auto simp: buffered_messages_def)

lemma sized_drop: "sized lay s \<Longrightarrow> sized lay (drop_oldest s)"
  by (auto simp: drop_oldest_def sized_pop split: list.splits)

lemma sized_remove:
  "sized lay s \<Longrightarrow> sized lay (s\<lparr>pending_replies := AList.delete i (pending_replies s)\<rparr>)"
  by (erule sized_mono) (auto simp: buffered_messages_def dest: subsetD [OF set_delete])

lemma sized_store:
  assumes "sized lay s" and "dtx_message_memory_size lay m = Inr n"
  shows "sized lay (s\<lparr>pending_replies := index_insert i \<lparr>b_message = m, b_reserved_bytes = n\<rparr> (pending_replies s)\<rparr>)"
    and "sized lay (s\<lparr>queued_messages := queued_messages s @ [\<lparr>b_message = m, b_reserved_bytes = n\<rparr>]\<rparr>)"
  using assms by (force simp: sized_def buffered_messages_def dest!: set_insert_map)+

lemma sized_stream: "keeps (sized lay) (on_dtx m)"
  by (rule keepsI) (simp add: on_stream_state)

lemma sized_reserve: "keeps (sized lay) (reserve f)"
  by (rule keepsI) (simp add: reserve_def split: sum.splits)

lemmas sized_intros = keeps_intros sized_stream sized_reserve

lemma keeps_check_then: "(\<And>x. r = Inr x \<Longrightarrow> keeps I (f x)) \<Longrightarrow> keeps I (and_then (check (\<lambda>_. r)) f)"
  by (cases r) (simp_all add: keeps_def and_then_run proc_runs)

lemma sized_send: "keeps (sized lay) (send_raw d)" "keeps (sized lay) (send_ack msg)"
  unfolding send_ack_def send_raw_def by (intro sized_intros)+

lemma sized_body: "keeps (sized lay) (read_dtx_body L h b)"
  unfolding read_dtx_body_def by (intro sized_intros)

lemma sized_deliver: "keeps (sized lay) (deliver m)"
  unfolding deliver_def by (intro sized_intros)

lemma sized_assemble: "keeps (sized lay) (assemble L rid accum)"
  unfolding assemble_def Let_def
  by (intro sized_intros) (auto split: sum.splits intro!: sized_intros sized_body sized_deliver)

lemma sized_fragment: "keeps (sized lay) (store_fragment L h b)"
  unfolding store_fragment_def Let_def
  by (auto split: option.splits intro!: sized_intros sized_assemble)

lemma sized_step: "keeps (sized lay) (recv_step L)"
  unfolding recv_step_def read_dtx_header_def recv_single_def first_fragment_def next_fragment_def
  by (intro sized_intros sized_body sized_deliver sized_fragment; simp)

text \<open>A loop that goes on until its step returns a message.\<close>

lemma keeps_receive_loop:
  assumes step: "keeps I step"
    and unfold: "\<And>s. f s = and_then step (\<lambda>r t. case r of Some m \<Rightarrow> ret m t | None \<Rightarrow> f t) s"
    and less: "\<And>s r t. step s = (Ok r, t) \<Longrightarrow> dtx_left t < dtx_left s"
  shows "keeps I f"
proof (rule keepsI)
  show "I s \<Longrightarrow> I (snd (f s))" for s
  proof (induction "dtx_left s" arbitrary: s rule: less_induct)
    case less
    obtain r t where r: "step s = (r, t)" by fastforce
    with step less.prems have t: "I t" by (rule keepsD)
    show ?case
    proof (cases r)
      case (Ok x)
      then show ?thesis
        using t less.hyps [OF assms(3), of x t] r unfold [of s] by (auto simp: proc_runs split: option.splits)
    qed (use t r unfold [of s] in simp_all)
  qed
qed

lemma sized_receive: "keeps (sized lay) (recv_from_stream L)"
  unfolding recv_from_stream_def
  by (intro keeps_on_err keeps_receive_loop [OF sized_step]) (rule recv_from_stream_inner.simps, erule recv_step_less, simp)

text \<open>The two handlers that store a message record the size they computed for it.\<close>

lemma sized_buffer_reply: "keeps (sized lay) (buffer_reply lay msg)"
  unfolding buffer_reply_def Let_def
  by (intro keeps_reading keeps_if keeps_throw keeps_check_then sized_intros) (rule sized_store)

lemma sized_queue_message: "keeps (sized lay) (queue_message lay msg)"
  unfolding queue_message_def Let_def
  by (rule keeps_check_then, intro sized_intros) (auto intro: sized_store sized_drop)

lemmas sized_steps = sized_intros sized_receive sized_buffer_reply sized_queue_message sized_send

lemma sized_wait: "keeps (sized lay) (wait_for_reply L lay rid)"
proof (rule keepsI)
  have "keeps (sized lay) (wait_step L lay rid)" unfolding wait_step_def by (intro sized_steps; simp)
  then have loop: "keeps (sized lay) (wait_loop L lay rid)"
    by (rule keeps_receive_loop) (rule wait_loop.simps, erule wait_step_less)
  show "sized lay s \<Longrightarrow> sized lay (snd (wait_for_reply L lay rid s))" for s
    using loop by (auto simp: wait_for_reply_def remove_pending_reply_def keeps_def sized_remove split: option.splits)
qed

lemma sized_recv: "keeps (sized lay) (dtx_recv L lay)"
proof (rule keepsI)
  have "keeps (sized lay) (recv_round L lay)" unfolding recv_round_def by (intro sized_steps; simp)
  then have loop: "keeps (sized lay) (recv_rounds L lay)"
    by (rule keeps_receive_loop) (rule recv_rounds.simps, erule recv_round_less)
  show "sized lay s \<Longrightarrow> sized lay (snd (dtx_recv L lay s))" for s
    using loop by (auto simp: dtx_recv_def pop_queued_message_def keeps_def sized_pop split: list.splits)
qed

lemma sized_ids: "keeps (sized lay) next_id" "keeps (sized lay) next_channel_code"
  by (auto intro!: keepsI simp: next_id_def next_channel_code_def Let_def)

lemma sized_await: "keeps (sized lay) (await_reply L lay rid)"
  unfolding await_reply_def by (intro sized_intros sized_wait; simp)

lemma sized_operations:
  "keeps (sized lay) (request_channel L lay name)" "keeps (sized lay) (method_call L lay code sel args)"
  "keeps (sized lay) (method_call_async L code sel args)"
  unfolding request_channel_def method_call_def method_call_async_def Let_def
  by (intro sized_intros sized_ids sized_send sized_await)+

section \<open>What a message occupies at least\<close>

text \<open>
  The bytes that the contents of a message need wherever they are stored: its data and strings and a
  slot for each element. A layout is generous when no capacity is below the length it serves.
\<close>

fun ns_contents :: "layout \<Rightarrow> nsobject \<Rightarrow> nat"
  and ns_contents_values :: "layout \<Rightarrow> nsobject list \<Rightarrow> nat"
  and ns_contents_entries :: "layout \<Rightarrow> (string \<times> nsobject) list \<Rightarrow> nat"
where
  "ns_contents lay (NString s) = length s"
| "ns_contents lay (NData d) = length d"
| "ns_contents lay (NArray vs) = length vs * size_of_object lay + ns_contents_values lay vs"
| "ns_contents lay (NDict es) = length es * size_of_entry lay + ns_contents_entries lay es"
| "ns_contents lay v = 0"
| "ns_contents_values lay [] = 0"
| "ns_contents_values lay (v # vs) = ns_contents lay v + ns_contents_values lay vs"
| "ns_contents_entries lay [] = 0"
| "ns_contents_entries lay ((k, v) # es) = length k + ns_contents lay v + ns_contents_entries lay es"

definition payload_contents :: "layout \<Rightarrow> dtx_payload \<Rightarrow> nat" where
  "payload_contents lay p = (case p of
       MethodInvocation selector args \<Rightarrow> length selector + length args * size_of_object lay + ns_contents_values lay args
     | Response v \<Rightarrow> ns_contents lay v
     | Notification name obj \<Rightarrow> length name + ns_contents lay obj
     | Raw b \<Rightarrow> length b
     | RawWithAux b aux \<Rightarrow> length b + length aux * size_of_object lay + ns_contents_values lay aux
     | Empty \<Rightarrow> 0)"

definition generous :: "layout \<Rightarrow> bool" where
  "generous lay \<longleftrightarrow> (\<forall>s. length s \<le> string_capacity lay s) \<and> (\<forall>vs. length vs \<le> array_capacity lay vs) \<and>
     (\<forall>es. length es \<le> dict_capacity lay es)"

lemma checked_size_Inr:
  "checked_size_add a b w = Inr n \<Longrightarrow> n = a + b" "checked_size_mul a b w = Inr n \<Longrightarrow> n = a * b"
  by (auto simp: checked_size_add_def checked_size_mul_def usize_checked_add_def usize_checked_mul_def ok_or_def
      split: option.splits if_splits)

lemma generous_slots:
  "generous lay \<Longrightarrow> length vs * size_of_object lay \<le> array_capacity lay vs * size_of_object lay"
  "generous lay \<Longrightarrow> length es * size_of_entry lay \<le> dict_capacity lay es * size_of_entry lay"
  by (simp_all add: generous_def mult_le_mono1)

lemma ns_memory_size_contents:
  "generous lay \<Longrightarrow> ns_object_memory_size lay v = Inr n \<Longrightarrow> ns_contents lay v \<le> n"
  "generous lay \<Longrightarrow> ns_values_memory_size lay acc w vs = Inr n \<Longrightarrow> acc + ns_contents_values lay vs \<le> n"
  "generous lay \<Longrightarrow> ns_entries_memory_size lay acc es = Inr n \<Longrightarrow> acc + ns_contents_entries lay es \<le> n"
proof (induction lay v and lay acc w vs and lay acc es arbitrary: n and n and n
    rule: ns_object_memory_size_ns_values_memory_size_ns_entries_memory_size.induct)
  case (3 lay vs)
  from 3(3) obtain slots acc where size: "checked_size_mul (array_capacity lay vs) (size_of_object lay) ''array slots'' = Inr slots"
    and sum: "checked_size_add 0 slots ''array slots'' = Inr acc" and rest: "ns_values_memory_size lay acc ''array value'' vs = Inr n"
    by (auto simp: attempt_Inr_iff)
  from 3(1) [OF size sum 3(2) rest] checked_size_Inr(1) [OF sum] checked_size_Inr(2) [OF size] generous_slots(1) [OF 3(2), of vs]
  show ?case unfolding ns_contents.simps by linarith
next
  case (4 lay es)
  from 4(3) obtain slots acc where size: "checked_size_mul (dict_capacity lay es) (size_of_entry lay) ''dict slots'' = Inr slots"
    and sum: "checked_size_add 0 slots ''dict slots'' = Inr acc" and rest: "ns_entries_memory_size lay acc es = Inr n"
    by (auto simp: attempt_Inr_iff)
  from 4(1) [OF size sum 4(2) rest] checked_size_Inr(1) [OF sum] checked_size_Inr(2) [OF size] generous_slots(2) [OF 4(2), of es]
  show ?case unfolding ns_contents.simps by linarith
next
  case (7 lay acc w v vs)
  from 7(4) obtain m acc1 where size: "ns_object_memory_size lay v = Inr m"
    and sum: "checked_size_add acc m w = Inr acc1" and rest: "ns_values_memory_size lay acc1 w vs = Inr n"
    by (auto simp: attempt_Inr_iff)
  from 7(1) [OF 7(3) size] 7(2) [OF size sum 7(3) rest] checked_size_Inr(1) [OF sum] show ?case by simp
next
  case (9 lay acc k v es)
  from 9(4) obtain acc1 m acc2 where size: "ns_object_memory_size lay v = Inr m"
    and key: "checked_size_add acc (string_capacity lay k) ''dict key'' = Inr acc1"
    and sum: "checked_size_add acc1 m ''dict value'' = Inr acc2" and rest: "ns_entries_memory_size lay acc2 es = Inr n"
    by (auto simp: attempt_Inr_iff)
  have "acc + length k \<le> acc1" using checked_size_Inr(1) [OF key] 9(3) by (simp add: generous_def)
  with 9(1) [OF key 9(3) size] 9(2) [OF key size sum 9(3) rest] checked_size_Inr(1) [OF sum] show ?case by simp
qed (auto simp: generous_def dest!: checked_size_Inr)

lemma message_size_contents:
  assumes g: "generous lay" and size: "dtx_message_memory_size lay m = Inr n"
  shows "payload_contents lay (m_payload m) \<le> n"
proof -
  have str: "length s \<le> string_capacity lay s" for s using g by (simp add: generous_def)
  note le = ns_memory_size_contents(1,2) [OF g] generous_slots(1) [OF g]
  show ?thesis
  proof (cases "m_payload m")
    case (MethodInvocation sel args)
    with size obtain acc slots size1 where "checked_size_add 0 (string_capacity lay sel) ''method selector'' = Inr acc"
      "checked_size_mul (array_capacity lay args) (size_of_object lay) ''method argument slots'' = Inr slots"
      "checked_size_add acc slots ''method argument slots'' = Inr size1"
      "ns_values_memory_size lay size1 ''method argument'' args = Inr n"
      by (auto simp: dtx_message_memory_size_def attempt_Inr_iff)
    then have "acc = string_capacity lay sel" "slots = array_capacity lay args * size_of_object lay" "size1 = acc + slots"
      "size1 + ns_contents_values lay args \<le> n"
      by (auto dest: checked_size_Inr le(2))
    then show ?thesis
      using str [of sel] le(3) [of args] unfolding payload_contents_def MethodInvocation dtx_payload.case by linarith
  next
    case (Notification name obj)
    with size obtain acc k where "checked_size_add 0 (string_capacity lay name) ''notification name'' = Inr acc"
      "ns_object_memory_size lay obj = Inr k" "checked_size_add acc k ''notification object'' = Inr n"
      by (auto simp: dtx_message_memory_size_def attempt_Inr_iff)
    then show ?thesis
      using Notification str [of name] le(1) [of obj k] by (auto simp: payload_contents_def dest!: checked_size_Inr)
  next
    case (RawWithAux b aux)
    with size obtain acc slots size1 where "checked_size_add 0 (length b) ''raw payload'' = Inr acc"
      "checked_size_mul (array_capacity lay aux) (size_of_object lay) ''auxiliary slots'' = Inr slots"
      "checked_size_add acc slots ''auxiliary slots'' = Inr size1"
      "ns_values_memory_size lay size1 ''auxiliary value'' aux = Inr n"
      by (auto simp: dtx_message_memory_size_def attempt_Inr_iff)
    then have "acc = length b" "slots = array_capacity lay aux * size_of_object lay" "size1 = acc + slots"
      "size1 + ns_contents_values lay aux \<le> n"
      by (auto dest: checked_size_Inr le(2))
    then show ?thesis using le(3) [of aux] unfolding payload_contents_def RawWithAux dtx_payload.case by linarith
  qed (use size le(1) in \<open>auto simp: dtx_message_memory_size_def payload_contents_def attempt_Inr_iff dest!: checked_size_Inr\<close>)
qed

text \<open>The contents of everything a connection stores.\<close>

definition stored_contents :: "layout \<Rightarrow> dtx \<Rightarrow> nat" where
  "stored_contents lay s =
     amount (\<lambda>b. payload_contents lay (m_payload (b_message b))) (pending_replies s) +
     sum_list (map (\<lambda>b. payload_contents lay (m_payload (b_message b))) (queued_messages s)) +
     amount (\<lambda>a. fragment_bytes (a_fragments a)) (fragments s)"

lemma stored_le_retained: "generous lay \<Longrightarrow> sized lay s \<Longrightarrow> tables_ok s \<Longrightarrow> stored_contents lay s \<le> retained s"
  unfolding stored_contents_def retained_def amount_def
  by (intro add_mono sum_list_mono)
    (auto simp: sized_def buffered_messages_def tables_ok_def accum_ok_def intro!: message_size_contents)

section \<open>Reachable states\<close>

text \<open>
  A caller of the connection: it makes calls in any order, each of which returns, fails or is
  dropped at an await. \<open>dtx_run L lay lim c s\<close>: \<open>s\<close> is reached from a new connection with the memory
  limit \<open>lim\<close> by a sequence of calls, \<open>c\<close> of which were dropped.
\<close>

inductive dtx_op :: "plist_lib \<Rightarrow> layout \<Rightarrow> dtx \<Rightarrow> bool \<Rightarrow> dtx \<Rightarrow> bool" for L lay where
  op_recv: "dtx_recv L lay s = (r, t) \<Longrightarrow> dtx_op L lay s (r = Cancelled) t"
| op_channel: "request_channel L lay name s = (r', t) \<Longrightarrow> dtx_op L lay s (r' = Cancelled) t"
| op_call: "method_call L lay code sel args s = (r, t) \<Longrightarrow> dtx_op L lay s (r = Cancelled) t"
| op_async: "method_call_async L code sel args s = (u, t) \<Longrightarrow> dtx_op L lay s (u = Cancelled) t"
| op_ack: "send_ack msg s = (u, t) \<Longrightarrow> dtx_op L lay s (u = Cancelled) t"
| op_send: "send_raw data s = (u, t) \<Longrightarrow> dtx_op L lay s (u = Cancelled) t"

inductive dtx_run :: "plist_lib \<Rightarrow> layout \<Rightarrow> nat \<Rightarrow> nat \<Rightarrow> dtx \<Rightarrow> bool" for L lay lim where
  run_new: "dtx_run L lay lim 0 (with_memory_limit k lim)"
| run_op: "dtx_run L lay lim c s \<Longrightarrow> dtx_op L lay s False t \<Longrightarrow> dtx_run L lay lim c t"
| run_dropped: "dtx_run L lay lim c s \<Longrightarrow> dtx_op L lay s True t \<Longrightarrow> dtx_run L lay lim (Suc c) t"

lemma op_held:
  assumes "dtx_op L lay s cancelled t" and "held lim k s"
  shows "if cancelled then \<exists>j\<ge>k. held lim j t else held lim k t"
proof -
  show ?thesis
    using assms(1)
  proof cases
    case (op_recv r)
    then show ?thesis using slackD [OF slack_recv assms(2) op_recv(2)] op_recv(1) by (cases r) auto
  next
    case (op_channel name r)
    then show ?thesis using slackD [OF slack_operations(1) assms(2) op_channel(2)] op_channel(1) by (cases r) auto
  next
    case (op_call code sel args r)
    then show ?thesis using slackD [OF slack_operations(2) assms(2) op_call(2)] op_call(1) by (cases r) auto
  next
    case (op_async code sel args u)
    then show ?thesis using slackD [OF slack_operations(3) assms(2) op_async(2)] op_async(1) by (cases u) auto
  next
    case (op_ack msg u)
    then show ?thesis using slackD [OF slack_operations(4) assms(2) op_ack(2)] op_ack(1) by (cases u) auto
  next
    case (op_send data u)
    then show ?thesis using slackD [OF slack_send [OF order_refl] assms(2) op_send(2)] op_send(1) by (cases u) auto
  qed
qed

lemma run_held: "dtx_run L lay lim c s \<Longrightarrow> \<exists>k. held lim k s \<and> (c = 0 \<longrightarrow> k = 0)"
proof (induction rule: dtx_run.induct)
  case (run_new k)
  then show ?case using held_new by blast
next
  case (run_op c s t)
  then show ?case using op_held [OF run_op(2)] by auto
next
  case (run_dropped c s t)
  then show ?case using op_held [OF run_dropped(2)] by auto
qed

lemma op_sized: "dtx_op L lay s cancelled t \<Longrightarrow> sized lay s \<Longrightarrow> sized lay t"
  by (induction rule: dtx_op.induct)
    (blast intro: keepsD sized_recv sized_operations sized_send)+

lemma sized_new: "sized lay (with_memory_limit k lim)"
  by (simp add: sized_def buffered_messages_def with_memory_limit_def)

lemma run_sized: "dtx_run L lay lim c s \<Longrightarrow> sized lay s"
  by (induction rule: dtx_run.induct) (auto intro: sized_new op_sized)

text \<open>
  C8. Whatever a peer sends and whatever calls a program makes, failed and dropped ones included, a
  connection never counts more than its memory limit. Every buffered reply and every queued message
  is counted with the size the code computes for it, every fragment with its length, and as long as
  no call was dropped the count is exactly the sum of these; a dropped call can only leave it higher.
  When no capacity of the memory layout is below the length it serves, the contents of everything
  stored (data, strings, slots and fragments) fit into the counted bytes. At most 64 messages are being
  reassembled, none from more than its announced size and 128 MiB, and at most 1024 replies and 1024
  messages wait.
\<close>

theorem dtx_memory_bounded:
  assumes "dtx_run L lay lim c s"
  shows "retained s \<le> memory_bytes_used s \<and> memory_bytes_used s \<le> lim \<and>
    (c = 0 \<longrightarrow> memory_bytes_used s = retained s) \<and>
    length (fragments s) \<le> 64 \<and> length (pending_replies s) \<le> 1024 \<and> length (queued_messages s) \<le> 1024 \<and>
    (\<forall>(i, a) \<in> set (fragments s). fragment_bytes (a_fragments a) = a_reserved_bytes a \<and>
       fragment_bytes (a_fragments a) \<le> msg_len (a_header a) \<and> msg_len (a_header a) \<le> 128 * 1024 * 1024) \<and>
    (\<forall>b \<in> snd ` set (pending_replies s) \<union> set (queued_messages s).
       dtx_message_memory_size lay (b_message b) = Inr (b_reserved_bytes b)) \<and>
    (generous lay \<longrightarrow> stored_contents lay s \<le> memory_bytes_used s)"
proof -
  from run_held [OF assms] obtain k where k: "held lim k s" "c = 0 \<longrightarrow> k = 0" by blast
  have sized: "sized lay s" by (rule run_sized [OF assms])
  have "fragment_bytes (a_fragments a) = a_reserved_bytes a \<and>
      fragment_bytes (a_fragments a) \<le> msg_len (a_header a) \<and> msg_len (a_header a) \<le> 128 * 1024 * 1024"
    if "(i, a) \<in> set (fragments s)" for i a
    using k(1) that by (fastforce simp: held_def tables_ok_def accum_ok_def header_ok_def MAX_DTX_MESSAGE_SIZE_def)
  moreover have "stored_contents lay s \<le> memory_bytes_used s" if "generous lay"
    using stored_le_retained [OF that sized] k(1) by (simp add: held_def)
  ultimately show ?thesis
    using k sized unfolding sized_def buffered_messages_def
    by (auto simp: held_def tables_ok_def MAX_IN_FLIGHT_FRAGMENTED_MESSAGES_def MAX_PENDING_REPLIES_def
        MAX_QUEUED_MESSAGES_def)
qed

section \<open>Dropped receives\<close>

text \<open>Reading from a script in which the caller is dropped once the bytes that arrived are used up.\<close>

lemma rx_exact_longer: "rx_exact n es = (Ok xs, r) \<Longrightarrow> rx_exact n (es @ after) = (Ok xs, r @ after)"
proof (induction es arbitrary: n xs r)
  case Nil
  then show ?case by (cases after) (auto split: if_splits)
next
  case (Cons e es)
  then show ?case by (auto split: if_splits rx_event.splits prod.splits outcome.splits)
qed

lemma rx_exact_dropped: "carries es bs \<Longrightarrow> length bs < n \<Longrightarrow> rx_exact n (es @ RxCancel # after) = (Cancelled, after)"
proof (induction es arbitrary: n bs)
  case (Cons e es)
  then obtain c r where c: "e = Chunk c" "c \<noteq> []" "bs = c @ r" "carries es r" by (auto simp: carries_Cons)
  with Cons.IH [of r "n - length c"] Cons.prems(2) show ?case by auto
qed auto

lemma recv_dropped:
  assumes h: "header_ok h" "header_len h = 32" "frag_cnt h = 1"
    and rx: "rx (dtx_stream s) = es @ RxCancel # after" "carries es (header_wire h @ arrived)" "length arrived < msg_len h"
    and room: "memory_bytes_used s + msg_len h \<le> memory_limit s" "memory_limit s \<le> usize_MAX"
  shows "recv_step L s = (Cancelled, s\<lparr>dtx_stream := (dtx_stream s)\<lparr>rx := after\<rparr>,
      memory_budget := (memory_budget s)\<lparr>used := memory_bytes_used s + msg_len h\<rparr>\<rparr>)"
proof -
  from rx_exact_carries [OF rx(2)] obtain es1 where es1: "rx_exact 32 es = (Ok (header_wire h), es1)" "carries es1 arrived"
    by auto
  let ?s1 = "s\<lparr>dtx_stream := (dtx_stream s)\<lparr>rx := es1 @ RxCancel # after\<rparr>\<rparr>"
  have "read_dtx_header s = (Ok h, ?s1)"
    using rx_exact_longer [OF es1(1), of "RxCancel # after"] rx(1) h(2) parse_header_bytes [OF h(1)]
    by (simp add: read_dtx_header_def and_then_run proc_runs on_stream_def sock_read_exact_def)
  moreover have "rx_exact (msg_len h) (es1 @ RxCancel # after) = (Cancelled, after)"
    by (rule rx_exact_dropped [OF es1(2) rx(3)])
  ultimately show ?thesis
    using rx(3) h(3) room
    by (simp add: recv_step_def recv_single_def reserve_def try_reserve_def read_dtx_body_def and_then_run settled_def
        on_stream_def sock_read_exact_def usize_checked_add_def memory_bytes_used_def memory_limit_def)
qed

text \<open>Any further calls.\<close>

definition dtx_later :: "plist_lib \<Rightarrow> layout \<Rightarrow> dtx \<Rightarrow> dtx \<Rightarrow> bool" where
  "dtx_later L lay = (\<lambda>s t. \<exists>cancelled. dtx_op L lay s cancelled t)\<^sup>*\<^sup>*"

lemma later_held: "dtx_later L lay s t \<Longrightarrow> held lim k s \<Longrightarrow> \<exists>j\<ge>k. held lim j t"
  unfolding dtx_later_def
proof (induction rule: rtranclp_induct)
  case (step t u)
  then obtain j cancelled where "j \<ge> k" "held lim j t" "dtx_op L lay t cancelled u" by blast
  then show ?case using op_held [of L lay t cancelled u lim j] by (cases cancelled) (auto intro: le_trans)
qed auto

text \<open>
  C40. A receive that is dropped while it waits for a body leaves the bytes it reserved counted for good.
  In any reachable state with an empty queue, when a frame header arrives that announces a body that fits
  into the memory left, and the caller drops the receive before the whole body has arrived, the tables
  are unchanged but the count has grown by the announced length; and after any further calls the
  connection still counts that many bytes more than everything it retains.
\<close>

theorem dtx_dropped_recv_leaks:
  assumes "dtx_run L lay lim c s" and "lim \<le> usize_MAX" and "queued_messages s = []"
    and "header_ok h" and "header_len h = 32" and "frag_cnt h = 1"
    and "rx (dtx_stream s) = es @ RxCancel # after" and "carries es (header_wire h @ arrived)"
    and "length arrived < msg_len h" and "memory_bytes_used s + msg_len h \<le> lim"
  shows "\<exists>t. dtx_recv L lay s = (Cancelled, t) \<and> rx (dtx_stream t) = after \<and>
    memory_bytes_used t = memory_bytes_used s + msg_len h \<and> retained t = retained s \<and>
    fragments t = fragments s \<and> pending_replies t = pending_replies s \<and> queued_messages t = queued_messages s \<and>
    (\<forall>u. dtx_later L lay t u \<longrightarrow> retained u + msg_len h \<le> memory_bytes_used u)"
proof -
  from run_held [OF assms(1)] obtain k where k: "held lim k s" by blast
  let ?t = "s\<lparr>dtx_stream := (dtx_stream s)\<lparr>rx := after\<rparr>,
      memory_budget := (memory_budget s)\<lparr>used := memory_bytes_used s + msg_len h\<rparr>\<rparr>"
  have "recv_step L s = (Cancelled, ?t)"
    using assms(2,10) k by (intro recv_dropped [OF assms(4-9)]) (simp_all add: held_def)
  then have recv: "dtx_recv L lay s = (Cancelled, ?t)"
    using assms(3)
    by (simp add: dtx_recv_def pop_queued_message_def recv_rounds.simps recv_round_def recv_from_stream_def
        on_err_def recv_from_stream_inner.simps and_then_run)
  have same: "retained ?t = retained s" by (simp add: retained_def)
  have "held lim (k + msg_len h) ?t"
    using k assms(10) same by (auto simp: held_def tables_ok_def memory_bytes_used_def memory_limit_def)
  then have "retained u + msg_len h \<le> memory_bytes_used u" if "dtx_later L lay ?t u" for u
    using later_held [OF that] by (fastforce simp: held_def)
  with recv same show ?thesis by (auto simp: memory_bytes_used_def)
qed

text \<open>A peer that announces 100 bytes and sends three of them before the caller gives up.\<close>

definition stalled_header :: dtx_header where
  "stalled_header = \<lparr>header_len = 32, frag_idx = 0, frag_cnt = 1, msg_len = 100, h_identifier = 9, h_conv_idx = 1,
     h_channel_code = 1, h_expects_reply = False\<rparr>"

definition stalled_sock :: sock where
  "stalled_sock = \<lparr>rx = [Chunk (header_wire stalled_header @ [1, 2, 3]), RxCancel], wx = [], fx = [], wire = []\<rparr>"

theorem dtx_dropped_recv_leaks_witness:
  "let L = \<lparr>read_plist = \<lambda>_. None, write_plist = \<lambda>_. [], show_f64 = \<lambda>_. []\<rparr>;
       lay = \<lparr>string_capacity = length, array_capacity = length, dict_capacity = length, size_of_object = 32, size_of_entry = 56\<rparr>
   in \<exists>t. dtx_recv L lay (with_memory_limit stalled_sock 1000) = (Cancelled, t) \<and> memory_bytes_used t = 100 \<and> retained t = 0 \<and>
        (\<forall>u. dtx_later L lay t u \<longrightarrow> retained u + 100 \<le> memory_bytes_used u)"
proof -
  let ?s = "with_memory_limit stalled_sock 1000"
  have "header_ok stalled_header" "header_len stalled_header = 32" "frag_cnt stalled_header = 1" "msg_len stalled_header = 100"
    by (simp_all add: header_ok_def stalled_header_def MAX_DTX_HEADER_SIZE_def MAX_DTX_FRAGMENTS_def MAX_DTX_MESSAGE_SIZE_def)
  moreover have "rx (dtx_stream ?s) = [Chunk (header_wire stalled_header @ [1, 2, 3])] @ RxCancel # []"
    by (simp add: with_memory_limit_def stalled_sock_def)
  moreover have "carries [Chunk (header_wire stalled_header @ [1, 2, 3])] (header_wire stalled_header @ [1, 2, 3])"
    by (rule carries_one) simp
  moreover have "queued_messages ?s = []" "memory_bytes_used ?s = 0" "retained ?s = 0"
    by (simp_all add: with_memory_limit_def memory_bytes_used_def budget_new_def retained_def)
  ultimately show ?thesis
    using dtx_dropped_recv_leaks [OF run_new, of 1000 stalled_sock stalled_header] unfolding Let_def by fastforce
qed

end
