(* ===== verification/Dtx_Calls.thy ===== *)
theory Dtx_Calls
  imports Dtx_Reassembly Dtx_Memory
begin

text \<open>
  A call on a DTX connection returns the reply to its own request. The device may send any number of
  other messages first: they are acknowledged when they ask for it and wait in the queue, in order.
\<close>

section \<open>Messages in one frame\<close>

text \<open>\<open>frame_of L m bs\<close>: the bytes \<open>bs\<close> are one frame that is received as the message \<open>m\<close>.\<close>

definition frame_of :: "plist_lib \<Rightarrow> dtx_message \<Rightarrow> nat \<Rightarrow> bytes \<Rightarrow> bool" where
  "frame_of L m n bs \<longleftrightarrow> (\<exists>h body m0. bs = header_wire h @ body \<and> header_ok h \<and> header_len h = 32 \<and> frag_cnt h = 1 \<and>
     msg_len h = length body \<and> n = length body \<and> body \<noteq> [] \<and> decode_dtx_body_from_slice L h body = Inr m0 \<and>
     normalize_incoming_channel_code (m_channel_code m0) (m_conversation_idx m0) = Inr (m_channel_code m) \<and>
     m = m0\<lparr>m_channel_code := m_channel_code m\<rparr>)"

lemma recv_frame_at:
  assumes "frame_of L m n bs" and "arriving s (bs @ ys)"
    and "memory_bytes_used s + n \<le> memory_limit s" and "memory_limit s \<le> usize_MAX"
  shows "\<exists>es. recv_from_stream L s = (Ok m, with_rx s es) \<and> carries es ys"
proof -
  from assms(1) obtain h body m0 where h: "bs = header_wire h @ body" "header_ok h" "header_len h = 32" "frag_cnt h = 1"
    "msg_len h = length body" "n = length body" "body \<noteq> []" "decode_dtx_body_from_slice L h body = Inr m0"
    "normalize_incoming_channel_code (m_channel_code m0) (m_conversation_idx m0) = Inr (m_channel_code m)"
    "m = m0\<lparr>m_channel_code := m_channel_code m\<rparr>" by (auto simp: frame_of_def)
  from read_header_at [of s h "body @ ys"] assms(2) h(1-3)
  obtain es1 where rd: "read_dtx_header s = (Ok h, with_rx s es1)" "carries es1 (body @ ys)" by auto
  let ?s = "(with_rx s es1)\<lparr>memory_budget := (memory_budget s)\<lparr>used := used (memory_budget s) + length body\<rparr>\<rparr>"
  from read_exact_at [of ?s body ys "msg_len h"] rd(2) h(5)
  obtain es where es: "on_dtx (sock_read_exact (msg_len h)) ?s = (Ok body, with_rx ?s es)" "carries es ys" by auto
  have res: "reserve (try_reserve (msg_len h) ''single-fragment body'') (with_rx s es1) = (Ok (), ?s)"
    using assms(3,4) h(5,6)
    by (simp add: reserve_def try_reserve_def usize_checked_add_def memory_bytes_used_def memory_limit_def)
  have freed: "release_bytes (msg_len h) (with_rx ?s es) = with_rx s es"
    using h(5) by (simp add: release_bytes_def release_def with_rx_def)
  have "recv_step L s = recv_single L h (with_rx s es1)" using rd(1) h(4) by (simp add: recv_step_def)
  also have "\<dots> = (Ok (Some (m0\<lparr>m_channel_code := m_channel_code m\<rparr>)), with_rx s es)"
    using res es(1) h(5,7,8,9) freed
    by (simp add: recv_single_def settled_def read_dtx_body_def deliver_def and_then_run proc_runs)
  finally have "recv_step L s = (Ok (Some m), with_rx s es)" using h(10) by simp
  then show ?thesis
    using es(2) by (auto simp: recv_from_stream_def on_err_def recv_from_stream_inner.simps [of L s] proc_runs)
qed

section \<open>Waiting\<close>

definition acks :: "dtx_message list \<Rightarrow> bytes" where
  "acks ms = concat (map encode_ack (filter m_expects_reply ms))"

lemma acks_simps [simp]: "acks [] = []" "acks (m # ms) = (if m_expects_reply m then encode_ack m else []) @ acks ms"
  by (simp_all add: acks_def)

definition talking :: "dtx \<Rightarrow> bool" where
  "talking s \<longleftrightarrow> wx (dtx_stream s) = [] \<and> fx (dtx_stream s) = []"

definition put_wire :: "bytes \<Rightarrow> dtx \<Rightarrow> dtx" where
  "put_wire bs s = s\<lparr>dtx_stream := (dtx_stream s)\<lparr>wire := wire (dtx_stream s) @ bs\<rparr>\<rparr>"

lemma dtx_put_wire_simps [simp]:
  "talking (put_wire bs s) = talking s" "memory_budget (put_wire bs s) = memory_budget s"
  "queued_messages (put_wire bs s) = queued_messages s" "rx (dtx_stream (put_wire bs s)) = rx (dtx_stream s)"
  "outstanding_reply_ids (put_wire bs s) = outstanding_reply_ids s" "wire (dtx_stream (put_wire bs s)) = wire (dtx_stream s) @ bs"
  "pending_replies (put_wire bs s) = pending_replies s" "wx (dtx_stream (put_wire bs s)) = wx (dtx_stream s)"
  "fx (dtx_stream (put_wire bs s)) = fx (dtx_stream s)"
  by (simp_all add: put_wire_def talking_def)

lemma send_talking: "talking s \<Longrightarrow> send_raw bs s = (Ok (), put_wire bs s)"
  by (simp add: send_raw_def talking_def and_then_run on_stream_def sock_write_all_quiet sock_flush_quiet put_wire_def)

definition buffered :: "layout \<Rightarrow> dtx_message \<Rightarrow> buffered_message" where
  "buffered lay m = \<lparr>b_message = m, b_reserved_bytes = projr (dtx_message_memory_size lay m)\<rparr>"

lemma queue_room:
  assumes "dtx_message_memory_size lay m = Inr n" and "length (queued_messages s) < MAX_QUEUED_MESSAGES"
    and "memory_bytes_used s + n \<le> memory_limit s" and "memory_limit s \<le> usize_MAX"
  shows "queue_message lay m s = (Ok (), s\<lparr>memory_budget := (memory_budget s)\<lparr>used := used (memory_budget s) + n\<rparr>,
           queued_messages := queued_messages s @ [buffered lay m]\<rparr>)"
  using assms
  by (simp add: queue_message_def and_then_run proc_runs Let_def ensure_budget_after_release_def projected_use_def
      usize_checked_add_def usize_checked_sub_def reserve_def try_reserve_def memory_bytes_used_def memory_limit_def buffered_def)

text \<open>An unrelated message: received, acknowledged if it asks for it, and queued.\<close>

lemma wait_step_unrelated:
  assumes "frame_of L m n bs" and "arriving s (bs @ ys)" and "talking s"
    and "memory_bytes_used s + n \<le> memory_limit s" and "memory_limit s \<le> usize_MAX"
    and "\<not> is_reply_message m s" and "dtx_message_memory_size lay m = Inr k"
    and "length (queued_messages s) < MAX_QUEUED_MESSAGES" and "memory_bytes_used s + k \<le> memory_limit s"
  shows "\<exists>t. wait_step L lay rid s = (Ok None, t) \<and> arriving t ys \<and> talking t \<and>
    memory_bytes_used t = memory_bytes_used s + k \<and> memory_limit t = memory_limit s \<and>
    outstanding_reply_ids t = outstanding_reply_ids s \<and>
    queued_messages t = queued_messages s @ [buffered lay m] \<and> wire (dtx_stream t) = wire (dtx_stream s) @ acks [m]"
proof -
  from recv_frame_at [OF assms(1,2,4,5)] obtain es
    where es: "recv_from_stream L s = (Ok m, with_rx s es)" "carries es ys" by auto
  let ?s = "if m_expects_reply m then put_wire (encode_ack m) (with_rx s es) else with_rx s es"
  have talk: "talking (with_rx s es)" using assms(3) by (simp add: talking_def with_rx_def)
  have ack: "(if m_expects_reply m then send_ack m else ret ()) (with_rx s es) = (Ok (), ?s)"
    using send_talking [OF talk] by (simp add: send_ack_def proc_runs)
  have same: "queued_messages ?s = queued_messages s" "memory_budget ?s = memory_budget s" by simp_all
  have unrelated: "\<not> is_reply_message m (with_rx s es)" using assms(6) by (simp add: is_reply_message_def)
  from queue_room [OF assms(7), of ?s] assms(5,8,9) same
  have "queue_message lay m ?s = (Ok (), ?s\<lparr>memory_budget := (memory_budget s)\<lparr>used := used (memory_budget s) + k\<rparr>,
           queued_messages := queued_messages s @ [buffered lay m]\<rparr>)"
    by (simp add: memory_bytes_used_def memory_limit_def)
  then have "wait_step L lay rid s = (Ok None, ?s\<lparr>memory_budget := (memory_budget s)\<lparr>used := used (memory_budget s) + k\<rparr>,
           queued_messages := queued_messages s @ [buffered lay m]\<rparr>)"
    using es(1) ack unrelated by (simp only: wait_step_def and_then_run proc_runs) (simp add: proc_runs)
  then show ?thesis
    using es(2) talk by (auto simp: memory_bytes_used_def memory_limit_def with_rx_def put_wire_def talking_def)
qed

text \<open>
  The messages that arrive before the reply, each with its frame and the size of its body; \<open>room\<close> is
  what they take of the memory while they are received and queued.
\<close>

definition sizes :: "layout \<Rightarrow> dtx_message list \<Rightarrow> nat" where
  "sizes lay ms = sum_list (map (\<lambda>m. projr (dtx_message_memory_size lay m)) ms)"

definition unrelated :: "plist_lib \<Rightarrow> layout \<Rightarrow> u32 set \<Rightarrow> nat \<Rightarrow> dtx_message \<Rightarrow> bytes \<Rightarrow> bool" where
  "unrelated L lay ids n m bs \<longleftrightarrow> (\<exists>k. k \<le> n \<and> frame_of L m k bs) \<and>
     \<not> (m_conversation_idx m > 0 \<and> m_identifier m \<in> ids) \<and> (\<exists>k. dtx_message_memory_size lay m = Inr k)"

lemma wait_loop_reply:
  assumes reply: "frame_of L reply k rbs" "m_identifier reply = rid" "m_conversation_idx reply > 0" "k \<le> n"
  shows "list_all2 (unrelated L lay (outstanding_reply_ids s) n) ms bss \<Longrightarrow> arriving s (concat bss @ rbs @ ys) \<Longrightarrow> talking s \<Longrightarrow>
    rid \<in> outstanding_reply_ids s \<Longrightarrow> length (queued_messages s) + length ms \<le> MAX_QUEUED_MESSAGES \<Longrightarrow>
    memory_bytes_used s + sizes lay ms + n \<le> memory_limit s \<Longrightarrow> memory_limit s \<le> usize_MAX \<Longrightarrow>
    \<exists>t. wait_loop L lay rid s = (Ok reply, t) \<and> arriving t ys \<and>
      queued_messages t = queued_messages s @ map (buffered lay) ms \<and>
      outstanding_reply_ids t = outstanding_reply_ids s - {rid} \<and> wire (dtx_stream t) = wire (dtx_stream s) @ acks ms"
proof (induction ms arbitrary: s bss)
  case Nil
  then have arr: "arriving s (rbs @ ys)" and mem: "memory_bytes_used s + k \<le> memory_limit s"
    using assms(4) by (auto simp: sizes_def)
  from recv_frame_at [OF reply(1) arr mem Nil.prems(7)] obtain es
    where es: "recv_from_stream L s = (Ok reply, with_rx s es)" "carries es ys" by auto
  have "is_reply_message reply (with_rx s es)" using reply(2,3) Nil.prems(4) by (simp add: is_reply_message_def)
  then have "wait_step L lay rid s = (Ok (Some reply), (with_rx s es)\<lparr>outstanding_reply_ids := outstanding_reply_ids s - {rid}\<rparr>)"
    using es(1) reply(2) by (simp add: wait_step_def and_then_run proc_runs)
  then show ?case using es(2) by (subst wait_loop.simps) (auto simp: proc_runs with_rx_def)
next
  case (Cons m ms)
  from Cons.prems(1) obtain b bss' where b1: "bss = b # bss'" "list_all2 (unrelated L lay (outstanding_reply_ids s) n) ms bss'"
    and m: "unrelated L lay (outstanding_reply_ids s) n m b" by (auto simp: list_all2_Cons1)
  from m obtain j k' where m: "frame_of L m j b" "j \<le> n" "\<not> is_reply_message m s" "dtx_message_memory_size lay m = Inr k'"
    by (auto simp: unrelated_def is_reply_message_def)
  note b = b1 m
  have arr: "arriving s (b @ concat bss' @ rbs @ ys)" using Cons.prems(2) b(1) by simp
  have mem: "memory_bytes_used s + j \<le> memory_limit s" "memory_bytes_used s + k' \<le> memory_limit s"
    using Cons.prems(6) b(4,6) by (auto simp: sizes_def)
  have "length (queued_messages s) < MAX_QUEUED_MESSAGES" using Cons.prems(5) by simp
  from wait_step_unrelated [OF b(3) arr Cons.prems(3) mem(1) Cons.prems(7) b(5,6) this mem(2), of rid]
  obtain s1 where s1: "wait_step L lay rid s = (Ok None, s1)" "arriving s1 (concat bss' @ rbs @ ys)" "talking s1"
    "memory_bytes_used s1 = memory_bytes_used s + k'" "memory_limit s1 = memory_limit s"
    "outstanding_reply_ids s1 = outstanding_reply_ids s" "queued_messages s1 = queued_messages s @ [buffered lay m]"
    "wire (dtx_stream s1) = wire (dtx_stream s) @ acks [m]" by (elim exE conjE) (rule that)
  have "\<exists>t. wait_loop L lay rid s1 = (Ok reply, t) \<and> arriving t ys \<and>
      queued_messages t = queued_messages s1 @ map (buffered lay) ms \<and>
      outstanding_reply_ids t = outstanding_reply_ids s1 - {rid} \<and> wire (dtx_stream t) = wire (dtx_stream s1) @ acks ms"
    by (rule Cons.IH [of s1 bss']) (use s1 b Cons.prems in \<open>auto simp: sizes_def\<close>)
  then show ?case using s1 by (subst wait_loop.simps) auto
qed

lemma method_call_waits:
  assumes "talking s" and "dtx_identifier s \<noteq> 0xFFFFFFFF" and "map_of (pending_replies s) (dtx_identifier s) = None"
  shows "method_call L lay code sel args s =
    on_err (wait_loop L lay (dtx_identifier s)) (\<lambda>t. t\<lparr>outstanding_reply_ids := outstanding_reply_ids t - {dtx_identifier s}\<rparr>)
      ((put_wire (call_frame L (dtx_identifier s) code True sel args) (s\<lparr>dtx_identifier := dtx_identifier s + 1\<rparr>))
        \<lparr>outstanding_reply_ids := insert (dtx_identifier s) (outstanding_reply_ids s)\<rparr>)"
proof -
  let ?id = "dtx_identifier s" and ?f = "call_frame L (dtx_identifier s) code True sel args"
  let ?next = "s\<lparr>dtx_identifier := ?id + 1\<rparr>"
  have talk: "talking ?next" using assms(1) by (simp add: talking_def)
  have "method_call L lay code sel args s = await_reply L lay ?id (put_wire ?f ?next)"
    using assms(2) send_talking [OF talk] by (simp add: method_call_def next_id_def and_then_run Let_def)
  then show ?thesis
    using assms(3) by (simp add: await_reply_def and_then_run proc_runs on_err_def wait_for_reply_def remove_pending_reply_def)
qed

text \<open>
  C14. \<open>method_call\<close> returns the reply to its own request. It puts the request on the wire with a fresh
  identifier; the messages that arrive before the reply and are no replies to outstanding requests are
  acknowledged when they ask for it and wait in the queue in the order of arrival, after the ones that
  were there; the first reply with the identifier is returned, and nothing after it is read.
\<close>

theorem dtx_method_call_returns_reply:
  assumes "frame_of L reply k rbs" and "m_identifier reply = dtx_identifier s" and "m_conversation_idx reply > 0"
    and "list_all2 (unrelated L lay (insert (dtx_identifier s) (outstanding_reply_ids s)) n) ms bss" and "k \<le> n"
    and "arriving s (concat bss @ rbs @ rest)" and "talking s"
    and "dtx_identifier s \<noteq> 0xFFFFFFFF" and "map_of (pending_replies s) (dtx_identifier s) = None"
    and "length (queued_messages s) + length ms \<le> 1024"
    and "memory_bytes_used s + sizes lay ms + n \<le> memory_limit s" and "memory_limit s \<le> usize_MAX"
  shows "\<exists>t. method_call L lay code sel args s = (Ok reply, t) \<and> arriving t rest \<and>
    queued_messages t = queued_messages s @ map (buffered lay) ms \<and>
    outstanding_reply_ids t = outstanding_reply_ids s - {dtx_identifier s} \<and>
    wire (dtx_stream t) = wire (dtx_stream s) @ call_frame L (dtx_identifier s) code True sel args @ acks ms"
proof -
  let ?id = "dtx_identifier s" and ?f = "call_frame L (dtx_identifier s) code True sel args"
  let ?s = "(put_wire ?f (s\<lparr>dtx_identifier := ?id + 1\<rparr>))\<lparr>outstanding_reply_ids := insert ?id (outstanding_reply_ids s)\<rparr>"
  note run = method_call_waits [OF assms(7-9)]
  have "\<exists>t. wait_loop L lay ?id ?s = (Ok reply, t) \<and> arriving t rest \<and>
      queued_messages t = queued_messages ?s @ map (buffered lay) ms \<and>
      outstanding_reply_ids t = outstanding_reply_ids ?s - {?id} \<and> wire (dtx_stream t) = wire (dtx_stream ?s) @ acks ms"
    by (rule wait_loop_reply [OF assms(1-3,5), of lay ?s ms bss rest])
      (use assms in \<open>auto simp: MAX_QUEUED_MESSAGES_def memory_bytes_used_def memory_limit_def put_wire_def talking_def\<close>)
  then show ?thesis by (auto simp: run on_err_def put_wire_def)
qed

text \<open>A device that first announces something and then replies.\<close>

definition device_header :: "u32 \<Rightarrow> u32 \<Rightarrow> bool \<Rightarrow> dtx_header" where
  "device_header ident conv reply = \<lparr>header_len = 32, frag_idx = 0, frag_cnt = 1, msg_len = 16, h_identifier = ident,
     h_conv_idx = conv, h_channel_code = 0, h_expects_reply = reply\<rparr>"

definition device_frame :: "u32 \<Rightarrow> u32 \<Rightarrow> bool \<Rightarrow> bytes" where
  "device_frame ident conv reply = header_wire (device_header ident conv reply) @ encode_dtx_body MSG_OK [] []"

definition device_message :: "u32 \<Rightarrow> u32 \<Rightarrow> bool \<Rightarrow> dtx_message" where
  "device_message ident conv reply = header_message (device_header ident conv reply) Empty"

lemma device_frame_of: "frame_of L (device_message ident conv reply) 16 (device_frame ident conv reply)"
  unfolding frame_of_def
proof (intro exI conjI)
  show "device_frame ident conv reply = header_wire (device_header ident conv reply) @ encode_dtx_body MSG_OK [] []"
    by (simp add: device_frame_def)
  show "decode_dtx_body_from_slice L (device_header ident conv reply) (encode_dtx_body MSG_OK [] []) =
      Inr (device_message ident conv reply)"
    by (subst decode_encode_body) (simp_all add: device_header_def device_message_def body_len_def decode_payload_def msg_defs)
  show "encode_dtx_body MSG_OK [] [] \<noteq> []"
    by (simp add: encode_dtx_body_def)
qed (simp_all add: device_header_def device_message_def header_message_def header_ok_def MAX_DTX_HEADER_SIZE_def
    MAX_DTX_FRAGMENTS_def MAX_DTX_MESSAGE_SIZE_def body_len_def normalize_incoming_channel_code_def checked_neg_def)

definition talk_state :: dtx where
  "talk_state = with_memory_limit \<lparr>rx = [Chunk (device_frame 1 0 True @ device_frame 5 1 False)], wx = [], fx = [], wire = []\<rparr> 1000"

definition empty_lib :: plist_lib where
  "empty_lib = \<lparr>read_plist = \<lambda>_. None, write_plist = \<lambda>_. [], show_f64 = \<lambda>_. []\<rparr>"

definition exact_layout :: layout where
  "exact_layout = \<lparr>string_capacity = length, array_capacity = length, dict_capacity = length, size_of_object = 32,
     size_of_entry = 56\<rparr>"

theorem dtx_method_call_returns_reply_witness:
  "\<exists>t. method_call empty_lib exact_layout 1 ''ping'' [] talk_state = (Ok (device_message 5 1 False), t) \<and>
     map b_message (queued_messages t) = [device_message 1 0 True] \<and>
     wire (dtx_stream t) = call_frame empty_lib 5 1 True ''ping'' [] @ encode_ack (device_message 1 0 True)"
proof -
  let ?n = "device_message 1 0 True" and ?r = "device_message 5 1 False"
  have fields: "dtx_identifier talk_state = 5" "outstanding_reply_ids talk_state = {}" "pending_replies talk_state = []"
    "queued_messages talk_state = []" "memory_bytes_used talk_state = 0" "memory_limit talk_state = 1000" "talking talk_state"
    "wire (dtx_stream talk_state) = []"
    by (simp_all add: talk_state_def with_memory_limit_def memory_bytes_used_def memory_limit_def budget_new_def talking_def)
  have arr: "arriving talk_state (concat [device_frame 1 0 True] @ device_frame 5 1 False @ [])"
    using carries_one [of "device_frame 1 0 True @ device_frame 5 1 False"]
    by (simp add: talk_state_def with_memory_limit_def device_frame_def)
  have ack: "acks [?n] = encode_ack ?n" by (simp add: device_message_def header_message_def device_header_def)
  have size: "dtx_message_memory_size exact_layout ?n = Inr 0"
    by (simp add: dtx_message_memory_size_def device_message_def header_message_def)
  have "unrelated empty_lib exact_layout (insert (dtx_identifier talk_state) (outstanding_reply_ids talk_state)) 16 ?n (device_frame 1 0 True)"
    using device_frame_of [of empty_lib 1 0 True] size by (auto simp: unrelated_def fields device_message_def header_message_def device_header_def)
  then have un: "list_all2 (unrelated empty_lib exact_layout (insert (dtx_identifier talk_state) (outstanding_reply_ids talk_state)) 16)
      [?n] [device_frame 1 0 True]" by simp
  have "m_identifier ?r = dtx_identifier talk_state" "m_conversation_idx ?r > 0"
    by (simp_all add: fields device_message_def header_message_def device_header_def)
  from dtx_method_call_returns_reply [OF device_frame_of this un order_refl arr fields(7), of 1 "''ping''" "[]"]
  show ?thesis
    by (auto simp: fields sizes_def size buffered_def ack simp del: acks_simps)
qed

text \<open>A device that first sends three bytes nobody asked for and then replies: the three bytes are queued and counted.\<close>

definition news_header :: dtx_header where
  "news_header = (device_header 1 0 True)\<lparr>msg_len := 19\<rparr>"

definition news_frame :: bytes where
  "news_frame = header_wire news_header @ encode_dtx_body MSG_UNKNOWN_TYPE_ONE [1, 2, 3] []"

definition news_message :: dtx_message where
  "news_message = header_message news_header (Raw [1, 2, 3])"

lemma news_frame_of: "frame_of L news_message 19 news_frame"
  unfolding frame_of_def
proof (intro exI conjI)
  show "news_frame = header_wire news_header @ encode_dtx_body MSG_UNKNOWN_TYPE_ONE [1, 2, 3] []"
    by (simp add: news_frame_def)
  show "decode_dtx_body_from_slice L news_header (encode_dtx_body MSG_UNKNOWN_TYPE_ONE [1, 2, 3] []) = Inr news_message"
    by (subst decode_encode_body)
      (simp_all add: news_header_def device_header_def news_message_def body_len_def decode_payload_def msg_defs)
  show "encode_dtx_body MSG_UNKNOWN_TYPE_ONE [1, 2, 3] [] \<noteq> []" by (simp add: encode_dtx_body_def)
qed (simp_all add: news_header_def device_header_def news_message_def header_message_def header_ok_def MAX_DTX_HEADER_SIZE_def
    MAX_DTX_FRAGMENTS_def MAX_DTX_MESSAGE_SIZE_def body_len_def normalize_incoming_channel_code_def checked_neg_def)

definition news_state :: dtx where
  "news_state = with_memory_limit \<lparr>rx = [Chunk (news_frame @ device_frame 5 1 False)], wx = [], fx = [], wire = []\<rparr> 1000"

lemma news_call:
  "\<exists>t. method_call empty_lib exact_layout 1 ''ping'' [] news_state = (Ok (device_message 5 1 False), t) \<and>
     map b_message (queued_messages t) = [news_message]"
proof -
  let ?r = "device_message 5 1 False"
  let ?s = "(put_wire (call_frame empty_lib 5 1 True ''ping'' []) (news_state\<lparr>dtx_identifier := 5 + 1\<rparr>))
    \<lparr>outstanding_reply_ids := insert 5 {}\<rparr>"
  have fields: "dtx_identifier news_state = 5" "outstanding_reply_ids news_state = {}" "pending_replies news_state = []" "talking news_state"
    by (simp_all add: news_state_def with_memory_limit_def talking_def)
  have arr: "carries (rx (dtx_stream news_state)) (concat [news_frame] @ device_frame 5 1 False @ [])"
    using carries_one [of "news_frame @ device_frame 5 1 False"]
    by (simp add: news_state_def with_memory_limit_def device_frame_def)
  have size: "dtx_message_memory_size exact_layout news_message = Inr 3"
    by (simp add: dtx_message_memory_size_def news_message_def header_message_def checked_size_add_def usize_checked_add_def)
  have "unrelated empty_lib exact_layout (outstanding_reply_ids ?s) 19 news_message news_frame"
    using news_frame_of [of empty_lib] size
    by (auto simp: unrelated_def news_message_def header_message_def news_header_def device_header_def)
  then have un: "list_all2 (unrelated empty_lib exact_layout (outstanding_reply_ids ?s) 19) [news_message] [news_frame]" by simp
  have "\<exists>t. wait_loop empty_lib exact_layout 5 ?s = (Ok ?r, t) \<and> arriving t [] \<and>
      queued_messages t = queued_messages ?s @ map (buffered exact_layout) [news_message] \<and>
      outstanding_reply_ids t = outstanding_reply_ids ?s - {5} \<and> wire (dtx_stream t) = wire (dtx_stream ?s) @ acks [news_message]"
    by (rule wait_loop_reply [OF device_frame_of _ _ _ un])
      (use arr size in \<open>simp_all add: device_message_def header_message_def device_header_def sizes_def news_state_def with_memory_limit_def
        talking_def put_wire_def memory_bytes_used_def memory_limit_def budget_new_def MAX_QUEUED_MESSAGES_def\<close>)
  then show ?thesis
    using method_call_waits [OF fields(4), of empty_lib exact_layout 1 "''ping''" "[]"] fields
    by (auto simp: on_err_def buffered_def news_state_def with_memory_limit_def put_wire_def)
qed

theorem dtx_memory_bounded_witness:
  "\<exists>t. dtx_run empty_lib exact_layout 1000 0 t \<and> map b_message (queued_messages t) = [news_message] \<and>
     map b_reserved_bytes (queued_messages t) = [3] \<and> memory_bytes_used t = retained t \<and>
     stored_contents exact_layout t \<le> memory_bytes_used t \<and> memory_bytes_used t \<le> 1000"
proof -
  obtain t where t: "method_call empty_lib exact_layout 1 ''ping'' [] news_state = (Ok (device_message 5 1 False), t)"
    "map b_message (queued_messages t) = [news_message]" using news_call by (elim exE conjE) (rule that)
  then have "dtx_op empty_lib exact_layout news_state False t" using op_call [OF t(1)] by simp
  then have run: "dtx_run empty_lib exact_layout 1000 0 t" unfolding news_state_def by (rule run_op [OF run_new])
  have size: "dtx_message_memory_size exact_layout news_message = Inr 3"
    by (simp add: dtx_message_memory_size_def news_message_def header_message_def checked_size_add_def usize_checked_add_def)
  have "generous exact_layout" by (simp add: generous_def exact_layout_def)
  with dtx_memory_bounded [OF run] t(2) size run show ?thesis by (intro exI [of _ t]) (auto simp: map_eq_Cons_conv)
qed

end
