(* ===== verification/Xpc_Connection.thy ===== *)
theory Xpc_Connection
  imports H2_Ops
begin

text \<open>
  The XPC connection over the HTTP/2 framer (\<open>xpc/rsd.rs\<close>, \<open>xpc/client.rs\<close>): reading whole XPC
  messages from a stream, correlating replies under a memory budget, the bootstrap exchanges, the
  Remote Service Discovery handshake and the client built on them. A function of the source that
  takes \<open>&mut H2Framer\<close> is a handler over \<open>h2\<close>, a method of \<open>XpcConnection\<close> one over \<open>xpc_conn\<close>.
  A \<open>HashMap\<close> is a partial map. What a value occupies in memory is the parameter \<open>lay\<close>: the
  capacities the allocator chose and the sizes of the types.
\<close>

datatype xpc_failure =
    XpcErr xpc_error
  | H2Err string h2_error

type_synonym 'a framer_proc = "(h2, xpc_failure, 'a) proc"

text \<open>A call of the framer, with the prefix that \<open>map_err\<close> puts before its error.\<close>

definition framer_call :: "string \<Rightarrow> 'a h2_proc \<Rightarrow> 'a framer_proc" where
  "framer_call prefix m = on_stream (\<lambda>s. s) (\<lambda>k _. k) (H2Err prefix) m"

definition xpc_check :: "(xpc_error + 'a) \<Rightarrow> ('s, xpc_failure, 'a) proc" where
  "xpc_check r = check (\<lambda>_. case r of Inl e \<Rightarrow> Inl (XpcErr e) | Inr x \<Rightarrow> Inr x)"

lemma framer_call_state: "snd (framer_call prefix m s) = snd (m s)"
  by (simp add: framer_call_def on_stream_state)

lemma framer_call_Ok: "framer_call prefix m s = (Ok x, t) \<longleftrightarrow> m s = (Ok x, t)"
  by (auto simp: framer_call_def on_stream_def split: prod.splits outcome.splits)

lemma xpc_check_simps [simp]:
  "xpc_check (Inr x) s = (Ok x, s)" "xpc_check (Inl e) s = (Err (XpcErr e), s)" "snd (xpc_check r s) = s"
  by (simp_all add: xpc_check_def check_def split: sum.splits)

lemma xpc_check_Ok: "xpc_check r s = (Ok x, t) \<longleftrightarrow> r = Inr x \<and> t = s"
  by (auto simp: xpc_check_def check_def split: sum.splits)

section \<open>Reading a message\<close>

definition MAX_XPC_BODY_READ_CHUNK :: nat where
  "MAX_XPC_BODY_READ_CHUNK = MAX_BUFFERED_BYTES_PER_STREAM - MAX_FRAME_PAYLOAD"

function read_xpc_body_in_chunks :: "u32 \<Rightarrow> nat \<Rightarrow> bytes h2_proc" where
  "read_xpc_body_in_chunks sid remaining =
     (if remaining = 0 then ret []
      else let chunk_len = min remaining MAX_XPC_BODY_READ_CHUNK in
           and_then (read_stream sid chunk_len) (\<lambda>chunk.
           and_then (read_xpc_body_in_chunks sid (remaining - chunk_len)) (\<lambda>rest. ret (chunk @ rest))))"
  by pat_completeness auto
termination
  by (relation "measure snd")
    (auto simp: MAX_XPC_BODY_READ_CHUNK_def MAX_BUFFERED_BYTES_PER_STREAM_def MAX_FRAME_PAYLOAD_def)

declare read_xpc_body_in_chunks.simps [simp del]

definition not_mid_message :: "h2 \<Rightarrow> xpc_failure + unit" where
  "not_mid_message s =
     (if message_read_in_progress s
      then Inl (XpcErr (Tls ''a previous XPC read was cancelled mid-message; the connection is no longer frame-aligned and must be re-established'' []))
      else Inr ())"

text \<open>What follows the header: the mark is cleared once the whole body was read, and on no error.\<close>

definition read_marked_body :: "u32 \<Rightarrow> bytes \<Rightarrow> (bytes \<times> bytes) framer_proc" where
  "read_marked_body sid header =
     (let declared_body_len = from_le64 (take 8 (drop 8 header));
          message_flags = from_le32 (take 4 (drop 4 header)) in
      and_then (xpc_check (checked_xpc_body_len declared_body_len (xpc_body_limit_for_flags message_flags))) (\<lambda>body_len.
      and_then (if body_len = 0 then ret []
                else framer_call ''read body: {e}'' (read_xpc_body_in_chunks sid body_len)) (\<lambda>body.
      and_then (modify end_message_body) (\<lambda>_. ret (header, body)))))"

definition read_raw_xpc_message :: "u32 \<Rightarrow> (bytes \<times> bytes) framer_proc" where
  "read_raw_xpc_message sid =
     and_then (check not_mid_message) (\<lambda>_.
     and_then (framer_call ''read header: {e}'' (read_stream sid 24)) (\<lambda>header.
     and_then (modify begin_message_body) (\<lambda>_. read_marked_body sid header)))"

definition read_raw_xpc_on_client_server :: "(bytes \<times> bytes) framer_proc" where
  "read_raw_xpc_on_client_server = read_raw_xpc_message STREAM_CLIENT_SERVER"

definition read_raw_xpc_on_server_client :: "(bytes \<times> bytes) framer_proc" where
  "read_raw_xpc_on_server_client = read_raw_xpc_message STREAM_SERVER_CLIENT"

definition discard_xpc_on_client_server :: "unit framer_proc" where
  "discard_xpc_on_client_server = and_then read_raw_xpc_on_client_server (\<lambda>_. ret ())"

definition discard_xpc_on_server_client :: "unit framer_proc" where
  "discard_xpc_on_server_client = and_then read_raw_xpc_on_server_client (\<lambda>_. ret ())"

definition read_xpc_on_client_server :: "xpc_message framer_proc" where
  "read_xpc_on_client_server =
     and_then read_raw_xpc_on_client_server (\<lambda>(header, body). xpc_check (xpc_decode_message (header @ body)))"

section \<open>Bootstrap\<close>

definition initialize_xpc_connection_on_framer :: "unit framer_proc" where
  "initialize_xpc_connection_on_framer =
     and_then (xpc_check (xpc_encode_message \<lparr>flags = XPC_ALWAYS_SET, msg_id = 0, body = Some (XDictionary [])\<rparr>)) (\<lambda>msg1.
     and_then (framer_call ''xpc init write 1: {e}'' (write_client_server msg1)) (\<lambda>_.
     and_then discard_xpc_on_client_server (\<lambda>_.
     and_then (xpc_check (xpc_encode_message \<lparr>flags = XPC_ALWAYS_SET OR 0x200, msg_id = 0, body = None\<rparr>)) (\<lambda>msg3.
     and_then (framer_call ''xpc init open stream 3: {e}'' (open_stream STREAM_SERVER_CLIENT)) (\<lambda>_.
     and_then (framer_call ''xpc init write 2: {e}'' (write_client_server msg3)) (\<lambda>_.
     and_then discard_xpc_on_client_server (\<lambda>_.
     and_then (xpc_check (xpc_encode_message \<lparr>flags = INIT_HANDSHAKE OR XPC_ALWAYS_SET, msg_id = 0, body = None\<rparr>)) (\<lambda>msg2.
     and_then (framer_call ''xpc init write 3: {e}'' (write_server_client msg2)) (\<lambda>_.
     discard_xpc_on_server_client)))))))))"

definition queue_rsd_handshake_bootstrap_on_framer :: "unit framer_proc" where
  "queue_rsd_handshake_bootstrap_on_framer =
     and_then (xpc_check (xpc_encode_message \<lparr>flags = XPC_ALWAYS_SET, msg_id = 0, body = Some (XDictionary [])\<rparr>)) (\<lambda>msg1.
     and_then (framer_call ''rsd bootstrap write 1: {e}'' (write_client_server msg1)) (\<lambda>_.
     and_then (framer_call ''rsd bootstrap open stream 3: {e}'' (open_stream STREAM_SERVER_CLIENT)) (\<lambda>_.
     and_then (xpc_check (xpc_encode_message \<lparr>flags = XPC_ALWAYS_SET OR 0x200, msg_id = 0, body = None\<rparr>)) (\<lambda>msg2.
     and_then (framer_call ''rsd bootstrap write 2: {e}'' (write_client_server msg2)) (\<lambda>_.
     and_then (xpc_check (xpc_encode_message \<lparr>flags = INIT_HANDSHAKE OR XPC_ALWAYS_SET, msg_id = 0, body = None\<rparr>)) (\<lambda>msg3.
     framer_call ''rsd bootstrap write 3: {e}'' (write_server_client msg3)))))))"

section \<open>The service discovery handshake\<close>

record service_descriptor =
  sd_port :: u16
  sd_features :: "bytes list"

definition ServiceDescriptor_new :: "u16 \<Rightarrow> service_descriptor" where
  "ServiceDescriptor_new p = \<lparr>sd_port = p, sd_features = []\<rparr>"

definition descriptor_supports_feature :: "service_descriptor \<Rightarrow> bytes \<Rightarrow> bool" where
  "descriptor_supports_feature d feature \<longleftrightarrow> sd_features d = [] \<or> feature \<in> set (sd_features d)"

record rsd_handshake =
  rsd_udid :: bytes
  rsd_services :: "bytes \<rightharpoonup> service_descriptor"

definition shim_name :: "bytes \<Rightarrow> bytes" where
  "shim_name service = service @ ascii ''.shim.remote''"

definition get_port :: "rsd_handshake \<Rightarrow> bytes \<Rightarrow> u16 option" where
  "get_port h service = (case rsd_services h service of
       Some d \<Rightarrow> Some (sd_port d)
     | None \<Rightarrow> map_option sd_port (rsd_services h (shim_name service)))"

definition get_service_features :: "rsd_handshake \<Rightarrow> bytes \<Rightarrow> bytes list option" where
  "get_service_features h service = map_option sd_features (rsd_services h service)"

definition get_resolved_service_features :: "rsd_handshake \<Rightarrow> bytes \<Rightarrow> bytes list option" where
  "get_resolved_service_features h service = (case get_service_features h service of
       Some fs \<Rightarrow> Some fs
     | None \<Rightarrow> map_option sd_features (rsd_services h (shim_name service)))"

definition supports_feature :: "rsd_handshake \<Rightarrow> bytes \<Rightarrow> bytes \<Rightarrow> bool option" where
  "supports_feature h service feature =
     map_option (\<lambda>d. descriptor_supports_feature d feature) (rsd_services h service)"

abbreviation (input) lookup :: "(bytes \<times> xpc_value) list \<Rightarrow> string \<Rightarrow> xpc_value option" where
  "lookup d key \<equiv> map_of d (ascii key)"

definition service_port :: "(bytes \<times> xpc_value) list \<Rightarrow> u16 option" where
  "service_port svc_dict = Option.bind (lookup svc_dict ''Port'') (\<lambda>p. case p of
       XString s \<Rightarrow> map_option of_nat (parse_radix 10 65535 s)
     | XUint64 n \<Rightarrow> (if unat n \<le> 65535 then Some (ucast n) else None)
     | _ \<Rightarrow> None)"

definition service_features :: "(bytes \<times> xpc_value) list \<Rightarrow> bytes list" where
  "service_features svc_dict =
     (case Option.bind (Option.bind (lookup svc_dict ''Properties'') as_dict) (\<lambda>p. lookup p ''Features'') of
        Some (XArray features) \<Rightarrow> List.map_filter as_str features
      | _ \<Rightarrow> [])"

definition service_entry :: "xpc_value \<Rightarrow> service_descriptor option" where
  "service_entry svc_val = Option.bind (as_dict svc_val) (\<lambda>svc_dict.
     map_option (\<lambda>port. \<lparr>sd_port = port, sd_features = service_features svc_dict\<rparr>) (service_port svc_dict))"

fun collect_services :: "(bytes \<times> xpc_value) list \<Rightarrow> (bytes \<rightharpoonup> service_descriptor) \<Rightarrow> bytes \<rightharpoonup> service_descriptor" where
  "collect_services [] services = services"
| "collect_services ((name, svc_val) # svc_map) services =
     collect_services svc_map (case service_entry svc_val of
       Some d \<Rightarrow> services(name \<mapsto> d) | None \<Rightarrow> services)"

definition parse_handshake_message :: "xpc_message \<Rightarrow> xpc_error + rsd_handshake" where
  "parse_handshake_message msg =
     attempt (ok_or (Tls ''RSD: expected XPC dict body'' []) (Option.bind (body msg) as_dict)) (\<lambda>dict.
     attempt (ok_or (Tls ''RSD: missing Handshake MessageType'' [])
       (Option.bind (lookup dict ''MessageType'') as_str)) (\<lambda>message_type.
     if message_type \<noteq> ascii ''Handshake'' then
       Inl (Tls ''RSD: unexpected MessageType; expected Handshake'' [])
     else
       attempt (ok_or (Tls ''RSD: missing UniqueDeviceID'' [])
         (Option.bind (Option.bind (Option.bind (lookup dict ''Properties'') as_dict)
            (\<lambda>d. lookup d ''UniqueDeviceID'')) as_str)) (\<lambda>udid.
       Inr \<lparr>rsd_udid = udid,
            rsd_services = (case lookup dict ''Services'' of
                Some (XDictionary svc_map) \<Rightarrow> collect_services svc_map Map.empty
              | _ \<Rightarrow> Map.empty)\<rparr>)))"

fun handshake_attempts :: "nat \<Rightarrow> xpc_error option \<Rightarrow> rsd_handshake framer_proc" where
  "handshake_attempts 0 last_err =
     throw (XpcErr (case last_err of Some e \<Rightarrow> e | None \<Rightarrow> Tls ''RSD: no handshake message received'' []))"
| "handshake_attempts (Suc n) last_err =
     and_then read_xpc_on_client_server (\<lambda>msg. case parse_handshake_message msg of
         Inr h \<Rightarrow> ret h
       | Inl err \<Rightarrow> handshake_attempts n (Some err))"

definition read_rsd_handshake :: "rsd_handshake framer_proc" where
  "read_rsd_handshake = handshake_attempts 6 None"

definition handshake_on_framer :: "rsd_handshake framer_proc" where
  "handshake_on_framer = read_rsd_handshake"

section \<open>Memory sizes\<close>

record xpc_layout =
  xl_string_capacity :: "bytes \<Rightarrow> nat"
  xl_array_capacity :: "xpc_value list \<Rightarrow> nat"
  xl_dict_capacity :: "(bytes \<times> xpc_value) list \<Rightarrow> nat"
  xl_size_of_value :: nat
  xl_size_of_entry :: nat
  xl_size_of_message :: nat

definition add_pending_size :: "nat \<Rightarrow> nat \<Rightarrow> string \<Rightarrow> xpc_error + nat" where
  "add_pending_size acc amount kind =
     ok_or (Tls (''XPC pending message size overflow while accounting '' @ kind) []) (usize_checked_add acc amount)"

definition pending_slots :: "nat \<Rightarrow> nat \<Rightarrow> string \<Rightarrow> xpc_error + nat" where
  "pending_slots capacity slot kind =
     attempt (ok_or (Tls (''XPC pending message size overflow while accounting '' @ kind) [])
       (usize_checked_mul capacity slot)) (\<lambda>n. add_pending_size 0 n kind)"

fun xpc_value_memory_size :: "xpc_layout \<Rightarrow> xpc_value \<Rightarrow> xpc_error + nat"
  and xpc_values_memory_size :: "xpc_layout \<Rightarrow> nat \<Rightarrow> xpc_value list \<Rightarrow> xpc_error + nat"
  and xpc_entries_memory_size :: "xpc_layout \<Rightarrow> nat \<Rightarrow> (bytes \<times> xpc_value) list \<Rightarrow> xpc_error + nat"
where
  "xpc_value_memory_size lay (XData d) = add_pending_size 0 (length d) ''data''"
| "xpc_value_memory_size lay (XString s) = add_pending_size 0 (xl_string_capacity lay s) ''string''"
| "xpc_value_memory_size lay (XArray vs) =
     attempt (pending_slots (xl_array_capacity lay vs) (xl_size_of_value lay) ''array slots'') (\<lambda>acc.
     xpc_values_memory_size lay acc vs)"
| "xpc_value_memory_size lay (XDictionary es) =
     attempt (pending_slots (xl_dict_capacity lay es) (xl_size_of_entry lay) ''dictionary slots'') (\<lambda>acc.
     xpc_entries_memory_size lay acc es)"
| "xpc_value_memory_size lay (XFileTransfer i d) =
     attempt (add_pending_size 0 (xl_size_of_value lay) ''file-transfer value'') (\<lambda>acc.
     attempt (xpc_value_memory_size lay d) (\<lambda>n. add_pending_size acc n ''file-transfer data''))"
| "xpc_value_memory_size lay v = Inr 0"
| "xpc_values_memory_size lay acc [] = Inr acc"
| "xpc_values_memory_size lay acc (v # vs) =
     attempt (xpc_value_memory_size lay v) (\<lambda>n.
     attempt (add_pending_size acc n ''array values'') (\<lambda>acc1. xpc_values_memory_size lay acc1 vs))"
| "xpc_entries_memory_size lay acc [] = Inr acc"
| "xpc_entries_memory_size lay acc ((k, v) # es) =
     attempt (add_pending_size acc (xl_string_capacity lay k) ''dictionary key'') (\<lambda>acc1.
     attempt (xpc_value_memory_size lay v) (\<lambda>n.
     attempt (add_pending_size acc1 n ''dictionary values'') (\<lambda>acc2. xpc_entries_memory_size lay acc2 es)))"

definition xpc_message_memory_size :: "xpc_layout \<Rightarrow> xpc_message \<Rightarrow> xpc_error + nat" where
  "xpc_message_memory_size lay message =
     attempt (case body message of None \<Rightarrow> Inr 0 | Some v \<Rightarrow> xpc_value_memory_size lay v) (\<lambda>n.
     ok_or (Tls ''XPC pending message size overflow'' []) (usize_checked_add (xl_size_of_message lay) n))"

section \<open>The budget of parked messages\<close>

definition MAX_PENDING_MESSAGES_PER_STREAM :: nat where "MAX_PENDING_MESSAGES_PER_STREAM = 1024"
definition DEFAULT_PENDING_BYTES_PER_STREAM :: nat where "DEFAULT_PENDING_BYTES_PER_STREAM = 128 * 1024 * 1024"
definition DEFAULT_PENDING_BYTES_CONNECTION :: nat where "DEFAULT_PENDING_BYTES_CONNECTION = 512 * 1024 * 1024"

record pending_message =
  pm_message :: xpc_message
  pm_bytes :: nat

record pending_message_budget =
  per_stream_limit :: nat
  connection_limit :: nat
  per_stream_bytes :: "u32 \<rightharpoonup> nat"
  total_bytes :: nat

definition PendingMessageBudget_new :: "nat \<Rightarrow> nat \<Rightarrow> pending_message_budget" where
  "PendingMessageBudget_new stream_limit conn_limit =
     \<lparr>per_stream_limit = stream_limit, connection_limit = conn_limit, per_stream_bytes = Map.empty, total_bytes = 0\<rparr>"

definition stream_bytes :: "u32 \<Rightarrow> pending_message_budget \<Rightarrow> nat" where
  "stream_bytes sid b = (case per_stream_bytes b sid of Some n \<Rightarrow> n | None \<Rightarrow> 0)"

definition budget_reserve :: "u32 \<Rightarrow> nat \<Rightarrow> pending_message_budget \<Rightarrow> xpc_error + pending_message_budget" where
  "budget_reserve sid bytes b =
     (let current_stream = stream_bytes sid b in
      attempt (ok_or (Tls ''XPC pending bytes overflow on stream {stream_id}: current {current_stream}, incoming {bytes}''
          [unat sid, current_stream, bytes]) (usize_checked_add current_stream bytes)) (\<lambda>next_stream.
      attempt (ok_or (Tls ''XPC pending connection bytes overflow: current {}, incoming {bytes}'' [total_bytes b, bytes])
          (usize_checked_add (total_bytes b) bytes)) (\<lambda>next_total.
      if next_stream > per_stream_limit b then
        Inl (Tls ''XPC pending bytes {next_stream} on stream {stream_id} exceed per-stream limit {} (current {current_stream}, incoming {bytes})''
          [next_stream, unat sid, per_stream_limit b, current_stream, bytes])
      else if next_total > connection_limit b then
        Inl (Tls ''XPC pending connection bytes {next_total} exceed limit {} (current {}, incoming {bytes})''
          [next_total, connection_limit b, total_bytes b, bytes])
      else Inr (b\<lparr>per_stream_bytes := (per_stream_bytes b)(sid \<mapsto> next_stream), total_bytes := next_total\<rparr>))))"

definition budget_replace :: "u32 \<Rightarrow> nat \<Rightarrow> nat \<Rightarrow> pending_message_budget \<Rightarrow> xpc_error + pending_message_budget" where
  "budget_replace sid old_bytes new_bytes b =
     (let current_stream = stream_bytes sid b in
      attempt (ok_or (Tls ''XPC pending byte accounting underflow on stream {stream_id}: current {current_stream}, replacing {old_bytes}''
          [unat sid, current_stream, old_bytes]) (usize_checked_sub current_stream old_bytes)) (\<lambda>base_stream.
      attempt (ok_or (Tls ''XPC pending connection byte accounting underflow: current {}, replacing {old_bytes}'' [total_bytes b, old_bytes])
          (usize_checked_sub (total_bytes b) old_bytes)) (\<lambda>base_total.
      attempt (ok_or (Tls ''XPC pending bytes overflow on stream {stream_id}: base {base_stream}, replacement {new_bytes}''
          [unat sid, base_stream, new_bytes]) (usize_checked_add base_stream new_bytes)) (\<lambda>next_stream.
      attempt (ok_or (Tls ''XPC pending connection bytes overflow: base {base_total}, replacement {new_bytes}'' [base_total, new_bytes])
          (usize_checked_add base_total new_bytes)) (\<lambda>next_total.
      if next_stream > per_stream_limit b then
        Inl (Tls ''XPC replacement pending bytes {next_stream} on stream {stream_id} exceed per-stream limit {} (old {old_bytes}, new {new_bytes})''
          [next_stream, unat sid, per_stream_limit b, old_bytes, new_bytes])
      else if next_total > connection_limit b then
        Inl (Tls ''XPC replacement pending connection bytes {next_total} exceed limit {} (old {old_bytes}, new {new_bytes})''
          [next_total, connection_limit b, old_bytes, new_bytes])
      else Inr (b\<lparr>per_stream_bytes := (per_stream_bytes b)(sid := if next_stream = 0 then None else Some next_stream),
                  total_bytes := next_total\<rparr>))))))"

text \<open>Subtraction saturates at zero, as \<open>-\<close> does on natural numbers.\<close>

definition budget_release :: "u32 \<Rightarrow> nat \<Rightarrow> pending_message_budget \<Rightarrow> pending_message_budget" where
  "budget_release sid bytes b = b\<lparr>
     per_stream_bytes := (case per_stream_bytes b sid of
         None \<Rightarrow> per_stream_bytes b
       | Some current_stream \<Rightarrow> (let remaining = current_stream - bytes in
           (per_stream_bytes b)(sid := if remaining = 0 then None else Some remaining))),
     total_bytes := total_bytes b - bytes\<rparr>"

definition budget_clear_stream :: "u32 \<Rightarrow> pending_message_budget \<Rightarrow> pending_message_budget" where
  "budget_clear_stream sid b = (case per_stream_bytes b sid of
       None \<Rightarrow> b
     | Some bytes \<Rightarrow> b\<lparr>per_stream_bytes := (per_stream_bytes b)(sid := None), total_bytes := total_bytes b - bytes\<rparr>)"

definition budget_clear :: "pending_message_budget \<Rightarrow> pending_message_budget" where
  "budget_clear b = b\<lparr>per_stream_bytes := Map.empty, total_bytes := 0\<rparr>"

section \<open>The connection\<close>

record xpc_conn =
  framer :: h2
  next_msg_id :: u64
  pending_messages :: "u32 \<rightharpoonup> pending_message list"
  pending_budget :: pending_message_budget
  sending_message_in_progress :: bool

type_synonym 'a xpc_proc = "(xpc_conn, xpc_failure, 'a) proc"

definition with_pending_memory_limits :: "h2 \<Rightarrow> nat \<Rightarrow> nat \<Rightarrow> xpc_conn" where
  "with_pending_memory_limits f stream_limit conn_limit =
     \<lparr>framer = f, next_msg_id = 1, pending_messages = Map.empty,
      pending_budget = PendingMessageBudget_new stream_limit conn_limit, sending_message_in_progress = False\<rparr>"

definition XpcConnection_new :: "h2 \<Rightarrow> xpc_conn" where
  "XpcConnection_new f =
     with_pending_memory_limits f DEFAULT_PENDING_BYTES_PER_STREAM DEFAULT_PENDING_BYTES_CONNECTION"

definition pending_memory_bytes_used :: "xpc_conn \<Rightarrow> nat" where
  "pending_memory_bytes_used c = total_bytes (pending_budget c)"

text \<open>The counter wraps, as \<open>+=\<close> on \<open>u64\<close> does in a release build.\<close>

definition xpc_next_id :: "u64 xpc_proc" where
  "xpc_next_id c = (Ok (next_msg_id c), c\<lparr>next_msg_id := next_msg_id c + 1\<rparr>)"

abbreviation (input) on_framer :: "(h2, 'e, 'a) proc \<Rightarrow> ('e \<Rightarrow> xpc_failure) \<Rightarrow> 'a xpc_proc" where
  "on_framer m wrap \<equiv> on_stream framer (\<lambda>f c. c\<lparr>framer := f\<rparr>) wrap m"

definition ensure_reusable :: "xpc_conn \<Rightarrow> xpc_failure + unit" where
  "ensure_reusable c =
     attempt (case ensure_connection_open (framer c) of Inl e \<Rightarrow> Inl (H2Err ''{e}'' e) | Inr x \<Rightarrow> Inr x) (\<lambda>_.
     attempt (not_mid_message (framer c)) (\<lambda>_.
     if sending_message_in_progress c
     then Inl (XpcErr (Tls ''a previous XPC send was cancelled mid-message; the connection is no longer frame-aligned and must be re-established'' []))
     else Inr ()))"

subsection \<open>Parked messages\<close>

definition replace_pending_message :: "u32 \<Rightarrow> nat \<Rightarrow> xpc_message \<Rightarrow> nat \<Rightarrow> xpc_conn \<Rightarrow> xpc_error + xpc_conn" where
  "replace_pending_message sid index message bytes c =
     (case pending_messages c sid of
        Some pending \<Rightarrow>
          if index < length pending then
            attempt (budget_replace sid (pm_bytes (pending ! index)) bytes (pending_budget c)) (\<lambda>b.
            Inr (c\<lparr>pending_budget := b, pending_messages := (pending_messages c)(sid \<mapsto>
              pending[index := \<lparr>pm_message = message, pm_bytes = bytes\<rparr>])\<rparr>))
          else Inl (Tls ''XPC pending message replacement index {index} missing on stream {stream_id}'' [index, unat sid])
      | None \<Rightarrow> Inl (Tls ''XPC pending message replacement index {index} missing on stream {stream_id}'' [index, unat sid]))"

definition queue_of :: "u32 \<Rightarrow> xpc_conn \<Rightarrow> pending_message list" where
  "queue_of sid c = (case pending_messages c sid of Some pending \<Rightarrow> pending | None \<Rightarrow> [])"

definition push_pending_message :: "xpc_layout \<Rightarrow> u32 \<Rightarrow> xpc_message \<Rightarrow> xpc_conn \<Rightarrow> xpc_error + xpc_conn" where
  "push_pending_message lay sid message c =
     attempt (xpc_message_memory_size lay message) (\<lambda>bytes.
     case (if msg_id message = 0 then None
           else position (\<lambda>e. msg_id (pm_message e) = msg_id message) (queue_of sid c)) of
       Some index \<Rightarrow> replace_pending_message sid index message bytes c
     | None \<Rightarrow>
         if length (queue_of sid c) \<ge> MAX_PENDING_MESSAGES_PER_STREAM then
           Inl (Tls ''XPC: more than {MAX_PENDING_MESSAGES_PER_STREAM} unmatched messages buffered on stream {stream_id} while waiting for a reply''
             [MAX_PENDING_MESSAGES_PER_STREAM, unat sid])
         else attempt (budget_reserve sid bytes (pending_budget c)) (\<lambda>b.
           Inr (c\<lparr>pending_budget := b, pending_messages := (pending_messages c)(sid \<mapsto>
             queue_of sid c @ [\<lparr>pm_message = message, pm_bytes = bytes\<rparr>])\<rparr>)))"

text \<open>Take the message at an index out of the queue; an emptied queue is removed.\<close>

definition remove_pending_at :: "u32 \<Rightarrow> nat \<Rightarrow> pending_message list \<Rightarrow> xpc_conn \<Rightarrow> xpc_message option \<times> xpc_conn" where
  "remove_pending_at sid index pending c =
     (let rest = take index pending @ drop (Suc index) pending in
      (Some (pm_message (pending ! index)),
       c\<lparr>pending_messages := (pending_messages c)(sid := if rest = [] then None else Some rest),
         pending_budget := budget_release sid (pm_bytes (pending ! index)) (pending_budget c)\<rparr>))"

definition pop_next_pending_message :: "u32 \<Rightarrow> xpc_conn \<Rightarrow> xpc_message option \<times> xpc_conn" where
  "pop_next_pending_message sid c = (case pending_messages c sid of
       None \<Rightarrow> (None, c)
     | Some pending \<Rightarrow> if pending = [] then (None, c) else remove_pending_at sid 0 pending c)"

definition take_pending_message :: "u32 \<Rightarrow> u64 \<Rightarrow> xpc_conn \<Rightarrow> xpc_message option \<times> xpc_conn" where
  "take_pending_message sid mid c = (case pending_messages c sid of
       None \<Rightarrow> (None, c)
     | Some pending \<Rightarrow> (case position (\<lambda>e. msg_id (pm_message e) = mid) pending of
           None \<Rightarrow> (None, c)
         | Some index \<Rightarrow> remove_pending_at sid index pending c))"

definition clear_pending_stream :: "u32 \<Rightarrow> xpc_conn \<Rightarrow> xpc_conn" where
  "clear_pending_stream sid c =
     c\<lparr>pending_messages := (pending_messages c)(sid := None), pending_budget := budget_clear_stream sid (pending_budget c)\<rparr>"

definition xpc_drop :: "xpc_conn \<Rightarrow> xpc_conn" where
  "xpc_drop c = c\<lparr>pending_messages := Map.empty, pending_budget := budget_clear (pending_budget c)\<rparr>"

end
