(* ===== verification/Xpc_Client.thy ===== *)
theory Xpc_Client
  imports Xpc_Connection H2_Memory
begin

text \<open>
  The operations of an XPC connection that read or write (\<open>xpc/rsd.rs\<close>, \<open>XpcConnection\<close>) and the
  client on top of it (\<open>xpc/client.rs\<close>, \<open>XpcClient\<close>). Waiting for a reply reads one message after
  another; it ends because every message uses up input, or bytes that were already buffered.
\<close>

section \<open>A message uses up input\<close>

definition uses :: "u32 \<Rightarrow> h2 \<Rightarrow> h2 \<Rightarrow> bool" where
  "uses sid s t \<longleftrightarrow> input_left t < input_left s \<or> (input_left t = input_left s \<and> held sid t < held sid s)"

lemmas ok_runs = proc_runs(1,2,4,5) check_Ok and_then_Ok_iff framer_call_Ok xpc_check_Ok

lemma uses_trans: "uses sid s t \<Longrightarrow> uses sid t u \<Longrightarrow> uses sid s u"
  by (auto simp: uses_def)

lemma uses_same_left:
  "input_left s' = input_left s \<Longrightarrow> held sid s' = held sid s \<Longrightarrow> uses sid s' t = uses sid s t"
  "input_left s' = input_left s \<Longrightarrow> held sid s' = held sid s \<Longrightarrow> uses sid t s' = uses sid t s"
  by (simp_all add: uses_def)

lemma held_part: "registry_part s = registry_part t \<Longrightarrow> held sid s = held sid t"
  by (simp add: registry_part_def held_def stream_buffer_len_def)

lemma drain_held: "held sid (drain_pending_data_frames s) = held sid s"
  by (simp add: drain_pending_data_frames_def drain_frames_held) (simp add: held_def stream_buffer_len_def)

lemma drain_reader: "reader_part (drain_pending_data_frames s) = reader_part s"
proof -
  have "reader_part (drain_frames fs t) = reader_part t" for fs t
    by (induction fs t rule: drain_frames.induct) (simp_all add: reader_part_simps)
  then show ?thesis by (simp add: drain_pending_data_frames_def)
qed

lemma take_uses:
  assumes "take_stream_bytes sid n s = (Ok bs, t)"
  shows "length bs = n \<and> held sid t + n = held sid s \<and> input_left t = input_left s"
proof -
  have "input_left t = input_left s"
    using assms by (auto simp: take_stream_bytes_def proto_err_run input_left_def split: if_splits option.splits)
  moreover have "length bs = n \<and> held sid t + n = held sid s"
    using assms
    by (auto simp: take_stream_bytes_def proto_err_run held_def stream_buffer_len_def split: if_splits option.splits)
  ultimately show ?thesis by simp
qed

lemma read_loop_uses:
  "read_stream_loop sid n s = (Ok bs, t) \<Longrightarrow> 0 < n \<Longrightarrow> length bs = n \<and> uses sid s t"
proof (induction sid n s rule: read_stream_loop.induct)
  case (1 sid n s)
  show ?case
  proof (cases "stream_buffer_len sid s < n")
    case False
    then show ?thesis
      using "1.prems" take_uses [of sid n s bs t]
      by (subst (asm) read_stream_loop.simps) (auto simp: uses_def)
  next
    case True
    then obtain x1 s1 x2 s2 x3 s3 f u x5 v where
      steps: "check (ensure_stream_available sid) s = (Ok x1, s1)" "check (check_not_ended sid n) s1 = (Ok x2, s2)"
        "check (ensure_peer_stream_not_reused sid) s2 = (Ok x3, s3)" "read_raw_frame s3 = (Ok f, u)"
        "dispatch_frame f u = (Ok x5, v)" "read_stream_loop sid n v = (Ok bs, t)"
      using "1.prems"(1) by (subst (asm) read_stream_loop.simps) (auto simp: and_then_Ok_iff)
    have "length bs = n \<and> uses sid v t"
      by (rule "1.IH" [OF True steps(1-5) steps(6) "1.prems"(2)])
    then show ?thesis
      using read_raw_frame_left [OF steps(4)] dispatch_left [OF steps(5)] steps(1-3)
      by (auto simp: uses_def check_Ok)
  qed
qed

lemma read_stream_uses:
  assumes "read_stream sid n s = (Ok bs, t)" and "0 < n"
  shows "length bs = n \<and> uses sid s t"
proof -
  from assms(1) obtain u where u: "finish_pending_write s = (Ok (), u)"
    "read_stream_loop sid n (drain_pending_data_frames u) = (Ok bs, t)"
    by (auto simp: read_stream_def ok_runs)
  let ?d = "drain_pending_data_frames u"
  have "input_left ?d = input_left s" "held sid ?d = held sid s"
    using input_left_reader_part [OF drain_reader, of u]
      input_left_reader_part [OF untouchedD [OF untouched_reader(3) u(1)]]
      held_part [OF untouchedD [OF untouched_registry_finish u(1)]] drain_held [of sid u] by simp_all
  then show ?thesis
    using read_loop_uses [OF u(2) assms(2)] uses_same_left(1) [of ?d s sid t] by simp
qed

lemma body_uses:
  assumes "read_xpc_body_in_chunks sid n s = (Ok bs, t)"
  shows "length bs = n \<and> (t = s \<or> uses sid s t)"
  using assms
proof (induction sid n arbitrary: s bs rule: read_xpc_body_in_chunks.induct)
  case (1 sid n)
  show ?case
  proof (cases "n = 0")
    case True
    then show ?thesis using "1.prems" by (subst (asm) read_xpc_body_in_chunks.simps) (auto simp: proc_runs)
  next
    case False
    let ?k = "min n MAX_XPC_BODY_READ_CHUNK"
    obtain chunk u rest where r: "read_stream sid ?k s = (Ok chunk, u)"
      "read_xpc_body_in_chunks sid (n - ?k) u = (Ok rest, t)" "bs = chunk @ rest"
      using "1.prems" False by (subst (asm) read_xpc_body_in_chunks.simps) (auto simp: proc_runs and_then_Ok_iff Let_def)
    have "0 < ?k" using False
      by (simp add: MAX_XPC_BODY_READ_CHUNK_def MAX_BUFFERED_BYTES_PER_STREAM_def MAX_FRAME_PAYLOAD_def)
    with read_stream_uses [OF r(1)] have "length chunk = ?k" "uses sid s u" by auto
    moreover have "length rest = n - ?k \<and> (t = u \<or> uses sid u t)"
      using "1.IH" [OF False refl r(2)] .
    ultimately show ?thesis using r(3) by (auto intro: uses_trans)
  qed
qed

lemma begin_end_uses [simp]:
  "uses sid (begin_message_body s) t = uses sid s t" "uses sid t (end_message_body s) = uses sid t s"
  "uses sid t (begin_message_body s) = uses sid t s"
  by (simp_all add: uses_def begin_message_body_def end_message_body_def input_left_def held_def stream_buffer_len_def)

lemma read_raw_uses:
  assumes "read_raw_xpc_message sid s = (Ok (h, b), t)"
  shows "length h = 24 \<and> uses sid s t \<and> \<not> message_read_in_progress t"
proof -
  from assms obtain u where u: "read_stream sid 24 s = (Ok h, u)" "read_marked_body sid h (begin_message_body u) = (Ok (h, b), t)"
    by (auto simp: read_raw_xpc_message_def ok_runs read_marked_body_def Let_def)
  from u(2) obtain n v where v: "(if n = 0 then ret [] else framer_call ''read body: {e}'' (read_xpc_body_in_chunks sid n))
      (begin_message_body u) = (Ok b, v)" "t = end_message_body v"
    unfolding read_marked_body_def Let_def ok_runs by auto
  have first: "length h = 24" "uses sid s u" using read_stream_uses [OF u(1)] by auto
  have "v = begin_message_body u \<or> uses sid u v"
    using v(1) body_uses [of sid n "begin_message_body u" b v] by (auto simp: ok_runs split: if_splits)
  then have "uses sid s v"
    using first(2) by (auto intro: uses_trans)
  then show ?thesis using first(1) v(2) by simp (simp add: end_message_body_def)
qed

section \<open>Sending and receiving\<close>

definition recv_fresh_on_stream_inner :: "u32 \<Rightarrow> xpc_message xpc_proc" where
  "recv_fresh_on_stream_inner sid =
     and_then (on_framer (read_raw_xpc_message sid) (\<lambda>e. e)) (\<lambda>(header, body).
     xpc_check (xpc_decode_message (header @ body)))"

definition recv_fresh_on_stream :: "u32 \<Rightarrow> xpc_message xpc_proc" where
  "recv_fresh_on_stream sid = on_err (recv_fresh_on_stream_inner sid) (clear_pending_stream sid)"

text \<open>
  A send is marked before its first byte is written. Only a completed write clears the mark: after
  an error or a cancellation it stays.
\<close>

definition send_with_flags :: "xpc_value \<Rightarrow> u32 \<Rightarrow> u64 xpc_proc" where
  "send_with_flags v extra_flags =
     and_then (check ensure_reusable) (\<lambda>_.
     and_then xpc_next_id (\<lambda>mid.
     and_then (xpc_check (xpc_encode_message
       \<lparr>flags = XPC_ALWAYS_SET OR XPC_DATA OR extra_flags, msg_id = mid, body = Some v\<rparr>)) (\<lambda>bytes.
     and_then (modify (\<lambda>c. c\<lparr>sending_message_in_progress := True\<rparr>)) (\<lambda>_.
     and_then (on_framer (write_client_server bytes) (H2Err ''{e}'')) (\<lambda>_.
     and_then (modify (\<lambda>c. c\<lparr>sending_message_in_progress := False\<rparr>)) (\<lambda>_.
     ret mid))))))"

definition xpc_send :: "xpc_value \<Rightarrow> unit xpc_proc" where
  "xpc_send v = and_then (send_with_flags v 0) (\<lambda>_. ret ())"

definition recv_any_stream :: "xpc_message xpc_proc" where
  "recv_any_stream =
     and_then (check ensure_reusable) (\<lambda>_.
     and_then (on_framer buffer_next_data_stream (H2Err ''{e}'')) recv_fresh_on_stream)"

definition recv_on_stream :: "u32 \<Rightarrow> xpc_message xpc_proc" where
  "recv_on_stream sid =
     and_then (check ensure_reusable) (\<lambda>_.
     and_then (on_framer finish_pending_write_for_read (H2Err ''{e}'')) (\<lambda>_ c.
     case pop_next_pending_message sid c of
       (Some message, c1) \<Rightarrow> (Ok message, c1)
     | (None, c1) \<Rightarrow> recv_fresh_on_stream sid c1))"

definition xpc_recv :: "xpc_message xpc_proc" where
  "xpc_recv = recv_on_stream STREAM_SERVER_CLIENT"

definition recv_client_server :: "xpc_message xpc_proc" where
  "recv_client_server = recv_on_stream STREAM_CLIENT_SERVER"

definition park_message :: "xpc_layout \<Rightarrow> u32 \<Rightarrow> xpc_message \<Rightarrow> unit xpc_proc" where
  "park_message lay sid message c = (case push_pending_message lay sid message c of
       Inl e \<Rightarrow> (Err (XpcErr e), clear_pending_stream sid c)
     | Inr c1 \<Rightarrow> (Ok (), c1))"

lemma recv_fresh_uses:
  assumes "recv_fresh_on_stream sid c = (Ok m, c1)"
  shows "uses sid (framer c) (framer c1) \<and> (\<exists>f. c1 = c\<lparr>framer := f\<rparr>)"
proof -
  from assms obtain h b where "on_framer (read_raw_xpc_message sid) (\<lambda>e. e) c = (Ok (h, b), c1)"
    by (auto simp: recv_fresh_on_stream_def on_err_def recv_fresh_on_stream_inner_def ok_runs
        split: prod.splits outcome.splits)
  then obtain f where "read_raw_xpc_message sid (framer c) = (Ok (h, b), f)" "c1 = c\<lparr>framer := f\<rparr>"
    by (auto simp: on_stream_def split: prod.splits outcome.splits)
  then show ?thesis using read_raw_uses by auto
qed

lemma push_framer: "push_pending_message lay sid m c = Inr c1 \<Longrightarrow> framer c1 = framer c"
proof -
  have "replace_pending_message sid i m n c = Inr c1 \<Longrightarrow> framer c1 = framer c" for i n
    unfolding replace_pending_message_def by (auto simp: attempt_Inr_iff split: option.split_asm if_split_asm)
  then show "push_pending_message lay sid m c = Inr c1 \<Longrightarrow> framer c1 = framer c"
    unfolding push_pending_message_def by (auto simp: attempt_Inr_iff split: option.split_asm if_split_asm)
qed

function recv_reply_loop :: "xpc_layout \<Rightarrow> u32 \<Rightarrow> u64 \<Rightarrow> xpc_message xpc_proc" where
  "recv_reply_loop lay sid mid c =
     and_then (recv_fresh_on_stream sid) (\<lambda>message c1.
       if msg_id message = mid then (Ok message, c1)
       else and_then (park_message lay sid message) (\<lambda>_ c2. recv_reply_loop lay sid mid c2) c1) c"
  by pat_completeness auto
termination
proof (relation "measures [\<lambda>(lay, sid, mid, c). input_left (framer c), \<lambda>(lay, sid, mid, c). held sid (framer c)]", goal_cases)
  case 1
  then show ?case by simp
next
  case (2 lay sid mid c m c1 x c2)
  then have "framer c2 = framer c1" by (auto simp: park_message_def dest: push_framer split: sum.splits)
  with recv_fresh_uses [OF 2(1)] show ?case by (auto simp: uses_def)
qed

declare recv_reply_loop.simps [simp del]

definition recv_reply_on_stream :: "xpc_layout \<Rightarrow> u32 \<Rightarrow> u64 \<Rightarrow> xpc_message xpc_proc" where
  "recv_reply_on_stream lay sid mid =
     and_then (check ensure_reusable) (\<lambda>_.
     and_then (on_framer finish_pending_write_for_read (H2Err ''{e}'')) (\<lambda>_ c.
     case take_pending_message sid mid c of
       (Some message, c1) \<Rightarrow> (Ok message, c1)
     | (None, c1) \<Rightarrow> recv_reply_loop lay sid mid c1))"

section \<open>The client\<close>

text \<open>
  The H2 handshake and the bootstrap share one deadline: a bootstrap that is still suspended when
  it passes is dropped and reported as a timeout.
\<close>

definition connect_stream :: "sock \<Rightarrow> (xpc_failure, xpc_conn) outcome" where
  "connect_stream k = (case connect_with_deadline k of
       (Err e, _) \<Rightarrow> Err (H2Err ''H2: {e}'' e)
     | (Cancelled, _) \<Rightarrow> Cancelled
     | (Ok f, _) \<Rightarrow> (case initialize_xpc_connection_on_framer f of
           (Ok _, f1) \<Rightarrow> Ok (XpcConnection_new f1)
         | (Err e, _) \<Rightarrow> Err e
         | (Cancelled, _) \<Rightarrow> Err (XpcErr (Tls ''XPC initialization timed out; budget shared with H2 handshake exhausted'' []))))"

definition call :: "xpc_layout \<Rightarrow> xpc_value \<Rightarrow> xpc_message xpc_proc" where
  "call lay v = and_then (send_with_flags v XPC_WANTING_REPLY) (\<lambda>mid. recv_reply_on_stream lay STREAM_SERVER_CLIENT mid)"

definition call_recv_client_server :: "xpc_layout \<Rightarrow> xpc_value \<Rightarrow> xpc_message xpc_proc" where
  "call_recv_client_server lay v =
     and_then (send_with_flags v XPC_WANTING_REPLY) (\<lambda>mid. recv_reply_on_stream lay STREAM_CLIENT_SERVER mid)"

text \<open>The stream of a streaming request, polled for its first \<open>n\<close> items; it ends at the first error.\<close>

fun stream_items :: "nat \<Rightarrow> xpc_message list xpc_proc" where
  "stream_items 0 = ret []"
| "stream_items (Suc n) = and_then xpc_recv (\<lambda>m. and_then (stream_items n) (\<lambda>ms. ret (m # ms)))"

definition stream_invoke_with_flags :: "xpc_value \<Rightarrow> u32 \<Rightarrow> nat \<Rightarrow> xpc_message list xpc_proc" where
  "stream_invoke_with_flags v extra_flags n = and_then (send_with_flags v extra_flags) (\<lambda>_. stream_items n)"

definition stream_invoke :: "xpc_value \<Rightarrow> nat \<Rightarrow> xpc_message list xpc_proc" where
  "stream_invoke v n = stream_invoke_with_flags v XPC_WANTING_REPLY n"

end
