(* ===== verification/Xpc_Pending.thy ===== *)
theory Xpc_Pending
  imports Xpc_Client
begin

text \<open>
  The messages that an XPC connection keeps while it waits for a reply. An XPC connection is a state
  machine whose steps are calls of its public operations, with any arguments and any outcome, and
  the transport preparing further events. In every state it can reach, the budget's counters are
  what the parked messages occupy, and they respect the limits.
\<close>

section \<open>The invariant\<close>

definition parked :: "xpc_conn \<Rightarrow> u32 \<Rightarrow> nat" where
  "parked c sid = sum_list (map pm_bytes (queue_of sid c))"

definition reply_ids :: "pending_message list \<Rightarrow> u64 list" where
  "reply_ids q = filter (\<lambda>i. i \<noteq> 0) (map (\<lambda>e. msg_id (pm_message e)) q)"

text \<open>An entry records what its own message occupies.\<close>

definition measured :: "xpc_layout \<Rightarrow> pending_message \<Rightarrow> bool" where
  "measured lay e \<longleftrightarrow> xpc_message_memory_size lay (pm_message e) = Inr (pm_bytes e)"

definition queue_ok :: "xpc_layout \<Rightarrow> pending_message list \<Rightarrow> bool" where
  "queue_ok lay q \<longleftrightarrow> length q \<le> MAX_PENDING_MESSAGES_PER_STREAM \<and> distinct (reply_ids q) \<and> list_all (measured lay) q"

definition pending_ok :: "xpc_layout \<Rightarrow> nat \<Rightarrow> nat \<Rightarrow> xpc_conn \<Rightarrow> bool" where
  "pending_ok lay l1 l2 c \<longleftrightarrow>
     per_stream_limit (pending_budget c) = l1 \<and> connection_limit (pending_budget c) = l2 \<and>
     (\<forall>sid. stream_bytes sid (pending_budget c) = parked c sid) \<and>
     total_bytes (pending_budget c) = (\<Sum>sid\<in>UNIV. parked c sid) \<and> total_bytes (pending_budget c) \<le> l2 \<and>
     (\<forall>sid. parked c sid \<le> l1 \<and> queue_ok lay (queue_of sid c))"

lemma pending_ok_fields:
  assumes "pending_ok lay l1 l2 c" and "pending_messages c' = pending_messages c" "pending_budget c' = pending_budget c"
  shows "pending_ok lay l1 l2 c'"
proof -
  have "queue_of sid c' = queue_of sid c" for sid using assms(2) by (simp add: queue_of_def)
  then show ?thesis using assms(1,3) by (simp add: pending_ok_def parked_def)
qed

text \<open>The budget after a step in which one stream's bytes went from \<open>stream_bytes sid b\<close> to \<open>n\<close>.\<close>

definition moved :: "u32 \<Rightarrow> nat \<Rightarrow> pending_message_budget \<Rightarrow> pending_message_budget \<Rightarrow> bool" where
  "moved sid n b b' \<longleftrightarrow>
     per_stream_limit b' = per_stream_limit b \<and> connection_limit b' = connection_limit b \<and>
     (\<forall>j. stream_bytes j b' = (if j = sid then n else stream_bytes j b)) \<and>
     total_bytes b' + stream_bytes sid b = total_bytes b + n"

lemma reserve_moved:
  assumes "budget_reserve sid n b = Inr b'"
  shows "moved sid (stream_bytes sid b + n) b b' \<and>
    stream_bytes sid b + n \<le> per_stream_limit b \<and> total_bytes b' \<le> connection_limit b"
proof -
  from assms have "stream_bytes sid b + n \<le> per_stream_limit b" "total_bytes b + n \<le> connection_limit b"
    "b' = b\<lparr>per_stream_bytes := (per_stream_bytes b)(sid \<mapsto> stream_bytes sid b + n), total_bytes := total_bytes b + n\<rparr>"
    by (auto simp: budget_reserve_def attempt_Inr_iff Let_def usize_checked_add_Some ok_or_def
        split: if_splits option.splits)
  then show ?thesis by (auto simp: moved_def stream_bytes_def)
qed

lemma replace_moved:
  assumes "budget_replace sid m n b = Inr b'"
  shows "m \<le> stream_bytes sid b \<and> moved sid (stream_bytes sid b - m + n) b b' \<and>
    stream_bytes sid b - m + n \<le> per_stream_limit b \<and> total_bytes b' \<le> connection_limit b"
proof -
  from assms have "m \<le> stream_bytes sid b" "m \<le> total_bytes b" "stream_bytes sid b - m + n \<le> per_stream_limit b"
    "total_bytes b - m + n \<le> connection_limit b"
    "b' = b\<lparr>per_stream_bytes := (per_stream_bytes b)(sid := if stream_bytes sid b - m + n = 0 then None
       else Some (stream_bytes sid b - m + n)), total_bytes := total_bytes b - m + n\<rparr>"
    by (auto simp: budget_replace_def attempt_Inr_iff Let_def usize_checked_add_Some usize_checked_sub_Some ok_or_def
        split: if_splits option.splits)
  then show ?thesis by (auto simp: moved_def stream_bytes_def)
qed

lemma release_moved:
  "n \<le> stream_bytes sid b \<Longrightarrow> stream_bytes sid b \<le> total_bytes b \<Longrightarrow>
   moved sid (stream_bytes sid b - n) b (budget_release sid n b)"
  by (auto simp: moved_def budget_release_def stream_bytes_def Let_def split: option.splits)

lemma clear_moved: "stream_bytes sid b \<le> total_bytes b \<Longrightarrow> moved sid 0 b (budget_clear_stream sid b)"
  by (auto simp: moved_def budget_clear_stream_def stream_bytes_def split: option.splits)

lemma pending_ok_step:
  assumes "pending_ok lay l1 l2 c" and "moved sid n (pending_budget c) (pending_budget c')" and "n \<le> l1"
    and "total_bytes (pending_budget c') \<le> l2"
    and "pending_messages c' = (pending_messages c)(sid := q)"
    and "queue_ok lay (queue_of sid c')" and "parked c' sid = n"
  shows "pending_ok lay l1 l2 c'"
proof -
  have same: "queue_of j c' = queue_of j c" "parked c' j = parked c j" if "j \<noteq> sid" for j
    using assms(5) that by (simp_all add: queue_of_def parked_def)
  have "stream_bytes j (pending_budget c') = parked c' j" for j
    using assms(1,2,7) same(2) [of j] by (cases "j = sid") (simp_all add: moved_def pending_ok_def)
  moreover have "total_bytes (pending_budget c') = (\<Sum>j\<in>UNIV. parked c' j)"
    using assms(1,2,7) sum_one_changed [of sid "parked c'" "parked c", OF same(2)] by (simp add: moved_def pending_ok_def)
  moreover have "parked c' j \<le> l1 \<and> queue_ok lay (queue_of j c')" for j
    using assms(1,3,6,7) same [of j] by (cases "j = sid") (simp_all add: pending_ok_def)
  ultimately show ?thesis using assms(1,2,4) by (simp add: pending_ok_def moved_def)
qed

lemma parked_le_total: "pending_ok lay l1 l2 c \<Longrightarrow> parked c sid \<le> total_bytes (pending_budget c)"
  using part_le_sum [of "parked c" sid] by (simp add: pending_ok_def)

section \<open>Parking and taking messages\<close>

lemma reply_ids_append: "reply_ids (p @ q) = reply_ids p @ reply_ids q"
  by (simp add: reply_ids_def)

lemma reply_ids_distinct:
  assumes "distinct (reply_ids q)" and "i < j" "j < length q" "msg_id (pm_message (q ! i)) \<noteq> 0"
  shows "msg_id (pm_message (q ! i)) \<noteq> msg_id (pm_message (q ! j))"
proof
  assume same: "msg_id (pm_message (q ! i)) = msg_id (pm_message (q ! j))"
  have "reply_ids q = reply_ids (take j q) @ reply_ids (drop j q)" by (simp flip: reply_ids_append)
  moreover have "drop j q = q ! j # drop (Suc j) q" using assms(3) by (simp add: Cons_nth_drop_Suc)
  moreover have "msg_id (pm_message (q ! i)) \<in> set (reply_ids (take j q))"
    using assms(2-4) by (auto simp: reply_ids_def in_set_conv_nth intro!: image_eqI [of _ _ "q ! i"] exI [of _ i])
  ultimately show False using assms(1,4) same by (auto simp: reply_ids_def)
qed

lemma reply_ids_same:
  assumes "i < length q" and "msg_id (pm_message e) = msg_id (pm_message (q ! i))"
  shows "reply_ids (q[i := e]) = reply_ids q"
proof -
  have "map (\<lambda>e. msg_id (pm_message e)) (q[i := e]) = map (\<lambda>e. msg_id (pm_message e)) q"
    using assms by (simp add: map_update) (metis list_update_id nth_map)
  then show ?thesis by (simp add: reply_ids_def)
qed

lemma replace_pending_ok:
  assumes "pending_ok lay l1 l2 c" and "replace_pending_message sid i m n c = Inr c'"
    and "i < length (queue_of sid c)" "msg_id (pm_message (queue_of sid c ! i)) = msg_id m"
    and "xpc_message_memory_size lay m = Inr n"
  shows "pending_ok lay l1 l2 c'"
proof -
  let ?q = "queue_of sid c" and ?e = "\<lparr>pm_message = m, pm_bytes = n\<rparr>"
  from assms(2,3) obtain b where b: "budget_replace sid (pm_bytes (?q ! i)) n (pending_budget c) = Inr b"
    and c': "c' = c\<lparr>pending_budget := b, pending_messages := (pending_messages c)(sid \<mapsto> ?q[i := ?e])\<rparr>"
    by (auto simp: replace_pending_message_def attempt_Inr_iff queue_of_def split: option.splits if_splits)
  have q': "queue_of sid c' = ?q[i := ?e]" by (simp add: c' queue_of_def)
  have sb: "stream_bytes sid (pending_budget c) = parked c sid" using assms(1) by (simp add: pending_ok_def)
  have "parked c' sid = parked c sid - pm_bytes (?q ! i) + n"
  proof -
    have "pm_bytes (?q ! i) \<le> parked c sid"
      unfolding parked_def using assms(3) by (intro member_le_sum_list) auto
    then show ?thesis
      using assms(3) by (simp add: parked_def q' map_update sum_list_update)
  qed
  moreover have "list_all (measured lay) (?q[i := ?e])"
    using assms(1,5) by (auto simp: pending_ok_def queue_ok_def measured_def list_all_iff dest!: subsetD [OF set_update_subset_insert])
  then have "queue_ok lay (queue_of sid c')"
    using assms(1) reply_ids_same [OF assms(3), of ?e] assms(4) by (simp add: q' queue_ok_def pending_ok_def)
  ultimately show ?thesis
    using replace_moved [OF b] sb assms(1)
    by (intro pending_ok_step [OF assms(1), of sid _ c' "Some (?q[i := ?e])"]) (auto simp: c' pending_ok_def)
qed

lemma push_pending_ok:
  assumes "pending_ok lay l1 l2 c" and "push_pending_message lay sid m c = Inr c'"
  shows "pending_ok lay l1 l2 c'"
proof -
  let ?q = "queue_of sid c"
  define at where "at = (if msg_id m = 0 then None else position (\<lambda>e. msg_id (pm_message e) = msg_id m) ?q)"
  from assms(2) obtain n where size: "xpc_message_memory_size lay m = Inr n" and n: "(case at of Some i \<Rightarrow> replace_pending_message sid i m n c
      | None \<Rightarrow> if length ?q \<ge> MAX_PENDING_MESSAGES_PER_STREAM then
           Inl (Tls ''XPC: more than {MAX_PENDING_MESSAGES_PER_STREAM} unmatched messages buffered on stream {stream_id} while waiting for a reply''
             [MAX_PENDING_MESSAGES_PER_STREAM, unat sid])
         else attempt (budget_reserve sid n (pending_budget c)) (\<lambda>b.
           Inr (c\<lparr>pending_budget := b, pending_messages := (pending_messages c)(sid \<mapsto>
             ?q @ [\<lparr>pm_message = m, pm_bytes = n\<rparr>])\<rparr>))) = Inr c'"
    unfolding push_pending_message_def at_def attempt_Inr_iff by auto
  show ?thesis
  proof (cases at)
    case (Some i)
    then have "i < length ?q" "msg_id (pm_message (?q ! i)) = msg_id m"
      unfolding at_def by (auto split: if_splits dest: position_Some)
    with n Some assms(1) size show ?thesis by (auto intro: replace_pending_ok)
  next
    case None
    let ?e = "\<lparr>pm_message = m, pm_bytes = n\<rparr>"
    from None n obtain b where b: "budget_reserve sid n (pending_budget c) = Inr b"
      and len: "length ?q < MAX_PENDING_MESSAGES_PER_STREAM"
      and c': "c' = c\<lparr>pending_budget := b, pending_messages := (pending_messages c)(sid \<mapsto> ?q @ [?e])\<rparr>"
      by (auto simp: attempt_Inr_iff split: if_splits)
    have q': "queue_of sid c' = ?q @ [?e]" by (simp add: c' queue_of_def)
    have "distinct (reply_ids (?q @ [?e]))"
      using assms(1) None unfolding at_def
      by (auto simp: pending_ok_def queue_ok_def reply_ids_def position_None split: if_splits)
    then have "queue_ok lay (queue_of sid c')"
      using len size assms(1) by (simp add: q' queue_ok_def pending_ok_def measured_def)
    moreover have "parked c' sid = parked c sid + n" by (simp add: parked_def q')
    ultimately show ?thesis
      using reserve_moved [OF b] assms(1)
      by (intro pending_ok_step [OF assms(1), of sid _ c' "Some (?q @ [?e])"]) (auto simp: c' pending_ok_def)
  qed
qed

lemma remove_pending_ok:
  assumes "pending_ok lay l1 l2 c" and "pending_messages c sid = Some q" "i < length q"
    and "remove_pending_at sid i q c = (r, c')"
  shows "pending_ok lay l1 l2 c'"
proof -
  let ?rest = "take i q @ drop (Suc i) q"
  have q: "queue_of sid c = q" using assms(2) by (simp add: queue_of_def)
  have split_q: "q = take i q @ q ! i # drop (Suc i) q" using assms(3) by (rule id_take_nth_drop)
  have c': "c' = c\<lparr>pending_messages := (pending_messages c)(sid := if ?rest = [] then None else Some ?rest),
       pending_budget := budget_release sid (pm_bytes (q ! i)) (pending_budget c)\<rparr>"
    using assms(4) by (simp add: remove_pending_at_def Let_def)
  have q': "queue_of sid c' = ?rest" by (auto simp: c' queue_of_def)
  have sum: "parked c sid = pm_bytes (q ! i) + parked c' sid"
    unfolding parked_def q q' by (subst split_q) simp
  have "distinct (reply_ids q)" "length q \<le> MAX_PENDING_MESSAGES_PER_STREAM" "list_all (measured lay) q"
    using assms(1) q by (auto simp: pending_ok_def queue_ok_def)
  moreover have "reply_ids q = reply_ids (take i q) @ reply_ids [q ! i] @ reply_ids (drop (Suc i) q)"
    by (subst split_q) (simp add: reply_ids_def)
  ultimately have "queue_ok lay ?rest"
    using assms(3) by (auto simp: queue_ok_def reply_ids_append list_all_iff dest: in_set_takeD in_set_dropD)
  moreover have "moved sid (parked c' sid) (pending_budget c) (pending_budget c')"
    using release_moved [of "pm_bytes (q ! i)" sid "pending_budget c"] parked_le_total [OF assms(1), of sid] sum assms(1)
    by (simp add: pending_ok_def c' del: fun_upd_apply)
  moreover have "total_bytes (pending_budget c') \<le> total_bytes (pending_budget c)"
    by (simp add: c' budget_release_def)
  moreover have "parked c sid \<le> l1" "total_bytes (pending_budget c) \<le> l2" using assms(1) by (auto simp: pending_ok_def)
  moreover have "pending_messages c' = (pending_messages c)(sid := if ?rest = [] then None else Some ?rest)"
    by (simp add: c')
  ultimately show ?thesis
    using sum q' by (intro pending_ok_step [OF assms(1), of sid "parked c' sid" c' "if ?rest = [] then None else Some ?rest"]) simp_all
qed

lemma pop_pending_ok: "pending_ok lay l1 l2 c \<Longrightarrow> pop_next_pending_message sid c = (r, c') \<Longrightarrow> pending_ok lay l1 l2 c'"
  by (auto simp: pop_next_pending_message_def split: option.splits if_splits intro: remove_pending_ok)

lemma take_pending_ok: "pending_ok lay l1 l2 c \<Longrightarrow> take_pending_message sid mid c = (r, c') \<Longrightarrow> pending_ok lay l1 l2 c'"
  by (auto simp: take_pending_message_def split: option.splits dest: position_Some intro: remove_pending_ok)

lemma clear_pending_ok: "pending_ok lay l1 l2 c \<Longrightarrow> pending_ok lay l1 l2 (clear_pending_stream sid c)"
proof -
  assume ok: "pending_ok lay l1 l2 c"
  let ?c = "clear_pending_stream sid c"
  have "stream_bytes sid (pending_budget c) \<le> total_bytes (pending_budget c)"
    using parked_le_total [OF ok, of sid] ok by (simp add: pending_ok_def)
  then have "moved sid 0 (pending_budget c) (pending_budget ?c)" by (simp add: clear_pending_stream_def clear_moved)
  moreover have "total_bytes (pending_budget ?c) \<le> total_bytes (pending_budget c)"
    by (simp add: clear_pending_stream_def budget_clear_stream_def split: option.splits)
  moreover have "queue_of sid ?c = []" by (simp add: clear_pending_stream_def queue_of_def)
  moreover have "total_bytes (pending_budget c) \<le> l2" using ok by (simp add: pending_ok_def)
  moreover have "pending_messages ?c = (pending_messages c)(sid := None)" by (simp add: clear_pending_stream_def)
  ultimately show ?thesis
    by (intro pending_ok_step [OF ok, of sid 0 ?c None]) (simp_all add: parked_def queue_ok_def reply_ids_def)
qed

section \<open>The operations\<close>

lemma on_framer_ok: "keeps (pending_ok lay l1 l2) (on_framer m w)"
  by (rule keepsI) (auto simp: on_stream_state elim: pending_ok_fields)

lemma xpc_check_ok: "keeps I (xpc_check r)"
  by (rule keepsI) simp

lemma mark_ok: "keeps (pending_ok lay l1 l2) (modify (\<lambda>c. c\<lparr>sending_message_in_progress := b\<rparr>))"
  by (intro keeps_intros) (auto elim: pending_ok_fields)

lemma next_id_ok: "keeps (pending_ok lay l1 l2) xpc_next_id"
  by (rule keepsI) (auto simp: xpc_next_id_def elim: pending_ok_fields)

lemmas xpc_keeps = keeps_intros on_framer_ok xpc_check_ok mark_ok next_id_ok

lemma recv_fresh_ok: "keeps (pending_ok lay l1 l2) (recv_fresh_on_stream sid)"
  unfolding recv_fresh_on_stream_def recv_fresh_on_stream_inner_def
  by (intro xpc_keeps) (auto intro!: xpc_keeps clear_pending_ok split: prod.splits)

lemma send_ok: "keeps (pending_ok lay l1 l2) (send_with_flags v fl)"
  unfolding send_with_flags_def by (intro xpc_keeps)

lemma recv_any_ok: "keeps (pending_ok lay l1 l2) recv_any_stream"
  unfolding recv_any_stream_def by (intro xpc_keeps recv_fresh_ok)

lemma park_ok: "keeps (pending_ok lay l1 l2) (park_message lay sid m)"
  by (rule keepsI) (auto simp: park_message_def clear_pending_ok intro: push_pending_ok split: sum.splits)

lemma reply_loop_ok: "keeps_at (pending_ok lay l1 l2) (recv_reply_loop lay sid mid) c"
proof (induction lay sid mid c rule: recv_reply_loop.induct)
  case (1 lay sid mid c)
  show ?case
    by (subst recv_reply_loop.simps [abs_def])
      (intro at_intros recv_fresh_ok [THEN at_keeps] park_ok [THEN at_keeps] 1)
qed

lemma keeps_parked:
  assumes "\<And>c r c'. I c \<Longrightarrow> f c = (r, c') \<Longrightarrow> I c'" and "keeps I m"
  shows "keeps I (\<lambda>c. case f c of (Some x, c1) \<Rightarrow> (Ok x, c1) | (None, c1) \<Rightarrow> m c1)"
proof (rule keepsI)
  fix s assume "I s"
  obtain r t where t: "f s = (r, t)" by fastforce
  with assms(1) [OF \<open>I s\<close>] have "I t" by blast
  with t show "I (snd (case f s of (Some x, c1) \<Rightarrow> (Ok x, c1) | (None, c1) \<Rightarrow> m c1))"
    using keeps_snd [OF assms(2)] by (cases r) simp_all
qed

lemma recv_on_ok: "keeps (pending_ok lay l1 l2) (recv_on_stream sid)"
  unfolding recv_on_stream_def by (intro xpc_keeps keeps_parked recv_fresh_ok) (rule pop_pending_ok)

lemma recv_reply_ok: "keeps (pending_ok lay l1 l2) (recv_reply_on_stream lay sid mid)"
  unfolding recv_reply_on_stream_def
  by (intro xpc_keeps keeps_parked keeps_at_all reply_loop_ok) (rule take_pending_ok)

section \<open>What a message occupies at least\<close>

text \<open>
  The bytes that the contents of a value need wherever they are stored: its data, strings and keys,
  and a slot for each element. A layout is ample when no capacity is below the length it serves.
\<close>

fun contents :: "xpc_layout \<Rightarrow> xpc_value \<Rightarrow> nat"
  and contents_values :: "xpc_layout \<Rightarrow> xpc_value list \<Rightarrow> nat"
  and contents_entries :: "xpc_layout \<Rightarrow> (bytes \<times> xpc_value) list \<Rightarrow> nat"
where
  "contents lay (XData d) = length d"
| "contents lay (XString s) = length s"
| "contents lay (XArray vs) = length vs * xl_size_of_value lay + contents_values lay vs"
| "contents lay (XDictionary es) = length es * xl_size_of_entry lay + contents_entries lay es"
| "contents lay (XFileTransfer i d) = xl_size_of_value lay + contents lay d"
| "contents lay v = 0"
| "contents_values lay [] = 0"
| "contents_values lay (v # vs) = contents lay v + contents_values lay vs"
| "contents_entries lay [] = 0"
| "contents_entries lay ((k, v) # es) = length k + contents lay v + contents_entries lay es"

definition message_contents :: "xpc_layout \<Rightarrow> xpc_message \<Rightarrow> nat" where
  "message_contents lay m = xl_size_of_message lay + (case body m of None \<Rightarrow> 0 | Some v \<Rightarrow> contents lay v)"

definition ample_layout :: "xpc_layout \<Rightarrow> bool" where
  "ample_layout lay \<longleftrightarrow> (\<forall>s. length s \<le> xl_string_capacity lay s) \<and> (\<forall>vs. length vs \<le> xl_array_capacity lay vs) \<and>
     (\<forall>es. length es \<le> xl_dict_capacity lay es)"

lemma add_pending_size_Inr: "add_pending_size a b w = Inr n \<Longrightarrow> n = a + b"
  by (auto simp: add_pending_size_def usize_checked_add_Some ok_or_def split: option.splits)

lemma pending_slots_Inr: "pending_slots a b w = Inr n \<Longrightarrow> n = a * b"
  by (auto simp: pending_slots_def usize_checked_mul_def ok_or_def attempt_Inr_iff split: option.splits if_splits
      dest!: add_pending_size_Inr)

lemma memory_size_contents:
  "ample_layout lay \<Longrightarrow> xpc_value_memory_size lay v = Inr n \<Longrightarrow> contents lay v \<le> n"
  "ample_layout lay \<Longrightarrow> xpc_values_memory_size lay acc vs = Inr n \<Longrightarrow> acc + contents_values lay vs \<le> n"
  "ample_layout lay \<Longrightarrow> xpc_entries_memory_size lay acc es = Inr n \<Longrightarrow> acc + contents_entries lay es \<le> n"
proof (induction lay v and lay acc vs and lay acc es arbitrary: n and n and n
    rule: xpc_value_memory_size_xpc_values_memory_size_xpc_entries_memory_size.induct)
  case (3 lay vs)
  then obtain acc where acc: "acc = xl_array_capacity lay vs * xl_size_of_value lay" "acc + contents_values lay vs \<le> n"
    by (auto simp: attempt_Inr_iff dest: pending_slots_Inr)
  have "length vs * xl_size_of_value lay \<le> acc" using 3 acc(1) by (simp add: ample_layout_def mult_le_mono1)
  with acc(2) show ?case by simp
next
  case (4 lay es)
  then obtain acc where acc: "acc = xl_dict_capacity lay es * xl_size_of_entry lay" "acc + contents_entries lay es \<le> n"
    by (auto simp: attempt_Inr_iff dest: pending_slots_Inr)
  have "length es * xl_size_of_entry lay \<le> acc" using 4 acc(1) by (simp add: ample_layout_def mult_le_mono1)
  with acc(2) show ?case by simp
next
  case (5 lay i d)
  then obtain m where "xpc_value_memory_size lay d = Inr m" "n = xl_size_of_value lay + m"
    by (auto simp: attempt_Inr_iff dest!: add_pending_size_Inr)
  with 5 show ?case by (auto simp: attempt_Inr_iff)
next
  case (8 lay acc v vs)
  from 8(4) obtain m acc1 where size: "xpc_value_memory_size lay v = Inr m"
    and sum: "add_pending_size acc m ''array values'' = Inr acc1" and rest: "xpc_values_memory_size lay acc1 vs = Inr n"
    by (auto simp: attempt_Inr_iff)
  from 8(1) [OF 8(3) size] 8(2) [OF size sum 8(3) rest] add_pending_size_Inr [OF sum] show ?case by simp
next
  case (10 lay acc k v es)
  from 10(4) obtain acc1 m acc2 where size: "xpc_value_memory_size lay v = Inr m"
    and key: "add_pending_size acc (xl_string_capacity lay k) ''dictionary key'' = Inr acc1"
    and sum: "add_pending_size acc1 m ''dictionary values'' = Inr acc2"
    and rest: "xpc_entries_memory_size lay acc2 es = Inr n"
    by (auto simp: attempt_Inr_iff)
  have "acc + length k \<le> acc1" using add_pending_size_Inr [OF key] 10(3) by (simp add: ample_layout_def)
  with 10(1) [OF key 10(3) size] 10(2) [OF key size sum 10(3) rest] add_pending_size_Inr [OF sum] show ?case by simp
qed (auto simp: ample_layout_def dest!: add_pending_size_Inr)

lemma measured_contents: "ample_layout lay \<Longrightarrow> measured lay e \<Longrightarrow> message_contents lay (pm_message e) \<le> pm_bytes e"
  by (auto simp: measured_def xpc_message_memory_size_def message_contents_def attempt_Inr_iff ok_or_def usize_checked_add_Some
      split: option.splits dest: memory_size_contents(1))

lemma queue_contents:
  "ample_layout lay \<Longrightarrow> queue_ok lay q \<Longrightarrow>
   sum_list (map (\<lambda>e. message_contents lay (pm_message e)) q) \<le> sum_list (map pm_bytes q)"
  by (intro sum_list_mono) (auto simp: queue_ok_def list_all_iff intro: measured_contents)

section \<open>Steps\<close>

inductive xpc_step :: "xpc_layout \<Rightarrow> xpc_conn \<Rightarrow> xpc_conn \<Rightarrow> bool" for lay :: xpc_layout where
  transport_step: "xpc_step lay c (c\<lparr>framer := (framer c)\<lparr>stream := (stream (framer c))\<lparr>rx := rs, wx := ws, fx := fls\<rparr>\<rparr>\<rparr>)"
| send_step: "send_with_flags v fl c = (r, c') \<Longrightarrow> xpc_step lay c c'"
| recv_any_step: "recv_any_stream c = (r, c') \<Longrightarrow> xpc_step lay c c'"
| recv_step: "recv_on_stream sid c = (r, c') \<Longrightarrow> xpc_step lay c c'"
| reply_step: "recv_reply_on_stream lay sid mid c = (r, c') \<Longrightarrow> xpc_step lay c c'"

inductive xpc_reachable :: "xpc_layout \<Rightarrow> h2 \<Rightarrow> nat \<Rightarrow> nat \<Rightarrow> xpc_conn \<Rightarrow> bool"
  for lay :: xpc_layout and f :: h2 and l1 l2 :: nat where
  created: "xpc_reachable lay f l1 l2 (with_pending_memory_limits f l1 l2)"
| stepped: "xpc_reachable lay f l1 l2 c \<Longrightarrow> xpc_step lay c c' \<Longrightarrow> xpc_reachable lay f l1 l2 c'"

lemma pending_new: "pending_ok lay l1 l2 (with_pending_memory_limits f l1 l2)"
  by (simp add: pending_ok_def with_pending_memory_limits_def PendingMessageBudget_new_def stream_bytes_def parked_def
      queue_of_def queue_ok_def reply_ids_def)

lemma step_pending_ok: "xpc_step lay c c' \<Longrightarrow> pending_ok lay l1 l2 c \<Longrightarrow> pending_ok lay l1 l2 c'"
  by (induction rule: xpc_step.induct)
    (auto elim: pending_ok_fields intro: keepsD [OF send_ok] keepsD [OF recv_any_ok] keepsD [OF recv_on_ok] keepsD [OF recv_reply_ok])

lemma reachable_pending_ok: "xpc_reachable lay f l1 l2 c \<Longrightarrow> pending_ok lay l1 l2 c"
  by (induction rule: xpc_reachable.induct) (auto intro: pending_new step_pending_ok)

text \<open>
  C13. In every reachable state of an XPC connection with the limits \<open>l1\<close> and \<open>l2\<close>, every parked
  message is counted with the size the code computes for it; the connection counter is the sum of
  the sizes of all parked messages and at most \<open>l2\<close>; the messages parked for one stream occupy at most
  \<open>l1\<close> bytes, are at most 1024, and no two of them answer the same request. When no capacity of the
  memory layout is below the length it serves, the contents of all parked messages (their data,
  strings, keys and slots) fit into the counted bytes, and those of one stream into \<open>l1\<close>.
\<close>

theorem xpc_pending_bounded:
  assumes "xpc_reachable lay f l1 l2 c"
  shows "pending_memory_bytes_used c = (\<Sum>sid\<in>UNIV. sum_list (map pm_bytes (queue_of sid c))) \<and>
    pending_memory_bytes_used c \<le> l2 \<and> sum_list (map pm_bytes (queue_of sid c)) \<le> l1 \<and>
    length (queue_of sid c) \<le> 1024 \<and>
    (\<forall>i j. i < j \<and> j < length (queue_of sid c) \<and> msg_id (pm_message (queue_of sid c ! i)) \<noteq> 0 \<longrightarrow>
       msg_id (pm_message (queue_of sid c ! i)) \<noteq> msg_id (pm_message (queue_of sid c ! j))) \<and>
    (\<forall>e \<in> set (queue_of sid c). xpc_message_memory_size lay (pm_message e) = Inr (pm_bytes e)) \<and>
    (ample_layout lay \<longrightarrow>
       (\<Sum>sid\<in>UNIV. sum_list (map (\<lambda>e. message_contents lay (pm_message e)) (queue_of sid c))) \<le> pending_memory_bytes_used c \<and>
       sum_list (map (\<lambda>e. message_contents lay (pm_message e)) (queue_of sid c)) \<le> l1)"
proof -
  have ok: "pending_ok lay l1 l2 c" by (rule reachable_pending_ok [OF assms])
  then have queues: "queue_ok lay (queue_of j c)" and l1: "sum_list (map pm_bytes (queue_of j c)) \<le> l1" for j
    by (simp_all add: pending_ok_def parked_def)
  have used: "pending_memory_bytes_used c = (\<Sum>sid\<in>UNIV. sum_list (map pm_bytes (queue_of sid c)))"
    "pending_memory_bytes_used c \<le> l2"
    using ok by (auto simp: pending_ok_def pending_memory_bytes_used_def parked_def)
  have "(\<Sum>sid\<in>UNIV. sum_list (map (\<lambda>e. message_contents lay (pm_message e)) (queue_of sid c))) \<le> pending_memory_bytes_used c"
    if "ample_layout lay" unfolding used(1) by (intro sum_mono queue_contents that queues)
  moreover have "sum_list (map (\<lambda>e. message_contents lay (pm_message e)) (queue_of sid c)) \<le> l1" if "ample_layout lay"
    using queue_contents [OF that queues] l1 by (rule le_trans)
  ultimately show ?thesis
    using used l1 queues [of sid] reply_ids_distinct [of "queue_of sid c"]
    by (auto simp: queue_ok_def measured_def list_all_iff MAX_PENDING_MESSAGES_PER_STREAM_def)
qed

end
