(* ===== verification/Xpc_Alignment.thy ===== *)
theory Xpc_Alignment
  imports Xpc_Pending H2_Transfer
begin

text \<open>
  Message boundaries on an XPC connection. A message that was begun and not finished, on the sending
  or on the receiving side, leaves a mark; while it is there, every operation refuses before it
  touches the transport. No operation of the framer sets or clears the receiving mark, by an
  interpretation of the framer's interface.
\<close>

section \<open>The framer leaves the mark alone\<close>

abbreviation (input) mark :: "h2 \<Rightarrow> bool" where
  "mark \<equiv> message_read_in_progress"

lemma mark_registry [simp]:
  "mark (remove_closed_stream_tombstone sid s) = mark s"
  "mark (drop_stream_bytes sid s) = mark s"
  "mark (mark_end_stream sid fl s) = mark s"
  "mark (record_reset_stream sid code s) = mark s"
  "mark (extend_stream_buffer sid bs s) = mark s"
  "mark (push_pending_frame f s) = mark s"
  "mark (register_open_stream sid s) = mark s"
  "mark (apply_max_frame_size mf s) = mark s"
  by (simp_all add: remove_closed_stream_tombstone_def drop_stream_bytes_def mark_end_stream_def
      record_reset_stream_def extend_stream_buffer_def push_pending_frame_def register_open_stream_def
      apply_max_frame_size_def Let_def split: list.splits option.splits)

lemma mark_clear [simp]: "mark (clear_stream_buffer sid s) = mark s"
  by (simp add: clear_stream_buffer_def Let_def)

lemma mark_errors [simp]: "mark (snd (conn_err msg args s)) = mark s" "mark (snd (proto_err msg args s)) = mark s"
  by (simp_all add: conn_err_def proto_err_run)

lemma mark_streams [simp]:
  "mark (snd (reserve_stream_buffer sid n s)) = mark s"
  "mark (snd (track_peer_stream sid s)) = mark s"
  "mark (snd (adopt_file_stream sid s)) = mark s"
  "mark (snd (register_file_stream_candidate sid s)) = mark s"
  by (simp_all add: reserve_stream_buffer_def track_peer_stream_def adopt_file_stream_def
      register_file_stream_candidate_def proto_err_run split: sum.splits)

lemma mark_flow [simp]:
  "mark (snd (observe_peer_headers sid s)) = mark s"
  "mark (snd (observe_peer_data_stream sid payload s)) = mark s"
  "mark (snd (process_goaway sid payload s)) = mark s"
  "mark (snd (dispatch_rst_stream sid payload s)) = mark s"
  "mark (snd (apply_initial_window iw s)) = mark s"
  "mark (snd (consume_outbound_window sid n s)) = mark s"
  "mark (snd (take_stream_bytes sid n s)) = mark s"
  "mark (snd (pop_pending_frame s)) = mark s"
  by (simp_all add: observe_peer_headers_def observe_peer_data_stream_def process_goaway_def dispatch_rst_stream_def
      apply_initial_window_def consume_outbound_window_def take_stream_bytes_def pop_pending_frame_def
      proto_err_run proc_simps Let_def split: option.split sum.split list.split prod.split)

lemma mark_window [simp]: "mark (snd (process_window_update sid payload s)) = mark s"
  unfolding process_window_update_def Let_def by (simp add: proto_err_run split: option.split)

lemma mark_io [simp]:
  "mark (snd (write_frame_bytes bs s)) = mark s" "mark (snd (on_h2 m s)) = mark s"
  "mark (snd (fill_header s)) = mark s" "mark (snd (frame_meta s)) = mark s"
  "mark (snd (fill_payload n s)) = mark s" "mark (snd (finish_frame fm s)) = mark s"
  by (simp_all add: write_frame_bytes_def on_h2_def on_stream_state fill_header_def frame_meta_def
      fill_payload_def finish_frame_def conn_err_def split: prod.split option.split)

lemma mark_finish [simp]: "mark (snd (finish_pending_write s)) = mark s"
  by (simp add: finish_pending_write_def split: option.split)

lemma mark_drain [simp]: "mark (drain_pending_data_frames s) = mark s"
proof -
  have "mark (drain_frames fs u) = mark u" for fs u by (induction fs arbitrary: u) simp_all
  then show ?thesis by (simp add: drain_pending_data_frames_def)
qed

lemma untouched_mark:
  "untouched mark (write_all_tracked bs)" "untouched mark read_raw_frame" "untouched mark (append_stream_data sid payload)"
  "untouched mark (admit_frame f)" "untouched mark (send_chunk sid bs)"
  unfolding write_all_tracked_def read_raw_frame_def append_stream_data_def admit_frame_def send_chunk_def
    check_pending_frames_def
  by (intro keeps_intros untouchedI; simp add: proto_err_run)+

interpretation h2_mark: framer_operations "\<lambda>s. mark s = b" for b
  by unfold_locales (simp_all add: keeps_def untouched_mark [unfolded untouched_def])

lemma read_stream_mark: "read_stream sid n s = (r, t) \<Longrightarrow> mark t = mark s"
  using keepsD [OF h2_mark.read_stream_keeps [of "mark s"]] by blast

lemma body_mark_kept: "read_xpc_body_in_chunks sid n s = (r, t) \<Longrightarrow> mark t = mark s"
proof -
  have "keeps (\<lambda>s. mark s = b) (read_xpc_body_in_chunks sid n)" for b
  proof (induction sid n rule: read_xpc_body_in_chunks.induct)
    case (1 sid n)
    show ?case
      by (subst read_xpc_body_in_chunks.simps) (auto simp: Let_def intro!: keeps_intros h2_mark.read_stream_keeps 1)
  qed
  then show "read_xpc_body_in_chunks sid n s = (r, t) \<Longrightarrow> mark t = mark s"
    using keepsD [of "\<lambda>u. mark u = mark s"] by blast
qed

section \<open>A torn connection\<close>

definition torn :: "xpc_conn \<Rightarrow> bool" where
  "torn c \<longleftrightarrow> mark (framer c) \<or> sending_message_in_progress c"

text \<open>Every operation, with any arguments, returns an error and leaves the connection as it is.\<close>

definition refuses :: "xpc_layout \<Rightarrow> xpc_conn \<Rightarrow> bool" where
  "refuses lay c \<longleftrightarrow>
     (\<forall>v fl. \<exists>e. send_with_flags v fl c = (Err e, c)) \<and> (\<exists>e. recv_any_stream c = (Err e, c)) \<and>
     (\<forall>sid. \<exists>e. recv_on_stream sid c = (Err e, c)) \<and>
     (\<forall>sid mid. \<exists>e. recv_reply_on_stream lay sid mid c = (Err e, c))"

lemma torn_refuses: "torn c \<Longrightarrow> refuses lay c"
proof -
  assume "torn c"
  then have "ensure_reusable c \<noteq> Inr ()"
    by (auto simp: torn_def ensure_reusable_def not_mid_message_def attempt_Inr_iff split: sum.splits if_splits)
  then obtain e where "ensure_reusable c = Inl e" by (cases "ensure_reusable c") auto
  then show ?thesis
    by (simp add: refuses_def send_with_flags_def recv_any_stream_def recv_on_stream_def recv_reply_on_stream_def proc_simps)
qed

lemma torn_step:
  assumes "xpc_step lay c c'" and "torn c"
  shows "torn c' \<and> wire (stream (framer c')) = wire (stream (framer c))"
proof -
  from torn_refuses [OF assms(2), of lay] obtain e1 e2 e3 e4 where
    "\<And>v fl. send_with_flags v fl c = (Err (e1 v fl), c)" "recv_any_stream c = (Err e2, c)"
    "\<And>sid. recv_on_stream sid c = (Err (e3 sid), c)" "\<And>sid mid. recv_reply_on_stream lay sid mid c = (Err (e4 sid mid), c)"
    unfolding refuses_def by metis
  with assms(2) show ?thesis
    by (cases rule: xpc_step.cases [OF assms(1)]) (auto simp: torn_def)
qed

lemma torn_forever:
  assumes "(xpc_step lay)\<^sup>*\<^sup>* c c'" and "torn c"
  shows "refuses lay c' \<and> wire (stream (framer c')) = wire (stream (framer c))"
proof -
  have "torn c' \<and> wire (stream (framer c')) = wire (stream (framer c))"
    using assms by (induction rule: rtranclp_induct) (auto dest: torn_step)
  then show ?thesis using torn_refuses by blast
qed

section \<open>What tears a connection\<close>

lemma send_torn:
  assumes "send_with_flags v fl c = (r, c1)" and "\<And>i. r \<noteq> Ok i"
  shows "framer c1 = framer c \<or> torn c1"
proof -
  obtain r0 c0 where 0: "and_then (check ensure_reusable) (\<lambda>_. and_then xpc_next_id (\<lambda>mid.
      xpc_check (xpc_encode_message \<lparr>flags = XPC_ALWAYS_SET OR XPC_DATA OR fl, msg_id = mid, body = Some v\<rparr>))) c = (r0, c0)"
    by fastforce
  have "framer c0 = framer c"
    using 0 by (auto simp: proc_simps xpc_next_id_def xpc_check_def split: sum.splits prod.splits)
  moreover have "c1 = c0 \<or> sending_message_in_progress c1"
    using 0 assms unfolding send_with_flags_def
    by (auto simp: proc_simps xpc_next_id_def xpc_check_def on_stream_def split: sum.splits prod.splits outcome.splits)
  ultimately show ?thesis by (auto simp: torn_def)
qed

lemma read_raw_torn:
  assumes "read_raw_xpc_message sid s = (r, t)" and "read_stream sid 24 s = (Ok h, f)" and "\<not> mark s"
  shows "mark t \<or> (\<exists>b. r = Ok (h, b))"
proof -
  have f: "mark (begin_message_body f)" by (simp add: begin_message_body_def)
  have r: "read_marked_body sid h (begin_message_body f) = (r, t)"
    using assms by (simp add: read_raw_xpc_message_def proc_simps not_mid_message_def framer_call_def on_stream_def)
  have body: "mark u" if "framer_call p (read_xpc_body_in_chunks sid n) (begin_message_body f) = (r', u)" for p n r' u
    using that f body_mark_kept [of sid n "begin_message_body f"]
    by (auto simp: framer_call_def on_stream_def split: prod.splits outcome.splits)
  show ?thesis
    using r f unfolding read_marked_body_def Let_def
    by (auto simp: proc_simps xpc_check_def split: sum.splits prod.splits outcome.splits if_splits dest: body)
qed

lemma recv_torn:
  assumes "recv_fresh_on_stream sid c = (r, c1)" and "\<And>m. r \<noteq> Ok m" and "\<not> torn c"
    and "read_stream sid 24 (framer c) = (Ok h, f)"
  shows "torn c1 \<or> (\<exists>b. read_raw_xpc_message sid (framer c) = (Ok (h, b), framer c1))"
proof -
  obtain r0 f0 where 0: "read_raw_xpc_message sid (framer c) = (r0, f0)" by fastforce
  have "framer c1 = f0"
    using assms(1) 0
    by (cases r0) (auto simp: recv_fresh_on_stream_def on_err_def recv_fresh_on_stream_inner_def proc_simps on_stream_def
        xpc_check_def clear_pending_stream_def split: sum.splits prod.splits outcome.splits)
  then show ?thesis using read_raw_torn [OF 0 assms(4)] assms(3) 0 by (auto simp: torn_def)
qed

text \<open>
  C7. A message that was begun and not finished poisons the connection. A send that fails or is
  cancelled has left the framer untouched, or no later operation ever gets through: all of them
  return an error and nothing more is written. A receive that has taken a message header from the
  stream and does not return a message has either read the whole message (and could not decode
  it), or again no later operation gets through, so the rest of its body is never taken for the
  header of another message.
\<close>

theorem xpc_torn_message_poisons:
  assumes "\<not> torn c"
  shows "(send_with_flags v fl c = (r, c1) \<and> (\<forall>i. r \<noteq> Ok i) \<longrightarrow>
      framer c1 = framer c \<or>
      (\<forall>c2. (xpc_step lay)\<^sup>*\<^sup>* c1 c2 \<longrightarrow> refuses lay c2 \<and> wire (stream (framer c2)) = wire (stream (framer c1)))) \<and>
    (recv_fresh_on_stream sid c = (q, d1) \<and> (\<forall>m. q \<noteq> Ok m) \<and> read_stream sid 24 (framer c) = (Ok h, f) \<longrightarrow>
      (\<exists>b. read_raw_xpc_message sid (framer c) = (Ok (h, b), framer d1)) \<or>
      (\<forall>d2. (xpc_step lay)\<^sup>*\<^sup>* d1 d2 \<longrightarrow> refuses lay d2 \<and> wire (stream (framer d2)) = wire (stream (framer d1))))"
  using send_torn [of v fl c r c1] recv_torn [of sid c q d1 h f] torn_forever [of lay] assms by blast

text \<open>A transport on which the first write is dropped.\<close>

definition stalled_conn :: xpc_conn where
  "stalled_conn = XpcConnection_new (H2Framer_new \<lparr>rx = [], wx = [WxCancel], fx = [], wire = []\<rparr>)"

lemma stalled_open:
  assumes "writable STREAM_CLIENT_SERVER (s\<lparr>stream := (stream s)\<lparr>wx := []\<rparr>\<rparr>)" "\<not> client_server_open s" "wx (stream s) = [WxCancel]"
  shows "\<exists>t. write_client_server bs s = (Cancelled, t) \<and> open_stream_in_progress t \<noteq> open_stream_in_progress s"
proof -
  let ?u = "s\<lparr>stream := (stream s)\<lparr>wx := []\<rparr>\<rparr>"
  have "ensure_connection_open ?u = ensure_connection_open s" by (rule ensure_open_fields) simp_all
  moreover note ready_flags [of ?u]
  ultimately have "ensure_connection_open s = Inr ()" "pending_write s = None" "open_stream_in_progress s = None"
    "ensure_stream_available STREAM_CLIENT_SERVER s = Inr ()" "check_can_open STREAM_CLIENT_SERVER s = Inr ()" "goaway s = None"
    using assms(1) by (auto simp: writable_def ensure_stream_available_def check_can_open_def)
  then show ?thesis
    using assms(2,3)
    by (simp add: write_client_server_def write_stream_def open_stream_def proc_simps finish_pending_write_def
        write_all_tracked_def write_frame_bytes_def locally_open_def h2_io_outcome_def build_headers_frame_def build_frame_def)
qed

lemma stalled_send: "\<exists>c1. send_with_flags XNull 0 stalled_conn = (Cancelled, c1) \<and> framer c1 \<noteq> framer stalled_conn"
proof -
  let ?f = "H2Framer_new \<lparr>rx = [], wx = [WxCancel], fx = [], wire = []\<rparr>"
  have "writable STREAM_CLIENT_SERVER (H2Framer_new \<lparr>rx = [], wx = [], fx = [], wire = []\<rparr>)"
    by (rule fresh_framer) simp_all
  then have stall: "\<exists>t. write_client_server bs ?f = (Cancelled, t) \<and> t \<noteq> ?f" for bs
    using stalled_open [of ?f bs] by (auto simp: H2Framer_new_def)
  have "\<exists>bs. xpc_encode_message \<lparr>flags = fl, msg_id = i, body = Some XNull\<rparr> = Inr bs" for fl i
    by (simp add: xpc_encode_message_def checked_u64_len_def length_to_bytes)
  then obtain bs where bs: "xpc_encode_message \<lparr>flags = XPC_ALWAYS_SET OR XPC_DATA, msg_id = 1, body = Some XNull\<rparr> = Inr bs"
    by blast
  obtain t where t: "write_client_server bs ?f = (Cancelled, t)" "t \<noteq> ?f" using stall by blast
  have "ensure_connection_open ?f = Inr ()" "\<not> mark ?f"
    using ready_flags(5) [OF ready_new] by (simp, simp add: H2Framer_new_def)
  then show ?thesis
    using bs t
    by (simp add: stalled_conn_def XpcConnection_new_def with_pending_memory_limits_def send_with_flags_def proc_simps
        ensure_reusable_def not_mid_message_def xpc_next_id_def on_stream_def)
qed

theorem xpc_torn_message_poisons_witness:
  "\<exists>c1. send_with_flags XNull 0 stalled_conn = (Cancelled, c1) \<and>
     (\<forall>lay c2. (xpc_step lay)\<^sup>*\<^sup>* c1 c2 \<longrightarrow> refuses lay c2)"
proof -
  obtain c1 where c1: "send_with_flags XNull 0 stalled_conn = (Cancelled, c1)" "framer c1 \<noteq> framer stalled_conn"
    using stalled_send by blast
  have "\<not> torn stalled_conn"
    by (simp add: torn_def stalled_conn_def XpcConnection_new_def with_pending_memory_limits_def H2Framer_new_def)
  from xpc_torn_message_poisons [OF this] c1 show ?thesis by blast
qed

end
