(* ===== verification/Xpc_Delivery.thy ===== *)
theory Xpc_Delivery
  imports Xpc_Alignment
begin

text \<open>
  From bytes on the transport to XPC messages: what an XPC connection receives when the peer sends
  messages on a control stream, cut into DATA frames at any place and into transport chunks at any
  place. A message may be four times as large as what the framer buffers for a stream.
\<close>

section \<open>Bytes to come on a control stream\<close>

text \<open>The frames of one stream: HEADERS frames open it, DATA frames carry its bytes.\<close>

definition stream_frame :: "u32 \<Rightarrow> bytes option \<Rightarrow> bytes" where
  "stream_frame sid p = (case p of None \<Rightarrow> build_headers_frame sid | Some d \<Rightarrow> build_data_frame sid d)"

definition frame_data :: "bytes option list \<Rightarrow> bytes" where
  "frame_data ps = concat (map (\<lambda>p. case p of None \<Rightarrow> [] | Some d \<Rightarrow> d) ps)"

lemma frame_data_simps [simp]:
  "frame_data [] = []" "frame_data (None # ps) = frame_data ps" "frame_data (Some d # ps) = d @ frame_data ps"
  "frame_data (ps @ qs) = frame_data ps @ frame_data qs" "frame_data (map Some ds) = concat ds"
  by (simp_all add: frame_data_def comp_def)

definition roomy :: "u32 \<Rightarrow> h2 \<Rightarrow> bool" where
  "roomy sid s \<longleftrightarrow> buffered_bytes s + MAX_BUFFERED_BYTES_PER_STREAM \<le> MAX_TOTAL_BUFFERED_BYTES + length (control_buffer sid s)"

definition incoming_in :: "u32 \<Rightarrow> bytes option list \<Rightarrow> h2 \<Rightarrow> bool" where
  "incoming_in sid ps s \<longleftrightarrow> listening sid s \<and> roomy sid s \<and>
     carries (rx (stream s)) (concat (map (stream_frame sid) ps)) \<and>
     (\<forall>d. Some d \<in> set ps \<longrightarrow> length d \<le> MAX_FRAME_PAYLOAD)"

definition incoming :: "u32 \<Rightarrow> bytes \<Rightarrow> h2 \<Rightarrow> bool" where
  "incoming sid bs s \<longleftrightarrow> (\<exists>ps. incoming_in sid ps s \<and> bs = control_buffer sid s @ frame_data ps)"

lemma control_take:
  assumes "listening sid s" and "n \<le> length (control_buffer sid s)"
  shows "\<exists>t. take_stream_bytes sid n s = (Ok (take n (control_buffer sid s)), t) \<and> listening sid t \<and>
    control_buffer sid t = drop n (control_buffer sid s) \<and> rx (stream t) = rx (stream s) \<and>
    buffered_bytes t = buffered_bytes s - n"
proof -
  let ?t = "if sid = STREAM_CLIENT_SERVER
    then s\<lparr>client_server_buf := drop n (client_server_buf s), buffered_bytes := buffered_bytes s - n\<rparr>
    else s\<lparr>server_client_buf := drop n (server_client_buf s), buffered_bytes := buffered_bytes s - n\<rparr>"
  have run: "take_stream_bytes sid n s = (Ok (take n (control_buffer sid s)), ?t)"
    using assms by (auto simp: take_stream_bytes_def listening_def control_buffer_def stream_buffer_len_def)
  have "memory_ok ?t" using keepsD [OF memory_take _ run] assms(1) by (simp add: listening_def)
  moreover have "ensure_connection_open ?t = ensure_connection_open s" by (rule ensure_open_fields) simp_all
  ultimately have "listening sid ?t"
    using assms(1) by (auto simp: listening_def ready_def quiet_def credit_low_def pending_update_def)
  then show ?thesis
    using run assms(1) by (intro exI [of _ ?t]) (auto simp: control_buffer_def listening_def)
qed

lemma incoming_take:
  assumes "incoming_in sid ps s" and "n \<le> length (control_buffer sid s)"
  shows "\<exists>t. read_stream_loop sid n s = (Ok (take n (control_buffer sid s @ frame_data ps)), t) \<and>
    incoming sid (drop n (control_buffer sid s @ frame_data ps)) t"
proof -
  have l: "listening sid s" using assms(1) by (simp add: incoming_in_def)
  obtain t where t: "take_stream_bytes sid n s = (Ok (take n (control_buffer sid s)), t)" "listening sid t"
    "control_buffer sid t = drop n (control_buffer sid s)" "rx (stream t) = rx (stream s)"
    "buffered_bytes t = buffered_bytes s - n"
    using control_take [OF l assms(2)] by blast
  have "length (control_buffer sid s) \<le> buffered_bytes s"
    using held_le_buffered [of s sid] listening_open(8) [OF l] l by (simp add: listening_def)
  then have "incoming_in sid ps t"
    using assms t by (auto simp: incoming_in_def roomy_def)
  moreover have "read_stream_loop sid n s = take_stream_bytes sid n s"
    using assms(2) listening_open(9) [OF l] by (subst read_stream_loop.simps) simp
  ultimately show ?thesis using t(1,3) assms(2) by (auto simp: incoming_def)
qed

text \<open>
  A read takes the next bytes of the stream and leaves the rest to come. The buffer never
  overflows, because a read asks for one frame less than it holds.
\<close>

lemma incoming_loop:
  assumes "incoming_in sid ps s" and "n \<le> length (control_buffer sid s @ frame_data ps)" and "n \<le> MAX_XPC_BODY_READ_CHUNK"
  shows "\<exists>t. read_stream_loop sid n s = (Ok (take n (control_buffer sid s @ frame_data ps)), t) \<and>
    incoming sid (drop n (control_buffer sid s @ frame_data ps)) t"
  using assms
proof (induction ps arbitrary: s)
  case Nil
  then show ?case using incoming_take [of sid "[]" s n] by simp
next
  case (Cons p ps)
  have l: "listening sid s" using Cons.prems(1) by (simp add: incoming_in_def)
  show ?case
  proof (cases "n \<le> length (control_buffer sid s)")
    case True
    then show ?thesis using incoming_take [OF Cons.prems(1)] by blast
  next
    case False
    show ?thesis
    proof (cases p)
      case None
      obtain es where es: "read_stream_loop sid n s = read_stream_loop sid n (s\<lparr>stream := (stream s)\<lparr>rx := es\<rparr>\<rparr>)"
        "carries es (concat (map (stream_frame sid) ps))"
        using read_loop_headers [OF l, of n] Cons.prems(1) False None by (auto simp: incoming_in_def stream_frame_def)
      let ?s = "s\<lparr>stream := (stream s)\<lparr>rx := es\<rparr>\<rparr>"
      have "incoming_in sid ps ?s" using Cons.prems(1) es(2) by (auto simp: incoming_in_def listening_rx roomy_def)
      then show ?thesis using Cons.IH [of ?s] Cons.prems(2,3) es(1) None by simp
    next
      case (Some d)
      note open_s = listening_open [OF l]
      have d: "length d \<le> MAX_FRAME_PAYLOAD" using Cons.prems(1) Some by (auto simp: incoming_in_def)
      have frame: "carries (rx (stream s)) (build_frame FRAME_DATA 0 sid d @ concat (map (stream_frame sid) ps))"
        using Cons.prems(1) Some by (simp add: incoming_in_def stream_frame_def build_data_frame_def)
      obtain es where rd: "read_raw_frame s =
          (Ok \<lparr>rf_frame_type = FRAME_DATA, rf_flags = 0, rf_stream_id = sid, rf_payload = d\<rparr>,
           s\<lparr>stream := (stream s)\<lparr>rx := es\<rparr>\<rparr>)" "carries es (concat (map (stream_frame sid) ps))"
        using read_raw_frame_build [OF _ d frame] l open_s(7) by (auto simp: listening_def)
      let ?s = "s\<lparr>stream := (stream s)\<lparr>rx := es\<rparr>\<rparr>"
      have fits: "length (control_buffer sid s) + length d \<le> MAX_BUFFERED_BYTES_PER_STREAM"
        using False Cons.prems(3) d by (simp add: MAX_XPC_BODY_READ_CHUNK_def h2_limits)
      moreover have "buffered_bytes s + length d \<le> MAX_TOTAL_BUFFERED_BYTES"
        using fits Cons.prems(1) by (simp add: incoming_in_def roomy_def)
      ultimately obtain t where t: "dispatch_frame \<lparr>rf_frame_type = FRAME_DATA, rf_flags = 0, rf_stream_id = sid, rf_payload = d\<rparr> ?s = (Ok (), t)"
        "listening sid t" "rx (stream t) = es" "control_buffer sid t = control_buffer sid s @ d"
        "buffered_bytes t = buffered_bytes s + length d"
        using dispatch_data_listening [of sid ?s d] l d by (auto simp: listening_rx)
      have "incoming_in sid ps t" using Cons.prems(1) t rd(2) by (auto simp: incoming_in_def roomy_def)
      moreover have "check_not_ended sid n s = Inr ()" using l by (simp add: check_not_ended_def listening_def)
      then have "read_stream_loop sid n s = read_stream_loop sid n t"
        using open_s False rd(1) t(1) by (subst read_stream_loop.simps) (simp add: proc_simps)
      ultimately show ?thesis using Cons.IH [of t] Cons.prems(2,3) t(4) Some by simp
    qed
  qed
qed

lemma incoming_read:
  assumes "incoming sid bs s" and "n \<le> length bs" and "n \<le> MAX_XPC_BODY_READ_CHUNK"
  shows "\<exists>t. read_stream sid n s = (Ok (take n bs), t) \<and> incoming sid (drop n bs) t"
proof -
  from assms(1) obtain ps where ps: "incoming_in sid ps s" "bs = control_buffer sid s @ frame_data ps"
    by (auto simp: incoming_def)
  then have "listening sid s" by (simp add: incoming_in_def)
  from incoming_loop [OF ps(1)] assms(2,3) ps(2) show ?thesis by (simp add: read_stream_listening [OF \<open>listening sid s\<close>])
qed

lemma incoming_body:
  assumes "incoming sid bs s" and "n \<le> length bs"
  shows "\<exists>t. read_xpc_body_in_chunks sid n s = (Ok (take n bs), t) \<and> incoming sid (drop n bs) t"
  using assms
proof (induction sid n arbitrary: s bs rule: read_xpc_body_in_chunks.induct)
  case (1 sid n)
  show ?case
  proof (cases "n = 0")
    case True
    then show ?thesis using "1.prems" by (subst read_xpc_body_in_chunks.simps) (simp add: proc_runs)
  next
    case False
    let ?k = "min n MAX_XPC_BODY_READ_CHUNK"
    obtain u where u: "read_stream sid ?k s = (Ok (take ?k bs), u)" "incoming sid (drop ?k bs) u"
      using incoming_read [OF "1.prems"(1), of ?k] min.coboundedI1 [OF "1.prems"(2), of MAX_XPC_BODY_READ_CHUNK] by auto
    obtain t where t: "read_xpc_body_in_chunks sid (n - ?k) u = (Ok (take (n - ?k) (drop ?k bs)), t)"
      "incoming sid (drop (n - ?k) (drop ?k bs)) t"
      using "1.IH" [OF False refl u(2)] diff_le_mono [OF "1.prems"(2), of ?k] by auto
    have "take n bs = take ?k bs @ take (n - ?k) (drop ?k bs)" by (simp flip: take_add)
    then show ?thesis
      using False u(1) t by (subst read_xpc_body_in_chunks.simps) (simp add: proc_runs Let_def)
  qed
qed

section \<open>One message\<close>

lemma incoming_mark [simp]: "incoming sid bs (s\<lparr>message_read_in_progress := b\<rparr>) = incoming sid bs s"
proof -
  let ?t = "s\<lparr>message_read_in_progress := b\<rparr>"
  have "ensure_connection_open ?t = ensure_connection_open s" by (rule ensure_open_fields) simp_all
  moreover have "memory_ok ?t = memory_ok s"
    using memory_part [of s ?t] memory_part [of ?t s] by (auto simp: buffer_part_def)
  ultimately have "listening sid ?t = listening sid s"
    by (simp add: listening_def ready_def quiet_def credit_low_def pending_update_def)
  then show ?thesis by (simp add: incoming_def incoming_in_def roomy_def control_buffer_def)
qed

lemma incoming_message:
  assumes "message_fits m" and "incoming sid (message_bytes m @ r) s" and "\<not> mark s"
  shows "\<exists>h b t. read_raw_xpc_message sid s = (Ok (h, b), t) \<and> h @ b = message_bytes m \<and> incoming sid r t \<and> \<not> mark t"
proof -
  from message_fits_bytes [OF assms(1)] obtain b where b:
    "message_bytes m = (to_le32 WRAPPER_MAGIC @ to_le32 (flags m) @ to_le64 (of_nat (length b)) @ to_le64 (msg_id m)) @ b"
    "length b \<le> xpc_body_limit_for_flags (flags m)" by auto
  let ?h = "to_le32 WRAPPER_MAGIC @ to_le32 (flags m) @ to_le64 (of_nat (length b)) @ to_le64 (msg_id m)"
  have len: "length ?h = 24" by (simp add: length_to_bytes)
  obtain u where u: "read_stream sid 24 s = (Ok ?h, u)" "incoming sid (b @ r) u"
    using incoming_read [OF assms(2), of 24] b(1) len by (auto simp: MAX_XPC_BODY_READ_CHUNK_def h2_limits)
  let ?u = "begin_message_body u"
  obtain v where v: "read_xpc_body_in_chunks sid (length b) ?u = (Ok b, v)" "incoming sid r v"
    using incoming_body [of sid "b @ r" ?u "length b"] u(2) by (auto simp: begin_message_body_def)
  have "(if length b = 0 then ret [] else framer_call ''read body: {e}'' (read_xpc_body_in_chunks sid (length b))) ?u =
      (Ok b, if length b = 0 then ?u else v)"
    using v(1) by (auto simp: proc_runs framer_call_def)
  moreover have "checked_xpc_body_len (from_le64 (take 8 (drop 8 ?h))) (xpc_body_limit_for_flags (from_le32 (take 4 (drop 4 ?h)))) = Inr (length b)"
    using checked_body_len_ok [OF b(2)] by simp
  ultimately have "read_marked_body sid ?h ?u = (Ok (?h, b), end_message_body (if length b = 0 then ?u else v))"
    unfolding read_marked_body_def Let_def by (simp only: proc_simps xpc_check_simps) simp
  then have "read_raw_xpc_message sid s = (Ok (?h, b), end_message_body (if length b = 0 then ?u else v))"
    using assms(3) u(1) by (simp add: read_raw_xpc_message_def proc_simps not_mid_message_def framer_call_def on_stream_def)
  moreover have "incoming sid r (end_message_body (if length b = 0 then ?u else v))"
    using v(2) u(2) by (auto simp: end_message_body_def begin_message_body_def)
  moreover have "\<not> mark (end_message_body x)" for x by (simp add: end_message_body_def)
  ultimately show ?thesis using b(1) by metis
qed

lemma recv_fresh_incoming:
  assumes "message_fits m" and "incoming sid (message_bytes m @ r) (framer c)" and "\<not> mark (framer c)"
  shows "\<exists>f. recv_fresh_on_stream sid c = (Ok m, c\<lparr>framer := f\<rparr>) \<and> incoming sid r f \<and> \<not> mark f"
proof -
  obtain h b t where t: "read_raw_xpc_message sid (framer c) = (Ok (h, b), t)" "h @ b = message_bytes m"
    "incoming sid r t" "\<not> mark t"
    using incoming_message [OF assms] by blast
  have "xpc_decode_message (h @ b) = Inr m" using decode_message_bytes [OF assms(1), of "[]"] t(2) by simp
  then show ?thesis
    using t by (auto simp: recv_fresh_on_stream_def on_err_def recv_fresh_on_stream_inner_def proc_simps on_stream_def)
qed

section \<open>Receiving in order\<close>

lemma incoming_ready: "incoming sid bs s \<Longrightarrow> ready s"
  by (auto simp: incoming_def incoming_in_def listening_def)

lemma whole_reusable:
  assumes "incoming sid bs (framer c)" and "\<not> torn c"
  shows "ensure_reusable c = Inr ()"
    and "on_framer finish_pending_write_for_read w c = (Ok (), c)"
  using ready_flags [OF incoming_ready [OF assms(1)]] assms(2)
  by (simp_all add: ensure_reusable_def not_mid_message_def torn_def on_stream_def finish_pending_write_for_read_def
      proc_simps finish_pending_write_def)

lemma recv_on_incoming:
  assumes "message_fits m" and "incoming sid (message_bytes m @ r) (framer c)" and "\<not> torn c" and "pending_messages c sid = None"
  shows "\<exists>f. recv_on_stream sid c = (Ok m, c\<lparr>framer := f\<rparr>) \<and> incoming sid r f \<and> \<not> torn (c\<lparr>framer := f\<rparr>)"
proof -
  obtain f where "recv_fresh_on_stream sid c = (Ok m, c\<lparr>framer := f\<rparr>)" "incoming sid r f" "\<not> mark f"
    using recv_fresh_incoming [OF assms(1,2)] assms(3) by (auto simp: torn_def)
  then show ?thesis
    using whole_reusable [OF assms(2,3)] assms(3,4)
    by (auto simp: recv_on_stream_def proc_simps pop_next_pending_message_def torn_def)
qed

lemma items_incoming:
  assumes "\<forall>m \<in> set ms. message_fits m" and "incoming STREAM_SERVER_CLIENT (concat (map message_bytes ms) @ r) (framer c)"
    and "\<not> torn c" and "pending_messages c STREAM_SERVER_CLIENT = None"
  shows "\<exists>f. stream_items (length ms) c = (Ok ms, c\<lparr>framer := f\<rparr>) \<and> incoming STREAM_SERVER_CLIENT r f \<and> \<not> torn (c\<lparr>framer := f\<rparr>)"
  using assms
proof (induction ms arbitrary: c)
  case Nil
  then show ?case by (auto simp: proc_runs intro!: exI [of _ "framer c"])
next
  case (Cons m ms)
  obtain f where f: "xpc_recv c = (Ok m, c\<lparr>framer := f\<rparr>)" "incoming STREAM_SERVER_CLIENT (concat (map message_bytes ms) @ r) f"
    "\<not> torn (c\<lparr>framer := f\<rparr>)"
    using recv_on_incoming [of m STREAM_SERVER_CLIENT "concat (map message_bytes ms) @ r" c] Cons.prems
    by (auto simp: xpc_recv_def)
  then obtain g where "stream_items (length ms) (c\<lparr>framer := f\<rparr>) = (Ok ms, c\<lparr>framer := g\<rparr>)" "incoming STREAM_SERVER_CLIENT r g"
    "\<not> torn (c\<lparr>framer := g\<rparr>)"
    using Cons.IH [of "c\<lparr>framer := f\<rparr>"] Cons.prems by auto
  then show ?case using f(1) by (auto simp: proc_simps)
qed

section \<open>Waiting for a reply\<close>

lemma replace_frame:
  "replace_pending_message sid i m n (c\<lparr>framer := f, next_msg_id := k\<rparr>) =
     attempt (replace_pending_message sid i m n c) (\<lambda>c1. Inr (c1\<lparr>framer := f, next_msg_id := k\<rparr>))"
  by (simp add: replace_pending_message_def attempt_def split: option.split sum.split)

lemma push_frame:
  "push_pending_message lay sid m (c\<lparr>framer := f, next_msg_id := k\<rparr>) =
     attempt (push_pending_message lay sid m c) (\<lambda>c1. Inr (c1\<lparr>framer := f, next_msg_id := k\<rparr>))"
proof -
  have "queue_of sid (c\<lparr>framer := f, next_msg_id := k\<rparr>) = queue_of sid c" by (simp add: queue_of_def)
  then show ?thesis
    by (simp add: push_pending_message_def replace_frame attempt_def split: option.split sum.split)
qed

fun park_all :: "xpc_layout \<Rightarrow> u32 \<Rightarrow> xpc_message list \<Rightarrow> xpc_conn \<Rightarrow> xpc_error + xpc_conn" where
  "park_all lay sid [] c = Inr c"
| "park_all lay sid (m # ms) c = attempt (push_pending_message lay sid m c) (park_all lay sid ms)"

lemma park_all_frame:
  "park_all lay sid ms c = Inr c1 \<Longrightarrow>
   park_all lay sid ms (c\<lparr>framer := f, next_msg_id := k\<rparr>) = Inr (c1\<lparr>framer := f, next_msg_id := k\<rparr>)"
  by (induction lay sid ms c rule: park_all.induct) (auto simp: push_frame attempt_Inr_iff)

lemma push_next: "push_pending_message lay sid m c = Inr c1 \<Longrightarrow>
  next_msg_id c1 = next_msg_id c \<and> sending_message_in_progress c1 = sending_message_in_progress c"
proof -
  have "replace_pending_message sid i m n c = Inr c1 \<Longrightarrow>
      next_msg_id c1 = next_msg_id c \<and> sending_message_in_progress c1 = sending_message_in_progress c" for i n
    unfolding replace_pending_message_def by (auto simp: attempt_Inr_iff split: option.split_asm if_split_asm)
  then show "push_pending_message lay sid m c = Inr c1 \<Longrightarrow>
      next_msg_id c1 = next_msg_id c \<and> sending_message_in_progress c1 = sending_message_in_progress c"
    unfolding push_pending_message_def by (auto simp: attempt_Inr_iff split: option.split_asm if_split_asm)
qed

lemma park_all_next: "park_all lay sid ms c = Inr c1 \<Longrightarrow>
  next_msg_id c1 = next_msg_id c \<and> sending_message_in_progress c1 = sending_message_in_progress c"
  by (induction lay sid ms c rule: park_all.induct) (auto simp: attempt_Inr_iff dest: push_next)

lemma reply_loop_incoming:
  assumes "park_all lay sid ms c = Inr c1" and "\<forall>m \<in> set ms. message_fits m \<and> msg_id m \<noteq> mid"
    and "message_fits reply" "msg_id reply = mid"
    and "incoming sid (concat (map message_bytes ms) @ message_bytes reply @ r) (framer c)" and "\<not> mark (framer c)"
  shows "\<exists>f. recv_reply_loop lay sid mid c = (Ok reply, c1\<lparr>framer := f\<rparr>) \<and> incoming sid r f \<and> \<not> mark f"
  using assms
proof (induction ms arbitrary: c c1)
  case Nil
  then obtain f where "recv_fresh_on_stream sid c = (Ok reply, c\<lparr>framer := f\<rparr>)" "incoming sid r f" "\<not> mark f"
    using recv_fresh_incoming [of reply sid r c] by auto
  then show ?case using Nil by (subst recv_reply_loop.simps) auto
next
  case (Cons m ms)
  let ?rest = "concat (map message_bytes ms) @ message_bytes reply @ r"
  from Cons.prems(1) obtain c0 where c0: "push_pending_message lay sid m c = Inr c0" "park_all lay sid ms c0 = Inr c1"
    by (auto simp: attempt_Inr_iff)
  obtain f where f: "recv_fresh_on_stream sid c = (Ok m, c\<lparr>framer := f\<rparr>)" "incoming sid ?rest f" "\<not> mark f"
    using recv_fresh_incoming [of m sid ?rest c] Cons.prems by auto
  have push: "push_pending_message lay sid m (c\<lparr>framer := f\<rparr>) = Inr (c0\<lparr>framer := f, next_msg_id := next_msg_id c\<rparr>)"
    using push_frame [where c = c and f = f and k = "next_msg_id c"] c0(1) by simp
  obtain g where "recv_reply_loop lay sid mid (c0\<lparr>framer := f, next_msg_id := next_msg_id c\<rparr>) =
      (Ok reply, c1\<lparr>framer := f, next_msg_id := next_msg_id c\<rparr>\<lparr>framer := g\<rparr>)" "incoming sid r g" "\<not> mark g"
    using Cons.IH [OF park_all_frame [OF c0(2), where f = f and k = "next_msg_id c"]] Cons.prems(2-4) f by auto
  moreover have "c1\<lparr>next_msg_id := next_msg_id c, framer := g'\<rparr> = c1\<lparr>framer := g'\<rparr>" for g'
    using park_all_next [OF Cons.prems(1)] by (intro xpc_conn.equality) simp_all
  ultimately show ?case
    using f(1) push Cons.prems(2) by (subst recv_reply_loop.simps) (auto simp: park_message_def)
qed

end
