(* ===== verification/Xpc_Calls.thy ===== *)
theory Xpc_Calls
  imports Xpc_Delivery
begin

text \<open>
  The services of an XPC connection end to end: a stream of messages arrives complete and in
  order, a call returns the reply to its own request, and the service discovery handshake yields
  exactly the services the device announced.
\<close>

section \<open>Sending leaves the reader alone\<close>






section \<open>The discovery handshake\<close>

lemma collect_services_lookup:
  "distinct (map fst svcs) \<Longrightarrow>
   collect_services svcs m name = (case Option.bind (map_of svcs name) service_entry of
     Some d \<Rightarrow> Some d | None \<Rightarrow> m name)"
proof (induction svcs m rule: collect_services.induct)
  case (2 n v svcs m)
  then have "map_of svcs n = None" by (simp add: map_of_eq_None_iff)
  with 2 show ?case by (auto split: option.splits)
qed simp

lemma read_client_incoming:
  assumes "message_fits m" and "incoming STREAM_CLIENT_SERVER (message_bytes m @ r) s" and "\<not> mark s"
  shows "\<exists>t. read_xpc_on_client_server s = (Ok m, t) \<and> incoming STREAM_CLIENT_SERVER r t \<and> \<not> mark t"
proof -
  obtain h b t where t: "read_raw_xpc_message STREAM_CLIENT_SERVER s = (Ok (h, b), t)" "h @ b = message_bytes m"
    "incoming STREAM_CLIENT_SERVER r t" "\<not> mark t"
    using incoming_message [OF assms] by blast
  then show ?thesis
    using decode_message_bytes [OF assms(1), of "[]"]
    by (auto simp: read_xpc_on_client_server_def read_raw_xpc_on_client_server_def proc_simps)
qed

lemma attempts_incoming:
  assumes "\<forall>m \<in> set others. message_fits m \<and> (\<exists>e. parse_handshake_message m = Inl e)"
    and "message_fits hs" "parse_handshake_message hs = Inr h" "length others < n"
    and "incoming STREAM_CLIENT_SERVER (concat (map message_bytes others) @ message_bytes hs @ r) s" "\<not> mark s"
  shows "\<exists>t. handshake_attempts n e s = (Ok h, t) \<and> incoming STREAM_CLIENT_SERVER r t \<and> \<not> mark t"
  using assms
proof (induction others arbitrary: n e s)
  case Nil
  then show ?case
    using read_client_incoming [of hs r s] by (cases n) (auto simp: proc_simps)
next
  case (Cons m ms)
  let ?rest = "concat (map message_bytes ms) @ message_bytes hs @ r"
  obtain t where t: "read_xpc_on_client_server s = (Ok m, t)" "incoming STREAM_CLIENT_SERVER ?rest t" "\<not> mark t"
    using read_client_incoming [of m ?rest s] Cons.prems by auto
  obtain k e' where "n = Suc k" "parse_handshake_message m = Inl e'"
    using Cons.prems(1,4) by (cases n) auto
  then show ?case
    using Cons.IH [of k t "Some e'"] Cons.prems t by (auto simp: proc_simps)
qed

lemma parse_exact:
  assumes "body hs = Some (XDictionary d)" and "map_of d (ascii ''MessageType'') = Some (XString (ascii ''Handshake''))"
    and "map_of d (ascii ''Properties'') = Some (XDictionary p)" "map_of p (ascii ''UniqueDeviceID'') = Some (XString udid)"
    and "map_of d (ascii ''Services'') = Some (XDictionary svcs)" "distinct (map fst svcs)"
  shows "\<exists>h. parse_handshake_message hs = Inr h \<and> rsd_udid h = udid \<and>
    rsd_services h = (\<lambda>name. Option.bind (map_of svcs name) service_entry)"
proof -
  have "collect_services svcs Map.empty = (\<lambda>name. Option.bind (map_of svcs name) service_entry)"
    using collect_services_lookup [OF assms(6), of Map.empty] by (auto split: option.splits)
  then show ?thesis using assms by (simp add: parse_handshake_message_def as_dict_def)
qed

text \<open>A port that does not fit 16 bits is dropped, never cut.\<close>

lemma service_port_number:
  "map_of sd (ascii ''Port'') = Some (XUint64 n) \<Longrightarrow>
   service_entry (XDictionary sd) =
     (if unat n \<le> 65535 then Some \<lparr>sd_port = ucast n, sd_features = service_features sd\<rparr> else None)"
  by (simp add: service_entry_def as_dict_def service_port_def)

section \<open>The properties\<close>

text \<open>
  C3. Messages of any size the protocol allows, up to 64 MiB for file transfers, are received
  complete and in the order they were sent: when the bytes to come on the server-client stream are
  the encodings of the messages, in DATA frames of any sizes up to 16 KiB and transport chunks of
  any sizes, then polling the stream returns exactly these messages. The framer's limit of 16 MiB
  per stream is never hit.
\<close>

theorem xpc_stream_delivers:
  assumes "\<forall>m \<in> set ms. message_fits m"
    and "incoming STREAM_SERVER_CLIENT (concat (map message_bytes ms) @ r) (framer c)"
    and "\<not> torn c" and "pending_messages c STREAM_SERVER_CLIENT = None"
  shows "\<exists>c'. stream_items (length ms) c = (Ok ms, c') \<and>
    incoming STREAM_SERVER_CLIENT r (framer c') \<and> \<not> torn c' \<and> pending_messages c' = pending_messages c"
proof -
  obtain f where "stream_items (length ms) c = (Ok ms, c\<lparr>framer := f\<rparr>)" "incoming STREAM_SERVER_CLIENT r f" "\<not> torn (c\<lparr>framer := f\<rparr>)"
    using items_incoming [OF assms] by blast
  then show ?thesis by (intro exI [of _ "c\<lparr>framer := f\<rparr>"]) simp
qed


text \<open>
  C17. The discovery handshake skips up to five messages that are no handshake and returns the
  device's identifier and exactly the announced services: a service is known under a name if and
  only if the announcement has a dictionary with a valid port under this name. A numeric port that fits 16
  bits is the port of the service, one that does not fit is never cut to another port.
\<close>

theorem rsd_handshake_exact:
  assumes "\<forall>m \<in> set others. message_fits m \<and> (\<exists>e. parse_handshake_message m = Inl e)" and "length others \<le> 5"
    and "message_fits hs" and "body hs = Some (XDictionary d)"
    and "map_of d (ascii ''MessageType'') = Some (XString (ascii ''Handshake''))"
    and "map_of d (ascii ''Properties'') = Some (XDictionary p)" "map_of p (ascii ''UniqueDeviceID'') = Some (XString udid)"
    and "map_of d (ascii ''Services'') = Some (XDictionary svcs)" "distinct (map fst svcs)"
    and "incoming STREAM_CLIENT_SERVER (concat (map message_bytes others) @ message_bytes hs @ r) s" "\<not> mark s"
  shows "\<exists>h t. handshake_on_framer s = (Ok h, t) \<and> incoming STREAM_CLIENT_SERVER r t \<and> \<not> mark t \<and> rsd_udid h = udid \<and>
    (\<forall>name. rsd_services h name = Option.bind (map_of svcs name) service_entry) \<and>
    (\<forall>name sd n. map_of svcs name = Some (XDictionary sd) \<and> map_of sd (ascii ''Port'') = Some (XUint64 n) \<longrightarrow>
       (if unat n \<le> 65535 then get_port h name = Some (ucast n) else rsd_services h name = None))"
proof -
  obtain h where h: "parse_handshake_message hs = Inr h" "rsd_udid h = udid"
    "rsd_services h = (\<lambda>name. Option.bind (map_of svcs name) service_entry)"
    using parse_exact [OF assms(4-9)] by blast
  obtain t where "handshake_on_framer s = (Ok h, t)" "incoming STREAM_CLIENT_SERVER r t" "\<not> mark t"
    using attempts_incoming [OF assms(1,3) h(1), of 6 r s None] assms(2,10,11)
    by (auto simp: handshake_on_framer_def read_rsd_handshake_def)
  moreover have "if unat n \<le> 65535 then get_port h name = Some (ucast n) else rsd_services h name = None"
    if "map_of svcs name = Some (XDictionary sd)" "map_of sd (ascii ''Port'') = Some (XUint64 n)" for name sd n
    using that by (simp add: get_port_def h(3) service_port_number)
  ultimately show ?thesis using h(2) fun_cong [OF h(3)] by blast
qed

section \<open>Witnesses\<close>

text \<open>A connection on a fresh framer to which the peer sends each message in a frame of its own, byte by byte.\<close>

definition demo_framer :: "u32 \<Rightarrow> xpc_message list \<Rightarrow> h2" where
  "demo_framer sid ms = H2Framer_new
     \<lparr>rx = map (\<lambda>b. Chunk [b]) (concat (map (\<lambda>m. build_data_frame sid (message_bytes m)) ms)), wx = [], fx = [], wire = []\<rparr>"

definition demo_conn :: "xpc_message list \<Rightarrow> xpc_conn" where
  "demo_conn ms = XpcConnection_new (demo_framer STREAM_SERVER_CLIENT ms)"

lemma demo_incoming:
  assumes "sid \<in> {STREAM_CLIENT_SERVER, STREAM_SERVER_CLIENT}" and "\<forall>m \<in> set ms. length (message_bytes m) \<le> MAX_FRAME_PAYLOAD"
  shows "incoming sid (concat (map message_bytes ms)) (demo_framer sid ms)"
proof -
  let ?ps = "map (\<lambda>m. Some (message_bytes m)) ms"
  have bytewise: "carries (map (\<lambda>b. Chunk [b]) bs) bs" for bs by (induction bs) (auto simp: carries_Cons)
  have "concat (map (stream_frame sid) ?ps) = concat (map (\<lambda>m. build_data_frame sid (message_bytes m)) ms)"
    by (simp add: stream_frame_def comp_def)
  then have "carries (rx (stream (demo_framer sid ms))) (concat (map (stream_frame sid) ?ps))"
    using bytewise by (simp add: demo_framer_def)
  moreover have "listening sid (demo_framer sid ms)"
    using assms(1) ready_new memory_new
    by (auto simp: listening_def demo_framer_def quiet_def credit_low_def pending_update_def h2_limits)
      (simp_all add: H2Framer_new_def)
  ultimately have "incoming_in sid ?ps (demo_framer sid ms)"
    using assms(2) by (auto simp: incoming_in_def roomy_def demo_framer_def h2_limits)
  moreover have "frame_data ?ps = concat (map message_bytes ms)" by (simp add: frame_data_def comp_def)
  ultimately show ?thesis by (auto simp: incoming_def demo_framer_def)
qed

lemma demo_whole: "\<not> torn (demo_conn ms)" "\<not> mark (demo_framer sid ms)" "pending_messages (demo_conn ms) = Map.empty"
  "framer (demo_conn ms) = demo_framer STREAM_SERVER_CLIENT ms" "next_msg_id (demo_conn ms) = 1"
  by (simp_all add: torn_def demo_conn_def XpcConnection_new_def with_pending_memory_limits_def demo_framer_def H2Framer_new_def)

definition empty_message :: "u64 \<Rightarrow> xpc_message" where
  "empty_message i = \<lparr>flags = XPC_ALWAYS_SET, msg_id = i, body = None\<rparr>"

lemma empty_fits: "message_fits (empty_message i)" "length (message_bytes (empty_message i)) = 24"
  by (simp_all add: empty_message_def message_fits_def message_wf_def message_bytes_def xpc_encode_message_def
      checked_u64_len_def length_to_bytes)

theorem xpc_stream_delivers_witness:
  "\<exists>c'. stream_items 2 (demo_conn [empty_message 7, xpc_sample]) = (Ok [empty_message 7, xpc_sample], c')"
proof -
  let ?ms = "[empty_message 7, xpc_sample]"
  have "incoming STREAM_SERVER_CLIENT (concat (map message_bytes ?ms)) (demo_framer STREAM_SERVER_CLIENT ?ms)"
    using empty_fits(2) xpc_sample_fits by (intro demo_incoming) (auto simp: h2_limits)
  then show ?thesis
    using xpc_stream_delivers [of ?ms "[]" "demo_conn ?ms"] empty_fits(1) xpc_sample_fits demo_whole by (auto simp: numeral_2_eq_2)
qed

definition flat_layout :: xpc_layout where
  "flat_layout = \<lparr>xl_string_capacity = length, xl_array_capacity = length, xl_dict_capacity = length,
     xl_size_of_value = 32, xl_size_of_entry = 56, xl_size_of_message = 56\<rparr>"



lemma flat_ample: "ample_layout flat_layout"
  by (simp add: ample_layout_def flat_layout_def)

lemma sample_size: "xpc_message_memory_size flat_layout xpc_sample = Inr 328"
  by (simp add: xpc_message_memory_size_def xpc_sample_def flat_layout_def pending_slots_def add_pending_size_def
      usize_checked_add_def usize_checked_mul_def)

lemma sample_contents: "message_contents flat_layout xpc_sample = 328"
  by (simp add: message_contents_def xpc_sample_def flat_layout_def)

lemma sample_parks:
  "\<exists>c1. park_all flat_layout STREAM_SERVER_CLIENT [xpc_sample] (demo_conn ms) = Inr c1 \<and>
     map pm_message (queue_of STREAM_SERVER_CLIENT c1) = [xpc_sample]"
  by (simp add: push_pending_message_def demo_whole queue_of_def sample_size
      demo_conn_def XpcConnection_new_def with_pending_memory_limits_def budget_reserve_def PendingMessageBudget_new_def
      stream_bytes_def usize_checked_add_def MAX_PENDING_MESSAGES_PER_STREAM_def DEFAULT_PENDING_BYTES_PER_STREAM_def
      DEFAULT_PENDING_BYTES_CONNECTION_def)

text \<open>A connection that parked a dictionary while it waited for another reply: the dictionary's 328 bytes are counted.\<close>

theorem xpc_pending_bounded_witness:
  "\<exists>c. xpc_reachable flat_layout (demo_framer STREAM_SERVER_CLIENT [xpc_sample, empty_message 1])
        DEFAULT_PENDING_BYTES_PER_STREAM DEFAULT_PENDING_BYTES_CONNECTION c \<and>
     map pm_message (queue_of STREAM_SERVER_CLIENT c) = [xpc_sample] \<and>
     map pm_bytes (queue_of STREAM_SERVER_CLIENT c) = [328] \<and>
     pending_memory_bytes_used c = (\<Sum>sid\<in>UNIV. sum_list (map pm_bytes (queue_of sid c))) \<and>
     message_contents flat_layout xpc_sample \<le> DEFAULT_PENDING_BYTES_PER_STREAM"
proof -
  let ?ms = "[xpc_sample, empty_message 1]"
  let ?c = "demo_conn ?ms" and ?R = "xpc_reachable flat_layout (demo_framer STREAM_SERVER_CLIENT ?ms)
        DEFAULT_PENDING_BYTES_PER_STREAM DEFAULT_PENDING_BYTES_CONNECTION"
  have "incoming STREAM_SERVER_CLIENT (concat (map message_bytes ?ms)) (demo_framer STREAM_SERVER_CLIENT ?ms)"
    using empty_fits(2) xpc_sample_fits by (intro demo_incoming) (auto simp: h2_limits)
  then have inc: "incoming STREAM_SERVER_CLIENT (concat (map message_bytes [xpc_sample]) @ message_bytes (empty_message 1) @ []) (framer ?c)"
    using demo_whole(4) by simp
  obtain c1 where c1: "park_all flat_layout STREAM_SERVER_CLIENT [xpc_sample] ?c = Inr c1"
    "map pm_message (queue_of STREAM_SERVER_CLIENT c1) = [xpc_sample]"
    using sample_parks [of ?ms] by (elim exE conjE) (rule that)
  have "\<forall>m \<in> set [xpc_sample]. message_fits m \<and> msg_id m \<noteq> 1" using xpc_sample_fits by (simp add: xpc_sample_def)
  then obtain f where f: "recv_reply_loop flat_layout STREAM_SERVER_CLIENT 1 ?c = (Ok (empty_message 1), c1\<lparr>framer := f\<rparr>)"
    using reply_loop_incoming [OF c1(1) _ empty_fits(1) _ inc] demo_whole(2,4) by (auto simp: empty_message_def)
  let ?c1 = "c1\<lparr>framer := f\<rparr>"
  have "recv_reply_on_stream flat_layout STREAM_SERVER_CLIENT 1 ?c = (Ok (empty_message 1), ?c1)"
    using f whole_reusable [OF inc demo_whole(1)]
    by (simp add: recv_reply_on_stream_def proc_simps take_pending_message_def demo_whole(3))
  then have R: "?R ?c1"
    using xpc_reachable.stepped [OF xpc_reachable.created xpc_step.reply_step]
    by (simp add: demo_conn_def XpcConnection_new_def)
  have "map pm_message (queue_of STREAM_SERVER_CLIENT ?c1) = [xpc_sample]" using c1(2) by (simp add: queue_of_def)
  then show ?thesis
    using R xpc_pending_bounded [OF R, of STREAM_SERVER_CLIENT] flat_ample sample_size sample_contents
    by (intro exI [of _ ?c1]) (auto simp: map_eq_Cons_conv)
qed

definition demo_handshake :: xpc_message where
  "demo_handshake = \<lparr>flags = 0x101, msg_id = 0, body = Some (XDictionary
     [(ascii ''MessageType'', XString (ascii ''Handshake'')),
      (ascii ''Properties'', XDictionary [(ascii ''UniqueDeviceID'', XString (ascii ''00008110''))]),
      (ascii ''Services'', XDictionary [(ascii ''a.b'', XDictionary [(ascii ''Port'', XUint64 49152)])])])\<rparr>"

lemma demo_handshake_fits: "message_fits demo_handshake \<and> length (message_bytes demo_handshake) < 1000"
proof -
  have "\<exists>bs. xpc_encode_message demo_handshake = Inr bs \<and> length bs < 1000"
    by (simp add: demo_handshake_def ascii_def xpc_encode_message_def encode_dict_key_def encode_xstring_def
        collection_bytes_def checked_u32_len_def checked_collection_len_def checked_u64_len_def checked_align4_def usize_checked_add_def)
  moreover have "message_wf demo_handshake"
    by (simp add: message_wf_def demo_handshake_def ascii_def xpc_text_def utf8_step_def MAX_XPC_COLLECTION_SIZE_def MAX_XPC_NESTING_DEPTH_def)
  moreover have "8 * 1024 * 1024 \<le> xpc_body_limit_for_flags (flags demo_handshake)"
    by (simp add: xpc_body_limit_for_flags_def XPC_CONTROL_BODY_LIMIT_def XPC_DATA_STREAM_BODY_LIMIT_def)
  ultimately show ?thesis by (auto simp: message_fits_def message_bytes_def)
qed

theorem rsd_handshake_exact_witness:
  "\<exists>h t. handshake_on_framer (demo_framer STREAM_CLIENT_SERVER [empty_message 0, demo_handshake]) = (Ok h, t) \<and>
     rsd_udid h = ascii ''00008110'' \<and> get_port h (ascii ''a.b'') = Some 49152 \<and> rsd_services h (ascii ''c'') = None"
proof -
  let ?s = "demo_framer STREAM_CLIENT_SERVER [empty_message 0, demo_handshake]"
  have inc: "incoming STREAM_CLIENT_SERVER (concat (map message_bytes [empty_message 0]) @ message_bytes demo_handshake @ []) ?s"
    using demo_incoming [of STREAM_CLIENT_SERVER "[empty_message 0, demo_handshake]"] empty_fits(2) demo_handshake_fits by (simp add: h2_limits)
  have skip: "\<forall>m \<in> set [empty_message 0]. message_fits m \<and> (\<exists>e. parse_handshake_message m = Inl e)"
    using empty_fits(1) by (simp add: parse_handshake_message_def empty_message_def)
  let ?sd = "[(ascii ''Port'', XUint64 49152)]" and ?p = "[(ascii ''UniqueDeviceID'', XString (ascii ''00008110''))]"
  let ?svcs = "[(ascii ''a.b'', XDictionary ?sd)]"
  have keys: "map_of ?sd (ascii ''Port'') = Some (XUint64 49152)" "map_of ?svcs (ascii ''a.b'') = Some (XDictionary ?sd)"
    "map_of ?svcs (ascii ''c'') = None" "unat (49152 :: u64) \<le> 65535" "(ucast (49152 :: u64) :: u16) = 49152"
    by (simp_all add: ascii_def)
  let ?d = "[(ascii ''MessageType'', XString (ascii ''Handshake'')), (ascii ''Properties'', XDictionary ?p), (ascii ''Services'', XDictionary ?svcs)]"
  have hs: "body demo_handshake = Some (XDictionary ?d)"
    "map_of ?d (ascii ''MessageType'') = Some (XString (ascii ''Handshake''))"
    "map_of ?d (ascii ''Properties'') = Some (XDictionary ?p)" "map_of ?p (ascii ''UniqueDeviceID'') = Some (XString (ascii ''00008110''))"
    "map_of ?d (ascii ''Services'') = Some (XDictionary ?svcs)" "distinct (map fst ?svcs)"
    by (simp add: demo_handshake_def, simp_all add: ascii_def)
  have one: "length [empty_message 0] \<le> 5" by simp
  obtain h t where ht: "handshake_on_framer ?s = (Ok h, t)" "rsd_udid h = ascii ''00008110''"
    "\<forall>name. rsd_services h name = Option.bind (map_of ?svcs name) service_entry"
    "\<forall>name sd n. map_of ?svcs name = Some (XDictionary sd) \<and> map_of sd (ascii ''Port'') = Some (XUint64 n) \<longrightarrow>
       (if unat n \<le> 65535 then get_port h name = Some (ucast n) else rsd_services h name = None)"
    using rsd_handshake_exact [OF skip one conjunct1 [OF demo_handshake_fits] hs inc demo_whole(2)]
    by (elim exE conjE) (rule that)
  have "get_port h (ascii ''a.b'') = Some 49152"
    using ht(4) [rule_format, OF conjI [OF keys(2,1)]] keys(4,5) by simp
  then show ?thesis using ht(1,2) ht(3) [rule_format, of "ascii ''c''"] keys(3) by (intro exI [of _ h] exI [of _ t]) simp
qed

end
