(* ===== verification/Debug_Server.thy ===== *)
theory Debug_Server
  imports Async_Stream
begin

unbundle bit_operations_syntax

text \<open>
  The debugger's remote protocol (\<open>services/debugserver/mod.rs\<close>): packets with a checksum, escapes
  and run-length runs, and the client that sends a request and waits for the reply. Texts are their
  UTF-8 bytes. The lemmas relate \<open>recv\<close> to the encodings the protocol allows (\<open>encodes\<close>): every packet
  arrives, whatever its encoding and the chunks of the stream, and nothing else is returned.
\<close>

section \<open>Packets\<close>

record parsed_packet =
  packet_payload :: bytes
  packet_consumed :: nat

datatype debugserver_error =
    DebugIo io_error
  | InvalidPayload
  | Checksum byte byte
  | DebugUtf8

definition select_service_name :: "nat \<Rightarrow> string" where
  "select_service_name major =
     (if major \<ge> 15 then ''com.apple.debugserver.DVTSecureSocketProxy'' else ''com.apple.debugserver'')"

definition checksum_byte :: "bytes \<Rightarrow> byte" where
  "checksum_byte bs = fold (\<lambda>b acc. acc + b) bs 0"

definition hex_digit :: "nat \<Rightarrow> byte" where
  "hex_digit n = (if n < 10 then of_nat (48 + n) else of_nat (87 + n))"

definition checksum :: "bytes \<Rightarrow> bytes" where
  "checksum bs = (let n = unat (checksum_byte bs) in [hex_digit (n div 16), hex_digit (n mod 16)])"

definition format_packet :: "bytes \<Rightarrow> bytes" where
  "format_packet msg = [0x2B, 0x24] @ msg @ [0x23] @ checksum msg"

definition nibble :: "byte \<Rightarrow> byte option" where
  "nibble b =
     (if 0x30 \<le> b \<and> b \<le> 0x39 then Some (b - 0x30)
      else if 0x61 \<le> b \<and> b \<le> 0x66 then Some (b - 0x61 + 10)
      else if 0x41 \<le> b \<and> b \<le> 0x46 then Some (b - 0x41 + 10)
      else None)"

definition parse_hex_byte :: "bytes \<Rightarrow> byte option" where
  "parse_hex_byte digits = (case digits of
       [high, low] \<Rightarrow> Option.bind (nibble high) (\<lambda>h. map_option (\<lambda>l. push_bit 4 h OR l) (nibble low))
     | _ \<Rightarrow> None)"

text \<open>The expansion of escapes and runs, with the bytes decoded so far.\<close>

fun decode_from :: "bytes \<Rightarrow> bytes \<Rightarrow> bytes" where
  "decode_from out [] = out"
| "decode_from out (b # bs) =
     (if b = 0x7D then (case bs of [] \<Rightarrow> out @ [0x7D] | escaped # r \<Rightarrow> decode_from (out @ [escaped XOR 0x20]) r)
      else if b = 0x2A then
        (case bs of
           [] \<Rightarrow> out @ [0x2A]
         | count # r \<Rightarrow>
             if out = [] then decode_from (out @ [0x2A, count]) r
             else decode_from (out @ replicate (unat count - 29) (last out)) r)
      else decode_from (out @ [b]) bs)"

definition decode_packet_body :: "bytes \<Rightarrow> bytes" where
  "decode_packet_body body = decode_from [] body"

definition try_parse_packet :: "bytes \<Rightarrow> debugserver_error + parsed_packet option" where
  "try_parse_packet data = (case position (\<lambda>b. b = 0x24) data of
       None \<Rightarrow> Inr None
     | Some start \<Rightarrow> (case position (\<lambda>b. b = 0x23) data of
           None \<Rightarrow> Inr None
         | Some stop \<Rightarrow>
             if stop < start then Inr None
             else if length data < stop + 3 then Inr None
             else
               let body = take (stop - (start + 1)) (drop (start + 1) data) in
               attempt (ok_or InvalidPayload (parse_hex_byte (take 2 (drop (stop + 1) data)))) (\<lambda>expected.
               let computed = checksum_byte body in
               if computed \<noteq> expected then Inl (Checksum expected computed)
               else if \<not> utf8_valid (decode_packet_body body) then Inl DebugUtf8
               else Inr (Some \<lparr>packet_payload = decode_packet_body body, packet_consumed = stop + 3\<rparr>))))"

definition parse_packet :: "bytes \<Rightarrow> parsed_packet option" where
  "parse_packet data = (case try_parse_packet data of Inr p \<Rightarrow> p | Inl _ \<Rightarrow> None)"

section \<open>The client\<close>

record gdb_client =
  gdb_stream :: sock
  read_buf :: bytes

type_synonym 'a gdb_proc = "(gdb_client, debugserver_error, 'a) proc"

definition on_gdb :: "(sock, io_error, 'a) proc \<Rightarrow> 'a gdb_proc" where
  "on_gdb m = on_stream gdb_stream (\<lambda>k c. c\<lparr>gdb_stream := k\<rparr>) DebugIo m"

definition GdbRemoteClient_new :: "sock \<Rightarrow> gdb_client" where
  "GdbRemoteClient_new k = \<lparr>gdb_stream = k, read_buf = []\<rparr>"

definition gdb_send :: "bytes \<Rightarrow> unit gdb_proc" where
  "gdb_send msg = and_then (on_gdb (sock_write_all (format_packet msg))) (\<lambda>_. on_gdb sock_flush)"

definition write_ack :: "byte \<Rightarrow> unit gdb_proc" where
  "write_ack ack = and_then (on_gdb (sock_write_all [ack])) (\<lambda>_. on_gdb sock_flush)"

lemma on_gdb_read_less:
  "on_gdb (sock_read n) s = (Ok bs, t) \<Longrightarrow> bs \<noteq> [] \<Longrightarrow> rx_size (rx (gdb_stream t)) < rx_size (rx (gdb_stream s))"
  by (auto simp: on_gdb_def on_stream_def sock_read_def split: prod.splits outcome.splits dest: rx_read_less)

function gdb_recv :: "bytes gdb_proc" where
  "gdb_recv s = (case try_parse_packet (read_buf s) of
       Inr (Some packet) \<Rightarrow>
         and_then (write_ack 0x2B) (\<lambda>_. ret (packet_payload packet)) (s\<lparr>read_buf := drop (packet_consumed packet) (read_buf s)\<rparr>)
     | Inl err \<Rightarrow> and_then (write_ack 0x2D) (\<lambda>_. throw err) (s\<lparr>read_buf := []\<rparr>)
     | Inr None \<Rightarrow>
         and_then (on_gdb (sock_read 1024)) (\<lambda>bs t.
           if bs = [] then (Err InvalidPayload, t)
           else gdb_recv (t\<lparr>read_buf := read_buf t @ bs\<rparr>)) s)"
  by pat_completeness auto
termination
  by (relation "measure (\<lambda>s. rx_size (rx (gdb_stream s)))") (auto dest: on_gdb_read_less)

declare gdb_recv.simps [simp del]

definition gdb_request :: "bytes \<Rightarrow> bytes gdb_proc" where
  "gdb_request msg = and_then (gdb_send msg) (\<lambda>_. gdb_recv)"

section \<open>Encodings\<close>

text \<open>
  The bodies the protocol allows for a payload, from left to right: a byte as it is, an escaped
  byte, or a run that repeats the last byte. No body contains the byte that ends a packet.
\<close>

inductive encodes :: "bytes \<Rightarrow> bytes \<Rightarrow> bool" where
  empty: "encodes [] []"
| plain: "encodes body msg \<Longrightarrow> b \<notin> {0x23, 0x2A, 0x7D} \<Longrightarrow> encodes (body @ [b]) (msg @ [b])"
| escaped: "encodes body msg \<Longrightarrow> b \<noteq> 0x03 \<Longrightarrow> encodes (body @ [0x7D, b XOR 0x20]) (msg @ [b])"
| run: "encodes body msg \<Longrightarrow> msg \<noteq> [] \<Longrightarrow> n \<le> 226 \<Longrightarrow> n \<noteq> 6 \<Longrightarrow>
    encodes (body @ [0x2A, of_nat (n + 29)]) (msg @ replicate n (last msg))"

lemma xor_twice: "((b :: byte) XOR c) XOR c = b"
  by (simp add: xor.assoc)

lemma escaped_not_end: "(b :: byte) XOR 0x20 = 0x23 \<Longrightarrow> b = 0x03"
proof -
  assume "b XOR 0x20 = 0x23"
  then have "b = 0x23 XOR 0x20" using xor_twice [of b "0x20"] by simp
  then show "b = 0x03" by simp
qed

lemma run_count: "n \<le> 226 \<Longrightarrow> unat (of_nat (n + 29) :: byte) = n + 29"
  using unat_of_nat [of "n + 29", where ?'a = 8] by simp

lemma encodes_no_end: "encodes body msg \<Longrightarrow> 0x23 \<notin> set body"
proof (induction rule: encodes.induct)
  case (run body msg n)
  have "(of_nat (n + 29) :: byte) \<noteq> 0x23"
  proof
    assume "(of_nat (n + 29) :: byte) = 0x23"
    then have "n + 29 = 35" using run_count [of n] run.hyps(3) by simp
    then show False using run.hyps(4) by simp
  qed
  then show ?case using run by simp
qed (auto dest: escaped_not_end)

lemma encodes_decode: "encodes body msg \<Longrightarrow> decode_from [] (body @ r) = decode_from msg r"
  by (induction arbitrary: r rule: encodes.induct) (auto simp: xor_twice run_count simp del: of_nat_add)

lemma encodes_decode_packet_body: "encodes body msg \<Longrightarrow> decode_packet_body body = msg"
  using encodes_decode [of body msg "[]"] by (simp add: decode_packet_body_def)

text \<open>Every payload has an encoding.\<close>

definition escape_body :: "bytes \<Rightarrow> bytes" where
  "escape_body msg = concat (map (\<lambda>b. if b \<in> {0x23, 0x24, 0x2A, 0x7D} then [0x7D, b XOR 0x20] else [b]) msg)"

lemma escape_encodes: "encodes (escape_body msg) msg"
proof (induction msg rule: rev_induct)
  case (snoc b msg)
  then show ?case using encodes.plain [OF snoc, of b] encodes.escaped [OF snoc, of b]
    by (auto simp: escape_body_def)
qed (simp add: escape_body_def encodes.empty)

section \<open>Frames in a buffer\<close>

lemma nibble_hex_digit: "n < 16 \<Longrightarrow> nibble (hex_digit n) = Some (of_nat n)"
proof -
  have "\<forall>n \<in> set [0..<16]. nibble (hex_digit n) = Some (of_nat n)" by code_simp
  then show "n < 16 \<Longrightarrow> nibble (hex_digit n) = Some (of_nat n)" by simp
qed

lemma parse_checksum: "parse_hex_byte (checksum bs) = Some (checksum_byte bs)"
proof -
  define w where "w = checksum_byte bs"
  have "unat w div 16 < 16" using unat_byte_less [of w] by linarith
  moreover have "of_nat (unat w div 16) = drop_bit 4 w"
    by (simp add: drop_bit_eq_div word_arith_nat_div)
  moreover have "of_nat (unat w mod 16) = take_bit 4 w"
    by (simp add: take_bit_eq_mod word_arith_nat_mod)
  moreover have "push_bit 4 (drop_bit 4 w) OR take_bit 4 w = w"
    by (rule bit_word_eqI) (auto simp: bit_simps)
  ultimately show ?thesis
    by (simp add: parse_hex_byte_def checksum_def Let_def nibble_hex_digit w_def [symmetric])
qed

lemma position_append: "\<forall>x \<in> set xs. \<not> P x \<Longrightarrow> position P (xs @ ys) = map_option (\<lambda>i. length xs + i) (position P ys)"
  by (cases "position P ys"; induction xs) auto

lemma position_take: "position P (take k xs) = (case position P xs of Some i \<Rightarrow> if i < k then Some i else None | None \<Rightarrow> None)"
  by (induction xs arbitrary: k) (auto simp: take_Cons split: nat.splits option.splits)

lemma position_prefix: "position P xs = Some i \<Longrightarrow> position P (xs @ ys) = Some i"
  by (induction xs arbitrary: i) (auto split: if_splits)

text \<open>
  A packet as it arrives: bytes in between, which are no part of a packet, the body, and two
  digits. It is recognised when it is there as a whole, and its damage is reported.
\<close>

definition frame_with :: "bytes \<Rightarrow> bytes \<Rightarrow> bytes \<Rightarrow> bytes" where
  "frame_with noise body digits = noise @ [0x24] @ body @ [0x23] @ digits"

definition verdict :: "nat \<Rightarrow> bytes \<Rightarrow> bytes \<Rightarrow> debugserver_error + parsed_packet option" where
  "verdict n body digits = (case parse_hex_byte digits of
       None \<Rightarrow> Inl InvalidPayload
     | Some expected \<Rightarrow>
         if checksum_byte body \<noteq> expected then Inl (Checksum expected (checksum_byte body))
         else if \<not> utf8_valid (decode_packet_body body) then Inl DebugUtf8
         else Inr (Some \<lparr>packet_payload = decode_packet_body body, packet_consumed = n\<rparr>))"

lemma frame_positions:
  assumes "0x24 \<notin> set noise" and "0x23 \<notin> set noise" and "0x23 \<notin> set body"
  shows "position (\<lambda>b. b = 0x24) (frame_with noise body digits @ rest) = Some (length noise)"
    and "position (\<lambda>b. b = 0x23) (frame_with noise body digits @ rest) = Some (length noise + 1 + length body)"
proof -
  have "\<forall>x \<in> set noise. x \<noteq> 0x24" "\<forall>x \<in> set noise. x \<noteq> 0x23" "\<forall>x \<in> set body. x \<noteq> 0x23" using assms by auto
  then show "position (\<lambda>b. b = 0x24) (frame_with noise body digits @ rest) = Some (length noise)"
    and "position (\<lambda>b. b = 0x23) (frame_with noise body digits @ rest) = Some (length noise + 1 + length body)"
    by (simp_all add: frame_with_def position_append)
qed

lemma parse_frame:
  assumes "0x24 \<notin> set noise" and "0x23 \<notin> set noise" and "0x23 \<notin> set body" and "length digits = 2"
  shows "try_parse_packet (frame_with noise body digits @ rest) = verdict (length (frame_with noise body digits)) body digits"
  unfolding try_parse_packet_def frame_positions [OF assms(1-3)]
  by (auto simp: frame_with_def verdict_def assms(4) ok_or_def Let_def split: option.splits)

lemma parse_partial:
  assumes "0x24 \<notin> set noise" and "0x23 \<notin> set noise" and "0x23 \<notin> set body" and "length digits = 2"
    and "k < length (frame_with noise body digits)"
  shows "try_parse_packet (take k (frame_with noise body digits)) = Inr None"
  using assms(4,5) frame_positions [OF assms(1-3), of digits "[]"]
  by (auto simp: try_parse_packet_def position_take) (simp add: frame_with_def)

text \<open>Conversely, what the parser takes is a frame at the beginning of the buffer.\<close>

lemma position_split: "position P xs = Some i \<Longrightarrow> \<exists>ys x zs. xs = ys @ x # zs \<and> length ys = i \<and> P x \<and> (\<forall>y \<in> set ys. \<not> P y)"
proof (induction xs arbitrary: i)
  case (Cons a xs)
  show ?case
  proof (cases "P a")
    case False
    then obtain j where j: "position P xs = Some j" "i = Suc j" using Cons.prems by auto
    from Cons.IH [OF j(1)] obtain ys x zs where "xs = ys @ x # zs" "length ys = j" "P x" "\<forall>y \<in> set ys. \<not> P y" by auto
    then show ?thesis using False j(2) by (intro exI [of _ "a # ys"] exI [of _ x] exI [of _ zs]) auto
  qed (use Cons.prems in auto)
qed simp

lemma parse_takes_frame:
  assumes "try_parse_packet data = Inr (Some p)"
  shows "\<exists>noise body digits rest. data = frame_with noise body digits @ rest \<and> 0x24 \<notin> set noise \<and> 0x23 \<notin> set noise \<and>
    0x23 \<notin> set body \<and> length digits = 2 \<and> verdict (length (frame_with noise body digits)) body digits = Inr (Some p)"
proof -
  obtain i j where ij: "position (\<lambda>b. b = 0x24) data = Some i" "position (\<lambda>b. b = 0x23) data = Some j" "i \<le> j" "j + 3 \<le> length data"
    using assms by (auto simp: try_parse_packet_def split: option.splits if_splits)
  from position_split [OF ij(1)] obtain noise zs where i: "data = noise @ 0x24 # zs" "length noise = i" "0x24 \<notin> set noise" by auto
  from position_split [OF ij(2)] obtain front r where j: "data = front @ 0x23 # r" "length front = j" "0x23 \<notin> set front" by auto
  have "i \<noteq> j" using i j by (auto simp: append_eq_append_conv_if split: if_splits)
  then obtain body where body: "front = noise @ 0x24 # body"
    using i(1,2) j(1,2) ij(3) by (auto simp: append_eq_append_conv2 append_eq_Cons_conv)
  have "2 \<le> length r" using ij(4) j(1,2) by simp
  then have data: "data = frame_with noise body (take 2 r) @ drop 2 r"
    using j(1) body by (simp add: frame_with_def)
  moreover have "0x23 \<notin> set noise" "0x23 \<notin> set body" using j(3) body by auto
  ultimately show ?thesis
    using assms parse_frame [OF i(3), of body "take 2 r" "drop 2 r"] i(3) \<open>2 \<le> length r\<close>
    by (intro exI [of _ noise] exI [of _ body] exI [of _ "take 2 r"] exI [of _ "drop 2 r"]) auto
qed

section \<open>Receiving\<close>

lemma rx_read_carries:
  assumes "carries es bs" and "bs \<noteq> []" and "0 < n"
  shows "\<exists>c r es'. rx_read n es = (Ok c, es') \<and> c \<noteq> [] \<and> bs = c @ r \<and> carries es' r"
proof -
  obtain c r es' where es: "es = Chunk c # es'" "c \<noteq> []" "bs = c @ r" "carries es' r"
    using assms(1,2) by (cases es) (auto simp: carries_Cons)
  show ?thesis
  proof (cases "length c \<le> n")
    case False
    then show ?thesis using es assms(3)
      by (intro exI [of _ "take n c"] exI [of _ "drop n c @ r"]) (auto simp: rx_read_def carries_Cons)
  qed (use es in \<open>auto simp: rx_read_def\<close>)
qed

text \<open>The client reads until the frame is complete, and then decides on it.\<close>

lemma recv_waits:
  assumes "carries (rx (gdb_stream s)) bs" and "read_buf s @ bs = frame @ rest"
    and partial: "\<And>k. k < length frame \<Longrightarrow> try_parse_packet (take k frame) = Inr None"
  shows "\<exists>es more left. gdb_recv s = gdb_recv (s\<lparr>gdb_stream := (gdb_stream s)\<lparr>rx := es\<rparr>, read_buf := frame @ more\<rparr>) \<and>
    carries es left \<and> rest = more @ left"
  using assms(1,2)
proof (induction s arbitrary: bs rule: gdb_recv.induct)
  case (1 s)
  show ?case
  proof (cases "length frame \<le> length (read_buf s)")
    case True
    then obtain more where "read_buf s = frame @ more" "rest = more @ bs" using "1.prems"(2) by (auto simp: append_eq_append_conv2)
    moreover from this have "s\<lparr>gdb_stream := (gdb_stream s)\<lparr>rx := rx (gdb_stream s)\<rparr>, read_buf := frame @ more\<rparr> = s" by simp
    ultimately show ?thesis using "1.prems"(1) by metis
  next
    case False
    then have buf: "read_buf s = take (length (read_buf s)) frame" "bs \<noteq> []"
      using "1.prems"(2) by (auto simp: append_eq_append_conv2 append_eq_append_conv_if)
    then have none: "try_parse_packet (read_buf s) = Inr None" using partial [of "length (read_buf s)"] False by simp
    obtain c r es where c: "rx_read 1024 (rx (gdb_stream s)) = (Ok c, es)" "c \<noteq> []" "bs = c @ r" "carries es r"
      using rx_read_carries [OF "1.prems"(1) buf(2), of 1024] by auto
    let ?t = "s\<lparr>gdb_stream := (gdb_stream s)\<lparr>rx := es\<rparr>\<rparr>"
    have got: "on_gdb (sock_read 1024) s = (Ok c, ?t)" using c(1) by (simp add: on_gdb_def sock_read_def)
    then have "gdb_recv s = gdb_recv (?t\<lparr>read_buf := read_buf ?t @ c\<rparr>)" using none c(2) by (subst gdb_recv.simps) simp
    moreover have "carries (rx (gdb_stream (?t\<lparr>read_buf := read_buf ?t @ c\<rparr>))) r" using c(4) by simp
    moreover have "read_buf (?t\<lparr>read_buf := read_buf ?t @ c\<rparr>) @ r = frame @ rest" using "1.prems"(2) c(3) by simp
    ultimately show ?thesis using "1.IH" [OF none refl got c(2)] by fastforce
  qed
qed

definition quiet_writer :: "gdb_client \<Rightarrow> bool" where
  "quiet_writer s \<longleftrightarrow> wx (gdb_stream s) = [] \<and> fx (gdb_stream s) = []"

lemma write_ack_quiet:
  "quiet_writer s \<Longrightarrow> write_ack a s = (Ok (), s\<lparr>gdb_stream := (gdb_stream s)\<lparr>wire := wire (gdb_stream s) @ [a]\<rparr>\<rparr>)"
  by (simp add: write_ack_def on_gdb_def quiet_writer_def sock_write_all_quiet sock_flush_quiet proc_simps)

lemma write_ack_Ok:
  assumes "write_ack a s = (Ok x, t)"
  shows "read_buf t = read_buf s" and "rx (gdb_stream t) = rx (gdb_stream s)" and "wire (gdb_stream t) = wire (gdb_stream s) @ [a]"
proof -
  obtain y u where u: "on_gdb (sock_write_all [a]) s = (Ok y, u)" "on_gdb sock_flush u = (Ok x, t)"
    using assms by (auto simp: write_ack_def and_then_Ok_iff)
  from u(1) have "read_buf u = read_buf s" "rx (gdb_stream u) = rx (gdb_stream s)" "wire (gdb_stream u) = wire (gdb_stream s) @ [a]"
    by (auto simp: on_gdb_def on_stream_def split: prod.splits outcome.splits dest!: sock_write_all_Ok)
  moreover from u(2) have "read_buf t = read_buf u" "rx (gdb_stream t) = rx (gdb_stream u)" "wire (gdb_stream t) = wire (gdb_stream u)"
    by (auto simp: on_gdb_def on_stream_def sock_flush_def split: list.splits fx_event.splits)
  ultimately show "read_buf t = read_buf s" "rx (gdb_stream t) = rx (gdb_stream s)" "wire (gdb_stream t) = wire (gdb_stream s) @ [a]"
    by simp_all
qed

text \<open>The client's state after it took \<open>buf\<close> and wrote \<open>a\<close>.\<close>

definition answered :: "byte \<Rightarrow> rx_event list \<Rightarrow> bytes \<Rightarrow> gdb_client \<Rightarrow> gdb_client" where
  "answered a es buf s = s\<lparr>gdb_stream := (gdb_stream s)\<lparr>rx := es, wire := wire (gdb_stream s) @ [a]\<rparr>, read_buf := buf\<rparr>"

lemma recv_frame:
  assumes "carries (rx (gdb_stream s)) bs" and "read_buf s @ bs = frame_with noise body digits @ rest" and q: "quiet_writer s"
    and f: "0x24 \<notin> set noise" "0x23 \<notin> set noise" "0x23 \<notin> set body" "length digits = 2"
  shows "\<exists>es more left. carries es left \<and> rest = more @ left \<and>
    gdb_recv s = (case verdict (length (frame_with noise body digits)) body digits of
        Inr (Some p) \<Rightarrow> (Ok (packet_payload p), answered 0x2B es more s)
      | Inl e \<Rightarrow> (Err e, answered 0x2D es [] s))"
proof -
  obtain es more left where w: "gdb_recv s = gdb_recv (s\<lparr>gdb_stream := (gdb_stream s)\<lparr>rx := es\<rparr>, read_buf := frame_with noise body digits @ more\<rparr>)"
    "carries es left" "rest = more @ left"
    using recv_waits [OF assms(1,2) parse_partial [OF f]] by blast
  let ?v = "verdict (length (frame_with noise body digits)) body digits"
  have v: "(\<exists>p. ?v = Inr (Some p) \<and> packet_consumed p = length (frame_with noise body digits)) \<or> (\<exists>e. ?v = Inl e)"
    by (auto simp: verdict_def split: option.splits)
  have "gdb_recv s = (case ?v of
        Inr (Some p) \<Rightarrow> (Ok (packet_payload p), answered 0x2B es more s)
      | Inl e \<Rightarrow> (Err e, answered 0x2D es [] s))"
    unfolding w(1) using v parse_frame [OF f, of more] q
    by (subst gdb_recv.simps) (auto simp: write_ack_quiet quiet_writer_def answered_def proc_simps)
  then show ?thesis using w(2,3) by blast
qed

section \<open>Properties\<close>

text \<open>A packet on the wire: bytes in between, the body and its checksum. A caller sends its requests one by one.\<close>

record gdb_packet =
  between :: bytes
  body_of :: bytes
  message_of :: bytes

definition packet_bytes :: "gdb_packet \<Rightarrow> bytes" where
  "packet_bytes p = frame_with (between p) (body_of p) (checksum (body_of p))"

definition packet_ok :: "gdb_packet \<Rightarrow> bool" where
  "packet_ok p \<longleftrightarrow> 0x24 \<notin> set (between p) \<and> 0x23 \<notin> set (between p) \<and> encodes (body_of p) (message_of p) \<and> utf8_valid (message_of p)"

fun gdb_requests :: "bytes list \<Rightarrow> bytes list gdb_proc" where
  "gdb_requests [] = ret []"
| "gdb_requests (q # qs) = and_then (gdb_request q) (\<lambda>a. and_then (gdb_requests qs) (\<lambda>as. ret (a # as)))"

lemma packet_verdict:
  "packet_ok p \<Longrightarrow> verdict n (body_of p) (checksum (body_of p)) = Inr (Some \<lparr>packet_payload = message_of p, packet_consumed = n\<rparr>)"
  by (auto simp: verdict_def parse_checksum packet_ok_def encodes_decode_packet_body)

lemma request_answered:
  assumes "carries (rx (gdb_stream s)) bs" and "read_buf s @ bs = packet_bytes p @ rest" and q: "quiet_writer s" and p: "packet_ok p"
  shows "\<exists>t left. gdb_request msg s = (Ok (message_of p), t) \<and> carries (rx (gdb_stream t)) left \<and> read_buf t @ left = rest \<and>
    quiet_writer t \<and> wire (gdb_stream t) = wire (gdb_stream s) @ format_packet msg @ [0x2B]"
proof -
  let ?s = "s\<lparr>gdb_stream := (gdb_stream s)\<lparr>wire := wire (gdb_stream s) @ format_packet msg\<rparr>\<rparr>"
  have sent: "gdb_send msg s = (Ok (), ?s)"
    using q by (simp add: gdb_send_def on_gdb_def quiet_writer_def sock_write_all_quiet sock_flush_quiet proc_simps)
  have "length (checksum (body_of p)) = 2" by (simp add: checksum_def Let_def)
  then obtain es more left where "carries es left" "rest = more @ left" "gdb_recv ?s = (Ok (message_of p), answered 0x2B es more ?s)"
    using recv_frame [of ?s bs "between p" "body_of p" "checksum (body_of p)" rest] assms
    by (auto simp: packet_bytes_def packet_verdict packet_ok_def encodes_no_end quiet_writer_def)
  then show ?thesis using sent q by (auto simp: gdb_request_def answered_def quiet_writer_def)
qed

text \<open>
  C15. Every reply arrives and goes to its own request: when the device answers with packets in any
  encoding the protocol allows, the requests return the messages in order, whatever bytes are between
  the packets and however the stream is cut, each packet is acknowledged, and what follows is left.
\<close>

theorem gdb_replies_in_order:
  assumes "carries (rx (gdb_stream s)) bs" and "read_buf s @ bs = concat (map packet_bytes ps) @ rest" and "quiet_writer s"
    and "\<forall>p \<in> set ps. packet_ok p" and "length qs = length ps"
  shows "\<exists>t left. gdb_requests qs s = (Ok (map message_of ps), t) \<and> carries (rx (gdb_stream t)) left \<and> read_buf t @ left = rest \<and>
    wire (gdb_stream t) = wire (gdb_stream s) @ concat (map (\<lambda>q. format_packet q @ [0x2B]) qs)"
  using assms
proof (induction ps arbitrary: s bs qs)
  case Nil
  then show ?case by (auto simp: proc_simps)
next
  case (Cons p ps)
  obtain q qs' where qs: "qs = q # qs'" "length qs' = length ps" using Cons.prems(5) by (cases qs) auto
  obtain t left where t: "gdb_request q s = (Ok (message_of p), t)" "carries (rx (gdb_stream t)) left"
    "read_buf t @ left = concat (map packet_bytes ps) @ rest" "quiet_writer t"
    "wire (gdb_stream t) = wire (gdb_stream s) @ format_packet q @ [0x2B]"
    using request_answered [OF Cons.prems(1) _ Cons.prems(3), of p "concat (map packet_bytes ps) @ rest" q] Cons.prems by auto
  from Cons.IH [OF t(2-4) _ qs(2)] Cons.prems(4) show ?case using t(1,5) qs(1) by (fastforce simp: proc_simps)
qed

text \<open>
  C25. Nothing but intact packets is returned: whatever the device sends and whatever the
  transport does, a message that \<open>gdb_recv\<close> returns is the decoded body of a frame that stands in
  the received bytes, its checksum is right, it is acknowledged, and only the bytes up to its end are used up.
\<close>

theorem gdb_recv_sound:
  assumes "gdb_recv s = (Ok m, t)"
  shows "\<exists>noise body digits. read_buf s @ rx_bytes (rx (gdb_stream s)) =
      frame_with noise body digits @ read_buf t @ rx_bytes (rx (gdb_stream t)) \<and>
    0x24 \<notin> set noise \<and> 0x23 \<notin> set (noise @ body) \<and> parse_hex_byte digits = Some (checksum_byte body) \<and>
    m = decode_packet_body body \<and> utf8_valid m \<and> wire (gdb_stream t) = wire (gdb_stream s) @ [0x2B]"
  using assms
proof (induction s rule: gdb_recv.induct)
  case (1 s)
  show ?case
  proof (cases "try_parse_packet (read_buf s)")
    case (Inl e)
    then show ?thesis using "1.prems" by (subst (asm) gdb_recv.simps) (auto simp: and_then_Ok_iff proc_runs)
  next
    case (Inr r)
    show ?thesis
    proof (cases r)
      case None
      then obtain c u where c: "on_gdb (sock_read 1024) s = (Ok c, u)" "c \<noteq> []" "gdb_recv (u\<lparr>read_buf := read_buf u @ c\<rparr>) = (Ok m, t)"
        using Inr "1.prems" by (subst (asm) gdb_recv.simps) (auto simp: and_then_Ok_iff split: if_splits)
      then have "rx_bytes (rx (gdb_stream s)) = c @ rx_bytes (rx (gdb_stream u))" "read_buf u = read_buf s"
        "wire (gdb_stream u) = wire (gdb_stream s)"
        by (auto simp: on_gdb_def on_stream_def sock_read_def rx_read_def
            split: prod.splits outcome.splits list.splits rx_event.splits if_splits)
      then show ?thesis using "1.IH" [OF Inr None c(1,2,3)] by simp
    next
      case (Some p)
      then obtain noise body digits rest where f: "read_buf s = frame_with noise body digits @ rest" "0x24 \<notin> set noise"
        "0x23 \<notin> set noise" "0x23 \<notin> set body" "verdict (length (frame_with noise body digits)) body digits = Inr (Some p)"
        using Inr parse_takes_frame by blast
      then have "parse_hex_byte digits = Some (checksum_byte body)" "packet_payload p = decode_packet_body body" "utf8_valid (decode_packet_body body)"
        "packet_consumed p = length (frame_with noise body digits)"
        by (auto simp: verdict_def split: option.splits if_splits)
      moreover from this have "m = decode_packet_body body" "read_buf t = rest" "rx (gdb_stream t) = rx (gdb_stream s)"
        "wire (gdb_stream t) = wire (gdb_stream s) @ [0x2B]"
        using Inr Some f(1) "1.prems" write_ack_Ok by (auto simp: gdb_recv.simps [of s] and_then_Ok_iff proc_runs)
      ultimately show ?thesis using f by fastforce
    qed
  qed
qed

text \<open>
  A packet whose start was lost blocks the connection: once the byte that ends a packet is in the
  buffer before any byte that starts one, no receive ever returns a message, whatever arrives
  later, and the buffer stays that way.
\<close>

theorem gdb_stray_end_blocks:
  assumes "read_buf s = noise @ r" and "0x24 \<notin> set noise" and "0x23 \<in> set noise" and "gdb_recv s = (result, t)"
  shows "(\<forall>m. result \<noteq> Ok m) \<and> (\<exists>r'. read_buf t = noise @ r')"
  using assms
proof (induction s arbitrary: r rule: gdb_recv.induct)
  case (1 s)
  have none: "try_parse_packet (read_buf s) = Inr None"
  proof -
    obtain j where j: "position (\<lambda>b. b = 0x23) noise = Some j"
      using "1.prems"(3) position_None [of "\<lambda>b. b = 0x23" noise] by fastforce
    then have "j < length noise" by (auto dest: position_Some)
    moreover have "position (\<lambda>b. b = 0x23) (read_buf s) = Some j" using j "1.prems"(1) position_prefix by simp
    moreover have "\<forall>i. position (\<lambda>b. b = 0x24) (read_buf s) = Some i \<longrightarrow> length noise \<le> i"
    proof -
      have "\<forall>x \<in> set noise. x \<noteq> 0x24" using "1.prems"(2) by auto
      then show ?thesis using "1.prems"(1) by (auto simp: position_append)
    qed
    ultimately show ?thesis by (auto simp: try_parse_packet_def split: option.splits)
  qed
  show ?case
  proof (cases "on_gdb (sock_read 1024) s")
    case (Pair o1 u)
    then have u: "read_buf u = noise @ r" using "1.prems"(1)
      by (auto simp: on_gdb_def on_stream_def split: prod.splits outcome.splits)
    show ?thesis
    proof (cases "\<exists>c. o1 = Ok c \<and> c \<noteq> []")
      case True
      then obtain c where c: "o1 = Ok c" "c \<noteq> []" by auto
      then have "gdb_recv (u\<lparr>read_buf := read_buf u @ c\<rparr>) = (result, t)"
        using none Pair "1.prems"(4) by (subst (asm) gdb_recv.simps) simp
      then show ?thesis using "1.IH" [OF none refl] Pair c u "1.prems"(2,3) by fastforce
    next
      case False
      then show ?thesis using none Pair u "1.prems"(4)
        by (subst (asm) gdb_recv.simps) (cases o1; auto split: if_splits)
    qed
  qed
qed

section \<open>A sample reply\<close>

text \<open>The reply \<open>0000\<close> as a run, after an acknowledgement, in two chunks; and a frame that lost its start.\<close>

definition sample_debugger :: gdb_client where
  "sample_debugger = GdbRemoteClient_new
     \<lparr>rx = [Chunk [0x2B, 0x24, 0x30], Chunk [0x2A, 0x20, 0x23, 0x37, 0x61]], wx = [], fx = [], wire = []\<rparr>"

definition sample_packet :: gdb_packet where
  "sample_packet = \<lparr>between = [0x2B], body_of = [0x30, 0x2A, 0x20], message_of = [0x30, 0x30, 0x30, 0x30]\<rparr>"

lemma sample_packet_ok: "packet_ok sample_packet"
proof -
  have "encodes ([] @ [0x30]) ([] @ [0x30])" by (intro encodes.intros) auto
  then have "encodes (([] @ [0x30]) @ [0x2A, of_nat (3 + 29)]) (([] @ [0x30]) @ replicate 3 (last ([] @ [0x30])))"
    by (rule encodes.run) auto
  moreover have "utf8_valid [0x30, 0x30, 0x30, 0x30]" by code_simp
  ultimately show ?thesis by (simp add: packet_ok_def sample_packet_def numeral_3_eq_3)
qed

theorem gdb_replies_in_order_witness:
  "\<exists>t. gdb_requests [[0x67]] sample_debugger = (Ok [[0x30, 0x30, 0x30, 0x30]], t) \<and> read_buf t = [] \<and>
     wire (gdb_stream t) = [0x2B, 0x24, 0x67, 0x23, 0x36, 0x37, 0x2B]"
proof -
  have bytes: "packet_bytes sample_packet = [0x2B, 0x24, 0x30, 0x2A, 0x20, 0x23, 0x37, 0x61]"
    and wire: "format_packet [0x67] = [0x2B, 0x24, 0x67, 0x23, 0x36, 0x37]" by code_simp+
  have "carries (rx (gdb_stream sample_debugger)) (packet_bytes sample_packet)" "read_buf sample_debugger = []"
    "quiet_writer sample_debugger" "wire (gdb_stream sample_debugger) = []"
    by (simp_all add: bytes sample_debugger_def GdbRemoteClient_new_def carries_Cons quiet_writer_def)
  then obtain t left where "gdb_requests [[0x67]] sample_debugger = (Ok (map message_of [sample_packet]), t)"
    "read_buf t @ left = []" "wire (gdb_stream t) = concat (map (\<lambda>q. format_packet q @ [0x2B]) [[0x67]])"
    using gdb_replies_in_order [of sample_debugger "packet_bytes sample_packet" "[sample_packet]" "[]" "[[0x67]]"] sample_packet_ok by auto
  then show ?thesis by (auto simp: wire sample_packet_def)
qed

theorem gdb_recv_sound_witness:
  "\<exists>noise body digits. [0x2B, 0x24, 0x30, 0x2A, 0x20, 0x23, 0x37, 0x61] = frame_with noise body digits \<and>
     parse_hex_byte digits = Some (checksum_byte body) \<and> decode_packet_body body = [0x30, 0x30, 0x30, 0x30]"
proof -
  define t where "t = snd (gdb_recv sample_debugger)"
  have run: "fst (gdb_recv sample_debugger) = Ok [0x30, 0x30, 0x30, 0x30]" "read_buf t = []" "rx (gdb_stream t) = []"
    "read_buf sample_debugger @ rx_bytes (rx (gdb_stream sample_debugger)) = [0x2B, 0x24, 0x30, 0x2A, 0x20, 0x23, 0x37, 0x61]"
    unfolding t_def by code_simp+
  then have "gdb_recv sample_debugger = (Ok [0x30, 0x30, 0x30, 0x30], t)" by (simp add: t_def prod_eq_iff)
  from gdb_recv_sound [OF this] obtain noise body digits where
    "read_buf sample_debugger @ rx_bytes (rx (gdb_stream sample_debugger)) = frame_with noise body digits @ read_buf t @ rx_bytes (rx (gdb_stream t))"
    "parse_hex_byte digits = Some (checksum_byte body)" "[0x30, 0x30, 0x30, 0x30] = decode_packet_body body" by blast
  then show ?thesis unfolding run(2-4) by (intro exI [of _ noise] exI [of _ body] exI [of _ digits]) simp
qed

theorem gdb_stray_end_blocks_witness:
  "\<forall>m. fst (gdb_recv (sample_debugger\<lparr>read_buf := [0x4B, 0x23]\<rparr>)) \<noteq> Ok m"
  using gdb_stray_end_blocks [of "sample_debugger\<lparr>read_buf := [0x4B, 0x23]\<rparr>" "[0x4B, 0x23]" "[]"
      "fst (gdb_recv (sample_debugger\<lparr>read_buf := [0x4B, 0x23]\<rparr>))" "snd (gdb_recv (sample_debugger\<lparr>read_buf := [0x4B, 0x23]\<rparr>))"]
  by simp

end
