(* ===== verification/Crash_Patterns.thy ===== *)
theory Crash_Patterns
  imports Ios_Prelude
begin

text \<open>
  The file name patterns of the crash report service (\<open>services/crashreport/mod.rs\<close>). The matcher
  works on indices and returns to the last \<open>*\<close> when it is stuck. \<open>glob\<close> is its specification; the two
  agree on every name without a \<open>*\<close> in it, and the matcher returns on every input.
\<close>

section \<open>The matcher\<close>

partial_function (option) wildcard_loop :: "bytes \<Rightarrow> bytes \<Rightarrow> nat \<Rightarrow> nat \<Rightarrow> nat option \<Rightarrow> nat \<Rightarrow> bool option" where
  "wildcard_loop pattern candidate p c star star_match =
     (if c < length candidate then
        (if p < length pattern \<and> (pattern ! p = 0x3F \<or> pattern ! p = candidate ! c)
         then wildcard_loop pattern candidate (p + 1) (c + 1) star star_match
         else if p < length pattern \<and> pattern ! p = 0x2A
         then wildcard_loop pattern candidate (p + 1) c (Some p) c
         else (case star of
                 Some star_pos \<Rightarrow> wildcard_loop pattern candidate (star_pos + 1) (star_match + 1) star (star_match + 1)
               | None \<Rightarrow> Some False))
      else Some (dropWhile (\<lambda>b. b = 0x2A) (drop p pattern) = []))"

declare wildcard_loop.simps [code]

definition wildcard_match :: "bytes \<Rightarrow> bytes \<Rightarrow> bool option" where
  "wildcard_match pattern candidate = wildcard_loop pattern candidate 0 0 None 0"

section \<open>The specification\<close>

fun glob :: "bytes \<Rightarrow> bytes \<Rightarrow> bool" where
  "glob [] cs = (cs = [])"
| "glob (p # ps) cs =
     (if p = 0x2A then (\<exists>k \<in> set [0..<Suc (length cs)]. glob ps (drop k cs))
      else cs \<noteq> [] \<and> (p = 0x3F \<or> p = hd cs) \<and> glob ps (tl cs))"

lemma glob_end: "glob ps [] \<longleftrightarrow> dropWhile (\<lambda>b. b = 0x2A) ps = []"
  by (induction ps) auto

lemma glob_star: "glob (0x2A # ps) (drop c cs) \<longleftrightarrow> (\<exists>k. c \<le> k \<and> glob ps (drop k cs))"
proof -
  have "(\<exists>k \<in> set [0..<Suc (length (drop c cs))]. glob ps (drop k (drop c cs))) \<longleftrightarrow> (\<exists>k. glob ps (drop k (drop c cs)))"
  proof
    assume "\<exists>k. glob ps (drop k (drop c cs))"
    then obtain k where "glob ps (drop k (drop c cs))" by blast
    then have "glob ps (drop (min k (length (drop c cs))) (drop c cs))" by (auto simp: min_def)
    moreover have "min k (length (drop c cs)) \<in> set [0..<Suc (length (drop c cs))]" by (auto simp: min_def)
    ultimately show "\<exists>k \<in> set [0..<Suc (length (drop c cs))]. glob ps (drop k (drop c cs))" by blast
  qed blast
  also have "\<dots> \<longleftrightarrow> (\<exists>k. c \<le> k \<and> glob ps (drop k cs))"
    by (metis add.commute drop_drop le_add1 le_add_diff_inverse2)
  finally show ?thesis by (simp del: upt_Suc set_upt)
qed

text \<open>A part without stars takes as many bytes as it has.\<close>

lemma glob_literal: "0x2A \<notin> set ls \<Longrightarrow> glob (ls @ ps) cs \<Longrightarrow> length ls \<le> length cs \<and> glob ps (drop (length ls) cs)"
proof (induction ls arbitrary: cs)
  case (Cons l ls)
  then show ?case by (cases cs) auto
qed simp

section \<open>The matcher meets it\<close>

text \<open>
  What holds at the head of the loop: before the first star, the rest of the name has to match the
  rest of the pattern; after it, the name matches if the part behind the last star matches
  somewhere from \<open>star_match\<close> on, and the attempt at \<open>star_match\<close> has come to \<open>p\<close> and \<open>c\<close>.
\<close>

definition attempting :: "bytes \<Rightarrow> bytes \<Rightarrow> nat \<Rightarrow> nat \<Rightarrow> nat option \<Rightarrow> nat \<Rightarrow> bool" where
  "attempting P C p c star sm \<longleftrightarrow> p \<le> length P \<and> c \<le> length C \<and> sm \<le> c \<and>
     (case star of
        None \<Rightarrow> glob P C = glob (drop p P) (drop c C)
      | Some s \<Rightarrow> s < p \<and> (\<exists>ls. 0x2A \<notin> set ls \<and> drop (s + 1) P = ls @ drop p P \<and> length ls = c - sm) \<and>
          glob P C = (\<exists>k. sm \<le> k \<and> glob (drop (s + 1) P) (drop k C)) \<and>
          glob (drop (s + 1) P) (drop sm C) = glob (drop p P) (drop c C))"

lemma attempting_step:
  assumes "attempting P C p c star sm" and "c < length C" "p < length P" "P ! p \<noteq> 0x2A" "P ! p = 0x3F \<or> P ! p = C ! c"
  shows "attempting P C (p + 1) (c + 1) star sm"
proof -
  have d: "drop p P = P ! p # drop (p + 1) P" "drop c C = C ! c # drop (c + 1) C"
    using assms(2,3) by (simp_all add: Cons_nth_drop_Suc)
  have g: "glob (drop p P) (drop c C) = glob (drop (p + 1) P) (drop (c + 1) C)"
    unfolding d using assms(4,5) by simp
  have "\<exists>ls'. 0x2A \<notin> set ls' \<and> X = ls' @ drop (p + 1) P \<and> length ls' = c + 1 - sm"
    if "0x2A \<notin> set ls \<and> X = ls @ drop p P \<and> length ls = c - sm" for ls X
    using that assms(1,4) d(1) by (intro exI [of _ "ls @ [P ! p]"]) (auto simp: attempting_def)
  then show ?thesis using assms(1-3) g by (auto simp: attempting_def split: option.splits)
qed

lemma attempting_star:
  assumes "attempting P C p c star sm" and "p < length P" "P ! p = 0x2A"
  shows "attempting P C (p + 1) c (Some p) c"
proof -
  have d: "drop p P = 0x2A # drop (p + 1) P" using assms(2,3) Cons_nth_drop_Suc [of p P] by simp
  have g: "glob (drop p P) (drop x C) = (\<exists>k. x \<le> k \<and> glob (drop (p + 1) P) (drop k C))" for x
    unfolding d by (rule glob_star)
  have "glob P C = glob (drop p P) (drop c C)"
  proof (cases star)
    case (Some s)
    then obtain ls where ls: "0x2A \<notin> set ls" "drop (s + 1) P = ls @ drop p P" "length ls = c - sm"
      using assms(1) by (auto simp: attempting_def)
    have "glob (drop p P) (drop c C)" if "sm \<le> k" "glob (drop (s + 1) P) (drop k C)" for k
    proof -
      have "glob (drop p P) (drop (k + (c - sm)) C)"
        using glob_literal [OF ls(1), of "drop p P" "drop k C"] that(2) ls(2,3) by (simp add: add.commute)
      moreover have "c \<le> k + (c - sm)" using that(1) by simp
      ultimately show ?thesis unfolding g by (meson order_trans)
    qed
    then show ?thesis using assms(1) Some by (auto simp: attempting_def)
  qed (use assms(1) in \<open>simp add: attempting_def\<close>)
  then show ?thesis using assms g by (auto simp: attempting_def)
qed

lemma attempting_back:
  assumes "attempting P C p c (Some s) sm" and "c < length C" and "\<not> glob (drop p P) (drop c C)"
  shows "attempting P C (s + 1) (sm + 1) (Some s) (sm + 1)"
proof -
  have "\<not> glob (drop (s + 1) P) (drop sm C)" using assms(1,3) by (simp add: attempting_def)
  then have "(\<exists>k. sm \<le> k \<and> glob (drop (s + 1) P) (drop k C)) = (\<exists>k. sm + 1 \<le> k \<and> glob (drop (s + 1) P) (drop k C))"
    by (metis Suc_eq_plus1 Suc_leD le_antisym not_less_eq_eq)
  moreover have "\<exists>ls. 0x2A \<notin> set ls \<and> drop (s + 1) P = ls @ drop (s + 1) P \<and> length ls = sm + 1 - (sm + 1)" by simp
  ultimately show ?thesis using assms(1,2) unfolding attempting_def option.case by (intro conjI) simp_all
qed

lemma attempting_end:
  assumes "attempting P C p c star sm" and "\<not> c < length C"
  shows "glob P C = glob (drop p P) []"
proof (cases star)
  case (Some s)
  have c: "c = length C" using assms by (auto simp: attempting_def)
  obtain ls where ls: "0x2A \<notin> set ls" "drop (s + 1) P = ls @ drop p P" "length ls = c - sm"
    using assms(1) Some by (auto simp: attempting_def)
  have "glob (drop p P) []" if "sm \<le> k" "glob (drop (s + 1) P) (drop k C)" for k
    using glob_literal [OF ls(1), of "drop p P" "drop k C"] that ls(2,3) c by simp
  then show ?thesis using assms(1) Some c by (auto simp: attempting_def)
qed (use assms in \<open>auto simp: attempting_def\<close>)

lemma wildcard_loop_glob:
  assumes "attempting P C p c star sm" and "0x2A \<notin> set C"
  shows "wildcard_loop P C p c star sm = Some (glob P C)"
  using assms(1)
proof (induction "(length C - sm) * Suc (length P) + (length P - p)" arbitrary: p c star sm rule: less_induct)
  case less
  note inv = less.prems
  show ?case
  proof (cases "c < length C")
    case False
    then show ?thesis using attempting_end [OF inv] by (simp add: wildcard_loop.simps glob_end)
  next
    case c: True
    then have "C ! c \<noteq> 0x2A" using assms(2) by (metis nth_mem)
    then consider (step) "p < length P" "P ! p \<noteq> 0x2A" "P ! p = 0x3F \<or> P ! p = C ! c" | (star) "p < length P" "P ! p = 0x2A"
      | (stuck) "\<not> (p < length P \<and> (P ! p = 0x3F \<or> P ! p = C ! c))" "\<not> (p < length P \<and> P ! p = 0x2A)" by auto
    then show ?thesis
    proof cases
      case step
      then show ?thesis using less.hyps [OF _ attempting_step [OF inv c step]] c by (subst wildcard_loop.simps) simp
    next
      case star
      have "(length C - c) * Suc (length P) \<le> (length C - sm) * Suc (length P)"
        using inv by (intro mult_le_mono1) (auto simp: attempting_def)
      then have "(length C - c) * Suc (length P) + (length P - (p + 1)) < (length C - sm) * Suc (length P) + (length P - p)"
        using star(1) by linarith
      from less.hyps [OF this attempting_star [OF inv star]] show ?thesis
        using c star \<open>C ! c \<noteq> 0x2A\<close> by (subst wildcard_loop.simps) auto
    next
      case stuck
      have no: "\<not> glob (drop p P) (drop c C)"
        using stuck c by (cases "p < length P") (auto simp: Cons_nth_drop_Suc [symmetric])
      show ?thesis
      proof (cases star)
        case None
        then show ?thesis using no inv stuck c by (subst wildcard_loop.simps) (auto simp: attempting_def)
      next
        case (Some s)
        have "length C - sm = Suc (length C - (sm + 1))" using inv c by (auto simp: attempting_def)
        then have "(length C - (sm + 1)) * Suc (length P) + (length P - (s + 1)) < (length C - sm) * Suc (length P) + (length P - p)"
          by simp
        from less.hyps [OF this attempting_back [OF inv [unfolded Some] c no]] show ?thesis
          using stuck c Some by (subst wildcard_loop.simps) auto
      qed
    qed
  qed
qed

text \<open>The matcher returns, whatever the name.\<close>

lemma wildcard_loop_returns: "sm \<le> c \<Longrightarrow> \<exists>b. wildcard_loop P C p c star sm = Some b"
proof (induction "(length C - sm) * Suc (length P) + (length P - p)" arbitrary: p c star sm rule: less_induct)
  case less
  have star: "(length C - c) * Suc (length P) \<le> (length C - sm) * Suc (length P)" using less.prems by (intro mult_le_mono1) auto
  have again: "(length C - Suc sm) * Suc (length P) + (length P - Suc s) < (length C - sm) * Suc (length P) + (length P - p)"
    if "c < length C" for s
  proof -
    have "length C - sm = Suc (length C - Suc sm)" using less.prems that by simp
    then show ?thesis by simp
  qed
  show ?case
    using less.hyps [of sm "Suc p" "Suc c" star] less.hyps [of c "Suc p" c "Some p"] star
      less.hyps [of "Suc sm" "Suc (the star)" "Suc sm" star, OF again] less.prems
    by (subst wildcard_loop.simps) (auto split: option.splits)
qed

section \<open>Properties\<close>

text \<open>
  C24. Pattern matching is right: the matcher of crash report names returns on every pattern and every
  name, and on a name without a star it answers whether the name matches the pattern, where \<open>?\<close>
  stands for any byte and \<open>*\<close> for any bytes.
\<close>

theorem wildcard_match_glob:
  "(\<exists>b. wildcard_match pattern candidate = Some b) \<and>
   (0x2A \<notin> set candidate \<longrightarrow> wildcard_match pattern candidate = Some (glob pattern candidate))"
  using wildcard_loop_returns [of 0 0 pattern candidate 0 None] wildcard_loop_glob [of pattern candidate 0 0 None 0]
  by (simp add: wildcard_match_def attempting_def)

theorem wildcard_match_glob_witness:
  "wildcard_match [0x2A, 0x2E, 0x69] [0x61, 0x2E, 0x69] = Some True \<and> wildcard_match [0x2A, 0x2E, 0x69] [0x61, 0x2E] = Some False"
proof -
  have "wildcard_match [0x2A, 0x2E, 0x69] [0x61, 0x2E, 0x69] = Some (glob [0x2A, 0x2E, 0x69] [0x61, 0x2E, 0x69])"
    "wildcard_match [0x2A, 0x2E, 0x69] [0x61, 0x2E] = Some (glob [0x2A, 0x2E, 0x69] [0x61, 0x2E])"
    using wildcard_match_glob [of "[0x2A, 0x2E, 0x69]" "[0x61, 0x2E, 0x69]"] wildcard_match_glob [of "[0x2A, 0x2E, 0x69]" "[0x61, 0x2E]"] by simp_all
  moreover have "glob [0x2A, 0x2E, 0x69] [0x61, 0x2E, 0x69]" "\<not> glob [0x2A, 0x2E, 0x69] [0x61, 0x2E]" by code_simp+
  ultimately show ?thesis by simp
qed

text \<open>
  A star in the name is taken for the star of the pattern, which is then used up: the pattern that
  matches every name refuses the name \<open>*a\<close>.
\<close>

theorem wildcard_match_star_name: "wildcard_match [0x2A] [0x2A, 0x61] = Some False \<and> glob [0x2A] [0x2A, 0x61]"
proof
  show "wildcard_match [0x2A] [0x2A, 0x61] = Some False" by code_simp
  show "glob [0x2A] [0x2A, 0x61]" by code_simp
qed

end
