(* ===== verification/Text_Trim.thy ===== *)
theory Text_Trim
  imports Ios_Prelude "HOL-Library.Sublist"
begin

text \<open>
  \<open>str::trim\<close> on a text that is the list of its UTF-8 bytes: the characters of \<open>char::is_whitespace\<close>
  are removed at either end. The functions take the characters to remove, so that they serve both
  the texts kept as bytes and those kept as HOL characters.
\<close>

definition WHITESPACE :: "bytes list" where
  "WHITESPACE =
     [[9], [10], [11], [12], [13], [32], [0xC2, 0x85], [0xC2, 0xA0], [0xE1, 0x9A, 0x80]] @
     map (\<lambda>b. [0xE2, 0x80, b]) [0x80, 0x81, 0x82, 0x83, 0x84, 0x85, 0x86, 0x87, 0x88, 0x89, 0x8A, 0xA8, 0xA9, 0xAF] @
     [[0xE2, 0x81, 0x9F], [0xE3, 0x80, 0x80]]"

function trim_start :: "'a list list \<Rightarrow> 'a list \<Rightarrow> 'a list" where
  "trim_start white s = (case find (\<lambda>w. w \<noteq> [] \<and> prefix w s) white of
       None \<Rightarrow> s | Some w \<Rightarrow> trim_start white (drop (length w) s))"
  by pat_completeness auto
termination
  by (relation "measure (\<lambda>(white, s). length s)") (auto simp: find_Some_iff elim!: prefixE)

function trim_end :: "'a list list \<Rightarrow> 'a list \<Rightarrow> 'a list" where
  "trim_end white s = (case find (\<lambda>w. w \<noteq> [] \<and> suffix w s) white of
       None \<Rightarrow> s | Some w \<Rightarrow> trim_end white (take (length s - length w) s))"
  by pat_completeness auto
termination
  by (relation "measure (\<lambda>(white, s). length s)") (auto simp: find_Some_iff elim!: suffixE)

declare trim_start.simps [simp del] trim_end.simps [simp del]

end
