(* ===== verification/Crash_Times.thy ===== *)
theory Crash_Times
  imports Text_Trim "HOL-Library.Signed_Division"
begin

text \<open>
  The times of crash reports (\<open>services/crashreport/mod.rs\<close>): raw AFC time stamps in an unknown unit,
  their rendering as UTC dates, and the key by which the time of a report is compared. An \<open>i128\<close> is
  an \<open>int\<close>, with the range test in its parser; the arithmetic on parsed values stays inside the
  range. The calendar conversions are inverse to each other, and so are rendering and key.
\<close>

section \<open>Numbers\<close>

text \<open>\<open>str::parse::<i128>\<close>.\<close>

definition parse_i128 :: "bytes \<Rightarrow> int option" where
  "parse_i128 s = (case s of
       [] \<Rightarrow> None
     | c # cs \<Rightarrow>
         if c = 0x2D then (if cs = [] then None else map_option (\<lambda>n. - int n) (radix_digits 10 (2 ^ 127) 0 cs))
         else if c = 0x2B then (if cs = [] then None else map_option int (radix_digits 10 (2 ^ 127 - 1) 0 cs))
         else map_option int (radix_digits 10 (2 ^ 127 - 1) 0 s))"

fun decimal :: "nat \<Rightarrow> bytes" where
  "decimal n = (if n < 10 then [of_nat (48 + n)] else decimal (n div 10) @ [of_nat (48 + n mod 10)])"

declare decimal.simps [simp del]

text \<open>\<open>{:0w}\<close>: zeros after the sign, up to the width.\<close>

definition padded :: "nat \<Rightarrow> int \<Rightarrow> bytes" where
  "padded w n =
     (let sign = (if n < 0 then [0x2D] else []); ds = decimal (nat (abs n)) in
      sign @ replicate (w - length sign - length ds) 0x30 @ ds)"

section \<open>The calendar\<close>

text \<open>\<open>/\<close> of Rust rounds towards zero, \<open>div_euclid\<close> by a positive number down.\<close>

definition days_from_civil :: "int \<Rightarrow> int \<Rightarrow> int \<Rightarrow> int" where
  "days_from_civil year month day =
     (let adjusted_year = year - (if month \<le> 2 then 1 else 0);
          era = (if adjusted_year \<ge> 0 then adjusted_year else adjusted_year - 399) div 400;
          year_of_era = adjusted_year - era * 400;
          month_prime = month + (if month > 2 then - 3 else 9);
          day_of_year = (153 * month_prime + 2) sdiv 5 + day - 1;
          day_of_era = year_of_era * 365 + year_of_era sdiv 4 - year_of_era sdiv 100 + day_of_year in
      era * 146097 + day_of_era - 719468)"

definition civil_from_days :: "int \<Rightarrow> int \<times> int \<times> int" where
  "civil_from_days days =
     (let z = days + 719468;
          era = (if z \<ge> 0 then z else z - 146096) sdiv 146097;
          doe = z - era * 146097;
          yoe = (doe - doe sdiv 1460 + doe sdiv 36524 - doe sdiv 146096) sdiv 365;
          y = yoe + era * 400;
          doy = doe - (365 * yoe + yoe sdiv 4 - yoe sdiv 100);
          mp = (5 * doy + 2) sdiv 153;
          day = doy - (153 * mp + 2) sdiv 5 + 1;
          month = mp + (if mp < 10 then 3 else - 9);
          year = y + (if month \<le> 2 then 1 else 0) in
      (year, month, day))"

definition plausible_year :: "int \<Rightarrow> bool" where
  "plausible_year seconds = (let (year, _, _) = civil_from_days (seconds div 86400) in 1970 \<le> year \<and> year \<le> 2500)"

section \<open>Time stamps\<close>

definition RawTimestamp_parse :: "bytes \<Rightarrow> int option" where
  "RawTimestamp_parse raw =
     map_option (\<lambda>v. case find (\<lambda>d. plausible_year (v div d)) [1000000000, 1000000, 1000, 1] of
         Some d \<Rightarrow> v div d | None \<Rightarrow> v)
       (parse_i128 (trim_end WHITESPACE (trim_start WHITESPACE raw)))"

definition format_utc :: "int \<Rightarrow> bytes" where
  "format_utc t =
     (let days = t div 86400; seconds_of_day = t mod 86400;
          (year, month, day) = civil_from_days days;
          hour = seconds_of_day div 3600;
          minute = seconds_of_day mod 3600 div 60;
          second = seconds_of_day mod 60 in
      padded 4 year @ [0x2D] @ padded 2 month @ [0x2D] @ padded 2 day @ [0x20] @
      padded 2 hour @ [0x3A] @ padded 2 minute @ [0x3A] @ padded 2 second @ ascii '' UTC'')"

definition format_human_readable_timestamp :: "bytes \<Rightarrow> bytes" where
  "format_human_readable_timestamp raw = (case RawTimestamp_parse raw of Some t \<Rightarrow> format_utc t | None \<Rightarrow> raw)"

text \<open>\<open>str::get(a..b)\<close>: the bytes between two character boundaries of the text, if they are there.\<close>

definition is_char_boundary :: "nat \<Rightarrow> bytes \<Rightarrow> bool" where
  "is_char_boundary i s \<longleftrightarrow> i = 0 \<or> i = length s \<or> i < length s \<and> \<not> utf8_cont (s ! i)"

definition str_get :: "nat \<Rightarrow> nat \<Rightarrow> bytes \<Rightarrow> bytes option" where
  "str_get a b s =
     (if a \<le> b \<and> b \<le> length s \<and> is_char_boundary a s \<and> is_char_boundary b s then Some (take (b - a) (drop a s)) else None)"

definition byte_at :: "nat \<Rightarrow> bytes \<Rightarrow> byte option" where
  "byte_at i s = (if i < length s then Some (s ! i) else None)"

text \<open>The offset of the time zone in seconds, from what follows the seconds.\<close>

definition zone_offset :: "bytes \<Rightarrow> int option" where
  "zone_offset rest = (case position (\<lambda>b. b = 0x2B \<or> b = 0x2D) rest of
       None \<Rightarrow> Some 0
     | Some index \<Rightarrow>
         let sign = (if rest ! index = 0x2B then 1 else - 1);
             zone = trim_end [[0x5A]] (drop (index + 1) rest) in
         Option.bind (Option.bind (str_get 0 2 zone) parse_i128) (\<lambda>zone_hour.
         Option.bind (if byte_at 2 zone = Some 0x3A then Option.bind (str_get 3 5 zone) parse_i128
                      else parse_i128 (case str_get 2 4 zone of Some m \<Rightarrow> m | None \<Rightarrow> ascii ''00'')) (\<lambda>zone_minute.
         if zone_hour > 23 \<or> zone_minute > 59 then None
         else Some (sign * (zone_hour * 3600 + zone_minute * 60)))))"

definition timestamp_sort_key :: "bytes \<Rightarrow> int option" where
  "timestamp_sort_key value =
     Option.bind (str_get 0 10 value) (\<lambda>date.
     Option.bind (Option.bind (str_get 0 4 date) parse_i128) (\<lambda>year.
     Option.bind (Option.bind (str_get 5 7 date) parse_i128) (\<lambda>month.
     Option.bind (Option.bind (str_get 8 10 date) parse_i128) (\<lambda>day.
     if byte_at 4 date \<noteq> Some 0x2D \<or> byte_at 7 date \<noteq> Some 0x2D \<or>
        \<not> (1 \<le> month \<and> month \<le> 12) \<or> \<not> (1 \<le> day \<and> day \<le> 31) then None
     else
     let time = dropWhile (\<lambda>b. b = 0x54 \<or> b = 0x20) (drop 10 value) in
     Option.bind (Option.bind (str_get 0 2 time) parse_i128) (\<lambda>hour.
     Option.bind (Option.bind (str_get 3 5 time) parse_i128) (\<lambda>minute.
     Option.bind (Option.bind (str_get 6 8 time) parse_i128) (\<lambda>second.
     if byte_at 2 time \<noteq> Some 0x3A \<or> byte_at 5 time \<noteq> Some 0x3A \<or> hour > 23 \<or> minute > 59 \<or> second > 60 then None
     else
     Option.bind (zone_offset (drop 8 time)) (\<lambda>offset.
     Some (days_from_civil year month day * 86400 + hour * 3600 + minute * 60 + second - offset)))))))))"

section \<open>The calendar is right\<close>

lemma sdiv_div: "0 \<le> a \<Longrightarrow> 0 < b \<Longrightarrow> (a :: int) sdiv b = a div b"
  by (cases "a = 0") (simp_all add: signed_divide_int_def sgn_mult)

text \<open>
  A day of an era of 400 years, by century \<open>c\<close>, four-year cycle \<open>q\<close> of the century and day \<open>r\<close> of the
  cycle: the corrections of the year computation cancel out.
\<close>

lemma era_day_split:
  fixes doe :: int
  assumes "0 \<le> doe" and "doe \<le> 146096"
  obtains c q r where "doe = 36524 * c + 1461 * q + r" "0 \<le> c" "c \<le> 3" "0 \<le> q" "q \<le> 24" "0 \<le> r" "r \<le> 1460"
    "doe div 36524 - doe div 146096 = c"
proof
  define c where "c = min (doe div 36524) 3"
  define d where "d = doe - 36524 * c"
  have c: "0 \<le> c" "c \<le> 3" "0 \<le> d" "d \<le> 36524" using assms by (auto simp: c_def d_def min_def)
  show "doe = 36524 * c + 1461 * (d div 1461) + d mod 1461" by (simp add: d_def)
  show "0 \<le> c" "c \<le> 3" "0 \<le> d div 1461" "d div 1461 \<le> 24" "0 \<le> d mod 1461" "d mod 1461 \<le> 1460"
    using c by auto
  show "doe div 36524 - doe div 146096 = c"
  proof (cases "doe = 146096")
    case False
    then have "doe < 146096" using assms by simp
    then have "doe div 146096 = 0" "doe div 36524 \<le> 3" using assms by auto
    then show ?thesis by (simp add: c_def)
  qed (simp add: c_def)
qed

lemma year_of_era:
  fixes doe :: int
  defines "yoe \<equiv> (doe - doe div 1460 + doe div 36524 - doe div 146096) div 365"
  assumes "0 \<le> doe" and "doe \<le> 146096"
  shows "0 \<le> yoe" and "yoe \<le> 399" and "0 \<le> doe - (365 * yoe + yoe div 4 - yoe div 100)"
    and "doe - (365 * yoe + yoe div 4 - yoe div 100) \<le> 365"
proof -
  obtain c q r where s: "doe = 36524 * c + 1461 * q + r" "0 \<le> c" "c \<le> 3" "0 \<le> q" "q \<le> 24" "0 \<le> r" "r \<le> 1460"
    and b: "doe div 36524 - doe div 146096 = c"
    using era_day_split assms(2,3) by metis
  define e where "e = (24 * c + q + r) div 1460"
  have e: "e = (if 24 * c + q + r < 1460 then 0 else 1)" using s by (auto simp: e_def)
  have "doe = 1460 * (25 * c + q) + (24 * c + q + r)" using s(1) by simp
  then have "doe div 1460 = 25 * c + q + e" by (simp add: e_def)
  moreover have "X - A + B - D = 365 * (100 * c + 4 * q) + (r - e)"
    if "A = 25 * c + q + e" "X = 36524 * c + 1461 * q + r" "B - D = c" for A B D X :: int
  proof -
    have "B = c + D" using that(3) by simp
    then show ?thesis unfolding that(1,2) by (simp add: algebra_simps)
  qed
  ultimately have "doe - doe div 1460 + doe div 36524 - doe div 146096 = 365 * (100 * c + 4 * q) + (r - e)" using s(1) b by blast
  then have yoe: "yoe = 100 * c + 4 * q + (r - e) div 365" by (simp add: yoe_def)
  define y where "y = (r - e) div 365"
  have y: "0 \<le> y" "y \<le> 3" "365 * y \<le> r" "r \<le> 365 * y + 365" using s e by (auto simp: y_def split: if_splits)
  have "yoe div 4 = 25 * c + q" "yoe div 100 = c" using y s by (auto simp: yoe y_def [symmetric])
  then have doy: "doe - (365 * yoe + yoe div 4 - yoe div 100) = r - 365 * y" using s(1) by (simp add: yoe y_def)
  show "0 \<le> yoe" "yoe \<le> 399" using y s by (simp_all add: yoe y_def [symmetric])
  show "0 \<le> doe - (365 * yoe + yoe div 4 - yoe div 100)" "doe - (365 * yoe + yoe div 4 - yoe div 100) \<le> 365"
    unfolding doy using y by simp_all
qed

lemma era_floor: "(if z \<ge> 0 then z else z - 146096) sdiv 146097 = (z :: int) div 146097"
proof (cases "z \<ge> 0")
  case False
  have "146096 - z = 146097 * (- (z div 146097)) + (146096 - z mod 146097)"
    using mult_div_mod_eq [of 146097 z] by linarith
  then have "(146096 - z) div 146097 = - (z div 146097) + (146096 - z mod 146097) div 146097" by (metis div_mult_self4 zero_neq_numeral)
  moreover have "(146096 - z mod 146097) div 146097 = 0" by simp
  ultimately show ?thesis using False by (simp add: signed_divide_int_def sgn_mult)
qed (simp add: sdiv_div)

lemma month_day:
  fixes doy :: int
  defines "mp \<equiv> (5 * doy + 2) div 153"
  assumes "0 \<le> doy" and "doy \<le> 365"
  shows "0 \<le> mp" and "mp \<le> 11" and "1 \<le> doy - (153 * mp + 2) div 5 + 1" and "doy - (153 * mp + 2) div 5 + 1 \<le> 31"
proof -
  show "0 \<le> mp" "mp \<le> 11" using assms by (auto simp: mp_def)
  have "153 * mp \<le> 5 * doy + 2" "5 * doy + 2 < 153 * mp + 153"
    unfolding mp_def by (simp_all add: minus_mod_eq_mult_div [symmetric])
  moreover have "5 * ((153 * mp + 2) div 5) \<le> 153 * mp + 2" "153 * mp + 2 < 5 * ((153 * mp + 2) div 5) + 5"
    by (simp_all add: minus_mod_eq_mult_div [symmetric])
  ultimately show "1 \<le> doy - (153 * mp + 2) div 5 + 1" "doy - (153 * mp + 2) div 5 + 1 \<le> 31"
    by linarith+
qed

text \<open>The parts of a date: the era, the year in it, the month counted from March, and the day.\<close>

lemma civil_from_days_parts:
  assumes "civil_from_days n = (y, m, d)"
  obtains era yoe doy mp where "0 \<le> yoe" "yoe \<le> 399" "0 \<le> mp" "mp \<le> 11"
    "n + 719468 = era * 146097 + (yoe * 365 + yoe div 4 - yoe div 100 + doy)" "d = doy - (153 * mp + 2) div 5 + 1"
    "m = mp + (if mp < 10 then 3 else - 9)" "y = yoe + era * 400 + (if m \<le> 2 then 1 else 0)" "1 \<le> d" "d \<le> 31"
proof -
  define doe where "doe = (n + 719468) mod 146097"
  define yoe where "yoe = (doe - doe div 1460 + doe div 36524 - doe div 146096) div 365"
  define doy where "doy = doe - (365 * yoe + yoe div 4 - yoe div 100)"
  define mp where "mp = (5 * doy + 2) div 153"
  have doe: "0 \<le> doe" "doe \<le> 146096" "n + 719468 - (n + 719468) div 146097 * 146097 = doe"
    using pos_mod_bound [of 146097 "n + 719468"] by (simp_all add: doe_def minus_div_mult_eq_mod)
  have "doe div 146096 \<le> doe div 36524" using doe(1) by (intro zdiv_mono2) auto
  moreover have "doe div 1460 \<le> doe" using zdiv_mono2 [of doe 1 1460] doe(1) by simp
  ultimately have inner: "0 \<le> doe - doe div 1460 + doe div 36524 - doe div 146096" by simp
  note yoe = year_of_era [OF doe(1,2), folded yoe_def, folded doy_def]
  note mp = month_day [OF yoe(3,4), folded mp_def]
  have nonneg: "0 \<le> doe" "0 \<le> doe - doe div 1460 + doe div 36524 - doe div 146096" "0 \<le> yoe" "0 \<le> 5 * doy + 2" "0 \<le> 153 * mp + 2"
    using doe(1) inner yoe(1,3) mp(1) by simp_all
  have sd: "doe sdiv 1460 = doe div 1460" "doe sdiv 36524 = doe div 36524" "doe sdiv 146096 = doe div 146096"
    "(doe - doe div 1460 + doe div 36524 - doe div 146096) sdiv 365 = yoe" "yoe sdiv 4 = yoe div 4" "yoe sdiv 100 = yoe div 100"
    "(5 * doy + 2) sdiv 153 = mp" "(153 * mp + 2) sdiv 5 = (153 * mp + 2) div 5"
    by (simp_all only: nonneg [THEN sdiv_div] zero_less_numeral yoe_def [symmetric] mp_def [symmetric])
  have "civil_from_days n = (let month = mp + (if mp < 10 then 3 else - 9) in
      (yoe + (n + 719468) div 146097 * 400 + (if month \<le> 2 then 1 else 0), month, doy - (153 * mp + 2) div 5 + 1))"
    by (simp only: civil_from_days_def Let_def era_floor doe(3) sd doy_def [symmetric])
  then show ?thesis
    using assms doe(3) yoe mp by (intro that [of yoe mp "(n + 719468) div 146097" doy]) (auto simp: Let_def doy_def)
qed

lemma days_from_civil_inverse:
  assumes "civil_from_days n = (y, m, d)" and "1 \<le> y"
  shows "days_from_civil y m d = n" and "1 \<le> m" and "m \<le> 12" and "1 \<le> d" and "d \<le> 31"
proof -
  obtain era yoe doy mp where p: "0 \<le> yoe" "yoe \<le> 399" "0 \<le> mp" "mp \<le> 11"
    "n + 719468 = era * 146097 + (yoe * 365 + yoe div 4 - yoe div 100 + doy)" "d = doy - (153 * mp + 2) div 5 + 1"
    "m = mp + (if mp < 10 then 3 else - 9)" "y = yoe + era * 400 + (if m \<le> 2 then 1 else 0)" "1 \<le> d" "d \<le> 31"
    using civil_from_days_parts [OF assms(1)] by metis
  have adj: "y - (if m \<le> 2 then 1 else 0) = yoe + era * 400" using p(8) by simp
  then have "0 \<le> yoe + era * 400" using assms(2) by (auto split: if_splits)
  moreover have "(yoe + era * 400) div 400 = era" using p(1,2) by simp
  moreover have "m + (if m > 2 then - 3 else 9) = mp" using p(3,4,7) by auto
  ultimately show "days_from_civil y m d = n"
    using p(1-6) unfolding days_from_civil_def adj Let_def by (simp add: sdiv_div)
  show "1 \<le> m" "m \<le> 12" "1 \<le> d" "d \<le> 31" using p by auto
qed

section \<open>Rendering and reading\<close>

definition digit :: "byte \<Rightarrow> bool" where
  "digit b \<longleftrightarrow> 0x30 \<le> b \<and> b \<le> 0x39"

lemma digit_of_nat: "d < 10 \<Longrightarrow> unat (of_nat (48 + d) :: byte) = 48 + d \<and> digit (of_nat (48 + d))"
  using unat_of_nat [of "48 + d", where ?'a = 8] by (simp add: digit_def word_le_nat_alt)

lemma digit_facts: "digit b \<Longrightarrow> b \<noteq> 0x2D \<and> b \<noteq> 0x2B \<and> b \<noteq> 0x54 \<and> b \<noteq> 0x20 \<and> \<not> utf8_cont b"
  by (auto simp: digit_def utf8_cont_def word_le_nat_alt)

lemma radix_digits_append:
  "radix_digits k mx acc (xs @ ys) = Option.bind (radix_digits k mx acc xs) (\<lambda>a. radix_digits k mx a ys)"
  by (induction k mx acc xs rule: radix_digits.induct) (simp_all add: Let_def)

lemma radix_digits_zeros: "radix_digits 10 mx 0 (replicate k 0x30 @ xs) = radix_digits 10 mx 0 xs"
  by (induction k) simp_all

lemma decimal_parse: "n \<le> mx \<Longrightarrow> radix_digits 10 mx 0 (decimal n) = Some n"
proof (induction n rule: decimal.induct)
  case (1 n)
  have d: "unat (of_nat (48 + n mod 10) :: byte) = 48 + n mod 10" "48 \<le> (of_nat (48 + n mod 10) :: byte)"
    using digit_of_nat [of "n mod 10"] by (simp_all add: digit_def)
  show ?case
  proof (cases "n < 10")
    case True
    then show ?thesis using d 1 by (simp add: decimal.simps [of n] del: of_nat_add)
  next
    case False
    then have "radix_digits 10 mx 0 (decimal (n div 10)) = Some (n div 10)" using 1 by simp
    then show ?thesis using d False "1.prems"
      by (simp add: decimal.simps [of n] radix_digits_append Let_def del: of_nat_add)
  qed
qed

lemma decimal_digits: "\<forall>b \<in> set (decimal n). digit b"
proof (induction n rule: decimal.induct)
  case (1 n)
  have "digit (of_nat (48 + n mod 10))" using digit_of_nat [of "n mod 10"] by simp
  then show ?case using 1 by (auto simp: decimal.simps [of n] simp del: of_nat_add)
qed

lemma decimal_length: "n < 10 ^ Suc w \<Longrightarrow> length (decimal n) \<le> Suc w"
proof (induction w arbitrary: n)
  case 0
  then show ?case by (simp add: decimal.simps [of n])
next
  case (Suc w)
  then have "n div 10 < 10 ^ Suc w" by (simp add: less_mult_imp_div_less mult.commute)
  then show ?case using Suc.IH [of "n div 10"] by (subst decimal.simps) simp
qed

lemma padded_facts:
  assumes "0 \<le> n" and "n < 10 ^ Suc w" and "n \<le> 9999"
  shows "length (padded (Suc w) n) = Suc w" and "\<forall>b \<in> set (padded (Suc w) n). digit b" and "parse_i128 (padded (Suc w) n) = Some n"
proof -
  have p: "padded (Suc w) n = replicate (Suc w - length (decimal (nat n))) 0x30 @ decimal (nat n)"
    using assms(1) by (simp add: padded_def Let_def)
  have "nat n < 10 ^ Suc w" using assms(1,2) by (metis nat_less_iff of_nat_numeral of_nat_power)
  from decimal_length [OF this] show len: "length (padded (Suc w) n) = Suc w" by (simp add: p)
  show dig: "\<forall>b \<in> set (padded (Suc w) n). digit b" using decimal_digits by (auto simp: p digit_def)
  obtain b bs where b: "padded (Suc w) n = b # bs" using len by (cases "padded (Suc w) n") auto
  then have "b \<noteq> 0x2D" "b \<noteq> 0x2B" using dig digit_facts by auto
  moreover have "radix_digits 10 (2 ^ 127 - 1) 0 (padded (Suc w) n) = Some (nat n)"
    unfolding p radix_digits_zeros using assms(3) by (intro decimal_parse) simp
  ultimately show "parse_i128 (padded (Suc w) n) = Some n" using b assms(1) by (simp add: parse_i128_def)
qed

lemma str_get_plain:
  "\<forall>b \<in> set s. \<not> utf8_cont b \<Longrightarrow> str_get i j s = (if i \<le> j \<and> j \<le> length s then Some (take (j - i) (drop i s)) else None)"
  by (auto simp: str_get_def is_char_boundary_def)

text \<open>The key of a date and a time whose parts are written with two and four digits.\<close>

lemma key_of_parts:
  assumes len: "length Y = 4" "length M = 2" "length D = 2" "length H = 2" "length N = 2" "length X = 2"
    and dig: "\<forall>b \<in> set (Y @ M @ D @ H @ N @ X). digit b"
    and val: "parse_i128 Y = Some year" "parse_i128 M = Some month" "parse_i128 D = Some day"
      "parse_i128 H = Some hour" "parse_i128 N = Some minute" "parse_i128 X = Some second"
    and range: "1 \<le> month" "month \<le> 12" "1 \<le> day" "day \<le> 31" "hour \<le> 23" "minute \<le> 59" "second \<le> 60"
  shows "timestamp_sort_key (Y @ [0x2D] @ M @ [0x2D] @ D @ [0x20] @ H @ [0x3A] @ N @ [0x3A] @ X @ ascii '' UTC'') =
    Some (days_from_civil year month day * 86400 + hour * 3600 + minute * 60 + second)"
proof -
  let ?date = "Y @ [0x2D] @ M @ [0x2D] @ D" and ?time = "H @ [0x3A] @ N @ [0x3A] @ X @ ascii '' UTC''"
  have u: "\<forall>b \<in> set (ascii '' UTC''). \<not> utf8_cont b" "zone_offset (ascii '' UTC'') = Some 0" by code_simp+
  have plain: "\<forall>b \<in> set (?date @ [0x20] @ ?time). \<not> utf8_cont b" using dig u(1) digit_facts by (auto simp: utf8_cont_def)
  obtain a rest where H: "H = a # rest" using len(4) by (cases H) auto
  then have "a \<noteq> 0x54" "a \<noteq> 0x20" using dig digit_facts by auto
  then have time: "dropWhile (\<lambda>b. b = 0x54 \<or> b = 0x20) ([0x20] @ ?time) = ?time" by (simp add: H)
  have plain_get: "str_get i j s = (if i \<le> j \<and> j \<le> length s then Some (take (j - i) (drop i s)) else None)" if "set s \<subseteq> set (?date @ [0x20] @ ?time)" for i j s
    using that plain by (intro str_get_plain) blast
  have get: "str_get i j ?date = (if i \<le> j \<and> j \<le> length ?date then Some (take (j - i) (drop i ?date)) else None)"
    "str_get i j ?time = (if i \<le> j \<and> j \<le> length ?time then Some (take (j - i) (drop i ?time)) else None)" for i j
    by (rule plain_get; auto)+
  have date: "str_get 0 10 (?date @ [0x20] @ ?time) = Some ?date" "drop 10 (?date @ [0x20] @ ?time) = [0x20] @ ?time"
    "str_get 0 4 ?date = Some Y" "str_get 5 7 ?date = Some M" "str_get 8 10 ?date = Some D"
    "byte_at 4 ?date = Some 0x2D" "byte_at 7 ?date = Some 0x2D"
    unfolding get using len by (auto simp: plain_get byte_at_def nth_append)
  have clock: "str_get 0 2 ?time = Some H" "str_get 3 5 ?time = Some N" "str_get 6 8 ?time = Some X" "drop 8 ?time = ascii '' UTC''"
    "byte_at 2 ?time = Some 0x3A" "byte_at 5 ?time = Some 0x3A"
    unfolding get using len by (auto simp: byte_at_def nth_append ascii_def)
  have "timestamp_sort_key (?date @ [0x20] @ ?time) = Some (days_from_civil year month day * 86400 + hour * 3600 + minute * 60 + second)"
    unfolding timestamp_sort_key_def date(1,2) Option.bind.bind_lunit date(3-7) val time Let_def clock u(2) using range by simp
  then show ?thesis by simp
qed

text \<open>
  C23. The times of crash reports are rendered faithfully: of a time in the years 1 to 9999, the
  rendered date and time have the time itself as their key. So the calendar conversions are
  inverse, and sorting by key is sorting by time.
\<close>

theorem timestamp_key_of_format:
  assumes "civil_from_days (t div 86400) = (year, month, day)" and "1 \<le> year" and "year \<le> 9999"
  shows "timestamp_sort_key (format_utc t) = Some t"
proof -
  note civil = days_from_civil_inverse [OF assms(1,2)]
  define s where "s = t mod 86400"
  define h m x where "h = s div 3600" and "m = s mod 3600 div 60" and "x = s mod 60"
  have s: "0 \<le> s" "s < 86400" by (simp_all add: s_def)
  have h: "0 \<le> h" "h \<le> 23" and m: "0 \<le> m" "m \<le> 59" and x: "0 \<le> x" "x \<le> 59" using s by (auto simp: h_def m_def x_def)
  have "s mod 3600 mod 60 = s mod 60" by (simp add: mod_mod_cancel)
  then have sum: "h * 3600 + m * 60 + x = s"
    using div_mult_mod_eq [of s 3600] div_mult_mod_eq [of "s mod 3600" 60] unfolding h_def m_def x_def by linarith
  have two: "length (padded 2 n) = 2" "\<forall>b \<in> set (padded 2 n). digit b" "parse_i128 (padded 2 n) = Some n" if "0 \<le> n" "n \<le> 59" for n
    using padded_facts [of n 1] that by (simp_all add: numeral_2_eq_2)
  have four: "length (padded 4 year) = 4" "\<forall>b \<in> set (padded 4 year). digit b" "parse_i128 (padded 4 year) = Some year"
    using padded_facts [of year 3] assms(2,3) by simp_all
  have "format_utc t = padded 4 year @ [0x2D] @ padded 2 month @ [0x2D] @ padded 2 day @ [0x20] @
      padded 2 h @ [0x3A] @ padded 2 m @ [0x3A] @ padded 2 x @ ascii '' UTC''"
    using assms(1) by (simp add: format_utc_def Let_def s_def h_def m_def x_def)
  also have "timestamp_sort_key \<dots> = Some (days_from_civil year month day * 86400 + h * 3600 + m * 60 + x)"
    using civil four two [of month] two [of day] two [of h] two [of m] two [of x] h m x by (intro key_of_parts) auto
  also have "days_from_civil year month day * 86400 + h * 3600 + m * 60 + x = t"
    using sum div_mult_mod_eq [of t 86400] unfolding civil(1) s_def by linarith
  finally show ?thesis .
qed

theorem timestamp_key_of_format_witness: "timestamp_sort_key (format_utc 1700000000) = Some 1700000000"
proof -
  have "civil_from_days (1700000000 div 86400) = (2023, 11, 14)" by code_simp
  from timestamp_key_of_format [OF this] show ?thesis by simp
qed

text \<open>
  Before the year 0 the conversion of a date to days rounds down twice, by the subtraction of 399
  and by \<open>div_euclid\<close>: the first of March of the year -2 comes out a day early.
\<close>

theorem days_from_civil_before_zero: "civil_from_days (- 720199) = (- 2, 3, 1) \<and> days_from_civil (- 2) 3 1 = - 720200"
  by code_simp

end
