(* ===== verification/Crash_Reports.thy ===== *)
theory Crash_Reports
  imports Afc Crash_Patterns Crash_Times "HOL-Library.Multiset"
begin

text \<open>
  The crash report service (\<open>services/crashreport/mod.rs\<close>): a client of the AFC connection to the
  directory of the crash reports, with the handshake of the mover that fills it. Texts are their
  UTF-8 bytes. The parser of report contents and the watch that polls the directory are not
  modelled: the first rests on a JSON library, the second on timers. The main lemma follows the
  listing through the directory tree of a device.
\<close>

section \<open>Entries and errors\<close>

record crash_report_entry =
  report_path :: bytes
  report_size :: "nat option"
  report_modified :: "bytes option"

datatype crash_error =
    CrashIo io_error
  | CrashAfc afc_error
  | CrashProtocol string "bytes list"
  | InvalidPattern bytes byte

type_synonym 'a crash_proc = "(afc_client, crash_error, 'a) proc"

definition MAX_CRASH_REPORT_BYTES :: nat where "MAX_CRASH_REPORT_BYTES = 16 * 1024 * 1024"

text \<open>An AFC operation, its error wrapped.\<close>

definition afc_op :: "'a afc_proc \<Rightarrow> 'a crash_proc" where
  "afc_op m = on_stream (\<lambda>c. c) (\<lambda>k c. k) CrashAfc m"

section \<open>Paths and patterns\<close>

definition path_basename :: "bytes \<Rightarrow> bytes" where
  "path_basename path = last (split_on 0x2F path)"

definition join_path :: "bytes \<Rightarrow> bytes \<Rightarrow> bytes" where
  "join_path dir nm =
     (if dir = ascii ''.'' then ascii ''./'' @ nm else trim_end [[0x2F]] dir @ [0x2F] @ nm)"

definition normalize_report_path :: "bytes \<Rightarrow> crash_error + bytes" where
  "normalize_report_path report =
     (let trimmed = dropWhile (\<lambda>b. b = 0x2F) report;
          relative = (if prefix (ascii ''./'') trimmed then drop 2 trimmed else trimmed) in
      if relative = [] then Inl (CrashProtocol ''empty crash report path'' [])
      else if ascii ''..'' \<in> set (concat (map (split_on 0x5C) (split_on 0x2F relative)))
      then Inl (CrashProtocol ''crash report path must stay inside the crash log directory: {report}'' [report])
      else Inr (ascii ''./'' @ relative))"

definition validate_pattern :: "bytes \<Rightarrow> crash_error + unit" where
  "validate_pattern pattern = (case find (\<lambda>ch. ch \<in> set pattern) [0x5B, 0x5D, 0x7B, 0x7D] of
       Some ch \<Rightarrow> Inl (InvalidPattern pattern ch) | None \<Rightarrow> Inr ())"

definition crash_compile_pattern :: "bytes \<Rightarrow> crash_error + bytes" where
  "crash_compile_pattern pattern = attempt (validate_pattern pattern) (\<lambda>_. Inr pattern)"

definition pattern_matches :: "bytes \<Rightarrow> bytes \<Rightarrow> bool" where
  "pattern_matches pattern candidate = (wildcard_match pattern candidate = Some True)"

definition matches_pattern :: "bytes \<Rightarrow> bytes \<Rightarrow> crash_error + bool" where
  "matches_pattern path pattern = attempt (crash_compile_pattern pattern) (\<lambda>p. Inr (pattern_matches p (path_basename path)))"

section \<open>Listing\<close>

definition modified_time :: "afc_file_info \<Rightarrow> bytes option" where
  "modified_time info =
     map_option format_human_readable_timestamp
       (case raw info (ascii ''st_mtime'') of Some v \<Rightarrow> Some v | None \<Rightarrow> raw info (ascii ''st_birthtime''))"

definition is_dir :: "afc_file_info \<Rightarrow> bool" where
  "is_dir info \<longleftrightarrow> file_type info = Some (ascii ''S_IFDIR'')"

text \<open>\<open>str::cmp\<close> compares bytes; the comparison of \<open>sort_reports\<close> puts newer entries first and undated ones last.\<close>

fun bytes_le :: "bytes \<Rightarrow> bytes \<Rightarrow> bool" where
  "bytes_le [] ys = True"
| "bytes_le (x # xs) [] = False"
| "bytes_le (x # xs) (y # ys) = (x < y \<or> x = y \<and> bytes_le xs ys)"

definition report_le :: "crash_report_entry \<Rightarrow> crash_report_entry \<Rightarrow> bool" where
  "report_le a b = (case (report_modified a, report_modified b) of
       (Some x, Some y) \<Rightarrow> if x = y then bytes_le (report_path a) (report_path b) else bytes_le y x
     | (Some _, None) \<Rightarrow> True
     | (None, Some _) \<Rightarrow> False
     | (None, None) \<Rightarrow> bytes_le (report_path a) (report_path b))"

text \<open>\<open>slice::sort_by\<close> is stable: an entry goes before the first one it is not greater than.\<close>

fun insert_by :: "('a \<Rightarrow> 'a \<Rightarrow> bool) \<Rightarrow> 'a \<Rightarrow> 'a list \<Rightarrow> 'a list" where
  "insert_by le x [] = [x]"
| "insert_by le x (y # ys) = (if le x y then x # y # ys else y # insert_by le x ys)"

definition sort_by :: "('a \<Rightarrow> 'a \<Rightarrow> bool) \<Rightarrow> 'a list \<Rightarrow> 'a list" where
  "sort_by le xs = foldr (insert_by le) xs []"

definition sort_reports :: "crash_report_entry list \<Rightarrow> crash_report_entry list" where
  "sort_reports entries = sort_by report_le entries"

text \<open>The names of one directory: directories go on the stack, matching files into the result.\<close>

fun visit_names :: "bytes \<Rightarrow> bytes \<Rightarrow> bytes list \<Rightarrow> bytes list \<Rightarrow> crash_report_entry list \<Rightarrow>
    (bytes list \<times> crash_report_entry list) crash_proc" where
  "visit_names compiled dir [] dirs entries = ret (dirs, entries)"
| "visit_names compiled dir (nm # names) dirs entries =
     (let path = join_path dir nm in
      and_then (afc_op (stat_info path)) (\<lambda>info.
      if is_dir info then visit_names compiled dir names (dirs @ [path]) entries
      else if \<not> pattern_matches compiled nm then visit_names compiled dir names dirs entries
      else visit_names compiled dir names dirs
        (entries @ [\<lparr>report_path = path, report_size = size_of_file info, report_modified = modified_time info\<rparr>])))"

text \<open>What is left of the input of the connection; every request that is answered uses some of it.\<close>

definition afc_input :: "afc_client \<Rightarrow> nat" where
  "afc_input c = rx_size (rx (stream c))"

lemma on_afc_input: "on_afc (sock_read_exact n) c = (r, d) \<Longrightarrow> afc_input d \<le> afc_input c"
  "on_afc (sock_read_exact n) c = (Ok x, d) \<Longrightarrow> 0 < n \<Longrightarrow> afc_input d < afc_input c"
  by (auto simp: on_afc_def on_stream_def sock_read_exact_def afc_input_def
      split: prod.splits outcome.splits dest: rx_exact_le rx_exact_less)

lemma on_afc_write_input:
  "on_afc (sock_write_all bs) c = (r, d) \<Longrightarrow> afc_input d = afc_input c"
  "on_afc sock_flush c = (r', d) \<Longrightarrow> afc_input d = afc_input c"
  by (auto simp: on_afc_def on_stream_def sock_write_all_def sock_flush_def afc_input_def
      split: prod.splits outcome.splits list.splits fx_event.splits)

lemma read_section_input: "read_section n c = (r, d) \<Longrightarrow> afc_input d \<le> afc_input c"
  by (auto simp: read_section_def proc_runs dest: on_afc_input(1) split: if_splits)

lemma afc_send_input: "untouched afc_input (afc_send op hp pl)"
proof -
  have "untouched afc_input next_pnum" by (rule untouchedI) (simp add: next_pnum_def afc_input_def)
  moreover have "untouched afc_input (on_afc (sock_write_all bs))" "untouched afc_input (on_afc sock_flush)" for bs
    using on_afc_write_input [OF prod.collapse [symmetric]] by (auto intro: untouchedI)
  ultimately show ?thesis unfolding afc_send_def by (intro keeps_intros)
qed

lemma afc_request_input:
  assumes "afc_request op hp pl c = (Ok p, d)"
  shows "afc_input d < afc_input c"
proof -
  obtain c1 where c1: "afc_send op hp pl c = (Ok (), c1)" "afc_recv c1 = (Ok p, d)"
    using assms by (auto simp: afc_request_def and_then_Ok_iff)
  obtain hdr c2 where c2: "on_afc (sock_read_exact 40) c1 = (Ok hdr, c2)"
    and r: "afc_input d \<le> afc_input c2"
    using c1(2) by (fastforce simp: afc_recv_def and_then_Ok_iff Let_def check_Ok split: prod.splits dest!: read_section_input)
  have "afc_input c1 = afc_input c" using untouchedD [OF afc_send_input c1(1)] .
  then show ?thesis using on_afc_input(2) [OF c2] r by simp
qed

lemma afc_op_Ok: "afc_op m c = (Ok x, d) \<longleftrightarrow> m c = (Ok x, d)"
  by (auto simp: afc_op_def on_stream_def split: prod.splits outcome.splits)

lemma list_dir_input: "afc_op (list_dir dir) c = (Ok names, d) \<Longrightarrow> afc_input d < afc_input c"
  by (auto simp: afc_op_Ok list_dir_def and_then_Ok_iff proc_runs dest: afc_request_input)

lemma stat_info_input: "afc_op (stat_info path) c = (Ok info, d) \<Longrightarrow> afc_input d < afc_input c"
  by (auto simp: afc_op_Ok stat_info_def stat_def and_then_Ok_iff proc_runs dest: afc_request_input)

lemma visit_names_input: "visit_names compiled dir names dirs entries c = (Ok r, d) \<Longrightarrow> afc_input d \<le> afc_input c"
proof (induction names arbitrary: dirs entries c)
  case (Cons nm names)
  then obtain info c1 dirs' entries' where "afc_op (stat_info (join_path dir nm)) c = (Ok info, c1)"
    "visit_names compiled dir names dirs' entries' c1 = (Ok r, d)"
    by (auto simp: Let_def and_then_Ok_iff split: if_splits)
  then show ?case using Cons.IH stat_info_input by fastforce
qed (simp add: proc_runs)

text \<open>The loop over the stack of directories. It ends: every directory it takes costs an answer.\<close>

function list_loop :: "bytes \<Rightarrow> bytes list \<Rightarrow> crash_report_entry list \<Rightarrow> crash_report_entry list crash_proc" where
  "list_loop compiled dirs entries c =
     (if dirs = [] then (Ok entries, c)
      else and_then (afc_op (list_dir (last dirs))) (\<lambda>names c1.
           and_then (visit_names compiled (last dirs) names (butlast dirs) entries) (\<lambda>found c2.
           list_loop compiled (fst found) (snd found) c2) c1) c)"
  by pat_completeness auto
termination
  by (relation "measure (\<lambda>(compiled, dirs, entries, c). afc_input c)") (auto dest!: list_dir_input visit_names_input)

declare list_loop.simps [simp del]

section \<open>The operations of the client\<close>

definition list_reports :: "bytes option \<Rightarrow> crash_report_entry list crash_proc" where
  "list_reports pattern =
     and_then (check (\<lambda>_. crash_compile_pattern (case pattern of Some p \<Rightarrow> p | None \<Rightarrow> ascii ''*''))) (\<lambda>compiled.
     and_then (list_loop compiled [ascii ''.''] []) (\<lambda>entries. ret (sort_reports entries)))"

fun remove_listed :: "crash_report_entry list \<Rightarrow> unit crash_proc" where
  "remove_listed [] = ret ()"
| "remove_listed (r # rs) = and_then (afc_op (remove (report_path r))) (\<lambda>_. remove_listed rs)"

definition remove_reports :: "bytes option \<Rightarrow> nat crash_proc" where
  "remove_reports pattern =
     and_then (list_reports pattern) (\<lambda>reports. and_then (remove_listed reports) (\<lambda>_. ret (length reports)))"

definition resolve_report_path_from_entries :: "bytes \<Rightarrow> crash_report_entry list \<Rightarrow> crash_error + bytes" where
  "resolve_report_path_from_entries report reports =
     (case map report_path (filter (\<lambda>e. path_basename (report_path e) = report) reports) of
        [] \<Rightarrow> Inl (CrashProtocol ''crash report '{report}' not found'' [report])
      | [p] \<Rightarrow> Inr p
      | _ \<Rightarrow> Inl (CrashProtocol ''crash report '{report}' is ambiguous'' [report]))"

definition resolve_report_path :: "bytes \<Rightarrow> bytes crash_proc" where
  "resolve_report_path report =
     (if 0x2F \<in> set report then check (\<lambda>_. normalize_report_path report)
      else and_then (list_reports (Some (ascii ''*''))) (\<lambda>reports.
           check (\<lambda>_. resolve_report_path_from_entries report reports)))"

definition read_report :: "bytes \<Rightarrow> bytes crash_proc" where
  "read_report report = and_then (resolve_report_path report) (\<lambda>path. afc_op (read_file path))"

definition read_report_for_parse :: "bytes \<Rightarrow> bytes crash_proc" where
  "read_report_for_parse path =
     and_then (afc_op (stat_info path)) (\<lambda>info.
     case size_of_file info of
       Some n \<Rightarrow>
         if n > MAX_CRASH_REPORT_BYTES
         then throw (CrashProtocol ''crash report {path} is {size} bytes; limit is {MAX_CRASH_REPORT_BYTES}'' [path, decimal n])
         else afc_op (read_file path)
     | None \<Rightarrow> afc_op (read_file path))"

text \<open>The bookkeeping directory of the device may come back while it is cleared; no other failure is passed over.\<close>

fun clear_each :: "bytes \<Rightarrow> bytes list \<Rightarrow> nat \<Rightarrow> nat crash_proc" where
  "clear_each root [] removed = ret removed"
| "clear_each root (nm # names) removed = (\<lambda>c.
     let child = join_path root nm in
     case remove_all child c of
       (Ok _, d) \<Rightarrow> clear_each root names (removed + 1) d
     | (Err e, d) \<Rightarrow>
         if e = AStatus DirNotEmpty \<and> root = ascii ''.'' \<and> path_basename child = ascii ''com.apple.appstored''
         then clear_each root names removed d
         else (Err (CrashAfc e), d)
     | (Cancelled, d) \<Rightarrow> (Cancelled, d))"

definition clear_reports :: "bytes \<Rightarrow> nat crash_proc" where
  "clear_reports path =
     and_then (check (\<lambda>_. if path \<in> {[], ascii ''.'', ascii ''./'', ascii ''/''} then Inr (ascii ''.'')
                          else normalize_report_path path)) (\<lambda>root.
     and_then (afc_op (list_dir root)) (\<lambda>names. clear_each root names 0))"

text \<open>The mover reports that the files are in place.\<close>

definition prepare_with :: "string \<Rightarrow> bytes \<Rightarrow> (sock, crash_error, unit) proc" where
  "prepare_with msg expected =
     and_then (on_stream (\<lambda>k. k) (\<lambda>k _. k) CrashIo (sock_read_exact (length expected))) (\<lambda>ping.
     if ping \<noteq> expected then throw (CrashProtocol msg [ping]) else ret ())"

definition prepare_reports :: "(sock, crash_error, unit) proc" where
  "prepare_reports = prepare_with ''crashreport mover did not return ping: {:02x?}'' (ascii ''ping'')"

definition prepare_reports_rsd :: "(sock, crash_error, unit) proc" where
  "prepare_reports_rsd = prepare_with ''RSD crashreport mover did not return ping: {:02x?}'' (ascii ''ping'' @ [0])"

section \<open>Sorting\<close>

lemma bytes_le_total: "bytes_le a b \<or> bytes_le b a"
  by (induction a b rule: bytes_le.induct) auto

lemma bytes_le_trans: "bytes_le a b \<Longrightarrow> bytes_le b c \<Longrightarrow> bytes_le a c"
proof (induction a b arbitrary: c rule: bytes_le.induct)
  case (3 x xs y ys)
  then show ?case by (cases c) auto
qed auto

lemma bytes_le_antisym: "bytes_le a b \<Longrightarrow> bytes_le b a \<Longrightarrow> a = b"
proof (induction a b rule: bytes_le.induct)
  case (1 ys)
  then show ?case by (cases ys) auto
qed auto

lemma bytes_le_refl: "bytes_le a a"
  by (induction a) auto

lemma report_le_total: "report_le a b \<or> report_le b a"
  using bytes_le_total by (auto simp: report_le_def split: option.splits)

lemma report_le_trans: "report_le a b \<Longrightarrow> report_le b c \<Longrightarrow> report_le a c"
  by (auto simp: report_le_def bytes_le_refl split: option.splits if_splits dest: bytes_le_trans bytes_le_antisym)

lemma insert_by_mset: "mset (insert_by le x ys) = add_mset x (mset ys)"
  by (induction ys) auto

lemma sort_by_mset: "mset (sort_by le xs) = mset xs"
  by (induction xs) (simp_all add: sort_by_def insert_by_mset)

lemma sort_by_sorted:
  assumes total: "\<And>a b. le a b \<or> le b a" and trans: "\<And>a b c. le a b \<Longrightarrow> le b c \<Longrightarrow> le a c"
  shows "sorted_wrt le (sort_by le xs)"
proof -
  have "set (insert_by le x ys) = insert x (set ys)" for x ys by (induction ys) auto
  then have "sorted_wrt le ys \<Longrightarrow> sorted_wrt le (insert_by le x ys)" for x ys
    by (induction ys) (auto intro: trans, metis total)
  then show ?thesis by (induction xs) (simp_all add: sort_by_def)
qed

section \<open>The tree of a device\<close>

text \<open>
  What a device keeps below the directory of the reports, with its answers: a file with the reply to
  \<open>GetFileInfo\<close>, a directory with that reply, the reply to \<open>ReadDir\<close>, and what is in it by name.
\<close>

datatype node = Document afc_reply | Folder afc_reply afc_reply "(bytes \<times> node) list"

fun info_reply :: "node \<Rightarrow> afc_reply" where
  "info_reply (Document r) = r"
| "info_reply (Folder r l cs) = r"

definition info_of :: "bytes \<Rightarrow> afc_reply \<Rightarrow> afc_file_info" where
  "info_of path r = parse_file_info path (parse_kv_pairs (reply_payload r))"

definition names_of :: "afc_reply \<Rightarrow> bytes list" where
  "names_of r = filter (\<lambda>s. s \<noteq> ascii ''.'' \<and> s \<noteq> ascii ''..'') (split_null_strings (reply_payload r))"

fun node_ok :: "node \<Rightarrow> bool" where
  "node_ok (Document r) \<longleftrightarrow> good_reply r \<and> \<not> is_dir (info_of [] r)"
| "node_ok (Folder r l cs) \<longleftrightarrow> good_reply r \<and> is_dir (info_of [] r) \<and> good_reply l \<and> names_of l = map fst cs \<and>
     (\<forall>e \<in> set cs. node_ok (snd e))"

text \<open>The reports at or below a path whose last name matches.\<close>

fun reports_at :: "bytes \<Rightarrow> bytes \<Rightarrow> bytes \<Rightarrow> node \<Rightarrow> crash_report_entry list" where
  "reports_at compiled path nm (Document r) =
     (if pattern_matches compiled nm
      then [\<lparr>report_path = path, report_size = size_of_file (info_of path r), report_modified = modified_time (info_of path r)\<rparr>]
      else [])"
| "reports_at compiled path nm (Folder r l cs) =
     concat (map (\<lambda>e. reports_at compiled (join_path path (fst e)) (fst e) (snd e)) cs)"

text \<open>The requests of the listing with their replies, in the order of the stack.\<close>

fun folders_below :: "bytes \<Rightarrow> (bytes \<times> node) list \<Rightarrow> (bytes \<times> node) list" where
  "folders_below path [] = []"
| "folders_below path ((nm, Document r) # cs) = folders_below path cs"
| "folders_below path ((nm, Folder r l ds) # cs) = (join_path path nm, Folder r l ds) # folders_below path cs"

definition stack_size :: "(bytes \<times> node) list \<Rightarrow> nat" where
  "stack_size ds = sum_list (map (\<lambda>d. Suc (size (snd d))) ds)"

lemma stack_size_append: "stack_size (xs @ ys) = stack_size xs + stack_size ys"
  by (simp add: stack_size_def)

lemma stack_size_one: "stack_size [d] = Suc (size (snd d))"
  by (simp add: stack_size_def)

lemma stack_size_last: "ds \<noteq> [] \<Longrightarrow> stack_size ds = stack_size (butlast ds) + Suc (size (snd (last ds)))"
  using stack_size_append [of "butlast ds" "[last ds]"] by (simp add: stack_size_one)

lemma folders_below_size: "stack_size (folders_below path cs) < Suc (size (Folder r l cs))"
  by (induction path cs rule: folders_below.induct) (auto simp: stack_size_def)

function tour :: "(bytes \<times> node) list \<Rightarrow> (afc_opcode \<times> bytes \<times> afc_reply) list" where
  "tour ds = (if ds = [] then [] else case last ds of
       (path, Folder r l cs) \<Rightarrow>
         (ReadDir, path, l) # map (\<lambda>e. (GetFileInfo, join_path path (fst e), info_reply (snd e))) cs @
         tour (butlast ds @ folders_below path cs)
     | (path, Document r) \<Rightarrow> tour (butlast ds))"
  by pat_completeness auto
termination
  by (relation "measure stack_size") (auto simp: stack_size_last stack_size_append, metis folders_below_size snd_conv)

declare tour.simps [simp del]

lemma tour_Nil [simp]: "tour [] = []"
  by (simp add: tour.simps)

lemma tour_snoc:
  "tour (ds @ [(path, Folder r l cs)]) =
     (ReadDir, path, l) # map (\<lambda>e. (GetFileInfo, join_path path (fst e), info_reply (snd e))) cs @
     tour (ds @ folders_below path cs)"
  by (subst tour.simps) simp

text \<open>The packets of the requests, with consecutive numbers, and the bytes of the replies.\<close>

fun request_frames :: "u64 \<Rightarrow> (afc_opcode \<times> bytes \<times> afc_reply) list \<Rightarrow> bytes" where
  "request_frames pnum [] = []"
| "request_frames pnum ((op, path, r) # xs) = afc_frame op (path @ [0]) [] pnum @ request_frames (pnum + 1) xs"

definition replies :: "(afc_opcode \<times> bytes \<times> afc_reply) list \<Rightarrow> bytes" where
  "replies xs = concat (map (\<lambda>x. reply_bytes (snd (snd x))) xs)"

lemma request_frames_append:
  "request_frames pnum (xs @ ys) = request_frames pnum xs @ request_frames (pnum + of_nat (length xs)) ys"
  by (induction pnum xs rule: request_frames.induct) (simp_all add: algebra_simps)

lemma is_dir_any: "is_dir (info_of path r) = is_dir (info_of [] r)"
  by (simp add: is_dir_def info_of_def parse_file_info_def)

lemma list_dir_at:
  assumes "afc_at c out pnum (reply_bytes r @ inp)" and "good_reply r"
  shows "\<exists>d. afc_op (list_dir path) c = (Ok (names_of r), d) \<and> afc_at d (out @ afc_frame ReadDir (path @ [0]) [] pnum) (pnum + 1) inp"
  using good_request_at [OF assms, of ReadDir "path @ [0]" "[]"]
  by (force simp: afc_op_Ok list_dir_def names_of_def and_then_run proc_runs)

lemma stat_info_at:
  assumes "afc_at c out pnum (reply_bytes r @ inp)" and "good_reply r"
  shows "\<exists>d. afc_op (stat_info path) c = (Ok (info_of path r), d) \<and> afc_at d (out @ afc_frame GetFileInfo (path @ [0]) [] pnum) (pnum + 1) inp"
  using good_request_at [OF assms, of GetFileInfo "path @ [0]" "[]"]
  by (force simp: afc_op_Ok stat_info_def stat_def info_of_def and_then_run proc_runs)

text \<open>The documents directly in a directory.\<close>

fun documents_in :: "bytes \<Rightarrow> bytes \<Rightarrow> (bytes \<times> node) list \<Rightarrow> crash_report_entry list" where
  "documents_in compiled path [] = []"
| "documents_in compiled path ((nm, Document r) # cs) =
     reports_at compiled (join_path path nm) nm (Document r) @ documents_in compiled path cs"
| "documents_in compiled path ((nm, Folder r l ds) # cs) = documents_in compiled path cs"

lemma visit_names_at:
  assumes "afc_at c out pnum (replies (map (\<lambda>e. (GetFileInfo, join_path path (fst e), info_reply (snd e))) cs) @ inp)"
    and "\<forall>e \<in> set cs. node_ok (snd e)"
  shows "\<exists>d. visit_names compiled path (map fst cs) dirs entries c =
      (Ok (dirs @ map fst (folders_below path cs), entries @ documents_in compiled path cs), d) \<and>
    afc_at d (out @ request_frames pnum (map (\<lambda>e. (GetFileInfo, join_path path (fst e), info_reply (snd e))) cs))
      (pnum + of_nat (length cs)) inp"
  using assms
proof (induction cs arbitrary: c out pnum dirs entries)
  case Nil
  then show ?case by (simp add: replies_def proc_runs)
next
  case (Cons e cs)
  obtain nm t where e: "e = (nm, t)" by (cases e)
  let ?out = "out @ afc_frame GetFileInfo (join_path path nm @ [0]) [] pnum"
  have good: "good_reply (info_reply t)" using Cons.prems(2) e by (cases t) auto
  from stat_info_at [OF _ good] obtain c1
    where c1: "afc_op (stat_info (join_path path nm)) c = (Ok (info_of (join_path path nm) (info_reply t)), c1)"
      "afc_at c1 ?out (pnum + 1) (replies (map (\<lambda>e. (GetFileInfo, join_path path (fst e), info_reply (snd e))) cs) @ inp)"
    using Cons.prems(1) e by (fastforce simp: replies_def)
  note IH = Cons.IH [OF c1(2)]
  show ?case
  proof (cases t)
    case (Document r)
    then have "\<not> is_dir (info_of (join_path path nm) (info_reply t))" using Cons.prems(2) e is_dir_any by fastforce
    then show ?thesis using IH [of dirs "entries @ reports_at compiled (join_path path nm) nm t"] c1(1) e Document Cons.prems(2)
      by (auto simp: Let_def algebra_simps)
  next
    case (Folder r l ds)
    then have "is_dir (info_of (join_path path nm) (info_reply t))" using Cons.prems(2) e is_dir_any by fastforce
    then show ?thesis using IH [of "dirs @ [join_path path nm]" entries] c1(1) e Folder Cons.prems(2)
      by (auto simp: Let_def algebra_simps)
  qed
qed

lemma reports_split:
  "mset (reports_at compiled path [] (Folder r l cs)) = mset (documents_in compiled path cs) +
     mset (concat (map (\<lambda>d. reports_at compiled (fst d) [] (snd d)) (folders_below path cs)))"
  by (induction path cs rule: folders_below.induct) simp_all

lemma folders_below_folders: "d \<in> set (folders_below path cs) \<Longrightarrow> \<exists>r l ds. snd d = Folder r l ds \<and> snd d \<in> snd ` set cs"
  by (induction path cs rule: folders_below.induct) auto

lemma list_loop_at:
  assumes "afc_at c out pnum (replies (tour ds) @ inp)" and "\<forall>d \<in> set ds. node_ok (snd d) \<and> (\<exists>r l cs. snd d = Folder r l cs)"
  shows "\<exists>d es. list_loop compiled (map fst ds) entries c = (Ok es, d) \<and>
    mset es = mset entries + mset (concat (map (\<lambda>d. reports_at compiled (fst d) [] (snd d)) ds)) \<and>
    afc_at d (out @ request_frames pnum (tour ds)) (pnum + of_nat (length (tour ds))) inp"
  using assms
proof (induction "stack_size ds" arbitrary: ds entries c out pnum rule: less_induct)
  case less
  show ?case
  proof (cases ds rule: rev_cases)
    case Nil
    then show ?thesis using less.prems by (simp add: list_loop.simps replies_def)
  next
    case (snoc ds' d)
    then obtain path r l cs where d: "d = (path, Folder r l cs)" using less.prems(2) by (cases d) auto
    let ?stats = "map (\<lambda>e. (GetFileInfo, join_path path (fst e), info_reply (snd e))) cs" and ?next = "ds' @ folders_below path cs"
    have ok: "good_reply l" "names_of l = map fst cs" "\<forall>e \<in> set cs. node_ok (snd e)" using less.prems(2) snoc d by auto
    have tour: "tour ds = (ReadDir, path, l) # ?stats @ tour ?next" by (simp add: snoc d tour_snoc)
    obtain c1 where c1: "afc_op (list_dir path) c = (Ok (map fst cs), c1)"
      "afc_at c1 (out @ afc_frame ReadDir (path @ [0]) [] pnum) (pnum + 1) (replies ?stats @ replies (tour ?next) @ inp)"
      using list_dir_at [of c out pnum l "replies ?stats @ replies (tour ?next) @ inp" path] less.prems(1) ok tour by (auto simp: replies_def)
    obtain c2 where c2: "visit_names compiled path (map fst cs) (map fst ds') entries c1 =
        (Ok (map fst ?next, entries @ documents_in compiled path cs), c2)"
      "afc_at c2 ((out @ afc_frame ReadDir (path @ [0]) [] pnum) @ request_frames (pnum + 1) ?stats)
        (pnum + 1 + of_nat (length cs)) (replies (tour ?next) @ inp)"
      using visit_names_at [OF c1(2) ok(3), of compiled "map fst ds'" entries] by auto
    have step: "list_loop compiled (map fst ds) entries c = list_loop compiled (map fst ?next) (entries @ documents_in compiled path cs) c2"
      using c1(1) c2(1) by (subst list_loop.simps) (simp add: snoc d)
    have smaller: "stack_size ?next < stack_size ds"
      using folders_below_size [of path cs r l] by (simp add: snoc d stack_size_append stack_size_one)
    have folders: "\<forall>d \<in> set ?next. node_ok (snd d) \<and> (\<exists>r l cs. snd d = Folder r l cs)"
      using less.prems(2) snoc ok(3) folders_below_folders [of _ path cs] by fastforce
    from less.hyps [OF smaller c2(2) folders, of "entries @ documents_in compiled path cs"] show ?thesis
      unfolding step tour using reports_split [of compiled path r l cs]
      by (auto simp: snoc d request_frames_append algebra_simps simp del: reports_at.simps)
  qed
qed

section \<open>Properties\<close>

text \<open>
  C16. The listing finds every report: on the tree of a device, whatever its depth and however the
  replies are cut into chunks, \<open>list_reports\<close> returns the files whose names match the pattern, each
  once, sorted with the newest first, and asks for nothing else.
\<close>

theorem reports_listed:
  assumes "afc_at c out pnum (replies (tour [(ascii ''.'', Folder r l cs)]) @ inp)" and "node_ok (Folder r l cs)"
    and "crash_compile_pattern (case pattern of Some p \<Rightarrow> p | None \<Rightarrow> ascii ''*'') = Inr compiled"
  shows "\<exists>d es. list_reports pattern c = (Ok es, d) \<and> sorted_wrt report_le es \<and>
    mset es = mset (reports_at compiled (ascii ''.'') [] (Folder r l cs)) \<and>
    afc_at d (out @ request_frames pnum (tour [(ascii ''.'', Folder r l cs)]))
      (pnum + of_nat (length (tour [(ascii ''.'', Folder r l cs)]))) inp"
proof -
  have root: "\<forall>d \<in> set [(ascii ''.'', Folder r l cs)]. node_ok (snd d) \<and> (\<exists>r l cs. snd d = Folder r l cs)"
    using assms(2) by (simp del: split_paired_Ex node_ok.simps)
  obtain d es where d: "list_loop compiled [ascii ''.''] [] c = (Ok es, d)"
    "mset es = mset (reports_at compiled (ascii ''.'') [] (Folder r l cs))"
    "afc_at d (out @ request_frames pnum (tour [(ascii ''.'', Folder r l cs)])) (pnum + of_nat (length (tour [(ascii ''.'', Folder r l cs)]))) inp"
    using list_loop_at [OF assms(1) root, of compiled "[]"] by auto
  have "list_reports pattern c = (Ok (sort_reports es), d)"
    using d(1) assms(3) by (simp add: list_reports_def proc_simps)
  moreover have "sorted_wrt report_le (sort_reports es)"
    unfolding sort_reports_def using report_le_total report_le_trans by (rule sort_by_sorted)
  ultimately show ?thesis using d(2,3) by (auto simp: sort_reports_def sort_by_mset)
qed

text \<open>
  A report path that the caller gives cannot leave the directory of the reports: if it is
  accepted, it becomes a path below \<open>.\<close>, and no part of it, by either separator, is \<open>..\<close>.
\<close>

theorem report_path_stays_inside:
  assumes "normalize_report_path report = Inr path"
  shows "\<exists>relative. path = ascii ''./'' @ relative \<and> relative \<noteq> [] \<and> suffix relative report \<and>
    (\<forall>part \<in> set (split_on 0x2F relative). \<forall>piece \<in> set (split_on 0x5C part). piece \<noteq> ascii ''..'')"
proof -
  have "suffix (drop n (dropWhile P xs)) xs" for n P and xs :: bytes
    using suffix_drop suffix_dropWhile by (rule suffix_order.order_trans)
  then have "suffix (drop n (dropWhile P xs)) xs \<and> suffix (dropWhile P xs) xs" for n P and xs :: bytes
    by (simp add: suffix_dropWhile)
  then show ?thesis using assms
    by (auto simp: normalize_report_path_def Let_def split: if_splits)
qed

section \<open>A sample device\<close>

text \<open>A device with a report \<open>a.ips\<close> and a directory \<open>d\<close> that holds \<open>b.ips\<close> and \<open>c.log\<close>.\<close>

definition sample_reply :: "bytes \<Rightarrow> afc_reply" where
  "sample_reply pl = (AfcData, [], pl, 0)"

definition sample_document :: node where
  "sample_document = Document (sample_reply (ascii ''st_ifmt'' @ [0] @ ascii ''S_IFREG'' @ [0]))"

definition sample_folder :: "bytes \<Rightarrow> (bytes \<times> node) list \<Rightarrow> node" where
  "sample_folder listing cs = Folder (sample_reply (ascii ''st_ifmt'' @ [0] @ ascii ''S_IFDIR'' @ [0])) (sample_reply listing) cs"

definition sample_tree :: node where
  "sample_tree = sample_folder (ascii ''a.ips'' @ [0] @ ascii ''d'' @ [0])
     [(ascii ''a.ips'', sample_document),
      (ascii ''d'', sample_folder (ascii ''b.ips'' @ [0] @ ascii ''c.log'' @ [0])
         [(ascii ''b.ips'', sample_document), (ascii ''c.log'', sample_document)])]"

lemma sample_tree_ok: "node_ok sample_tree"
proof -
  have "\<not> is_dir (info_of [] (sample_reply (ascii ''st_ifmt'' @ [0] @ ascii ''S_IFREG'' @ [0])))"
    "is_dir (info_of [] (sample_reply (ascii ''st_ifmt'' @ [0] @ ascii ''S_IFDIR'' @ [0])))"
    "names_of (sample_reply (ascii ''a.ips'' @ [0] @ ascii ''d'' @ [0])) = [ascii ''a.ips'', ascii ''d'']"
    "names_of (sample_reply (ascii ''b.ips'' @ [0] @ ascii ''c.log'' @ [0])) = [ascii ''b.ips'', ascii ''c.log'']"
    by code_simp+
  moreover have "good_reply (sample_reply pl)" if "length pl \<le> 100" for pl
    using that by (simp add: sample_reply_def MAX_AFC_MSG_def)
  ultimately show ?thesis by (simp add: sample_tree_def sample_folder_def sample_document_def ascii_def)
qed

definition sample_device :: afc_client where
  "sample_device = AfcClient_new \<lparr>rx = [Chunk (replies (tour [(ascii ''.'', sample_tree)]))], wx = [], fx = [], wire = []\<rparr>"

theorem reports_listed_witness:
  "\<exists>d es. list_reports (Some (ascii ''*.ips'')) sample_device = (Ok es, d) \<and>
     set (map report_path es) = {ascii ''./a.ips'', ascii ''./d/b.ips''}"
proof -
  obtain r l cs where t: "sample_tree = Folder r l cs" by (simp add: sample_tree_def sample_folder_def)
  have "afc_header_bytes h \<noteq> []" for h using length_afc_header_bytes [of h] by (metis list.size(3) zero_neq_numeral)
  then have "reply_bytes l \<noteq> []" by (cases l) (simp add: afc_frame_def)
  then have "replies (tour [(ascii ''.'', sample_tree)]) \<noteq> []"
    unfolding t by (simp add: tour_snoc [where ds = "[]", simplified] replies_def sample_reply_def)
  then have at: "afc_at sample_device [] 1 (replies (tour [(ascii ''.'', Folder r l cs)]) @ [])"
    by (simp add: sample_device_def AfcClient_new_def afc_at_def carries_one t)
  have compiled: "crash_compile_pattern (case Some (ascii ''*.ips'') of Some p \<Rightarrow> p | None \<Rightarrow> ascii ''*'') = Inr (ascii ''*.ips'')"
    by code_simp
  have found: "map report_path (reports_at (ascii ''*.ips'') (ascii ''.'') [] sample_tree) = [ascii ''./a.ips'', ascii ''./d/b.ips'']"
    by code_simp
  obtain d es where "list_reports (Some (ascii ''*.ips'')) sample_device = (Ok es, d)"
    "mset es = mset (reports_at (ascii ''*.ips'') (ascii ''.'') [] sample_tree)"
    using reports_listed [OF at _ compiled] sample_tree_ok t by auto
  moreover from this(2) have "mset (map report_path es) = mset [ascii ''./a.ips'', ascii ''./d/b.ips'']"
    using found by (metis mset_map)
  then have "set (map report_path es) = {ascii ''./a.ips'', ascii ''./d/b.ips''}"
    using mset_eq_setD by fastforce
  ultimately show ?thesis by blast
qed

end
