(* ===== verification/Host_Files.thy ===== *)
theory Host_Files
  imports Ios_Prelude "HOL-Library.Sublist"
begin

text \<open>
  The host's file system as the crate uses it through \<open>std::path\<close> and \<open>std::fs\<close> on Linux: paths
  as their components, a tree of files, directories, symbolic links and sockets kept as a list of
  absolute names with their entries, name resolution that follows symbolic links, and the system
  calls. What the host does is a script, as for the streams: a call may fail with any error number
  and a read may return fewer bytes than asked for. A script never claims that an existing file is
  missing, so it cannot fail a call with \<open>ENOENT\<close>. No other process changes the tree.
\<close>

section \<open>Paths\<close>

datatype component = RootDir | CurDir | ParentDir | Normal string

type_synonym path = "component list"
type_synonym names = "string list"

text \<open>
  \<open>Path::components\<close>: repeated separators, a trailing one and every \<open>.\<close> but a leading one
  disappear. Paths compare, extend and split by components, so a path is this list.
\<close>

definition segment :: "string \<Rightarrow> path" where
  "segment s = (if s = '''' \<or> s = ''.'' then [] else if s = ''..'' then [ParentDir] else [Normal s])"

definition path_of :: "string \<Rightarrow> path" where
  "path_of s = (case split_on (CHR ''/'') s of
       first # rest \<Rightarrow>
         (if take 1 s = ''/'' then [RootDir] else if first = ''.'' then [CurDir] else segment first) @
         concat (map segment rest)
     | [] \<Rightarrow> [])"

definition absolute :: "names \<Rightarrow> path" where
  "absolute p = RootDir # map Normal p"

definition is_absolute :: "path \<Rightarrow> bool" where
  "is_absolute p \<longleftrightarrow> take 1 p = [RootDir]"

definition join :: "path \<Rightarrow> path \<Rightarrow> path" where
  "join p q = (if is_absolute q then q else if p = [] then q else p @ filter (\<lambda>c. c \<noteq> CurDir) q)"

definition strip_prefix :: "path \<Rightarrow> path \<Rightarrow> path option" where
  "strip_prefix p q = (if prefix q p then Some (drop (length q) p) else None)"

definition parent :: "path \<Rightarrow> path option" where
  "parent p = (if p = [] \<or> last p = RootDir then None else Some (butlast p))"

definition component_bytes :: "component \<Rightarrow> nat" where
  "component_bytes c = (case c of RootDir \<Rightarrow> 1 | CurDir \<Rightarrow> 2 | ParentDir \<Rightarrow> 3 | Normal s \<Rightarrow> Suc (length s))"

definition path_bytes :: "path \<Rightarrow> nat" where
  "path_bytes p = sum_list (map component_bytes p)"

section \<open>The tree\<close>

datatype entry = File bytes | Directory | Symlink path | Socket

datatype fs_event = Fine | Fail nat | Short nat

record host =
  entries :: "(names \<times> entry) list"
  events :: "fs_event list"
  cwd :: names
  free_bytes :: nat

text \<open>Error numbers of Linux.\<close>

abbreviation (input) ENOENT :: nat where "ENOENT \<equiv> 2"
abbreviation (input) ENXIO :: nat where "ENXIO \<equiv> 6"
abbreviation (input) EEXIST :: nat where "EEXIST \<equiv> 17"
abbreviation (input) ENOTDIR :: nat where "ENOTDIR \<equiv> 20"
abbreviation (input) EISDIR :: nat where "EISDIR \<equiv> 21"
abbreviation (input) EINVAL :: nat where "EINVAL \<equiv> 22"
abbreviation (input) ENAMETOOLONG :: nat where "ENAMETOOLONG \<equiv> 36"
abbreviation (input) ENOTEMPTY :: nat where "ENOTEMPTY \<equiv> 39"
abbreviation (input) ELOOP :: nat where "ELOOP \<equiv> 40"

definition entry_at :: "(names \<times> entry) list \<Rightarrow> names \<Rightarrow> entry option" where
  "entry_at es p = (if p = [] then Some Directory else map_of es p)"

definition children :: "(names \<times> entry) list \<Rightarrow> names \<Rightarrow> names" where
  "children es d = map (last \<circ> fst) (filter (\<lambda>(p, _). p \<noteq> [] \<and> butlast p = d) es)"

text \<open>
  Name resolution from the directory \<open>cur\<close>: at most \<open>n\<close> symbolic links are followed, the one in the
  last place only if \<open>follow\<close> asks for it. The result names the file reached, which may be missing
  in an existing directory.
\<close>

fun walk :: "(names \<times> entry) list \<Rightarrow> bool \<Rightarrow> nat \<Rightarrow> names \<Rightarrow> path \<Rightarrow> nat + names" where
  "walk es follow n cur [] = Inr cur"
| "walk es follow n cur (RootDir # r) = walk es follow n [] r"
| "walk es follow n cur (CurDir # r) = walk es follow n cur r"
| "walk es follow n cur (ParentDir # r) = walk es follow n (butlast cur) r"
| "walk es follow n cur (Normal x # r) = (case entry_at es (cur @ [x]) of
       None \<Rightarrow> if r = [] then Inr (cur @ [x]) else Inl ENOENT
     | Some (Symlink t) \<Rightarrow>
         if r = [] \<and> \<not> follow then Inr (cur @ [x])
         else if n = 0 then Inl ELOOP
         else walk es follow (n - 1) cur (t @ r)
     | Some Directory \<Rightarrow> walk es follow n (cur @ [x]) r
     | Some _ \<Rightarrow> if r = [] then Inr (cur @ [x]) else Inl ENOTDIR)"

definition PATH_MAX :: nat where "PATH_MAX = 4096"

definition resolve :: "bool \<Rightarrow> path \<Rightarrow> host \<Rightarrow> nat + names" where
  "resolve follow p h =
     (if p = [] then Inl ENOENT
      else if PATH_MAX \<le> path_bytes p then Inl ENAMETOOLONG
      else walk (entries h) follow 40 (cwd h) p)"

section \<open>System calls\<close>

type_synonym 'a fs_proc = "(host, nat, 'a) proc"

definition syscall :: "(fs_event \<Rightarrow> 'a fs_proc) \<Rightarrow> 'a fs_proc" where
  "syscall f h = (case events h of
       [] \<Rightarrow> f Fine h
     | Fail n # es \<Rightarrow> if n = ENOENT then f Fine (h\<lparr>events := es\<rparr>) else (Err n, h\<lparr>events := es\<rparr>)
     | e # es \<Rightarrow> f e (h\<lparr>events := es\<rparr>))"

definition at_path :: "bool \<Rightarrow> path \<Rightarrow> (names \<Rightarrow> entry option \<Rightarrow> 'a fs_proc) \<Rightarrow> 'a fs_proc" where
  "at_path follow p act = syscall (\<lambda>_ h. case resolve follow p h of
       Inl n \<Rightarrow> (Err n, h) | Inr q \<Rightarrow> act q (entry_at (entries h) q) h)"

definition put_entry :: "names \<Rightarrow> entry \<Rightarrow> host \<Rightarrow> host" where
  "put_entry p x h = h\<lparr>entries := index_insert p x (entries h)\<rparr>"

definition drop_entries :: "names \<Rightarrow> host \<Rightarrow> host" where
  "drop_entries p h = h\<lparr>entries := filter (\<lambda>(q, _). \<not> prefix p q) (entries h)\<rparr>"

text \<open>\<open>lstat\<close> and \<open>realpath\<close>.\<close>

definition symlink_metadata :: "path \<Rightarrow> entry fs_proc" where
  "symlink_metadata p = at_path False p (\<lambda>_ x. case x of None \<Rightarrow> throw ENOENT | Some e \<Rightarrow> ret e)"

definition fs_canonicalize :: "path \<Rightarrow> path fs_proc" where
  "fs_canonicalize p = at_path True p (\<lambda>q x. case x of None \<Rightarrow> throw ENOENT | Some _ \<Rightarrow> ret (absolute q))"

text \<open>A new directory is empty.\<close>

definition create_dir :: "path \<Rightarrow> unit fs_proc" where
  "create_dir p = at_path False p (\<lambda>q x. case x of
       Some _ \<Rightarrow> throw EEXIST | None \<Rightarrow> modify (\<lambda>h. put_entry q Directory (drop_entries q h)))"

text \<open>
  Opening with \<open>O_NOFOLLOW\<close>: to read, and to write with \<open>O_CREAT | O_TRUNC\<close>. The handle is the name
  of the file, which nothing moves while it is open.
\<close>

definition open_read :: "path \<Rightarrow> names fs_proc" where
  "open_read p = at_path False p (\<lambda>q x. case x of
       None \<Rightarrow> throw ENOENT
     | Some (Symlink _) \<Rightarrow> throw ELOOP
     | Some Socket \<Rightarrow> throw ENXIO
     | Some _ \<Rightarrow> ret q)"

definition open_write :: "path \<Rightarrow> names fs_proc" where
  "open_write p = at_path False p (\<lambda>q x. case x of
       Some (Symlink _) \<Rightarrow> throw ELOOP
     | Some Socket \<Rightarrow> throw ENXIO
     | Some Directory \<Rightarrow> throw EISDIR
     | _ \<Rightarrow> and_then (modify (put_entry q (File []))) (\<lambda>_. ret q))"

definition file_bytes :: "names \<Rightarrow> host \<Rightarrow> bytes" where
  "file_bytes q h = (case entry_at (entries h) q of Some (File c) \<Rightarrow> c | _ \<Rightarrow> [])"

text \<open>\<open>write_all\<close>: a call may take only some of the bytes, and a later one may fail.\<close>

function append_file :: "names \<Rightarrow> bytes \<Rightarrow> unit fs_proc" where
  "append_file q bs =
     (if bs = [] then ret ()
      else and_then (syscall (\<lambda>e. let k = (case e of Short n \<Rightarrow> min (length bs) (Suc n) | _ \<Rightarrow> length bs) in
             and_then (modify (\<lambda>h. put_entry q (File (file_bytes q h @ take k bs)) h)) (\<lambda>_. ret (k - 1))))
           (\<lambda>k. append_file q (drop (Suc k) bs)))"
  by pat_completeness auto
termination
  by (relation "measure (\<lambda>(q, bs). length bs)") auto

declare append_file.simps [simp del]

text \<open>A read of at most \<open>n\<close> bytes at an offset; only the end of the file is an empty read.\<close>

definition read_file_at :: "names \<Rightarrow> nat \<Rightarrow> nat \<Rightarrow> bytes fs_proc" where
  "read_file_at q off n = syscall (\<lambda>e h. case entry_at (entries h) q of
       Some Directory \<Rightarrow> (Err EISDIR, h)
     | _ \<Rightarrow> (Ok (take (case e of Short k \<Rightarrow> min n (Suc k) | _ \<Rightarrow> n) (drop off (file_bytes q h))), h))"

definition move_entry :: "names \<Rightarrow> entry \<Rightarrow> names \<Rightarrow> unit fs_proc" where
  "move_entry s e d h =
     (let old = entry_at (entries h) d in
      if s = d then (Ok (), h)
      else if prefix s d then (Err EINVAL, h)
      else if prefix d s then (Err ENOTEMPTY, h)
      else if e = Directory \<and> old \<noteq> None \<and> old \<noteq> Some Directory then (Err ENOTDIR, h)
      else if e \<noteq> Directory \<and> old = Some Directory then (Err EISDIR, h)
      else if old = Some Directory \<and> children (entries h) d \<noteq> [] then (Err ENOTEMPTY, h)
      else (Ok (), h\<lparr>entries :=
             map (\<lambda>(p, y). (if prefix s p then d @ drop (length s) p else p, y))
               (filter (\<lambda>(p, _). \<not> prefix d p) (entries h))\<rparr>))"

definition fs_rename :: "path \<Rightarrow> path \<Rightarrow> unit fs_proc" where
  "fs_rename src dst = at_path False src (\<lambda>s x h. case x of
       None \<Rightarrow> (Err ENOENT, h)
     | Some e \<Rightarrow> (case resolve False dst h of Inl n \<Rightarrow> (Err n, h) | Inr d \<Rightarrow> move_entry s e d h))"

definition remove_file :: "path \<Rightarrow> unit fs_proc" where
  "remove_file p = at_path False p (\<lambda>q x. case x of
       None \<Rightarrow> throw ENOENT
     | Some Directory \<Rightarrow> throw EISDIR
     | Some _ \<Rightarrow> modify (drop_entries q))"

definition remove_dir :: "path \<Rightarrow> unit fs_proc" where
  "remove_dir p = at_path False p (\<lambda>q x h. case x of
       None \<Rightarrow> (Err ENOENT, h)
     | Some Directory \<Rightarrow>
         if children (entries h) q \<noteq> [] then (Err ENOTEMPTY, h) else (Ok (), drop_entries q h)
     | Some _ \<Rightarrow> (Err ENOTDIR, h))"

definition read_dir :: "path \<Rightarrow> names fs_proc" where
  "read_dir p = at_path True p (\<lambda>q x h. case x of
       None \<Rightarrow> (Err ENOENT, h)
     | Some Directory \<Rightarrow> (Ok (children (entries h) q), h)
     | Some _ \<Rightarrow> (Err ENOTDIR, h))"

text \<open>
  \<open>remove_dir_all\<close>: the entries below the directory are unlinked one by one, the deepest first; an
  error leaves the rest in place. A symbolic link below it is removed, not followed.
\<close>

fun remove_each :: "names list \<Rightarrow> unit fs_proc" where
  "remove_each [] = ret ()"
| "remove_each (q # qs) = and_then (syscall (\<lambda>_. modify (drop_entries q))) (\<lambda>_. remove_each qs)"

definition remove_dir_all :: "path \<Rightarrow> unit fs_proc" where
  "remove_dir_all p = at_path False p (\<lambda>q x h. case x of
       None \<Rightarrow> (Err ENOENT, h)
     | Some Directory \<Rightarrow>
         remove_each (rev (sort_key length (map fst (filter (\<lambda>(r, _). prefix q r) (entries h))))) h
     | Some (Symlink _) \<Rightarrow> (Ok (), drop_entries q h)
     | Some _ \<Rightarrow> (Err ENOTDIR, h))"

text \<open>\<open>Path::is_dir\<close> follows symbolic links and takes every error for no.\<close>

definition path_is_dir :: "path \<Rightarrow> bool fs_proc" where
  "path_is_dir p h = (case at_path True p (\<lambda>_ x. ret (x = Some Directory)) h of
       (Ok b, t) \<Rightarrow> (Ok b, t) | (_, t) \<Rightarrow> (Ok False, t))"

text \<open>\<open>create_dir_all\<close>: a missing parent is created first; a directory that is there already is fine.\<close>

definition make_dir_or_found :: "path \<Rightarrow> unit fs_proc" where
  "make_dir_or_found p h = (case create_dir p h of
       (Err n, t) \<Rightarrow> (case path_is_dir p t of
            (Ok True, u) \<Rightarrow> (Ok (), u) | (_, u) \<Rightarrow> (Err n, u))
     | (r, t) \<Rightarrow> (r, t))"

function create_dir_all :: "path \<Rightarrow> unit fs_proc" where
  "create_dir_all p h =
     (if p = [] then (Ok (), h)
      else case create_dir p h of
        (Err n, t) \<Rightarrow>
          if n = ENOENT then
            (case parent p of
               None \<Rightarrow> (Err n, t)
             | Some q \<Rightarrow> and_then (create_dir_all q) (\<lambda>_. make_dir_or_found p) t)
          else (case path_is_dir p t of
                  (Ok True, u) \<Rightarrow> (Ok (), u) | (_, u) \<Rightarrow> (Err n, u))
      | (r, t) \<Rightarrow> (r, t))"
  by pat_completeness auto
termination
  by (relation "measure (\<lambda>(p, h). length p)") (auto simp: parent_def split: if_splits)

declare create_dir_all.simps [simp del]

lemmas fs_call_defs = symlink_metadata_def fs_canonicalize_def create_dir_def open_read_def open_write_def
  fs_rename_def remove_file_def remove_dir_def read_dir_def remove_dir_all_def path_is_dir_def

end
