(* ===== verification/Device_Link.thy ===== *)
theory Device_Link
  imports Async_Stream Wire_Frames Keyed_Archive
begin

text \<open>
  DeviceLink (\<open>services/device_link.rs\<close>), the dialogue under the backup service: plists in
  length-prefixed frames (\<open>services/plist_frame.rs\<close>) on an asynchronous stream. The reader and the
  writer of the \<open>plist\<close> crate are parameters. A text is the list of its UTF-8 bytes as characters.
\<close>

section \<open>Texts and bytes\<close>

definition text_of :: "bytes \<Rightarrow> string" where
  "text_of bs = map (\<lambda>b. char_of (unat b)) bs"

lemma byte_of_char: "(of_char (char_of (unat (b :: byte))) :: byte) = b"
proof -
  have "(of_char (char_of (unat b)) :: byte) = of_nat (unat b mod 256)"
    by (subst of_nat_of_char [symmetric]) (simp only: of_char_of)
  then show ?thesis by (simp only: mod_less [OF unat_byte_less] of_nat_unat ucast_id)
qed

lemma char_of_byte: "char_of (unat (of_char c :: byte)) = c"
proof -
  have "unat (of_char c :: byte) = of_char c"
    by (subst of_nat_of_char [symmetric]) (simp add: unat_of_nat)
  then show ?thesis by simp
qed

lemma ascii_text_of [simp]: "ascii (text_of bs) = bs"
  by (simp add: ascii_def text_of_def comp_def byte_of_char)

lemma text_of_ascii [simp]: "text_of (ascii s) = s"
  by (simp add: ascii_def text_of_def comp_def char_of_byte)

lemma length_ascii [simp]: "length (ascii s) = length s"
  by (simp add: ascii_def)

section \<open>Plist frames on a stream\<close>

definition on_sock :: "(io_error \<Rightarrow> 'e) \<Rightarrow> (sock, io_error, 'a) proc \<Rightarrow> (sock, 'e, 'a) proc" where
  "on_sock wrap m = on_stream (\<lambda>k. k) (\<lambda>k _. k) wrap m"

definition send_raw_plist_frame :: "bytes \<Rightarrow> nat \<Rightarrow> (sock, frame_error, unit) proc" where
  "send_raw_plist_frame payload max_len =
     and_then (check (\<lambda>_. write_raw_plist_frame payload max_len)) (\<lambda>_.
     and_then (on_sock FIo (sock_write_all (to_be32 (of_nat (length payload))))) (\<lambda>_.
     and_then (on_sock FIo (sock_write_all payload)) (\<lambda>_.
     on_sock FIo sock_flush)))"

definition send_xml_plist_frame :: "('v \<Rightarrow> bytes option) \<Rightarrow> 'v \<Rightarrow> nat \<Rightarrow> (sock, frame_error, unit) proc" where
  "send_xml_plist_frame ser v max_len =
     and_then (check (\<lambda>_. ok_or FPlist (ser v))) (\<lambda>payload. send_raw_plist_frame payload max_len)"

definition recv_plist_frame :: "(bytes \<Rightarrow> 'v option) \<Rightarrow> nat \<Rightarrow> (sock, frame_error, 'v) proc" where
  "recv_plist_frame parse max_len =
     and_then (on_sock FIo (sock_read_exact 4)) (\<lambda>len_buf.
     let len = unat (from_be32 len_buf) in
     if len > max_len
     then throw (FProtocol ''plist frame length {len} exceeds max {max_len}'' [len, max_len])
     else and_then (on_sock FIo (sock_read_exact len)) (\<lambda>payload.
          check (\<lambda>_. ok_or FPlist (parse payload))))"

text \<open>The stream reader computes what the reader of byte strings does, however the bytes are cut.\<close>

lemma on_sock_Ok: "m s = (Ok x, t) \<Longrightarrow> on_sock wrap m s = (Ok x, t)"
  by (simp add: on_sock_def)

lemma on_sock_Ok_iff: "on_sock wrap m s = (Ok x, t) \<longleftrightarrow> m s = (Ok x, t)"
  by (auto simp: on_sock_def on_stream_def split: prod.splits outcome.splits)

lemma recv_plist_frame_carries:
  assumes "carries (rx s) bs" and "read_plist_frame parse max_len bs = Inr (v, rest)"
  shows "\<exists>es. recv_plist_frame parse max_len s = (Ok v, s\<lparr>rx := es\<rparr>) \<and> carries es rest"
proof -
  from assms(2) obtain len_buf r payload where
    1: "read_exact 4 bs = Inr (len_buf, r)" and 2: "\<not> max_len < unat (from_be32 len_buf)"
    and 3: "read_exact (unat (from_be32 len_buf)) r = Inr (payload, rest)" and 4: "parse payload = Some v"
    by (auto simp: read_plist_frame_def attempt_Inr_iff Let_def ok_or_def split: if_splits option.splits)
  have "bs = len_buf @ payload @ rest" "length len_buf = 4" "length payload = unat (from_be32 len_buf)"
    using 1 3 by (auto simp: read_exact_Inr_iff)
  then obtain es es' where "sock_read_exact 4 s = (Ok len_buf, s\<lparr>rx := es\<rparr>)" "carries es (payload @ rest)"
    "sock_read_exact (unat (from_be32 len_buf)) (s\<lparr>rx := es\<rparr>) = (Ok payload, s\<lparr>rx := es'\<rparr>)" "carries es' rest"
    using assms(1) sock_read_exact_carries [of s len_buf "payload @ rest" 4]
      sock_read_exact_carries [of "s\<lparr>rx := es\<rparr>" payload rest "unat (from_be32 len_buf)" for es]
    by fastforce
  then show ?thesis
    using 2 4 by (intro exI [of _ es']) (simp add: recv_plist_frame_def on_sock_Ok proc_simps)
qed

section \<open>The DeviceLink client\<close>

datatype device_link_error = LIo io_error | LPlist | LProtocol string "plist list"

definition MAX_PLIST_SIZE :: nat where "MAX_PLIST_SIZE = 4 * 1024 * 1024"

definition link_error :: "frame_error \<Rightarrow> device_link_error" where
  "link_error e = (case e of
       FIo x \<Rightarrow> LIo x | FPlist \<Rightarrow> LPlist
     | FProtocol m ns \<Rightarrow> LProtocol m (map (\<lambda>n. PInteger (int n)) ns))"

type_synonym 'a link_proc = "(sock, device_link_error, 'a) proc"

definition send_message :: "(plist \<Rightarrow> bytes option) \<Rightarrow> plist \<Rightarrow> unit link_proc" where
  "send_message ser m = on_stream (\<lambda>k. k) (\<lambda>k _. k) link_error (send_xml_plist_frame ser m MAX_PLIST_SIZE)"

definition recv_message :: "(bytes \<Rightarrow> plist option) \<Rightarrow> plist link_proc" where
  "recv_message parse = on_stream (\<lambda>k. k) (\<lambda>k _. k) link_error (recv_plist_frame parse MAX_PLIST_SIZE)"

text \<open>\<open>slice::get\<close>, and the first element of a message as its type.\<close>

definition element :: "nat \<Rightarrow> 'a list \<Rightarrow> 'a option" where
  "element i xs = (if i < length xs then Some (xs ! i) else None)"

definition message_type :: "plist list \<Rightarrow> string option" where
  "message_type m = Option.bind (element 0 m) p_string"

definition expect_type :: "string \<Rightarrow> string \<Rightarrow> string \<Rightarrow> string \<Rightarrow> plist \<Rightarrow> device_link_error + plist list" where
  "expect_type no_array no_type other expected response =
     attempt (ok_or (LProtocol no_array [response]) (p_array response)) (\<lambda>message.
     attempt (ok_or (LProtocol no_type [response]) (message_type message)) (\<lambda>ty.
     if ty \<noteq> expected then Inl (LProtocol other [PString ty]) else Inr message))"

definition link_version_exchange ::
    "(plist \<Rightarrow> bytes option) \<Rightarrow> (bytes \<Rightarrow> plist option) \<Rightarrow> nat link_proc" where
  "link_version_exchange ser parse =
     and_then (recv_message parse) (\<lambda>response.
     and_then (check (\<lambda>_. expect_type ''device link version exchange expected array, got {response:?}''
                 ''device link version exchange missing message type: {response:?}''
                 ''expected DLMessageVersionExchange, got {message_type}''
                 ''DLMessageVersionExchange'' response)) (\<lambda>message.
     and_then (check (\<lambda>_. ok_or (LProtocol ''device link version exchange missing major version: {response:?}'' [response])
                 (Option.bind (element 1 message) p_unsigned))) (\<lambda>version.
     and_then (send_message ser (PArray [PString ''DLMessageVersionExchange'', PString ''DLVersionsOk'', PInteger (int version)])) (\<lambda>_.
     and_then (recv_message parse) (\<lambda>ready.
     and_then (check (\<lambda>_. expect_type ''device ready expected array, got {ready:?}''
                 ''device ready missing message type: {ready:?}''
                 ''expected DLMessageDeviceReady, got {ready_type}''
                 ''DLMessageDeviceReady'' ready)) (\<lambda>_.
     ret version))))))"

definition send_process_message :: "(plist \<Rightarrow> bytes option) \<Rightarrow> plist \<Rightarrow> unit link_proc" where
  "send_process_message ser m = send_message ser (PArray [PString ''DLMessageProcessMessage'', m])"

definition recv_process_message :: "(bytes \<Rightarrow> plist option) \<Rightarrow> (string \<times> plist) list link_proc" where
  "recv_process_message parse =
     and_then (recv_message parse) (\<lambda>response.
     and_then (check (\<lambda>_. expect_type ''process message expected array, got {response:?}''
                 ''process message missing message type: {response:?}''
                 ''expected DLMessageProcessMessage, got {message_type}''
                 ''DLMessageProcessMessage'' response)) (\<lambda>message.
     check (\<lambda>_. ok_or (LProtocol ''process message missing dictionary payload: {response:?}'' [response])
                 (Option.bind (element 1 message) p_dictionary))))"

definition disconnect :: "(plist \<Rightarrow> bytes option) \<Rightarrow> unit link_proc" where
  "disconnect ser = send_message ser (PArray [PString ''DLMessageDisconnect'', PString ''___EmptyParameterString___''])"

section \<open>Reading uses up the script\<close>

lemma on_stream_id: "on_stream (\<lambda>k. k) (\<lambda>k _. k) wrap m s = (r, t) \<Longrightarrow> \<exists>r'. m s = (r', t)"
  by (auto simp: on_stream_def split: prod.splits outcome.splits)

lemma sock_read_exact_size: "sock_read_exact n s = (r, t) \<Longrightarrow> rx_size (rx t) \<le> rx_size (rx s)"
  by (auto simp: sock_read_exact_def dest: rx_exact_le split: prod.splits)

lemma sock_read_exact_uses: "sock_read_exact n s = (Ok x, t) \<Longrightarrow> 0 < n \<Longrightarrow> rx_size (rx t) < rx_size (rx s)"
  by (auto simp: sock_read_exact_def dest: rx_exact_less split: prod.splits)

lemma sock_write_all_rx: "sock_write_all bs s = (r, t) \<Longrightarrow> rx t = rx s"
  by (auto simp: sock_write_all_def split: prod.splits)

lemma sock_flush_rx: "sock_flush s = (r, t) \<Longrightarrow> rx t = rx s"
  by (auto simp: sock_flush_def split: list.splits fx_event.splits)

text \<open>\<open>receives n m\<close>: the operation leaves at most the input there was, and a value took input.\<close>

definition at_most :: "nat \<Rightarrow> sock \<Rightarrow> bool" where
  "at_most n s \<longleftrightarrow> rx_size (rx s) \<le> n"

lemma at_most_io [keeps_intros]:
  "keeps (at_most n) (sock_read_exact k)" "keeps (at_most n) (sock_write_all bs)" "keeps (at_most n) sock_flush"
  by (auto simp: keeps_def at_most_def sock_write_all_def sock_flush_def dest!: sock_read_exact_size
      split: prod.splits list.splits fx_event.splits)
    (metis le_trans prod.collapse sock_read_exact_size)

lemma at_most_on_stream [keeps_intros]:
  "keeps (at_most n) m \<Longrightarrow> keeps (at_most n) (on_stream (\<lambda>k. k) (\<lambda>k _. k) wrap m)"
  by (auto simp: keeps_def on_stream_state)

lemma at_most_on_sock [keeps_intros]: "keeps (at_most n) m \<Longrightarrow> keeps (at_most n) (on_sock wrap m)"
  unfolding on_sock_def by (rule at_most_on_stream)

lemma at_most_send [keeps_intros]: "keeps (at_most n) (send_message ser m)"
  unfolding send_message_def send_xml_plist_frame_def send_raw_plist_frame_def
  by (intro keeps_intros)

lemma at_most_recv [keeps_intros]: "keeps (at_most n) (recv_message parse)"
  unfolding recv_message_def recv_plist_frame_def Let_def
  by (intro keeps_intros)

lemma recv_message_uses:
  assumes "recv_message parse s = (Ok m, t)"
  shows "rx_size (rx t) < rx_size (rx s)"
proof -
  have "recv_plist_frame parse MAX_PLIST_SIZE s = (Ok m, t)"
    using assms by (auto simp: recv_message_def on_stream_def split: prod.splits outcome.splits)
  then obtain l u where l: "sock_read_exact 4 s = (Ok l, u)"
    and r: "(if MAX_PLIST_SIZE < unat (from_be32 l)
        then throw (FProtocol ''plist frame length {len} exceeds max {max_len}'' [unat (from_be32 l), MAX_PLIST_SIZE])
        else and_then (on_sock FIo (sock_read_exact (unat (from_be32 l)))) (\<lambda>payload.
          check (\<lambda>_. ok_or FPlist (parse payload)))) u = (Ok m, t)"
    by (auto simp: recv_plist_frame_def and_then_Ok_iff on_sock_Ok_iff Let_def)
  have "rx_size (rx t) \<le> rx_size (rx u)"
    using r by (auto simp: and_then_Ok_iff on_sock_Ok_iff check_Ok throw_def dest: sock_read_exact_size split: if_splits)
  with sock_read_exact_uses [OF l] show ?thesis by simp
qed

end
