(* ===== verification/Backup_Paths.thy ===== *)
theory Backup_Paths
  imports Host_Files Device_Link
begin

text \<open>
  The path policy of the backup service (\<open>services/backup2/mod.rs\<close>): which identifiers and which
  device-supplied paths are accepted, where they lead, the checks against symbolic links, and the
  file operations built on them. The functions are those of a Linux build: \<open>cfg(unix)\<close> holds,
  \<open>cfg(target_os = "macos")\<close> and \<open>cfg(windows)\<close> do not, so no system alias is approved and a
  canonical path needs no simplification.
\<close>

section \<open>Errors\<close>

text \<open>\<open>Protocol\<close> carries the format string of the source and what it shows.\<close>

datatype io_failure = Stream_Failure io_error | Os nat

datatype shown = Text string | Value plist | Number nat

datatype backup_error =
    BDeviceLink device_link_error | BIo io_failure | BPlist | BProtocol string "shown list"

definition proto :: "string \<Rightarrow> string list \<Rightarrow> backup_error" where
  "proto msg ss = BProtocol msg (map Text ss)"

type_synonym 'a host_proc = "(host, backup_error, 'a) proc"

text \<open>The question mark on a file-system call.\<close>

definition fs :: "'a fs_proc \<Rightarrow> 'a host_proc" where
  "fs m h = (case m h of
       (Ok x, t) \<Rightarrow> (Ok x, t) | (Err n, t) \<Rightarrow> (Err (BIo (Os n)), t) | (Cancelled, t) \<Rightarrow> (Cancelled, t))"

text \<open>A call whose missing file is a case of its own: \<open>None\<close>.\<close>

definition unless_missing :: "'a fs_proc \<Rightarrow> 'a option host_proc" where
  "unless_missing m h = (case m h of
       (Ok x, t) \<Rightarrow> (Ok (Some x), t)
     | (Err n, t) \<Rightarrow> if n = ENOENT then (Ok None, t) else (Err (BIo (Os n)), t)
     | (Cancelled, t) \<Rightarrow> (Cancelled, t))"

text \<open>A slash before every name: how an absolute path is shown.\<close>

definition show_component :: "component \<Rightarrow> string" where
  "show_component c = (case c of RootDir \<Rightarrow> '''' | CurDir \<Rightarrow> ''.'' | ParentDir \<Rightarrow> ''..'' | Normal s \<Rightarrow> s)"

fun show_path :: "path \<Rightarrow> string" where
  "show_path [] = ''''"
| "show_path [c] = (if c = RootDir then ''/'' else show_component c)"
| "show_path (c # cs) = show_component c @ ''/'' @ show_path cs"

definition symlink_path_error :: "path \<Rightarrow> backup_error" where
  "symlink_path_error p = proto ''backup path contains a symlink component: {}'' [show_path p]"

fun is_symlink :: "entry \<Rightarrow> bool" where
  "is_symlink (Symlink t) = True"
| "is_symlink _ = False"

fun is_file :: "entry \<Rightarrow> bool" where
  "is_file (File c) = True"
| "is_file _ = False"

fun entry_len :: "entry \<Rightarrow> nat" where
  "entry_len (File c) = length c"
| "entry_len _ = 0"

section \<open>Identifiers and relative paths\<close>

definition has_windows_drive_prefix :: "string \<Rightarrow> bool" where
  "has_windows_drive_prefix value =
     (case value of a # b # _ \<Rightarrow>
        b = CHR '':'' \<and>
        (let n = (of_char a :: nat) in 65 \<le> n \<and> n \<le> 90 \<or> 97 \<le> n \<and> n \<le> 122)
      | _ \<Rightarrow> False)"

definition validate_backup_identifier :: "string \<Rightarrow> backup_error + unit" where
  "validate_backup_identifier identifier =
     (if identifier = [] then Inl (proto ''backup identifier must not be empty'' [])
      else if CHR 0x00 \<in> set identifier then Inl (proto ''backup identifier must not contain NUL'' [])
      else if CHR ''/'' \<in> set identifier \<or> CHR 0x5C \<in> set identifier
      then Inl (proto ''backup identifier must be one path component: {identifier:?}'' [identifier])
      else if has_windows_drive_prefix identifier
      then Inl (proto ''backup identifier must not contain a platform path prefix: {identifier:?}'' [identifier])
      else case path_of identifier of
             [Normal _] \<Rightarrow> Inr ()
           | _ \<Rightarrow> Inl (proto ''backup identifier must be one normal path component: {identifier:?}'' [identifier]))"

definition non_empty_protocol_string :: "string option \<Rightarrow> string option" where
  "non_empty_protocol_string v = (case v of Some s \<Rightarrow> if s = [] then None else Some s | None \<Rightarrow> None)"

fun sanitize_components :: "string \<Rightarrow> path \<Rightarrow> path \<Rightarrow> backup_error + path" where
  "sanitize_components p clean [] = Inr clean"
| "sanitize_components p clean (Normal part # cs) = sanitize_components p (clean @ [Normal part]) cs"
| "sanitize_components p clean (CurDir # cs) =
     Inl (proto ''backup relative path contains a current-directory component: {path:?}'' [p])"
| "sanitize_components p clean (_ # cs) = Inl (proto ''backup path escapes backup root: {path}'' [p])"

definition sanitize_relative_path :: "string \<Rightarrow> backup_error + path" where
  "sanitize_relative_path p =
     (if p = [] then Inl (proto ''backup relative path must not be empty'' [])
      else if CHR 0x00 \<in> set p then Inl (proto ''backup relative path must not contain NUL'' [])
      else if CHR 0x5C \<in> set p \<or> has_windows_drive_prefix p
      then Inl (proto ''backup relative path uses an unsupported platform separator or prefix: {path:?}'' [p])
      else attempt (sanitize_components p [] (path_of p)) (\<lambda>clean.
           if clean = [] then Inl (proto ''backup relative path must contain a normal component: {path:?}'' [p])
           else Inr clean))"

fun manifest_relative_path_string :: "path \<Rightarrow> string" where
  "manifest_relative_path_string [] = ''''"
| "manifest_relative_path_string (Normal part # cs) =
     (let rest = manifest_relative_path_string cs in
      if rest = [] then part else part @ ''/'' @ rest)"
| "manifest_relative_path_string (_ # cs) = manifest_relative_path_string cs"

section \<open>Checks against symbolic links\<close>

text \<open>The components of a path, after the names pushed so far.\<close>

fun reject_components :: "path \<Rightarrow> path \<Rightarrow> path \<Rightarrow> unit host_proc" where
  "reject_components p current [] = ret ()"
| "reject_components p current (CurDir # cs) = reject_components p current cs"
| "reject_components p current (ParentDir # cs) = throw (proto ''backup path is not safe: {}'' [show_path p])"
| "reject_components p current (c # cs) =
     (let next = join current [c] in
      and_then (unless_missing (symlink_metadata next)) (\<lambda>m. case m of
          None \<Rightarrow> ret ()
        | Some e \<Rightarrow> if is_symlink e then throw (symlink_path_error next) else reject_components p next cs))"

definition reject_symlink_components :: "path \<Rightarrow> unit host_proc" where
  "reject_symlink_components p =
     reading (\<lambda>h. reject_components p (if is_absolute p then [] else absolute (cwd h)) p)"

definition canonical_backup_root :: "path \<Rightarrow> path host_proc" where
  "canonical_backup_root root = and_then (reject_symlink_components root) (\<lambda>_. fs (fs_canonicalize root))"

fun ensure_components :: "path \<Rightarrow> path \<Rightarrow> path \<Rightarrow> unit host_proc" where
  "ensure_components relative current [] = ret ()"
| "ensure_components relative current (Normal part # cs) =
     (let next = join current [Normal part] in
      and_then (unless_missing (symlink_metadata next)) (\<lambda>m. case m of
          None \<Rightarrow> ret ()
        | Some e \<Rightarrow>
            if is_symlink e then throw (symlink_path_error next)
            else if cs \<noteq> [] \<and> e \<noteq> Directory
            then throw (proto ''backup path component is not a directory: {}'' [show_path next])
            else ensure_components relative next cs))"
| "ensure_components relative current (_ # cs) =
     throw (proto ''backup path is not a safe relative path: {}'' [show_path relative])"

definition ensure_no_symlink_components_at_root :: "path \<Rightarrow> path \<Rightarrow> unit host_proc" where
  "ensure_no_symlink_components_at_root root relative = ensure_components relative root relative"

definition safe_path_from_root :: "path \<Rightarrow> path \<Rightarrow> path host_proc" where
  "safe_path_from_root root relative =
     and_then (ensure_no_symlink_components_at_root root relative) (\<lambda>_. ret (join root relative))"

text \<open>One directory of the path: it is there, or it is created and looked at again.\<close>

definition check_directory :: "path \<Rightarrow> entry \<Rightarrow> unit host_proc" where
  "check_directory current e =
     (if is_symlink e then throw (symlink_path_error current)
      else if e \<noteq> Directory then throw (proto ''backup directory path is not a directory: {}'' [show_path current])
      else ret ())"

definition create_dir_unless_there :: "path \<Rightarrow> unit host_proc" where
  "create_dir_unless_there current h = (case create_dir current h of
       (Err n, t) \<Rightarrow> if n = EEXIST then (Ok (), t) else (Err (BIo (Os n)), t)
     | (Ok x, t) \<Rightarrow> (Ok x, t)
     | (Cancelled, t) \<Rightarrow> (Cancelled, t))"

definition enter_directory :: "path \<Rightarrow> unit host_proc" where
  "enter_directory current =
     and_then (unless_missing (symlink_metadata current)) (\<lambda>m. case m of
         Some e \<Rightarrow> check_directory current e
       | None \<Rightarrow>
           and_then (create_dir_unless_there current) (\<lambda>_.
           and_then (fs (symlink_metadata current)) (check_directory current)))"

fun create_components :: "path \<Rightarrow> path \<Rightarrow> path \<Rightarrow> path \<Rightarrow> path host_proc" where
  "create_components root relative current [] = ret current"
| "create_components root relative current (Normal part # cs) =
     (let next = join current [Normal part] in
      and_then (enter_directory next) (\<lambda>_.
      and_then (fs (fs_canonicalize next)) (\<lambda>canonical.
      if \<not> prefix root canonical
      then throw (proto ''backup directory path escapes backup root: {}'' [show_path next])
      else create_components root relative next cs)))"
| "create_components root relative current (_ # cs) =
     throw (proto ''backup directory path is not safe: {}'' [show_path relative])"

definition create_dir_all_no_symlink :: "path \<Rightarrow> path \<Rightarrow> path host_proc" where
  "create_dir_all_no_symlink root relative =
     and_then (canonical_backup_root root) (\<lambda>root. create_components root relative root relative)"

section \<open>The backup directory\<close>

record backup_layout =
  layout_root :: path
  device_directory :: path
  target_identifier :: string

definition under_target :: "backup_layout \<Rightarrow> path \<Rightarrow> path" where
  "under_target lay clean =
     (if take 1 clean = [Normal (target_identifier lay)] then clean
      else join (path_of (target_identifier lay)) clean)"

definition resolve_relative_path :: "backup_layout \<Rightarrow> string \<Rightarrow> path host_proc" where
  "resolve_relative_path lay rel =
     and_then (check (\<lambda>_. sanitize_relative_path rel)) (\<lambda>clean.
     and_then (check (\<lambda>_. validate_backup_identifier (target_identifier lay))) (\<lambda>_.
     let relative = under_target lay clean in
     and_then (canonical_backup_root (layout_root lay)) (\<lambda>root.
     and_then (ensure_no_symlink_components_at_root root relative) (\<lambda>_.
     ret (join root relative)))))"

definition open_file_for_read :: "path \<Rightarrow> names host_proc" where
  "open_file_for_read p = and_then (reject_symlink_components p) (\<lambda>_. fs (open_read p))"

definition open_file_for_write :: "path \<Rightarrow> names host_proc" where
  "open_file_for_write p = and_then (reject_symlink_components p) (\<lambda>_. fs (open_write p))"

definition layout_relative_path :: "backup_layout \<Rightarrow> path \<Rightarrow> backup_error + path" where
  "layout_relative_path lay p =
     ok_or (proto ''backup path is outside backup root: {}'' [show_path p]) (strip_prefix p (layout_root lay))"

definition create_layout_directory :: "backup_layout \<Rightarrow> path \<Rightarrow> unit host_proc" where
  "create_layout_directory lay p =
     and_then (check (\<lambda>_. layout_relative_path lay p)) (\<lambda>relative.
     and_then (create_dir_all_no_symlink (layout_root lay) relative) (\<lambda>_. ret ()))"

definition create_layout_parent_directory :: "backup_layout \<Rightarrow> path \<Rightarrow> unit host_proc" where
  "create_layout_parent_directory lay p =
     and_then (check (\<lambda>_. ok_or (proto ''backup path has no parent directory: {}'' [show_path p]) (parent p))) (\<lambda>dir.
     create_layout_directory lay dir)"

text \<open>The check in front of every use of a path below the root.\<close>

definition guard_layout_path :: "backup_layout \<Rightarrow> path \<Rightarrow> unit host_proc" where
  "guard_layout_path lay p =
     and_then (check (\<lambda>_. layout_relative_path lay p)) (\<lambda>relative.
     ensure_no_symlink_components_at_root (layout_root lay) relative)"

definition open_layout_file_for_write :: "backup_layout \<Rightarrow> path \<Rightarrow> names host_proc" where
  "open_layout_file_for_write lay p = and_then (guard_layout_path lay p) (\<lambda>_. open_file_for_write p)"

definition open_layout_file_for_read :: "backup_layout \<Rightarrow> path \<Rightarrow> names host_proc" where
  "open_layout_file_for_read lay p = and_then (guard_layout_path lay p) (\<lambda>_. open_file_for_read p)"

definition rename_layout_path :: "backup_layout \<Rightarrow> path \<Rightarrow> path \<Rightarrow> unit host_proc" where
  "rename_layout_path lay src dst =
     and_then (check (\<lambda>_. layout_relative_path lay src)) (\<lambda>src_relative.
     and_then (check (\<lambda>_. layout_relative_path lay dst)) (\<lambda>dst_relative.
     and_then (ensure_no_symlink_components_at_root (layout_root lay) src_relative) (\<lambda>_.
     and_then (ensure_no_symlink_components_at_root (layout_root lay) dst_relative) (\<lambda>_.
     fs (fs_rename src dst)))))"

text \<open>
  A recursion into a directory goes one name deeper. \<open>depth\<close> bounds it: a path with as many
  components as \<open>PATH_MAX\<close> has more bytes than the system calls accept.
\<close>

definition too_deep :: "path \<Rightarrow> 'a host_proc" where
  "too_deep p = and_then (fs (symlink_metadata p)) (\<lambda>_. throw (BIo (Os ENAMETOOLONG)))"

primrec for_each :: "('a \<Rightarrow> ('s, 'e, unit) proc) \<Rightarrow> 'a list \<Rightarrow> ('s, 'e, unit) proc" where
  "for_each f [] = ret ()"
| "for_each f (x # xs) = and_then (f x) (\<lambda>_. for_each f xs)"

primrec tree_has_no_symlinks :: "nat \<Rightarrow> path \<Rightarrow> unit host_proc" where
  "tree_has_no_symlinks 0 p = too_deep p"
| "tree_has_no_symlinks (Suc depth) p =
     and_then (fs (symlink_metadata p)) (\<lambda>e.
     if is_symlink e then throw (symlink_path_error p)
     else if e = Directory then
       and_then (fs (read_dir p)) (for_each (\<lambda>name. tree_has_no_symlinks depth (join p [Normal name])))
     else ret ())"

definition ensure_tree_has_no_symlinks :: "path \<Rightarrow> unit host_proc" where
  "ensure_tree_has_no_symlinks p = tree_has_no_symlinks PATH_MAX p"

definition remove_layout_path :: "backup_layout \<Rightarrow> path \<Rightarrow> unit host_proc" where
  "remove_layout_path lay p =
     and_then (guard_layout_path lay p) (\<lambda>_.
     and_then (unless_missing (symlink_metadata p)) (\<lambda>m. case m of
         None \<Rightarrow> ret ()
       | Some e \<Rightarrow>
           if is_symlink e then throw (symlink_path_error p)
           else if e = Directory then and_then (ensure_tree_has_no_symlinks p) (\<lambda>_. fs (remove_dir_all p))
           else fs (remove_file p)))"

text \<open>
  \<open>std::io::copy\<close> of a file: calls that each move some of the bytes, up to one that moves none.
\<close>

definition copy_bytes :: "names \<Rightarrow> names \<Rightarrow> unit host_proc" where
  "copy_bytes src dst =
     reading (\<lambda>h. and_then (fs (append_file dst (file_bytes src h))) (\<lambda>_. fs (syscall (\<lambda>_. ret ()))))"

definition copy_paths :: "path \<Rightarrow> path \<Rightarrow> path \<Rightarrow> backup_error + (path \<times> path)" where
  "copy_paths root src dst =
     attempt (ok_or (proto ''backup copy source is outside backup root: {}'' [show_path src]) (strip_prefix src root)) (\<lambda>src_relative.
     attempt (ok_or (proto ''backup copy destination is outside backup root: {}'' [show_path dst]) (strip_prefix dst root)) (\<lambda>dst_relative.
     Inr (src_relative, dst_relative)))"

definition copy_file :: "path \<Rightarrow> path \<Rightarrow> path \<Rightarrow> unit host_proc" where
  "copy_file root src dst =
     and_then (case parent dst of
         None \<Rightarrow> ret ()
       | Some dir \<Rightarrow>
           and_then (check (\<lambda>_. ok_or (proto ''backup copy destination parent is outside backup root: {}'' [show_path dir]) (strip_prefix dir root))) (\<lambda>parent_relative.
           and_then (create_dir_all_no_symlink root parent_relative) (\<lambda>_. ret ()))) (\<lambda>_.
     and_then (open_file_for_read src) (\<lambda>source.
     and_then (open_file_for_write dst) (\<lambda>destination.
     copy_bytes source destination)))"

definition copy_guard :: "path \<Rightarrow> path \<Rightarrow> path \<Rightarrow> path host_proc" where
  "copy_guard root src dst =
     and_then (check (\<lambda>_. copy_paths root src dst)) (\<lambda>(src_relative, dst_relative).
     and_then (ensure_no_symlink_components_at_root root src_relative) (\<lambda>_.
     and_then (ensure_no_symlink_components_at_root root dst_relative) (\<lambda>_.
     if src = dst \<or> prefix src dst then throw (proto ''cannot copy a directory into itself'' [])
     else ret dst_relative)))"

primrec copy_tree :: "nat \<Rightarrow> path \<Rightarrow> path \<Rightarrow> path \<Rightarrow> unit host_proc" where
  "copy_tree 0 root src dst = and_then (copy_guard root src dst) (\<lambda>_. too_deep src)"
| "copy_tree (Suc depth) root src dst =
     and_then (copy_guard root src dst) (\<lambda>dst_relative.
     and_then (fs (symlink_metadata src)) (\<lambda>e.
     if is_symlink e then throw (symlink_path_error src)
     else if e = Directory then
       and_then (create_dir_all_no_symlink root dst_relative) (\<lambda>_.
       and_then (fs (read_dir src)) (for_each (\<lambda>name.
         copy_tree depth root (join src [Normal name]) (join dst [Normal name]))))
     else if is_file e then copy_file root src dst
     else throw (proto ''backup copy source is neither a file nor a directory: {}'' [show_path src])))"

definition copy_item :: "path \<Rightarrow> path \<Rightarrow> path \<Rightarrow> unit host_proc" where
  "copy_item root src dst = copy_tree PATH_MAX root src dst"

end
