(* ===== verification/Backup_Filter.thy ===== *)
theory Backup_Filter
  imports Backup_Paths Text_Trim
begin

text \<open>
  The host-side selection of backup files (\<open>services/backup2/mod.rs\<close>, \<open>BackupSelection\<close>,
  \<open>BackupSelectionRule\<close>, \<open>BackupFilter\<close>). The \<open>regex\<close> crate is a parameter: a compiled expression is
  its matching predicate, and the compiler returns it or an error text.
\<close>

section \<open>Texts\<close>

text \<open>The characters of \<open>char::is_whitespace\<close>.\<close>

definition whitespace :: "string list" where
  "whitespace = map text_of WHITESPACE"

definition to_ascii_lowercase :: "string \<Rightarrow> string" where
  "to_ascii_lowercase s = map (\<lambda>c. if 65 \<le> (of_char c :: nat) \<and> of_char c \<le> (90 :: nat) then char_of ((of_char c :: nat) + 32) else c) s"

text \<open>\<open>trim_end_matches('/')\<close>.\<close>

definition trim_slashes :: "string \<Rightarrow> string" where
  "trim_slashes s = rev (dropWhile (\<lambda>c. c = CHR ''/'') (rev s))"

section \<open>Selections\<close>

datatype backup_selection = Bookmarks | CallHistory | Contacts | Messages | Sms | Whatsapp

record backup_selection_rule =
  rule_domain :: string
  rule_relative_path :: string
  rule_recursive :: bool

definition rule :: "string \<Rightarrow> string \<Rightarrow> bool \<Rightarrow> backup_selection_rule" where
  "rule d p r = \<lparr>rule_domain = d, rule_relative_path = p, rule_recursive = r\<rparr>"

definition BOOKMARK_RULES :: "backup_selection_rule list" where
  "BOOKMARK_RULES =
     [rule ''HomeDomain'' ''Library/Safari/Bookmarks.db'' False,
      rule ''HomeDomain'' ''Library/Safari/Bookmarks.db-shm'' False,
      rule ''HomeDomain'' ''Library/Safari/Bookmarks.db-wal'' False]"

definition CALL_HISTORY_RULES :: "backup_selection_rule list" where
  "CALL_HISTORY_RULES =
     [rule ''HomeDomain'' ''Library/CallHistoryDB/CallHistory.storedata'' False,
      rule ''HomeDomain'' ''Library/CallHistoryDB/CallHistory.storedata-shm'' False,
      rule ''HomeDomain'' ''Library/CallHistoryDB/CallHistory.storedata-wal'' False]"

definition CONTACT_RULES :: "backup_selection_rule list" where
  "CONTACT_RULES =
     [rule ''HomeDomain'' ''Library/AddressBook/AddressBook.sqlitedb'' False,
      rule ''HomeDomain'' ''Library/AddressBook/AddressBook.sqlitedb-shm'' False,
      rule ''HomeDomain'' ''Library/AddressBook/AddressBook.sqlitedb-wal'' False]"

definition MESSAGE_RULES :: "backup_selection_rule list" where
  "MESSAGE_RULES = [rule ''HomeDomain'' ''Library/SMS'' True, rule ''MediaDomain'' ''Library/SMS'' True]"

definition SMS_RULES :: "backup_selection_rule list" where
  "SMS_RULES = [rule ''HomeDomain'' ''Library/SMS/sms.db'' False]"

definition WHATSAPP_RULES :: "backup_selection_rule list" where
  "WHATSAPP_RULES =
     [rule ''AppDomain-net.whatsapp.WhatsApp'' ''Documents/ChatStorage.sqlite'' False,
      rule ''AppDomain-net.whatsapp.WhatsApp'' ''Documents/ChatStorage.sqlite-shm'' False,
      rule ''AppDomain-net.whatsapp.WhatsApp'' ''Documents/ChatStorage.sqlite-wal'' False,
      rule ''AppDomainGroup-group.net.whatsapp.WhatsApp.shared'' ''ChatStorage.sqlite'' False,
      rule ''AppDomainGroup-group.net.whatsapp.WhatsApp.shared'' ''ChatStorage.sqlite-shm'' False,
      rule ''AppDomainGroup-group.net.whatsapp.WhatsApp.shared'' ''ChatStorage.sqlite-wal'' False]"

fun rules :: "backup_selection \<Rightarrow> backup_selection_rule list" where
  "rules Bookmarks = BOOKMARK_RULES"
| "rules CallHistory = CALL_HISTORY_RULES"
| "rules Contacts = CONTACT_RULES"
| "rules Messages = MESSAGE_RULES"
| "rules Sms = SMS_RULES"
| "rules Whatsapp = WHATSAPP_RULES"

definition BackupSelection_from_str :: "string \<Rightarrow> backup_error + backup_selection" where
  "BackupSelection_from_str value =
     (let v = to_ascii_lowercase (trim_end whitespace (trim_start whitespace value)) in
      if v = ''bookmarks'' then Inr Bookmarks
      else if v = ''call_history'' \<or> v = ''call-history'' then Inr CallHistory
      else if v = ''contacts'' then Inr Contacts
      else if v = ''messages'' then Inr Messages
      else if v = ''sms'' then Inr Sms
      else if v = ''whatsapp'' \<or> v = ''whats_app'' \<or> v = ''whats-app'' then Inr Whatsapp
      else Inl (proto ''unknown backup selection {value:?}; expected one of {}'' [value]))"

definition rule_matches :: "backup_selection_rule \<Rightarrow> string \<Rightarrow> string \<Rightarrow> bool" where
  "rule_matches r domain relative_path \<longleftrightarrow>
     rule_domain r = domain \<and>
     (rule_relative_path r = relative_path \<or>
      rule_recursive r \<and> prefix (rule_relative_path r @ ''/'') relative_path)"

definition rule_matches_device_name :: "backup_selection_rule \<Rightarrow> string \<Rightarrow> bool" where
  "rule_matches_device_name r device_name \<longleftrightarrow>
     (let expected = trim_slashes (rule_relative_path r);
          exact = [rule_domain r @ ''/'' @ expected, rule_domain r @ ''-'' @ expected, expected] in
      list_ex (\<lambda>candidate. device_name = candidate \<or>
                (rule_recursive r \<and> prefix (candidate @ ''/'') device_name)) exact \<or>
      suffix (''/'' @ expected) device_name \<or>
      (rule_recursive r \<and> sublist (''/'' @ expected @ ''/'') device_name))"

section \<open>Filters\<close>

record backup_filter =
  filter_selections :: "backup_selection list"
  filter_regexes :: "(string \<Rightarrow> bool) list"

definition filter_rules :: "backup_filter \<Rightarrow> backup_selection_rule list" where
  "filter_rules f = concat (map rules (filter_selections f))"

definition matches_device_name :: "backup_filter \<Rightarrow> string \<Rightarrow> bool" where
  "matches_device_name f device_name \<longleftrightarrow>
     list_ex (\<lambda>r. rule_matches_device_name r device_name) (filter_rules f) \<or>
     list_ex (\<lambda>re. re device_name) (filter_regexes f)"

definition candidate_names :: "string \<Rightarrow> string \<Rightarrow> string list" where
  "candidate_names domain relative_path =
     [domain @ ''/'' @ relative_path, domain @ ''-'' @ relative_path, relative_path]"

definition matches_manifest_entry :: "backup_filter \<Rightarrow> string \<Rightarrow> string \<Rightarrow> bool" where
  "matches_manifest_entry f domain relative_path \<longleftrightarrow>
     list_ex (\<lambda>r. rule_matches r domain relative_path) (filter_rules f) \<or>
     list_ex (\<lambda>re. list_ex re (candidate_names domain relative_path)) (filter_regexes f)"

definition filter_is_empty :: "backup_filter \<Rightarrow> bool" where
  "filter_is_empty f \<longleftrightarrow> filter_selections f = [] \<and> filter_regexes f = []"

definition MAX_FILTER_TERMS :: nat where "MAX_FILTER_TERMS = 128"
definition MAX_FILTER_PATTERN_BYTES :: nat where "MAX_FILTER_PATTERN_BYTES = 16 * 1024"

text \<open>\<open>collect::<Result<Vec<_>, _>>\<close>: the first error, or all values.\<close>

fun collect_results :: "('a \<Rightarrow> 'e + 'b) \<Rightarrow> 'a list \<Rightarrow> 'e + 'b list" where
  "collect_results f [] = Inr []"
| "collect_results f (x # xs) = attempt (f x) (\<lambda>y. attempt (collect_results f xs) (\<lambda>ys. Inr (y # ys)))"

definition compile_pattern :: "(string \<Rightarrow> string + (string \<Rightarrow> bool)) \<Rightarrow> string \<Rightarrow> backup_error + (string \<Rightarrow> bool)" where
  "compile_pattern regex_new pattern =
     (if length pattern > MAX_FILTER_PATTERN_BYTES
      then Inl (BProtocol ''backup --only-regex pattern is too large ({} bytes; max {MAX_FILTER_PATTERN_BYTES})''
                  [Number (length pattern), Number MAX_FILTER_PATTERN_BYTES])
      else case regex_new pattern of
        Inl error \<Rightarrow> Inl (proto ''invalid backup --only-regex pattern {pattern:?}: {error}'' [pattern, error])
      | Inr re \<Rightarrow> Inr re)"

definition build_backup_filter ::
    "(string \<Rightarrow> string + (string \<Rightarrow> bool)) \<Rightarrow> string list \<Rightarrow> string list \<Rightarrow> backup_error + backup_filter option" where
  "build_backup_filter regex_new selections regex_patterns =
     (if selections = [] \<and> regex_patterns = [] then Inr None
      else if length selections + length regex_patterns > MAX_FILTER_TERMS
      then Inl (BProtocol ''backup filter has too many terms ({}; max {MAX_FILTER_TERMS})''
                  [Number (length selections + length regex_patterns), Number MAX_FILTER_TERMS])
      else attempt (collect_results BackupSelection_from_str selections) (\<lambda>sel.
           attempt (collect_results (compile_pattern regex_new) regex_patterns) (\<lambda>res.
           Inr (Some \<lparr>filter_selections = sel, filter_regexes = res\<rparr>))))"

definition METADATA_NAMES :: "string list" where
  "METADATA_NAMES = [''Info.plist'', ''Manifest.plist'', ''Manifest.db'', ''Manifest.mbdb'', ''Manifest.mbdx'',
     ''Manifest.db-shm'', ''Manifest.db-wal'', ''Status.plist'']"

definition should_preserve_backup_file :: "string \<Rightarrow> string \<Rightarrow> backup_filter \<Rightarrow> bool" where
  "should_preserve_backup_file file_name device_name f \<longleftrightarrow>
     last (split_on (CHR ''/'') file_name) \<in> set METADATA_NAMES \<or> matches_device_name f device_name"

section \<open>What the selection means\<close>

text \<open>
  The two matchers agree on the names of manifest entries: an entry that a rule selects for the
  manifest is kept when the device sends it under its domain and path.
\<close>

lemma trim_slashes_id: "s \<noteq> [] \<Longrightarrow> last s \<noteq> CHR ''/'' \<Longrightarrow> trim_slashes s = s"
  by (cases s rule: rev_cases) (simp_all add: trim_slashes_def)

lemma rules_well_formed: "list_all (\<lambda>r. rule_relative_path r \<noteq> [] \<and> last (rule_relative_path r) \<noteq> CHR ''/'') (rules s)"
  by (cases s)
    (simp_all add: rule_def BOOKMARK_RULES_def CALL_HISTORY_RULES_def CONTACT_RULES_def MESSAGE_RULES_def
      SMS_RULES_def WHATSAPP_RULES_def)

lemma rule_matches_kept:
  assumes "rule_matches r domain relative_path" and "rule_relative_path r \<noteq> []" and "last (rule_relative_path r) \<noteq> CHR ''/''"
    and "name \<in> set (candidate_names domain relative_path)"
  shows "rule_matches_device_name r name"
  using assms trim_slashes_id [of "rule_relative_path r"]
  by (auto simp: rule_matches_def rule_matches_device_name_def candidate_names_def Let_def prefix_def)

text \<open>
  Every file that a filter keeps in the patched manifest is also kept on disk: when a manifest
  entry matches, some name that the device may use for it passes the transfer filter.
\<close>

lemma manifest_entry_kept:
  assumes "matches_manifest_entry f domain relative_path"
  shows "\<exists>name \<in> set (candidate_names domain relative_path). matches_device_name f name"
proof -
  from assms consider r where "r \<in> set (filter_rules f)" "rule_matches r domain relative_path"
    | re name where "re \<in> set (filter_regexes f)" "name \<in> set (candidate_names domain relative_path)" "re name"
    by (auto simp: matches_manifest_entry_def list_ex_iff)
  then show ?thesis
  proof cases
    case 1
    then have "rule_relative_path r \<noteq> [] \<and> last (rule_relative_path r) \<noteq> CHR ''/''"
      using rules_well_formed by (auto simp: filter_rules_def list_all_iff)
    with 1 have "rule_matches_device_name r relative_path"
      by (intro rule_matches_kept) (auto simp: candidate_names_def)
    then show ?thesis using 1 by (auto simp: matches_device_name_def list_ex_iff candidate_names_def)
  next
    case 2
    then show ?thesis by (auto simp: matches_device_name_def list_ex_iff)
  qed
qed

end
