(* ===== verification/Backup_Transfer.thy ===== *)
theory Backup_Transfer
  imports Backup_Filter
begin

text \<open>
  The state of the backup client and its file transfers (\<open>services/backup2/mod.rs\<close>,
  \<open>Mobilebackup2Client\<close>): the files the device uploads, the files it downloads, and the placeholders
  of the files that a filter discards. The client owns its stream and works on the host's files.
  Every loop ends on every script: an upload loop uses up the input of the stream, a download loop
  the file it reads.
  A failed write to a file is reported by the write itself. Tokio writes in the background and reports
  the failure at the next operation on the file, at the latest at \<open>flush\<close>, which has no step of its
  own here; before it reports the failure the client may read one more chunk from the stream.
\<close>

section \<open>The client\<close>

text \<open>What the host and the \<open>plist\<close> crate contribute.\<close>

record host_env =
  to_xml :: "plist \<Rightarrow> bytes option"
  to_binary :: "plist \<Rightarrow> bytes option"
  from_bytes :: "bytes \<Rightarrow> plist option"
  os_error_text :: "nat \<Rightarrow> string"
  modification_date :: "path \<Rightarrow> u64"
  inode_size :: "path \<Rightarrow> nat"
  now :: u64
  fresh_uuid :: string

record backup_client =
  link :: sock
  disk :: host
  reported_free_space :: "nat option"
  required_free_space :: "nat option"
  backup_filter :: "backup_filter option"
  discarded_files :: "path list"
  transfer_files :: nat
  transfer_bytes :: nat

definition Mobilebackup2Client_new :: "sock \<Rightarrow> host \<Rightarrow> backup_client" where
  "Mobilebackup2Client_new k h =
     \<lparr>link = k, disk = h, reported_free_space = None, required_free_space = None, backup_filter = None,
      discarded_files = [], transfer_files = 0, transfer_bytes = 0\<rparr>"

type_synonym 'a client_proc = "(backup_client, backup_error, 'a) proc"

definition set_link :: "sock \<Rightarrow> backup_client \<Rightarrow> backup_client" where
  "set_link k s = s\<lparr>link := k\<rparr>"

definition set_disk :: "host \<Rightarrow> backup_client \<Rightarrow> backup_client" where
  "set_disk h s = s\<lparr>disk := h\<rparr>"

definition on_link :: "'a link_proc \<Rightarrow> 'a client_proc" where
  "on_link m = on_stream link set_link BDeviceLink m"

definition on_io :: "(sock, io_error, 'a) proc \<Rightarrow> 'a client_proc" where
  "on_io m = on_stream link set_link (\<lambda>e. BIo (Stream_Failure e)) m"

definition on_disk :: "'a host_proc \<Rightarrow> 'a client_proc" where
  "on_disk m = on_stream disk set_disk (\<lambda>e. e) m"

text \<open>A result that is looked at instead of passed on.\<close>

definition try_proc :: "('s, 'e, 'a) proc \<Rightarrow> ('s, 'e, 'e + 'a) proc" where
  "try_proc m s = (case m s of
       (Ok x, t) \<Rightarrow> (Ok (Inr x), t) | (Err e, t) \<Rightarrow> (Ok (Inl e), t) | (Cancelled, t) \<Rightarrow> (Cancelled, t))"

section \<open>Accounting\<close>

definition MAX_DEVICE_TRANSFER_FILES :: nat where "MAX_DEVICE_TRANSFER_FILES = 1000000"
definition MAX_DEVICE_TRANSFER_BYTES :: nat where "MAX_DEVICE_TRANSFER_BYTES = 512 * 1024 * 1024 * 1024"

definition account_transfer_file :: "unit client_proc" where
  "account_transfer_file s = (case usize_checked_add (transfer_files s) 1 of
       None \<Rightarrow> (Err (proto ''backup transfer file count overflow'' []), s)
     | Some n \<Rightarrow>
         if n > MAX_DEVICE_TRANSFER_FILES
         then (Err (BProtocol ''backup transfer has too many files (max {MAX_DEVICE_TRANSFER_FILES})''
                      [Number MAX_DEVICE_TRANSFER_FILES]), s\<lparr>transfer_files := n\<rparr>)
         else (Ok (), s\<lparr>transfer_files := n\<rparr>))"

definition account_transfer_bytes :: "nat \<Rightarrow> unit client_proc" where
  "account_transfer_bytes k s = (case usize_checked_add (transfer_bytes s) k of
       None \<Rightarrow> (Err (proto ''backup transfer byte count overflow'' []), s)
     | Some n \<Rightarrow>
         if n > MAX_DEVICE_TRANSFER_BYTES
         then (Err (BProtocol ''backup transfer exceeds byte budget (max {MAX_DEVICE_TRANSFER_BYTES} bytes)''
                      [Number MAX_DEVICE_TRANSFER_BYTES]), s\<lparr>transfer_bytes := n\<rparr>)
         else (Ok (), s\<lparr>transfer_bytes := n\<rparr>))"

section \<open>Strings and payloads on the stream\<close>

definition MAX_PREFIXED_STRING_SIZE :: nat where "MAX_PREFIXED_STRING_SIZE = 64 * 1024"
definition DOWNLOAD_CHUNK_SIZE :: nat where "DOWNLOAD_CHUNK_SIZE = 32 * 1024"
definition MAX_TRANSFER_ERROR_PREVIEW_SIZE :: nat where "MAX_TRANSFER_ERROR_PREVIEW_SIZE = 64 * 1024"

definition FILE_TRANSFER_CODE_SUCCESS :: byte where "FILE_TRANSFER_CODE_SUCCESS = 0x00"
definition FILE_TRANSFER_CODE_LOCAL_ERROR :: byte where "FILE_TRANSFER_CODE_LOCAL_ERROR = 0x06"
definition FILE_TRANSFER_CODE_FILE_DATA :: byte where "FILE_TRANSFER_CODE_FILE_DATA = 0x0C"
definition FILE_TRANSFER_CODE_REMOTE_ERROR :: byte where "FILE_TRANSFER_CODE_REMOTE_ERROR = 0x0B"

lemmas transfer_codes = FILE_TRANSFER_CODE_SUCCESS_def FILE_TRANSFER_CODE_LOCAL_ERROR_def
  FILE_TRANSFER_CODE_FILE_DATA_def FILE_TRANSFER_CODE_REMOTE_ERROR_def

definition read_u32_be :: "u32 client_proc" where
  "read_u32_be = and_then (on_io (sock_read_exact 4)) (\<lambda>buf. ret (from_be32 buf))"

definition read_prefixed_string :: "string client_proc" where
  "read_prefixed_string =
     and_then read_u32_be (\<lambda>n.
     let size = unat n in
     if size = 0 then ret ''''
     else if size > MAX_PREFIXED_STRING_SIZE
     then throw (BProtocol ''prefixed string too large: {size} bytes (max {MAX_PREFIXED_STRING_SIZE})''
                   [Number size, Number MAX_PREFIXED_STRING_SIZE])
     else and_then (on_io (sock_read_exact size)) (\<lambda>buf.
          if utf8_valid buf then ret (text_of buf)
          else throw (proto ''backup path was not utf-8: {err}'' [])))"

function copy_transfer_payload :: "names \<Rightarrow> nat \<Rightarrow> unit client_proc" where
  "copy_transfer_payload file remaining =
     (if remaining = 0 then ret ()
      else and_then (on_io (sock_read_exact (min remaining DOWNLOAD_CHUNK_SIZE))) (\<lambda>buf.
           and_then (on_disk (fs (append_file file buf))) (\<lambda>_.
           copy_transfer_payload file (remaining - min remaining DOWNLOAD_CHUNK_SIZE))))"
  by pat_completeness auto
termination
  by (relation "measure (\<lambda>(file, n). n)") (auto simp: DOWNLOAD_CHUNK_SIZE_def)

function discard_transfer_payload :: "nat \<Rightarrow> unit client_proc" where
  "discard_transfer_payload remaining =
     (if remaining = 0 then ret ()
      else and_then (on_io (sock_read_exact (min remaining DOWNLOAD_CHUNK_SIZE))) (\<lambda>_.
           discard_transfer_payload (remaining - min remaining DOWNLOAD_CHUNK_SIZE)))"
  by pat_completeness auto
termination
  by (relation "measure (\<lambda>n. n)") (auto simp: DOWNLOAD_CHUNK_SIZE_def)

declare copy_transfer_payload.simps [simp del] discard_transfer_payload.simps [simp del]

definition read_transfer_error_preview :: "nat \<Rightarrow> string client_proc" where
  "read_transfer_error_preview payload_len =
     (let preview_len = min payload_len MAX_TRANSFER_ERROR_PREVIEW_SIZE in
      and_then (on_io (sock_read_exact preview_len)) (\<lambda>preview.
      and_then (discard_transfer_payload (payload_len - preview_len)) (\<lambda>_.
      ret (text_of (utf8_lossy preview)))))"

definition write_prefixed_string :: "string \<Rightarrow> unit client_proc" where
  "write_prefixed_string value =
     and_then (on_io (sock_write_all (to_be32 (of_nat (length value))))) (\<lambda>_.
     on_io (sock_write_all (ascii value)))"

definition write_transfer_frame :: "byte \<Rightarrow> bytes \<Rightarrow> unit client_proc" where
  "write_transfer_frame code payload =
     and_then (on_io (sock_write_all (to_be32 (of_nat (length payload) + 1)))) (\<lambda>_.
     and_then (on_io (sock_write_all [code])) (\<lambda>_.
     if payload \<noteq> [] then on_io (sock_write_all payload) else ret ()))"

section \<open>Discarded files\<close>

definition affected :: "path \<Rightarrow> bool \<Rightarrow> path \<Rightarrow> bool" where
  "affected source is_directory p \<longleftrightarrow> p = source \<or> (is_directory \<and> prefix source p)"

definition relocated :: "path \<Rightarrow> path \<Rightarrow> path \<Rightarrow> path" where
  "relocated source destination p = (case strip_prefix p source of
       Some rest \<Rightarrow> join destination rest | None \<Rightarrow> destination)"

definition relocate_discarded_files :: "path \<Rightarrow> path \<Rightarrow> bool \<Rightarrow> backup_client \<Rightarrow> backup_client" where
  "relocate_discarded_files source destination is_directory s =
     s\<lparr>discarded_files := map (\<lambda>p. if affected source is_directory p then relocated source destination p else p)
                           (discarded_files s)\<rparr>"

definition copy_discarded_files :: "path \<Rightarrow> path \<Rightarrow> bool \<Rightarrow> backup_client \<Rightarrow> backup_client" where
  "copy_discarded_files source destination is_directory s =
     s\<lparr>discarded_files := discarded_files s @
          map (relocated source destination) (filter (affected source is_directory) (discarded_files s))\<rparr>"

definition forget_discarded_files :: "path \<Rightarrow> backup_client \<Rightarrow> backup_client" where
  "forget_discarded_files target s =
     s\<lparr>discarded_files := filter (\<lambda>p. p \<noteq> target \<and> \<not> prefix target p) (discarded_files s)\<rparr>"

text \<open>The parents of a removed placeholder, while they are empty and below the device's directory.\<close>

function remove_empty_parents :: "backup_layout \<Rightarrow> path option \<Rightarrow> unit host_proc" where
  "remove_empty_parents lay dir =
     (case dir of
        None \<Rightarrow> ret ()
      | Some directory \<Rightarrow>
          if directory = device_directory lay \<or> \<not> prefix (device_directory lay) directory then ret ()
          else and_then (guard_layout_path lay directory) (\<lambda>_.
               and_then (fs (read_dir directory)) (\<lambda>names.
               if names \<noteq> [] then ret ()
               else and_then (fs (remove_dir directory)) (\<lambda>_.
                    remove_empty_parents lay (parent directory)))))"
  by pat_completeness auto
termination
  by (relation "measure (\<lambda>(lay, dir). case dir of None \<Rightarrow> 0 | Some p \<Rightarrow> Suc (length p))")
    (auto simp: parent_def split: if_splits)

declare remove_empty_parents.simps [simp del]

definition cleanup_discarded_file :: "backup_layout \<Rightarrow> path \<Rightarrow> unit host_proc" where
  "cleanup_discarded_file lay p =
     and_then (guard_layout_path lay p) (\<lambda>_.
     and_then (unless_missing (symlink_metadata p)) (\<lambda>m. case m of
         None \<Rightarrow> ret ()
       | Some e \<Rightarrow>
           if is_symlink e then throw (symlink_path_error p)
           else if e = Directory
           then throw (proto ''filtered backup placeholder unexpectedly became a directory: {}'' [show_path p])
           else and_then (fs (remove_file p)) (\<lambda>_. remove_empty_parents lay (parent p))))"

definition cleanup_discarded_files :: "backup_layout \<Rightarrow> path list \<Rightarrow> unit host_proc" where
  "cleanup_discarded_files lay = for_each (cleanup_discarded_file lay)"

section \<open>Uploads\<close>

text \<open>One frame of a file; \<open>True\<close> when more follow.\<close>

definition receive_frame :: "string \<Rightarrow> names option \<Rightarrow> bool client_proc" where
  "receive_frame file_name file =
     and_then read_u32_be (\<lambda>frame_size.
     and_then (on_io (sock_read_exact 1)) (\<lambda>code.
     and_then (check (\<lambda>_. ok_or (proto ''backup file transfer frame too short for {file_name}'' [file_name])
                 (usize_checked_sub (unat frame_size) 1))) (\<lambda>payload_len.
     if code = [FILE_TRANSFER_CODE_FILE_DATA] then
       and_then (account_transfer_bytes payload_len) (\<lambda>_.
       and_then (case file of
           Some q \<Rightarrow> copy_transfer_payload q payload_len
         | None \<Rightarrow> discard_transfer_payload payload_len) (\<lambda>_. ret True))
     else if code = [FILE_TRANSFER_CODE_SUCCESS] then
       and_then (discard_transfer_payload payload_len) (\<lambda>_. ret False)
     else if code = [FILE_TRANSFER_CODE_REMOTE_ERROR] then
       and_then (read_transfer_error_preview payload_len) (\<lambda>_. ret False)
     else
       and_then (discard_transfer_payload payload_len) (\<lambda>_.
       throw (BProtocol ''unknown backup file transfer code 0x{other:02x} for {file_name}''
                [Number (unat (hd code)), Text file_name])))))"

text \<open>
  The file the frames of an upload go to: none when the filter discards it, and then an empty
  placeholder stands for it.
\<close>

definition open_upload :: "backup_layout \<Rightarrow> string \<Rightarrow> string \<Rightarrow> names option client_proc" where
  "open_upload lay device_name file_name =
     and_then (on_disk (resolve_relative_path lay file_name)) (\<lambda>output_path.
     and_then (on_disk (create_layout_parent_directory lay output_path)) (\<lambda>_.
     reading (\<lambda>s.
     let preserve = (case backup_filter s of
           None \<Rightarrow> True | Some f \<Rightarrow> should_preserve_backup_file file_name device_name f) in
     and_then (on_disk (open_layout_file_for_write lay output_path)) (\<lambda>q.
     if preserve then ret (Some q)
     else and_then (modify (\<lambda>s. s\<lparr>discarded_files := discarded_files s @ [output_path]\<rparr>)) (\<lambda>_. ret None)))))"

subsection \<open>The stream's input through the steps\<close>

lemma on_part_state:
  "link (snd (on_io m s)) = snd (m (link s))" "disk (snd (on_io m s)) = disk s"
  "link (snd (on_link m' s)) = snd (m' (link s))" "disk (snd (on_link m' s)) = disk s"
  "link (snd (on_disk m'' s)) = link s" "disk (snd (on_disk m'' s)) = snd (m'' (disk s))"
  by (simp_all add: on_io_def on_link_def on_disk_def on_stream_state set_link_def set_disk_def)

text \<open>A property of the stream, or of the disk, is a matter of the operations on it.\<close>

lemma keeps_link_part [keeps_intros]:
  "keeps P m \<Longrightarrow> keeps (\<lambda>s. P (link s)) (on_io m)" "keeps P m' \<Longrightarrow> keeps (\<lambda>s. P (link s)) (on_link m')"
  "keeps (\<lambda>s. P (link s)) (on_disk m'')"
  by (simp_all add: keeps_def on_part_state)

lemma keeps_disk_part [keeps_intros]:
  "keeps P m'' \<Longrightarrow> keeps (\<lambda>s. P (disk s)) (on_disk m'')"
  "keeps (\<lambda>s. P (disk s)) (on_io m)" "keeps (\<lambda>s. P (disk s)) (on_link m')"
  by (simp_all add: keeps_def on_part_state)

lemma keeps_account [keeps_intros]:
  "keeps (\<lambda>s. P (link s)) account_transfer_file" "keeps (\<lambda>s. Q (disk s)) account_transfer_file"
  "keeps (\<lambda>s. P (link s)) (account_transfer_bytes n)" "keeps (\<lambda>s. Q (disk s)) (account_transfer_bytes n)"
  by (auto simp: keeps_def account_transfer_file_def account_transfer_bytes_def split: option.splits)

lemma keeps_case_option [keeps_intros]:
  "(x = None \<Longrightarrow> keeps I m) \<Longrightarrow> (\<And>y. x = Some y \<Longrightarrow> keeps I (f y)) \<Longrightarrow>
   keeps I (case x of None \<Rightarrow> m | Some y \<Rightarrow> f y)"
  by (cases x) auto

lemma discard_input [keeps_intros]: "keeps (\<lambda>s. at_most n (link s)) (discard_transfer_payload k)"
proof (induction k rule: discard_transfer_payload.induct)
  case (1 k)
  then show ?case by (subst discard_transfer_payload.simps) (auto intro!: keeps_intros)
qed

lemma copy_input [keeps_intros]: "keeps (\<lambda>s. at_most n (link s)) (copy_transfer_payload q k)"
proof (induction q k rule: copy_transfer_payload.induct)
  case (1 q k)
  then show ?case by (subst copy_transfer_payload.simps) (auto intro!: keeps_intros)
qed

lemma read_input [keeps_intros]:
  "keeps (\<lambda>s. at_most n (link s)) read_u32_be"
  "keeps (\<lambda>s. at_most n (link s)) read_prefixed_string"
  "keeps (\<lambda>s. at_most n (link s)) (read_transfer_error_preview k)"
  "keeps (\<lambda>s. at_most n (link s)) (write_prefixed_string v)"
  "keeps (\<lambda>s. at_most n (link s)) (write_transfer_frame c p)"
  unfolding read_prefixed_string_def read_u32_be_def read_transfer_error_preview_def write_prefixed_string_def
    write_transfer_frame_def Let_def
  by (intro keeps_intros)+

definition input :: "backup_client \<Rightarrow> nat" where
  "input s = rx_size (rx (link s))"

lemma keeps_input: "keeps (\<lambda>s. at_most (input s0) (link s)) m \<Longrightarrow> m s0 = (r, t) \<Longrightarrow> input t \<le> input s0"
  by (auto simp: input_def at_most_def dest: keepsD [where s = s0])

lemma on_io_Ok_iff: "on_io m s = (Ok x, t) \<longleftrightarrow> (\<exists>k. m (link s) = (Ok x, k) \<and> t = set_link k s)"
  by (auto simp: on_io_def on_stream_def split: prod.splits outcome.splits)

lemma read_u32_be_uses: "read_u32_be s = (Ok n, t) \<Longrightarrow> input t < input s"
  by (auto simp: read_u32_be_def and_then_Ok_iff on_io_Ok_iff ret_def input_def set_link_def dest: sock_read_exact_uses)

text \<open>An operation that begins by reading something uses up input when it returns.\<close>

lemma and_then_uses:
  assumes "and_then m f s = (Ok y, t)" and "\<And>x u. m s = (Ok x, u) \<Longrightarrow> input u < input s"
    and "\<And>n x. keeps (\<lambda>s. at_most n (link s)) (f x)"
  shows "input t < input s"
  using assms(1,2) keeps_input [OF assms(3)] by (fastforce simp: and_then_Ok_iff)

lemma read_prefixed_string_uses:
  assumes "read_prefixed_string s = (Ok v, t)"
  shows "input t < input s"
  using assms unfolding read_prefixed_string_def Let_def
  by (rule and_then_uses) (auto intro!: keeps_intros read_u32_be_uses)

lemma receive_frame_uses:
  assumes "receive_frame file_name file s = (Ok b, t)"
  shows "input t < input s"
  using assms unfolding receive_frame_def
  by (rule and_then_uses) (auto intro!: keeps_intros read_u32_be_uses)

lemma open_upload_input [keeps_intros]: "keeps (\<lambda>s. at_most n (link s)) (open_upload lay d f)"
  unfolding open_upload_def Let_def by (intro keeps_intros) auto

subsection \<open>The loops\<close>

text \<open>A loop whose steps use up input keeps what its steps keep.\<close>

lemma keeps_loop:
  assumes "\<And>s. f s = and_then step (\<lambda>x t. case stop x of None \<Rightarrow> f t | Some y \<Rightarrow> (Ok y, t)) s"
    and "\<And>s x t. step s = (Ok x, t) \<Longrightarrow> input t < input s" and "keeps I step"
  shows "keeps I f"
proof (rule keepsI)
  fix s assume "I s"
  then show "I (snd (f s))"
  proof (induction "input s" arbitrary: s rule: less_induct)
    case less
    obtain r t where t: "step s = (r, t)" by fastforce
    then have "I t" using keepsD [OF assms(3) less.prems] by simp
    then show ?case
      using less.hyps [of t] assms(2) [of s] t by (subst assms(1), cases r) (auto split: option.split)
  qed
qed

function receive_frames :: "string \<Rightarrow> names option \<Rightarrow> unit client_proc" where
  "receive_frames file_name file s =
     and_then (receive_frame file_name file) (\<lambda>more t.
       if more then receive_frames file_name file t else (Ok (), t)) s"
  by pat_completeness auto
termination
  by (relation "measure (\<lambda>(file_name, file, s). input s)") (auto dest: receive_frame_uses)

declare receive_frames.simps [simp del]

lemma receive_frames_loop: "receive_frames file_name file s = and_then (receive_frame file_name file) (\<lambda>more t.
    case if more then None else Some () of None \<Rightarrow> receive_frames file_name file t | Some y \<Rightarrow> (Ok y, t)) s"
  by (subst receive_frames.simps) (rule and_then_cong, auto)

lemma receive_frames_input [keeps_intros]: "keeps (\<lambda>s. at_most n (link s)) (receive_frames file_name file)"
  by (rule keeps_loop [OF receive_frames_loop receive_frame_uses])
    (auto simp: receive_frame_def intro!: keeps_intros)

text \<open>One uploaded file; \<open>False\<close> at the empty name that ends the upload.\<close>

definition receive_file :: "backup_layout \<Rightarrow> bool client_proc" where
  "receive_file lay =
     and_then read_prefixed_string (\<lambda>device_name.
     if device_name = [] then ret False
     else and_then account_transfer_file (\<lambda>_.
          and_then read_prefixed_string (\<lambda>file_name.
          and_then (open_upload lay device_name file_name) (\<lambda>file.
          and_then (receive_frames file_name file) (\<lambda>_. ret True)))))"

lemma receive_file_uses:
  assumes "receive_file lay s = (Ok b, t)"
  shows "input t < input s"
  using assms unfolding receive_file_def
  by (rule and_then_uses) (auto intro!: keeps_intros read_prefixed_string_uses)

function receive_uploaded_files :: "backup_layout \<Rightarrow> unit client_proc" where
  "receive_uploaded_files lay s =
     and_then (receive_file lay) (\<lambda>more t. if more then receive_uploaded_files lay t else (Ok (), t)) s"
  by pat_completeness auto
termination
  by (relation "measure (\<lambda>(lay, s). input s)") (auto dest: receive_file_uses)

declare receive_uploaded_files.simps [simp del]

lemma receive_uploaded_files_loop: "receive_uploaded_files lay s = and_then (receive_file lay) (\<lambda>more t.
    case if more then None else Some () of None \<Rightarrow> receive_uploaded_files lay t | Some y \<Rightarrow> (Ok y, t)) s"
  by (subst receive_uploaded_files.simps) (rule and_then_cong, auto)

lemma receive_uploaded_files_input [keeps_intros]: "keeps (\<lambda>s. at_most n (link s)) (receive_uploaded_files lay)"
  by (rule keeps_loop [OF receive_uploaded_files_loop receive_file_uses])
    (auto simp: receive_file_def intro!: keeps_intros)

end
