(* ===== verification/Backup_Guards.thy ===== *)
theory Backup_Guards
  imports Backup_Paths
begin

text \<open>
  What the checks of the path policy are worth. \<open>plain es [] p\<close> says that name resolution of \<open>p\<close>
  meets no symbolic link: it reaches \<open>p\<close> itself or fails. Each check, when it passes, makes its path
  plain, and an operation on a plain path below a directory changes nothing outside of it.
\<close>

section \<open>Plain paths\<close>

fun plain :: "(names \<times> entry) list \<Rightarrow> names \<Rightarrow> names \<Rightarrow> bool" where
  "plain es cur [] \<longleftrightarrow> True"
| "plain es cur (x # xs) \<longleftrightarrow> (case entry_at es (cur @ [x]) of
       Some (Symlink _) \<Rightarrow> False
     | Some Directory \<Rightarrow> plain es (cur @ [x]) xs
     | _ \<Rightarrow> True)"

fun dirs :: "(names \<times> entry) list \<Rightarrow> names \<Rightarrow> names \<Rightarrow> bool" where
  "dirs es cur [] \<longleftrightarrow> True"
| "dirs es cur (x # xs) \<longleftrightarrow> entry_at es (cur @ [x]) = Some Directory \<and> dirs es (cur @ [x]) xs"

lemma plain_append: "plain es c (xs @ ys) \<longleftrightarrow> plain es c xs \<and> (dirs es c xs \<longrightarrow> plain es (c @ xs) ys)"
  by (induction xs arbitrary: c) (auto split: option.splits entry.splits)

lemma dirs_append: "dirs es c (xs @ ys) \<longleftrightarrow> dirs es c xs \<and> dirs es (c @ xs) ys"
  by (induction xs arbitrary: c) auto

lemma walk_plain: "plain es c xs \<Longrightarrow> walk es follow n c (map Normal xs) = Inr q \<Longrightarrow> q = c @ xs"
proof (induction xs arbitrary: c)
  case (Cons x xs)
  show ?case using Cons.prems Cons.IH [of "c @ [x]"] by (auto split: option.splits entry.splits if_splits)
qed simp

lemma walk_dirs: "dirs es c xs \<Longrightarrow> walk es follow n c (map Normal xs @ r) = walk es follow n (c @ xs) r"
  by (induction xs arbitrary: c) auto

text \<open>Only the entries along the way matter.\<close>

lemma plain_cong:
  "(\<And>k. 0 < k \<Longrightarrow> k \<le> length xs \<Longrightarrow> entry_at es (c @ take k xs) = entry_at es' (c @ take k xs)) \<Longrightarrow>
   plain es c xs = plain es' c xs"
proof (induction xs arbitrary: c)
  case (Cons x xs)
  have "entry_at es (c @ [x]) = entry_at es' (c @ [x])" using Cons.prems [of 1] by simp
  moreover have "plain es (c @ [x]) xs = plain es' (c @ [x]) xs"
    using Cons.prems [of "Suc k" for k] by (intro Cons.IH) simp
  ultimately show ?case by (simp split: option.splits entry.splits)
qed simp

section \<open>System calls on plain paths\<close>

text \<open>\<open>same_tree\<close>: only the script of the host has moved on.\<close>

definition same_tree :: "host \<Rightarrow> host \<Rightarrow> bool" where
  "same_tree h t \<longleftrightarrow> t = h\<lparr>events := events t\<rparr>"

lemma same_tree_refl [simp]: "same_tree h h"
  by (simp add: same_tree_def)

lemma same_tree_events [simp]: "same_tree h (h\<lparr>events := es\<rparr>)"
  by (simp add: same_tree_def)

lemma same_tree_trans: "same_tree h t \<Longrightarrow> same_tree t u \<Longrightarrow> same_tree h u"
  unfolding same_tree_def by (metis host.update_convs(2) host.surjective host.ext_inject)

lemma same_tree_parts:
  assumes "same_tree h t"
  shows "entries t = entries h" "cwd t = cwd h" "free_bytes t = free_bytes h" "resolve f p t = resolve f p h"
  using assms by (auto simp: same_tree_def resolve_def) (metis host.select_convs host.surjective host.update_convs(2))+

lemma syscall_cases:
  assumes "syscall f h = (r, t)"
  obtains n where "r = Err n" "n \<noteq> ENOENT" "same_tree h t"
  | e h' where "same_tree h h'" "f e h' = (r, t)"
proof (cases "events h")
  case Nil
  then show ?thesis using assms that(2) [of h Fine] by (simp add: syscall_def)
next
  case (Cons e es)
  let ?h = "h\<lparr>events := es\<rparr>"
  show ?thesis
    using assms Cons that(1) that(2) [of ?h Fine] that(2) [of ?h e]
    by (cases e) (auto simp: syscall_def split: if_splits)
qed

lemma at_path_cases:
  assumes "at_path follow p act h = (r, t)"
  obtains n where "r = Err n" "n \<noteq> ENOENT" "same_tree h t"
  | n where "r = Err n" "resolve follow p h = Inl n" "same_tree h t"
  | q h' where "resolve follow p h = Inr q" "same_tree h h'" "act q (entry_at (entries h) q) h' = (r, t)"
proof -
  from assms show ?thesis
    unfolding at_path_def
    by (elim syscall_cases) (auto simp: same_tree_parts split: sum.splits intro: that)
qed

lemma resolve_absolute:
  "resolve follow (absolute p) h = Inr q \<Longrightarrow> plain (entries h) [] p \<Longrightarrow> q = p"
  by (auto simp: resolve_def absolute_def split: if_splits dest: walk_plain)

lemma resolve_in_dirs:
  assumes "dirs (entries h) [] c" and "resolve False (absolute (c @ [x])) h = r"
  shows "r = Inr (c @ [x]) \<or> (\<exists>n. r = Inl n \<and> n \<noteq> ENOENT)"
  using assms walk_dirs [of "entries h" "[]" c False 40 "[Normal x]"]
  by (auto simp: resolve_def absolute_def split: option.splits entry.splits)

text \<open>What \<open>lstat\<close> says of a name in a real directory.\<close>

lemma lstat_result:
  assumes "dirs (entries h) [] c" and "unless_missing (symlink_metadata (absolute (c @ [x]))) h = (Ok m, t)"
  shows "m = entry_at (entries h) (c @ [x]) \<and> same_tree h t"
proof -
  obtain r u where u: "symlink_metadata (absolute (c @ [x])) h = (r, u)" by fastforce
  from u show ?thesis
    unfolding symlink_metadata_def
  proof (cases rule: at_path_cases)
    case (2 n)
    then show ?thesis
      using assms(2) u resolve_in_dirs [OF assms(1) refl, of x] by (auto simp: unless_missing_def split: if_splits)
  next
    case (3 q h')
    then have "q = c @ [x]" using resolve_in_dirs [OF assms(1)] by blast
    then show ?thesis
      using 3 assms(2) u by (auto simp: unless_missing_def proc_simps split: option.splits if_splits)
  qed (use assms(2) u in \<open>auto simp: unless_missing_def split: if_splits\<close>)
qed

lemma lstat_root: "unless_missing (symlink_metadata [RootDir]) h = (Ok m, t) \<Longrightarrow> m = Some Directory \<and> same_tree h t"
proof -
  assume a: "unless_missing (symlink_metadata [RootDir]) h = (Ok m, t)"
  obtain r u where u: "symlink_metadata [RootDir] h = (r, u)" by fastforce
  from u show ?thesis
    unfolding symlink_metadata_def
  proof (cases rule: at_path_cases)
    case (3 q h')
    then have "q = []" by (auto simp: resolve_def split: if_splits)
    then show ?thesis
      using 3 a u by (auto simp: unless_missing_def proc_simps entry_at_def)
  qed (use a u in \<open>auto simp: unless_missing_def resolve_def path_bytes_def component_bytes_def PATH_MAX_def split: if_splits\<close>)
qed

section \<open>The checks\<close>

lemma join_absolute [simp]: "join (absolute c) [Normal x] = absolute (c @ [x])"
  by (simp add: join_def absolute_def is_absolute_def)

lemma join_absolute_names [simp]: "join (absolute c) (map Normal xs) = absolute (c @ xs)"
proof -
  have "filter (\<lambda>y. y \<noteq> CurDir) (map Normal xs) = map Normal xs" by (induction xs) auto
  moreover have "\<not> is_absolute (map Normal xs)" by (cases xs) (auto simp: is_absolute_def)
  ultimately show ?thesis by (simp add: join_def absolute_def)
qed

lemma ensure_components_plain:
  assumes "ensure_components rel (absolute c) (map Normal xs) h = (Ok u, t)" and "dirs (entries h) [] c"
  shows "same_tree h t \<and> plain (entries h) c xs"
  using assms
proof (induction xs arbitrary: c h)
  case (Cons x xs)
  from Cons.prems(1) obtain m h' where m: "unless_missing (symlink_metadata (absolute (c @ [x]))) h = (Ok m, h')"
    and rest: "(case m of None \<Rightarrow> ret ()
        | Some e \<Rightarrow> if is_symlink e then throw (symlink_path_error (absolute (c @ [x])))
            else if map Normal xs \<noteq> [] \<and> e \<noteq> Directory
            then throw (proto ''backup path component is not a directory: {}'' [show_path (absolute (c @ [x]))])
            else ensure_components rel (absolute (c @ [x])) (map Normal xs)) h' = (Ok u, t)"
    by (simp add: Let_def and_then_Ok_iff) blast
  have e: "m = entry_at (entries h) (c @ [x])" and h': "same_tree h h'" using lstat_result [OF Cons.prems(2) m] by auto
  show ?case
  proof (cases m)
    case None
    then show ?thesis using rest e h' by (simp add: proc_simps)
  next
    case (Some y)
    show ?thesis
    proof (cases "y = Directory")
      case True
      then have "dirs (entries h') [] (c @ [x])"
        using e Some Cons.prems(2) h' by (simp add: dirs_append same_tree_parts)
      from Cons.IH [OF _ this] rest Some True e h' show ?thesis
        by (auto simp: same_tree_parts intro: same_tree_trans)
    next
      case False
      then show ?thesis
        using rest Some e h' by (cases y; cases xs) (auto simp: proc_simps)
    qed
  qed
qed (simp add: proc_simps)

lemma reject_components_plain:
  assumes "reject_components p (absolute c) (map Normal xs) h = (Ok u, t)" and "dirs (entries h) [] c"
  shows "plain (entries h) c xs"
  using assms
proof (induction xs arbitrary: c h)
  case (Cons x xs)
  from Cons.prems(1) obtain m h' where m: "unless_missing (symlink_metadata (absolute (c @ [x]))) h = (Ok m, h')"
    and rest: "(case m of None \<Rightarrow> ret ()
        | Some e \<Rightarrow> if is_symlink e then throw (symlink_path_error (absolute (c @ [x])))
            else reject_components p (absolute (c @ [x])) (map Normal xs)) h' = (Ok u, t)"
    by (simp add: Let_def and_then_Ok_iff) blast
  have e: "m = entry_at (entries h) (c @ [x])" and h': "same_tree h h'" using lstat_result [OF Cons.prems(2) m] by auto
  show ?case
  proof (cases "m = Some Directory")
    case True
    then have "dirs (entries h') [] (c @ [x])" using e Cons.prems(2) h' by (simp add: dirs_append same_tree_parts)
    from Cons.IH [OF _ this] rest True e h' show ?thesis by (auto simp: same_tree_parts)
  next
    case False
    then show ?thesis using rest e by (auto simp: proc_simps split: option.splits entry.splits if_splits)
  qed
qed simp

lemma reject_symlink_plain:
  assumes "reject_symlink_components (absolute p) h = (Ok u, t)"
  shows "plain (entries h) [] p"
proof -
  have "reject_components (absolute p) [] (RootDir # map Normal p) h = (Ok u, t)"
    using assms by (simp add: reject_symlink_components_def is_absolute_def absolute_def proc_simps)
  then obtain m h' where m: "unless_missing (symlink_metadata [RootDir]) h = (Ok m, h')"
    and rest: "(case m of None \<Rightarrow> ret ()
        | Some e \<Rightarrow> if is_symlink e then throw (symlink_path_error [RootDir])
            else reject_components (absolute p) [RootDir] (map Normal p)) h' = (Ok u, t)"
    by (simp add: Let_def and_then_Ok_iff join_def is_absolute_def) blast
  have "m = Some Directory" and h': "same_tree h h'" using lstat_root [OF m] by auto
  then show ?thesis
    using rest reject_components_plain [of "absolute p" "[]" p h' u t] by (simp add: same_tree_parts absolute_def)
qed

text \<open>A path with something that is no directory on the way leads nowhere.\<close>

lemma plain_extend: "plain es [] c \<Longrightarrow> (dirs es [] c \<Longrightarrow> plain es c xs) \<Longrightarrow> plain es [] (c @ xs)"
  by (simp add: plain_append)

lemma plain_front: "plain es [] (c @ xs) \<Longrightarrow> plain es [] c"
  by (simp add: plain_append)

lemma lstat_plain:
  assumes "unless_missing (symlink_metadata (absolute (c @ [x]))) h = (Ok m, t)" and "plain (entries h) [] c"
    and "\<And>e. m = Some e \<Longrightarrow> \<not> is_symlink e"
  shows "plain (entries h) [] (c @ [x])"
  using assms lstat_result [OF _ assms(1)]
  by (intro plain_extend) (auto split: option.splits entry.splits)

section \<open>Where the calls have an effect\<close>

text \<open>Calls that only look.\<close>

lemma at_path_looks:
  assumes "at_path follow p act h = (r, t)" and "\<And>q x h' r' t'. act q x h' = (r', t') \<Longrightarrow> same_tree h' t'"
  shows "same_tree h t"
  using assms(1) by (elim at_path_cases) (auto dest: assms(2) intro: same_tree_trans)

lemma looks:
  "symlink_metadata p h = (r1, t) \<Longrightarrow> same_tree h t"
  "fs_canonicalize p h = (r2, t) \<Longrightarrow> same_tree h t"
  "open_read p h = (r3, t) \<Longrightarrow> same_tree h t"
  "read_dir p h = (r4, t) \<Longrightarrow> same_tree h t"
  unfolding fs_call_defs
  by (erule at_path_looks, auto simp: proc_simps split: option.splits entry.splits)+

lemma fs_looks: "fs m h = (r, t) \<Longrightarrow> (\<And>r'. m h = (r', t) \<Longrightarrow> same_tree h t) \<Longrightarrow> same_tree h t"
  by (auto simp: fs_def split: prod.splits outcome.splits)

lemma unless_missing_looks:
  "unless_missing m h = (r, t) \<Longrightarrow> (\<And>r'. m h = (r', t) \<Longrightarrow> same_tree h t) \<Longrightarrow> same_tree h t"
  by (auto simp: unless_missing_def split: prod.splits outcome.splits if_splits)

text \<open>
  \<open>same_outside d\<close>: no entry but those at and below \<open>d\<close> has changed, and \<open>d\<close> has not become a
  symbolic link.
\<close>

definition same_outside :: "names \<Rightarrow> host \<Rightarrow> host \<Rightarrow> bool" where
  "same_outside d h t \<longleftrightarrow>
     (\<forall>q. \<not> prefix d q \<longrightarrow> entry_at (entries t) q = entry_at (entries h) q) \<and> cwd t = cwd h \<and>
     (\<forall>l. entry_at (entries t) d = Some (Symlink l) \<longrightarrow> entry_at (entries h) d = Some (Symlink l))"

lemma same_outside_refl [simp]: "same_outside d h h"
  by (simp add: same_outside_def)

lemma same_outside_trans: "same_outside d h t \<Longrightarrow> same_outside d t u \<Longrightarrow> same_outside d h u"
  by (simp add: same_outside_def)

lemma same_tree_outside: "same_tree h t \<Longrightarrow> same_outside d h t"
  by (simp add: same_outside_def same_tree_parts)

lemma plain_outside:
  assumes "same_outside (r @ [x]) h t"
  shows "plain (entries t) [] r = plain (entries h) [] r"
proof (rule plain_cong)
  fix k assume "0 < k" "k \<le> length r"
  then have "\<not> prefix (r @ [x]) (take k r)" by (auto dest!: prefix_length_le)
  then show "entry_at (entries t) ([] @ take k r) = entry_at (entries h) ([] @ take k r)"
    using assms by (simp add: same_outside_def)
qed

lemma map_of_filter_keys: "map_of (filter (\<lambda>(k, _). P k) es) q = (if P q then map_of es q else None)"
  by (induction es) auto

lemma put_entry_outside: "prefix d p \<Longrightarrow> \<not> is_symlink x \<Longrightarrow> same_outside d h (put_entry p x h)"
  by (cases x) (auto simp: same_outside_def put_entry_def entry_at_def index_insert_lookup)

lemma drop_entries_outside: "prefix d p \<Longrightarrow> same_outside d h (drop_entries p h)"
  by (auto simp: same_outside_def drop_entries_def entry_at_def map_of_filter_keys dest: prefix_order.trans split: if_splits)

lemma new_directory_outside: "prefix d p \<Longrightarrow> same_outside d h (put_entry p Directory (drop_entries p h))"
  by (rule same_outside_trans [OF drop_entries_outside put_entry_outside]) auto

lemma moved_entries_outside:
  assumes "prefix d s" and "prefix d e" and "\<not> prefix d q \<or> q = d \<and> s \<noteq> d \<and> e \<noteq> d"
  shows "map_of (map (\<lambda>(p, y). (if prefix s p then e @ drop (length s) p else p, y))
           (filter (\<lambda>(p, _). \<not> prefix e p) es)) q = map_of es q"
proof (induction es)
  case (Cons a es)
  obtain p y where a: "a = (p, y)" by fastforce
  have "q \<noteq> p" if "prefix s p \<or> prefix e p"
    using that assms by (auto dest: prefix_order.trans prefix_order.antisym)
  moreover have "q \<noteq> e @ r" for r using assms by (auto simp: prefix_def)
  ultimately show ?case using Cons a by auto
qed simp

lemma at_path_outside:
  assumes "at_path follow (absolute p) act h = (r, t)" and "plain (entries h) [] p"
    and "\<And>x h' r' t'. same_tree h h' \<Longrightarrow> act p x h' = (r', t') \<Longrightarrow> same_outside d h' t'"
  shows "same_outside d h t"
  using assms(1)
proof (cases rule: at_path_cases)
  case (3 q h')
  then have "q = p" using resolve_absolute assms(2) by blast
  then show ?thesis using 3 assms(3) [OF 3(2)] by (auto intro: same_outside_trans same_tree_outside)
qed (auto intro: same_tree_outside)

lemma effects_below:
  assumes "plain (entries h) [] p" and "prefix d p"
  shows "create_dir (absolute p) h = (r1, t) \<Longrightarrow> same_outside d h t"
    and "open_write (absolute p) h = (r2, t) \<Longrightarrow> same_outside d h t"
    and "remove_file (absolute p) h = (r3, t) \<Longrightarrow> same_outside d h t"
    and "remove_dir (absolute p) h = (r4, t) \<Longrightarrow> same_outside d h t"
  unfolding create_dir_def open_write_def remove_file_def remove_dir_def
  by (erule at_path_outside [OF _ assms(1)],
      use assms(2) in \<open>auto simp: proc_simps put_entry_outside new_directory_outside drop_entries_outside
        split: option.splits entry.splits if_splits\<close>)+

lemma remove_each_outside:
  "remove_each qs h = (r, t) \<Longrightarrow> list_all (prefix d) qs \<Longrightarrow> same_outside d h t"
proof (induction qs arbitrary: h)
  case (Cons q qs)
  obtain r1 u where u: "syscall (\<lambda>_. modify (drop_entries q)) h = (r1, u)" by fastforce
  then have "same_outside d h u"
    using Cons.prems(2)
    by (elim syscall_cases)
      (auto simp: proc_simps intro!: same_outside_trans [OF same_tree_outside drop_entries_outside] intro: same_tree_outside)
  then show ?case
    using Cons.prems Cons.IH u by (cases r1) (auto intro: same_outside_trans)
qed (simp add: proc_simps)

lemma remove_dir_all_outside:
  assumes "remove_dir_all (absolute p) h = (r, t)" and "plain (entries h) [] p" and "prefix d p"
  shows "same_outside d h t"
  using assms(1) unfolding remove_dir_all_def
proof (rule at_path_outside [OF _ assms(2)])
  fix x h' r' t'
  assume "(case x of None \<Rightarrow> (Err ENOENT, h')
     | Some Directory \<Rightarrow>
         remove_each (rev (sort_key length (map fst (filter (\<lambda>(r, _). prefix p r) (entries h'))))) h'
     | Some (Symlink _) \<Rightarrow> (Ok (), drop_entries p h')
     | Some _ \<Rightarrow> (Err ENOTDIR, h')) = (r', t')"
  moreover have "list_all (prefix d) (rev (sort_key length (map fst (filter (\<lambda>(r, _). prefix p r) (entries h')))))"
    using assms(3) by (auto simp: list_all_iff dest: prefix_order.trans)
  ultimately show "same_outside d h' t'"
    using assms(3) by (auto simp: drop_entries_outside dest: remove_each_outside split: option.splits entry.splits)
qed

lemma move_entry_outside:
  assumes "prefix d p" and "prefix d q"
  shows "same_outside d h (snd (move_entry p e q h))"
proof (cases "prefix p q \<or> prefix q p")
  case True
  then show ?thesis by (auto simp: move_entry_def Let_def)
next
  case False
  let ?es = "map (\<lambda>(u, y). (if prefix p u then q @ drop (length p) u else u, y)) (filter (\<lambda>(u, _). \<not> prefix q u) (entries h))"
  have "p \<noteq> d" "q \<noteq> d" using False assms by auto
  then have "map_of ?es x = map_of (entries h) x" if "\<not> prefix d x \<or> x = d" for x
    using that by (intro moved_entries_outside [OF assms]) blast
  then have "same_outside d h (h\<lparr>entries := ?es\<rparr>)" by (simp add: same_outside_def entry_at_def)
  then show ?thesis by (simp add: move_entry_def Let_def)
qed

lemma rename_outside:
  assumes "fs_rename (absolute p) (absolute q) h = (r, t)" and "plain (entries h) [] p" and "plain (entries h) [] q"
    and "prefix d p" and "prefix d q"
  shows "same_outside d h t"
  using assms(1) unfolding fs_rename_def
proof (rule at_path_outside [OF _ assms(2)], goal_cases)
  case (1 x h' r' t')
  have e: "e = q" if "resolve False (absolute q) h' = Inr e" for e
    using that 1(1) resolve_absolute [of False q h e] assms(3) by (simp add: same_tree_parts)
  have m: "same_outside d h' (snd (move_entry p y q h'))" for y by (rule move_entry_outside [OF assms(4,5)])
  show ?case
    using 1(2) by (auto dest!: e split: option.splits sum.splits) (metis m snd_conv)
qed

end
