(* ===== verification/Backup_Session.thy ===== *)
theory Backup_Session
  imports Backup_Transfer Backup_Guards
begin

text \<open>
  The dialogue of the backup service (\<open>services/backup2/mod.rs\<close>): the downloads, the commands of the
  device that \<open>run_loop\<close> serves, and the layout of the backup directory. The operations of
  \<open>Mobilebackup2Client\<close> that run this dialogue are in Backup_Operations.
\<close>

section \<open>Numbers and replies\<close>

text \<open>An \<open>f64\<close> is its bit pattern. The integer value of a finite, non-negative, integral one below \<open>2 ^ 64\<close>.\<close>

definition f64_to_u64 :: "u64 \<Rightarrow> nat option" where
  "f64_to_u64 w =
     (let n = unat w; neg = n \<ge> 2 ^ 63; e = n div 2 ^ 52 mod 2048; m = n mod 2 ^ 52 in
      if e = 0 \<and> m = 0 then Some 0
      else if neg \<or> e = 0 \<or> e \<ge> 1087 then None
      else if e \<ge> 1075 then Some ((2 ^ 52 + m) * 2 ^ (e - 1075))
      else if e < 1023 then None
      else if (2 ^ 52 + m) mod 2 ^ (1075 - e) = 0 then Some ((2 ^ 52 + m) div 2 ^ (1075 - e))
      else None)"

definition plist_number_to_u64 :: "plist \<Rightarrow> nat option" where
  "plist_number_to_u64 v = (case v of PInteger n \<Rightarrow> p_unsigned v | PReal w \<Rightarrow> f64_to_u64 w | _ \<Rightarrow> None)"

text \<open>\<open>u64 as f64\<close>: to the nearest, ties to even.\<close>

fun bit_length :: "nat \<Rightarrow> nat" where
  "bit_length n = (if n = 0 then 0 else Suc (bit_length (n div 2)))"

definition u64_to_f64 :: "nat \<Rightarrow> u64" where
  "u64_to_f64 n =
     (if n = 0 then 0
      else let e = bit_length n - 1 in
        if e \<le> 52 then of_nat ((e + 1023) * 2 ^ 52 + (n - 2 ^ e) * 2 ^ (52 - e))
        else let k = e - 52; q = n div 2 ^ k; r = n mod 2 ^ k; half = 2 ^ (k - 1);
                 q' = (if r > half \<or> (r = half \<and> odd q) then q + 1 else q) in
             of_nat ((e + 1023) * 2 ^ 52 + (q' - 2 ^ 52)))"

definition plist_number_to_f64 :: "plist \<Rightarrow> u64 option" where
  "plist_number_to_f64 v = (case v of PInteger n \<Rightarrow> map_option u64_to_f64 (p_unsigned v) | PReal w \<Rightarrow> Some w | _ \<Rightarrow> None)"

definition plist_value_to_bool :: "plist \<Rightarrow> bool option" where
  "plist_value_to_bool v = (case v of
       PBoolean b \<Rightarrow> Some b
     | PInteger _ \<Rightarrow> (case p_signed v of Some n \<Rightarrow> Some (n \<noteq> 0)
                      | None \<Rightarrow> map_option (\<lambda>n. n \<noteq> 0) (p_unsigned v))
     | _ \<Rightarrow> None)"

definition protocol_status_value :: "int \<Rightarrow> plist" where
  "protocol_status_value code = PInteger (code mod 2 ^ 64)"

definition BULK_OPERATION_ERROR :: int where "BULK_OPERATION_ERROR = - 13"
definition PURGE_DISK_SPACE_ERROR :: int where "PURGE_DISK_SPACE_ERROR = - 1"
definition PURGE_REQUEST_OVERSHOOT :: nat where "PURGE_REQUEST_OVERSHOOT = 0x80000000"
definition MB_ERROR_INSUFFICIENT_DISK_SPACE :: nat where "MB_ERROR_INSUFFICIENT_DISK_SPACE = 105"

definition is_sensitive_protocol_key :: "string \<Rightarrow> bool" where
  "is_sensitive_protocol_key key \<longleftrightarrow>
     to_ascii_lowercase key \<in> {''password'', ''oldpassword'', ''newpassword'', ''passcode'', ''unlocktoken'', ''p12'', ''privatekey''}"

fun redacted_protocol_value :: "plist \<Rightarrow> plist" where
  "redacted_protocol_value (PArray vs) = PArray (map redacted_protocol_value vs)"
| "redacted_protocol_value (PDictionary d) = PDictionary (map (\<lambda>(k, v).
     (k, if is_sensitive_protocol_key k then PString ''<redacted>'' else redacted_protocol_value v)) d)"
| "redacted_protocol_value v = v"

definition derive_required_free_space :: "nat option \<Rightarrow> nat option \<Rightarrow> nat option" where
  "derive_required_free_space reported requested =
     Option.bind reported (\<lambda>reported. Option.bind requested (\<lambda>requested.
     if requested < PURGE_REQUEST_OVERSHOOT then None
     else Option.bind (usize_checked_add requested reported) (\<lambda>v. usize_checked_sub v PURGE_REQUEST_OVERSHOOT)))"

definition insufficient_disk_space_error :: "plist \<Rightarrow> nat option \<Rightarrow> nat option \<Rightarrow> backup_error" where
  "insufficient_disk_space_error response reported required = (case (reported, required) of
       (Some reported, Some required) \<Rightarrow>
         BProtocol ''backup process returned ErrorCode={}: device needs more than {required} bytes free, host reported {reported} bytes ({additional} more needed) (MBErrorDomain/{}); {detail}; response: {response:?}''
           [Number MB_ERROR_INSUFFICIENT_DISK_SPACE, Number required, Number reported,
            Number (min usize_MAX (required + 1) - reported), Number MB_ERROR_INSUFFICIENT_DISK_SPACE, Value response]
     | _ \<Rightarrow> BProtocol ''backup process returned ErrorCode={}: {response:?}; {detail}''
              [Number MB_ERROR_INSUFFICIENT_DISK_SPACE, Value response])"

definition file_error_code_from_os_error :: "nat \<Rightarrow> int option" where
  "file_error_code_from_os_error n =
     (if n = 2 then Some (- 6) else if n = 17 then Some (- 7) else if n = 20 then Some (- 8)
      else if n = 21 then Some (- 9) else if n = 62 then Some (- 10) else if n = 5 then Some (- 11)
      else if n = 28 then Some (- 15) else None)"

definition insert_file_failure :: "host_env \<Rightarrow> string \<Rightarrow> nat \<Rightarrow> (string \<times> plist) list \<Rightarrow> (string \<times> plist) list" where
  "insert_file_failure env rel n failures =
     index_insert rel (PDictionary ((''DLFileErrorString'', PString (os_error_text env n)) #
       (case file_error_code_from_os_error n of
          Some code \<Rightarrow> [(''DLFileErrorCode'', protocol_status_value code)] | None \<Rightarrow> []))) failures"

definition send_status_response_value :: "host_env \<Rightarrow> plist \<Rightarrow> string \<Rightarrow> plist \<Rightarrow> unit client_proc" where
  "send_status_response_value env status_code status_message status_payload =
     on_link (send_message (to_xml env) (PArray [PString ''DLMessageStatusResponse'', status_code,
       PString (if status_message = [] then ''___EmptyParameterString___'' else status_message), status_payload]))"

definition send_status_response :: "host_env \<Rightarrow> int \<Rightarrow> string \<Rightarrow> plist \<Rightarrow> unit client_proc" where
  "send_status_response env status_code = send_status_response_value env (protocol_status_value status_code)"

section \<open>Downloads\<close>

text \<open>
  One piece of a file: \<open>Inl\<close> ends the file, with the error number of a failed read, and \<open>Inr\<close> is the
  offset of the next piece.
\<close>

definition send_piece :: "names \<Rightarrow> nat \<Rightarrow> (nat option + nat) client_proc" where
  "send_piece file off =
     and_then (try_proc (on_disk (fs (read_file_at file off DOWNLOAD_CHUNK_SIZE)))) (\<lambda>r. case r of
         Inl e \<Rightarrow> (case e of BIo (Os n) \<Rightarrow> ret (Inl (Some n)) | _ \<Rightarrow> throw e)
       | Inr buf \<Rightarrow>
           if buf = [] then ret (Inl None)
           else and_then (account_transfer_bytes (length buf)) (\<lambda>_.
                and_then (write_transfer_frame FILE_TRANSFER_CODE_FILE_DATA buf) (\<lambda>_.
                ret (Inr (off + length buf)))))"

lemma keeps_try [keeps_intros]: "keeps I m \<Longrightarrow> keeps I (try_proc m)"
  by (force simp: keeps_def try_proc_def split: prod.splits outcome.splits)

lemma try_proc_Ok_iff:
  "try_proc m s = (Ok r, t) \<longleftrightarrow> (\<exists>x. r = Inr x \<and> m s = (Ok x, t)) \<or> (\<exists>e. r = Inl e \<and> m s = (Err e, t))"
  by (auto simp: try_proc_def split: prod.splits outcome.splits)

lemma on_disk_Ok_iff: "on_disk m s = (Ok x, t) \<longleftrightarrow> (\<exists>h. m (disk s) = (Ok x, h) \<and> t = set_disk h s)"
  by (auto simp: on_disk_def on_stream_def split: prod.splits outcome.splits)

lemma fs_Ok_iff: "fs m h = (Ok x, t) \<longleftrightarrow> m h = (Ok x, t)"
  by (auto simp: fs_def split: prod.splits outcome.splits)

lemma read_file_at_Ok:
  assumes "read_file_at q off n h = (Ok bs, t)"
  shows "\<exists>k. bs = take k (drop off (file_bytes q h)) \<and> k \<le> n \<and> (0 < n \<longrightarrow> 0 < k) \<and> same_tree h t"
proof -
  from assms obtain e h' where h': "same_tree h h'" "t = h'" 
    "bs = take (case e of Short k \<Rightarrow> min n (Suc k) | _ \<Rightarrow> n) (drop off (file_bytes q h'))"
    unfolding read_file_at_def
    by (elim syscall_cases) (auto split: option.splits entry.splits)
  then show ?thesis
    by (intro exI [of _ "case e of Short k \<Rightarrow> min n (Suc k) | _ \<Rightarrow> n"])
      (simp add: file_bytes_def same_tree_parts split: fs_event.splits)
qed

definition unread :: "names \<Rightarrow> nat \<Rightarrow> backup_client \<Rightarrow> nat" where
  "unread q off s = length (file_bytes q (disk s)) - off"

text \<open>A piece that is followed by another: bytes of the file were read, accounted for and sent.\<close>

lemma send_piece_more:
  assumes "send_piece q off s = (Ok (Inr off'), t)"
  obtains buf h where "read_file_at q off DOWNLOAD_CHUNK_SIZE (disk s) = (Ok buf, h)" "buf \<noteq> []" "off' = off + length buf"
    "and_then (account_transfer_bytes (length buf)) (\<lambda>_. write_transfer_frame FILE_TRANSFER_CODE_FILE_DATA buf) (set_disk h s) = (Ok (), t)"
proof -
  from assms obtain r u where u: "try_proc (on_disk (fs (read_file_at q off DOWNLOAD_CHUNK_SIZE))) s = (Ok r, u)"
    and rest: "(case r of Inl e \<Rightarrow> (case e of BIo (Os n) \<Rightarrow> ret (Inl (Some n)) | _ \<Rightarrow> throw e)
       | Inr buf \<Rightarrow>
           if buf = [] then ret (Inl None)
           else and_then (account_transfer_bytes (length buf)) (\<lambda>_.
                and_then (write_transfer_frame FILE_TRANSFER_CODE_FILE_DATA buf) (\<lambda>_.
                ret (Inr (off + length buf))))) u = (Ok (Inr off'), t)"
    unfolding send_piece_def and_then_Ok_iff [of "try_proc _"] by (elim exE conjE) (rule that)
  show thesis
  proof (cases r)
    case (Inl e)
    then show thesis
      using rest by (auto simp: ret_def throw_def split: backup_error.splits io_failure.splits)
  next
    case (Inr buf)
    with u obtain h where h: "read_file_at q off DOWNLOAD_CHUNK_SIZE (disk s) = (Ok buf, h)" "u = set_disk h s"
      by (auto simp: try_proc_Ok_iff on_disk_Ok_iff fs_Ok_iff)
    have "buf \<noteq> []" using rest Inr by (auto simp: ret_def)
    then have "and_then (account_transfer_bytes (length buf)) (\<lambda>_.
        and_then (write_transfer_frame FILE_TRANSFER_CODE_FILE_DATA buf) (\<lambda>_. ret (Inr (off + length buf) :: nat option + nat))) u = (Ok (Inr off'), t)"
      using rest Inr by simp
    then have "and_then (account_transfer_bytes (length buf)) (\<lambda>_. write_transfer_frame FILE_TRANSFER_CODE_FILE_DATA buf) u = (Ok (), t)"
      and "off' = off + length buf"
      by (auto simp: and_then_Ok_iff ret_def)
    then show thesis using that [OF h(1) \<open>buf \<noteq> []\<close>] h(2) by simp
  qed
qed

lemma send_piece_progress:
  assumes "send_piece q off s = (Ok (Inr off'), t)"
  shows "unread q off' t < unread q off s"
  using assms
proof (rule send_piece_more)
  fix buf h
  assume h: "read_file_at q off DOWNLOAD_CHUNK_SIZE (disk s) = (Ok buf, h)" "buf \<noteq> []" "off' = off + length buf"
    and rest: "and_then (account_transfer_bytes (length buf)) (\<lambda>_. write_transfer_frame FILE_TRANSFER_CODE_FILE_DATA buf) (set_disk h s) = (Ok (), t)"
  have k: "keeps (\<lambda>s. disk s = h) (and_then (account_transfer_bytes (length buf)) (\<lambda>_. write_transfer_frame FILE_TRANSFER_CODE_FILE_DATA buf))"
    unfolding write_transfer_frame_def by (intro keeps_intros)
  have "disk t = h"
    using keepsD [where I = "\<lambda>s. disk s = h", OF k _ rest] by (simp add: set_disk_def)
  moreover obtain k where k: "buf = take k (drop off (file_bytes q (disk s)))" and "same_tree (disk s) h"
    using read_file_at_Ok [OF h(1)] by blast
  then have "entries h = entries (disk s)" by (simp add: same_tree_parts)
  ultimately have same: "file_bytes q (disk t) = file_bytes q (disk s)" by (simp add: file_bytes_def)
  have "0 < length buf" using h(2) by simp
  moreover have "length buf \<le> length (file_bytes q (disk s)) - off" using arg_cong [OF k, of length] by simp
  ultimately show ?thesis unfolding unread_def h(3) same by linarith
qed

function send_pieces :: "names \<Rightarrow> nat \<Rightarrow> nat option client_proc" where
  "send_pieces file off s =
     and_then (send_piece file off) (\<lambda>r t. case r of Inl e \<Rightarrow> (Ok e, t) | Inr off' \<Rightarrow> send_pieces file off' t) s"
  by pat_completeness auto
termination
  by (relation "measure (\<lambda>(file, off, s). unread file off s)") (auto dest: send_piece_progress)

declare send_pieces.simps [simp del]

definition send_requested_file ::
    "host_env \<Rightarrow> backup_layout \<Rightarrow> plist \<Rightarrow> (string \<times> plist) list \<Rightarrow> (string \<times> plist) list client_proc" where
  "send_requested_file env lay file failures =
     and_then (check (\<lambda>_. ok_or (BProtocol ''download file path was not a string: {file:?}'' [Value file]) (p_string file))) (\<lambda>rel.
     and_then (on_disk (resolve_relative_path lay rel)) (\<lambda>local_path.
     and_then account_transfer_file (\<lambda>_.
     and_then (write_prefixed_string rel) (\<lambda>_.
     let failed = (\<lambda>n. and_then (write_transfer_frame FILE_TRANSFER_CODE_LOCAL_ERROR (ascii (os_error_text env n)))
                         (\<lambda>_. ret (insert_file_failure env rel n failures))) in
     and_then (try_proc (on_disk (open_layout_file_for_read lay local_path))) (\<lambda>r. case r of
         Inl e \<Rightarrow> (case e of BIo (Os n) \<Rightarrow> failed n | _ \<Rightarrow> throw e)
       | Inr q \<Rightarrow>
           and_then (send_pieces q 0) (\<lambda>e. case e of
               Some n \<Rightarrow> failed n
             | None \<Rightarrow> and_then (write_transfer_frame FILE_TRANSFER_CODE_SUCCESS []) (\<lambda>_. ret failures)))))))"

fun send_each_requested ::
    "host_env \<Rightarrow> backup_layout \<Rightarrow> plist list \<Rightarrow> (string \<times> plist) list \<Rightarrow> (string \<times> plist) list client_proc" where
  "send_each_requested env lay [] failures = ret failures"
| "send_each_requested env lay (f # files) failures =
     and_then (send_requested_file env lay f failures) (send_each_requested env lay files)"

definition send_requested_files ::
    "host_env \<Rightarrow> backup_layout \<Rightarrow> plist list \<Rightarrow> (int \<times> string \<times> plist) client_proc" where
  "send_requested_files env lay files =
     and_then (send_each_requested env lay files []) (\<lambda>failures.
     and_then (on_io (sock_write_all (to_be32 0))) (\<lambda>_.
     and_then (on_io sock_flush) (\<lambda>_.
     if failures = [] then ret (0, [], PDictionary [])
     else ret (BULK_OPERATION_ERROR, ''Multi status'', PDictionary failures))))"

section \<open>The commands of the device\<close>

definition device_file_type :: "entry \<Rightarrow> string" where
  "device_file_type e =
     (if is_symlink e then ''DLFileTypeUnknown'' else if e = Directory then ''DLFileTypeDirectory''
      else if is_file e then ''DLFileTypeRegular'' else ''DLFileTypeUnknown'')"

fun list_entries ::
    "host_env \<Rightarrow> path \<Rightarrow> names \<Rightarrow> (string \<times> plist) list \<Rightarrow> (string \<times> plist) list host_proc" where
  "list_entries env p [] listing = ret listing"
| "list_entries env p (name # names) listing =
     (let entry_path = join p [Normal name] in
      and_then (fs (symlink_metadata entry_path)) (\<lambda>e.
      list_entries env p names (index_insert (text_of (utf8_lossy (ascii name)))
        (PDictionary [(''DLFileType'', PString (device_file_type e)),
           (''DLFileSize'', PInteger (int (if is_file e then entry_len e else inode_size env entry_path))),
           (''DLFileModificationDate'', PDate (modification_date env entry_path))]) listing)))"

definition contents_of_directory :: "host_env \<Rightarrow> path \<Rightarrow> path \<Rightarrow> (string \<times> plist) list host_proc" where
  "contents_of_directory env root p =
     and_then (check (\<lambda>_. ok_or (proto ''backup directory is outside backup root: {}'' [show_path p]) (strip_prefix p root))) (\<lambda>relative.
     and_then (ensure_no_symlink_components_at_root root relative) (\<lambda>_.
     and_then (fs (symlink_metadata p)) (\<lambda>e.
     if is_symlink e then throw (symlink_path_error p)
     else if e \<noteq> Directory then throw (proto ''backup directory path is not a directory: {}'' [show_path p])
     else and_then (fs (read_dir p)) (\<lambda>names. list_entries env p names []))))"

text \<open>\<open>statvfs\<close> of the directory, or of its parent when it is none.\<close>

definition available_space :: "path \<Rightarrow> nat host_proc" where
  "available_space p =
     and_then (fs (path_is_dir p)) (\<lambda>dir.
     let probe = (if dir then p else case parent p of Some q \<Rightarrow> q | None \<Rightarrow> p) in
     fs (at_path True probe (\<lambda>_ x h. case x of None \<Rightarrow> (Err ENOENT, h) | Some _ \<Rightarrow> (Ok (free_bytes h), h))))"

definition is_missing :: "path \<Rightarrow> bool host_proc" where
  "is_missing p h = (case symlink_metadata p h of (Err n, t) \<Rightarrow> (Ok (n = ENOENT), t) | (_, t) \<Rightarrow> (Ok False, t))"

definition bad_message :: "string \<Rightarrow> plist \<Rightarrow> backup_error" where
  "bad_message msg message = BProtocol msg [Value (redacted_protocol_value message)]"

definition argument :: "nat \<Rightarrow> (plist \<Rightarrow> 'a option) \<Rightarrow> string \<Rightarrow> plist \<Rightarrow> plist list \<Rightarrow> 'a client_proc" where
  "argument i kind msg message parts = check (\<lambda>_. ok_or (bad_message msg message) (Option.bind (element i parts) kind))"

definition acknowledge :: "host_env \<Rightarrow> unit client_proc" where
  "acknowledge env = send_status_response env 0 [] (PDictionary [])"

definition handle_process_message :: "plist \<Rightarrow> plist list \<Rightarrow> plist option client_proc" where
  "handle_process_message message parts =
     and_then (argument 1 p_dictionary ''process message missing dictionary payload: {:?}'' message parts) (\<lambda>payload.
     and_then (check (\<lambda>_. ok_or (bad_message ''backup process response missing numeric ErrorCode: {:?}'' (PDictionary payload))
                 (Option.bind (map_of payload ''ErrorCode'') plist_number_to_u64))) (\<lambda>error_code.
     reading (\<lambda>s.
     let safe_payload = redacted_protocol_value (PDictionary payload) in
     if error_code = MB_ERROR_INSUFFICIENT_DISK_SPACE
     then throw (insufficient_disk_space_error safe_payload (reported_free_space s) (required_free_space s))
     else if error_code \<noteq> 0
     then throw (BProtocol ''backup process returned ErrorCode={error_code}: {safe_payload:?}'' [Number error_code, Value safe_payload])
     else ret (map_of payload ''Content''))))"

definition handle_create_directory :: "host_env \<Rightarrow> backup_layout \<Rightarrow> plist \<Rightarrow> plist list \<Rightarrow> unit client_proc" where
  "handle_create_directory env lay message parts =
     and_then (argument 1 p_string ''create directory missing path: {:?}'' message parts) (\<lambda>p.
     and_then (on_disk (resolve_relative_path lay p)) (\<lambda>directory.
     and_then (on_disk (create_layout_directory lay directory)) (\<lambda>_.
     acknowledge env)))"

definition handle_upload_files :: "host_env \<Rightarrow> backup_layout \<Rightarrow> unit client_proc" where
  "handle_upload_files env lay = and_then (receive_uploaded_files lay) (\<lambda>_. acknowledge env)"

definition handle_download_files :: "host_env \<Rightarrow> backup_layout \<Rightarrow> plist \<Rightarrow> plist list \<Rightarrow> unit client_proc" where
  "handle_download_files env lay message parts =
     and_then (argument 1 p_array ''download files missing array payload: {:?}'' message parts) (\<lambda>files.
     and_then (send_requested_files env lay files) (\<lambda>(status_code, status_message, status_payload).
     send_status_response env status_code status_message status_payload))"

definition handle_get_free_disk_space :: "host_env \<Rightarrow> backup_layout \<Rightarrow> unit client_proc" where
  "handle_get_free_disk_space env lay =
     and_then (on_disk (available_space (device_directory lay))) (\<lambda>free.
     and_then (modify (\<lambda>s. s\<lparr>reported_free_space := Some free\<rparr>)) (\<lambda>_.
     send_status_response env 0 [] (PInteger (int free))))"

text \<open>With a filter, a source that is missing was discarded and its move or copy is skipped.\<close>

definition move_path :: "backup_layout \<Rightarrow> bool \<Rightarrow> string \<Rightarrow> string \<Rightarrow> (path \<times> path \<times> bool) option host_proc" where
  "move_path lay filtered src dst =
     and_then (resolve_relative_path lay src) (\<lambda>src_path.
     and_then (resolve_relative_path lay dst) (\<lambda>dst_path.
     and_then (if filtered then is_missing src_path else ret False) (\<lambda>skip.
     if skip then ret None
     else
       and_then (create_layout_parent_directory lay dst_path) (\<lambda>_.
       and_then (fs (symlink_metadata src_path)) (\<lambda>e.
       and_then (rename_layout_path lay src_path dst_path) (\<lambda>_.
       ret (Some (src_path, dst_path, e = Directory))))))))"

definition move_item :: "backup_layout \<Rightarrow> plist \<Rightarrow> string \<times> plist \<Rightarrow> unit client_proc" where
  "move_item lay message item =
     and_then (check (\<lambda>_. ok_or (BProtocol ''move target for {src} was not a string: {:?}''
                   [Text (fst item), Value (redacted_protocol_value message)]) (p_string (snd item)))) (\<lambda>dst.
     reading (\<lambda>s.
     and_then (on_disk (move_path lay (backup_filter s \<noteq> None) (fst item) dst)) (\<lambda>m. case m of
         None \<Rightarrow> ret ()
       | Some (src_path, dst_path, is_directory) \<Rightarrow> modify (relocate_discarded_files src_path dst_path is_directory))))"

definition handle_move_items :: "host_env \<Rightarrow> backup_layout \<Rightarrow> plist \<Rightarrow> plist list \<Rightarrow> unit client_proc" where
  "handle_move_items env lay message parts =
     and_then (argument 1 p_dictionary ''move items missing mapping payload: {:?}'' message parts) (\<lambda>items.
     and_then (for_each (move_item lay message) items) (\<lambda>_.
     acknowledge env))"

definition remove_item :: "backup_layout \<Rightarrow> plist \<Rightarrow> plist \<Rightarrow> unit client_proc" where
  "remove_item lay message item =
     and_then (check (\<lambda>_. ok_or (bad_message ''remove item path was not a string: {:?}'' message) (p_string item))) (\<lambda>rel.
     and_then (on_disk (resolve_relative_path lay rel)) (\<lambda>target.
     and_then (on_disk (remove_layout_path lay target)) (\<lambda>_.
     modify (forget_discarded_files target))))"

definition handle_remove_items :: "host_env \<Rightarrow> backup_layout \<Rightarrow> plist \<Rightarrow> plist list \<Rightarrow> unit client_proc" where
  "handle_remove_items env lay message parts =
     and_then (argument 1 p_array ''remove items missing array payload: {:?}'' message parts) (\<lambda>items.
     and_then (for_each (remove_item lay message) items) (\<lambda>_.
     acknowledge env))"

definition handle_contents_of_directory :: "host_env \<Rightarrow> backup_layout \<Rightarrow> plist \<Rightarrow> plist list \<Rightarrow> unit client_proc" where
  "handle_contents_of_directory env lay message parts =
     and_then (argument 1 p_string ''contents-of-directory missing path: {:?}'' message parts) (\<lambda>rel.
     and_then (on_disk (resolve_relative_path lay rel)) (\<lambda>p.
     and_then (on_disk (contents_of_directory env (layout_root lay) p)) (\<lambda>listing.
     send_status_response env 0 [] (PDictionary listing))))"

definition copy_path :: "backup_layout \<Rightarrow> bool \<Rightarrow> string \<Rightarrow> string \<Rightarrow> (path \<times> path \<times> bool) option host_proc" where
  "copy_path lay filtered src dst =
     and_then (resolve_relative_path lay src) (\<lambda>src_path.
     and_then (resolve_relative_path lay dst) (\<lambda>dst_path.
     and_then (if filtered then is_missing src_path else ret False) (\<lambda>skip.
     if skip then ret None
     else
       and_then (fs (symlink_metadata src_path)) (\<lambda>e.
       and_then (copy_item (layout_root lay) src_path dst_path) (\<lambda>_.
       ret (Some (src_path, dst_path, e = Directory)))))))"

definition handle_copy_item :: "host_env \<Rightarrow> backup_layout \<Rightarrow> plist \<Rightarrow> plist list \<Rightarrow> unit client_proc" where
  "handle_copy_item env lay message parts =
     and_then (argument 1 p_string ''copy item missing source: {:?}'' message parts) (\<lambda>src.
     and_then (argument 2 p_string ''copy item missing destination: {:?}'' message parts) (\<lambda>dst.
     reading (\<lambda>s.
     and_then (on_disk (copy_path lay (backup_filter s \<noteq> None) src dst)) (\<lambda>m.
     and_then (case m of
         None \<Rightarrow> ret ()
       | Some (src_path, dst_path, is_directory) \<Rightarrow> modify (copy_discarded_files src_path dst_path is_directory)) (\<lambda>_.
     acknowledge env)))))"

definition handle_purge_disk_space :: "host_env \<Rightarrow> plist list \<Rightarrow> unit client_proc" where
  "handle_purge_disk_space env parts =
     (let requested = Option.bind (element 1 parts) plist_number_to_u64 in
      and_then (modify (\<lambda>s. s\<lparr>required_free_space := derive_required_free_space (reported_free_space s) requested\<rparr>)) (\<lambda>_.
      send_status_response_value env (protocol_status_value PURGE_DISK_SPACE_ERROR) ''DLPurgeDiskSpace failed to purge'' (PInteger 0)))"

text \<open>One message of the device: \<open>Some\<close> result ends the loop.\<close>

definition go_on :: "unit client_proc \<Rightarrow> plist option option client_proc" where
  "go_on m = and_then m (\<lambda>_. ret None)"

definition dispatch_command ::
    "host_env \<Rightarrow> backup_layout \<Rightarrow> plist \<Rightarrow> plist list \<Rightarrow> string \<Rightarrow> plist option option client_proc" where
  "dispatch_command env lay message parts command =
     (if command = ''DLMessageProcessMessage'' then and_then (handle_process_message message parts) (\<lambda>c. ret (Some c))
      else if command = ''DLMessageCreateDirectory'' then go_on (handle_create_directory env lay message parts)
      else if command = ''DLMessageUploadFiles'' then go_on (handle_upload_files env lay)
      else if command = ''DLMessageDownloadFiles'' then go_on (handle_download_files env lay message parts)
      else if command = ''DLMessageGetFreeDiskSpace'' then go_on (handle_get_free_disk_space env lay)
      else if command = ''DLMessageMoveItems'' \<or> command = ''DLMessageMoveFiles'' then go_on (handle_move_items env lay message parts)
      else if command = ''DLMessageRemoveItems'' \<or> command = ''DLMessageRemoveFiles'' then go_on (handle_remove_items env lay message parts)
      else if command = ''DLContentsOfDirectory'' then go_on (handle_contents_of_directory env lay message parts)
      else if command = ''DLMessageCopyItem'' then go_on (handle_copy_item env lay message parts)
      else if command = ''DLMessagePurgeDiskSpace'' then go_on (handle_purge_disk_space env parts)
      else throw (BProtocol ''unsupported backup device-link command {other}: {:?}''
                    [Text command, Value (redacted_protocol_value message)]))"

definition serve_message :: "host_env \<Rightarrow> backup_layout \<Rightarrow> plist option option client_proc" where
  "serve_message env lay =
     and_then (on_link (recv_message (from_bytes env))) (\<lambda>message.
     and_then (check (\<lambda>_. ok_or (bad_message ''device link loop expected array message, got {:?}'' message) (p_array message))) (\<lambda>parts.
     and_then (check (\<lambda>_. ok_or (bad_message ''device link message missing command: {:?}'' message) (message_type parts))) (\<lambda>command.
     dispatch_command env lay message parts command)))"

end
