(* ===== verification/Backup_Confined.thy ===== *)
theory Backup_Confined
  imports Backup_Session
begin

text \<open>
  The file operations of the backup service stay inside the directory of the device. For a directory
  \<open>d\<close>, \<open>safe d m h\<close> says two things of running \<open>m\<close> on the host \<open>h\<close>: no entry outside of \<open>d\<close> changes,
  and nothing outside of \<open>d\<close> but the directories above it makes a difference, that is, on a host
  without those entries the same happens.
\<close>

section \<open>The relevant part of the host\<close>

definition relevant :: "names \<Rightarrow> names \<Rightarrow> bool" where
  "relevant d q \<longleftrightarrow> prefix d q \<or> prefix q d"

definition restrict :: "names \<Rightarrow> host \<Rightarrow> host" where
  "restrict d h = h\<lparr>entries := filter (\<lambda>(q, _). relevant d q) (entries h)\<rparr>"

definition safe :: "names \<Rightarrow> (host, 'e, 'a) proc \<Rightarrow> host \<Rightarrow> bool" where
  "safe d m h \<longleftrightarrow> m (restrict d h) = map_prod id (restrict d) (m h) \<and> same_outside d h (snd (m h))"

lemma restrict_simps [simp]:
  "entries (restrict d h) = filter (\<lambda>(q, _). relevant d q) (entries h)"
  "events (restrict d h) = events h" "cwd (restrict d h) = cwd h" "free_bytes (restrict d h) = free_bytes h"
  "restrict d (h\<lparr>events := es\<rparr>) = (restrict d h)\<lparr>events := es\<rparr>"
  by (simp_all add: restrict_def)

lemma entry_at_restrict [simp]: "relevant d q \<Longrightarrow> entry_at (filter (\<lambda>(q, _). relevant d q) es) q = entry_at es q"
  by (simp add: entry_at_def map_of_filter_keys)

lemma relevant_prefix: "relevant d p \<Longrightarrow> prefix q p \<Longrightarrow> relevant d q"
  unfolding relevant_def by (metis prefix_order.trans prefix_same_cases)

lemma relevant_below [simp]: "prefix d p \<Longrightarrow> relevant d p"
  by (simp add: relevant_def)

lemma relevant_above [simp]: "relevant (r @ xs) r"
  by (simp add: relevant_def)

subsection \<open>Composition\<close>

lemma safe_ret: "safe d (ret x) h"
  by (simp add: safe_def ret_def)

lemma safe_throw: "safe d (throw e) h"
  by (simp add: safe_def throw_def)

lemma safe_check: "safe d (check (\<lambda>_. g)) h"
  by (simp add: safe_def check_def split: sum.splits)

lemma safe_and_then:
  assumes "safe d m h" and "\<And>x t. m h = (Ok x, t) \<Longrightarrow> safe d (f x) t"
  shows "safe d (and_then m f) h"
proof -
  obtain r t where t: "m h = (r, t)" by fastforce
  then have m: "m (restrict d h) = (r, restrict d t)" "same_outside d h t" using assms(1) by (auto simp: safe_def)
  show ?thesis
  proof (cases r)
    case (Ok x)
    then show ?thesis using t m assms(2) [of x t] by (auto simp: safe_def intro: same_outside_trans)
  qed (use t m in \<open>auto simp: safe_def\<close>)
qed

lemma safe_fs: "safe d m h \<Longrightarrow> safe d (fs m) h"
  by (auto simp: safe_def fs_def split: prod.splits outcome.splits)

lemma safe_unless_missing: "safe d m h \<Longrightarrow> safe d (unless_missing m) h"
  by (auto simp: safe_def unless_missing_def split: prod.splits outcome.splits)

lemma safe_outside: "safe d m h \<Longrightarrow> m h = (r, t) \<Longrightarrow> same_outside d h t"
  by (simp add: safe_def)

lemma safe_for_each:
  assumes "\<And>x h. x \<in> set xs \<Longrightarrow> C h \<Longrightarrow> safe d (f x) h" and "\<And>x h u t. x \<in> set xs \<Longrightarrow> C h \<Longrightarrow> f x h = (Ok u, t) \<Longrightarrow> C t" and "C h"
  shows "safe d (for_each f xs) h"
  using assms
proof (induction xs arbitrary: h)
  case (Cons x xs)
  show ?case
    unfolding for_each.simps
  proof (rule safe_and_then)
    fix u t assume "f x h = (Ok u, t)"
    then have "C t" using Cons.prems(2) [of x h u t] Cons.prems(3) by simp
    moreover have "C v" if "y \<in> set xs" "C g" "f y g = (Ok w, v)" for y g w v
      using Cons.prems(2) [of y g w v] that by simp
    ultimately show "safe d (for_each f xs) t" using Cons.prems(1) by (intro Cons.IH) auto
  qed (use Cons.prems in auto)
qed (simp add: safe_ret)

section \<open>System calls\<close>

lemma syscall_safe:
  assumes "\<And>e h'. same_tree h h' \<Longrightarrow> safe d (f e) h'"
  shows "safe d (syscall f) h"
proof (cases "events h")
  case Nil
  then show ?thesis using assms [of h Fine] by (simp add: safe_def syscall_def)
next
  case (Cons e es)
  have "same_outside d h u" if "same_outside d (h\<lparr>events := es\<rparr>) u" for u
    using that same_outside_trans [OF same_tree_outside] same_tree_events by blast
  moreover have "safe d (f x) (h\<lparr>events := es\<rparr>)" for x by (rule assms) simp
  ultimately show ?thesis
    using Cons same_tree_outside [OF same_tree_events, of d h es]
    by (cases e) (auto simp: safe_def syscall_def)
qed

text \<open>Resolution that meets no symbolic link looks only at the names on its way.\<close>

lemma walk_reaches: "plain es c (butlast xs) \<Longrightarrow> walk es False n c (map Normal xs) = Inr q \<Longrightarrow> q = c @ xs"
proof (induction xs arbitrary: c)
  case (Cons x xs)
  show ?case
    using Cons.prems Cons.IH [of "c @ [x]"]
    by (cases xs) (auto split: option.splits entry.splits if_splits)
qed simp

lemma walk_restrict:
  assumes "plain es c (if follow then xs else butlast xs)" and "relevant d (c @ xs)"
  shows "walk (filter (\<lambda>(q, _). relevant d q) es) follow n c (map Normal xs) = walk es follow n c (map Normal xs)"
  using assms
proof (induction xs arbitrary: c)
  case (Cons x xs)
  have "relevant d (c @ [x])" by (rule relevant_prefix [OF Cons.prems(2)]) simp
  then have e: "entry_at (filter (\<lambda>(q, _). relevant d q) es) (c @ [x]) = entry_at es (c @ [x])" by simp
  have IH: "walk (filter (\<lambda>(q, _). relevant d q) es) follow n (c @ [x]) (map Normal xs) = walk es follow n (c @ [x]) (map Normal xs)"
    if "entry_at es (c @ [x]) = Some Directory"
    using that Cons.prems by (intro Cons.IH) (cases xs; auto split: if_splits)+
  show ?case
    using Cons.prems(1) e IH by (cases xs) (auto split: option.splits entry.splits if_splits)
qed simp

definition reaches :: "host \<Rightarrow> bool \<Rightarrow> names \<Rightarrow> bool" where
  "reaches h follow p \<longleftrightarrow> plain (entries h) [] (if follow then p else butlast p)"

lemma plain_reaches: "plain (entries h) [] p \<Longrightarrow> reaches h follow p"
  by (cases p rule: rev_cases) (auto simp: reaches_def dest: plain_front)

lemma resolve_reaches: "reaches h follow p \<Longrightarrow> resolve follow (absolute p) h = Inr q \<Longrightarrow> q = p"
  by (auto simp: reaches_def resolve_def absolute_def split: if_splits dest: walk_plain walk_reaches)

lemma resolve_restrict:
  "reaches h follow p \<Longrightarrow> relevant d p \<Longrightarrow> resolve follow (absolute p) (restrict d h) = resolve follow (absolute p) h"
  using walk_restrict [of "entries h" "[]" follow p d 40] by (simp add: reaches_def resolve_def absolute_def)

lemma at_path_safe:
  assumes "reaches h follow p" and "relevant d p"
    and "\<And>x h'. same_tree h h' \<Longrightarrow> x = entry_at (entries h) p \<Longrightarrow> safe d (act p x) h'"
  shows "safe d (at_path follow (absolute p) act) h"
  unfolding at_path_def
proof (rule syscall_safe)
  fix h' assume h': "same_tree h h'"
  then have r: "reaches h' follow p" using assms(1) by (simp add: reaches_def same_tree_parts)
  have "safe d (act p (entry_at (entries h') p)) h'" using assms(3) h' by (simp add: same_tree_parts)
  then show "safe d (\<lambda>h. case resolve follow (absolute p) h of Inl n \<Rightarrow> (Err n, h)
      | Inr q \<Rightarrow> act q (entry_at (entries h) q) h) h'"
    using resolve_restrict [OF r assms(2)] resolve_reaches [OF r] assms(2)
    by (cases "resolve follow (absolute p) h'") (auto simp: safe_def)
qed

lemma index_insert_filter: "P k \<Longrightarrow> filter (\<lambda>(q, _). P q) (index_insert k v es) = index_insert k v (filter (\<lambda>(q, _). P q) es)"
  by (induction k v es rule: index_insert.induct) auto

lemma put_entry_restrict: "relevant d q \<Longrightarrow> put_entry q x (restrict d h) = restrict d (put_entry q x h)"
  by (simp add: put_entry_def restrict_def index_insert_filter)

lemma drop_entries_restrict: "drop_entries q (restrict d h) = restrict d (drop_entries q h)"
  by (simp add: drop_entries_def restrict_def conj_commute)

lemma safe_put: "prefix d q \<Longrightarrow> \<not> is_symlink x \<Longrightarrow> safe d (modify (put_entry q x)) h"
  by (simp add: safe_def modify_def put_entry_restrict put_entry_outside)

lemma safe_new_directory: "prefix d q \<Longrightarrow> safe d (modify (\<lambda>h. put_entry q Directory (drop_entries q h))) h"
  by (simp add: safe_def modify_def put_entry_restrict drop_entries_restrict new_directory_outside)

lemma safe_drop: "prefix d q \<Longrightarrow> safe d (modify (drop_entries q)) h"
  by (simp add: safe_def modify_def drop_entries_restrict drop_entries_outside)

lemma prefix_butlast: "prefix d (butlast a) \<Longrightarrow> prefix d a"
  by (metis prefixeq_butlast prefix_order.trans)

lemma children_restrict: "prefix d p \<Longrightarrow> children (filter (\<lambda>(q, _). relevant d q) es) p = children es p"
  unfolding children_def
  by (simp add: filter_filter) (intro arg_cong [where f = "map _"] filter_cong, auto simp: relevant_def dest: prefix_butlast)

lemma safe_if: "(b \<Longrightarrow> safe d m h) \<Longrightarrow> (\<not> b \<Longrightarrow> safe d m' h) \<Longrightarrow> safe d (if b then m else m') h"
  by simp

lemma safe_looks:
  "reaches h False p \<Longrightarrow> relevant d p \<Longrightarrow> safe d (symlink_metadata (absolute p)) h"
  "reaches h True p \<Longrightarrow> relevant d p \<Longrightarrow> safe d (fs_canonicalize (absolute p)) h"
  "reaches h False p \<Longrightarrow> relevant d p \<Longrightarrow> safe d (open_read (absolute p)) h"
  unfolding symlink_metadata_def fs_canonicalize_def open_read_def
  by (rule at_path_safe; simp add: safe_ret safe_throw split: option.splits entry.splits)+

lemma safe_read_dir: "reaches h True p \<Longrightarrow> prefix d p \<Longrightarrow> safe d (read_dir (absolute p)) h"
  unfolding read_dir_def
  by (rule at_path_safe) (auto simp: safe_def children_restrict split: option.splits entry.splits)

lemma safe_path_is_dir: "reaches h True p \<Longrightarrow> relevant d p \<Longrightarrow> safe d (path_is_dir (absolute p)) h"
proof -
  assume "reaches h True p" "relevant d p"
  then have "safe d (at_path True (absolute p) (\<lambda>_ x. ret (x = Some Directory)) :: bool fs_proc) h"
    by (rule at_path_safe) (simp add: safe_ret)
  then show ?thesis
    by (auto simp: safe_def path_is_dir_def split: prod.splits outcome.splits)
qed

lemma safe_changes:
  assumes "prefix d p"
  shows "reaches h False p \<Longrightarrow> safe d (create_dir (absolute p)) h"
    and "reaches h False p \<Longrightarrow> safe d (open_write (absolute p)) h"
    and "reaches h False p \<Longrightarrow> safe d (remove_file (absolute p)) h"
  unfolding create_dir_def open_write_def remove_file_def
  by (rule at_path_safe; use assms in \<open>auto simp: safe_ret safe_throw safe_put safe_new_directory safe_drop
      split: option.splits entry.splits intro!: safe_and_then\<close>)+

lemma safe_remove_dir: "reaches h False p \<Longrightarrow> prefix d p \<Longrightarrow> safe d (remove_dir (absolute p)) h"
  unfolding remove_dir_def
  by (rule at_path_safe)
    (auto simp: safe_def children_restrict drop_entries_restrict drop_entries_outside split: option.splits entry.splits)

lemma safe_append: "prefix d q \<Longrightarrow> safe d (append_file q bs) h"
proof (induction q bs arbitrary: h rule: append_file.induct)
  case (1 q bs)
  have put: "safe d (modify (\<lambda>h. put_entry q (File (file_bytes q h @ c)) h) :: unit fs_proc) h'" for c h'
    using 1(2) by (simp add: safe_def modify_def file_bytes_def put_entry_outside put_entry_restrict [symmetric])
  show ?case
    using 1 by (subst append_file.simps) (auto simp: Let_def intro!: safe_ret safe_and_then syscall_safe put)
qed

lemma safe_read: "prefix d q \<Longrightarrow> safe d (read_file_at q off n) h"
  unfolding read_file_at_def
  by (rule syscall_safe) (auto simp: safe_def file_bytes_def split: option.splits entry.splits)

lemma safe_remove_each: "list_all (prefix d) qs \<Longrightarrow> safe d (remove_each qs) h"
  by (induction qs arbitrary: h) (auto simp: safe_ret safe_drop intro!: safe_and_then syscall_safe)

lemma below_restrict:
  "prefix d p \<Longrightarrow> filter (\<lambda>(r, _). prefix p r) (filter (\<lambda>(q, _). relevant d q) es) = filter (\<lambda>(r, _). prefix p r) es"
  by (simp add: filter_filter) (intro filter_cong, auto simp: relevant_def dest: prefix_order.trans)

lemma safe_remove_dir_all:
  assumes "reaches h False p" and "prefix d p"
  shows "safe d (remove_dir_all (absolute p)) h"
  unfolding remove_dir_all_def
proof (rule at_path_safe [OF assms(1)])
  show "relevant d p" using assms(2) by simp
next
  fix x and h' :: host
  let ?vs = "rev (sort_key length (map fst (filter (\<lambda>(r, _). prefix p r) (entries h'))))"
  have "safe d (remove_each ?vs) h'"
    using assms(2) by (intro safe_remove_each) (auto simp: list_all_iff dest: prefix_order.trans)
  then show "safe d (\<lambda>h. case x of None \<Rightarrow> (Err ENOENT, h)
      | Some Directory \<Rightarrow> remove_each (rev (sort_key length (map fst (filter (\<lambda>(r, _). prefix p r) (entries h))))) h
      | Some (Symlink _) \<Rightarrow> (Ok (), drop_entries p h)
      | Some _ \<Rightarrow> (Err ENOTDIR, h)) h'"
    using assms(2)
    by (auto simp: safe_def below_restrict drop_entries_restrict drop_entries_outside simp del: filter_filter
        split: option.splits entry.splits)
qed

lemma moved_restrict:
  assumes "prefix d s" and "prefix d e"
  shows "filter (\<lambda>(q, _). relevant d q) (map (\<lambda>(p, y). (if prefix s p then e @ drop (length s) p else p, y))
           (filter (\<lambda>(p, _). \<not> prefix e p) es)) =
         map (\<lambda>(p, y). (if prefix s p then e @ drop (length s) p else p, y))
           (filter (\<lambda>(p, _). \<not> prefix e p) (filter (\<lambda>(q, _). relevant d q) es))"
proof (induction es)
  case (Cons a es)
  obtain p y where a: "a = (p, y)" by fastforce
  have "relevant d p" if "prefix s p" using that assms(1) by (auto simp: relevant_def dest: prefix_order.trans)
  moreover have "relevant d (e @ r)" for r using assms(2) by (simp add: relevant_def prefix_append)
  ultimately show ?case using Cons a by auto
qed simp

lemma safe_move_entry:
  assumes "prefix d p" and "prefix d q"
  shows "safe d (move_entry p e q) h"
proof -
  let ?es = "map (\<lambda>(u, y). (if prefix p u then q @ drop (length p) u else u, y)) (filter (\<lambda>(u, _). \<not> prefix q u) (entries h))"
  have "restrict d (h\<lparr>entries := ?es\<rparr>) = (restrict d h)\<lparr>entries :=
      map (\<lambda>(u, y). (if prefix p u then q @ drop (length p) u else u, y))
        (filter (\<lambda>(u, _). \<not> prefix q u) (filter (\<lambda>(q, _). relevant d q) (entries h)))\<rparr>"
    unfolding restrict_def moved_restrict [OF assms, symmetric] by simp
  then have "move_entry p e q (restrict d h) = map_prod id (restrict d) (move_entry p e q h)"
    unfolding move_entry_def Let_def restrict_simps children_restrict [OF assms(2)] entry_at_restrict [OF relevant_below [OF assms(2)]]
    by simp fastforce
  then show ?thesis unfolding safe_def using move_entry_outside [OF assms] by blast
qed

lemma safe_rename:
  assumes "reaches h False p" and "reaches h False q" and "prefix d p" and "prefix d q"
  shows "safe d (fs_rename (absolute p) (absolute q)) h"
  unfolding fs_rename_def
proof (rule at_path_safe [OF assms(1)])
  show "relevant d p" using assms(3) by simp
next
  fix x h' assume h': "same_tree h h'"
  then have r: "reaches h' False q" using assms(2) by (simp add: reaches_def same_tree_parts)
  show "safe d (\<lambda>h. case x of None \<Rightarrow> (Err ENOENT, h)
     | Some e \<Rightarrow> (case resolve False (absolute q) h of Inl n \<Rightarrow> (Err n, h) | Inr d \<Rightarrow> move_entry p e d h)) h'"
    using resolve_restrict [OF r, of d] resolve_reaches [OF r] assms(4) safe_move_entry [OF assms(3,4), of _ h']
    by (cases x; cases "resolve False (absolute q) h'") (auto simp: safe_def)
qed

section \<open>The checks only look, and only at relevant names\<close>

lemma looks_steps:
  "fs (symlink_metadata p) h = (r1, t) \<Longrightarrow> same_tree h t"
  "fs (fs_canonicalize p) h = (r2, t) \<Longrightarrow> same_tree h t"
  "fs (open_read p) h = (r3, t) \<Longrightarrow> same_tree h t"
  "fs (read_dir p) h = (r4, t) \<Longrightarrow> same_tree h t"
  "unless_missing (symlink_metadata p) h = (r5, t) \<Longrightarrow> same_tree h t"
  by (auto elim!: fs_looks unless_missing_looks dest: looks)

lemma and_then_looks:
  assumes "and_then m f h = (r, t)" and "\<And>r t. m h = (r, t) \<Longrightarrow> same_tree h t"
    and "\<And>x u. m h = (Ok x, u) \<Longrightarrow> f x u = (r, t) \<Longrightarrow> same_tree u t"
  shows "same_tree h t"
  using assms by (auto simp: and_then_def split: prod.splits outcome.splits intro: same_tree_trans)

lemma reject_components_looks: "reject_components p c xs h = (r, t) \<Longrightarrow> same_tree h t"
proof (induction xs arbitrary: c h)
  case (Cons x xs)
  have name: "same_tree h t"
    if "and_then (unless_missing (symlink_metadata n)) (\<lambda>m. case m of None \<Rightarrow> ret ()
        | Some e \<Rightarrow> if is_symlink e then throw (symlink_path_error n) else reject_components p n xs) h = (r, t)" for n
    by (rule and_then_looks [OF that looks_steps(5)], assumption)
      (auto simp: proc_simps split: option.splits if_splits dest: Cons.IH)
  show ?case using Cons by (cases x) (auto simp: proc_simps(1,2) Let_def dest: name)
qed (simp add: proc_simps)

lemma ensure_components_looks: "ensure_components rel c xs h = (r, t) \<Longrightarrow> same_tree h t"
proof (induction rel c xs arbitrary: h rule: ensure_components.induct)
  case (2 rel c x cs)
  show ?case
    by (rule and_then_looks [OF "2.prems" [unfolded ensure_components.simps Let_def] looks_steps(5)], assumption)
      (auto simp: proc_simps split: option.splits if_splits dest: "2.IH" [OF refl])
qed (auto simp: proc_simps)

lemma reject_looks: "reject_symlink_components p h = (r, t) \<Longrightarrow> same_tree h t"
  by (auto simp: reject_symlink_components_def proc_simps dest: reject_components_looks)

lemma safe_lstat:
  "plain (entries h) [] c \<Longrightarrow> relevant d (c @ [x]) \<Longrightarrow> safe d (unless_missing (symlink_metadata (absolute (c @ [x])))) h"
  "plain (entries h) [] c \<Longrightarrow> relevant d (c @ [x]) \<Longrightarrow> safe d (fs (symlink_metadata (absolute (c @ [x])))) h"
  by (auto intro!: safe_unless_missing safe_fs safe_looks simp: reaches_def)

lemma lstat_plain_fs:
  assumes "fs (symlink_metadata (absolute (c @ [x]))) h = (Ok e, t)" and "plain (entries h) [] c" and "\<not> is_symlink e"
  shows "plain (entries t) [] (c @ [x])"
proof -
  have "unless_missing (symlink_metadata (absolute (c @ [x]))) h = (Ok (Some e), t)"
    using assms(1) by (simp add: fs_Ok_iff unless_missing_def)
  then show ?thesis
    using lstat_plain [of c x h "Some e" t] assms(2,3) same_tree_parts(1) [OF looks_steps(1) [OF assms(1)]] by simp
qed

lemma reject_components_safe:
  assumes "plain (entries h) [] c" and "relevant d (c @ xs)"
  shows "safe d (reject_components p (absolute c) (map Normal xs)) h"
  using assms
proof (induction xs arbitrary: c h)
  case (Cons x xs)
  have "relevant d (c @ [x])" by (rule relevant_prefix [OF Cons.prems(2)]) simp
  moreover have "plain (entries t) [] (c @ [x])"
    if "unless_missing (symlink_metadata (absolute (c @ [x]))) h = (Ok (Some e), t)" "\<not> is_symlink e" for e t
    using lstat_plain [OF that(1) Cons.prems(1)] that(2) looks_steps(5) [OF that(1)] by (simp add: same_tree_parts)
  ultimately show ?case
    using Cons
    by (auto simp: Let_def intro!: safe_and_then safe_lstat safe_ret safe_throw split: option.splits)
qed (simp add: safe_ret)

lemma reject_safe:
  assumes "relevant d p"
  shows "safe d (reject_symlink_components (absolute p)) h"
proof -
  have root: "absolute [] = [RootDir]" by (simp add: absolute_def)
  have "safe d (reject_components (absolute p) [] (RootDir # map Normal p)) h"
    unfolding reject_components.simps Let_def join_def is_absolute_def
    using reject_components_safe [of _ "[]" d p "absolute p"] assms
    by (auto simp: reaches_def relevant_def root [symmetric] intro!: safe_and_then safe_unless_missing safe_looks safe_ret safe_throw
        split: option.splits)
  moreover have "reject_symlink_components (absolute p) h = reject_components (absolute p) [] (RootDir # map Normal p) h" for h
    by (simp add: reject_symlink_components_def is_absolute_def absolute_def proc_simps)
  ultimately show ?thesis by (simp add: safe_def)
qed

lemma reject_result: "reject_symlink_components (absolute p) h = (Ok u, t) \<Longrightarrow> plain (entries t) [] p"
  using reject_looks [of "absolute p" h "Ok u" t] reject_symlink_plain [of p h u t] by (simp add: same_tree_parts)

lemma canonical_root_safe: "relevant d r \<Longrightarrow> safe d (canonical_backup_root (absolute r)) h"
  unfolding canonical_backup_root_def
  by (rule safe_and_then) (auto simp: reject_safe reaches_def intro!: safe_fs safe_looks dest: reject_result)

lemma canonical_root_result:
  assumes "canonical_backup_root (absolute r) h = (Ok q, t)"
  shows "q = absolute r \<and> plain (entries h) [] r \<and> same_tree h t"
proof -
  from assms obtain u where u: "reject_symlink_components (absolute r) h = (Ok (), u)" "fs_canonicalize (absolute r) u = (Ok q, t)"
    by (auto simp: canonical_backup_root_def and_then_Ok_iff fs_Ok_iff)
  have p: "plain (entries h) [] r" and s: "same_tree h u"
    using reject_symlink_plain [OF u(1)] reject_looks [OF u(1)] by auto
  have "reaches u True r" using p s by (simp add: reaches_def same_tree_parts)
  then have "q = absolute r"
    using u(2) resolve_reaches [of u True r] unfolding fs_canonicalize_def
    by (elim at_path_cases) (auto simp: proc_simps split: option.splits)
  then show ?thesis using p s looks(2) [OF u(2)] by (auto intro: same_tree_trans)
qed

lemma ensure_components_safe:
  assumes "plain (entries h) [] c" and "relevant d (c @ xs)"
  shows "safe d (ensure_components rel (absolute c) (map Normal xs)) h"
  using assms
proof (induction xs arbitrary: c h)
  case (Cons x xs)
  have "relevant d (c @ [x])" by (rule relevant_prefix [OF Cons.prems(2)]) simp
  moreover have "plain (entries t) [] (c @ [x])"
    if "unless_missing (symlink_metadata (absolute (c @ [x]))) h = (Ok (Some e), t)" "\<not> is_symlink e" for e t
    using lstat_plain [OF that(1) Cons.prems(1)] that(2) looks_steps(5) [OF that(1)] by (simp add: same_tree_parts)
  ultimately show ?case
    using Cons
    by (auto simp: Let_def intro!: safe_and_then safe_lstat safe_ret safe_throw split: option.splits)
qed (simp add: safe_ret)

lemma ensure_result:
  assumes "ensure_no_symlink_components_at_root (absolute c) (map Normal xs) h = (Ok u, t)" and "plain (entries h) [] c"
  shows "same_tree h t \<and> plain (entries h) [] (c @ xs)"
proof -
  have e: "ensure_components (map Normal xs) (absolute c) (map Normal xs) h = (Ok u, t)"
    using assms(1) by (simp add: ensure_no_symlink_components_at_root_def)
  then show ?thesis
    using ensure_components_looks [OF e] ensure_components_plain [OF e] assms(2) by (auto intro: plain_extend)
qed

section \<open>Directories\<close>

lemma check_directory_Ok: "check_directory p e h = (Ok u, t) \<longleftrightarrow> e = Directory \<and> t = h"
  by (cases e) (auto simp: check_directory_def proc_simps)

lemma safe_check_directory: "safe d (check_directory p e) h"
  by (simp add: check_directory_def safe_ret safe_throw)

lemma safe_create_unless_there:
  "reaches h False p \<Longrightarrow> prefix d p \<Longrightarrow> safe d (create_dir_unless_there (absolute p)) h"
  using safe_changes(1) [of d p h] by (auto simp: safe_def create_dir_unless_there_def split: prod.splits outcome.splits)

text \<open>Below a plain path, a change at \<open>c @ [x]\<close> leaves \<open>c\<close> as it is.\<close>

lemma plain_above: "same_outside (c @ [x]) h t \<Longrightarrow> plain (entries h) [] c \<Longrightarrow> plain (entries t) [] c"
  using plain_outside by blast

lemma create_unless_there_outside:
  assumes "create_dir_unless_there (absolute p) h = (r, t)" and "plain (entries h) [] p"
  shows "same_outside p h t"
  using safe_create_unless_there [OF plain_reaches [OF assms(2)], of p] assms(1) by (auto dest: safe_outside)

lemma enter_directory_safe:
  assumes "plain (entries h) [] c" and "prefix d (c @ [x])"
  shows "safe d (enter_directory (absolute (c @ [x]))) h"
  unfolding enter_directory_def
proof (rule safe_and_then)
  show "safe d (unless_missing (symlink_metadata (absolute (c @ [x])))) h"
    using assms by (intro safe_lstat) auto
next
  fix m t assume m: "unless_missing (symlink_metadata (absolute (c @ [x]))) h = (Ok m, t)"
  have t: "plain (entries t) [] c" using looks_steps(5) [OF m] assms(1) by (simp add: same_tree_parts)
  show "safe d (case m of Some e \<Rightarrow> check_directory (absolute (c @ [x])) e
      | None \<Rightarrow> and_then (create_dir_unless_there (absolute (c @ [x]))) (\<lambda>_.
          and_then (fs (symlink_metadata (absolute (c @ [x])))) (check_directory (absolute (c @ [x]))))) t"
  proof (cases m)
    case None
    have p: "plain (entries t) [] (c @ [x])"
      using lstat_plain [OF m assms(1)] None looks_steps(5) [OF m] by (simp add: same_tree_parts)
    have "plain (entries u) [] c" if "create_dir_unless_there (absolute (c @ [x])) t = (Ok (), u)" for u
      using plain_above [OF create_unless_there_outside [OF that p] t] .
    then show ?thesis
      using None assms(2) p
      by (auto intro!: safe_and_then safe_create_unless_there safe_lstat safe_check_directory plain_reaches)
  qed (simp add: safe_check_directory)
qed

lemma enter_directory_plain:
  assumes "enter_directory (absolute (c @ [x])) h = (Ok u, t)" and "plain (entries h) [] c"
  shows "plain (entries t) [] (c @ [x])"
proof -
  from assms(1) obtain m t1 where m: "unless_missing (symlink_metadata (absolute (c @ [x]))) h = (Ok m, t1)"
    and rest: "(case m of Some e \<Rightarrow> check_directory (absolute (c @ [x])) e
      | None \<Rightarrow> and_then (create_dir_unless_there (absolute (c @ [x]))) (\<lambda>_.
          and_then (fs (symlink_metadata (absolute (c @ [x])))) (check_directory (absolute (c @ [x]))))) t1 = (Ok u, t)"
    unfolding enter_directory_def and_then_Ok_iff [of "unless_missing _"] by (elim exE conjE) (rule that)
  have tree: "same_tree h t1" by (rule looks_steps(5) [OF m])
  show ?thesis
  proof (cases m)
    case (Some e)
    then have "e = Directory" "t = t1" using rest by (auto simp: check_directory_Ok)
    then show ?thesis using lstat_plain [OF m assms(2)] Some tree by (simp add: same_tree_parts)
  next
    case None
    have p: "plain (entries t1) [] (c @ [x])"
      using lstat_plain [OF m assms(2)] None tree by (simp add: same_tree_parts)
    from rest None obtain v e where v: "create_dir_unless_there (absolute (c @ [x])) t1 = (Ok (), v)"
      and e: "symlink_metadata (absolute (c @ [x])) v = (Ok e, t)" "e = Directory"
      by (auto simp: and_then_Ok_iff fs_Ok_iff check_directory_Ok)
    have "plain (entries v) [] c"
      using plain_above [OF create_unless_there_outside [OF v p]] assms(2) tree by (simp add: same_tree_parts)
    moreover have "unless_missing (symlink_metadata (absolute (c @ [x]))) v = (Ok (Some e), t)"
      using e(1) by (simp add: unless_missing_def)
    ultimately show ?thesis
      using lstat_plain [of c x v "Some e" t] e(2) looks(1) [OF e(1)] by (simp add: same_tree_parts)
  qed
qed

lemma create_components_safe:
  assumes "plain (entries h) [] c" and "xs = [] \<or> prefix d (c @ [hd xs])"
  shows "safe d (create_components root rel (absolute c) (map Normal xs)) h"
  using assms
proof (induction xs arbitrary: c h)
  case (Cons x xs)
  have below: "prefix d (c @ [x])" using Cons.prems(2) by simp
  have step: "safe d (and_then (fs (fs_canonicalize (absolute (c @ [x])))) (\<lambda>canonical.
      if \<not> prefix root canonical
      then throw (proto ''backup directory path escapes backup root: {}'' [show_path (absolute (c @ [x]))])
      else create_components root rel (absolute (c @ [x])) (map Normal xs))) t"
    if t: "plain (entries t) [] (c @ [x])" for t
  proof (rule safe_and_then)
    show "safe d (fs (fs_canonicalize (absolute (c @ [x])))) t"
      using t below by (intro safe_fs safe_looks plain_reaches) auto
  next
    fix q u assume "fs (fs_canonicalize (absolute (c @ [x]))) t = (Ok q, u)"
    then have "plain (entries u) [] (c @ [x])" using t by (simp add: same_tree_parts [OF looks_steps(2)])
    moreover have "xs = [] \<or> prefix d ((c @ [x]) @ [hd xs])" by (rule disjI2) (rule prefix_prefix [OF below])
    ultimately show "safe d (if \<not> prefix root q
      then throw (proto ''backup directory path escapes backup root: {}'' [show_path (absolute (c @ [x]))])
      else create_components root rel (absolute (c @ [x])) (map Normal xs)) u"
      using Cons.IH [of u "c @ [x]"] by (simp add: safe_throw)
  qed
  show ?case
    unfolding list.map create_components.simps Let_def join_absolute
    by (rule safe_and_then [OF enter_directory_safe [OF Cons.prems(1) below] step])
      (rule enter_directory_plain [OF _ Cons.prems(1)])
qed (simp add: safe_ret)

lemma create_dir_all_safe:
  assumes "xs = [] \<or> (\<exists>ys. xs = i # ys)"
  shows "safe (r @ [i]) (create_dir_all_no_symlink (absolute r) (map Normal xs)) h"
  unfolding create_dir_all_no_symlink_def
proof (rule safe_and_then)
  fix q t assume "canonical_backup_root (absolute r) h = (Ok q, t)"
  from canonical_root_result [OF this] have "q = absolute r" "plain (entries t) [] r" by (auto simp: same_tree_parts)
  then show "safe (r @ [i]) (create_components q (map Normal xs) q (map Normal xs)) t"
    using assms by (auto intro!: create_components_safe)
qed (simp add: canonical_root_safe)

section \<open>Paths that the device names\<close>

lemma sanitize_components_names: "sanitize_components p clean cs = Inr q \<Longrightarrow> \<exists>xs. cs = map Normal xs \<and> q = clean @ map Normal xs"
proof (induction p clean cs rule: sanitize_components.induct)
  case (2 p clean x cs)
  then obtain xs where "cs = map Normal xs" "q = (clean @ [Normal x]) @ map Normal xs" by auto
  then show ?case by (intro exI [of _ "x # xs"]) simp
qed auto

lemma sanitize_relative_path_names:
  assumes "sanitize_relative_path p = Inr clean"
  shows "\<exists>x xs. clean = map Normal (x # xs) \<and> path_of p = clean"
proof -
  from assms have s: "sanitize_components p [] (path_of p) = Inr clean" and "clean \<noteq> []"
    by (auto simp: sanitize_relative_path_def attempt_Inr_iff split: if_splits)
  from sanitize_components_names [OF s] \<open>clean \<noteq> []\<close> show ?thesis by (auto simp: neq_Nil_conv)
qed

lemma join_names: "join (map Normal (x # xs)) (map Normal ys) = map Normal (x # xs @ ys)"
proof -
  have "filter (\<lambda>y. y \<noteq> CurDir) (map Normal ys) = map Normal ys" by (induction ys) auto
  then show ?thesis by (cases ys) (auto simp: join_def is_absolute_def)
qed

lemma validate_identifier_name:
  assumes "validate_backup_identifier i = Inr u"
  shows "path_of i = [Normal i]"
proof -
  from assms have no_slash: "CHR ''/'' \<notin> set i" and "i \<noteq> []" and s: "\<exists>x. path_of i = [Normal x]"
    by (auto simp: validate_backup_identifier_def split: if_splits list.splits component.splits)
  have "split_on (CHR ''/'') i = [i]" using no_slash by (induction i) auto
  then show ?thesis using s no_slash \<open>i \<noteq> []\<close> by (cases i) (auto simp: path_of_def segment_def split: if_splits)
qed

text \<open>\<open>layout_at lay r i\<close>: the backup of the device \<open>i\<close> below the root \<open>r\<close>.\<close>

definition layout_at :: "backup_layout \<Rightarrow> names \<Rightarrow> string \<Rightarrow> bool" where
  "layout_at lay r i \<longleftrightarrow>
     layout_root lay = absolute r \<and> device_directory lay = absolute (r @ [i]) \<and> target_identifier lay = i"

lemma resolve_result:
  assumes "resolve_relative_path lay rel h = (Ok p, t)" and "layout_at lay r i"
  shows "\<exists>xs. p = absolute (r @ i # xs) \<and> plain (entries h) [] (r @ i # xs) \<and> same_tree h t"
proof -
  from assms obtain clean q u v where clean: "sanitize_relative_path rel = Inr clean" and i: "validate_backup_identifier i = Inr ()"
    and q: "canonical_backup_root (absolute r) h = (Ok q, u)"
    and e: "ensure_no_symlink_components_at_root q (under_target lay clean) u = (Ok v, t)" and p: "p = join q (under_target lay clean)"
    by (auto simp: resolve_relative_path_def layout_at_def and_then_Ok_iff check_Ok Let_def ret_def)
  obtain x xs where "clean = map Normal (x # xs)" using sanitize_relative_path_names [OF clean] by blast
  then have "under_target lay clean = map Normal (i # (if x = i then xs else x # xs))"
    using assms(2) validate_identifier_name [OF i] join_names [of i "[]" "x # xs"]
    by (simp add: under_target_def layout_at_def)
  then obtain ys where ys: "under_target lay clean = map Normal (i # ys)" by blast
  have "q = absolute r" "plain (entries h) [] r" "same_tree h u" using canonical_root_result [OF q] by auto
  moreover from this have "same_tree u t" "plain (entries u) [] (r @ i # ys)"
    using ensure_result [of r "i # ys" u v t] e ys by (auto simp: same_tree_parts)
  ultimately show ?thesis
    using p ys by (intro exI [of _ ys]) (auto intro: same_tree_trans simp: same_tree_parts simp del: list.map)
qed

lemma resolve_safe:
  assumes "layout_at lay r i"
  shows "safe (r @ [i]) (resolve_relative_path lay rel) h"
  unfolding resolve_relative_path_def Let_def
proof (intro safe_and_then safe_check)
  fix clean t u v q w
  assume c: "check (\<lambda>_. sanitize_relative_path rel) h = (Ok clean, t)"
    and v: "check (\<lambda>_. validate_backup_identifier (target_identifier lay)) t = (Ok v, u)"
    and q: "canonical_backup_root (layout_root lay) u = (Ok q, w)"
  have "path_of i = [Normal i]" using v assms by (auto simp: check_Ok layout_at_def dest: validate_identifier_name)
  moreover obtain x xs where "clean = map Normal (x # xs)"
    using c sanitize_relative_path_names by (fastforce simp: check_Ok)
  ultimately have "under_target lay clean = map Normal (i # (if x = i then xs else x # xs))"
    using assms join_names [of i "[]" "x # xs"] by (simp add: under_target_def layout_at_def)
  then obtain ys where ys: "under_target lay clean = map Normal (i # ys)" by blast
  have root: "q = absolute r" and w: "plain (entries w) [] r"
    using canonical_root_result [of r u q w] q assms by (auto simp: layout_at_def same_tree_parts)
  show "safe (r @ [i]) (ensure_no_symlink_components_at_root q (under_target lay clean)) w"
    unfolding ensure_no_symlink_components_at_root_def ys root using w by (intro ensure_components_safe) simp_all
qed (use assms in \<open>auto simp: layout_at_def safe_ret intro!: canonical_root_safe\<close>)

section \<open>File operations below the root\<close>

lemma layout_relative [simp]: "layout_at lay r i \<Longrightarrow> layout_relative_path lay (absolute (r @ xs)) = Inr (map Normal xs)"
  by (simp add: layout_at_def layout_relative_path_def strip_prefix_def absolute_def)

lemma strip_absolute [simp]: "strip_prefix (absolute (r @ xs)) (absolute r) = Some (map Normal xs)"
  by (simp add: strip_prefix_def absolute_def)

lemma parent_absolute: "parent (absolute (p @ [x])) = Some (absolute p)"
  by (simp add: parent_def absolute_def butlast_append)

lemma and_then_checked [simp]: "and_then (check (\<lambda>_. Inr x)) f = f x"
  by (rule ext) (simp add: proc_simps)

lemma create_layout_safe:
  assumes "layout_at lay r i" and "xs = [] \<or> (\<exists>ys. xs = i # ys)"
  shows "safe (r @ [i]) (create_layout_directory lay (absolute (r @ xs))) h"
  using assms create_dir_all_safe [OF assms(2), of r]
  by (auto simp: create_layout_directory_def layout_at_def check_Ok intro!: safe_and_then safe_check safe_ret)

lemma create_layout_parent_safe:
  assumes "layout_at lay r i"
  shows "safe (r @ [i]) (create_layout_parent_directory lay (absolute (r @ i # xs))) h"
proof -
  have p: "parent (absolute (r @ i # xs)) = Some (absolute (r @ butlast (i # xs)))"
    using parent_absolute [of r i] parent_absolute [of "r @ i # butlast xs" "last xs"] by (cases "xs = []") simp_all
  show ?thesis
    unfolding create_layout_parent_directory_def p ok_or_simps and_then_checked
    by (rule create_layout_safe [OF assms]) simp
qed

text \<open>The guard in front of a use of a path: it only looks, and the path it passes is plain.\<close>

lemma guard_safe:
  assumes "layout_at lay r i" and "plain (entries h) [] r" and "xs = [] \<or> (\<exists>ys. xs = i # ys)"
  shows "safe (r @ [i]) (guard_layout_path lay (absolute (r @ xs))) h"
proof -
  have "relevant (r @ [i]) (r @ xs)" using assms(3) by (auto simp: relevant_def)
  then show ?thesis
    using assms(1,2)
    by (auto simp: guard_layout_path_def check_Ok layout_at_def ensure_no_symlink_components_at_root_def
        intro!: safe_and_then safe_check ensure_components_safe)
qed

lemma guard_result:
  assumes "guard_layout_path lay (absolute (r @ xs)) h = (Ok u, t)" and "layout_at lay r i" and "plain (entries h) [] r"
  shows "plain (entries t) [] (r @ xs)"
proof -
  have "ensure_no_symlink_components_at_root (absolute r) (map Normal xs) h = (Ok u, t)"
    using assms(1,2) by (auto simp: guard_layout_path_def and_then_Ok_iff check_Ok layout_at_def)
  from ensure_result [OF this assms(3)] show ?thesis by (auto simp: same_tree_parts)
qed

text \<open>A file that is opened is reached under its own name.\<close>

lemma open_result:
  "open_read (absolute p) h = (Ok q, t) \<Longrightarrow> plain (entries h) [] p \<Longrightarrow> q = p"
  "open_write (absolute p) h = (Ok q, t) \<Longrightarrow> plain (entries h) [] p \<Longrightarrow> q = p"
  unfolding open_read_def open_write_def
  by (elim at_path_cases;
      auto simp: proc_simps and_then_Ok_iff dest: resolve_absolute split: option.splits entry.splits)+

lemma open_file_safe:
  assumes "prefix d p"
  shows "safe d (open_file_for_read (absolute p)) h" "safe d (open_file_for_write (absolute p)) h"
  unfolding open_file_for_read_def open_file_for_write_def
  using assms by (auto intro!: safe_and_then reject_safe safe_fs safe_looks safe_changes dest!: reject_result intro: plain_reaches)

lemma open_file_result:
  "open_file_for_read (absolute p) h = (Ok q, t) \<Longrightarrow> q = p"
  "open_file_for_write (absolute p) h = (Ok q, t) \<Longrightarrow> q = p"
  unfolding open_file_for_read_def open_file_for_write_def
  by (auto simp: and_then_Ok_iff fs_Ok_iff dest!: reject_result dest: open_result)

lemma open_layout_safe:
  assumes "layout_at lay r i" and "plain (entries h) [] r"
  shows "safe (r @ [i]) (open_layout_file_for_read lay (absolute (r @ i # xs))) h"
    and "safe (r @ [i]) (open_layout_file_for_write lay (absolute (r @ i # xs))) h"
  unfolding open_layout_file_for_read_def open_layout_file_for_write_def
  using assms by (auto intro!: safe_and_then guard_safe open_file_safe)

lemma open_layout_result:
  "open_layout_file_for_read lay (absolute p) h = (Ok q, t) \<Longrightarrow> q = p"
  "open_layout_file_for_write lay (absolute p) h = (Ok q, t) \<Longrightarrow> q = p"
  unfolding open_layout_file_for_read_def open_layout_file_for_write_def
  by (auto simp: and_then_Ok_iff dest: open_file_result)

lemma rename_layout_safe:
  assumes "layout_at lay r i" and "plain (entries h) [] r"
  shows "safe (r @ [i]) (rename_layout_path lay (absolute (r @ i # xs)) (absolute (r @ i # ys))) h"
proof -
  let ?ensure = "\<lambda>zs. ensure_no_symlink_components_at_root (absolute r) (map Normal zs)"
  have root: "layout_root lay = absolute r" using assms(1) by (simp add: layout_at_def)
  have e: "safe (r @ [i]) (?ensure (i # zs)) t" if "plain (entries t) [] r" for zs t
    unfolding ensure_no_symlink_components_at_root_def using that by (intro ensure_components_safe) simp_all
  have "safe (r @ [i]) (and_then (?ensure (i # xs)) (\<lambda>_. and_then (?ensure (i # ys)) (\<lambda>_.
      fs (fs_rename (absolute (r @ i # xs)) (absolute (r @ i # ys)))))) h"
  proof (rule safe_and_then [OF e [OF assms(2)]])
    fix a t assume "?ensure (i # xs) h = (Ok a, t)"
    from ensure_result [OF this assms(2)] have t: "plain (entries t) [] (r @ i # xs)" by (auto simp: same_tree_parts)
    then have tr: "plain (entries t) [] r" by (rule plain_front)
    show "safe (r @ [i]) (and_then (?ensure (i # ys)) (\<lambda>_. fs (fs_rename (absolute (r @ i # xs)) (absolute (r @ i # ys))))) t"
    proof (rule safe_and_then [OF e [OF tr]])
      fix b u assume "?ensure (i # ys) t = (Ok b, u)"
      from ensure_result [OF this tr] t
      have "plain (entries u) [] (r @ i # xs)" "plain (entries u) [] (r @ i # ys)" by (auto simp: same_tree_parts)
      then show "safe (r @ [i]) (fs (fs_rename (absolute (r @ i # xs)) (absolute (r @ i # ys)))) u"
        by (intro safe_fs safe_rename plain_reaches) simp_all
    qed
  qed
  then show ?thesis
    unfolding rename_layout_path_def
    using assms(1) root by (simp del: list.map)
qed

section \<open>A new directory hides nothing\<close>

lemma new_directory_plain_from:
  assumes "entry_at es q = None" and "\<And>u. entry_at es' u = (if u = q then Some Directory else if prefix q u then None else entry_at es u)"
  shows "plain es c xs \<Longrightarrow> plain es' c xs"
proof (induction xs arbitrary: c)
  case (Cons x xs)
  have "plain es' q xs" by (cases xs) (auto simp: assms(2))
  then show ?case
    using Cons assms(1) by (auto simp: assms(2) split: option.splits entry.splits)
qed simp

lemma new_directory_plain:
  assumes "entry_at (entries h) q = None" and "plain (entries h) [] p"
  shows "plain (entries (put_entry q Directory (drop_entries q h))) [] p"
proof (rule new_directory_plain_from [OF assms(1) _ assms(2)])
  fix u
  have "q \<noteq> []" using assms(1) by (auto simp: entry_at_def)
  then show "entry_at (entries (put_entry q Directory (drop_entries q h))) u =
      (if u = q then Some Directory else if prefix q u then None else entry_at (entries h) u)"
    by (auto simp: put_entry_def drop_entries_def entry_at_def index_insert_lookup map_of_filter_keys)
qed

lemma keeps_same_tree: "(\<And>h r t. m h = (r, t) \<Longrightarrow> same_tree h t) \<Longrightarrow> keeps (\<lambda>h. plain (entries h) [] p) m"
  by (rule keepsI) (metis prod.collapse same_tree_parts(1))

lemma keeps_fs: "keeps I m \<Longrightarrow> keeps I (fs m)"
  by (force simp: keeps_def fs_def split: prod.splits outcome.splits)

lemma keeps_plain_looks [keeps_intros]:
  "keeps (\<lambda>h. plain (entries h) [] p) (fs (symlink_metadata q))"
  "keeps (\<lambda>h. plain (entries h) [] p) (fs (fs_canonicalize q))"
  "keeps (\<lambda>h. plain (entries h) [] p) (unless_missing (symlink_metadata q))"
  "keeps (\<lambda>h. plain (entries h) [] p) (reject_symlink_components q)"
  by (auto intro!: keeps_same_tree dest: looks_steps reject_looks)

lemma create_dir_keeps_plain: "keeps (\<lambda>h. plain (entries h) [] p) (create_dir q)"
proof (rule keepsI)
  fix h :: host assume p: "plain (entries h) [] p"
  obtain r t where t: "create_dir q h = (r, t)" by fastforce
  from t have "plain (entries t) [] p"
    unfolding create_dir_def
  proof (cases rule: at_path_cases)
    case (3 u h')
    then show ?thesis
      using p new_directory_plain [of h' u p] by (auto simp: proc_simps same_tree_parts split: option.splits)
  qed (use p in \<open>auto simp: same_tree_parts\<close>)
  then show "plain (entries (snd (create_dir q h))) [] p" using t by simp
qed

lemma create_keeps_plain [keeps_intros]: "keeps (\<lambda>h. plain (entries h) [] p) (create_dir_unless_there q)"
  using create_dir_keeps_plain [of p q]
  by (force simp: keeps_def create_dir_unless_there_def split: prod.splits outcome.splits)

lemma enter_keeps_plain [keeps_intros]: "keeps (\<lambda>h. plain (entries h) [] p) (enter_directory q)"
  unfolding enter_directory_def check_directory_def
  by (auto intro!: keeps_intros split: option.splits)

lemma create_components_keeps_plain [keeps_intros]:
  "keeps (\<lambda>h. plain (entries h) [] p) (create_components root rel c xs)"
  by (induction root rel c xs rule: create_components.induct) (auto simp: Let_def intro!: keeps_intros)

lemma create_all_keeps_plain [keeps_intros]: "keeps (\<lambda>h. plain (entries h) [] p) (create_dir_all_no_symlink root rel)"
  unfolding create_dir_all_no_symlink_def canonical_backup_root_def by (intro keeps_intros)

lemma create_layout_keeps_plain [keeps_intros]:
  "keeps (\<lambda>h. plain (entries h) [] p) (create_layout_parent_directory lay q)"
  unfolding create_layout_parent_directory_def create_layout_directory_def by (intro keeps_intros)

section \<open>Trees\<close>

lemma tree_has_no_symlinks_looks: "tree_has_no_symlinks n p h = (r, t) \<Longrightarrow> same_tree h t"
proof (induction n arbitrary: p h r t)
  case 0
  then show ?case
    by (auto simp: too_deep_def and_then_def throw_def split: prod.splits outcome.splits dest: looks_steps)
next
  case (Suc n)
  have each: "for_each (\<lambda>name. tree_has_no_symlinks n (join p [Normal name])) ns h = (r, t) \<Longrightarrow> same_tree h t" for ns h r t
  proof (induction ns arbitrary: h)
    case (Cons x ns)
    show ?case
      by (rule and_then_looks [OF Cons.prems [unfolded for_each.simps]]) (auto dest: Suc.IH Cons.IH)
  qed (simp add: proc_simps)
  show ?case
  proof (rule and_then_looks [OF Suc.prems [unfolded tree_has_no_symlinks.simps] looks_steps(1)])
    fix e u
    assume "(if is_symlink e then throw (symlink_path_error p)
      else if e = Directory then and_then (fs (read_dir p)) (for_each (\<lambda>name. tree_has_no_symlinks n (join p [Normal name])))
      else ret ()) u = (r, t)"
    then show "same_tree u t"
      by (auto simp: proc_simps(1,2) split: if_splits intro: and_then_looks [OF _ looks_steps(4) each])
  qed
qed

lemma tree_has_no_symlinks_safe:
  assumes "plain (entries h) [] c" and "prefix d (c @ [x])"
  shows "safe d (tree_has_no_symlinks n (absolute (c @ [x]))) h"
  using assms
proof (induction n arbitrary: c x h)
  case 0
  then show ?case by (auto simp: too_deep_def intro!: safe_and_then safe_lstat safe_throw)
next
  case (Suc n)
  show ?case
    unfolding tree_has_no_symlinks.simps
  proof (intro safe_and_then safe_if safe_throw safe_ret)
    show "safe d (fs (symlink_metadata (absolute (c @ [x])))) h" using Suc.prems by (intro safe_lstat) auto
  next
    fix e t
    assume e: "fs (symlink_metadata (absolute (c @ [x]))) h = (Ok e, t)" and "\<not> is_symlink e"
    then have t: "plain (entries t) [] (c @ [x])" by (rule lstat_plain_fs [OF _ Suc.prems(1)])
    then show "safe d (fs (read_dir (absolute (c @ [x])))) t" using Suc.prems(2) by (auto intro!: safe_fs safe_read_dir plain_reaches)
    fix ns u assume u: "fs (read_dir (absolute (c @ [x]))) t = (Ok ns, u)"
    have "plain (entries u) [] (c @ [x])" using t same_tree_parts [OF looks_steps(4) [OF u]] by simp
    then show "safe d (for_each (\<lambda>name. tree_has_no_symlinks n (join (absolute (c @ [x])) [Normal name])) ns) u"
    proof (rule safe_for_each [where C = "\<lambda>h. plain (entries h) [] (c @ [x])", rotated 2])
      fix name and h :: host assume "plain (entries h) [] (c @ [x])"
      then show "safe d (tree_has_no_symlinks n (join (absolute (c @ [x])) [Normal name])) h"
        using Suc.IH [of h "c @ [x]" name] prefix_prefix [OF Suc.prems(2), of "[name]"] by simp
    qed (auto dest!: tree_has_no_symlinks_looks simp: same_tree_parts)
  qed
qed

lemma remove_layout_safe:
  assumes "layout_at lay r i" and "plain (entries h) [] r"
  shows "safe (r @ [i]) (remove_layout_path lay (absolute (r @ i # xs))) h"
proof -
  let ?p = "r @ i # xs"
  obtain c x where p: "?p = c @ [x]" by (metis append_is_Nil_conv list.distinct(1) rev_exhaust)
  have below: "prefix (r @ [i]) ?p" by simp
  have remove: "safe (r @ [i]) (case m of None \<Rightarrow> ret ()
       | Some e \<Rightarrow>
           if is_symlink e then throw (symlink_path_error (absolute ?p))
           else if e = Directory then and_then (ensure_tree_has_no_symlinks (absolute ?p)) (\<lambda>_. fs (remove_dir_all (absolute ?p)))
           else fs (remove_file (absolute ?p))) t"
    if t: "plain (entries t) [] ?p" for m t
  proof -
    have c: "plain (entries t) [] c" using t p by (auto dest: plain_front)
    have tree: "safe (r @ [i]) (ensure_tree_has_no_symlinks (absolute ?p)) t"
      using tree_has_no_symlinks_safe [OF c, of "r @ [i]" x PATH_MAX] below by (simp add: ensure_tree_has_no_symlinks_def p)
    have all: "safe (r @ [i]) (fs (remove_dir_all (absolute ?p))) u" if "ensure_tree_has_no_symlinks (absolute ?p) t = (Ok a, u)" for a u
      using that t by (intro safe_fs safe_remove_dir_all plain_reaches)
        (auto simp: ensure_tree_has_no_symlinks_def same_tree_parts dest!: tree_has_no_symlinks_looks)
    have "safe (r @ [i]) (fs (remove_file (absolute ?p))) t" using t by (intro safe_fs safe_changes plain_reaches) auto
    then show ?thesis
      using safe_and_then [OF tree all] by (cases m) (auto simp: safe_ret safe_throw)
  qed
  have look: "plain (entries u) [] ?p"
    if "unless_missing (symlink_metadata (absolute ?p)) t = (Ok m, u)" "plain (entries t) [] ?p" for m t u
    using that same_tree_parts(1) [OF looks_steps(5) [OF that(1)]] by simp
  show ?thesis
    unfolding remove_layout_path_def
  proof (rule safe_and_then [OF guard_safe [OF assms]])
    fix a t assume "guard_layout_path lay (absolute ?p) h = (Ok a, t)"
    from guard_result [OF this assms] have t: "plain (entries t) [] ?p" .
    then show "safe (r @ [i]) (and_then (unless_missing (symlink_metadata (absolute ?p))) (\<lambda>m. case m of None \<Rightarrow> ret ()
       | Some e \<Rightarrow>
           if is_symlink e then throw (symlink_path_error (absolute ?p))
           else if e = Directory then and_then (ensure_tree_has_no_symlinks (absolute ?p)) (\<lambda>_. fs (remove_dir_all (absolute ?p)))
           else fs (remove_file (absolute ?p)))) t"
      by (intro safe_and_then [OF _ remove] safe_unless_missing safe_looks plain_reaches) (auto dest: look)
  qed simp
qed

subsection \<open>Copies\<close>

lemma copy_paths_below [simp]:
  "copy_paths (absolute r) (absolute (r @ xs)) (absolute (r @ ys)) = Inr (map Normal xs, map Normal ys)"
  by (simp add: copy_paths_def)

lemma copy_guard_safe:
  assumes "plain (entries h) [] r"
  shows "safe (r @ [i]) (copy_guard (absolute r) (absolute (r @ i # xs)) (absolute (r @ i # ys))) h"
proof -
  let ?ensure = "\<lambda>zs. ensure_no_symlink_components_at_root (absolute r) (map Normal zs)"
  have e: "safe (r @ [i]) (?ensure (i # zs)) t" if "plain (entries t) [] r" for zs t
    unfolding ensure_no_symlink_components_at_root_def using that by (intro ensure_components_safe) simp_all
  have "plain (entries t) [] r" if "?ensure (i # xs) h = (Ok a, t)" for a t
    using ensure_result [OF that assms] assms by (auto simp: same_tree_parts)
  then show ?thesis
    unfolding copy_guard_def copy_paths_below and_then_checked prod.case
    by (intro safe_and_then e safe_if safe_throw safe_ret) (use assms in auto)
qed

lemma copy_guard_result:
  assumes "copy_guard (absolute r) (absolute (r @ i # xs)) (absolute (r @ i # ys)) h = (Ok rel, t)" and "plain (entries h) [] r"
  shows "rel = map Normal (i # ys) \<and> plain (entries t) [] (r @ i # xs)"
proof -
  from assms(1) obtain a u b where
    1: "ensure_no_symlink_components_at_root (absolute r) (map Normal (i # xs)) h = (Ok a, u)"
    and 2: "ensure_no_symlink_components_at_root (absolute r) (map Normal (i # ys)) u = (Ok b, t)" and "rel = map Normal (i # ys)"
    unfolding copy_guard_def copy_paths_below and_then_checked prod.case
    by (auto simp: and_then_Ok_iff proc_simps(1,2) split: if_splits)
  moreover have "same_tree h u" "plain (entries h) [] (r @ i # xs)" using ensure_result [OF 1 assms(2)] by auto
  moreover have "same_tree u t"
    using ensure_components_looks 2 unfolding ensure_no_symlink_components_at_root_def by blast
  ultimately show ?thesis by (simp add: same_tree_parts)
qed

lemma copy_file_safe: "safe (r @ [i]) (copy_file (absolute r) (absolute (r @ i # xs)) (absolute (r @ i # ys))) h"
proof -
  have p: "parent (absolute (r @ i # ys)) = Some (absolute (r @ butlast (i # ys)))"
    using parent_absolute [of r i] parent_absolute [of "r @ i # butlast ys" "last ys"] by (cases "ys = []") simp_all
  have "safe (r @ [i]) (copy_bytes s e) t" if "prefix (r @ [i]) s" "prefix (r @ [i]) e" for s e t
  proof -
    have "safe (r @ [i]) (and_then (fs (append_file e c)) (\<lambda>_. fs (syscall (\<lambda>_. ret ())))) t" for c
      using that(2) by (intro safe_and_then safe_fs safe_append syscall_safe safe_ret)
    from this [of "file_bytes s t"] show ?thesis using that(1) by (simp add: safe_def copy_bytes_def proc_simps(5) file_bytes_def)
  qed
  then show ?thesis
    unfolding copy_file_def p option.case strip_absolute ok_or_simps and_then_checked
    by (intro safe_and_then safe_ret create_dir_all_safe open_file_safe) (auto dest!: open_file_result)
qed

lemma copy_tree_safe:
  assumes "plain (entries h) [] r"
  shows "safe (r @ [i]) (copy_tree n (absolute r) (absolute (r @ i # xs)) (absolute (r @ i # ys))) h"
  using assms
proof (induction n arbitrary: xs ys h)
  case 0
  have "plain (entries t) [] (r @ i # xs)"
    if "copy_guard (absolute r) (absolute (r @ i # xs)) (absolute (r @ i # ys)) h = (Ok rel, t)" for rel t
    using copy_guard_result [OF that 0] by blast
  then show ?case
    by (auto simp: too_deep_def intro!: safe_and_then copy_guard_safe 0 safe_fs safe_looks safe_throw plain_reaches)
next
  case (Suc n)
  let ?src = "absolute (r @ i # xs)" and ?dst = "absolute (r @ i # ys)"
  have each: "safe (r @ [i]) (for_each (\<lambda>name. copy_tree n (absolute r) (join ?src [Normal name]) (join ?dst [Normal name])) ns) u"
    if "plain (entries u) [] r" for ns u
  proof (rule safe_for_each [where C = "\<lambda>h. plain (entries h) [] r"])
    fix name and h :: host assume h: "plain (entries h) [] r"
    then show s: "safe (r @ [i]) (copy_tree n (absolute r) (join ?src [Normal name]) (join ?dst [Normal name])) h"
      using Suc.IH [of h "xs @ [name]" "ys @ [name]"] by simp
    show "plain (entries t) [] r" if "copy_tree n (absolute r) (join ?src [Normal name]) (join ?dst [Normal name]) h = (Ok a, t)" for a t
      using safe_outside [OF s that] plain_outside h by blast
  qed (rule that)
  show ?case
    unfolding copy_tree.simps
  proof (rule safe_and_then [OF copy_guard_safe [OF Suc.prems]])
    fix rel t assume "copy_guard (absolute r) ?src ?dst h = (Ok rel, t)"
    from copy_guard_result [OF this Suc.prems] have rel: "rel = map Normal (i # ys)" and t: "plain (entries t) [] (r @ i # xs)" by auto
    have src: "safe (r @ [i]) (fs (read_dir ?src)) u" if "plain (entries u) [] (r @ i # xs)" for u
      using that by (intro safe_fs safe_read_dir plain_reaches) auto
    have created: "safe (r @ [i]) (create_dir_all_no_symlink (absolute r) rel) u" for u
      unfolding rel by (rule create_dir_all_safe) simp
    have make: "plain (entries v) [] (r @ i # xs)"
      if "create_dir_all_no_symlink (absolute r) rel u = (Ok a, v)" "plain (entries u) [] (r @ i # xs)" for a u v
      using keepsD [OF create_all_keeps_plain that(2,1)] .
    have read: "plain (entries v) [] r" if "fs (read_dir ?src) u = (Ok a, v)" "plain (entries u) [] (r @ i # xs)" for a u v
      using that same_tree_parts(1) [OF looks_steps(4) [OF that(1)]] by (auto dest: plain_front)
    show "safe (r @ [i]) (and_then (fs (symlink_metadata ?src)) (\<lambda>e.
       if is_symlink e then throw (symlink_path_error ?src)
       else if e = Directory then
         and_then (create_dir_all_no_symlink (absolute r) rel) (\<lambda>_.
         and_then (fs (read_dir ?src)) (for_each (\<lambda>name.
           copy_tree n (absolute r) (join ?src [Normal name]) (join ?dst [Normal name]))))
       else if is_file e then copy_file (absolute r) ?src ?dst
       else throw (proto ''backup copy source is neither a file nor a directory: {}'' [show_path ?src]))) t"
    proof (rule safe_and_then)
      show "safe (r @ [i]) (fs (symlink_metadata ?src)) t"
        using t by (intro safe_fs safe_looks plain_reaches) auto
      fix e u assume "fs (symlink_metadata ?src) t = (Ok e, u)"
      then have "plain (entries u) [] (r @ i # xs)" using t same_tree_parts(1) [OF looks_steps(1)] by simp
      then show "safe (r @ [i]) (if is_symlink e then throw (symlink_path_error ?src)
       else if e = Directory then
         and_then (create_dir_all_no_symlink (absolute r) rel) (\<lambda>_.
         and_then (fs (read_dir ?src)) (for_each (\<lambda>name.
           copy_tree n (absolute r) (join ?src [Normal name]) (join ?dst [Normal name]))))
       else if is_file e then copy_file (absolute r) ?src ?dst
       else throw (proto ''backup copy source is neither a file nor a directory: {}'' [show_path ?src])) u"
        by (intro safe_if safe_throw copy_file_safe safe_and_then created src each) (auto dest: make read)
    qed
  qed
qed

lemma copy_item_safe:
  "plain (entries h) [] r \<Longrightarrow> safe (r @ [i]) (copy_item (absolute r) (absolute (r @ i # xs)) (absolute (r @ i # ys))) h"
  unfolding copy_item_def by (rule copy_tree_safe)

end
