(* ===== verification/Backup_Trees.thy ===== *)
theory Backup_Trees
  imports Backup_Confined
begin

text \<open>
  The remaining uses of the file system by the backup service: listings, the free space, and the
  removal of placeholders. Also, the depth that bounds the recursions into directories is enough:
  a greater one changes nothing.
\<close>

section \<open>Listings and free space\<close>

lemma list_entries_safe:
  assumes "plain (entries h) [] p" and "prefix d p"
  shows "safe d (list_entries env (absolute p) ns listing) h"
  using assms(1)
proof (induction ns arbitrary: listing h)
  case (Cons x ns)
  have "relevant d (p @ [x])" using prefix_prefix [OF assms(2), of "[x]"] by (rule relevant_below)
  moreover have "plain (entries t) [] p" if "fs (symlink_metadata (absolute (p @ [x]))) h = (Ok e, t)" for e t
    using Cons.prems same_tree_parts(1) [OF looks_steps(1) [OF that]] by simp
  ultimately show ?case
    unfolding list_entries.simps Let_def join_absolute using Cons by (intro safe_and_then safe_lstat Cons.IH) auto
qed (simp add: safe_ret)

lemma contents_safe:
  assumes "plain (entries h) [] r"
  shows "safe (r @ [i]) (contents_of_directory env (absolute r) (absolute (r @ i # xs))) h"
proof -
  let ?p = "r @ i # xs"
  have e: "safe (r @ [i]) (ensure_no_symlink_components_at_root (absolute r) (map Normal (i # xs))) h"
    unfolding ensure_no_symlink_components_at_root_def using assms by (intro ensure_components_safe) simp_all
  have p: "plain (entries t) [] ?p"
    if "ensure_no_symlink_components_at_root (absolute r) (map Normal (i # xs)) h = (Ok a, t)" for a t
    using ensure_result [OF that assms] by (auto simp: same_tree_parts)
  have keep: "plain (entries u) [] ?p" if "same_tree t u" "plain (entries t) [] ?p" for t u
    using that by (simp add: same_tree_parts)
  show ?thesis
    unfolding contents_of_directory_def strip_absolute ok_or_simps and_then_checked
    by (intro safe_and_then e safe_if safe_throw safe_fs safe_looks safe_read_dir list_entries_safe plain_reaches)
      (auto dest!: p dest: keep [OF looks_steps(1)] keep [OF looks_steps(4)] simp del: list.map)
qed

lemma available_space_safe:
  assumes "plain (entries h) [] (r @ [i])"
  shows "safe (r @ [i]) (available_space (absolute (r @ [i]))) h"
proof -
  have s: "safe (r @ [i]) (fs (at_path True (absolute p) (\<lambda>_ x h. case x of None \<Rightarrow> (Err ENOENT, h) | Some _ \<Rightarrow> (Ok (free_bytes h), h)))) t"
    if "plain (entries t) [] p" "relevant (r @ [i]) p" for p t
    using that by (intro safe_fs at_path_safe plain_reaches) (auto simp: safe_def split: option.splits)
  have p: "plain (entries t) [] (r @ [i]) \<and> plain (entries t) [] r" if "fs (path_is_dir (absolute (r @ [i]))) h = (Ok b, t)" for b t
  proof -
    have "same_tree h t"
      using that by (auto simp: fs_def path_is_dir_def proc_simps split: prod.splits outcome.splits elim!: at_path_looks)
    then show ?thesis using assms by (auto simp: same_tree_parts dest: plain_front)
  qed
  show ?thesis
    unfolding available_space_def Let_def parent_absolute option.case if_distrib [of absolute, symmetric]
    by (rule safe_and_then [OF _ s]) (use assms in \<open>auto intro!: safe_fs safe_path_is_dir plain_reaches dest: p\<close>)
qed

lemma is_missing_safe: "reaches h False p \<Longrightarrow> relevant d p \<Longrightarrow> safe d (is_missing (absolute p)) h"
  using safe_looks(1) [of h p d] by (auto simp: safe_def is_missing_def split: prod.splits outcome.splits)

lemma is_missing_looks: "is_missing p h = (r, t) \<Longrightarrow> same_tree h t"
  by (auto simp: is_missing_def dest: looks split: prod.splits outcome.splits)

section \<open>Placeholders\<close>

lemma remove_empty_parents_safe:
  assumes "layout_at lay r i" and "plain (entries h) [] r" and "dir = None \<or> dir = Some (absolute r) \<or> (\<exists>xs. dir = Some (absolute (r @ i # xs)))"
  shows "safe (r @ [i]) (remove_empty_parents lay dir) h"
  using assms
proof (induction lay dir arbitrary: h rule: remove_empty_parents.induct)
  case (1 lay dir)
  have dev: "device_directory lay = absolute (r @ [i])" using "1.prems"(1) by (simp add: layout_at_def)
  show ?case
  proof (cases "\<exists>x xs. dir = Some (absolute (r @ i # x # xs))")
    case False
    then have "dir = None \<or> dir = Some (absolute r) \<or> dir = Some (absolute (r @ [i]))"
      using "1.prems"(3) by (metis neq_Nil_conv)
    then show ?thesis
      by (subst remove_empty_parents.simps) (auto simp: dev absolute_def safe_ret dest: prefix_length_le split: option.splits)
  next
    case True
    then obtain x xs where dir: "dir = Some (absolute (r @ i # x # xs))" by blast
    let ?p = "r @ i # x # xs"
    have inside: "\<not> (absolute ?p = device_directory lay \<or> \<not> prefix (device_directory lay) (absolute ?p))"
      by (simp add: dev absolute_def)
    have par: "parent (absolute ?p) = Some (absolute (r @ i # butlast (x # xs)))"
      using parent_absolute [of "r @ [i]" x] parent_absolute [of "r @ i # x # butlast xs" "last xs"] by (cases "xs = []") simp_all
    have guard: "plain (entries t) [] ?p" if "guard_layout_path lay (absolute ?p) h = (Ok a, t)" for a t
      using guard_result [OF that "1.prems"(1,2)] .
    have rd: "plain (entries u) [] ?p" if "fs (read_dir (absolute ?p)) t = (Ok a, u)" "plain (entries t) [] ?p" for a t u
      using that same_tree_parts(1) [OF looks_steps(4) [OF that(1)]] by simp
    have gone: "plain (entries v) [] r" if "fs (remove_dir (absolute ?p)) u = (Ok a, v)" "plain (entries u) [] ?p" for a u v
    proof -
      have "safe (r @ [i]) (fs (remove_dir (absolute ?p))) u" using that(2) by (intro safe_fs safe_remove_dir plain_reaches) auto
      then have "same_outside (r @ [i]) u v" using that(1) by (rule safe_outside)
      then show ?thesis using plain_outside that(2) plain_front by blast
    qed
    have IH: "safe (r @ [i]) (remove_empty_parents lay (parent (absolute ?p))) v" if "plain (entries v) [] r" for v
      using "1.IH" [OF dir inside _ "1.prems"(1) that] par by blast
    show ?thesis
      unfolding dir
      by (subst remove_empty_parents.simps, unfold option.case if_not_P [OF inside],
          intro safe_and_then guard_safe [OF "1.prems"(1,2)] safe_if safe_ret safe_fs safe_read_dir safe_remove_dir plain_reaches IH)
        (auto dest: guard rd gone)
  qed
qed

lemma cleanup_file_safe:
  assumes "layout_at lay r i" and "plain (entries h) [] r"
  shows "safe (r @ [i]) (cleanup_discarded_file lay (absolute (r @ i # xs))) h"
proof -
  let ?p = "r @ i # xs"
  have par: "parent (absolute ?p) = Some (absolute (r @ butlast (i # xs)))"
    using parent_absolute [of r i] parent_absolute [of "r @ i # butlast xs" "last xs"] by (cases "xs = []") simp_all
  have guard: "plain (entries t) [] ?p" if "guard_layout_path lay (absolute ?p) h = (Ok a, t)" for a t
    using guard_result [OF that assms] .
  have look: "plain (entries u) [] ?p" if "unless_missing (symlink_metadata (absolute ?p)) t = (Ok a, u)" "plain (entries t) [] ?p" for a t u
    using that same_tree_parts(1) [OF looks_steps(5) [OF that(1)]] by simp
  have parents: "safe (r @ [i]) (remove_empty_parents lay (parent (absolute ?p))) v" if "plain (entries v) [] r" for v
    unfolding par by (rule remove_empty_parents_safe [OF assms(1) that]) auto
  have gone: "plain (entries v) [] r" if "fs (remove_file (absolute ?p)) u = (Ok a, v)" "plain (entries u) [] ?p" for a u v
  proof -
    have "safe (r @ [i]) (fs (remove_file (absolute ?p))) u" using that(2) by (intro safe_fs safe_changes plain_reaches) auto
    then have "same_outside (r @ [i]) u v" using that(1) by (rule safe_outside)
    then show ?thesis using plain_outside that(2) plain_front by blast
  qed
  have rest: "safe (r @ [i]) (case m of None \<Rightarrow> ret ()
       | Some e \<Rightarrow>
           if is_symlink e then throw (symlink_path_error (absolute ?p))
           else if e = Directory
           then throw (proto ''filtered backup placeholder unexpectedly became a directory: {}'' [show_path (absolute ?p)])
           else and_then (fs (remove_file (absolute ?p))) (\<lambda>_. remove_empty_parents lay (parent (absolute ?p)))) u"
    if "plain (entries u) [] ?p" for m u
    using that
    by (cases m) (auto simp: safe_ret safe_throw intro!: safe_and_then parents safe_fs safe_changes plain_reaches dest: gone)
  show ?thesis
    unfolding cleanup_discarded_file_def
    by (intro safe_and_then [OF guard_safe [OF assms] safe_and_then [OF _ rest]] safe_unless_missing safe_looks plain_reaches)
      (auto dest: guard look)
qed

text \<open>\<open>inside r i p\<close>: the path names the directory of the device \<open>i\<close> below \<open>r\<close>, or something in it.\<close>

definition inside :: "names \<Rightarrow> string \<Rightarrow> path \<Rightarrow> bool" where
  "inside r i p \<longleftrightarrow> (\<exists>xs. p = absolute (r @ i # xs))"

lemma cleanup_safe:
  assumes "layout_at lay r i" and "plain (entries h) [] r" and "list_all (inside r i) ps"
  shows "safe (r @ [i]) (cleanup_discarded_files lay ps) h"
  unfolding cleanup_discarded_files_def
proof (rule safe_for_each [where C = "\<lambda>h. plain (entries h) [] r"])
  have s: "safe (r @ [i]) (cleanup_discarded_file lay p) h" if "inside r i p" "plain (entries h) [] r" for p h
    using that cleanup_file_safe [OF assms(1)] by (auto simp: inside_def)
  show "safe (r @ [i]) (cleanup_discarded_file lay p) h" if "p \<in> set ps" "plain (entries h) [] r" for p and h :: host
    using s that assms(3) by (auto simp: list_all_iff)
  show "plain (entries t) [] r"
    if "p \<in> set ps" "plain (entries h) [] r" "cleanup_discarded_file lay p h = (Ok u, t)" for p u t and h :: host
  proof -
    have "safe (r @ [i]) (cleanup_discarded_file lay p) h" using s that assms(3) by (auto simp: list_all_iff)
    then have "same_outside (r @ [i]) h t" using that(3) by (rule safe_outside)
    then show ?thesis using plain_outside that(2) by blast
  qed
qed (rule assms(2))

section \<open>The depth of the recursions is enough\<close>

lemma path_bytes_length: "length p \<le> path_bytes p"
  unfolding path_bytes_def by (induction p) (auto simp: component_bytes_def split: component.splits)

lemma lstat_too_deep:
  assumes "PATH_MAX \<le> length p"
  shows "and_then (fs (symlink_metadata p)) f = and_then (fs (symlink_metadata p)) g"
proof (rule ext)
  fix h
  have "resolve False p h = Inl ENAMETOOLONG" for h
    using assms path_bytes_length [of p] by (auto simp: resolve_def PATH_MAX_def)
  then have "fst (fs (symlink_metadata p) h) \<noteq> Ok e" for e
    by (auto simp: fs_def symlink_metadata_def at_path_def syscall_def split: list.splits fs_event.splits if_splits)
  then show "and_then (fs (symlink_metadata p)) f h = and_then (fs (symlink_metadata p)) g h"
    by (auto simp: and_then_def split: prod.splits outcome.splits) (metis fst_conv)+
qed

lemma for_each_cong: "(\<And>x. x \<in> set xs \<Longrightarrow> f x = g x) \<Longrightarrow> for_each f xs = for_each g xs"
  by (induction xs) auto

lemma length_join [simp]: "length (join p [Normal x]) = Suc (length p)"
  by (simp add: join_def is_absolute_def)

lemma tree_depth_enough: "PATH_MAX \<le> n + length p \<Longrightarrow> tree_has_no_symlinks (Suc n) p = tree_has_no_symlinks n p"
proof (induction n arbitrary: p)
  case 0
  then show ?case by (auto simp: too_deep_def intro!: lstat_too_deep)
next
  case (Suc n)
  have "tree_has_no_symlinks (Suc n) (join p [Normal x]) = tree_has_no_symlinks n (join p [Normal x])" for x
    using Suc.prems by (intro Suc.IH) simp
  then show ?case by (simp only: tree_has_no_symlinks.simps(2) [of "Suc n"] tree_has_no_symlinks.simps(2) [of n])
qed

lemma copy_depth_enough: "PATH_MAX \<le> n + length src \<Longrightarrow> copy_tree (Suc n) root src dst = copy_tree n root src dst"
proof (induction n arbitrary: src dst)
  case 0
  show ?case
    unfolding copy_tree.simps too_deep_def
    by (rule arg_cong [where f = "and_then _"], rule ext, rule lstat_too_deep) (use 0 in simp)
next
  case (Suc n)
  have "copy_tree (Suc n) root (join src [Normal x]) (join dst [Normal x]) = copy_tree n root (join src [Normal x]) (join dst [Normal x])" for x
    using Suc.prems by (intro Suc.IH) simp
  then show ?case by (simp only: copy_tree.simps(2) [of "Suc n"] copy_tree.simps(2) [of n])
qed

section \<open>Moves and copies\<close>

lemma resolve_plain:
  assumes "resolve_relative_path lay rel h = (Ok p, t)" and "layout_at lay r i"
  obtains xs where "p = absolute (r @ i # xs)" "plain (entries t) [] (r @ i # xs)" "same_tree h t"
  using resolve_result [OF assms] by (auto simp: same_tree_parts)

text \<open>Both paths of a move or a copy are checked before anything is changed.\<close>

lemma two_paths_safe:
  assumes lay: "layout_at lay r i"
    and rest: "\<And>xs ys t. plain (entries t) [] (r @ i # xs) \<Longrightarrow> safe (r @ [i]) (f (absolute (r @ i # xs)) (absolute (r @ i # ys))) t"
  shows "safe (r @ [i]) (and_then (resolve_relative_path lay src) (\<lambda>p. and_then (resolve_relative_path lay dst) (\<lambda>q.
      and_then (if filtered then is_missing p else ret False) (\<lambda>skip. if skip then ret None else f p q)))) h"
proof (rule safe_and_then [OF resolve_safe [OF lay]])
  fix p t assume "resolve_relative_path lay src h = (Ok p, t)"
  then obtain xs where p: "p = absolute (r @ i # xs)" and t: "plain (entries t) [] (r @ i # xs)"
    using resolve_plain [OF _ lay] by metis
  show "safe (r @ [i]) (and_then (resolve_relative_path lay dst) (\<lambda>q.
      and_then (if filtered then is_missing p else ret False) (\<lambda>skip. if skip then ret None else f p q))) t"
  proof (rule safe_and_then [OF resolve_safe [OF lay]])
    fix q u assume "resolve_relative_path lay dst t = (Ok q, u)"
    then obtain ys where q: "q = absolute (r @ i # ys)" and u: "plain (entries u) [] (r @ i # xs)"
      using resolve_plain [OF _ lay] t by (metis same_tree_parts(1))
    have "plain (entries v) [] (r @ i # xs)" if "(if filtered then is_missing p else ret False) u = (Ok b, v)" for b v
      using that u is_missing_looks [of p u] by (auto simp: ret_def same_tree_parts split: if_splits)
    then show "safe (r @ [i]) (and_then (if filtered then is_missing p else ret False) (\<lambda>skip. if skip then ret None else f p q)) u"
      unfolding p q using u by (intro safe_and_then safe_if safe_ret rest is_missing_safe plain_reaches) auto
  qed
qed

lemma move_path_safe:
  assumes lay: "layout_at lay r i"
  shows "safe (r @ [i]) (move_path lay filtered src dst) h"
  unfolding move_path_def
proof (rule two_paths_safe [OF lay])
  fix xs ys and t :: host
  let ?p = "absolute (r @ i # xs)" and ?q = "absolute (r @ i # ys)"
  assume t: "plain (entries t) [] (r @ i # xs)"
  have make: "plain (entries u) [] (r @ i # xs)" if "create_layout_parent_directory lay ?q t = (Ok a, u)" for a u
    using keepsD [OF create_layout_keeps_plain t that] .
  have look: "plain (entries v) [] r" if "fs (symlink_metadata ?p) u = (Ok e, v)" "plain (entries u) [] (r @ i # xs)" for e u v
    using that same_tree_parts(1) [OF looks_steps(1) [OF that(1)]] by (auto dest: plain_front)
  show "safe (r @ [i]) (and_then (create_layout_parent_directory lay ?q) (\<lambda>_. and_then (fs (symlink_metadata ?p)) (\<lambda>e.
      and_then (rename_layout_path lay ?p ?q) (\<lambda>_. ret (Some (?p, ?q, e = Directory)))))) t"
    by (intro safe_and_then create_layout_parent_safe rename_layout_safe lay safe_fs safe_looks safe_ret plain_reaches)
      (auto dest: make look)
qed

lemma copy_path_safe:
  assumes lay: "layout_at lay r i"
  shows "safe (r @ [i]) (copy_path lay filtered src dst) h"
  unfolding copy_path_def
proof (rule two_paths_safe [OF lay])
  fix xs ys and t :: host
  let ?p = "absolute (r @ i # xs)" and ?q = "absolute (r @ i # ys)"
  assume t: "plain (entries t) [] (r @ i # xs)"
  have look: "plain (entries v) [] r" if "fs (symlink_metadata ?p) t = (Ok e, v)" for e v
    using t same_tree_parts(1) [OF looks_steps(1) [OF that(1)]] by (auto dest: plain_front)
  have root: "layout_root lay = absolute r" using lay by (simp add: layout_at_def)
  show "safe (r @ [i]) (and_then (fs (symlink_metadata ?p)) (\<lambda>e. and_then (copy_item (layout_root lay) ?p ?q) (\<lambda>_.
      ret (Some (?p, ?q, e = Directory))))) t"
    unfolding root using t by (intro safe_and_then copy_item_safe safe_fs safe_looks safe_ret plain_reaches) (auto dest: look)
qed

lemma two_paths_inside:
  assumes "layout_at lay r i"
  shows "move_path lay filtered src dst h = (Ok (Some (p, q, b)), t) \<Longrightarrow> inside r i p \<and> inside r i q"
    and "copy_path lay filtered src dst h = (Ok (Some (p, q, b)), t) \<Longrightarrow> inside r i p \<and> inside r i q"
  unfolding move_path_def copy_path_def
  by (auto simp: and_then_Ok_iff proc_simps(1) inside_def split: if_splits dest!: resolve_result [OF _ assms])

end
