(* ===== verification/Backup_Handlers.thy ===== *)
theory Backup_Handlers
  imports Backup_Trees
begin

text \<open>
  What it takes for the commands of the device to keep a relation between two clients, as the
  interface \<open>backup_relation\<close>: the two differ at most in their disks, every stream operation and
  every file operation on a path that the path policy produced keeps them related and gives the
  same result. Then the same holds of every command. Two uses: a client related to itself by an
  invariant, and two clients whose disks differ only outside the backup directory.
\<close>

section \<open>Relations through a handler\<close>

definition agrees :: "('s \<Rightarrow> 's \<Rightarrow> bool) \<Rightarrow> ('s, 'e, 'a) proc \<Rightarrow> bool" where
  "agrees R m \<longleftrightarrow> (\<forall>s t. R s t \<longrightarrow> fst (m s) = fst (m t) \<and> R (snd (m s)) (snd (m t)))"

definition yields :: "('s \<Rightarrow> 's \<Rightarrow> bool) \<Rightarrow> ('s, 'e, 'a) proc \<Rightarrow> ('a \<Rightarrow> bool) \<Rightarrow> bool" where
  "yields R m Q \<longleftrightarrow> (\<forall>s t x u. R s t \<longrightarrow> m s = (Ok x, u) \<longrightarrow> Q x)"

named_theorems agrees_intros

lemma agreesD: "agrees R m \<Longrightarrow> R s t \<Longrightarrow> m s = (r, u) \<Longrightarrow> m t = (r', v) \<Longrightarrow> r = r' \<and> R u v"
  unfolding agrees_def by (metis fst_conv snd_conv)

lemma agrees_basic [agrees_intros]:
  "agrees R (ret x)" "agrees R (throw e)" "agrees R (check (\<lambda>_. g))"
  by (auto simp: agrees_def proc_simps split: sum.splits)

lemma agrees_modify [agrees_intros]: "(\<And>s t. R s t \<Longrightarrow> R (g s) (g t)) \<Longrightarrow> agrees R (modify g)"
  by (simp add: agrees_def proc_simps)

lemma agrees_bind:
  assumes "agrees R m" and "yields R m Q" and "\<And>x. Q x \<Longrightarrow> agrees R (f x)"
  shows "agrees R (and_then m f)"
  unfolding agrees_def
proof (intro allI impI)
  fix s t assume "R s t"
  obtain r u r' v where u: "m s = (r, u)" and v: "m t = (r', v)" by (metis prod.collapse)
  have "r = r'" "R u v" using agreesD [OF assms(1) \<open>R s t\<close> u v] by auto
  show "fst (and_then m f s) = fst (and_then m f t) \<and> R (snd (and_then m f s)) (snd (and_then m f t))"
  proof (cases r)
    case (Ok x)
    then have "Q x" using assms(2) \<open>R s t\<close> u by (auto simp: yields_def)
    then have "agrees R (f x)" by (rule assms(3))
    then show ?thesis using Ok u v \<open>r = r'\<close> \<open>R u v\<close> by (simp add: agrees_def)
  qed (use u v \<open>r = r'\<close> \<open>R u v\<close> in auto)
qed

lemma agrees_and_then [agrees_intros]:
  "agrees R m \<Longrightarrow> (\<And>x. agrees R (f x)) \<Longrightarrow> agrees R (and_then m f)"
  by (rule agrees_bind [where Q = "\<lambda>_. True"]) (auto simp: yields_def)

lemma yields_bind:
  assumes "agrees R m" and "yields R m Q" and "\<And>x. Q x \<Longrightarrow> yields R (f x) P"
  shows "yields R (and_then m f) P"
  unfolding yields_def
proof (intro allI impI)
  fix s t x u assume "R s t" and "and_then m f s = (Ok x, u)"
  then obtain y v where v: "m s = (Ok y, v)" and x: "f y v = (Ok x, u)" by (auto simp: and_then_Ok_iff)
  obtain r w where w: "m t = (r, w)" by fastforce
  have "R v w" "Q y" using agreesD [OF assms(1) \<open>R s t\<close> v w] assms(2) \<open>R s t\<close> v by (auto simp: yields_def)
  then show "P x" using assms(3) x by (auto simp: yields_def)
qed

lemma yields_and_then: "agrees R m \<Longrightarrow> (\<And>x. yields R (f x) P) \<Longrightarrow> yields R (and_then m f) P"
  by (rule yields_bind [where Q = "\<lambda>_. True"]) (auto simp: yields_def)

lemma yields_ret: "P x \<Longrightarrow> yields R (ret x) P"
  by (simp add: yields_def proc_simps)

lemma yields_if: "(b \<Longrightarrow> yields R m P) \<Longrightarrow> (\<not> b \<Longrightarrow> yields R m' P) \<Longrightarrow> yields R (if b then m else m') P"
  by simp

lemma yields_reading: "(\<And>s t. R s t \<Longrightarrow> yields R (g s) P) \<Longrightarrow> yields R (reading g) P"
  unfolding yields_def proc_simps by blast

lemma agrees_if [agrees_intros]:
  "(b \<Longrightarrow> agrees R m) \<Longrightarrow> (\<not> b \<Longrightarrow> agrees R m') \<Longrightarrow> agrees R (if b then m else m')"
  by simp

lemma agrees_option [agrees_intros]:
  "(x = None \<Longrightarrow> agrees R m) \<Longrightarrow> (\<And>y. x = Some y \<Longrightarrow> agrees R (f y)) \<Longrightarrow>
   agrees R (case x of None \<Rightarrow> m | Some y \<Rightarrow> f y)"
  by (cases x) auto

lemma agrees_reading [agrees_intros]:
  "(\<And>s t. R s t \<Longrightarrow> g t = g s \<and> agrees R (g s)) \<Longrightarrow> agrees R (reading g)"
  by (auto simp: agrees_def proc_simps)

lemma agrees_try [agrees_intros]: "agrees R m \<Longrightarrow> agrees R (try_proc m)"
proof -
  assume m: "agrees R m"
  show ?thesis
    unfolding agrees_def
  proof (intro allI impI)
    fix s t assume "R s t"
    obtain r u r' v where u: "m s = (r, u)" and v: "m t = (r', v)" by (metis prod.collapse)
    show "fst (try_proc m s) = fst (try_proc m t) \<and> R (snd (try_proc m s)) (snd (try_proc m t))"
      using agreesD [OF m \<open>R s t\<close> u v] u v by (cases r) (auto simp: try_proc_def)
  qed
qed

lemma agrees_for_each [agrees_intros]: "(\<And>x. agrees R (f x)) \<Longrightarrow> agrees R (for_each f xs)"
  by (induction xs) (auto intro: agrees_intros)

lemma agrees_keeps: "agrees (\<lambda>s t. s = t \<and> I s) m \<longleftrightarrow> keeps I m"
  by (auto simp: agrees_def keeps_def)

text \<open>A loop whose steps use up input agrees what its steps respect.\<close>

lemma agrees_loop:
  assumes "\<And>s. f s = and_then step (\<lambda>x t. case stop x of None \<Rightarrow> f t | Some y \<Rightarrow> (Ok y, t)) s"
    and "\<And>s x t. step s = (Ok x, t) \<Longrightarrow> m t < (m s :: nat)" and "agrees R step"
  shows "agrees R f"
proof -
  have "R s t \<Longrightarrow> fst (f s) = fst (f t) \<and> R (snd (f s)) (snd (f t))" for s t
  proof (induction "m s" arbitrary: s t rule: less_induct)
    case less
    obtain r u r' v where u: "step s = (r, u)" and v: "step t = (r', v)" by (metis prod.collapse)
    have rr: "r = r'" "R u v" using agreesD [OF assms(3) less.prems u v] by auto
    have fs: "f s = and_then step (\<lambda>x t. case stop x of None \<Rightarrow> f t | Some y \<Rightarrow> (Ok y, t)) s"
      and ft: "f t = and_then step (\<lambda>x t. case stop x of None \<Rightarrow> f t | Some y \<Rightarrow> (Ok y, t)) t" by (rule assms(1))+
    show ?case
    proof (cases r)
      case (Ok x)
      then show ?thesis
        using less.hyps [of u v] assms(2) [of s x u] u v rr unfolding fs ft by (simp split: option.split)
    qed (use u v rr in \<open>simp_all add: fs ft\<close>)
  qed
  then show ?thesis by (simp add: agrees_def)
qed

section \<open>The interface\<close>

locale client_relation =
  fixes R :: "backup_client \<Rightarrow> backup_client \<Rightarrow> bool"
  assumes same_fields: "R s t \<Longrightarrow> t = s\<lparr>disk := disk t\<rparr>"
    and counter: "R s t \<Longrightarrow> R (s\<lparr>reported_free_space := a\<rparr>) (t\<lparr>reported_free_space := a\<rparr>)"
      "R s t \<Longrightarrow> R (s\<lparr>required_free_space := b\<rparr>) (t\<lparr>required_free_space := b\<rparr>)"
      "R s t \<Longrightarrow> R (s\<lparr>transfer_files := m\<rparr>) (t\<lparr>transfer_files := m\<rparr>)"
      "R s t \<Longrightarrow> R (s\<lparr>transfer_bytes := n\<rparr>) (t\<lparr>transfer_bytes := n\<rparr>)"
    and messages: "agrees R (on_link (recv_message parse))" "agrees R (on_link (send_message ser message))"

locale backup_relation = client_relation R for R +
  fixes lay :: backup_layout and within :: "path \<Rightarrow> bool" and tracked :: "path \<Rightarrow> bool" and handle :: "names \<Rightarrow> bool"
  assumes stream: "agrees R (on_io (sock_read_exact k))" "agrees R (on_io (sock_write_all bs))" "agrees R (on_io sock_flush)"
    and discarded: "R s t \<Longrightarrow> list_all tracked (discarded_files s)"
    and discard: "R s t \<Longrightarrow> list_all tracked ps \<Longrightarrow> R (s\<lparr>discarded_files := ps\<rparr>) (t\<lparr>discarded_files := ps\<rparr>)"
    and tracks: "within p \<Longrightarrow> tracked p"
    and moved: "within p \<Longrightarrow> within q \<Longrightarrow> tracked u \<Longrightarrow> affected p b' u \<Longrightarrow> tracked (relocated p q u)"
    and resolved: "agrees R (on_disk (resolve_relative_path lay rel))"
      "yields R (on_disk (resolve_relative_path lay rel)) within"
    and created: "within p \<Longrightarrow> agrees R (on_disk (create_layout_directory lay p))"
      "within p \<Longrightarrow> agrees R (on_disk (create_layout_parent_directory lay p))"
    and opened: "within p \<Longrightarrow> agrees R (on_disk (open_layout_file_for_write lay p))"
      "within p \<Longrightarrow> agrees R (on_disk (open_layout_file_for_read lay p))"
      "within p \<Longrightarrow> yields R (on_disk (open_layout_file_for_write lay p)) handle"
      "within p \<Longrightarrow> yields R (on_disk (open_layout_file_for_read lay p)) handle"
    and used: "handle q' \<Longrightarrow> agrees R (on_disk (fs (append_file q' bs)))"
      "handle q' \<Longrightarrow> agrees R (on_disk (fs (read_file_at q' off k)))"
    and removed: "within p \<Longrightarrow> agrees R (on_disk (remove_layout_path lay p))"
    and listed: "within p \<Longrightarrow> agrees R (on_disk (contents_of_directory env (layout_root lay) p))"
    and space: "agrees R (on_disk (available_space (device_directory lay)))"
    and move: "agrees R (on_disk (move_path lay filtered src dst))"
      "yields R (on_disk (move_path lay filtered src dst)) (\<lambda>m. \<forall>p q b. m = Some (p, q, b) \<longrightarrow> within p \<and> within q)"
    and copy: "agrees R (on_disk (copy_path lay filtered src dst))"
      "yields R (on_disk (copy_path lay filtered src dst)) (\<lambda>m. \<forall>p q b. m = Some (p, q, b) \<longrightarrow> within p \<and> within q)"
begin

lemma fields:
  assumes "R s t"
  shows "reported_free_space t = reported_free_space s" "required_free_space t = required_free_space s"
    "backup_filter t = backup_filter s" "discarded_files t = discarded_files s"
    "transfer_files t = transfer_files s" "transfer_bytes t = transfer_bytes s" "link t = link s"
  using arg_cong [OF same_fields [OF assms], of reported_free_space] arg_cong [OF same_fields [OF assms], of required_free_space]
    arg_cong [OF same_fields [OF assms], of backup_filter] arg_cong [OF same_fields [OF assms], of discarded_files]
    arg_cong [OF same_fields [OF assms], of transfer_files] arg_cong [OF same_fields [OF assms], of transfer_bytes]
    arg_cong [OF same_fields [OF assms], of link]
  by simp_all

lemmas agrees_steps = messages stream resolved(1) created opened(1,2) used removed listed space move(1) copy(1)

lemma agrees_account [agrees_intros]:
  "agrees R account_transfer_file" "agrees R (account_transfer_bytes n)"
  unfolding agrees_def account_transfer_file_def account_transfer_bytes_def
  by (auto simp: fields counter split: option.splits)

lemma agrees_read [agrees_intros]: "agrees R read_u32_be" "agrees R read_prefixed_string"
  "agrees R (write_prefixed_string v)" "agrees R (write_transfer_frame c p)"
  unfolding read_u32_be_def read_prefixed_string_def write_prefixed_string_def write_transfer_frame_def Let_def
  by (intro agrees_intros agrees_steps)+

lemma agrees_discard [agrees_intros]: "agrees R (discard_transfer_payload k)"
proof (induction k rule: discard_transfer_payload.induct)
  case (1 k)
  then show ?case by (subst discard_transfer_payload.simps) (auto intro!: agrees_intros agrees_steps)
qed

lemma agrees_copy_payload [agrees_intros]: "handle q \<Longrightarrow> agrees R (copy_transfer_payload q k)"
proof (induction q k rule: copy_transfer_payload.induct)
  case (1 q k)
  then show ?case by (subst copy_transfer_payload.simps) (auto intro!: agrees_intros agrees_steps)
qed

lemma agrees_resolve:
  "(\<And>p. within p \<Longrightarrow> agrees R (f p)) \<Longrightarrow> agrees R (and_then (on_disk (resolve_relative_path lay rel)) f)"
  by (rule agrees_bind [OF resolved])

lemma agrees_open:
  "within p \<Longrightarrow> (\<And>q. handle q \<Longrightarrow> agrees R (f q)) \<Longrightarrow> agrees R (and_then (on_disk (open_layout_file_for_write lay p)) f)"
  by (rule agrees_bind [OF opened(1,3)])

lemma agrees_receive_frame [agrees_intros]:
  "(\<And>q. file = Some q \<Longrightarrow> handle q) \<Longrightarrow> agrees R (receive_frame file_name file)"
  unfolding receive_frame_def read_transfer_error_preview_def Let_def
  by (intro agrees_intros agrees_steps) auto

lemma agrees_receive_frames [agrees_intros]:
  "(\<And>q. file = Some q \<Longrightarrow> handle q) \<Longrightarrow> agrees R (receive_frames file_name file)"
  by (rule agrees_loop [OF receive_frames_loop receive_frame_uses agrees_receive_frame])

lemma agrees_push:
  "within p \<Longrightarrow> agrees R (modify (\<lambda>s. s\<lparr>discarded_files := discarded_files s @ [p]\<rparr>))"
  by (rule agrees_modify) (auto simp: fields tracks intro!: discard dest: discarded)

lemma open_upload_yields:
  "yields R (open_upload lay d f) (\<lambda>file. \<forall>q. file = Some q \<longrightarrow> handle q)"
  unfolding open_upload_def Let_def
proof (rule yields_bind [OF resolved])
  fix p assume p: "within p"
  show "yields R (and_then (on_disk (create_layout_parent_directory lay p)) (\<lambda>_. reading (\<lambda>s.
     and_then (on_disk (open_layout_file_for_write lay p)) (\<lambda>q.
     if case backup_filter s of None \<Rightarrow> True | Some fl \<Rightarrow> should_preserve_backup_file f d fl then ret (Some q)
     else and_then (modify (\<lambda>s. s\<lparr>discarded_files := discarded_files s @ [p]\<rparr>)) (\<lambda>_. ret None))))) (\<lambda>file. \<forall>q. file = Some q \<longrightarrow> handle q)"
    by (intro yields_and_then [OF created(2) [OF p]] yields_reading yields_bind [OF opened(1) [OF p] opened(3) [OF p]] yields_if yields_ret
        yields_and_then [OF agrees_push [OF p]]) auto
qed

lemma agrees_open_upload: "agrees R (open_upload lay d f)"
  unfolding open_upload_def Let_def
proof (rule agrees_resolve)
  fix p assume p: "within p"
  show "agrees R (and_then (on_disk (create_layout_parent_directory lay p)) (\<lambda>_. reading (\<lambda>s.
     and_then (on_disk (open_layout_file_for_write lay p)) (\<lambda>q.
     if case backup_filter s of None \<Rightarrow> True | Some fl \<Rightarrow> should_preserve_backup_file f d fl then ret (Some q)
     else and_then (modify (\<lambda>s. s\<lparr>discarded_files := discarded_files s @ [p]\<rparr>)) (\<lambda>_. ret None)))))"
    by (rule agrees_and_then [OF created(2) [OF p]], rule agrees_reading)
      (auto simp: fields intro!: agrees_intros agrees_push opened p)
qed

lemma agrees_receive_file: "agrees R (receive_file lay)"
  unfolding receive_file_def
  by (intro agrees_intros agrees_bind [OF agrees_open_upload open_upload_yields]) auto

lemma agrees_receive_uploaded_files [agrees_intros]: "agrees R (receive_uploaded_files lay)"
  by (rule agrees_loop [OF receive_uploaded_files_loop receive_file_uses agrees_receive_file])

lemma agrees_send_piece: "handle q \<Longrightarrow> agrees R (send_piece q off)"
  unfolding send_piece_def
  by (auto intro!: agrees_intros agrees_steps split: sum.split backup_error.split io_failure.split)

lemma agrees_send_pieces [agrees_intros]:
  assumes "handle q"
  shows "agrees R (send_pieces q off)"
proof -
  have "R s t \<Longrightarrow> fst (send_pieces q off s) = fst (send_pieces q off t) \<and> R (snd (send_pieces q off s)) (snd (send_pieces q off t))"
    for s t off
  proof (induction "unread q off s" arbitrary: off s t rule: less_induct)
    case less
    obtain r u r' v where u: "send_piece q off s = (r, u)" and v: "send_piece q off t = (r', v)" by (metis prod.collapse)
    have rr: "r = r'" "R u v" using agreesD [OF agrees_send_piece [OF assms] less.prems u v] by auto
    show ?case
    proof (cases "\<exists>off'. r = Ok (Inr off')")
      case True
      then obtain off' where r: "r = Ok (Inr off')" by blast
      have "unread q off' u < unread q off s" using send_piece_progress u r by blast
      from less.hyps [OF this rr(2)] show ?thesis
        using u v r rr(1) by (simp add: send_pieces.simps [of q off] and_then_def)
    next
      case False
      then show ?thesis
        using u v rr by (cases r) (auto simp: send_pieces.simps [of q off] and_then_def split: sum.splits)
    qed
  qed
  then show ?thesis by (simp add: agrees_def)
qed

lemma agrees_send_requested_file [agrees_intros]: "agrees R (send_requested_file env lay f failures)"
proof -
  have opened_then: "agrees R (and_then (try_proc (on_disk (open_layout_file_for_read lay p))) k)"
    if "within p" "\<And>e. agrees R (k (Inl e))" "\<And>q. handle q \<Longrightarrow> agrees R (k (Inr q))" for p k
  proof (rule agrees_bind [OF agrees_try [OF opened(2) [OF that(1)]]])
    show "yields R (try_proc (on_disk (open_layout_file_for_read lay p))) (\<lambda>r. \<forall>q. r = Inr q \<longrightarrow> handle q)"
      using opened(4) [OF that(1)] by (auto simp: yields_def try_proc_Ok_iff)
    show "agrees R (k r)" if "\<forall>q. r = Inr q \<longrightarrow> handle q" for r
      using that \<open>\<And>e. agrees R (k (Inl e))\<close> \<open>\<And>q. handle q \<Longrightarrow> agrees R (k (Inr q))\<close> by (cases r) auto
  qed
  show ?thesis
    unfolding send_requested_file_def Let_def
    by (rule agrees_and_then [OF agrees_basic(3)], rule agrees_resolve, rule agrees_and_then [OF agrees_account(1)],
        rule agrees_and_then [OF agrees_read(3)], rule opened_then)
      (auto intro!: agrees_intros split: backup_error.split io_failure.split)
qed

lemma agrees_send_requested_files [agrees_intros]: "agrees R (send_requested_files env lay files)"
proof -
  have "agrees R (send_each_requested env lay files failures)" for failures
    by (induction files arbitrary: failures) (auto intro!: agrees_intros)
  then show ?thesis unfolding send_requested_files_def by (intro agrees_intros agrees_steps)
qed

subsection \<open>Commands\<close>

lemma agrees_reply [agrees_intros]:
  "agrees R (send_status_response_value env c m p)" "agrees R (send_status_response env i m p)" "agrees R (acknowledge env)"
  unfolding acknowledge_def send_status_response_def send_status_response_value_def by (intro agrees_intros agrees_steps)+

lemma agrees_argument [agrees_intros]: "agrees R (argument i kind msg message parts)"
  unfolding argument_def by (intro agrees_intros)

lemma agrees_discarded:
  assumes "\<And>us. list_all tracked us \<Longrightarrow> list_all tracked (g us)"
  shows "agrees R (modify (\<lambda>s. s\<lparr>discarded_files := g (discarded_files s)\<rparr>))"
proof (rule agrees_modify)
  fix s t assume "R s t"
  then show "R (s\<lparr>discarded_files := g (discarded_files s)\<rparr>) (t\<lparr>discarded_files := g (discarded_files t)\<rparr>)"
    using discard [OF _ assms [OF discarded]] fields(4) by metis
qed

lemma relocate_agrees:
  assumes "within p" and "within q"
  shows "agrees R (modify (relocate_discarded_files p q b))" and "agrees R (modify (copy_discarded_files p q b))"
  unfolding relocate_discarded_files_def copy_discarded_files_def
  using moved [OF assms] by (auto intro!: agrees_discarded simp: list_all_iff)

lemma forget_agrees: "agrees R (modify (forget_discarded_files p))"
  unfolding forget_discarded_files_def by (rule agrees_discarded) (simp add: list_all_iff)

lemma agrees_move_item [agrees_intros]: "agrees R (move_item lay message item)"
  unfolding move_item_def
  by (rule agrees_and_then [OF agrees_basic(3)], rule agrees_reading)
    (auto simp: fields intro!: agrees_bind [OF move] agrees_basic relocate_agrees split: option.split)

lemma agrees_remove_item [agrees_intros]: "agrees R (remove_item lay message item)"
  unfolding remove_item_def
  by (rule agrees_and_then [OF agrees_basic(3)], rule agrees_resolve) (intro agrees_and_then removed forget_agrees)

lemma agrees_copy_item [agrees_intros]: "agrees R (handle_copy_item env lay message parts)"
  unfolding handle_copy_item_def
  by (rule agrees_and_then [OF agrees_argument], rule agrees_and_then [OF agrees_argument], rule agrees_reading)
    (auto simp: fields intro!: agrees_bind [OF copy] agrees_and_then agrees_basic agrees_reply relocate_agrees split: option.split)

lemma agrees_process_message [agrees_intros]: "agrees R (handle_process_message message parts)"
  unfolding handle_process_message_def Let_def
  by (rule agrees_and_then [OF agrees_argument], rule agrees_and_then [OF agrees_basic(3)], rule agrees_reading)
    (auto simp: fields intro!: agrees_intros)

lemma agrees_other_commands [agrees_intros]:
  "agrees R (handle_create_directory env lay message parts)"
  "agrees R (handle_contents_of_directory env lay message parts)"
  "agrees R (handle_get_free_disk_space env lay)"
  "agrees R (handle_purge_disk_space env parts)"
  "agrees R (handle_upload_files env lay)"
  "agrees R (handle_download_files env lay message parts)"
  "agrees R (handle_move_items env lay message parts)"
  "agrees R (handle_remove_items env lay message parts)"
  unfolding handle_create_directory_def handle_contents_of_directory_def handle_get_free_disk_space_def
    handle_purge_disk_space_def handle_upload_files_def handle_download_files_def handle_move_items_def handle_remove_items_def Let_def
  by (auto simp: fields counter intro!: agrees_argument agrees_resolve agrees_intros agrees_steps split: prod.split)

lemma agrees_dispatch: "agrees R (dispatch_command env lay message parts command)"
  unfolding dispatch_command_def go_on_def by (intro agrees_intros)

lemma agrees_serve_message: "agrees R (serve_message env lay)"
  unfolding serve_message_def by (intro agrees_intros agrees_steps agrees_dispatch)

end

end
