(* ===== verification/Backup_Loop.thy ===== *)
theory Backup_Loop
  imports Backup_Handlers
begin

text \<open>
  The loop that serves the device (\<open>Mobilebackup2Client::run_loop\<close>). It ends on every script: each
  round reads a message and no command puts input back, by the first interpretation of the
  interface of the commands. The second one gives that the loop stays inside the backup directory.
\<close>

section \<open>The loop\<close>

interpretation input_left: backup_relation "\<lambda>s t. s = t \<and> at_most n (link s)" lay "\<lambda>_. True" "\<lambda>_. True" "\<lambda>_. True" for n lay
  by unfold_locales (auto simp: agrees_keeps yields_def list_all_iff intro!: keeps_intros)

lemma serve_message_uses:
  assumes "serve_message env lay s = (Ok r, t)"
  shows "input t < input s"
proof -
  from assms obtain m u where m: "on_link (recv_message (from_bytes env)) s = (Ok m, u)"
    and rest: "and_then (check (\<lambda>_. ok_or (bad_message ''device link loop expected array message, got {:?}'' m) (p_array m))) (\<lambda>parts.
     and_then (check (\<lambda>_. ok_or (bad_message ''device link message missing command: {:?}'' m) (message_type parts))) (\<lambda>command.
     dispatch_command env lay m parts command)) u = (Ok r, t)"
    unfolding serve_message_def and_then_Ok_iff [of "on_link _"] by (elim exE conjE) (rule that)
  from m have "input u < input s"
    by (auto simp: on_link_def on_stream_def input_def set_link_def dest: recv_message_uses split: prod.splits outcome.splits)
  moreover from rest obtain parts command where "dispatch_command env lay m parts command u = (Ok r, t)"
    by (auto simp: and_then_Ok_iff check_Ok)
  then have "input t \<le> input u"
    using input_left.agrees_dispatch [where n = "input u" and lay = lay and env = env and message = m and parts = parts and command = command]
    by (auto simp: agrees_keeps intro: keeps_input)
  ultimately show ?thesis by simp
qed

function run_loop :: "host_env \<Rightarrow> backup_layout \<Rightarrow> plist option client_proc" where
  "run_loop env lay s =
     and_then (serve_message env lay) (\<lambda>r t. case r of None \<Rightarrow> run_loop env lay t | Some content \<Rightarrow> (Ok content, t)) s"
  by pat_completeness auto
termination
  by (relation "measure (\<lambda>(env, lay, s). input s)") (auto dest: serve_message_uses)

declare run_loop.simps [simp del]

context backup_relation
begin

lemma agrees_run_loop: "agrees R (run_loop env lay)"
  by (rule agrees_loop [where stop = "\<lambda>r. r" and m = input, OF run_loop.simps serve_message_uses agrees_serve_message])

end

section \<open>Two hosts that differ outside the backup directory\<close>

text \<open>
  Two clients whose disks agree on the directory \<open>d = r @ [i]\<close> of the device and the directories
  above it, with disks that outside of \<open>d\<close> are still the ones the session began with, \<open>h0\<close> and \<open>h1\<close>.
  With \<open>b\<close>, the placeholders they track are inside \<open>d\<close>.
\<close>

definition alike :: "bool \<Rightarrow> backup_layout \<Rightarrow> names \<Rightarrow> string \<Rightarrow> host \<Rightarrow> host \<Rightarrow> backup_client \<Rightarrow> backup_client \<Rightarrow> bool" where
  "alike b lay r i h0 h1 s t \<longleftrightarrow>
     layout_at lay r i \<and> plain (entries h0) [] (r @ [i]) \<and>
     t = s\<lparr>disk := disk t\<rparr> \<and> restrict (r @ [i]) (disk s) = restrict (r @ [i]) (disk t) \<and>
     same_outside (r @ [i]) h0 (disk s) \<and> same_outside (r @ [i]) h1 (disk t) \<and> list_all (\<lambda>p. b \<longrightarrow> inside r i p) (discarded_files s)"

lemma plain_restrict: "relevant d p \<Longrightarrow> plain (filter (\<lambda>(q, _). relevant d q) es) [] p = plain es [] p"
  by (rule plain_cong) (auto intro!: entry_at_restrict intro: relevant_prefix take_is_prefix)

lemma plain_directory:
  assumes "same_outside (r @ [i]) h t" and "plain (entries h) [] (r @ [i])"
  shows "plain (entries t) [] (r @ [i])"
proof (rule plain_extend)
  show "plain (entries t) [] r" using assms plain_outside plain_front by blast
  assume t: "dirs (entries t) [] r"
  have d: "entry_at (entries h) (take k r) = entry_at (entries t) (take k r)" for k
  proof -
    have "\<not> prefix (r @ [i]) (take k r)" by (auto dest!: prefix_length_le)
    then show ?thesis using assms(1) by (simp add: same_outside_def)
  qed
  have "dirs (entries h) c xs" if "dirs (entries t) c xs" "\<And>k. entry_at (entries h) (c @ take k xs) = entry_at (entries t) (c @ take k xs)" for c xs
    using that
  proof (induction xs arbitrary: c)
    case (Cons x xs)
    then show ?case using Cons.IH [of "c @ [x]"] Cons.prems(2) [of 1] Cons.prems(2) [of "Suc k" for k] by simp
  qed simp
  then have "dirs (entries h) [] r" using t d by simp
  then show "plain (entries t) r [i]"
    using assms by (auto simp: plain_append same_outside_def split: option.splits entry.splits)
qed

lemma alike_plain:
  assumes "alike b lay r i h0 h1 s t"
  shows "plain (entries (disk s)) [] (r @ [i])" "plain (entries (disk t)) [] (r @ [i])"
proof -
  show s: "plain (entries (disk s)) [] (r @ [i])" using assms plain_directory by (auto simp: alike_def)
  have "entries (restrict (r @ [i]) (disk s)) = entries (restrict (r @ [i]) (disk t))" using assms by (simp add: alike_def)
  then have "plain (entries (disk s)) [] (r @ [i]) = plain (entries (disk t)) [] (r @ [i])"
    using plain_restrict [of "r @ [i]" "r @ [i]" "entries (disk s)"] plain_restrict [of "r @ [i]" "r @ [i]" "entries (disk t)"] by simp
  then show "plain (entries (disk t)) [] (r @ [i])" using s by simp
qed

text \<open>An operation that is safe below a plain root does the same on both and keeps them alike.\<close>

lemma alike_agrees:
  assumes "\<And>h. layout_at lay r i \<Longrightarrow> plain (entries h) [] (r @ [i]) \<Longrightarrow> safe (r @ [i]) m h"
  shows "agrees (alike b lay r i h0 h1) (on_disk m)"
  unfolding agrees_def
proof (intro allI impI)
  fix s t assume a: "alike b lay r i h0 h1 s t"
  obtain r1 u where u: "m (disk s) = (r1, u)" by fastforce
  obtain r2 v where v: "m (disk t) = (r2, v)" by fastforce
  have "layout_at lay r i" using a by (simp add: alike_def)
  then have "m (restrict (r @ [i]) (disk s)) = (r1, restrict (r @ [i]) u)" "m (restrict (r @ [i]) (disk t)) = (r2, restrict (r @ [i]) v)"
    and out: "same_outside (r @ [i]) (disk s) u" "same_outside (r @ [i]) (disk t) v"
    using assms [OF _ alike_plain(1) [OF a]] assms [OF _ alike_plain(2) [OF a]] u v by (auto simp: safe_def)
  then have same: "r1 = r2" "restrict (r @ [i]) u = restrict (r @ [i]) v" using a by (auto simp: alike_def)
  have t: "t = s\<lparr>disk := disk t\<rparr>" using a by (simp add: alike_def)
  have "set_disk v t = (set_disk u s)\<lparr>disk := v\<rparr>" by (subst t) (simp add: set_disk_def)
  then have "alike b lay r i h0 h1 (set_disk u s) (set_disk v t)"
    using a out same(2) by (auto simp: alike_def set_disk_def intro: same_outside_trans)
  then show "fst (on_disk m s) = fst (on_disk m t) \<and> alike b lay r i h0 h1 (snd (on_disk m s)) (snd (on_disk m t))"
    using u v same(1) by (auto simp: on_disk_def on_stream_def split: outcome.splits)
qed

lemma alike_yields:
  "(\<And>h x u. layout_at lay r i \<Longrightarrow> m h = (Ok x, u) \<Longrightarrow> Q x) \<Longrightarrow> yields (alike b lay r i h0 h1) (on_disk m) Q"
  by (auto simp: yields_def on_disk_Ok_iff alike_def)

lemma alike_stream: "agrees (alike b lay r i h0 h1) (on_io m)" "agrees (alike b lay r i h0 h1) (on_link m')"
proof -
  have *: "link t = link s \<and> alike b lay r i h0 h1 (set_link k s) (set_link k t)" if "alike b lay r i h0 h1 s t" for s t k
  proof -
    have t: "t = s\<lparr>disk := disk t\<rparr>" using that by (simp add: alike_def)
    have "set_link k t = (set_link k s)\<lparr>disk := disk t\<rparr>" by (subst t) (simp add: set_link_def)
    moreover have "link t = link s" by (subst t) simp
    ultimately show ?thesis using that by (auto simp: alike_def set_link_def)
  qed
  show "agrees (alike b lay r i h0 h1) (on_io m)" "agrees (alike b lay r i h0 h1) (on_link m')"
    using * by (auto simp: agrees_def on_io_def on_link_def on_stream_def split: prod.splits outcome.splits)
qed

lemma inside_relocated:
  assumes "inside r i p" and "inside r i q" and "inside r i u" and "affected p c u"
  shows "inside r i (relocated p q u)"
proof -
  from assms obtain xs ys zs where p: "p = absolute (r @ i # xs)" and q: "q = absolute (r @ i # ys)" and u: "u = absolute (r @ i # zs)"
    by (auto simp: inside_def)
  have "prefix (map Normal (i # xs)) (map Normal (i # zs))" using assms(4) p u by (auto simp: affected_def absolute_def)
  then obtain us vs where "i # zs = us @ vs" "map Normal us = map Normal (i # xs)"
    by (elim prefixE) (auto simp: map_eq_append_conv simp del: list.map)
  then have "i # zs = (i # xs) @ vs" by (auto simp: inj_map_eq_map [of Normal] inj_def)
  then have "u = absolute ((r @ i # xs) @ vs)" using u by simp
  then have "strip_prefix u p = Some (map Normal vs)" unfolding p by (simp only: strip_absolute)
  then have "relocated p q u = absolute (r @ i # (ys @ vs))" by (simp add: relocated_def q)
  then show ?thesis unfolding inside_def by blast
qed

lemma apart_update:
  assumes "t = s\<lparr>disk := disk t\<rparr>"
  shows "t\<lparr>reported_free_space := a\<rparr> = s\<lparr>reported_free_space := a, disk := disk t\<rparr>"
    and "t\<lparr>required_free_space := b\<rparr> = s\<lparr>required_free_space := b, disk := disk t\<rparr>"
    and "t\<lparr>transfer_files := m\<rparr> = s\<lparr>transfer_files := m, disk := disk t\<rparr>"
    and "t\<lparr>transfer_bytes := n\<rparr> = s\<lparr>transfer_bytes := n, disk := disk t\<rparr>"
    and "t\<lparr>discarded_files := ps\<rparr> = s\<lparr>discarded_files := ps, disk := disk t\<rparr>"
  using assms by (cases s; cases t; simp)+

text \<open>The file operations on a path below the directory of the device.\<close>

lemma alike_inside:
  assumes "inside r i p" and "\<And>xs h. layout_at lay r i \<Longrightarrow> plain (entries h) [] r \<Longrightarrow> safe (r @ [i]) (m (absolute (r @ i # xs))) h"
  shows "agrees (alike b lay r i h0 h1) (on_disk (m p))"
  using assms by (intro alike_agrees) (auto simp: inside_def dest: plain_front)

lemma alike_yields_inside:
  assumes "inside r i p" and "\<And>xs h q t. m (absolute (r @ i # xs)) h = (Ok q, t) \<Longrightarrow> Q q"
  shows "yields (alike b lay r i h0 h1) (on_disk (m p)) Q"
  using assms by (intro alike_yields) (auto simp: inside_def)

lemma alike_layout_operations:
  assumes "inside r i p"
  shows "agrees (alike b lay r i h0 h1) (on_disk (create_layout_directory lay p))"
    and "agrees (alike b lay r i h0 h1) (on_disk (create_layout_parent_directory lay p))"
    and "agrees (alike b lay r i h0 h1) (on_disk (open_layout_file_for_write lay p))"
    and "agrees (alike b lay r i h0 h1) (on_disk (open_layout_file_for_read lay p))"
    and "agrees (alike b lay r i h0 h1) (on_disk (remove_layout_path lay p))"
    and "agrees (alike b lay r i h0 h1) (on_disk (contents_of_directory env (layout_root lay) p))"
  by (rule alike_inside [OF assms, where m = "create_layout_directory lay"], simp add: create_layout_safe)
    (rule alike_inside [OF assms, where m = "create_layout_parent_directory lay"], simp add: create_layout_parent_safe,
     rule alike_inside [OF assms, where m = "open_layout_file_for_write lay"], simp add: open_layout_safe,
     rule alike_inside [OF assms, where m = "open_layout_file_for_read lay"], simp add: open_layout_safe,
     rule alike_inside [OF assms, where m = "remove_layout_path lay"], simp add: remove_layout_safe,
     rule alike_inside [OF assms, where m = "contents_of_directory env (layout_root lay)"], simp add: contents_safe layout_at_def)

lemma alike_opened:
  assumes "inside r i p"
  shows "yields (alike b lay r i h0 h1) (on_disk (open_layout_file_for_write lay p)) (prefix (r @ [i]))"
    and "yields (alike b lay r i h0 h1) (on_disk (open_layout_file_for_read lay p)) (prefix (r @ [i]))"
  by (rule alike_yields_inside [OF assms, where m = "open_layout_file_for_write lay"], drule open_layout_result, simp)
    (rule alike_yields_inside [OF assms, where m = "open_layout_file_for_read lay"], drule open_layout_result, simp)

interpretation confined: backup_relation "alike b lay r i h0 h1" lay "inside r i" "\<lambda>p. b \<longrightarrow> inside r i p" "prefix (r @ [i])" for b lay r i h0 h1
proof unfold_locales
  show "agrees (alike b lay r i h0 h1) (on_disk (available_space (device_directory lay)))"
    by (rule alike_agrees) (simp add: layout_at_def available_space_safe)
  show "yields (alike b lay r i h0 h1) (on_disk (resolve_relative_path lay rel)) (inside r i)" for rel
    by (rule alike_yields) (auto simp: inside_def dest: resolve_result)
  show "yields (alike b lay r i h0 h1) (on_disk (move_path lay filtered src dst)) (\<lambda>m. \<forall>p q e. m = Some (p, q, e) \<longrightarrow> inside r i p \<and> inside r i q)"
    and "yields (alike b lay r i h0 h1) (on_disk (copy_path lay filtered src dst)) (\<lambda>m. \<forall>p q e. m = Some (p, q, e) \<longrightarrow> inside r i p \<and> inside r i q)"
    for filtered src dst
    by (rule alike_yields, intro allI impI, rule two_paths_inside, assumption, simp)+
qed (simp_all add: alike_layout_operations alike_opened alike_stream inside_relocated,
    auto simp: alike_def apart_update alike_stream inside_relocated
      intro!: alike_agrees resolve_safe move_path_safe copy_path_safe safe_fs safe_append safe_read)

end
