(* ===== verification/Backup_Operations.thy ===== *)
theory Backup_Operations
  imports Backup_Loop
begin

text \<open>
  The operations of \<open>Mobilebackup2Client\<close> (\<open>services/backup2/mod.rs\<close>): the layout of the backup
  directory and its metadata files, the version exchange, and one definition per request: backup,
  password change, restore, info, list, unback and extract. The build is one without the feature
  \<open>backup2-manifest\<close>, where a request to patch the manifest is refused.
\<close>

section \<open>Metadata files\<close>

definition MAX_BACKUP_METADATA_BYTES :: nat where "MAX_BACKUP_METADATA_BYTES = 16 * 1024 * 1024"

definition INCREMENTAL_BACKUP_REQUIRED_FILES :: "string list" where
  "INCREMENTAL_BACKUP_REQUIRED_FILES = [''Manifest.plist'', ''Status.plist'']"

definition validate_seed_file_path :: "path \<Rightarrow> unit host_proc" where
  "validate_seed_file_path p =
     and_then (reject_symlink_components p) (\<lambda>_.
     and_then (unless_missing (symlink_metadata p)) (\<lambda>m. case m of
         None \<Rightarrow> ret ()
       | Some e \<Rightarrow>
           if is_symlink e then throw (symlink_path_error p)
           else if \<not> is_file e then throw (proto ''backup seed path is not a regular file: {}'' [show_path p])
           else ret ()))"

text \<open>A file that is there, is no link and is not empty.\<close>

definition look_at_metadata :: "path \<Rightarrow> bool host_proc" where
  "look_at_metadata p =
     and_then (reject_symlink_components p) (\<lambda>_.
     and_then (unless_missing (symlink_metadata p)) (\<lambda>m. case m of
         None \<Rightarrow> ret False
       | Some e \<Rightarrow>
           if is_symlink e then throw (symlink_path_error p) else ret (is_file e \<and> entry_len e \<noteq> 0)))"

fun has_required_files :: "path \<Rightarrow> string list \<Rightarrow> bool host_proc" where
  "has_required_files d [] = ret True"
| "has_required_files d (name # names) =
     and_then (look_at_metadata (join d [Normal name])) (\<lambda>found.
     if found then has_required_files d names else ret False)"

definition has_incremental_backup_metadata :: "path \<Rightarrow> bool host_proc" where
  "has_incremental_backup_metadata d =
     and_then (has_required_files d INCREMENTAL_BACKUP_REQUIRED_FILES) (\<lambda>found.
     if \<not> found then ret False
     else and_then (look_at_metadata (join d [Normal ''Manifest.db''])) (\<lambda>db.
          and_then (look_at_metadata (join d [Normal ''Manifest.mbdb''])) (\<lambda>mbdb.
          ret (db \<or> mbdb))))"

definition should_do_full_backup :: "bool \<Rightarrow> path \<Rightarrow> bool host_proc" where
  "should_do_full_backup full d =
     (if full then ret True else and_then (has_incremental_backup_metadata d) (\<lambda>has. ret (\<not> has)))"

text \<open>The \<open>plist\<close> crate's writer on an open file: an error of the file is one of the crate's own.\<close>

definition write_plist :: "(plist \<Rightarrow> bytes option) \<Rightarrow> names \<Rightarrow> plist \<Rightarrow> unit host_proc" where
  "write_plist ser q v =
     and_then (check (\<lambda>_. ok_or BPlist (ser v))) (\<lambda>bs h. case append_file q bs h of
         (Err _, t) \<Rightarrow> (Err BPlist, t) | (Ok x, t) \<Rightarrow> (Ok x, t) | (Cancelled, t) \<Rightarrow> (Cancelled, t))"

definition new_status :: "host_env \<Rightarrow> bool \<Rightarrow> plist" where
  "new_status env full = PDictionary
     [(''BackupState'', PString ''new''), (''Date'', PDate (now env)), (''IsFullBackup'', PBoolean full),
      (''Version'', PString ''3.3''), (''SnapshotState'', PString ''finished''), (''UUID'', PString (fresh_uuid env))]"

definition seed_manifest :: "bool \<Rightarrow> path \<Rightarrow> unit host_proc" where
  "seed_manifest full p =
     and_then (unless_missing (symlink_metadata p)) (\<lambda>m.
     and_then (case m of
         None \<Rightarrow> ret True
       | Some e \<Rightarrow>
           if is_symlink e then throw (symlink_path_error p)
           else if full then and_then (fs (remove_file p)) (\<lambda>_. ret True)
           else ret False) (\<lambda>create_manifest.
     if create_manifest then and_then (open_file_for_write p) (\<lambda>_. ret ()) else ret ()))"

definition seed_files :: "host_env \<Rightarrow> (string \<times> plist) list \<Rightarrow> bool \<Rightarrow> path \<Rightarrow> unit host_proc" where
  "seed_files env info_plist full d =
     and_then (for_each (\<lambda>name. validate_seed_file_path (join d [Normal name]))
       [''Info.plist'', ''Status.plist'', ''Manifest.plist'']) (\<lambda>_.
     and_then (should_do_full_backup full d) (\<lambda>full.
     and_then (open_file_for_write (join d [Normal ''Info.plist''])) (\<lambda>info_file.
     and_then (write_plist (to_xml env) info_file (PDictionary info_plist)) (\<lambda>_.
     let status_path = join d [Normal ''Status.plist''] in
     and_then (is_missing status_path) (\<lambda>status_missing.
     and_then (if full \<or> status_missing
       then and_then (open_file_for_write status_path) (\<lambda>status_file.
            write_plist (to_binary env) status_file (new_status env full))
       else ret ()) (\<lambda>_.
     seed_manifest full (join d [Normal ''Manifest.plist''])))))))"

text \<open>The directory of the device below the root, created when missing.\<close>

definition create_runtime_layout :: "path \<Rightarrow> string \<Rightarrow> backup_layout host_proc" where
  "create_runtime_layout backup_root target =
     and_then (check (\<lambda>_. validate_backup_identifier target)) (\<lambda>_.
     and_then (reject_symlink_components backup_root) (\<lambda>_.
     and_then (fs (create_dir_all backup_root)) (\<lambda>_.
     and_then (canonical_backup_root backup_root) (\<lambda>root.
     and_then (create_dir_all_no_symlink root (path_of target)) (\<lambda>d.
     ret \<lparr>layout_root = root, device_directory = d, target_identifier = target\<rparr>)))))"

text \<open>It begins and ends as \<open>create_runtime_layout\<close> does; the seed files are written in between.\<close>

definition initialize_backup_directory ::
    "host_env \<Rightarrow> path \<Rightarrow> string \<Rightarrow> (string \<times> plist) list \<Rightarrow> bool \<Rightarrow> backup_layout host_proc" where
  "initialize_backup_directory env backup_root target info_plist full =
     and_then (create_runtime_layout backup_root target) (\<lambda>lay.
     and_then (seed_files env info_plist full (device_directory lay)) (\<lambda>_.
     ret lay))"

definition require_file :: "path \<Rightarrow> string \<Rightarrow> string \<Rightarrow> unit host_proc" where
  "require_file root target name =
     (let relative = join (path_of target) [Normal name]; p = join root relative in
      and_then (ensure_no_symlink_components_at_root root relative) (\<lambda>_.
      and_then (unless_missing (symlink_metadata p)) (\<lambda>m. case m of
          None \<Rightarrow> throw (proto ''backup directory missing required file {}'' [show_path p])
        | Some e \<Rightarrow>
            if is_symlink e then throw (symlink_path_error p)
            else if \<not> is_file e then throw (proto ''backup directory required path is not a file {}'' [show_path p])
            else ret ())))"

definition ensure_backup_directory :: "path \<Rightarrow> string \<Rightarrow> unit host_proc" where
  "ensure_backup_directory backup_root target =
     and_then (canonical_backup_root backup_root) (\<lambda>root.
     and_then (check (\<lambda>_. validate_backup_identifier target)) (\<lambda>_.
     and_then (safe_path_from_root root (path_of target)) (\<lambda>_.
     for_each (require_file root target) [''Info.plist'', ''Manifest.plist'', ''Status.plist''])))"

definition regular_file :: "path \<Rightarrow> path host_proc" where
  "regular_file p =
     and_then (fs (symlink_metadata p)) (\<lambda>e.
     if is_symlink e then throw (symlink_path_error p)
     else if \<not> is_file e then throw (proto ''backup metadata path is not a file: {}'' [show_path p])
     else ret p)"

definition metadata_file_path :: "path \<Rightarrow> string \<Rightarrow> string \<Rightarrow> path host_proc" where
  "metadata_file_path backup_root target name =
     and_then (check (\<lambda>_. validate_backup_identifier target)) (\<lambda>_.
     and_then (canonical_backup_root backup_root) (\<lambda>root.
     and_then (safe_path_from_root root (join (path_of target) [Normal name])) regular_file))"

definition safe_file_in_directory :: "path \<Rightarrow> string \<Rightarrow> path host_proc" where
  "safe_file_in_directory d name =
     (let p = join d [Normal name] in and_then (reject_symlink_components p) (\<lambda>_. regular_file p))"

definition open_backup_metadata_for_read :: "host_env \<Rightarrow> path \<Rightarrow> names host_proc" where
  "open_backup_metadata_for_read env p =
     and_then (open_file_for_read p) (\<lambda>q.
     and_then (fs (syscall (\<lambda>_ h. (Ok (entry_at (entries h) q), h)))) (\<lambda>e.
     let size = (case e of Some (File c) \<Rightarrow> length c | _ \<Rightarrow> inode_size env p) in
     if size > MAX_BACKUP_METADATA_BYTES
     then throw (BProtocol ''backup metadata file is too large ({} bytes; max {MAX_BACKUP_METADATA_BYTES}): {}''
                   [Number size, Number MAX_BACKUP_METADATA_BYTES, Text (show_path p)])
     else ret q))"

text \<open>The \<open>plist\<close> crate's reader: every failure to read is one of its own errors.\<close>

definition read_plist :: "host_env \<Rightarrow> names \<Rightarrow> plist host_proc" where
  "read_plist env q h =
     (case syscall (\<lambda>_ h. case entry_at (entries h) q of
             Some (File c) \<Rightarrow> (Ok (from_bytes env c), h) | _ \<Rightarrow> (Err EISDIR, h)) h of
        (Ok (Some v), t) \<Rightarrow> (Ok v, t) | (_, t) \<Rightarrow> (Err BPlist, t))"

definition read_backup_value :: "host_env \<Rightarrow> path \<Rightarrow> plist host_proc" where
  "read_backup_value env p = and_then (open_backup_metadata_for_read env p) (read_plist env)"

definition read_backup_dictionary :: "host_env \<Rightarrow> path \<Rightarrow> (string \<times> plist) list host_proc" where
  "read_backup_dictionary env p =
     and_then (read_backup_value env p) (\<lambda>v.
     check (\<lambda>_. ok_or (proto ''expected plist dictionary in backup metadata file {}'' [show_path p]) (p_dictionary v)))"

definition flag :: "string \<Rightarrow> (string \<times> plist) list \<Rightarrow> bool" where
  "flag key d = (case Option.bind (map_of d key) plist_value_to_bool of Some b \<Rightarrow> b | None \<Rightarrow> False)"

definition backup_status_is_full :: "host_env \<Rightarrow> path \<Rightarrow> bool host_proc" where
  "backup_status_is_full env d =
     and_then (safe_file_in_directory d ''Status.plist'') (\<lambda>p.
     and_then (read_backup_dictionary env p) (\<lambda>status. ret (flag ''IsFullBackup'' status)))"

definition load_backup_applications :: "host_env \<Rightarrow> path \<Rightarrow> string \<Rightarrow> plist option host_proc" where
  "load_backup_applications env backup_root target =
     and_then (ensure_backup_directory backup_root target) (\<lambda>_.
     and_then (metadata_file_path backup_root target ''Info.plist'') (\<lambda>p.
     and_then (read_backup_value env p) (\<lambda>v.
     ret (Option.bind (p_dictionary v) (\<lambda>d. map_of d ''Applications'')))))"

definition backup_is_encrypted :: "host_env \<Rightarrow> path \<Rightarrow> string \<Rightarrow> bool host_proc" where
  "backup_is_encrypted env backup_root target =
     and_then (ensure_backup_directory backup_root target) (\<lambda>_.
     and_then (metadata_file_path backup_root target ''Manifest.plist'') (\<lambda>p.
     and_then (read_backup_dictionary env p) (\<lambda>d. ret (flag ''IsEncrypted'' d))))"

section \<open>The operations\<close>

record version_exchange =
  device_link_version :: nat
  protocol_version :: u64
  local_versions :: "u64 list"

record backup_options =
  option_filter :: "backup_filter option"
  patch_manifest :: bool
  option_password :: "string option"

record restore_options =
  restore_system :: bool
  restore_reboot :: bool
  restore_copy :: bool
  restore_settings :: bool
  restore_remove :: bool
  restore_password :: "string option"
  restore_source :: "string option"

definition BackupOptions_default :: backup_options where
  "BackupOptions_default = \<lparr>option_filter = None, patch_manifest = False, option_password = None\<rparr>"

definition RestoreOptions_default :: restore_options where
  "RestoreOptions_default = \<lparr>restore_system = False, restore_reboot = True, restore_copy = False,
     restore_settings = True, restore_remove = False, restore_password = None, restore_source = None\<rparr>"

text \<open>\<open>2.0\<close> and \<open>2.1\<close> as bit patterns.\<close>

definition SUPPORTED_PROTOCOL_VERSIONS :: "u64 list" where
  "SUPPORTED_PROTOCOL_VERSIONS = [0x4000000000000000, 0x4000CCCCCCCCCCCD]"

definition optional :: "string \<Rightarrow> string option \<Rightarrow> (string \<times> plist) list" where
  "optional key v = (case v of None \<Rightarrow> [] | Some s \<Rightarrow> [(key, PString s)])"

definition request :: "host_env \<Rightarrow> string \<Rightarrow> (string \<times> plist) list \<Rightarrow> unit client_proc" where
  "request env name content =
     on_link (send_process_message (to_xml env) (PDictionary ((''MessageName'', PString name) # content)))"

definition Mobilebackup2Client_version_exchange :: "host_env \<Rightarrow> version_exchange client_proc" where
  "Mobilebackup2Client_version_exchange env =
     and_then (modify (\<lambda>s. s\<lparr>reported_free_space := None, required_free_space := None,
                            transfer_files := 0, transfer_bytes := 0\<rparr>)) (\<lambda>_.
     and_then (on_link (link_version_exchange (to_xml env) (from_bytes env))) (\<lambda>device_version.
     and_then (request env ''Hello'' [(''SupportedProtocolVersions'', PArray (map PReal SUPPORTED_PROTOCOL_VERSIONS))]) (\<lambda>_.
     and_then (on_link (recv_process_message (from_bytes env))) (\<lambda>response.
     and_then (check (\<lambda>_. ok_or (bad_message ''backup2 hello response missing ErrorCode: {:?}'' (PDictionary response))
                 (Option.bind (map_of response ''ErrorCode'') plist_number_to_u64))) (\<lambda>error_code.
     if error_code \<noteq> 0
     then throw (BProtocol ''backup2 hello returned ErrorCode={error_code}: {:?}''
                   [Number error_code, Value (redacted_protocol_value (PDictionary response))])
     else
       and_then (check (\<lambda>_. ok_or (bad_message ''backup2 hello response missing ProtocolVersion: {:?}'' (PDictionary response))
                   (Option.bind (map_of response ''ProtocolVersion'') plist_number_to_f64))) (\<lambda>version.
       if version \<notin> set SUPPORTED_PROTOCOL_VERSIONS
       then throw (BProtocol ''backup2 negotiated unsupported protocol version {protocol_version}'' [Value (PReal version)])
       else ret \<lparr>device_link_version = device_version, protocol_version = version,
                 local_versions = SUPPORTED_PROTOCOL_VERSIONS\<rparr>))))))"

text \<open>The result of a session, after a disconnect whose own failure is ignored.\<close>

definition finish_session :: "host_env \<Rightarrow> 'a client_proc \<Rightarrow> 'a client_proc" where
  "finish_session env m =
     and_then (try_proc m) (\<lambda>result.
     and_then (try_proc (on_link (disconnect (to_xml env)))) (\<lambda>_.
     check (\<lambda>_. result)))"

definition close_backup :: "backup_layout \<Rightarrow> backup_error + plist option \<Rightarrow> path list \<Rightarrow> unit client_proc" where
  "close_backup lay session_result placeholders =
     and_then (modify (\<lambda>s. s\<lparr>backup_filter := None, discarded_files := []\<rparr>)) (\<lambda>_.
     and_then (try_proc (on_disk (cleanup_discarded_files lay placeholders))) (\<lambda>cleanup_result.
     and_then (check (\<lambda>_. session_result)) (\<lambda>_.
     check (\<lambda>_. cleanup_result))))"

definition finish_backup :: "host_env \<Rightarrow> backup_layout \<Rightarrow> unit client_proc" where
  "finish_backup env lay =
     and_then (try_proc (finish_session env (run_loop env lay))) (\<lambda>session_result.
     reading (\<lambda>s. close_backup lay session_result (discarded_files s)))"

definition backup_with_options ::
    "host_env \<Rightarrow> path \<Rightarrow> string \<Rightarrow> bool \<Rightarrow> (string \<times> plist) list \<Rightarrow> backup_options \<Rightarrow> (backup_layout \<times> version_exchange) client_proc" where
  "backup_with_options env backup_root target full info_plist options =
     and_then (check (\<lambda>_. validate_backup_identifier target)) (\<lambda>_.
     if patch_manifest options \<and> option_filter options = None
     then throw (proto ''patching a backup manifest requires a file selection filter'' [])
     else if patch_manifest options
     then throw (proto ''manifest patching requires the ios-core backup2-manifest feature'' [])
     else
       and_then (Mobilebackup2Client_version_exchange env) (\<lambda>version.
       and_then (modify (\<lambda>s. s\<lparr>backup_filter := option_filter options, discarded_files := []\<rparr>)) (\<lambda>_.
       and_then (on_disk (initialize_backup_directory env backup_root target info_plist (full \<or> patch_manifest options))) (\<lambda>lay.
       and_then (request env ''Backup'' [(''TargetIdentifier'', PString target)]) (\<lambda>_.
       and_then (finish_backup env lay) (\<lambda>_.
       ret (lay, version)))))))"

definition backup ::
    "host_env \<Rightarrow> path \<Rightarrow> string \<Rightarrow> bool \<Rightarrow> (string \<times> plist) list \<Rightarrow> (backup_layout \<times> version_exchange) client_proc" where
  "backup env backup_root target full info_plist =
     backup_with_options env backup_root target full info_plist BackupOptions_default"

definition change_password ::
    "host_env \<Rightarrow> path \<Rightarrow> string \<Rightarrow> string option \<Rightarrow> string option \<Rightarrow> unit client_proc" where
  "change_password env backup_root target old_password new_password =
     and_then (check (\<lambda>_. validate_backup_identifier target)) (\<lambda>_.
     and_then (Mobilebackup2Client_version_exchange env) (\<lambda>_.
     and_then (on_disk (create_runtime_layout backup_root target)) (\<lambda>lay.
     and_then (request env ''ChangePassword'' ((''TargetIdentifier'', PString target) #
         optional ''OldPassword'' old_password @ optional ''NewPassword'' new_password)) (\<lambda>_.
     and_then (finish_session env (run_loop env lay)) (\<lambda>_. ret ())))))"

text \<open>The directory of an existing backup, and the manifest of a restore.\<close>

definition existing_layout :: "path \<Rightarrow> string \<Rightarrow> backup_layout host_proc" where
  "existing_layout backup_root i =
     and_then (ensure_backup_directory backup_root i) (\<lambda>_. create_runtime_layout backup_root i)"

definition restore_layout :: "host_env \<Rightarrow> path \<Rightarrow> string \<Rightarrow> (backup_layout \<times> (string \<times> plist) list) host_proc" where
  "restore_layout env backup_root i =
     and_then (existing_layout backup_root i) (\<lambda>lay.
     and_then (metadata_file_path (layout_root lay) (target_identifier lay) ''Manifest.plist'') (\<lambda>p.
     and_then (read_backup_dictionary env p) (\<lambda>manifest. ret (lay, manifest))))"

definition unwrap_or :: "'a option \<Rightarrow> 'a \<Rightarrow> 'a" where
  "unwrap_or v d = (case v of Some x \<Rightarrow> x | None \<Rightarrow> d)"

definition restore ::
    "host_env \<Rightarrow> path \<Rightarrow> string \<Rightarrow> restore_options \<Rightarrow> (backup_layout \<times> version_exchange) client_proc" where
  "restore env backup_root target options =
     (let source = unwrap_or (restore_source options) target in
      and_then (check (\<lambda>_. validate_backup_identifier target)) (\<lambda>_.
      and_then (check (\<lambda>_. validate_backup_identifier source)) (\<lambda>_.
      and_then (on_disk (restore_layout env backup_root source)) (\<lambda>(lay, manifest).
      and_then (check (\<lambda>_. if flag ''IsEncrypted'' manifest
          then attempt (ok_or (proto ''backup is encrypted; restore requires a password'' []) (restore_password options)) (\<lambda>p. Inr (Some p))
          else Inr None)) (\<lambda>password.
      and_then (Mobilebackup2Client_version_exchange env) (\<lambda>version.
      and_then (request env ''Restore'' ([(''TargetIdentifier'', PString target), (''SourceIdentifier'', PString source)] @
          optional ''Password'' password @
          [(''Options'', PDictionary
             [(''RestoreShouldReboot'', PBoolean (restore_reboot options)),
              (''RestoreDontCopyBackup'', PBoolean (\<not> restore_copy options)),
              (''RestorePreserveSettings'', PBoolean (restore_settings options)),
              (''RestoreSystemFiles'', PBoolean (restore_system options)),
              (''RemoveItemsNotRestored'', PBoolean (restore_remove options))])])) (\<lambda>_.
      and_then (finish_session env (run_loop env lay)) (\<lambda>_.
      ret (lay, version)))))))))"

definition check_source :: "string option \<Rightarrow> backup_error + unit" where
  "check_source source = (case source of None \<Rightarrow> Inr () | Some i \<Rightarrow> validate_backup_identifier i)"

definition backup_info :: "host_env \<Rightarrow> path \<Rightarrow> string \<Rightarrow> string option \<Rightarrow> plist option client_proc" where
  "backup_info env backup_root target source =
     and_then (check (\<lambda>_. validate_backup_identifier target)) (\<lambda>_.
     and_then (check (\<lambda>_. check_source source)) (\<lambda>_.
     and_then (Mobilebackup2Client_version_exchange env) (\<lambda>_.
     and_then (on_disk (existing_layout backup_root (unwrap_or source target))) (\<lambda>lay.
     and_then (request env ''Info'' ((''TargetIdentifier'', PString target) # optional ''SourceIdentifier'' source)) (\<lambda>_.
     finish_session env (run_loop env lay))))))"

definition backup_list :: "host_env \<Rightarrow> path \<Rightarrow> string \<Rightarrow> string option \<Rightarrow> plist option client_proc" where
  "backup_list env backup_root target source =
     and_then (check (\<lambda>_. validate_backup_identifier target)) (\<lambda>_.
     and_then (check (\<lambda>_. check_source source)) (\<lambda>_.
     and_then (Mobilebackup2Client_version_exchange env) (\<lambda>_.
     let source = unwrap_or source target in
     and_then (on_disk (existing_layout backup_root source)) (\<lambda>lay.
     and_then (request env ''List'' [(''TargetIdentifier'', PString target), (''SourceIdentifier'', PString source)]) (\<lambda>_.
     finish_session env (run_loop env lay))))))"

text \<open>
  Unback and extract have a deadline: what interrupts them is an error of theirs, and the disconnect
  is attempted after it.
\<close>

definition until_deadline :: "string \<Rightarrow> 'a client_proc \<Rightarrow> 'a client_proc" where
  "until_deadline msg m s = (case m s of
       (Cancelled, t) \<Rightarrow> (Err (BProtocol msg [Number 300]), t) | (r, t) \<Rightarrow> (r, t))"

definition run_device_unback ::
    "host_env \<Rightarrow> path \<Rightarrow> string \<Rightarrow> string option \<Rightarrow> string option \<Rightarrow> plist option client_proc" where
  "run_device_unback env backup_root target source password =
     and_then (check (\<lambda>_. validate_backup_identifier target)) (\<lambda>_.
     let source = non_empty_protocol_string source in
     and_then (check (\<lambda>_. check_source source)) (\<lambda>_.
     and_then (on_disk (existing_layout backup_root (unwrap_or source target))) (\<lambda>lay.
     and_then (Mobilebackup2Client_version_exchange env) (\<lambda>_.
     and_then (request env ''Unback'' ((''TargetIdentifier'', PString target) #
         optional ''SourceIdentifier'' source @ optional ''Password'' (non_empty_protocol_string password))) (\<lambda>_.
     run_loop env lay)))))"

definition unback ::
    "host_env \<Rightarrow> path \<Rightarrow> string \<Rightarrow> string option \<Rightarrow> string option \<Rightarrow> plist option client_proc" where
  "unback env backup_root target source password =
     (let late = ''device-side Unback exceeded the total timeout of {} seconds'' in
      until_deadline late (finish_session env (until_deadline late (run_device_unback env backup_root target source password))))"

definition run_device_extract ::
    "host_env \<Rightarrow> path \<Rightarrow> string \<Rightarrow> string \<Rightarrow> string \<Rightarrow> string option \<Rightarrow> string option \<Rightarrow> plist option client_proc" where
  "run_device_extract env backup_root target domain rel source password =
     and_then (check (\<lambda>_. validate_backup_identifier target)) (\<lambda>_.
     and_then (check (\<lambda>_. validate_backup_identifier domain)) (\<lambda>_.
     and_then (check (\<lambda>_. sanitize_relative_path rel)) (\<lambda>clean.
     let source = non_empty_protocol_string source in
     and_then (check (\<lambda>_. check_source source)) (\<lambda>_.
     and_then (on_disk (existing_layout backup_root (unwrap_or source target))) (\<lambda>lay.
     and_then (Mobilebackup2Client_version_exchange env) (\<lambda>_.
     and_then (request env ''Extract'' ([(''TargetIdentifier'', PString target), (''DomainName'', PString domain),
           (''RelativePath'', PString (manifest_relative_path_string clean))] @
         optional ''SourceIdentifier'' source @ optional ''Password'' (non_empty_protocol_string password))) (\<lambda>_.
     run_loop env lay)))))))"

definition backup_extract ::
    "host_env \<Rightarrow> path \<Rightarrow> string \<Rightarrow> string \<Rightarrow> string \<Rightarrow> string option \<Rightarrow> string option \<Rightarrow> plist option client_proc" where
  "backup_extract env backup_root target domain rel source password =
     (let late = ''device-side Extract exceeded the total timeout of {} seconds'' in
      until_deadline late (finish_session env (until_deadline late
        (run_device_extract env backup_root target domain rel source password))))"

end
