(* ===== verification/Backup_Layouts.thy ===== *)
theory Backup_Layouts
  imports Backup_Operations
begin

text \<open>
  The steps of the operations before and after the loop, on a backup root that is a directory: they
  look at and change nothing but the directory of the device. Two conditions hold from step to
  step, as instances of the interface \<open>host_condition\<close>: the root is a directory, and the way to
  the directory of the device meets no symbolic link.
\<close>

section \<open>Conditions on the host\<close>

definition held :: "(host \<Rightarrow> bool) \<Rightarrow> names \<Rightarrow> (host, 'e, 'a) proc \<Rightarrow> bool" where
  "held C d m \<longleftrightarrow> (\<forall>h. C h \<longrightarrow> safe d m h)"

named_theorems held_intros

lemma heldI: "(\<And>h. C h \<Longrightarrow> safe d m h) \<Longrightarrow> held C d m"
  by (simp add: held_def)

lemma heldD: "held C d m \<Longrightarrow> C h \<Longrightarrow> safe d m h"
  by (simp add: held_def)

lemma held_always: "(\<And>h. safe d m h) \<Longrightarrow> held C d m"
  by (simp add: held_def)

lemma held_basic [held_intros]: "held C d (ret x)" "held C d (throw e)" "held C d (check (\<lambda>_. g))"
  by (simp_all add: held_def safe_ret safe_throw safe_check)

lemma held_if [held_intros]: "(b \<Longrightarrow> held C d m) \<Longrightarrow> (\<not> b \<Longrightarrow> held C d m') \<Longrightarrow> held C d (if b then m else m')"
  by simp

locale host_condition =
  fixes C :: "host \<Rightarrow> bool" and d :: names
  assumes stable: "C h \<Longrightarrow> same_outside d h t \<Longrightarrow> C t"
begin

lemma held_and_then:
  assumes "held C d m" and "\<And>h x t. C h \<Longrightarrow> m h = (Ok x, t) \<Longrightarrow> C t \<Longrightarrow> safe d (f x) t"
  shows "held C d (and_then m f)"
proof (rule heldI)
  fix h assume h: "C h"
  have m: "safe d m h" using assms(1) h by (rule heldD)
  have "safe d (f x) t" if "m h = (Ok x, t)" for x t
    using assms(2) [OF h that] stable [OF h safe_outside [OF m that]] .
  then show "safe d (and_then m f) h" using m by (intro safe_and_then)
qed

lemma held_then: "held C d m \<Longrightarrow> (\<And>x. held C d (f x)) \<Longrightarrow> held C d (and_then m f)"
  by (rule held_and_then) (auto dest: heldD)

lemma held_for_each: "(\<And>x. held C d (f x)) \<Longrightarrow> held C d (for_each f xs)"
  by (induction xs) (auto intro: held_basic held_then)

end

lemma dirs_entry: "dirs es [] r \<Longrightarrow> entry_at es r = Some Directory"
  by (cases r rule: rev_cases) (auto simp: dirs_append entry_at_def)

lemma dirs_plain: "dirs es c r \<Longrightarrow> plain es c r"
  by (induction r arbitrary: c) auto

lemma dirs_outside:
  assumes "same_outside (r @ [i]) h t" and "dirs (entries h) [] r"
  shows "dirs (entries t) [] r"
proof -
  have "dirs (entries t) c xs" if "dirs (entries h) c xs" "c @ xs = r" for c xs
    using that
  proof (induction xs arbitrary: c)
    case (Cons x xs)
    have "\<not> prefix (r @ [i]) (c @ [x])" using Cons.prems(2) by (auto dest: prefix_length_le)
    then show ?case using Cons assms(1) by (simp add: same_outside_def)
  qed simp
  then show ?thesis using assms(2) by simp
qed

lemma dirs_restrict: "dirs (filter (\<lambda>(q, _). relevant (r @ [i]) q) es) [] r \<longleftrightarrow> dirs es [] r"
proof -
  have "dirs (filter (\<lambda>(q, _). relevant (r @ [i]) q) es) c xs \<longleftrightarrow> dirs es c xs" if "relevant (r @ [i]) (c @ xs)" for c xs
    using that
  proof (induction xs arbitrary: c)
    case (Cons x xs)
    have "relevant (r @ [i]) (c @ [x])" by (rule relevant_prefix [OF Cons.prems]) simp
    then show ?case using Cons by simp
  qed simp
  from this [of "[]" r] show ?thesis by (simp add: relevant_def)
qed

interpretation rooted: host_condition "\<lambda>h. dirs (entries h) [] r" "r @ [i]" for r i
  by unfold_locales (rule dirs_outside)

interpretation settled: host_condition "\<lambda>h. plain (entries h) [] (r @ [i])" "r @ [i]" for r i
  by unfold_locales (rule plain_directory)

section \<open>The directory of the device\<close>

text \<open>Creating a directory that is there already only asks for it.\<close>

lemma create_dir_existing:
  assumes "dirs (entries h) [] r"
  shows "safe (r @ [i]) (create_dir (absolute r)) h"
    and "create_dir (absolute r) h = (x, t) \<Longrightarrow> same_tree h t \<and> (\<exists>n. x = Err n \<and> n \<noteq> ENOENT)"
proof -
  have e: "entry_at (entries h) r = Some Directory" using assms by (rule dirs_entry)
  show "safe (r @ [i]) (create_dir (absolute r)) h"
    unfolding create_dir_def using assms e
    by (intro at_path_safe plain_reaches dirs_plain) (auto simp: relevant_def safe_throw)
  have res: "resolve False (absolute r) h = Inr r \<or> resolve False (absolute r) h = Inl ENAMETOOLONG"
    using walk_dirs [OF assms, of False 40 "[]"] by (auto simp: resolve_def absolute_def)
  assume "create_dir (absolute r) h = (x, t)"
  then show "same_tree h t \<and> (\<exists>n. x = Err n \<and> n \<noteq> ENOENT)"
    unfolding create_dir_def
  proof (cases rule: at_path_cases)
    case (3 q h')
    then have "q = r" using res by auto
    then have "x = Err EEXIST" "h' = t" using 3(3) e by (simp_all add: throw_def)
    then show ?thesis using 3(2) by simp
  qed (use res in auto)
qed

lemma create_dir_all_existing:
  assumes "dirs (entries h) [] r"
  shows "safe (r @ [i]) (create_dir_all (absolute r)) h"
    and "create_dir_all (absolute r) h = (x, t) \<Longrightarrow> same_tree h t"
proof -
  let ?m = "\<lambda>h. case create_dir (absolute r) h of (Err n, t) \<Rightarrow>
      (case path_is_dir (absolute r) t of (Ok True, u) \<Rightarrow> (Ok (), u) | (_, u) \<Rightarrow> (Err n, u)) | (_, t) \<Rightarrow> (Ok (), t)"
  have eq: "create_dir_all (absolute r) h = ?m h" if "dirs (entries h) [] r" for h
    using create_dir_existing(2) [OF that] by (subst create_dir_all.simps) (auto simp: absolute_def split: prod.splits outcome.splits)
  obtain n u where u: "create_dir (absolute r) h = (Err n, u)" "same_tree h u"
    using create_dir_existing(2) [OF assms] by (metis prod.collapse)
  have c: "create_dir (absolute r) (restrict (r @ [i]) h) = (Err n, restrict (r @ [i]) u)"
    using create_dir_existing(1) [OF assms, of i] u(1) by (simp add: safe_def)
  have du: "dirs (entries u) [] r" using assms u(2) by (simp add: same_tree_parts)
  have p: "safe (r @ [i]) (path_is_dir (absolute r)) u"
    using du by (intro safe_path_is_dir plain_reaches dirs_plain) (simp_all add: relevant_def)
  have dr: "dirs (entries (restrict (r @ [i]) h)) [] r" using assms by (simp add: dirs_restrict)
  obtain b v where v: "path_is_dir (absolute r) u = (Ok b, v)"
    by (cases "path_is_dir (absolute r) u") (auto simp: path_is_dir_def split: prod.splits outcome.splits)
  have uv: "same_tree u v"
    using v by (auto simp: path_is_dir_def proc_simps split: prod.splits outcome.splits elim!: at_path_looks)
  show "create_dir_all (absolute r) h = (x, t) \<Longrightarrow> same_tree h t"
    unfolding eq [OF assms] using u v uv by (auto split: bool.splits intro: same_tree_trans)
  show "safe (r @ [i]) (create_dir_all (absolute r)) h"
    using p v c u uv eq [OF assms] eq [OF dr]
    by (auto simp: safe_def split: bool.splits intro: same_tree_outside same_tree_trans)
qed

lemma create_layout_held: "held (\<lambda>h. dirs (entries h) [] r) (r @ [i]) (create_runtime_layout (absolute r) i)"
  unfolding create_runtime_layout_def
proof (rule rooted.held_and_then [OF held_basic(3)])
  fix h :: host and v and t :: host
  assume "check (\<lambda>_. validate_backup_identifier i) h = (Ok v, t)" and t: "dirs (entries t) [] r"
  then have p: "path_of i = map Normal [i]" by (auto simp: check_Ok dest: validate_identifier_name)
  have "held (\<lambda>h. dirs (entries h) [] r) (r @ [i])
      (and_then (reject_symlink_components (absolute r)) (\<lambda>_. and_then (fs (create_dir_all (absolute r))) (\<lambda>_.
       and_then (canonical_backup_root (absolute r)) (\<lambda>root. and_then (create_dir_all_no_symlink root (path_of i)) (\<lambda>d.
       ret \<lparr>layout_root = root, device_directory = d, target_identifier = i\<rparr>)))))"
    by (intro rooted.held_then rooted.held_and_then held_basic)
      (auto simp: relevant_def p intro!: heldI reject_safe safe_fs create_dir_all_existing canonical_root_safe safe_and_then safe_ret
        create_dir_all_safe [where xs = "[i]", simplified] dest!: canonical_root_result)
  then show "safe (r @ [i]) (and_then (reject_symlink_components (absolute r)) (\<lambda>_. and_then (fs (create_dir_all (absolute r))) (\<lambda>_.
       and_then (canonical_backup_root (absolute r)) (\<lambda>root. and_then (create_dir_all_no_symlink root (path_of i)) (\<lambda>d.
       ret \<lparr>layout_root = root, device_directory = d, target_identifier = i\<rparr>))))) t"
    using t by (rule heldD)
qed

lemma create_layout_result:
  assumes "create_runtime_layout (absolute r) i h = (Ok lay, t)"
  shows "layout_at lay r i \<and> plain (entries t) [] (r @ [i])"
proof -
  from assms obtain u v w q d where i: "validate_backup_identifier i = Inr w"
    and q: "canonical_backup_root (absolute r) u = (Ok q, v)"
    and d: "create_dir_all_no_symlink q (path_of i) v = (Ok d, t)"
    and lay: "lay = \<lparr>layout_root = q, device_directory = d, target_identifier = i\<rparr>"
    by (auto simp: create_runtime_layout_def and_then_Ok_iff check_Ok proc_simps(1))
  have qr: "q = absolute r" using canonical_root_result [OF q] by simp
  from d obtain x y where x: "canonical_backup_root (absolute r) v = (Ok x, y)"
    and c: "create_components x [Normal i] x [Normal i] y = (Ok d, t)"
    using validate_identifier_name [OF i] qr by (auto simp: create_dir_all_no_symlink_def and_then_Ok_iff)
  have xr: "x = absolute r" "plain (entries y) [] r" using canonical_root_result [OF x] by (auto simp: same_tree_parts)
  let ?rest = "\<lambda>e. if \<not> prefix (absolute r) e then throw (proto ''backup directory path escapes backup root: {}'' [show_path (absolute (r @ [i]))])
    else ret (absolute (r @ [i]))"
  from c have "and_then (enter_directory (absolute (r @ [i]))) (\<lambda>_. and_then (fs (fs_canonicalize (absolute (r @ [i])))) ?rest) y = (Ok d, t)"
    by (simp only: xr(1) create_components.simps Let_def join_absolute)
  then obtain v1 z where e: "enter_directory (absolute (r @ [i])) y = (Ok v1, z)"
    and g: "and_then (fs (fs_canonicalize (absolute (r @ [i])))) ?rest z = (Ok d, t)"
    unfolding and_then_Ok_iff [of "enter_directory _"] by (elim exE conjE) (rule that)
  from g obtain a z' where f: "fs (fs_canonicalize (absolute (r @ [i]))) z = (Ok a, z')" and k: "?rest a z' = (Ok d, t)"
    unfolding and_then_Ok_iff by (elim exE conjE) (rule that)
  have "d = absolute (r @ [i])" "t = z'"
    using k by (cases "prefix (absolute r) a"; simp add: ret_def throw_def)+
  moreover have "plain (entries z) [] (r @ [i])" using enter_directory_plain [OF e xr(2)] .
  ultimately show ?thesis
    using looks_steps(2) [OF f] qr lay by (simp add: layout_at_def same_tree_parts)
qed

section \<open>Metadata files\<close>

lemma lstat_below:
  "plain (entries h) [] p \<Longrightarrow> prefix d p \<Longrightarrow> safe d (unless_missing (symlink_metadata (absolute p))) h"
  "plain (entries h) [] p \<Longrightarrow> prefix d p \<Longrightarrow> safe d (fs (symlink_metadata (absolute p))) h"
  by (auto intro!: safe_unless_missing safe_fs safe_looks plain_reaches simp: relevant_def)

lemma inspected_safe:
  assumes "prefix d p" and "\<And>m h. safe d (f m) h"
  shows "safe d (and_then (reject_symlink_components (absolute p)) (\<lambda>_. and_then (unless_missing (symlink_metadata (absolute p))) f)) h"
  using assms by (intro safe_and_then reject_safe lstat_below) (auto simp: relevant_def dest: reject_result)

lemma metadata_safe:
  assumes "prefix d p"
  shows "safe d (validate_seed_file_path (absolute p)) h" and "safe d (look_at_metadata (absolute p)) h"
  unfolding validate_seed_file_path_def look_at_metadata_def
  using assms by (intro inspected_safe; auto simp: safe_ret safe_throw split: option.splits)+

lemma full_backup_safe: "safe (r @ [i]) (should_do_full_backup full (absolute (r @ [i]))) h"
proof -
  have req: "safe (r @ [i]) (has_required_files (absolute (r @ [i])) names) h" for names h
    by (induction names arbitrary: h) (auto simp: safe_ret intro!: safe_and_then metadata_safe)
  show ?thesis
    unfolding should_do_full_backup_def has_incremental_backup_metadata_def
    by (auto simp: safe_ret intro!: safe_and_then req metadata_safe safe_if)
qed

lemma write_plist_safe: "prefix d q \<Longrightarrow> safe d (write_plist ser q v) h"
  unfolding write_plist_def
proof (intro safe_and_then safe_check)
  fix bs t assume "prefix d q"
  then show "safe d (\<lambda>h. case append_file q bs h of (Err _, t) \<Rightarrow> (Err BPlist, t) | (Ok x, t) \<Rightarrow> (Ok x, t) | (Cancelled, t) \<Rightarrow> (Cancelled, t)) t"
    using safe_append [of d q bs t] by (auto simp: safe_def split: prod.splits outcome.splits)
qed

lemma seed_manifest_safe:
  assumes "plain (entries h) [] (r @ [i])"
  shows "safe (r @ [i]) (seed_manifest full (absolute (r @ [i, name]))) h"
proof -
  have c: "reaches t False (r @ [i, name])" if "plain (entries t) [] (r @ [i])" for t
    using that by (simp add: reaches_def butlast_append)
  have looked: "plain (entries t) [] (r @ [i])" if "unless_missing (symlink_metadata p) h = (x, t)" for p x t
    using assms unless_missing_looks [OF that] looks(1) by (auto simp: same_tree_parts)
  show ?thesis
    unfolding seed_manifest_def
    using assms by (intro safe_and_then)
      (auto simp: relevant_def safe_ret safe_throw intro!: safe_unless_missing safe_looks safe_and_then safe_fs safe_changes open_file_safe c
        dest: looked split: option.split)
qed

lemma seed_files_held: "held (\<lambda>h. plain (entries h) [] (r @ [i])) (r @ [i]) (seed_files env info full (absolute (r @ [i])))"
proof -
  let ?C = "\<lambda>h. plain (entries h) [] (r @ [i])"
  have p: "prefix (r @ [i]) (r @ [i, name])" for name by simp
  have missing: "held ?C (r @ [i]) (is_missing (absolute (r @ [i, name])))" for name
    by (intro heldI is_missing_safe) (auto simp: reaches_def relevant_def butlast_append)
  have written: "held ?C (r @ [i]) (and_then (open_file_for_write (absolute (r @ [i, name]))) (\<lambda>q. write_plist ser q v))" for name ser and v :: plist
    using p by (intro held_always safe_and_then open_file_safe) (auto dest!: open_file_result intro!: write_plist_safe)
  have info: "held ?C (r @ [i]) (and_then (open_file_for_write (absolute (r @ [i, name]))) (\<lambda>q. and_then (write_plist ser q v) (\<lambda>_. k)))"
    if "held ?C (r @ [i]) k" for name ser v and k :: "unit host_proc"
  proof (rule settled.held_and_then [OF held_always [OF open_file_safe(2) [OF p]]])
    fix h q t assume "open_file_for_write (absolute (r @ [i, name])) h = (Ok q, t)" and t: "?C t"
    then have "q = r @ [i, name]" by (auto dest: open_file_result)
    then have "held ?C (r @ [i]) (and_then (write_plist ser q v) (\<lambda>_. k))"
      using that by (intro settled.held_then held_always [OF write_plist_safe]) simp_all
    then show "safe (r @ [i]) (and_then (write_plist ser q v) (\<lambda>_. k)) t" using t by (rule heldD)
  qed
  show ?thesis
    unfolding seed_files_def Let_def join_absolute append.assoc append.simps
    by (intro settled.held_then info settled.held_for_each missing held_intros written heldI [OF seed_manifest_safe]
        held_always [OF metadata_safe(1) [OF p]] held_always [OF full_backup_safe])
qed

lemma initialize_held:
  "held (\<lambda>h. dirs (entries h) [] r) (r @ [i]) (initialize_backup_directory env (absolute r) i info full)"
  unfolding initialize_backup_directory_def
proof (rule rooted.held_and_then [OF create_layout_held])
  fix h :: host and lay and t :: host
  assume "create_runtime_layout (absolute r) i h = (Ok lay, t)"
  then have "layout_at lay r i" "plain (entries t) [] (r @ [i])" by (auto dest: create_layout_result)
  then show "safe (r @ [i]) (and_then (seed_files env info full (device_directory lay)) (\<lambda>_. ret lay)) t"
    by (auto simp: layout_at_def safe_ret intro!: safe_and_then heldD [OF seed_files_held])
qed

lemma initialize_result:
  assumes "initialize_backup_directory env (absolute r) i info full h = (Ok lay, t)"
  shows "layout_at lay r i \<and> plain (entries t) [] (r @ [i])"
proof -
  from assms obtain u v where u: "create_runtime_layout (absolute r) i h = (Ok lay, u)"
    and v: "seed_files env info full (device_directory lay) u = (Ok v, t)"
    by (auto simp: initialize_backup_directory_def and_then_Ok_iff ret_def)
  have lay: "layout_at lay r i" "plain (entries u) [] (r @ [i])" using create_layout_result [OF u] by auto
  then have "same_outside (r @ [i]) u t"
    using v safe_outside [OF heldD [OF seed_files_held]] by (simp add: layout_at_def)
  then show ?thesis using lay plain_directory by blast
qed

lemma require_file_safe:
  assumes "plain (entries h) [] r" and "path_of i = [Normal i]"
  shows "safe (r @ [i]) (require_file (absolute r) i name) h"
proof -
  have j: "join [Normal i] [Normal name] = map Normal [i, name]" by (simp add: join_def is_absolute_def)
  show ?thesis
    unfolding require_file_def Let_def assms(2) j join_absolute_names ensure_no_symlink_components_at_root_def
  proof (intro safe_and_then ensure_components_safe assms(1))
    fix v t assume "ensure_components (map Normal [i, name]) (absolute r) (map Normal [i, name]) h = (Ok v, t)"
    then have "same_tree h t \<and> plain (entries h) [] (r @ [i, name])"
      by (intro ensure_result [of r "[i, name]" h v t] assms(1)) (simp only: ensure_no_symlink_components_at_root_def)
    then have "plain (entries t) [] (r @ [i, name])" by (auto simp: same_tree_parts)
    then show "safe (r @ [i]) (unless_missing (symlink_metadata (absolute (r @ [i, name])))) t" by (rule lstat_below) simp
  qed (auto simp: relevant_def safe_ret safe_throw split: option.split)
qed

lemma identifier_checked:
  "(path_of i = [Normal i] \<Longrightarrow> held C d m) \<Longrightarrow> held C d (and_then (check (\<lambda>_. validate_backup_identifier i)) (\<lambda>_. m))"
  by (auto simp: held_def check_Ok safe_check intro!: safe_and_then dest!: validate_identifier_name)

lemma ensure_directory_held: "held (\<lambda>h. dirs (entries h) [] r) (r @ [i]) (ensure_backup_directory (absolute r) i)"
  unfolding ensure_backup_directory_def
proof (rule rooted.held_and_then)
  let ?C = "\<lambda>h. dirs (entries h) [] r"
  show "held ?C (r @ [i]) (canonical_backup_root (absolute r))"
    by (intro held_always canonical_root_safe) (simp add: relevant_def)
  fix h :: host and q and t :: host
  assume "canonical_backup_root (absolute r) h = (Ok q, t)" and t: "?C t"
  then have q: "q = absolute r" by (auto dest: canonical_root_result)
  have "held ?C (r @ [i]) (and_then (check (\<lambda>_. validate_backup_identifier i)) (\<lambda>_. and_then (safe_path_from_root (absolute r) (path_of i))
      (\<lambda>_. for_each (require_file (absolute r) i) [''Info.plist'', ''Manifest.plist'', ''Status.plist''])))"
  proof (rule identifier_checked)
    assume i: "path_of i = [Normal i]"
    have "held ?C (r @ [i]) (safe_path_from_root (absolute r) (map Normal [i]))"
      unfolding safe_path_from_root_def ensure_no_symlink_components_at_root_def
      by (intro rooted.held_then held_intros heldI ensure_components_safe) (auto simp: relevant_def dirs_plain)
    then show "held ?C (r @ [i]) (and_then (safe_path_from_root (absolute r) (path_of i))
        (\<lambda>_. for_each (require_file (absolute r) i) [''Info.plist'', ''Manifest.plist'', ''Status.plist'']))"
      using i by (intro rooted.held_then rooted.held_for_each) (auto intro!: heldI require_file_safe dirs_plain)
  qed
  then show "safe (r @ [i]) (and_then (check (\<lambda>_. validate_backup_identifier i)) (\<lambda>_. and_then (safe_path_from_root q (path_of i))
      (\<lambda>_. for_each (require_file q i) [''Info.plist'', ''Manifest.plist'', ''Status.plist'']))) t"
    unfolding q using t by (rule heldD)
qed

lemma existing_layout_held: "held (\<lambda>h. dirs (entries h) [] r) (r @ [i]) (existing_layout (absolute r) i)"
  unfolding existing_layout_def by (intro rooted.held_then ensure_directory_held create_layout_held)

lemma existing_layout_result:
  "existing_layout (absolute r) i h = (Ok lay, t) \<Longrightarrow> layout_at lay r i \<and> plain (entries t) [] (r @ [i])"
  by (auto simp: existing_layout_def and_then_Ok_iff dest: create_layout_result)

lemma metadata_path_held: "held (\<lambda>h. dirs (entries h) [] r) (r @ [i]) (metadata_file_path (absolute r) i name)"
  unfolding metadata_file_path_def
proof (rule identifier_checked)
  let ?C = "\<lambda>h. dirs (entries h) [] r"
  assume "path_of i = [Normal i]"
  then have j: "join (path_of i) [Normal name] = map Normal [i, name]" by (simp add: join_def is_absolute_def)
  show "held ?C (r @ [i]) (and_then (canonical_backup_root (absolute r)) (\<lambda>root. and_then (safe_path_from_root root (join (path_of i) [Normal name])) regular_file))"
  proof (rule rooted.held_and_then)
    show "held ?C (r @ [i]) (canonical_backup_root (absolute r))"
      by (intro held_always canonical_root_safe) (simp add: relevant_def)
    fix h :: host and q and t :: host
    assume "canonical_backup_root (absolute r) h = (Ok q, t)" and "?C t"
    then have q: "q = absolute r" "plain (entries t) [] r" by (auto dest: canonical_root_result dirs_plain)
    show "safe (r @ [i]) (and_then (safe_path_from_root q (join (path_of i) [Normal name])) regular_file) t"
      unfolding j q(1) safe_path_from_root_def
    proof (intro safe_and_then safe_ret)
      show "safe (r @ [i]) (ensure_no_symlink_components_at_root (absolute r) (map Normal [i, name])) t"
        unfolding ensure_no_symlink_components_at_root_def using q(2) by (rule ensure_components_safe) (simp add: relevant_def)
      fix p u
      assume "and_then (ensure_no_symlink_components_at_root (absolute r) (map Normal [i, name])) (\<lambda>_. ret (join (absolute r) (map Normal [i, name]))) t = (Ok p, u)"
      then obtain v where e: "ensure_no_symlink_components_at_root (absolute r) (map Normal [i, name]) t = (Ok v, u)"
        and p: "p = absolute (r @ [i, name])"
        unfolding and_then_Ok_iff join_absolute_names ret_def by auto
      have "plain (entries u) [] (r @ [i, name])" using ensure_result [OF e q(2)] by (auto simp: same_tree_parts)
      then show "safe (r @ [i]) (regular_file p) u"
        unfolding regular_file_def p by (intro safe_and_then lstat_below) (auto simp: safe_ret safe_throw)
    qed
  qed
qed

lemma metadata_path_result:
  assumes "metadata_file_path (absolute r) i name h = (Ok p, t)"
  shows "p = absolute (r @ [i, name])"
proof -
  from assms obtain q v w where i: "validate_backup_identifier i = Inr ()"
    and q: "canonical_backup_root (absolute r) h = (Ok q, v)"
    and p: "safe_path_from_root q (join (path_of i) [Normal name]) v = (Ok p, w)"
    by (auto simp: metadata_file_path_def and_then_Ok_iff check_Ok regular_file_def ret_def throw_def split: if_splits)
  have j: "join (path_of i) [Normal name] = map Normal [i, name]"
    using validate_identifier_name [OF i] by (simp add: join_def is_absolute_def)
  have "q = absolute r" using canonical_root_result [OF q] by simp
  then show ?thesis using p unfolding safe_path_from_root_def j by (auto simp: and_then_Ok_iff ret_def simp del: list.map)
qed

lemma read_dictionary_safe:
  assumes "prefix d p"
  shows "safe d (read_backup_dictionary env (absolute p)) h"
proof -
  have "safe d (open_backup_metadata_for_read env (absolute p)) h" for h
    unfolding open_backup_metadata_for_read_def Let_def
    using assms by (intro safe_and_then open_file_safe safe_fs syscall_safe safe_if safe_throw safe_ret)
      (auto simp: safe_def dest!: open_file_result)
  moreover have "safe d (read_plist env q) t" if "prefix d q" for q t
  proof -
    have "safe d (syscall (\<lambda>_ h. case entry_at (entries h) q of Some (File c) \<Rightarrow> (Ok (from_bytes env c), h) | _ \<Rightarrow> (Err EISDIR, h))) t"
      using that by (intro syscall_safe) (auto simp: safe_def split: option.splits entry.splits)
    then show ?thesis unfolding read_plist_def by (auto simp: safe_def split: prod.splits outcome.splits option.splits)
  qed
  moreover have "q = p" if "open_backup_metadata_for_read env (absolute p) u = (Ok q, v)" for q u v
    using that by (auto simp: open_backup_metadata_for_read_def and_then_Ok_iff Let_def ret_def throw_def dest!: open_file_result split: if_splits)
  ultimately show ?thesis
    unfolding read_backup_dictionary_def read_backup_value_def using assms by (intro safe_and_then safe_check) blast+
qed

lemma restore_layout_held: "held (\<lambda>h. dirs (entries h) [] r) (r @ [i]) (restore_layout env (absolute r) i)"
  unfolding restore_layout_def
proof (rule rooted.held_and_then [OF existing_layout_held])
  let ?C = "\<lambda>h. dirs (entries h) [] r"
  fix h :: host and lay and t :: host
  assume "existing_layout (absolute r) i h = (Ok lay, t)" and t: "?C t"
  then have lay: "layout_root lay = absolute r" "target_identifier lay = i" by (auto dest!: existing_layout_result simp: layout_at_def)
  have "held ?C (r @ [i]) (and_then (metadata_file_path (absolute r) i name) (\<lambda>p. and_then (read_backup_dictionary env p) (\<lambda>manifest. ret (lay, manifest))))" for name
    by (rule rooted.held_and_then [OF metadata_path_held])
      (auto dest!: metadata_path_result intro!: safe_and_then read_dictionary_safe safe_ret)
  then show "safe (r @ [i]) (and_then (metadata_file_path (layout_root lay) (target_identifier lay) ''Manifest.plist'')
      (\<lambda>p. and_then (read_backup_dictionary env p) (\<lambda>manifest. ret (lay, manifest)))) t"
    unfolding lay using t by (rule heldD)
qed

lemma restore_layout_result:
  assumes "restore_layout env (absolute r) i h = (Ok (lay, manifest), t)" and "dirs (entries h) [] r"
  shows "layout_at lay r i \<and> plain (entries t) [] (r @ [i])"
proof -
  from assms(1) obtain u v p where u: "existing_layout (absolute r) i h = (Ok lay, u)"
    and p: "metadata_file_path (layout_root lay) (target_identifier lay) ''Manifest.plist'' u = (Ok p, v)"
    and m: "read_backup_dictionary env p v = (Ok manifest, t)"
    by (auto simp: restore_layout_def and_then_Ok_iff ret_def)
  have lay: "layout_at lay r i" "plain (entries u) [] (r @ [i])" using existing_layout_result [OF u] by auto
  have "dirs (entries u) [] r" using safe_outside [OF heldD [OF existing_layout_held assms(2)] u] assms(2) by (rule dirs_outside)
  then have "same_outside (r @ [i]) u v"
    using p lay(1) safe_outside [OF heldD [OF metadata_path_held]] by (auto simp: layout_at_def)
  moreover have "same_outside (r @ [i]) v t"
  proof -
    have "p = absolute (r @ [i, ''Manifest.plist''])"
      using p lay(1) by (auto simp: layout_at_def dest: metadata_path_result)
    then show ?thesis
      using m safe_outside [OF read_dictionary_safe, of "r @ [i]" "r @ [i, ''Manifest.plist'']" env v "Ok manifest" t] by simp
  qed
  ultimately show ?thesis using lay plain_directory by blast
qed

end
