(* ===== verification/Backup_Upload.thy ===== *)
theory Backup_Upload
  imports Backup_Layouts
begin

text \<open>
  What the upload of files does when nothing goes wrong: on a host whose system calls succeed, every
  file that the device uploads is stored below the directory of the device with exactly the bytes
  of its frames, missing directories are created, and nothing else changes.
\<close>

section \<open>A quiet host\<close>

definition short :: "names \<Rightarrow> bool" where
  "short p \<longleftrightarrow> path_bytes (absolute p) < PATH_MAX"

lemma short_prefix: "short (p @ q) \<Longrightarrow> short p"
  by (simp add: short_def path_bytes_def absolute_def)

lemma short_root: "short []"
  by (simp add: short_def path_bytes_def absolute_def component_bytes_def PATH_MAX_def)

lemma syscall_quiet: "events h = [] \<Longrightarrow> syscall f h = f Fine h"
  by (simp add: syscall_def)

lemma resolve_quiet: "dirs (entries h) [] c \<Longrightarrow> short (c @ [x]) \<Longrightarrow> resolve False (absolute (c @ [x])) h = Inr (c @ [x])"
  using walk_dirs [of "entries h" "[]" c False 40 "[Normal x]"]
  by (auto simp: resolve_def short_def absolute_def split: option.splits entry.splits)

lemma resolve_directory: "dirs (entries h) [] c \<Longrightarrow> short c \<Longrightarrow> resolve follow (absolute c) h = Inr c"
  using walk_dirs [of "entries h" "[]" c follow 40 "[]"] by (auto simp: resolve_def short_def absolute_def)

lemma lstat_quiet:
  assumes "events h = []" and "dirs (entries h) [] c" and "short (c @ [x])"
  shows "unless_missing (symlink_metadata (absolute (c @ [x]))) h = (Ok (entry_at (entries h) (c @ [x])), h)"
    and "entry_at (entries h) (c @ [x]) = Some e \<Longrightarrow> fs (symlink_metadata (absolute (c @ [x]))) h = (Ok e, h)"
  using assms resolve_quiet [OF assms(2,3)]
  by (auto simp: unless_missing_def fs_def symlink_metadata_def at_path_def syscall_quiet proc_simps split: option.splits)

lemma canonicalize_quiet:
  assumes "events h = []" and "dirs (entries h) [] c" and "short c"
  shows "fs (fs_canonicalize (absolute c)) h = (Ok (absolute c), h)"
  using assms resolve_directory [OF assms(2,3)] dirs_entry [OF assms(2)]
  by (simp add: fs_def fs_canonicalize_def at_path_def syscall_quiet proc_simps)

text \<open>A way on which every name is free or a directory, up to a last one that is free or a file.\<close>

fun creatable :: "(names \<times> entry) list \<Rightarrow> names \<Rightarrow> names \<Rightarrow> bool" where
  "creatable es c [] \<longleftrightarrow> True"
| "creatable es c (x # xs) \<longleftrightarrow>
     (entry_at es (c @ [x]) = None \<or> entry_at es (c @ [x]) = Some Directory) \<and> creatable es (c @ [x]) xs"

definition storable :: "(names \<times> entry) list \<Rightarrow> names \<Rightarrow> names \<Rightarrow> bool" where
  "storable es c ys \<longleftrightarrow> ys \<noteq> [] \<and> creatable es c (butlast ys) \<and>
     (entry_at es (c @ ys) = None \<or> (\<exists>b. entry_at es (c @ ys) = Some (File b)))"

fun passable :: "(names \<times> entry) list \<Rightarrow> names \<Rightarrow> names \<Rightarrow> bool" where
  "passable es c [] \<longleftrightarrow> True"
| "passable es c (x # xs) \<longleftrightarrow> (case entry_at es (c @ [x]) of
       None \<Rightarrow> True | Some Directory \<Rightarrow> passable es (c @ [x]) xs | Some (File _) \<Rightarrow> xs = [] | _ \<Rightarrow> False)"

lemma creatable_passable: "creatable es c xs \<Longrightarrow> passable es c xs"
  by (induction xs arbitrary: c) auto

lemma passable_append: "creatable es c xs \<Longrightarrow> passable es (c @ xs) ys \<Longrightarrow> passable es c (xs @ ys)"
  by (induction xs arbitrary: c) auto

lemma storable_passable: "storable es c ys \<Longrightarrow> passable es c ys"
  using passable_append [of es c "butlast ys" "[last ys]"]
  by (auto simp: storable_def split: option.splits entry.splits)

lemma dirs_passable: "dirs es c xs \<Longrightarrow> passable es c xs"
  by (induction xs arbitrary: c) auto

lemma ensure_quiet:
  assumes "events h = []" and "dirs (entries h) [] c" and "short (c @ xs)" and "passable (entries h) c xs"
  shows "ensure_components rel (absolute c) (map Normal xs) h = (Ok (), h)"
  using assms
proof (induction xs arbitrary: c)
  case (Cons x xs)
  have s: "short (c @ [x])" using Cons.prems(3) short_prefix [of "c @ [x]" xs] by simp
  show ?case
  proof (cases "entry_at (entries h) (c @ [x]) = Some Directory")
    case True
    then show ?thesis
      using Cons.IH [of "c @ [x]"] Cons.prems lstat_quiet(1) [OF Cons.prems(1,2) s] by (simp add: Let_def proc_simps dirs_append)
  next
    case False
    then show ?thesis
      using Cons.prems lstat_quiet(1) [OF Cons.prems(1,2) s]
      by (auto simp: Let_def proc_simps split: option.splits entry.splits)
  qed
qed (simp add: proc_simps)

lemma reject_components_quiet:
  assumes "events h = []" and "dirs (entries h) [] c" and "short (c @ xs)" and "passable (entries h) c xs"
  shows "reject_components p (absolute c) (map Normal xs) h = (Ok (), h)"
  using assms
proof (induction xs arbitrary: c)
  case (Cons x xs)
  have s: "short (c @ [x])" using Cons.prems(3) short_prefix [of "c @ [x]" xs] by simp
  show ?case
  proof (cases "entry_at (entries h) (c @ [x]) = Some Directory")
    case True
    then show ?thesis
      using Cons.IH [of "c @ [x]"] Cons.prems lstat_quiet(1) [OF Cons.prems(1,2) s] by (simp add: Let_def proc_simps dirs_append)
  next
    case False
    then show ?thesis
      using Cons.prems lstat_quiet(1) [OF Cons.prems(1,2) s]
      by (auto simp: Let_def proc_simps split: option.splits entry.splits)
  qed
qed (simp add: proc_simps)

lemma reject_quiet:
  assumes "events h = []" and "short p" and "passable (entries h) [] p"
  shows "reject_symlink_components (absolute p) h = (Ok (), h)"
proof -
  have "unless_missing (symlink_metadata [RootDir]) h = (Ok (Some Directory), h)"
    using assms(1) resolve_directory [of h "[]" False] short_root
    by (simp add: unless_missing_def symlink_metadata_def at_path_def syscall_quiet absolute_def entry_at_def proc_simps)
  moreover have "reject_components (absolute p) (absolute []) (map Normal p) h = (Ok (), h)"
    using assms by (intro reject_components_quiet) simp_all
  ultimately show ?thesis
    by (simp add: reject_symlink_components_def is_absolute_def absolute_def proc_simps Let_def join_def)
qed

lemma canonical_root_quiet:
  assumes "events h = []" and "dirs (entries h) [] r" and "short r"
  shows "canonical_backup_root (absolute r) h = (Ok (absolute r), h)"
  using assms by (simp add: canonical_backup_root_def reject_quiet dirs_passable canonicalize_quiet proc_simps)

section \<open>Storing a file\<close>

text \<open>A tree in which what exists is in a directory.\<close>

definition tree :: "(names \<times> entry) list \<Rightarrow> bool" where
  "tree es \<longleftrightarrow> (\<forall>p x. entry_at es (p @ [x]) \<noteq> None \<longrightarrow> entry_at es p = Some Directory)"

lemma tree_prefix:
  assumes "tree es" and "entry_at es p = None"
  shows "entry_at es (p @ xs) = None"
  using assms(2)
proof (induction xs rule: rev_induct)
  case (snoc x xs)
  then show ?case using assms(1) by (auto simp: tree_def simp flip: append_assoc) (metis not_None_eq option.distinct(1))
qed simp

text \<open>The tree with the names below \<open>c\<close> up to \<open>p\<close> made directories.\<close>

definition directories_to :: "names \<Rightarrow> names \<Rightarrow> (names \<times> entry) list \<Rightarrow> (names \<times> entry) list \<Rightarrow> bool" where
  "directories_to c p es es' \<longleftrightarrow>
     (\<forall>q. entry_at es' q = (if strict_prefix c q \<and> prefix q p then Some Directory else entry_at es q))"

lemma tree_directories:
  assumes "tree es" and "entry_at es c = Some Directory" and "directories_to c p es es'"
  shows "tree es'"
  unfolding tree_def
proof (intro allI impI)
  fix q x assume e: "entry_at es' (q @ [x]) \<noteq> None"
  show "entry_at es' q = Some Directory"
  proof (cases "strict_prefix c (q @ [x]) \<and> prefix (q @ [x]) p")
    case True
    then have "prefix q p" "q = c \<or> strict_prefix c q" by (auto simp: strict_prefix_def prefix_snoc dest: append_prefixD)
    then show ?thesis using assms(2,3) by (auto simp: directories_to_def)
  next
    case False
    then have "entry_at es (q @ [x]) \<noteq> None" using e assms(3) by (auto simp: directories_to_def)
    then have "entry_at es q = Some Directory" using assms(1) by (auto simp: tree_def)
    then show ?thesis using assms(3) by (simp add: directories_to_def)
  qed
qed

lemma new_directory_entry:
  assumes "tree (entries h)" and "entry_at (entries h) q = None"
  shows "entry_at (entries (put_entry q Directory (drop_entries q h))) p = (if p = q then Some Directory else entry_at (entries h) p)"
proof -
  have "q \<noteq> []" using assms(2) by (auto simp: entry_at_def)
  moreover have "entry_at (entries h) p = None" if "prefix q p" using that tree_prefix [OF assms] by (auto elim: prefixE)
  ultimately show ?thesis
    by (auto simp: entry_at_def put_entry_def drop_entries_def index_insert_lookup map_of_filter_keys split: if_splits)
qed

lemma enter_quiet:
  assumes "events h = []" and "dirs (entries h) [] c" and "short (c @ [x])" and "tree (entries h)"
    and "entry_at (entries h) (c @ [x]) = None \<or> entry_at (entries h) (c @ [x]) = Some Directory"
  shows "\<exists>t. enter_directory (absolute (c @ [x])) h = (Ok (), t) \<and> events t = [] \<and>
     (\<forall>p. entry_at (entries t) p = (if p = c @ [x] then Some Directory else entry_at (entries h) p))"
proof (cases "entry_at (entries h) (c @ [x])")
  case None
  let ?t = "put_entry (c @ [x]) Directory (drop_entries (c @ [x]) h)"
  have t: "events ?t = []" using assms(1) by (simp_all add: put_entry_def drop_entries_def)
  have e: "entry_at (entries ?t) p = (if p = c @ [x] then Some Directory else entry_at (entries h) p)" for p
    by (rule new_directory_entry [OF assms(4) None])
  have "create_dir_unless_there (absolute (c @ [x])) h = (Ok (), ?t)"
    using resolve_quiet [OF assms(2,3)] None assms(1)
    by (simp add: create_dir_unless_there_def create_dir_def at_path_def syscall_quiet proc_simps)
  moreover have "dirs (entries ?t) [] c"
  proof -
    have "dirs (entries ?t) b xs" if "dirs (entries h) b xs" "b @ xs = c" for b xs
      using that by (induction xs arbitrary: b) (auto simp: e)
    then show ?thesis using assms(2) by simp
  qed
  then have "fs (symlink_metadata (absolute (c @ [x]))) ?t = (Ok Directory, ?t)"
    using assms(3) t e by (intro lstat_quiet(2)) simp_all
  ultimately have "enter_directory (absolute (c @ [x])) h = (Ok (), ?t)"
    using lstat_quiet(1) [OF assms(1-3)] None by (simp add: enter_directory_def proc_simps check_directory_def)
  then show ?thesis using t e by blast
next
  case (Some d)
  then have "enter_directory (absolute (c @ [x])) h = (Ok (), h)"
    using assms lstat_quiet(1) [OF assms(1-3)] by (simp add: enter_directory_def proc_simps check_directory_def)
  then show ?thesis using assms(1,5) Some by (intro exI [of _ h]) auto
qed

lemma dirs_cong: "(\<And>p. entry_at es p = Some Directory \<Longrightarrow> entry_at es' p = Some Directory) \<Longrightarrow> dirs es c xs \<Longrightarrow> dirs es' c xs"
  by (induction xs arbitrary: c) auto

lemma create_quiet:
  assumes "events h = []" and "dirs (entries h) [] c" and "short (c @ xs)" and "tree (entries h)" and "creatable (entries h) c xs"
    and "prefix r c"
  shows "\<exists>t. create_components (absolute r) rel (absolute c) (map Normal xs) h = (Ok (absolute (c @ xs)), t) \<and>
     events t = [] \<and> dirs (entries t) [] (c @ xs) \<and> directories_to c (c @ xs) (entries h) (entries t)"
  using assms
proof (induction xs arbitrary: c h)
  case Nil
  then show ?case by (auto simp: proc_simps directories_to_def strict_prefix_def)
next
  case (Cons x xs)
  have s: "short (c @ [x])" using Cons.prems(3) short_prefix [of "c @ [x]" xs] by simp
  obtain u where u: "enter_directory (absolute (c @ [x])) h = (Ok (), u)" "events u = []"
    and e: "\<And>p. entry_at (entries u) p = (if p = c @ [x] then Some Directory else entry_at (entries h) p)"
    using enter_quiet [OF Cons.prems(1,2) s Cons.prems(4)] Cons.prems(5) by auto
  have du: "dirs (entries u) [] (c @ [x])"
    using Cons.prems(2) e by (auto simp: dirs_append intro: dirs_cong [of "entries h"])
  have step: "directories_to c (c @ [x]) (entries h) (entries u)"
    using e by (auto simp: directories_to_def strict_prefix_def prefix_snoc)
  have tu: "tree (entries u)" by (rule tree_directories [OF Cons.prems(4) dirs_entry [OF Cons.prems(2)] step])
  have cu: "creatable (entries u) (c @ [x]) xs"
  proof -
    have "creatable (entries u) b ys" if "creatable (entries h) b ys" for b ys
      using that by (induction ys arbitrary: b) (auto simp: e)
    then show ?thesis using Cons.prems(5) by simp
  qed
  obtain t where t: "create_components (absolute r) rel (absolute (c @ [x])) (map Normal xs) u = (Ok (absolute (c @ [x] @ xs)), t)"
    "events t = []" "dirs (entries t) [] (c @ [x] @ xs)" "directories_to (c @ [x]) (c @ [x] @ xs) (entries u) (entries t)"
    using Cons.IH [OF u(2) du _ tu cu] Cons.prems(3,6) by (auto simp: prefix_prefix)
  have "fs (fs_canonicalize (absolute (c @ [x]))) u = (Ok (absolute (c @ [x])), u)"
    using u(2) du s by (rule canonicalize_quiet)
  moreover have "prefix (absolute r) (absolute (c @ [x]))"
    using Cons.prems(6) by (auto simp: absolute_def elim!: prefixE)
  ultimately have "create_components (absolute r) rel (absolute c) (map Normal (x # xs)) h = (Ok (absolute (c @ x # xs)), t)"
    using u(1) t(1) by (simp add: Let_def proc_simps)
  moreover have "directories_to c (c @ x # xs) (entries h) (entries t)"
  proof -
    have "strict_prefix c q \<and> prefix q (c @ x # xs) \<longleftrightarrow> q = c @ [x] \<or> strict_prefix (c @ [x]) q \<and> prefix q (c @ x # xs)" for q
      by (auto simp: strict_prefix_def prefix_def Cons_eq_append_conv) 
    then show ?thesis using t(4) e by (auto simp: directories_to_def)
  qed
  ultimately show ?case using t by auto
qed

text \<open>A path of the device that is accepted and leads to \<open>ys\<close> below the root.\<close>

definition leads_to :: "backup_layout \<Rightarrow> string \<Rightarrow> names \<Rightarrow> bool" where
  "leads_to lay name ys \<longleftrightarrow> (case sanitize_relative_path name of Inl _ \<Rightarrow> False | Inr clean \<Rightarrow> under_target lay clean = map Normal ys)"

definition stored :: "names \<Rightarrow> names \<Rightarrow> bytes \<Rightarrow> (names \<times> entry) list \<Rightarrow> (names \<times> entry) list \<Rightarrow> bool" where
  "stored r p content es es' \<longleftrightarrow>
     (\<forall>q. entry_at es' q = (if q = p then Some (File content)
        else if strict_prefix r q \<and> strict_prefix q p then Some Directory else entry_at es q))"

lemma put_entry_entry: "q \<noteq> [] \<Longrightarrow> entry_at (entries (put_entry q x h)) p = (if p = q then Some x else entry_at (entries h) p)"
  by (simp add: entry_at_def put_entry_def index_insert_lookup)

lemma resolve_relative_quiet:
  assumes "events h = []" and "dirs (entries h) [] r" and "short (r @ ys)" and "passable (entries h) r ys"
    and "layout_at lay r i" and "validate_backup_identifier i = Inr ()" and "leads_to lay name ys"
  shows "resolve_relative_path lay name h = (Ok (absolute (r @ ys)), h)"
proof -
  from assms(7) obtain clean where c: "sanitize_relative_path name = Inr clean" "under_target lay clean = map Normal ys"
    by (auto simp: leads_to_def split: sum.splits)
  have "canonical_backup_root (absolute r) h = (Ok (absolute r), h)"
    using assms short_prefix by (blast intro: canonical_root_quiet)
  moreover have "ensure_no_symlink_components_at_root (absolute r) (map Normal ys) h = (Ok (), h)"
    unfolding ensure_no_symlink_components_at_root_def using assms by (intro ensure_quiet)
  ultimately show ?thesis
    using c assms(5,6) by (simp add: resolve_relative_path_def layout_at_def Let_def proc_simps)
qed

lemma open_write_quiet:
  assumes "events h = []" and "dirs (entries h) [] c" and "short (c @ [x])"
    and "entry_at (entries h) (c @ [x]) = None \<or> (\<exists>b. entry_at (entries h) (c @ [x]) = Some (File b))"
  shows "open_file_for_write (absolute (c @ [x])) h = (Ok (c @ [x]), put_entry (c @ [x]) (File []) h)"
proof -
  have "passable (entries h) [] (c @ [x])"
  proof -
    have "passable (entries h) b (xs @ [x])" if "dirs (entries h) b xs" "b @ xs = c" for b xs
      using that assms(4) by (induction xs arbitrary: b) (auto split: option.splits)
    then show ?thesis using assms(2) by simp
  qed
  then show ?thesis
    using assms resolve_quiet [OF assms(2,3)]
    by (auto simp: open_file_for_write_def reject_quiet proc_simps fs_def open_write_def at_path_def syscall_quiet)
qed

text \<open>Everything the host does for an upload before its first frame.\<close>

lemma open_destination_quiet:
  assumes "events h = []" and "dirs (entries h) [] r" and "short (r @ ys)" and "storable (entries h) r ys"
    and "layout_at lay r i" and "tree (entries h)"
  shows "\<exists>t. create_layout_parent_directory lay (absolute (r @ ys)) h = (Ok (), t) \<and>
    open_layout_file_for_write lay (absolute (r @ ys)) t = (Ok (r @ ys), put_entry (r @ ys) (File []) t) \<and>
    events t = [] \<and> directories_to r (r @ butlast ys) (entries h) (entries t)"
proof -
  obtain zs x where ys: "ys = zs @ [x]" using assms(4) by (cases ys rule: rev_cases) (auto simp: storable_def)
  have c: "creatable (entries h) r zs" using assms(4) by (simp add: storable_def ys)
  have s: "short (r @ zs)" "short r" "short ((r @ zs) @ [x])" using assms(3) short_prefix [of "r @ zs" "[x]"] short_prefix [of r ys] by (simp_all add: ys)
  obtain t where t: "create_components (absolute r) (map Normal zs) (absolute r) (map Normal zs) h = (Ok (absolute (r @ zs)), t)"
    "events t = []" "dirs (entries t) [] (r @ zs)" "directories_to r (r @ zs) (entries h) (entries t)"
    using create_quiet [OF assms(1,2) s(1) assms(6) c, of r "map Normal zs"] by auto
  have "create_layout_parent_directory lay (absolute (r @ ys)) h = (Ok (), t)"
    using t(1) assms(5) parent_absolute [of "r @ zs" x] canonical_root_quiet [OF assms(1,2) s(2)]
    by (simp add: ys create_layout_parent_directory_def create_layout_directory_def create_dir_all_no_symlink_def layout_at_def proc_simps)
  moreover have e: "entry_at (entries t) (r @ ys) = None \<or> (\<exists>b. entry_at (entries t) (r @ ys) = Some (File b))"
    using assms(4) t(4) by (auto simp: storable_def directories_to_def ys dest: prefix_length_le)
  moreover have "open_file_for_write (absolute (r @ ys)) t = (Ok (r @ ys), put_entry (r @ ys) (File []) t)"
    using open_write_quiet [OF t(2,3) s(3)] e by (simp add: ys)
  moreover have "ensure_no_symlink_components_at_root (absolute r) (map Normal ys) t = (Ok (), t)"
    unfolding ensure_no_symlink_components_at_root_def
  proof (rule ensure_quiet [OF t(2) _ assms(3)])
    have d: "dirs (entries t) [] r" "dirs (entries t) r zs" using t(3) by (simp_all add: dirs_append)
    then show "dirs (entries t) [] r" by simp
    have "passable (entries t) b (xs @ [x])" if "dirs (entries t) b xs" "b @ xs = r @ zs" for b xs
      using that e by (induction xs arbitrary: b) (auto simp: ys split: option.splits)
    then show "passable (entries t) r ys" using d by (simp add: ys)
  qed
  ultimately show ?thesis
    using t assms(5) by (auto simp: ys open_layout_file_for_write_def guard_layout_path_def layout_at_def proc_simps)
qed

section \<open>The stream of an upload\<close>

record upload =
  up_device_name :: string
  up_file_name :: string
  up_place :: names
  up_pieces :: "bytes list"

definition prefixed :: "string \<Rightarrow> bytes" where
  "prefixed v = to_be32 (of_nat (length v)) @ ascii v"

definition transfer_frame :: "byte \<Rightarrow> bytes \<Rightarrow> bytes" where
  "transfer_frame code payload = to_be32 (of_nat (length payload) + 1) @ [code] @ payload"

definition frames_of :: "bytes list \<Rightarrow> bytes" where
  "frames_of pieces = concat (map (transfer_frame FILE_TRANSFER_CODE_FILE_DATA) pieces) @ transfer_frame FILE_TRANSFER_CODE_SUCCESS []"

definition upload_bytes :: "upload \<Rightarrow> bytes" where
  "upload_bytes u = prefixed (up_device_name u) @ prefixed (up_file_name u) @ frames_of (up_pieces u)"

text \<open>\<open>at_input s bs\<close>: the stream still delivers \<open>bs\<close> and the host's calls succeed.\<close>

definition at_input :: "backup_client \<Rightarrow> bytes \<Rightarrow> bool" where
  "at_input s bs \<longleftrightarrow> carries (rx (link s)) bs \<and> events (disk s) = []"

text \<open>\<open>wrote q c b s t\<close>: the file \<open>q\<close> now holds \<open>c\<close>, \<open>b\<close> bytes are accounted for, and only the input differs besides.\<close>

definition wrote :: "names \<Rightarrow> bytes \<Rightarrow> nat \<Rightarrow> backup_client \<Rightarrow> backup_client \<Rightarrow> bool" where
  "wrote q c b s t \<longleftrightarrow> (\<exists>es h. t = s\<lparr>link := (link s)\<lparr>rx := es\<rparr>, disk := h, transfer_bytes := b\<rparr> \<and>
     (\<forall>p. entry_at (entries h) p = (if p = q then Some (File c) else entry_at (entries (disk s)) p)))"

lemma read_quiet:
  assumes "at_input s (bs @ rest)" and "length bs = n"
  shows "\<exists>es. on_io (sock_read_exact n) s = (Ok bs, s\<lparr>link := (link s)\<lparr>rx := es\<rparr>\<rparr>) \<and> carries es rest"
proof -
  obtain es where "sock_read_exact n (link s) = (Ok bs, (link s)\<lparr>rx := es\<rparr>)" "carries es rest"
    using sock_read_exact_carries [of "link s" bs rest n] assms by (auto simp: at_input_def)
  then show ?thesis by (auto simp: on_io_def on_stream_def set_link_def)
qed

lemma read_u32_quiet:
  assumes "at_input s (to_be32 w @ rest)"
  shows "\<exists>es. read_u32_be s = (Ok w, s\<lparr>link := (link s)\<lparr>rx := es\<rparr>\<rparr>) \<and> carries es rest"
  using read_quiet [OF assms, of 4] by (auto simp: read_u32_be_def proc_simps)

lemma read_string_quiet:
  assumes "at_input s (prefixed v @ rest)" and "v \<noteq> []" and "length v \<le> MAX_PREFIXED_STRING_SIZE" and "utf8_valid (ascii v)"
  shows "\<exists>es. read_prefixed_string s = (Ok v, s\<lparr>link := (link s)\<lparr>rx := es\<rparr>\<rparr>) \<and> carries es rest"
proof -
  have n: "unat (of_nat (length v) :: u32) = length v"
    using assms(3) by (simp add: unat_of_nat MAX_PREFIXED_STRING_SIZE_def)
  obtain es where es: "read_u32_be s = (Ok (of_nat (length v)), s\<lparr>link := (link s)\<lparr>rx := es\<rparr>\<rparr>)" "carries es (ascii v @ rest)"
    using read_u32_quiet [of s "of_nat (length v)" "ascii v @ rest"] assms(1) by (auto simp: prefixed_def)
  have "at_input (s\<lparr>link := (link s)\<lparr>rx := es\<rparr>\<rparr>) (ascii v @ rest)" using es(2) assms(1) by (simp add: at_input_def)
  from read_quiet [OF this, of "length v"] obtain es' where
    "on_io (sock_read_exact (length v)) (s\<lparr>link := (link s)\<lparr>rx := es\<rparr>\<rparr>) = (Ok (ascii v), s\<lparr>link := (link s)\<lparr>rx := es'\<rparr>\<rparr>)" "carries es' rest"
    by auto
  then show ?thesis
    using es(1) n assms(2-4) by (intro exI [of _ es']) (simp add: read_prefixed_string_def Let_def proc_simps)
qed

lemma append_quiet:
  assumes "events h = []" and "entry_at (entries h) q = Some (File c)" and "q \<noteq> []"
  shows "\<exists>t. fs (append_file q bs) h = (Ok (), t) \<and> events t = [] \<and>
    (\<forall>p. entry_at (entries t) p = (if p = q then Some (File (c @ bs)) else entry_at (entries h) p))"
proof (cases "bs = []")
  case True
  then show ?thesis using assms by (intro exI [of _ h]) (simp add: fs_def append_file.simps proc_simps)
next
  case False
  let ?t = "put_entry q (File (c @ bs)) h"
  have "append_file q bs h = (Ok (), ?t)"
    using False assms
    by (subst append_file.simps) (auto simp: syscall_quiet proc_simps Let_def file_bytes_def append_file.simps [of q "[]"])
  then show ?thesis
    using assms by (intro exI [of _ ?t]) (simp add: fs_def put_entry_entry, simp add: put_entry_def)
qed

lemma wrote_trans: "wrote q c b s t \<Longrightarrow> wrote q c' b' t u \<Longrightarrow> wrote q c' b' s u"
  unfolding wrote_def by (elim exE conjE) (intro exI conjI, auto)

lemma wrote_file: "wrote q c b s t \<Longrightarrow> entry_at (entries (disk t)) q = Some (File c)"
  by (auto simp: wrote_def)

lemma wrote_bytes: "wrote q c b s t \<Longrightarrow> transfer_bytes t = b"
  by (auto simp: wrote_def)

lemma copy_payload_quiet:
  assumes "at_input s (bs @ rest)" and "entry_at (entries (disk s)) q = Some (File c)" and "q \<noteq> []" and "length bs = n"
  shows "\<exists>t. copy_transfer_payload q n s = (Ok (), t) \<and> at_input t rest \<and> wrote q (c @ bs) (transfer_bytes s) s t"
  using assms
proof (induction q n arbitrary: s bs c rule: copy_transfer_payload.induct)
  case (1 q n)
  show ?case
  proof (cases "n = 0")
    case True
    then show ?thesis
      using 1 by (intro exI [of _ s]) (auto simp: copy_transfer_payload.simps proc_simps wrote_def intro!: exI [of _ "rx (link s)"] exI [of _ "disk s"])
  next
    case False
    let ?k = "min n DOWNLOAD_CHUNK_SIZE"
    have bs: "bs = take ?k bs @ drop ?k bs" "length (take ?k bs) = ?k" "length (drop ?k bs) = n - ?k" using 1(5) by simp_all
    then have "at_input s (take ?k bs @ drop ?k bs @ rest)" using 1(2) by (metis append_assoc)
    from read_quiet [OF this bs(2)] obtain es where es:
      "on_io (sock_read_exact ?k) s = (Ok (take ?k bs), s\<lparr>link := (link s)\<lparr>rx := es\<rparr>\<rparr>)" "carries es (drop ?k bs @ rest)" by blast
    have "events (disk s) = []" using 1(2) by (simp add: at_input_def)
    from append_quiet [OF this 1(3,4), of "take ?k bs"] obtain h where
      h: "fs (append_file q (take ?k bs)) (disk s) = (Ok (), h)" "events h = []"
        "\<And>p. entry_at (entries h) p = (if p = q then Some (File (c @ take ?k bs)) else entry_at (entries (disk s)) p)" by blast
    let ?t = "s\<lparr>link := (link s)\<lparr>rx := es\<rparr>, disk := h\<rparr>"
    have w: "wrote q (c @ take ?k bs) (transfer_bytes s) s ?t"
      unfolding wrote_def by (intro exI [of _ es] exI [of _ h]) (simp add: h(3))
    have "at_input ?t (drop ?k bs @ rest)" using es(2) h(2) by (simp add: at_input_def)
    from "1.IH" [OF False this _ 1(4) bs(3), of "c @ take ?k bs"] obtain u where
      u: "copy_transfer_payload q (n - ?k) ?t = (Ok (), u)" "at_input u rest" "wrote q ((c @ take ?k bs) @ drop ?k bs) (transfer_bytes s) ?t u"
      using h(3) by auto
    have "copy_transfer_payload q n s = (Ok (), u)"
      using False es(1) h(1) u(1) by (subst copy_transfer_payload.simps) (simp add: proc_simps on_disk_def on_stream_def set_disk_def)
    moreover have "wrote q (c @ bs) (transfer_bytes s) s u" using wrote_trans [OF w u(3)] by simp
    ultimately show ?thesis using u(2) by blast
  qed
qed

lemma frame_quiet:
  assumes "at_input s (transfer_frame FILE_TRANSFER_CODE_FILE_DATA bs @ rest)" and "entry_at (entries (disk s)) q = Some (File c)"
    and "q \<noteq> []" and "Suc (length bs) < 2 ^ 32" and "transfer_bytes s + length bs \<le> MAX_DEVICE_TRANSFER_BYTES"
  shows "\<exists>t. receive_frame name (Some q) s = (Ok True, t) \<and> at_input t rest \<and> wrote q (c @ bs) (transfer_bytes s + length bs) s t"
proof -
  let ?w = "of_nat (length bs) + 1 :: u32"
  have w: "unat ?w = Suc (length bs)"
  proof -
    have "?w = of_nat (Suc (length bs))" by simp
    then show ?thesis using assms(4) by (simp only: unat_of_nat) simp
  qed
  obtain es where es: "read_u32_be s = (Ok ?w, s\<lparr>link := (link s)\<lparr>rx := es\<rparr>\<rparr>)" "carries es ([FILE_TRANSFER_CODE_FILE_DATA] @ bs @ rest)"
    using read_u32_quiet [of s ?w "[FILE_TRANSFER_CODE_FILE_DATA] @ bs @ rest"] assms(1) by (auto simp: transfer_frame_def)
  let ?s = "s\<lparr>link := (link s)\<lparr>rx := es\<rparr>\<rparr>"
  have "at_input ?s ([FILE_TRANSFER_CODE_FILE_DATA] @ bs @ rest)" using es(2) assms(1) by (simp add: at_input_def)
  from read_quiet [OF this, of 1] obtain es' where es':
    "on_io (sock_read_exact 1) ?s = (Ok [FILE_TRANSFER_CODE_FILE_DATA], s\<lparr>link := (link s)\<lparr>rx := es'\<rparr>\<rparr>)" "carries es' (bs @ rest)" by auto
  let ?t = "s\<lparr>link := (link s)\<lparr>rx := es'\<rparr>, transfer_bytes := transfer_bytes s + length bs\<rparr>"
  have "at_input ?t (bs @ rest)" using es'(2) assms(1) by (simp add: at_input_def)
  from copy_payload_quiet [OF this _ assms(3) refl, of c] assms(2) obtain t where
    t: "copy_transfer_payload q (length bs) ?t = (Ok (), t)" "at_input t rest" "wrote q (c @ bs) (transfer_bytes s + length bs) ?t t" by auto
  have "account_transfer_bytes (length bs) (s\<lparr>link := (link s)\<lparr>rx := es'\<rparr>\<rparr>) = (Ok (), ?t)"
    using assms(5) by (simp add: account_transfer_bytes_def usize_checked_add_def MAX_DEVICE_TRANSFER_BYTES_def)
  then have "receive_frame name (Some q) s = (Ok True, t)"
    using es(1) es'(1) t(1) w by (simp add: receive_frame_def proc_simps usize_checked_sub_def ok_or_def)
  moreover obtain es2 h2 where "t = ?t\<lparr>link := (link ?t)\<lparr>rx := es2\<rparr>, disk := h2, transfer_bytes := transfer_bytes s + length bs\<rparr>"
    "\<forall>p. entry_at (entries h2) p = (if p = q then Some (File (c @ bs)) else entry_at (entries (disk ?t)) p)"
    using t(3) unfolding wrote_def by blast
  then have "wrote q (c @ bs) (transfer_bytes s + length bs) s t"
    unfolding wrote_def by (intro exI [of _ es2] exI [of _ h2]) simp
  ultimately show ?thesis using t(2) by blast
qed

lemma success_quiet:
  assumes "at_input s (transfer_frame FILE_TRANSFER_CODE_SUCCESS [] @ rest)"
  shows "\<exists>es. receive_frame name file s = (Ok False, s\<lparr>link := (link s)\<lparr>rx := es\<rparr>\<rparr>) \<and> carries es rest"
proof -
  obtain es where es: "read_u32_be s = (Ok 1, s\<lparr>link := (link s)\<lparr>rx := es\<rparr>\<rparr>)" "carries es ([FILE_TRANSFER_CODE_SUCCESS] @ rest)"
    using read_u32_quiet [of s 1 "[FILE_TRANSFER_CODE_SUCCESS] @ rest"] assms by (auto simp: transfer_frame_def)
  have "at_input (s\<lparr>link := (link s)\<lparr>rx := es\<rparr>\<rparr>) ([FILE_TRANSFER_CODE_SUCCESS] @ rest)" using es(2) assms by (simp add: at_input_def)
  from read_quiet [OF this, of 1] obtain es' where
    "on_io (sock_read_exact 1) (s\<lparr>link := (link s)\<lparr>rx := es\<rparr>\<rparr>) = (Ok [FILE_TRANSFER_CODE_SUCCESS], s\<lparr>link := (link s)\<lparr>rx := es'\<rparr>\<rparr>)"
    "carries es' rest" by auto
  then show ?thesis
    using es(1) by (intro exI [of _ es'])
      (simp add: receive_frame_def proc_simps usize_checked_sub_def ok_or_def discard_transfer_payload.simps transfer_codes)
qed

lemma frames_quiet:
  assumes "at_input s (frames_of pieces @ rest)" and "entry_at (entries (disk s)) q = Some (File c)" and "q \<noteq> []"
    and "\<forall>bs \<in> set pieces. Suc (length bs) < 2 ^ 32" and "transfer_bytes s + length (concat pieces) \<le> MAX_DEVICE_TRANSFER_BYTES"
  shows "\<exists>t. receive_frames name (Some q) s = (Ok (), t) \<and> at_input t rest \<and>
    wrote q (c @ concat pieces) (transfer_bytes s + length (concat pieces)) s t"
  using assms
proof (induction pieces arbitrary: s c)
  case Nil
  then obtain es where es: "receive_frame name (Some q) s = (Ok False, s\<lparr>link := (link s)\<lparr>rx := es\<rparr>\<rparr>)" "carries es rest"
    using success_quiet [of s rest name "Some q"] by (auto simp: frames_of_def)
  then have "receive_frames name (Some q) s = (Ok (), s\<lparr>link := (link s)\<lparr>rx := es\<rparr>\<rparr>)"
    by (subst receive_frames.simps) (simp add: proc_simps)
  moreover have "wrote q c (transfer_bytes s) s (s\<lparr>link := (link s)\<lparr>rx := es\<rparr>\<rparr>)"
    unfolding wrote_def using Nil.prems(2) by (intro exI [of _ es] exI [of _ "disk s"]) simp
  ultimately show ?case using es(2) Nil.prems(1) by (auto simp: at_input_def)
next
  case (Cons bs pieces)
  have "at_input s (transfer_frame FILE_TRANSFER_CODE_FILE_DATA bs @ frames_of pieces @ rest)"
    using Cons.prems(1) by (simp add: frames_of_def)
  from frame_quiet [OF this Cons.prems(2,3)] Cons.prems(4,5) obtain t where
    t: "receive_frame name (Some q) s = (Ok True, t)" "at_input t (frames_of pieces @ rest)"
      "wrote q (c @ bs) (transfer_bytes s + length bs) s t" by fastforce
  from Cons.IH [OF t(2) wrote_file [OF t(3)] Cons.prems(3)] wrote_bytes [OF t(3)] Cons.prems(4,5) obtain u where
    u: "receive_frames name (Some q) t = (Ok (), u)" "at_input u rest"
      "wrote q ((c @ bs) @ concat pieces) (transfer_bytes t + length (concat pieces)) t u" by auto
  have "receive_frames name (Some q) s = (Ok (), u)" using t(1) u(1) by (subst receive_frames.simps) (simp add: proc_simps)
  then show ?case
    using u(2) wrote_trans [OF t(3) u(3)] wrote_bytes [OF t(3)] by (auto simp: add.assoc)
qed

section \<open>Uploads\<close>

definition fits :: "backup_layout \<Rightarrow> names \<Rightarrow> upload \<Rightarrow> bool" where
  "fits lay r u \<longleftrightarrow>
     up_device_name u \<noteq> [] \<and> length (up_device_name u) \<le> MAX_PREFIXED_STRING_SIZE \<and> utf8_valid (ascii (up_device_name u)) \<and>
     length (up_file_name u) \<le> MAX_PREFIXED_STRING_SIZE \<and> utf8_valid (ascii (up_file_name u)) \<and>
     leads_to lay (up_file_name u) (up_place u) \<and> short (r @ up_place u) \<and>
     list_all (\<lambda>bs. Suc (length bs) < 2 ^ 32) (up_pieces u)"

definition content :: "upload \<Rightarrow> bytes" where
  "content u = concat (up_pieces u)"

definition advanced :: "nat \<Rightarrow> nat \<Rightarrow> backup_client \<Rightarrow> backup_client \<Rightarrow> bool" where
  "advanced f b s t \<longleftrightarrow> (\<exists>es h. t = s\<lparr>link := (link s)\<lparr>rx := es\<rparr>, disk := h, transfer_files := f, transfer_bytes := b\<rparr>)"

lemma file_quiet:
  assumes "at_input s (upload_bytes u @ rest)" and "fits lay r u" and "storable (entries (disk s)) r (up_place u)"
    and "dirs (entries (disk s)) [] r" and "tree (entries (disk s))" and "layout_at lay r i" and "validate_backup_identifier i = Inr ()"
    and "backup_filter s = None" and "Suc (transfer_files s) \<le> MAX_DEVICE_TRANSFER_FILES"
    and "transfer_bytes s + length (content u) \<le> MAX_DEVICE_TRANSFER_BYTES"
  shows "\<exists>t. receive_file lay s = (Ok True, t) \<and> at_input t rest \<and>
    advanced (Suc (transfer_files s)) (transfer_bytes s + length (content u)) s t \<and>
    stored r (r @ up_place u) (content u) (entries (disk s)) (entries (disk t))"
proof -
  let ?p = "r @ up_place u"
  have name: "up_file_name u \<noteq> []" using assms(2) by (auto simp: fits_def leads_to_def sanitize_relative_path_def)
  have ev: "events (disk s) = []" using assms(1) by (simp add: at_input_def)
  have p: "?p \<noteq> []" using assms(3) by (auto simp: storable_def)
  obtain e1 where e1: "read_prefixed_string s = (Ok (up_device_name u), s\<lparr>link := (link s)\<lparr>rx := e1\<rparr>\<rparr>)"
    "carries e1 (prefixed (up_file_name u) @ frames_of (up_pieces u) @ rest)"
    using read_string_quiet [of s "up_device_name u" "prefixed (up_file_name u) @ frames_of (up_pieces u) @ rest"] assms(1,2)
    by (auto simp: upload_bytes_def fits_def)
  let ?s1 = "s\<lparr>link := (link s)\<lparr>rx := e1\<rparr>, transfer_files := Suc (transfer_files s)\<rparr>"
  have acc: "account_transfer_file (s\<lparr>link := (link s)\<lparr>rx := e1\<rparr>\<rparr>) = (Ok (), ?s1)"
    using assms(9) by (simp add: account_transfer_file_def usize_checked_add_def MAX_DEVICE_TRANSFER_FILES_def)
  obtain e2 where e2: "read_prefixed_string ?s1 = (Ok (up_file_name u), ?s1\<lparr>link := (link s)\<lparr>rx := e2\<rparr>\<rparr>)"
    "carries e2 (frames_of (up_pieces u) @ rest)"
    using read_string_quiet [of ?s1 "up_file_name u" "frames_of (up_pieces u) @ rest"] e1(2) ev assms(2) name
    by (auto simp: at_input_def fits_def)
  have "resolve_relative_path lay (up_file_name u) (disk s) = (Ok (absolute ?p), disk s)"
    using assms(2-7) ev by (intro resolve_relative_quiet) (auto simp: fits_def storable_passable)
  moreover obtain h where h: "create_layout_parent_directory lay (absolute ?p) (disk s) = (Ok (), h)"
    "open_layout_file_for_write lay (absolute ?p) h = (Ok ?p, put_entry ?p (File []) h)" "events h = []"
    "directories_to r (r @ butlast (up_place u)) (entries (disk s)) (entries h)"
    using open_destination_quiet [OF ev assms(4) _ assms(3,6,5)] assms(2) by (auto simp: fits_def)
  let ?s2 = "s\<lparr>link := (link s)\<lparr>rx := e2\<rparr>, disk := put_entry ?p (File []) h, transfer_files := Suc (transfer_files s)\<rparr>"
  have up: "open_upload lay (up_device_name u) (up_file_name u) (?s1\<lparr>link := (link s)\<lparr>rx := e2\<rparr>\<rparr>) = (Ok (Some ?p), ?s2)"
    using calculation h(1,2) assms(8)
    by (simp add: open_upload_def proc_simps on_disk_def on_stream_def set_disk_def)
  have "at_input ?s2 (frames_of (up_pieces u) @ rest)" using e2(2) h(3) by (simp add: at_input_def put_entry_def)
  from frames_quiet [OF this _ p, of "[]" "up_file_name u"] assms(2,10) put_entry_entry [OF p, of "File []" h ?p] obtain t where
    t: "receive_frames (up_file_name u) (Some ?p) ?s2 = (Ok (), t)" "at_input t rest"
      "wrote ?p (content u) (transfer_bytes s + length (content u)) ?s2 t"
    by (auto simp: fits_def list_all_iff content_def)
  have "receive_file lay s = (Ok True, t)"
    using e1(1) acc e2(1) up t(1) assms(2) by (simp add: receive_file_def proc_simps fits_def)
  moreover have "advanced (Suc (transfer_files s)) (transfer_bytes s + length (content u)) s t"
  proof -
    from t(3) obtain es2 h2 where
      "t = ?s2\<lparr>link := (link ?s2)\<lparr>rx := es2\<rparr>, disk := h2, transfer_bytes := transfer_bytes s + length (content u)\<rparr>"
      unfolding wrote_def by blast
    then show ?thesis unfolding advanced_def by (intro exI [of _ es2] exI [of _ h2]) simp
  qed
  moreover have "stored r ?p (content u) (entries (disk s)) (entries (disk t))"
  proof -
    obtain zs x where ys: "up_place u = zs @ [x]" using assms(3) by (cases "up_place u" rule: rev_cases) (auto simp: storable_def)
    have "strict_prefix q (r @ zs @ [x]) \<longleftrightarrow> prefix q (r @ zs)" for q
      using prefix_snoc [of q "r @ zs" x] by (auto simp: strict_prefix_def dest: prefix_length_le)
    then show ?thesis using t(3) h(4) put_entry_entry [OF p] by (auto simp: wrote_def stored_def directories_to_def ys)
  qed
  ultimately show ?thesis using t(2) by blast
qed

lemma creatable_iff:
  "creatable es c xs \<longleftrightarrow> (\<forall>w. w \<noteq> [] \<and> prefix w xs \<longrightarrow> entry_at es (c @ w) = None \<or> entry_at es (c @ w) = Some Directory)"
proof (induction xs arbitrary: c)
  case (Cons x xs)
  have "(\<forall>w. w \<noteq> [] \<and> prefix w (x # xs) \<longrightarrow> P (c @ w)) \<longleftrightarrow> P (c @ [x]) \<and> (\<forall>w. w \<noteq> [] \<and> prefix w xs \<longrightarrow> P ((c @ [x]) @ w))" for P
    by (auto simp: prefix_Cons) (metis append.right_neutral append_Cons append_Nil list.exhaust)
  from this [of "\<lambda>p. entry_at es p = None \<or> entry_at es p = Some Directory"] show ?case
    unfolding creatable.simps Cons.IH by blast
qed simp

lemma storable_iff:
  "storable es r ys \<longleftrightarrow> ys \<noteq> [] \<and> (entry_at es (r @ ys) = None \<or> (\<exists>b. entry_at es (r @ ys) = Some (File b))) \<and>
     (\<forall>w. w \<noteq> [] \<and> strict_prefix w ys \<longrightarrow> entry_at es (r @ w) = None \<or> entry_at es (r @ w) = Some Directory)"
proof (cases ys rule: rev_cases)
  case (snoc zs x)
  have "strict_prefix w ys \<longleftrightarrow> prefix w zs" for w
    using prefix_snoc [of w zs x] by (auto simp: snoc strict_prefix_def dest: prefix_length_le)
  then show ?thesis by (auto simp: storable_def creatable_iff snoc)
qed (simp add: storable_def)

text \<open>Storing one file leaves the tree fit for another.\<close>

lemma stored_keeps:
  assumes "stored r (r @ ys) c es es'" and "storable es r ys" and "tree es" and "dirs es [] r"
  shows "tree es'" and "dirs es' [] r"
proof -
  have e: "entry_at es' q = (if q = r @ ys then Some (File c)
      else if strict_prefix r q \<and> strict_prefix q (r @ ys) then Some Directory else entry_at es q)" for q
    using assms(1) by (simp add: stored_def)
  have target: "entry_at es (r @ ys) \<noteq> Some Directory" using assms(2) by (auto simp: storable_def)
  have keep: "entry_at es' p = Some Directory" if "entry_at es p = Some Directory" for p
    using that target by (auto simp: e)
  show "dirs es' [] r" using keep assms(4) by (rule dirs_cong)
  show "tree es'"
    unfolding tree_def
  proof (intro allI impI)
    fix q x assume n: "entry_at es' (q @ [x]) \<noteq> None"
    show "entry_at es' q = Some Directory"
    proof (cases "q @ [x] = r @ ys \<or> strict_prefix r (q @ [x]) \<and> strict_prefix (q @ [x]) (r @ ys)")
      case True
      then have "strict_prefix q (r @ ys)" by (auto simp: strict_prefix_def dest: append_prefixD) (metis prefixI)+
      have "q = r \<or> strict_prefix r q"
      proof -
        have "strict_prefix r (r @ ys)" using assms(2) by (auto simp: storable_def strict_prefix_def)
        then have "strict_prefix r (q @ [x])" using True by metis
        then show ?thesis by (auto simp: strict_prefix_def prefix_snoc)
      qed
      then show ?thesis
      proof
        assume "q = r"
        then show ?thesis using keep [OF dirs_entry [OF assms(4)]] by simp
      qed (use \<open>strict_prefix q (r @ ys)\<close> in \<open>auto simp: e strict_prefix_def\<close>)
    next
      case False
      then have "entry_at es (q @ [x]) \<noteq> None" using n by (auto simp: e split: if_splits)
      then show ?thesis using assms(3) keep by (auto simp: tree_def)
    qed
  qed
qed

lemma stored_storable:
  assumes "stored r (r @ ys) c es es'" and "storable es r zs" and "\<not> strict_prefix ys zs" and "\<not> strict_prefix zs ys"
  shows "storable es' r zs"
proof -
  have "strict_prefix (r @ a) (r @ b) = strict_prefix a b" for a b
    by (simp add: strict_prefix_def)
  moreover from this have "entry_at es' (r @ w) = None \<or> entry_at es' (r @ w) = Some Directory" if "w \<noteq> []" "strict_prefix w zs" for w
    using that assms by (auto simp: stored_def storable_iff)
  ultimately show ?thesis
    using assms by (auto simp: storable_iff stored_def)
qed

text \<open>\<open>delivered r us es es'\<close>: what the uploads \<open>us\<close>, one after the other, make of \<open>es\<close>.\<close>

definition delivered :: "names \<Rightarrow> upload list \<Rightarrow> (names \<times> entry) list \<Rightarrow> (names \<times> entry) list \<Rightarrow> bool" where
  "delivered r us es es' \<longleftrightarrow>
     (\<forall>p c. map_of (rev (map (\<lambda>u. (r @ up_place u, content u)) us)) p = Some c \<longrightarrow> entry_at es' p = Some (File c)) \<and>
     (\<forall>p u. u \<in> set us \<and> strict_prefix r p \<and> strict_prefix p (r @ up_place u) \<longrightarrow> entry_at es' p = Some Directory) \<and>
     (\<forall>p. (\<forall>u \<in> set us. \<not> prefix p (r @ up_place u)) \<longrightarrow> entry_at es' p = entry_at es p)"

lemma delivered_Nil: "delivered r [] es es"
  by (simp add: delivered_def)

lemma delivered_Cons:
  assumes st: "stored r (r @ up_place u) (content u) es es1" and us: "delivered r us es1 es2"
    and apart: "\<forall>v \<in> set (u # us). \<forall>w \<in> set (u # us). \<not> strict_prefix (up_place v) (up_place w)"
  shows "delivered r (u # us) es es2"
proof -
  have same: "p = r @ up_place v" if "strict_prefix r p \<or> p = r @ up_place u" "prefix p (r @ up_place v)"
    "\<not> strict_prefix p (r @ up_place v)" for p v
    using that by (auto simp: strict_prefix_def)
  have "entry_at es2 p = Some (File c)"
    if "map_of (rev (map (\<lambda>u. (r @ up_place u, content u)) (u # us))) p = Some c" for p c
  proof (cases "map_of (rev (map (\<lambda>u. (r @ up_place u, content u)) us)) p")
    case None
    then have p: "p = r @ up_place u" "c = content u" using that by (auto simp: map_add_def split: if_splits)
    have "p \<noteq> r @ up_place v" if "v \<in> set us" for v
      using None that by (auto simp: map_of_eq_None_iff image_image)
    then have "\<forall>v \<in> set us. \<not> prefix p (r @ up_place v)" using apart p(1) by (auto simp: strict_prefix_def)
    then show ?thesis using us st p by (simp add: delivered_def stored_def)
  next
    case (Some c')
    then show ?thesis using that us by (auto simp: map_add_def delivered_def)
  qed
  moreover have "entry_at es2 p = Some Directory"
    if p: "v \<in> set (u # us)" "strict_prefix r p" "strict_prefix p (r @ up_place v)" for p v
  proof (cases "\<exists>v' \<in> set us. strict_prefix p (r @ up_place v')")
    case False
    then have "v = u" using p by auto
    have "\<not> prefix p (r @ up_place v')" if "v' \<in> set us" for v'
      using same [of p v'] False that p \<open>v = u\<close> apart by (auto simp: strict_prefix_def)
    then show ?thesis using us st p \<open>v = u\<close> by (auto simp: stored_def delivered_def)
  qed (use us p(2) in \<open>unfold delivered_def, blast\<close>)
  moreover have "entry_at es2 p = entry_at es p" if "\<forall>v \<in> set (u # us). \<not> prefix p (r @ up_place v)" for p
    using that us st by (auto simp: stored_def delivered_def strict_prefix_def)
  ultimately show ?thesis unfolding delivered_def by blast
qed

lemma uploads_delivered:
  assumes "at_input s (concat (map upload_bytes us) @ to_be32 0 @ rest)" and "\<forall>u \<in> set us. fits lay r u"
    and "\<forall>u \<in> set us. storable (entries (disk s)) r (up_place u)"
    and "\<forall>u \<in> set us. \<forall>v \<in> set us. \<not> strict_prefix (up_place u) (up_place v)"
    and "dirs (entries (disk s)) [] r" and "tree (entries (disk s))" and "layout_at lay r i" and "validate_backup_identifier i = Inr ()"
    and "backup_filter s = None" and "transfer_files s + length us \<le> MAX_DEVICE_TRANSFER_FILES"
    and "transfer_bytes s + length (concat (map content us)) \<le> MAX_DEVICE_TRANSFER_BYTES"
  shows "\<exists>t. receive_uploaded_files lay s = (Ok (), t) \<and> at_input t rest \<and> wire (link t) = wire (link s) \<and>
    delivered r us (entries (disk s)) (entries (disk t))"
  using assms
proof (induction us arbitrary: s)
  case Nil
  then obtain es where es: "read_u32_be s = (Ok 0, s\<lparr>link := (link s)\<lparr>rx := es\<rparr>\<rparr>)" "carries es rest"
    using read_u32_quiet [of s 0 rest] by auto
  then have "receive_uploaded_files lay s = (Ok (), s\<lparr>link := (link s)\<lparr>rx := es\<rparr>\<rparr>)"
    by (subst receive_uploaded_files.simps) (simp add: receive_file_def read_prefixed_string_def proc_simps)
  then show ?case using es(2) Nil.prems(1) by (auto simp: at_input_def delivered_Nil)
next
  case (Cons u us)
  obtain t where t: "receive_file lay s = (Ok True, t)" "at_input t (concat (map upload_bytes us) @ to_be32 0 @ rest)"
    "advanced (Suc (transfer_files s)) (transfer_bytes s + length (content u)) s t"
    and st: "stored r (r @ up_place u) (content u) (entries (disk s)) (entries (disk t))"
    using file_quiet [of s u "concat (map upload_bytes us) @ to_be32 0 @ rest" lay r i] Cons.prems by auto
  have u: "storable (entries (disk s)) r (up_place u)" using Cons.prems(3) by simp
  note keeps = stored_keeps [OF st u Cons.prems(6,5)] and more = stored_storable [OF st]
  have fields: "backup_filter t = None" "transfer_files t = Suc (transfer_files s)" "transfer_bytes t = transfer_bytes s + length (content u)"
    "wire (link t) = wire (link s)"
    using t(3) Cons.prems(9) by (auto simp: advanced_def)
  have "\<forall>v \<in> set us. storable (entries (disk t)) r (up_place v)"
    using more Cons.prems(3,4) by simp
  then obtain w where w: "receive_uploaded_files lay t = (Ok (), w)" "at_input w rest" "wire (link w) = wire (link t)"
    "delivered r us (entries (disk t)) (entries (disk w))"
    using Cons.IH [OF t(2) _ _ _ keeps(2,1) Cons.prems(7,8) fields(1)] Cons.prems(2,4,10,11) fields(2,3) by auto
  have "receive_uploaded_files lay s = (Ok (), w)" using t(1) w(1) by (subst receive_uploaded_files.simps) (simp add: proc_simps)
  then show ?case using w(2,3) fields(4) delivered_Cons [OF st w(4) Cons.prems(4)] by auto
qed

text \<open>
  C12. Uploaded files arrive complete: from the frames of any list of uploads, cut into chunks in any
  way, on a host whose calls succeed and with no filter, every path ends up as a file that holds exactly
  the bytes of the last upload to it, the directories in between are created, every other name of
  the host is unchanged, and the stream stands right after the uploads.
\<close>

theorem backup_uploads_stored:
  assumes "at_input s (concat (map upload_bytes us) @ to_be32 0 @ rest)" and "\<forall>u \<in> set us. fits lay r u"
    and "\<forall>u \<in> set us. storable (entries (disk s)) r (up_place u)"
    and "\<forall>u \<in> set us. \<forall>v \<in> set us. \<not> strict_prefix (up_place u) (up_place v)"
    and "dirs (entries (disk s)) [] r" and "tree (entries (disk s))" and "layout_at lay r i" and "validate_backup_identifier i = Inr ()"
    and "backup_filter s = None" and "transfer_files s + length us \<le> MAX_DEVICE_TRANSFER_FILES"
    and "transfer_bytes s + length (concat (map content us)) \<le> MAX_DEVICE_TRANSFER_BYTES"
  shows "\<exists>t. receive_uploaded_files lay s = (Ok (), t) \<and> at_input t rest \<and> wire (link t) = wire (link s) \<and>
    (\<forall>p c. map_of (rev (map (\<lambda>u. (r @ up_place u, content u)) us)) p = Some c \<longrightarrow> entry_at (entries (disk t)) p = Some (File c)) \<and>
    (\<forall>p u. u \<in> set us \<and> strict_prefix r p \<and> strict_prefix p (r @ up_place u) \<longrightarrow> entry_at (entries (disk t)) p = Some Directory) \<and>
    (\<forall>p. (\<forall>u \<in> set us. \<not> prefix p (r @ up_place u)) \<longrightarrow> entry_at (entries (disk t)) p = entry_at (entries (disk s)) p)"
  using uploads_delivered [OF assms] unfolding delivered_def .

end
