(* ===== verification/Backup_Isolation.thy ===== *)
theory Backup_Isolation
  imports Backup_Layouts
begin

text \<open>
  What the operations of the backup service do to the host, whatever the device sends: they change
  nothing outside the directory of the device below the backup root, and neither their result nor
  what they send depends on anything outside of it. The states of a client between operations are
  a step relation, \<open>session\<close>.
\<close>

section \<open>The dialogue around the loop\<close>

lemma on_link_and_then: "on_link (and_then m f) = and_then (on_link m) (\<lambda>x. on_link (f x))"
  by (rule ext) (auto simp: on_link_def on_stream_def and_then_def set_link_def split: prod.splits outcome.splits)

lemma on_link_check: "on_link (check (\<lambda>_. g)) = check (\<lambda>_. case g of Inl e \<Rightarrow> Inl (BDeviceLink e) | Inr x \<Rightarrow> Inr x)"
  by (rule ext) (auto simp: on_link_def on_stream_def check_def set_link_def split: prod.splits outcome.splits sum.splits)

lemma on_link_ret: "on_link (ret x) = ret x"
  by (rule ext) (simp add: on_link_def on_stream_def ret_def set_link_def)

lemmas on_link_steps = on_link_and_then on_link_check on_link_ret

context client_relation
begin

lemma agrees_request [agrees_intros]: "agrees R (request env name content)"
  unfolding request_def send_process_message_def by (rule messages)

lemma agrees_version_exchange [agrees_intros]: "agrees R (Mobilebackup2Client_version_exchange env)"
  unfolding Mobilebackup2Client_version_exchange_def link_version_exchange_def recv_process_message_def on_link_steps
  by (intro agrees_intros messages counter)

lemma agrees_finish_session [agrees_intros]: "agrees R m \<Longrightarrow> agrees R (finish_session env m)"
  unfolding finish_session_def disconnect_def by (intro agrees_intros messages)

end

lemma agrees_deadline [agrees_intros]:
  assumes "agrees R m"
  shows "agrees R (until_deadline msg m)"
  unfolding agrees_def
proof (intro allI impI)
  fix s t assume "R s t"
  obtain x u y v where u: "m s = (x, u)" and v: "m t = (y, v)" by (metis prod.collapse)
  then show "fst (until_deadline msg m s) = fst (until_deadline msg m t) \<and> R (snd (until_deadline msg m s)) (snd (until_deadline msg m t))"
    using agreesD [OF assms \<open>R s t\<close> u v] by (cases x) (auto simp: until_deadline_def)
qed

section \<open>Before the directory is known\<close>

text \<open>Two clients on hosts that agree on the directory of the device, where the root is a directory.\<close>

definition apart :: "bool \<Rightarrow> names \<Rightarrow> string \<Rightarrow> host \<Rightarrow> host \<Rightarrow> backup_client \<Rightarrow> backup_client \<Rightarrow> bool" where
  "apart b r i h0 h1 s t \<longleftrightarrow>
     dirs (entries h0) [] r \<and> dirs (entries h1) [] r \<and>
     t = s\<lparr>disk := disk t\<rparr> \<and> restrict (r @ [i]) (disk s) = restrict (r @ [i]) (disk t) \<and>
     same_outside (r @ [i]) h0 (disk s) \<and> same_outside (r @ [i]) h1 (disk t) \<and>
     list_all (\<lambda>p. b \<longrightarrow> inside r i p) (discarded_files s)"

lemma same_link:
  assumes "t = s\<lparr>disk := disk t\<rparr>"
  shows "link t = link s" "set_link k t = (set_link k s)\<lparr>disk := disk t\<rparr>" "set_disk v t = (set_disk u s)\<lparr>disk := v\<rparr>"
    "discarded_files t = discarded_files s"
  using assms by (cases s; cases t; simp add: set_link_def set_disk_def)+

lemma apart_link: "agrees (apart b r i h0 h1) (on_link m)"
proof -
  have "link t = link s \<and> apart b r i h0 h1 (set_link k s) (set_link k t)" if "apart b r i h0 h1 s t" for s t k
  proof -
    have t: "t = s\<lparr>disk := disk t\<rparr>" using that by (simp add: apart_def)
    show ?thesis using that same_link(1) [OF t] same_link(2) [OF t, of k] by (auto simp: apart_def set_link_def)
  qed
  then show ?thesis by (auto simp: agrees_def on_link_def on_stream_def split: prod.splits outcome.splits)
qed

interpretation before: client_relation "apart b r i h0 h1" for b r i h0 h1
  by unfold_locales (auto simp: apart_def apart_update intro!: apart_link)

text \<open>A step on the disk that finds the directory of the device, and what follows on that directory.\<close>

lemma apart_disk:
  assumes "held (\<lambda>h. dirs (entries h) [] r) (r @ [i]) m" and a: "apart b r i h0 h1 s t"
    and u: "m (disk s) = (x, u)" and v: "m (disk t) = (y, v)"
  shows "x = y \<and> apart b r i h0 h1 (set_disk u s) (set_disk v t) \<and> restrict (r @ [i]) u = restrict (r @ [i]) v"
proof -
  have "dirs (entries (disk s)) [] r" "dirs (entries (disk t)) [] r"
    using a dirs_outside by (auto simp: apart_def)
  then have "m (restrict (r @ [i]) (disk s)) = (x, restrict (r @ [i]) u)" "m (restrict (r @ [i]) (disk t)) = (y, restrict (r @ [i]) v)"
    and out: "same_outside (r @ [i]) (disk s) u" "same_outside (r @ [i]) (disk t) v"
    using heldD [OF assms(1), of "disk s"] heldD [OF assms(1), of "disk t"] u v by (auto simp: safe_def)
  then have same: "x = y" "restrict (r @ [i]) u = restrict (r @ [i]) v" using a by (auto simp: apart_def)
  moreover have "apart b r i h0 h1 (set_disk u s) (set_disk v t)"
    using a out same(2) same_link(3) [of t s v u] by (auto simp: apart_def set_disk_def intro: same_outside_trans)
  ultimately show ?thesis by simp
qed

lemma apart_alike:
  assumes a: "apart b r i h0 h1 s t" and "layout_at lay r i" and "plain (entries (disk s)) [] (r @ [i])"
    and f: "agrees (alike b lay r i (disk s) (disk t)) f"
  shows "fst (f s) = fst (f t) \<and> apart b r i h0 h1 (snd (f s)) (snd (f t))"
proof -
  have "alike b lay r i (disk s) (disk t) s t" using assms by (simp add: alike_def apart_def)
  then have "fst (f s) = fst (f t)" "alike b lay r i (disk s) (disk t) (snd (f s)) (snd (f t))"
    using f by (auto simp: agrees_def)
  then show ?thesis using a by (auto simp: alike_def apart_def intro: same_outside_trans)
qed

lemma apart_layout:
  assumes m: "held (\<lambda>h. dirs (entries h) [] r) (r @ [i]) m"
    and lay: "\<And>h x t. dirs (entries h) [] r \<Longrightarrow> m h = (Ok x, t) \<Longrightarrow> layout_at (g x) r i \<and> plain (entries t) [] (r @ [i])"
    and f: "\<And>x h0 h1. agrees (alike b (g x) r i h0 h1) (f x)"
  shows "agrees (apart b r i h0 h1) (and_then (on_disk m) f)"
  unfolding agrees_def
proof (intro allI impI)
  fix s t assume a: "apart b r i h0 h1 s t"
  obtain x u y v where u: "m (disk s) = (x, u)" and v: "m (disk t) = (y, v)" by (metis prod.collapse)
  have xy: "x = y" "apart b r i h0 h1 (set_disk u s) (set_disk v t)" using apart_disk [OF m a u v] by auto
  show "fst (and_then (on_disk m) f s) = fst (and_then (on_disk m) f t) \<and>
    apart b r i h0 h1 (snd (and_then (on_disk m) f s)) (snd (and_then (on_disk m) f t))"
  proof (cases x)
    case (Ok z)
    have "dirs (entries (disk s)) [] r" using a dirs_outside by (auto simp: apart_def)
    then have "layout_at (g z) r i" "plain (entries u) [] (r @ [i])" using lay u Ok by blast+
    then have "fst (f z (set_disk u s)) = fst (f z (set_disk v t)) \<and> apart b r i h0 h1 (snd (f z (set_disk u s))) (snd (f z (set_disk v t)))"
      by (intro apart_alike [OF xy(2) _ _ f]) (simp_all add: set_disk_def)
    then show ?thesis using Ok u v xy(1) by (simp add: and_then_def on_disk_def on_stream_def)
  qed (use u v xy in \<open>auto simp: and_then_def on_disk_def on_stream_def\<close>)
qed

section \<open>Every operation\<close>

lemma agrees_pair [agrees_intros]: "(\<And>x y. agrees R (f x y)) \<Longrightarrow> agrees R (case p of (x, y) \<Rightarrow> f x y)"
  by (cases p) simp

lemma alike_cleanup:
  assumes "list_all (inside r i) ps"
  shows "agrees (alike b lay r i h0 h1) (on_disk (cleanup_discarded_files lay ps))"
  using assms by (intro alike_agrees) (auto intro!: cleanup_safe dest: plain_front)

lemma alike_finish_backup: "agrees (alike True lay r i h0 h1) (finish_backup env lay)"
proof -
  have reset: "agrees (alike True lay r i h0 h1) (modify (\<lambda>s. s\<lparr>backup_filter := None, discarded_files := []\<rparr>))"
  proof (rule agrees_modify)
    fix s t assume a: "alike True lay r i h0 h1 s t"
    then have t: "t = s\<lparr>disk := disk t\<rparr>" by (simp add: alike_def)
    have "t\<lparr>backup_filter := None, discarded_files := []\<rparr> = s\<lparr>backup_filter := None, discarded_files := [], disk := disk t\<rparr>"
      by (subst t) simp
    then show "alike True lay r i h0 h1 (s\<lparr>backup_filter := None, discarded_files := []\<rparr>) (t\<lparr>backup_filter := None, discarded_files := []\<rparr>)"
      using a by (auto simp: alike_def)
  qed
  have close: "agrees (alike True lay r i h0 h1) (reading (\<lambda>s. close_backup lay session_result (discarded_files s)))" for session_result
  proof (rule agrees_reading)
    fix s t assume a: "alike True lay r i h0 h1 s t"
    have "list_all (inside r i) (discarded_files s)" using confined.discarded [OF a] by simp
    then have "agrees (alike True lay r i h0 h1) (close_backup lay session_result (discarded_files s))"
      unfolding close_backup_def by (intro agrees_and_then agrees_try agrees_basic reset alike_cleanup)
    then show "close_backup lay session_result (discarded_files t) = close_backup lay session_result (discarded_files s) \<and>
        agrees (alike True lay r i h0 h1) (close_backup lay session_result (discarded_files s))"
      unfolding confined.fields(4) [OF a] by simp
  qed
  show ?thesis
    unfolding finish_backup_def
    by (intro agrees_and_then agrees_try confined.agrees_finish_session confined.agrees_run_loop close)
qed

lemma backup_apart: "agrees (apart b r i h0 h1) (backup_with_options env (absolute r) i full info options)"
proof -
  let ?rest = "\<lambda>version. and_then (on_disk (initialize_backup_directory env (absolute r) i info (full \<or> patch_manifest options))) (\<lambda>lay.
       and_then (request env ''Backup'' [(''TargetIdentifier'', PString i)]) (\<lambda>_.
       and_then (finish_backup env lay) (\<lambda>_. ret (lay, version))))"
  have rest: "agrees (apart True r i h0 h1) (?rest version)" for version
    by (rule apart_layout [OF initialize_held, where g = "\<lambda>lay. lay"])
      (auto dest: initialize_result intro!: agrees_intros confined.agrees_request alike_finish_backup)
  have reset: "agrees (apart b r i h0 h1) (and_then (modify (\<lambda>s. s\<lparr>backup_filter := f, discarded_files := []\<rparr>)) (\<lambda>_. ?rest version))" for f version
    unfolding agrees_def
  proof (intro allI impI)
    fix s t assume a: "apart b r i h0 h1 s t"
    let ?g = "\<lambda>s. s\<lparr>backup_filter := f, discarded_files := []\<rparr>"
    have t: "t = s\<lparr>disk := disk t\<rparr>" using a by (simp add: apart_def)
    have "?g t = (?g s)\<lparr>disk := disk t\<rparr>" by (subst t) simp
    then have "apart True r i h0 h1 (?g s) (?g t)" using a by (auto simp: apart_def)
    moreover have weaken: "apart b r i h0 h1 u v" if "apart True r i h0 h1 u v" for u v
      using that by (auto simp: apart_def list_all_iff)
    ultimately show "fst (and_then (modify ?g) (\<lambda>_. ?rest version) s) = fst (and_then (modify ?g) (\<lambda>_. ?rest version) t) \<and>
        apart b r i h0 h1 (snd (and_then (modify ?g) (\<lambda>_. ?rest version) s)) (snd (and_then (modify ?g) (\<lambda>_. ?rest version) t))"
      using rest [of version] unfolding agrees_def by (simp add: and_then_def modify_def)
  qed
  show ?thesis
    unfolding backup_with_options_def
    by (intro agrees_and_then agrees_basic agrees_if before.agrees_version_exchange reset)
qed

lemma layout_operations_apart:
  "agrees (apart b r i h0 h1) (change_password env (absolute r) i old new)"
  "unwrap_or (restore_source options) target = i \<Longrightarrow> agrees (apart b r i h0 h1) (restore env (absolute r) target options)"
  "unwrap_or source target = i \<Longrightarrow> agrees (apart b r i h0 h1) (backup_info env (absolute r) target source)"
  "unwrap_or source target = i \<Longrightarrow> agrees (apart b r i h0 h1) (backup_list env (absolute r) target source)"
  "unwrap_or (non_empty_protocol_string source) target = i \<Longrightarrow> agrees (apart b r i h0 h1) (unback env (absolute r) target source password)"
  "unwrap_or (non_empty_protocol_string source) target = i \<Longrightarrow>
   agrees (apart b r i h0 h1) (backup_extract env (absolute r) target domain rel source password)"
proof -
  note after = agrees_and_then agrees_pair agrees_basic confined.agrees_version_exchange confined.agrees_request
    confined.agrees_finish_session confined.agrees_run_loop
  note before = agrees_and_then agrees_basic before.agrees_version_exchange before.agrees_finish_session agrees_deadline
  have create: "agrees (apart b r i h0 h1) (and_then (on_disk (create_runtime_layout (absolute r) i)) f)"
    if "\<And>lay h0 h1. agrees (alike b lay r i h0 h1) (f lay)" for f :: "backup_layout \<Rightarrow> 'x client_proc"
    by (rule apart_layout [OF create_layout_held, where g = "\<lambda>lay. lay"]) (auto dest: create_layout_result intro: that)
  have existing: "agrees (apart b r i h0 h1) (and_then (on_disk (existing_layout (absolute r) i)) f)"
    if "\<And>lay h0 h1. agrees (alike b lay r i h0 h1) (f lay)" for f :: "backup_layout \<Rightarrow> 'x client_proc"
    by (rule apart_layout [OF existing_layout_held, where g = "\<lambda>lay. lay"]) (auto dest: existing_layout_result intro: that)
  have manifest: "agrees (apart b r i h0 h1) (and_then (on_disk (restore_layout env (absolute r) i)) f)"
    if "\<And>x h0 h1. agrees (alike b (fst x) r i h0 h1) (f x)" for f :: "backup_layout \<times> (string \<times> plist) list \<Rightarrow> 'x client_proc"
    by (rule apart_layout [OF restore_layout_held, where g = fst]) (auto dest: restore_layout_result intro: that)
  show "agrees (apart b r i h0 h1) (change_password env (absolute r) i old new)"
    unfolding change_password_def by (intro before create; intro after)
  show "agrees (apart b r i h0 h1) (restore env (absolute r) target options)" if "unwrap_or (restore_source options) target = i"
    unfolding restore_def Let_def that by (intro before manifest; auto intro!: after)
  show "agrees (apart b r i h0 h1) (backup_info env (absolute r) target source)" if "unwrap_or source target = i"
    unfolding backup_info_def that by (intro before existing; intro after)
  show "agrees (apart b r i h0 h1) (backup_list env (absolute r) target source)" if "unwrap_or source target = i"
    unfolding backup_list_def Let_def that by (intro before existing; intro after)
  show "agrees (apart b r i h0 h1) (unback env (absolute r) target source password)"
    if "unwrap_or (non_empty_protocol_string source) target = i"
    unfolding unback_def run_device_unback_def Let_def that by (intro before existing; intro after)
  show "agrees (apart b r i h0 h1) (backup_extract env (absolute r) target domain rel source password)"
    if "unwrap_or (non_empty_protocol_string source) target = i"
    unfolding backup_extract_def run_device_extract_def Let_def that by (intro before existing; intro after)
qed

section \<open>Sessions\<close>

datatype reply = Stored "backup_layout \<times> version_exchange" | Changed | Content "plist option"

definition as_reply :: "('a \<Rightarrow> reply) \<Rightarrow> 'a client_proc \<Rightarrow> reply client_proc" where
  "as_reply g m = and_then m (\<lambda>x. ret (g x))"

text \<open>The operations of a client on the directory \<open>i\<close> below a backup root.\<close>

inductive operation :: "host_env \<Rightarrow> path \<Rightarrow> string \<Rightarrow> reply client_proc \<Rightarrow> bool" for env root where
  backup: "operation env root i (as_reply Stored (backup env root i full info))"
| backup_with_options: "operation env root i (as_reply Stored (backup_with_options env root i full info options))"
| change_password: "operation env root i (as_reply (\<lambda>_. Changed) (change_password env root i old new))"
| restore: "unwrap_or (restore_source options) target = i \<Longrightarrow>
    operation env root i (as_reply Stored (restore env root target options))"
| info: "unwrap_or source target = i \<Longrightarrow> operation env root i (as_reply Content (backup_info env root target source))"
| list: "unwrap_or source target = i \<Longrightarrow> operation env root i (as_reply Content (backup_list env root target source))"
| unback: "unwrap_or (non_empty_protocol_string source) target = i \<Longrightarrow>
    operation env root i (as_reply Content (unback env root target source password))"
| extraction: "unwrap_or (non_empty_protocol_string source) target = i \<Longrightarrow>
    operation env root i (as_reply Content (backup_extract env root target domain rel source password))"

text \<open>A client between operations; an operation may end in any way, also by being dropped.\<close>

inductive session :: "host_env \<Rightarrow> path \<Rightarrow> string set \<Rightarrow> backup_client \<Rightarrow> backup_client \<Rightarrow> bool" for env root I s where
  start: "session env root I s s"
| step: "session env root I s t \<Longrightarrow> i \<in> I \<Longrightarrow> operation env root i m \<Longrightarrow> session env root I s (snd (m t))"

lemma operation_apart: "operation env (absolute r) i m \<Longrightarrow> agrees (apart b r i h0 h1) m"
  by (erule operation.cases)
    (simp_all add: as_reply_def backup_def agrees_and_then agrees_basic backup_apart layout_operations_apart)

lemma operation_outside:
  assumes "operation env (absolute r) i m" and "dirs (entries (disk s)) [] r"
  shows "same_outside (r @ [i]) (disk s) (disk (snd (m s)))"
proof -
  have "apart False r i (disk s) (disk s) s s" using assms(2) by (simp add: apart_def list_all_iff)
  then have "apart False r i (disk s) (disk s) (snd (m s)) (snd (m s))"
    using operation_apart [OF assms(1)] by (auto simp: agrees_def)
  then show ?thesis by (simp add: apart_def)
qed

text \<open>
  C1. Whatever the devices send and however the host's system calls fail, a sequence of backup
  operations on directories \<open>I\<close> below a backup root changes nothing outside of these directories:
  every other file, directory and link of the host is what it was. Paths that climb out of the
  root, absolute paths and symbolic links that the device or an earlier backup put in the way do
  not lead out.
\<close>

theorem backup_confined:
  assumes "session env (absolute r) I s t" and "dirs (entries (disk s)) [] r" and "\<And>i. i \<in> I \<Longrightarrow> \<not> prefix (r @ [i]) p"
  shows "entry_at (entries (disk t)) p = entry_at (entries (disk s)) p"
proof -
  from assms(1) have "entry_at (entries (disk t)) p = entry_at (entries (disk s)) p \<and> dirs (entries (disk t)) [] r"
  proof induction
    case (step t i m)
    then have "same_outside (r @ [i]) (disk t) (disk (snd (m t)))" using operation_outside by blast
    then show ?case using step assms(3) dirs_outside by (auto simp: same_outside_def)
  qed (use assms(2) in simp)
  then show ?thesis ..
qed

text \<open>
  C5. What a backup operation sends to the device and what it returns depend on nothing outside the
  device's own directory: on two hosts that agree on this directory, on the directories above it and on
  the free space, the operation ends in the same way and leaves the same bytes on the wire.
\<close>

theorem backup_private:
  assumes "operation env (absolute r) i m" and "dirs (entries (disk s)) [] r"
    and "restrict (r @ [i]) (disk s) = restrict (r @ [i]) h"
  shows "fst (m s) = fst (m (s\<lparr>disk := h\<rparr>)) \<and> link (snd (m s)) = link (snd (m (s\<lparr>disk := h\<rparr>)))"
proof -
  have "dirs (entries h) [] r" using assms(2,3) dirs_restrict [of r i] by (metis restrict_simps(1))
  then have "apart False r i (disk s) h s (s\<lparr>disk := h\<rparr>)" using assms by (simp add: apart_def list_all_iff)
  then have same: "fst (m s) = fst (m (s\<lparr>disk := h\<rparr>))" "apart False r i (disk s) h (snd (m s)) (snd (m (s\<lparr>disk := h\<rparr>)))"
    using operation_apart [OF assms(1)] unfolding agrees_def by blast+
  have "snd (m (s\<lparr>disk := h\<rparr>)) = (snd (m s))\<lparr>disk := disk (snd (m (s\<lparr>disk := h\<rparr>)))\<rparr>"
    using same(2) unfolding apart_def by blast
  from same_link(1) [OF this] same(1) show ?thesis by (simp only:)
qed

end
