(* ===== verification/Backup_Examples.thy ===== *)
theory Backup_Examples
  imports Backup_Isolation Backup_Upload "HOL-Library.Code_Target_Numeral"
begin

text \<open>
  A run of the backup service, evaluated: a device that asks for a directory of its own and then for
  one outside the backup root, on a host with another file. The run witnesses the two theorems of
  \<open>Backup_Isolation\<close>.
\<close>

definition sample_message :: "bytes \<Rightarrow> plist option" where
  "sample_message bs = map_of
     [([1], PArray [PString ''DLMessageVersionExchange'', PInteger 300]),
      ([2], PArray [PString ''DLMessageDeviceReady'']),
      ([3], PArray [PString ''DLMessageProcessMessage'',
         PDictionary [(''ErrorCode'', PInteger 0), (''ProtocolVersion'', PReal 0x4000000000000000)]]),
      ([4], PArray [PString ''DLMessageCreateDirectory'', PString ''new'']),
      ([5], PArray [PString ''DLMessageCreateDirectory'', PString ''../../etc/new''])] bs"

definition sample_env :: host_env where
  "sample_env = \<lparr>to_xml = (\<lambda>_. Some [0]), to_binary = (\<lambda>_. Some [0]), from_bytes = sample_message,
     os_error_text = (\<lambda>_. ''error''), modification_date = (\<lambda>_. 0), inode_size = (\<lambda>_. 0), now = 0, fresh_uuid = ''id''\<rparr>"

definition sample_disk :: "bytes \<Rightarrow> host" where
  "sample_disk secret =
     \<lparr>entries = [([''b''], Directory), ([''etc''], Directory), ([''etc'', ''passwd''], File secret)],
      events = [], cwd = [], free_bytes = 10\<rparr>"

definition sample_client :: "bytes \<Rightarrow> backup_client" where
  "sample_client secret = Mobilebackup2Client_new
     \<lparr>rx = [Chunk (concat (map (\<lambda>n. [0, 0, 0, 1, n]) [1, 2, 3, 4, 5]))], wx = [], fx = [], wire = []\<rparr> (sample_disk secret)"

definition sample_operation :: "reply client_proc" where
  "sample_operation = as_reply (\<lambda>_. Changed) (change_password sample_env (absolute [''b'']) ''d'' None None)"

lemma sample_is_operation: "operation sample_env (absolute [''b'']) ''d'' sample_operation"
  unfolding sample_operation_def by (rule operation.change_password)

lemma sample_root: "dirs (entries (disk (sample_client secret))) [] [''b'']"
  by (simp add: sample_client_def sample_disk_def Mobilebackup2Client_new_def entry_at_def)

lemma sample_created:
  "entry_at (entries (disk (snd (sample_operation (sample_client [7]))))) [''b'', ''d'', ''new''] = Some Directory"
  by code_simp

lemma sample_session: "session sample_env (absolute [''b'']) {''d''} s (snd (sample_operation s))"
  by (rule session.step [OF session.start _ sample_is_operation]) simp

theorem backup_confined_witness:
  "entry_at (entries (disk (snd (sample_operation (sample_client [7]))))) [''b'', ''d'', ''new''] = Some Directory \<and>
   entry_at (entries (disk (snd (sample_operation (sample_client [7]))))) [''etc'', ''passwd''] =
   entry_at (entries (disk (sample_client [7]))) [''etc'', ''passwd'']"
proof
  show "entry_at (entries (disk (snd (sample_operation (sample_client [7]))))) [''etc'', ''passwd''] =
    entry_at (entries (disk (sample_client [7]))) [''etc'', ''passwd'']"
    by (rule backup_confined [OF sample_session sample_root]) simp
qed (rule sample_created)

theorem backup_private_witness:
  "fst (sample_operation (sample_client [7])) = fst (sample_operation ((sample_client [7])\<lparr>disk := sample_disk [8]\<rparr>)) \<and>
   link (snd (sample_operation (sample_client [7]))) = link (snd (sample_operation ((sample_client [7])\<lparr>disk := sample_disk [8]\<rparr>)))"
  by (rule backup_private [OF sample_is_operation sample_root])
    (simp add: sample_client_def sample_disk_def Mobilebackup2Client_new_def restrict_def relevant_def)

text \<open>An upload of a file in two frames, into a directory that is not there yet.\<close>

definition sample_upload :: upload where
  "sample_upload = \<lparr>up_device_name = ''dev'', up_file_name = ''ab/f'', up_place = [''d'', ''ab'', ''f''], up_pieces = [[1, 2], [3]]\<rparr>"

definition sample_layout :: backup_layout where
  "sample_layout = \<lparr>layout_root = absolute [''b''], device_directory = absolute [''b'', ''d''], target_identifier = ''d''\<rparr>"

definition sample_uploader :: backup_client where
  "sample_uploader = Mobilebackup2Client_new
     \<lparr>rx = [Chunk (concat (map upload_bytes [sample_upload]) @ to_be32 0 @ [9])], wx = [], fx = [], wire = []\<rparr>
     \<lparr>entries = [([''b''], Directory), ([''b'', ''d''], Directory)], events = [], cwd = [], free_bytes = 10\<rparr>"

lemma sample_tree: "tree (entries (disk sample_uploader))"
  by (auto simp: tree_def sample_uploader_def Mobilebackup2Client_new_def entry_at_def split: if_splits)

lemma sample_fits: "fits sample_layout [''b''] sample_upload" "validate_backup_identifier ''d'' = Inr ()"
  by code_simp+

lemma sample_storable: "storable (entries (disk sample_uploader)) [''b''] (up_place sample_upload)"
  by (simp add: storable_def sample_uploader_def sample_upload_def Mobilebackup2Client_new_def entry_at_def)

theorem backup_uploads_stored_witness:
  "\<exists>t. receive_uploaded_files sample_layout sample_uploader = (Ok (), t) \<and> at_input t [9] \<and>
     entry_at (entries (disk t)) [''b'', ''d'', ''ab'', ''f''] = Some (File [1, 2, 3])"
proof -
  have s: "events (disk sample_uploader) = []" "dirs (entries (disk sample_uploader)) [] [''b'']" "backup_filter sample_uploader = None"
    "transfer_files sample_uploader = 0" "transfer_bytes sample_uploader = 0"
    by (simp_all add: sample_uploader_def Mobilebackup2Client_new_def entry_at_def)
  have "at_input sample_uploader (concat (map upload_bytes [sample_upload]) @ to_be32 0 @ [9])"
    using s(1) by (simp add: at_input_def sample_uploader_def Mobilebackup2Client_new_def carries_one)
  from backup_uploads_stored [OF this, of sample_layout "[''b'']" "''d''"] sample_fits sample_storable sample_tree s obtain t where
    t: "receive_uploaded_files sample_layout sample_uploader = (Ok (), t)" "at_input t [9]"
    "\<forall>p c. map_of (rev (map (\<lambda>u. ([''b''] @ up_place u, content u)) [sample_upload])) p = Some c \<longrightarrow> entry_at (entries (disk t)) p = Some (File c)"
    by (auto simp: layout_at_def sample_layout_def content_def sample_upload_def MAX_DEVICE_TRANSFER_FILES_def MAX_DEVICE_TRANSFER_BYTES_def)
  then show ?thesis by (auto simp: sample_upload_def content_def)
qed

end
