(* ===== verification/Spec2Isabelle.thy ===== *)
theory Spec2Isabelle
  imports Wire_Frames Afc Tlv Opack Mbdb H2_Machine H2_Settings Archive_Roundtrip Dtx_Calls Xpc_Calls Debug_Server Crash_Reports
    Backup_Upload Backup_Examples
begin

text \<open>
  Verification of the protocol core of \<open>rust-ios-device\<close>, a client library for iOS devices.
  Paths below are relative to \<open>src/crates/ios-core/src/\<close>.

  \<^bold>\<open>The program.\<close> A host talks to services of a device over byte streams. Three stacks carry the
  services:
  \<^item> the classic services: length-prefixed property lists (\<open>lockdown/protocol.rs\<close>,
    \<open>services/plist_frame.rs\<close>, \<open>mux/protocol.rs\<close>) with, on top of them or beside them, the AFC file
    client (\<open>services/afc\<close>) with the crash reports (\<open>services/crashreport\<close>), the backup service
    (\<open>services/backup2\<close> over \<open>services/device_link.rs\<close>) and the debugger (\<open>services/debugserver\<close>);
  \<^item> XPC over HTTP/2: the framer (\<open>xpc/h2_raw.rs\<close>), the messages (\<open>xpc/message.rs\<close>), the connection with
    the service discovery handshake (\<open>xpc/rsd.rs\<close>) and the client (\<open>xpc/client.rs\<close>);
  \<^item> DTX, the remote calls of the developer tools: the connection (\<open>services/dtx\<close>), whose arguments
    are keyed archives (\<open>proto/nskeyedarchiver.rs\<close>, \<open>proto/nskeyedarchiver_encode.rs\<close>).
  The device is not trusted: lengths, identifiers, paths and object tables come from it. So the
  properties are of two kinds, that the data of a well-behaved device arrives complete and in order,
  and that no device can exhaust the memory of the host, tear a stream apart or reach files it
  must not.

  \<^bold>\<open>How the model is built.\<close> Bytes and integers keep the width they have in the source (\<open>Ios_Prelude\<close>);
  where a Rust computation is checked or saturating, the test is written out. A \<open>&mut self\<close> method is
  a handler, a function from the state to an outcome and the next state; an outcome is a value, an
  error, or the drop of the future at one of its awaits. What the peer and the scheduler do is a
  script: \<open>Async_Stream\<close> has the chunks that arrive, the end of the stream, transport errors, short
  writes and cancellation, \<open>Host_Files\<close> the failures and the short reads and writes of the system
  calls. A theorem about every script is one about every environment. Every loop of the source is
  a total function here: a loop that reads ends because each round uses up input (\<open>input_left\<close> and
  its analogues are the measures), so no result is lost by a bound; the name matcher, whose loop goes
  back, is a partial function that is shown to return on every input. The only bounds are those of
  the source itself (nesting limits of the decoders) and two of the operating system: 40 symbolic
  links per name resolution, and \<open>PATH_MAX\<close>, which bounds the depth of the recursions into
  directories; \<open>Backup_Trees\<close> proves that a greater depth would change nothing.

  \<^bold>\<open>Interfaces.\<close> What one component relies on in another is a locale, interpreted on the model's own
  definitions: \<open>prefix_codec\<close> and \<open>canonical_codec\<close> (\<open>Codec_Interface\<close>) for wire formats, interpreted by
  the lockdown frame, OPACK and the MBDB record; \<open>reassembler\<close> (\<open>Reassembly_Interface\<close>) for incremental
  decoders, interpreted by the XPC message buffer; \<open>framer_operations\<close>, \<open>framer_invariant\<close> and
  \<open>registry_invariant\<close> (\<open>H2_Invariants\<close>) for properties that survive every operation of the framer, with
  six interpretations; \<open>client_relation\<close>, \<open>backup_relation\<close> (\<open>Backup_Handlers\<close>) and \<open>host_condition\<close>
  (\<open>Backup_Layouts\<close>) for what every command of a backup device keeps.

  \<^bold>\<open>Codecs.\<close>
  \<^item> \<open>Wire_Frames\<close>: lockdown, plist and usbmuxd frames.
  \<^item> \<open>Tlv\<close>, \<open>Opack\<close> (\<open>proto/tlv.rs\<close>, \<open>proto/opack.rs\<close>): the items and values of the pairing messages. A TLV
    buffer implements the map from tags to concatenated values; OPACK values survive the round
    trip exactly up to the decoder's nesting limit.
  \<^item> \<open>Mbdb\<close> (\<open>services/backup2/mbdb.rs\<close>): parsing and serialising a manifest are inverse, and filtering
    keeps the selected records.
  \<^item> \<open>Xpc_Message\<close>: round trip, limits of the decoder, and reassembly from any chunks.
  \<^item> \<open>Keyed_Archive\<close> and \<open>Archive_Roundtrip\<close>: the archive encoder and decoder, the round trip of nested
    dictionaries, the bounded depth of every decoded value, the references of a test configuration.

  \<^bold>\<open>AFC\<close> (\<open>Afc\<close>). Every request of the client; whole-file reads and writes transfer the contents exactly,
  malformed headers are refused before their body is read.

  \<^bold>\<open>Crash reports\<close> (\<open>services/crashreport/mod.rs\<close>), a client of AFC. \<open>Crash_Patterns\<close> has the matcher of file
  names, a loop with a return point that is shown to return and to compute the meaning of the pattern;
  \<open>Crash_Times\<close> the calendar and the time stamps, with the round trip of rendering and key;
  \<open>Crash_Reports\<close> the client, whose listing finds exactly the matching files of any directory tree.

  \<^bold>\<open>Debugger\<close> (\<open>services/debugserver/mod.rs\<close>, theory \<open>Debug_Server\<close>). The packets with checksum, escapes and
  runs, and the client: replies arrive in order in every encoding the protocol allows, and
  nothing but an intact frame is ever returned.

  \<^bold>\<open>HTTP/2\<close> (\<open>xpc/h2_raw.rs\<close>). \<open>H2_State\<close> has the record \<open>h2\<close>, the frame reader and writer and the checks,
  \<open>H2_Registry\<close> the streams and their buffers, \<open>H2_Flow\<close> settings and windows, \<open>H2_Ops\<close> and \<open>H2_Framer\<close> the
  operations. \<open>H2_Memory\<close>, \<open>H2_Bounds\<close>, \<open>H2_Wire\<close> and \<open>H2_Read\<close> interpret the invariant interfaces: the
  memory budget is exact and respected, the tables and windows stay in range, the wire is always
  whole frames, a cancelled read loses nothing. \<open>H2_Machine\<close> states them for every reachable state of
  the connection as a step relation. \<open>H2_Settings\<close> is the meaning of a SETTINGS frame, \<open>H2_Transfer\<close> that
  what one framer writes another reads.

  \<^bold>\<open>XPC\<close> (\<open>xpc/rsd.rs\<close>, \<open>xpc/client.rs\<close>). \<open>Xpc_Connection\<close> and \<open>Xpc_Client\<close> have the record \<open>xpc_conn\<close>, the
  message reader, the budget of parked messages, the handshakes and the calls. \<open>Xpc_Pending\<close>: in every
  reachable state each parked message is counted with its size, the sums are exact and within the
  limits. \<open>Xpc_Alignment\<close>: a torn message makes every later operation fail
  before it touches the wire. \<open>Xpc_Delivery\<close> and \<open>Xpc_Calls\<close>: messages larger than the buffers of the
  framer arrive complete, a call returns its own reply, and discovery yields exactly the
  announced services.

  \<^bold>\<open>DTX\<close> (\<open>services/dtx\<close>). \<open>Dtx_Codec\<close> has the wire format, \<open>Dtx_Connection\<close> the record \<open>dtx\<close> and its methods,
  \<open>Dtx_Budget\<close> the accounting of each handler, \<open>Dtx_Memory\<close> the memory bound in every reachable state and
  what a dropped receive leaves behind, \<open>Dtx_Reassembly\<close> that a fragmented message is put together
  whatever the order of its fragments, \<open>Dtx_Calls\<close> that a call returns its own reply.

  \<^bold>\<open>Backup\<close> (\<open>services/backup2/mod.rs\<close>). \<open>Device_Link\<close> is the dialogue below it, \<open>Host_Files\<close> the file system.
  \<open>Backup_Paths\<close> has the path policy and the file operations, \<open>Backup_Filter\<close> the selection of files,
  \<open>Backup_Transfer\<close> the client's record \<open>backup_client\<close> and the uploads, \<open>Backup_Session\<close> the commands of the
  device, \<open>Backup_Loop\<close> the loop that serves them, \<open>Backup_Operations\<close> the operations a program calls.
  \<open>Backup_Guards\<close>, \<open>Backup_Confined\<close> and \<open>Backup_Trees\<close> show what the checks of the policy are worth and that
  each file operation stays inside the directory of the device; \<open>Backup_Handlers\<close>, \<open>Backup_Loop\<close> and
  \<open>Backup_Layouts\<close> carry that through the commands and the operations; \<open>Backup_Isolation\<close> states it: no
  sequence of operations changes anything outside, and neither a result nor a sent byte depends on
  anything outside. \<open>Backup_Upload\<close> is the positive side: uploads are stored byte for byte.
  \<open>Backup_Examples\<close> evaluates sample runs, the witnesses of these theorems.

  \<^bold>\<open>Parameters.\<close> Code from other crates is an argument of the definitions that use it: the reader and
  the writer of property lists, the compiler of regular expressions, SHA-1, the sizes and
  capacities the allocator chooses, the texts of operating system errors, dates and fresh
  identifiers. Where a theorem relies on such code, its hypothesis says what the documentation
  of that code promises, and a witness instantiates it.

  \<^bold>\<open>Limits of the model.\<close> The host is Linux and 64 bits wide; \<open>cfg\<close> branches for macOS and Windows are not
  modelled. The crate is built without the feature \<open>backup2-manifest\<close>. No other process changes the
  files during a backup operation, so races with one are out of scope (the source closes them
  with \<open>O_NOFOLLOW\<close>, which the model has). A backup operation is not dropped inside a file system step
  (\<open>run_blocking\<close>): in the source the detached step would still run to its end, one step of the ones
  modelled. File times are a parameter by path and do not follow the writes; only listed dates
  depend on them. Assertions of debug builds (\<open>debug_assert!\<close>) are left out. Log lines and progress callbacks have no effect and are left out.

  \<^bold>\<open>Not modelled.\<close>
  \<^item> Cryptography and pairing (\<open>pairing_transport.rs\<close>, \<open>psk_tls.rs\<close>, \<open>proto/tls.rs\<close>, \<open>credentials.rs\<close>, \<open>lockdown\<close>
    sessions, \<open>services/backup2/crypto.rs\<close>): compositions of third-party ciphers and certificates.
  \<^item> The manifest database (\<open>services/backup2/manifest.rs\<close>): queries for a third-party SQL engine.
  \<^item> Sockets, discovery and tunnels (\<open>mux/client.rs\<close>, \<open>device\<close>, \<open>discovery.rs\<close>, \<open>tunnel\<close>): they dial, and move
    packets between a socket and a third-party network stack.
  \<^item> The services that send a request and read an answer over a modelled connection (CoreDevice
    services over XPC, instruments and test manager over DTX, the plist services, web inspector,
    disk images, application transfer) and the log formats: their dialogue rests on the calls
    proved here, their own content is data for the caller.
  \<^item> Of the crash reports, the parser of report contents (JSON values of a third-party library) and the
    watch, which polls by timers.
  \<^item> The command line and the C and Python bindings.
\<close>

end
